(* ===== verification/Prelude.thy ===== *)
theory Prelude
  imports Main "HOL-Library.Word" "HOL-Library.Monad_Syntax"
begin

text \<open>
  What the components share: the widths of the C++ integers, checked array accesses, the
  preconditions of \<^verbatim>\<open>TPL_ASSERT\<close>, and facts on words.

  A C++ execution is modelled by an \<open>option\<close>: \<open>None\<close> stands for an execution the source
  gives no meaning to, that is a failed \<^verbatim>\<open>TPL_ASSERT\<close> (which aborts a debug build and is
  compiled away in a release build) or an access outside a \<^verbatim>\<open>std::vector\<close> or array.
  \<open>Some\<close> carries the result. A theorem that an operation returns \<open>Some\<close> therefore also
  says that its assertions hold and that no access is out of bounds.
\<close>

unbundle bit_operations_syntax

type_synonym u8 = "8 word"
type_synonym u16 = "16 word"
type_synonym u32 = "32 word"
type_synonym u64 = "64 word"

named_theorems checked \<open>unfolding of checked accesses and assertions\<close>
named_theorems abs_simps \<open>membership in the abstraction of a concrete structure\<close>

section \<open>Checked accesses\<close>

definition tpl_assert :: "bool \<Rightarrow> unit option" where
  "tpl_assert b = (if b then Some () else None)"

definition vec_at :: "'a list \<Rightarrow> nat \<Rightarrow> 'a option" where
  "vec_at xs i = (if i < length xs then Some (xs ! i) else None)"

definition vec_put :: "'a list \<Rightarrow> nat \<Rightarrow> 'a \<Rightarrow> 'a list option" where
  "vec_put xs i v = (if i < length xs then Some (xs[i := v]) else None)"

lemma tpl_assert_bind [checked]: "(tpl_assert b \<bind> f) = (if b then f () else None)"
  by (simp add: tpl_assert_def)

lemma vec_at_Some [checked]: "i < length xs \<Longrightarrow> vec_at xs i = Some (xs ! i)"
  by (simp add: vec_at_def)

lemma vec_at_None [checked]: "\<not> i < length xs \<Longrightarrow> vec_at xs i = None"
  by (simp add: vec_at_def)

lemma vec_put_Some [checked]: "i < length xs \<Longrightarrow> vec_put xs i v = Some (xs[i := v])"
  by (simp add: vec_put_def)

lemma vec_put_None [checked]: "\<not> i < length xs \<Longrightarrow> vec_put xs i v = None"
  by (simp add: vec_put_def)

lemma vec_put_length: "vec_put xs i v = Some ys \<Longrightarrow> length ys = length xs"
  by (auto simp: vec_put_def split: if_splits)

text \<open>A loop over a list whose body may fail.\<close>

fun fold_opt :: "('a \<Rightarrow> 'b \<Rightarrow> 'b option) \<Rightarrow> 'a list \<Rightarrow> 'b \<Rightarrow> 'b option" where
  "fold_opt f [] b = Some b"
| "fold_opt f (x # xs) b = do { b \<leftarrow> f x b; fold_opt f xs b }"

lemma fold_opt_map: "fold_opt f (map g xs) b = fold_opt (\<lambda>x. f (g x)) xs b"
proof (induction xs arbitrary: b)
  case (Cons x xs)
  then show ?case by (cases "f (g x) b") simp_all
qed simp

section \<open>Lists of indices\<close>

lemma sorted_list_of_set_eq_Cons:
  "finite A \<Longrightarrow> (\<And>a. a \<in> A \<Longrightarrow> m < a) \<Longrightarrow> sorted_list_of_set (insert m A) = m # sorted_list_of_set A"
  for m :: nat
proof -
  assume A: "finite A" "\<And>a. a \<in> A \<Longrightarrow> m < a"
  then have "m \<notin> A" by blast
  then show ?thesis
    using A sorted_list_of_set.idem_if_sorted_distinct [of "m # sorted_list_of_set A"]
    by (simp add: less_imp_le_nat)
qed

lemma sorted_list_of_set_eq_filter:
  "sorted_list_of_set {i. i < n \<and> P i} = filter P [0..<n]"
proof -
  have "set (filter P [0..<n]) = {i. i < n \<and> P i}" by auto
  then show ?thesis
    by (metis distinct_filter distinct_upt sorted_list_of_set.idem_if_sorted_distinct
        sorted_upt sorted_wrt_filter)
qed

lemma filter_upt_split:
  "a \<le> b \<Longrightarrow> b \<le> c \<Longrightarrow> filter P [a..<c] = filter P [a..<b] @ filter P [b..<c]"
  by (metis filter_append le_Suc_ex upt_add_eq_append)

lemma filter_upt_shift: "filter P [a..<a + n] = map ((+) a) (filter (\<lambda>i. P (a + i)) [0..<n])"
  by (induction n) auto

lemma upt_split_at: "r < n \<Longrightarrow> [0..<n] = [0..<r] @ r # [Suc r..<n]"
  by (metis less_imp_add_positive less_imp_le_nat upt_add_eq_append upt_conv_Cons zero_le)

lemma div_mod_split: "0 < (n::nat) \<Longrightarrow> j < n \<Longrightarrow> (i * n + j) div n = i \<and> (i * n + j) mod n = j"
  by simp

lemma sorted_wrt_drop_Cons:
  "sorted_wrt (<) xs \<Longrightarrow> i < length xs \<Longrightarrow>
     drop i xs = xs ! i # drop (Suc i) xs \<and> (\<forall>z \<in> set (drop (Suc i) xs). xs ! i < z)"
  for xs :: "'a::linorder list"
  using sorted_wrt_drop [of "(<)" xs i] Cons_nth_drop_Suc [of i xs, symmetric] by simp

lemma filter_mem_commute:
  fixes xs :: "'a::linorder list"
  assumes "sorted_wrt (<) xs" and "sorted_wrt (<) ys"
  shows "filter (\<lambda>x. x \<in> set ys) xs = filter (\<lambda>y. y \<in> set xs) ys"
proof (rule sorted_distinct_set_unique)
  show "set (filter (\<lambda>x. x \<in> set ys) xs) = set (filter (\<lambda>y. y \<in> set xs) ys)" by auto
qed (use assms in \<open>auto simp: strict_sorted_iff intro: sorted_wrt_filter\<close>)

lemma upt_split_mid: "j \<le> m \<Longrightarrow> m < n \<Longrightarrow> [j..<n] = [j..<m] @ m # [Suc m..<n]"
  using upt_add_eq_append [of j m "n - m"] by (simp add: upt_conv_Cons)

lemma length_filter_compl:
  assumes "A \<subseteq> {..<n}"
  shows "length (filter (\<lambda>i. i \<notin> A) [0..<n]) = n - card A"
proof -
  have "length (filter (\<lambda>i. i \<notin> A) [0..<n]) = card ({..<n} - A)"
    by (subst distinct_card [symmetric]) (auto intro!: arg_cong [of _ _ card])
  also have "\<dots> = n - card A"
    using assms by (simp add: card_Diff_subset finite_subset)
  finally show ?thesis .
qed

lemma filter_upt_extend: "n \<le> m \<Longrightarrow> (\<And>i. n \<le> i \<Longrightarrow> i < m \<Longrightarrow> \<not> P i) \<Longrightarrow>
   filter P [0..<m] = filter P [0..<n]"
  by (metis (no_types, lifting) append.right_neutral atLeastLessThan_iff filter_False filter_upt_split le0 set_upt)

section \<open>Decimal output\<close>

definition digit_char :: "nat \<Rightarrow> char" where
  "digit_char d = char_of (48 + d)"

text \<open>\<^verbatim>\<open>std::to_string\<close> of an unsigned integer.\<close>

fun to_string :: "nat \<Rightarrow> string" where
  "to_string n = (if n < 10 then [digit_char n] else to_string (n div 10) @ [digit_char (n mod 10)])"

declare to_string.simps [simp del]

section \<open>Words\<close>

lemma bit_iff_and_mask: "(w AND push_bit n 1 \<noteq> 0) = bit w n" for w :: "'a::len word"
  by (simp add: bit_iff_and_push_bit_not_eq_0)

lemma and_minus_one_less: "w \<noteq> 0 \<Longrightarrow> unat (w AND (w - 1)) < unat w" for w :: "'a::len word"
proof -
  assume "w \<noteq> 0"
  then have "w - 1 < w" by (simp add: word_less_nat_alt unat_minus_one unat_gt_0)
  moreover have "w AND (w - 1) \<le> w - 1" by (rule word_and_le1)
  ultimately show ?thesis by (simp add: word_less_nat_alt word_le_nat_alt)
qed

text \<open>Masking with the complement of \<open>2 ^ k - 1\<close> rounds down to a multiple of \<open>2 ^ k\<close>.\<close>

lemma unat_and_not_mask: "unat (w AND NOT (mask k)) = unat w div 2 ^ k * 2 ^ k"
  for w :: "'a::len word"
proof -
  have a: "w AND NOT (mask k) = push_bit k (drop_bit k w)"
    by (intro bit_word_eqI) (auto simp: bit_simps)
  have b: "unat w div 2 ^ k * 2 ^ k < 2 ^ LENGTH('a)"
    by (meson div_times_less_eq_dividend le_less_trans unsigned_less)
  show ?thesis
    unfolding a unsigned_push_bit_eq unsigned_drop_bit_eq
    using b by (simp add: push_bit_eq_mult drop_bit_eq_div take_bit_nat_eq_self)
qed

lemma unat_two_power: "k < LENGTH('a) \<Longrightarrow> unat (2 ^ k :: 'a::len word) = 2 ^ k"
proof -
  assume "k < LENGTH('a)"
  then have "(2::nat) ^ k < 2 ^ LENGTH('a)" by (rule power_strict_increasing) simp
  then have "unat (word_of_nat (2 ^ k) :: 'a word) = 2 ^ k"
    by (simp only: unsigned_of_nat take_bit_nat_eq_self of_nat_id)
  then show ?thesis by simp
qed

lemma unat_add_minus_one:
  fixes x y :: "'a::len word"
  assumes "y \<noteq> 0" and "unat x + unat y \<le> 2 ^ LENGTH('a)"
  shows "unat (x + y - 1) = unat x + (unat y - 1)"
proof -
  have pos: "0 < unat y" using assms(1) by (simp add: unat_gt_0)
  have "unat (y - 1) = unat y - 1" using assms(1) by (rule unat_minus_one)
  then have "unat (x + (y - 1)) = unat x + (unat y - 1)"
    using assms(2) pos by (subst unat_add_lem [THEN iffD1]) auto
  then show ?thesis by (simp add: algebra_simps)
qed

text \<open>Subtracting one flips the lowest set bit and everything below it.\<close>

lemma bit_minus_one:
  fixes w :: "'a::len word"
  assumes "bit w r" and "\<And>i. i < r \<Longrightarrow> \<not> bit w i"
  shows "bit (w - 1) j \<longleftrightarrow> (if j < r then True else j \<noteq> r \<and> bit w j)"
proof -
  let ?hi = "w AND NOT (mask (Suc r))"
  have r: "r < LENGTH('a)" using assms(1) by (rule bit_imp_le_length)
  have "w = ?hi OR push_bit r 1"
    using assms by (intro bit_word_eqI) (auto simp: bit_simps not_less_eq less_Suc_eq nat_neq_iff)
  also have "\<dots> = ?hi + push_bit r 1"
    by (intro disjunctive_add [symmetric]) (auto simp: bit_simps)
  finally have "w - 1 = ?hi + mask r"
    by (simp add: mask_eq_exp_minus_1 push_bit_eq_mult algebra_simps)
  also have "\<dots> = ?hi OR mask r"
    by (intro disjunctive_add) (auto simp: bit_simps)
  finally show ?thesis
    using r by (auto simp: bit_simps less_Suc_eq not_less_eq dest: bit_imp_le_length)
qed

lemma bit_clear_lowest:
  fixes w :: "'a::len word"
  assumes "bit w r" and "\<And>i. i < r \<Longrightarrow> \<not> bit w i"
  shows "bit (w AND (w - 1)) j \<longleftrightarrow> bit w j \<and> j \<noteq> r"
  using assms by (auto simp: bit_and_iff bit_minus_one [OF assms])

lemma ex_lowest_bit:
  "w \<noteq> 0 \<Longrightarrow> \<exists>r. bit w r \<and> (\<forall>i < r. \<not> bit w i)" for w :: "'a::len word"
proof -
  assume "w \<noteq> 0"
  then have "\<exists>r. bit w r" by (metis bit_0_eq bit_eq_iff bot_apply bot_bool_def)
  then show ?thesis by (metis LeastI not_less_Least)
qed

end
