(* ===== verification/BitUtil.thy ===== *)
theory BitUtil
  imports Prelude
begin

text \<open>
  \<^verbatim>\<open>src/src/include/util/math_util.h\<close> and \<^verbatim>\<open>src/src/include/util/bit_util.h\<close>.

  Both classes forward part of their work to LLVM's \<^verbatim>\<open>MathExtras.h\<close>, which is not part of
  the repository. Those functions are the fields of the record \<open>llvm\<close> below, an argument of
  every definition that calls them; the predicates \<open>llvm_ctz_ok\<close>, \<open>llvm_popcount_ok\<close> and
  \<open>llvm_pow2_ok\<close> state the documented behaviour the code relies on.
\<close>

section \<open>The LLVM functions the code calls\<close>

record llvm =
  countTrailingZeros :: "u64 \<Rightarrow> nat"
  countPopulation :: "u64 \<Rightarrow> nat"
  isPowerOf2_64 :: "u64 \<Rightarrow> bool"
  alignTo :: "u64 \<Rightarrow> u64 \<Rightarrow> u64"

text \<open>
  "Count number of 0's from the least significant bit to the most stopping at the first 1":
  only the behaviour on a non-zero argument is used.
\<close>

definition llvm_ctz_ok :: "llvm \<Rightarrow> bool" where
  "llvm_ctz_ok L \<longleftrightarrow> (\<forall>w. w \<noteq> 0 \<longrightarrow> bit w (countTrailingZeros L w) \<and>
     (\<forall>i < countTrailingZeros L w. \<not> bit w i))"

text \<open>"Count the number of set bits in a value."\<close>

definition llvm_popcount_ok :: "llvm \<Rightarrow> bool" where
  "llvm_popcount_ok L \<longleftrightarrow> (\<forall>w. countPopulation L w = length (filter (bit w) [0..<64]))"

text \<open>"Return true if the argument is a power of two greater than zero."\<close>

definition llvm_pow2_ok :: "llvm \<Rightarrow> bool" where
  "llvm_pow2_ok L \<longleftrightarrow> (\<forall>w. isPowerOf2_64 L w \<longleftrightarrow> (\<exists>k < 64. w = 2 ^ k))"

text \<open>
  "Returns the next integer (mod 2**64) that is greater than or equal to Value and is a multiple of Align.
  Align must be non-zero": only values for which that integer is below \<open>2 ^ 64\<close> are used.
\<close>

definition llvm_align_ok :: "llvm \<Rightarrow> bool" where
  "llvm_align_ok L \<longleftrightarrow> (\<forall>v a. a \<noteq> 0 \<longrightarrow> unat v + unat a \<le> 2 ^ 64 \<longrightarrow>
     unat (alignTo L v a) = (unat v + (unat a - 1)) div unat a * unat a)"

definition llvm_ok :: "llvm \<Rightarrow> bool" where
  "llvm_ok L \<longleftrightarrow> llvm_ctz_ok L \<and> llvm_popcount_ok L \<and> llvm_pow2_ok L"

lemma llvm_okD:
  assumes "llvm_ok L"
  shows "llvm_ctz_ok L" and "llvm_popcount_ok L" and "llvm_pow2_ok L"
  using assms by (simp_all add: llvm_ok_def)

text \<open>A concrete library that meets the hypotheses; witnesses evaluate it.\<close>

definition llvm_reference :: llvm where
  "llvm_reference =
     \<lparr> countTrailingZeros = (\<lambda>w. length (takeWhile (\<lambda>i. \<not> bit w i) [0..<64])),
       countPopulation = (\<lambda>w. length (filter (bit w) [0..<64])),
       isPowerOf2_64 = (\<lambda>w. \<exists>k \<in> set [0..<64]. w = 2 ^ k),
       alignTo = (\<lambda>v a. (v + (a - 1)) div a * a) \<rparr>"

lemma ctz_okD:
  assumes "llvm_ctz_ok L" and "w \<noteq> 0"
  shows "bit w (countTrailingZeros L w)" and "i < countTrailingZeros L w \<Longrightarrow> \<not> bit w i"
  using assms by (auto simp: llvm_ctz_ok_def)

lemma ctz_less_64: "llvm_ctz_ok L \<Longrightarrow> w \<noteq> 0 \<Longrightarrow> countTrailingZeros L w < 64"
  using ctz_okD(1) [of L w] bit_imp_le_length [of w] by simp

lemma ctz_filter:
  assumes "llvm_ctz_ok L" and "w \<noteq> 0"
  shows "filter (bit w) [0..<64] =
     countTrailingZeros L w # filter (bit (w AND (w - 1))) [0..<64]"
proof -
  define r where "r = countTrailingZeros L w"
  have r: "r < 64" "bit w r" "\<And>i. i < r \<Longrightarrow> \<not> bit w i"
    unfolding r_def using ctz_less_64 [OF assms] ctz_okD [OF assms] by auto
  have lo: "filter (bit w) [0..<r] = []" "filter (bit (w AND (w - 1))) [0..<r] = []"
    using r(3) by (auto simp: filter_empty_conv bit_and_iff)
  have hi: "filter (bit (w AND (w - 1))) [Suc r..<64] = filter (bit w) [Suc r..<64]"
    by (intro filter_cong refl) (auto simp: bit_clear_lowest [OF r(2,3)])
  have split: "[0..<64] = [0..<r] @ r # [Suc r..<64]"
    using r(1) by (rule upt_split_at)
  have "filter (bit w) [0..<64] = r # filter (bit w) [Suc r..<64]"
    using lo r(2) by (simp add: split)
  moreover have "filter (bit (w AND (w - 1))) [0..<64] = filter (bit w) [Suc r..<64]"
    using lo hi by (simp add: split bit_clear_lowest [OF r(2,3)])
  ultimately show ?thesis by (simp add: r_def)
qed

lemma llvm_reference_ctz: "llvm_ctz_ok llvm_reference"
  unfolding llvm_ctz_ok_def
proof (intro allI impI)
  fix w :: u64
  assume "w \<noteq> 0"
  then obtain r where r: "bit w r" "\<forall>i < r. \<not> bit w i" using ex_lowest_bit by blast
  have r64: "r < 64" using r(1) bit_imp_le_length [of w r] by simp
  have "[0..<64] = [0..<r] @ r # [Suc r..<64]"
    using r64 by (rule upt_split_at)
  then have "takeWhile (\<lambda>i. \<not> bit w i) [0..<64] = [0..<r]"
    using r by (simp only:) (subst takeWhile_append2, auto)
  then show "bit w (countTrailingZeros llvm_reference w) \<and>
    (\<forall>i < countTrailingZeros llvm_reference w. \<not> bit w i)"
    using r by (simp add: llvm_reference_def)
qed

lemma llvm_reference_ok: "llvm_ok llvm_reference"
  unfolding llvm_ok_def llvm_popcount_ok_def llvm_pow2_ok_def
  by (auto simp: llvm_reference_ctz) (auto simp: llvm_reference_def)

section \<open>MathUtil\<close>

definition DivRoundUp :: "u64 \<Rightarrow> u64 \<Rightarrow> u64 option" where
  "DivRoundUp numerator denominator =
     (if denominator = 0 then None else Some ((numerator + denominator - 1) div denominator))"

definition IsAligned :: "llvm \<Rightarrow> u64 \<Rightarrow> u64 \<Rightarrow> bool option" where
  "IsAligned L value alignment = do {
     tpl_assert (alignment \<noteq> 0 \<and> isPowerOf2_64 L alignment);
     Some ((value AND (alignment - 1)) = 0) }"

definition AlignTo :: "llvm \<Rightarrow> u64 \<Rightarrow> u64 \<Rightarrow> u64" where
  "AlignTo L value align = alignTo L value align"

definition AlignAddress :: "llvm \<Rightarrow> u64 \<Rightarrow> u64 \<Rightarrow> u64 option" where
  "AlignAddress L addr alignment = do {
     tpl_assert (alignment > 0 \<and> isPowerOf2_64 L alignment);
     Some ((addr + alignment - 1) AND NOT (alignment - 1)) }"

definition AlignmentAdjustment :: "llvm \<Rightarrow> u64 \<Rightarrow> u64 \<Rightarrow> u64 option" where
  "AlignmentAdjustment L addr alignment = do {
     a \<leftarrow> AlignAddress L addr alignment;
     Some (a - addr) }"

lemma DivRoundUp_nat:
  assumes "denominator \<noteq> 0" and "unat numerator + unat denominator \<le> 2 ^ 64"
  shows "\<exists>q. DivRoundUp numerator denominator = Some q \<and>
    unat q = (unat numerator + unat denominator - 1) div unat denominator"
  using assms unat_add_minus_one [of denominator numerator]
  by (simp add: DivRoundUp_def unat_div_distrib unat_gt_0 Suc_leI)

lemma round_up_least:
  assumes "0 < (a::nat)" and "z = (x + (a - 1)) div a * a"
  shows "x \<le> z" and "z < x + a" and "a dvd z"
    and "a dvd y \<Longrightarrow> x \<le> y \<Longrightarrow> z \<le> y"
proof -
  have eq: "z + (x + (a - 1)) mod a = x + (a - 1)"
    using div_mult_mod_eq [of "x + (a - 1)" a] assms(2) by simp
  have lt: "(x + (a - 1)) mod a < a" using assms(1) by simp
  show "x \<le> z" "z < x + a" using eq lt assms(1) by linarith+
  show "a dvd z" using assms(2) by simp
  assume "a dvd y" and "x \<le> y"
  then obtain q where q: "y = a * q" by (auto simp: dvd_def)
  have "(x + (a - 1)) div a \<le> (y + (a - 1)) div a"
    using \<open>x \<le> y\<close> by (simp add: div_le_mono)
  also have "\<dots> = q" unfolding q using assms(1) by (intro div_nat_eqI) auto
  finally show "z \<le> y" unfolding assms(2) q by (metis mult.commute mult_le_mono1)
qed

lemma llvm_reference_align: "llvm_align_ok llvm_reference"
  unfolding llvm_align_ok_def
proof (intro allI impI)
  fix v a :: u64
  assume a: "a \<noteq> 0" and le: "unat v + unat a \<le> 2 ^ 64"
  have sum: "unat (v + (a - 1)) = unat v + (unat a - 1)"
    using unat_add_minus_one [OF a, of v] le by (simp add: add_diff_eq unat_gt_0 a)
  have "(unat v + (unat a - 1)) div unat a * unat a \<le> unat v + (unat a - 1)"
    by (rule div_times_less_eq_dividend)
  also have "\<dots> < 2 ^ 64" using le unat_gt_0 [of a] a by linarith
  finally have "(unat v + (unat a - 1)) div unat a * unat a < 2 ^ 64" .
  then show "unat (alignTo llvm_reference v a) = (unat v + (unat a - 1)) div unat a * unat a"
    by (simp add: llvm_reference_def unat_mult_lem [THEN iffD1] unat_div_distrib sum)
qed

lemma AlignAddress_value:
  assumes "llvm_pow2_ok L" and "k < 64" and "unat addr + 2 ^ k \<le> 2 ^ 64"
  shows "\<exists>r. AlignAddress L addr (2 ^ k) = Some r \<and>
    unat r = (unat addr + (2 ^ k - 1)) div 2 ^ k * 2 ^ k"
proof -
  have nz: "(2::u64) ^ k \<noteq> 0" using assms(2) by simp
  have pow: "isPowerOf2_64 L (2 ^ k)" using assms(1,2) by (auto simp: llvm_pow2_ok_def)
  have "unat ((2::u64) ^ k) = 2 ^ k" using assms(2) by (simp add: unat_two_power)
  then have "unat (addr + 2 ^ k - 1) = unat addr + (2 ^ k - 1)"
    using unat_add_minus_one [OF nz, of addr] assms(3) by simp
  then show ?thesis
    using nz pow unat_and_not_mask [of "addr + 2 ^ k - 1" k]
    by (simp add: AlignAddress_def checked word_gt_0 mask_eq_exp_minus_1)
qed

text \<open>
  For every alignment that is a power of two, \<open>AlignAddress\<close> returns the least multiple of
  the alignment that is not below the address, provided that rounding up does not leave the
  64-bit address space.
\<close>

theorem AlignAddress_least:
  assumes "llvm_ok L" and "k < 64" and "unat addr + 2 ^ k \<le> 2 ^ 64"
  shows "\<exists>r. AlignAddress L addr (2 ^ k) = Some r \<and>
    2 ^ k dvd unat r \<and> unat addr \<le> unat r \<and>
    (\<forall>y. 2 ^ k dvd y \<and> unat addr \<le> y \<longrightarrow> unat r \<le> y)"
proof -
  obtain r where r: "AlignAddress L addr (2 ^ k) = Some r"
    "unat r = (unat addr + (2 ^ k - 1)) div 2 ^ k * 2 ^ k"
    using AlignAddress_value [OF llvm_okD(3) [OF assms(1)] assms(2,3)] by blast
  note least = round_up_least [OF _ r(2)]
  show ?thesis using r(1) least(1,3,4) by (intro exI [of _ r] conjI) auto
qed

theorem AlignAddress_least_witness:
  "AlignAddress llvm_reference 13 8 = Some 16 \<and>
   (\<exists>r. AlignAddress llvm_reference 13 (2 ^ 3) = Some r \<and>
    2 ^ 3 dvd unat r \<and> unat (13 :: u64) \<le> unat r \<and>
    (\<forall>y. 2 ^ 3 dvd y \<and> unat (13 :: u64) \<le> y \<longrightarrow> unat r \<le> y))"
proof -
  have "AlignAddress llvm_reference 13 8 = Some 16" by code_simp
  moreover have "unat (13 :: u64) + 2 ^ 3 \<le> 2 ^ 64" by simp
  ultimately show ?thesis
    using AlignAddress_least [OF llvm_reference_ok, of 3 13] by simp
qed

section \<open>BitUtil on arrays of 32-bit words\<close>

definition kBitWordSize :: nat where
  "kBitWordSize = 32"

definition BitUtil_Test :: "u32 list \<Rightarrow> nat \<Rightarrow> bool option" where
  "BitUtil_Test bits idx = do {
     let mask = push_bit (idx mod kBitWordSize) 1;
     w \<leftarrow> vec_at bits (idx div kBitWordSize);
     Some (w AND mask \<noteq> 0) }"

definition BitUtil_Set :: "u32 list \<Rightarrow> nat \<Rightarrow> u32 list option" where
  "BitUtil_Set bits idx = do {
     w \<leftarrow> vec_at bits (idx div kBitWordSize);
     vec_put bits (idx div kBitWordSize) (w OR push_bit (idx mod kBitWordSize) 1) }"

definition BitUtil_Unset :: "u32 list \<Rightarrow> nat \<Rightarrow> u32 list option" where
  "BitUtil_Unset bits idx = do {
     w \<leftarrow> vec_at bits (idx div kBitWordSize);
     vec_put bits (idx div kBitWordSize) (w AND NOT (push_bit (idx mod kBitWordSize) 1)) }"

definition BitUtil_Flip :: "u32 list \<Rightarrow> nat \<Rightarrow> u32 list option" where
  "BitUtil_Flip bits idx = do {
     w \<leftarrow> vec_at bits (idx div kBitWordSize);
     vec_put bits (idx div kBitWordSize) (w XOR push_bit (idx mod kBitWordSize) 1) }"

section \<open>The bits of an array of 64-bit words\<close>

text \<open>
  \<open>bits_of ws\<close> is the set of positions whose bit is set in the array \<open>ws\<close>, numbered as
  \<^verbatim>\<open>position / 64\<close> and \<^verbatim>\<open>position % 64\<close> number them; \<open>set_positions ws\<close> lists them in
  ascending order.
\<close>

definition bits_of :: "u64 list \<Rightarrow> nat set" where
  "bits_of ws = {p. p div 64 < length ws \<and> bit (ws ! (p div 64)) (p mod 64)}"

definition set_positions :: "u64 list \<Rightarrow> nat list" where
  "set_positions ws = filter (\<lambda>p. bit (ws ! (p div 64)) (p mod 64)) [0..<64 * length ws]"

lemma mem_bits_of [abs_simps]:
  "p \<in> bits_of ws \<longleftrightarrow> p div 64 < length ws \<and> bit (ws ! (p div 64)) (p mod 64)"
  by (simp add: bits_of_def)

lemma mem_bits_of_update [abs_simps]:
  "i < length ws \<Longrightarrow> p \<in> bits_of (ws[i := w]) \<longleftrightarrow>
     (if p div 64 = i then bit w (p mod 64) else p \<in> bits_of ws)"
  by (auto simp: bits_of_def nth_list_update)

lemma mem_bits_of_map [abs_simps]:
  "p \<in> bits_of (map f ws) \<longleftrightarrow> p div 64 < length ws \<and> bit (f (ws ! (p div 64))) (p mod 64)"
  by (auto simp: bits_of_def)

lemma mem_bits_of_map2 [abs_simps]:
  "length us = length ws \<Longrightarrow> p \<in> bits_of (map2 f us ws) \<longleftrightarrow>
     p div 64 < length ws \<and> bit (f (us ! (p div 64)) (ws ! (p div 64))) (p mod 64)"
  by (auto simp: bits_of_def)

lemma bits_of_finite [simp]: "finite (bits_of ws)"
  by (rule finite_subset [of _ "{..<64 * length ws}"]) (auto simp: bits_of_def)

lemma div_64_less: "p div 64 < n \<longleftrightarrow> p < 64 * n" for p n :: nat
  by (simp add: div_less_iff_less_mult mult.commute)

lemma set_positions_eq: "set_positions ws = sorted_list_of_set (bits_of ws)"
  using sorted_list_of_set_eq_filter [of "64 * length ws" "\<lambda>p. bit (ws ! (p div 64)) (p mod 64)"]
  by (simp add: set_positions_def bits_of_def div_64_less)

lemma set_set_positions [simp]: "set (set_positions ws) = bits_of ws"
  by (simp add: set_positions_eq)

lemma sorted_set_positions [simp]: "sorted (set_positions ws)" "distinct (set_positions ws)"
  by (simp_all add: set_positions_eq)

lemma set_positions_Nil [simp]: "set_positions [] = []"
  by (simp add: set_positions_def)

lemma set_positions_snoc:
  "set_positions (ws @ [w]) =
     set_positions ws @ map ((+) (64 * length ws)) (filter (bit w) [0..<64])"
proof -
  let ?n = "64 * length ws"
  let ?P = "\<lambda>p. bit ((ws @ [w]) ! (p div 64)) (p mod 64)"
  have "filter ?P [0..<?n + 64] = filter ?P [0..<?n] @ filter ?P [?n..<?n + 64]"
    by (rule filter_upt_split) auto
  moreover have "filter ?P [0..<?n] = set_positions ws"
    unfolding set_positions_def by (intro filter_cong refl) (auto simp: nth_append div_64_less)
  moreover have "filter ?P [?n..<?n + 64] = map ((+) ?n) (filter (bit w) [0..<64])"
    unfolding filter_upt_shift by (intro arg_cong [of _ _ "map _"] filter_cong refl)
      (auto simp: nth_append)
  ultimately show ?thesis by (simp add: set_positions_def add.commute)
qed

lemma set_positions_bound: "p \<in> set (set_positions ws) \<Longrightarrow> p < 64 * length ws"
  by (simp add: set_positions_def)

lemma length_set_positions: "length (set_positions ws) = card (bits_of ws)"
  by (simp add: set_positions_eq)

end
