(* ===== verification/MatchLUT.thy ===== *)
theory MatchLUT
  imports BitUtil
begin

text \<open>
  The table \<^verbatim>\<open>k8BitMatchLUT\<close> of \<^verbatim>\<open>src/src/include/util/vector_lookup_tables.h\<close>, entry by entry,
  and the proof that entry \<open>m\<close> lists the positions of the set bits of the byte \<open>m\<close>: the
  correctness of every SIMD routine that unpacks a mask into indexes rests on this.
\<close>

section \<open>The lookup table\<close>

definition k8BitMatchLUT :: "u64 list" where
  "k8BitMatchLUT = [
     0x0001020304050607, 0x0102030405060700, 0x0002030405060701, 0x0203040506070100,
     0x0001030405060702, 0x0103040506070200, 0x0003040506070201, 0x0304050607020100,
     0x0001020405060703, 0x0102040506070300, 0x0002040506070301, 0x0204050607030100,
     0x0001040506070302, 0x0104050607030200, 0x0004050607030201, 0x0405060703020100,
     0x0001020305060704, 0x0102030506070400, 0x0002030506070401, 0x0203050607040100,
     0x0001030506070402, 0x0103050607040200, 0x0003050607040201, 0x0305060704020100,
     0x0001020506070403, 0x0102050607040300, 0x0002050607040301, 0x0205060704030100,
     0x0001050607040302, 0x0105060704030200, 0x0005060704030201, 0x0506070403020100,
     0x0001020304060705, 0x0102030406070500, 0x0002030406070501, 0x0203040607050100,
     0x0001030406070502, 0x0103040607050200, 0x0003040607050201, 0x0304060705020100,
     0x0001020406070503, 0x0102040607050300, 0x0002040607050301, 0x0204060705030100,
     0x0001040607050302, 0x0104060705030200, 0x0004060705030201, 0x0406070503020100,
     0x0001020306070504, 0x0102030607050400, 0x0002030607050401, 0x0203060705040100,
     0x0001030607050402, 0x0103060705040200, 0x0003060705040201, 0x0306070504020100,
     0x0001020607050403, 0x0102060705040300, 0x0002060705040301, 0x0206070504030100,
     0x0001060705040302, 0x0106070504030200, 0x0006070504030201, 0x0607050403020100,
     0x0001020304050706, 0x0102030405070600, 0x0002030405070601, 0x0203040507060100,
     0x0001030405070602, 0x0103040507060200, 0x0003040507060201, 0x0304050706020100,
     0x0001020405070603, 0x0102040507060300, 0x0002040507060301, 0x0204050706030100,
     0x0001040507060302, 0x0104050706030200, 0x0004050706030201, 0x0405070603020100,
     0x0001020305070604, 0x0102030507060400, 0x0002030507060401, 0x0203050706040100,
     0x0001030507060402, 0x0103050706040200, 0x0003050706040201, 0x0305070604020100,
     0x0001020507060403, 0x0102050706040300, 0x0002050706040301, 0x0205070604030100,
     0x0001050706040302, 0x0105070604030200, 0x0005070604030201, 0x0507060403020100,
     0x0001020304070605, 0x0102030407060500, 0x0002030407060501, 0x0203040706050100,
     0x0001030407060502, 0x0103040706050200, 0x0003040706050201, 0x0304070605020100,
     0x0001020407060503, 0x0102040706050300, 0x0002040706050301, 0x0204070605030100,
     0x0001040706050302, 0x0104070605030200, 0x0004070605030201, 0x0407060503020100,
     0x0001020307060504, 0x0102030706050400, 0x0002030706050401, 0x0203070605040100,
     0x0001030706050402, 0x0103070605040200, 0x0003070605040201, 0x0307060504020100,
     0x0001020706050403, 0x0102070605040300, 0x0002070605040301, 0x0207060504030100,
     0x0001070605040302, 0x0107060504030200, 0x0007060504030201, 0x0706050403020100,
     0x0001020304050607, 0x0102030405060700, 0x0002030405060701, 0x0203040506070100,
     0x0001030405060702, 0x0103040506070200, 0x0003040506070201, 0x0304050607020100,
     0x0001020405060703, 0x0102040506070300, 0x0002040506070301, 0x0204050607030100,
     0x0001040506070302, 0x0104050607030200, 0x0004050607030201, 0x0405060703020100,
     0x0001020305060704, 0x0102030506070400, 0x0002030506070401, 0x0203050607040100,
     0x0001030506070402, 0x0103050607040200, 0x0003050607040201, 0x0305060704020100,
     0x0001020506070403, 0x0102050607040300, 0x0002050607040301, 0x0205060704030100,
     0x0001050607040302, 0x0105060704030200, 0x0005060704030201, 0x0506070403020100,
     0x0001020304060705, 0x0102030406070500, 0x0002030406070501, 0x0203040607050100,
     0x0001030406070502, 0x0103040607050200, 0x0003040607050201, 0x0304060705020100,
     0x0001020406070503, 0x0102040607050300, 0x0002040607050301, 0x0204060705030100,
     0x0001040607050302, 0x0104060705030200, 0x0004060705030201, 0x0406070503020100,
     0x0001020306070504, 0x0102030607050400, 0x0002030607050401, 0x0203060705040100,
     0x0001030607050402, 0x0103060705040200, 0x0003060705040201, 0x0306070504020100,
     0x0001020607050403, 0x0102060705040300, 0x0002060705040301, 0x0206070504030100,
     0x0001060705040302, 0x0106070504030200, 0x0006070504030201, 0x0607050403020100,
     0x0001020304050706, 0x0102030405070600, 0x0002030405070601, 0x0203040507060100,
     0x0001030405070602, 0x0103040507060200, 0x0003040507060201, 0x0304050706020100,
     0x0001020405070603, 0x0102040507060300, 0x0002040507060301, 0x0204050706030100,
     0x0001040507060302, 0x0104050706030200, 0x0004050706030201, 0x0405070603020100,
     0x0001020305070604, 0x0102030507060400, 0x0002030507060401, 0x0203050706040100,
     0x0001030507060402, 0x0103050706040200, 0x0003050706040201, 0x0305070604020100,
     0x0001020507060403, 0x0102050706040300, 0x0002050706040301, 0x0205070604030100,
     0x0001050706040302, 0x0105070604030200, 0x0005070604030201, 0x0507060403020100,
     0x0001020304070605, 0x0102030407060500, 0x0002030407060501, 0x0203040706050100,
     0x0001030407060502, 0x0103040706050200, 0x0003040706050201, 0x0304070605020100,
     0x0001020407060503, 0x0102040706050300, 0x0002040706050301, 0x0204070605030100,
     0x0001040706050302, 0x0104070605030200, 0x0004070605030201, 0x0407060503020100,
     0x0001020307060504, 0x0102030706050400, 0x0002030706050401, 0x0203070605040100,
     0x0001030706050402, 0x0103070605040200, 0x0003070605040201, 0x0307060504020100,
     0x0001020706050403, 0x0102070605040300, 0x0002070605040301, 0x0207060504030100,
     0x0001070605040302, 0x0107060504030200, 0x0007060504030201, 0x0706050403020100]"
definition byte_of :: "u64 \<Rightarrow> nat \<Rightarrow> u8" where
  "byte_of w j = ucast (drop_bit (8 * j) w)"

text \<open>
  \<^verbatim>\<open>_mm_cvtepi8_epi16(_mm_loadl_epi64(&k8BitMatchLUT[mask]))\<close>: the eight bytes of the table
  entry, sign-extended to 16 bits, lowest byte first.
\<close>

definition match_pos :: "u8 \<Rightarrow> u16 list" where
  "match_pos m = map (\<lambda>j. scast (byte_of (k8BitMatchLUT ! unat m) j)) [0..<8]"

lemma length_match_pos [simp]: "length (match_pos m) = 8"
  by (simp add: match_pos_def)


section \<open>The table is right\<close>

text \<open>
  A check of one entry on integers: every set bit of \<open>m\<close>, from position \<open>j\<close> on, is matched by
  the next byte of \<open>v\<close>.
\<close>

fun lut_entry_ok :: "nat \<Rightarrow> int \<Rightarrow> int \<Rightarrow> int \<Rightarrow> bool" where
  "lut_entry_ok 0 j m v = True"
| "lut_entry_ok (Suc n) j m v =
     (if m mod 2 = 1 then v mod 256 = j \<and> lut_entry_ok n (j + 1) (m div 2) (v div 256)
      else lut_entry_ok n (j + 1) (m div 2) v)"

fun lut_ok :: "int \<Rightarrow> u64 list \<Rightarrow> bool" where
  "lut_ok m [] = True"
| "lut_ok m (v # vs) = (lut_entry_ok 8 0 m (uint v) \<and> lut_ok (m + 1) vs)"

lemma k8BitMatchLUT_ok: "lut_ok 0 k8BitMatchLUT"
  by code_simp

lemma length_k8BitMatchLUT: "length k8BitMatchLUT = 256"
  by (simp add: k8BitMatchLUT_def)

lemma lut_ok_nth: "lut_ok m vs \<Longrightarrow> i < length vs \<Longrightarrow> lut_entry_ok 8 0 (m + int i) (uint (vs ! i))"
proof (induction m vs arbitrary: i rule: lut_ok.induct)
  case (2 m v vs)
  then show ?case by (cases i) (auto simp: algebra_simps)
qed simp

lemma filter_bit_div2: "filter (bit m) [0..<Suc n] =
  (if odd m then [0] else []) @ map Suc (filter (bit (m div 2)) [0..<n])" for m :: int
proof -
  have "[0..<Suc n] = 0 # map Suc [0..<n]" by (simp add: map_Suc_upt upt_conv_Cons)
  then show ?thesis by (simp add: filter_map o_def bit_Suc bit_0 del: upt_Suc)
qed

lemma lut_entry_ok_bytes:
  "lut_entry_ok n j m v \<Longrightarrow> t < length (filter (bit m) [0..<n]) \<Longrightarrow>
   v div 256 ^ t mod 256 = j + int (filter (bit m) [0..<n] ! t)"
proof (induction n arbitrary: j m v t)
  case (Suc n)
  show ?case
  proof (cases "odd m")
    case True
    show ?thesis
    proof (cases t)
      case 0
      then show ?thesis using Suc.prems True by (simp add: filter_bit_div2 odd_iff_mod_2_eq_one del: upt_Suc)
    next
      case (Suc t')
      have "v div 256 div 256 ^ t' mod 256 = (j + 1) + int (filter (bit (m div 2)) [0..<n] ! t')"
        using Suc.prems True Suc by (intro Suc.IH) (auto simp: filter_bit_div2 odd_iff_mod_2_eq_one simp del: upt_Suc)
      then show ?thesis using Suc.prems True Suc
        by (simp add: filter_bit_div2 zdiv_zmult2_eq del: upt_Suc)
    qed
  next
    case False
    have "v div 256 ^ t mod 256 = (j + 1) + int (filter (bit (m div 2)) [0..<n] ! t)"
        using Suc.prems False by (intro Suc.IH) (auto simp: filter_bit_div2 odd_iff_mod_2_eq_one simp del: upt_Suc)
      then show ?thesis using Suc.prems False
        by (simp add: filter_bit_div2  del: upt_Suc)
  qed
qed simp

lemma uint_byte_of: "uint (byte_of v t) = uint v div 256 ^ t mod 256"
  unfolding byte_of_def unsigned_ucast_eq unsigned_drop_bit_eq
  using uint_bounded [of v] by (simp add: take_bit_eq_mod drop_bit_eq_div power_mult)

lemma match_lane:
  fixes m :: u8
  assumes "lut_entry_ok 8 0 (uint m) (uint v)" and "t < length (filter (bit m) [0..<8])"
  shows "(scast (byte_of v t) :: u16) = of_nat (filter (bit m) [0..<8] ! t)"
proof -
  have f: "filter (bit m) [0..<8] = filter (bit (uint m)) [0..<8]"
    by (intro filter_cong refl) (auto simp: bit_uint_iff)
  define p where "p = filter (bit m) [0..<8] ! t"
  have "p \<in> set (filter (bit m) [0..<8])" using assms(2) p_def by (metis nth_mem)
  then have p: "p < 8" by simp
  have "uint (byte_of v t) = int p"
    using lut_entry_ok_bytes [OF assms(1), of t] assms(2) by (simp add: uint_byte_of f p_def)
  then have "byte_of v t = of_nat p" by (metis of_int_of_nat_eq word_of_int_uint)
  moreover have "scast (of_nat p :: u8) = (of_nat p :: u16)"
    using p by (auto simp: less_Suc_eq numeral_eq_Suc)
  ultimately show ?thesis by (simp add: p_def)
qed

lemma match_pos_correct:
  "take (length (filter (bit m) [0..<8])) (match_pos m) = map of_nat (filter (bit m) [0..<8])"
proof -
  have "unat m < 256" using unsigned_less [of m] by simp
  then have "lut_entry_ok 8 0 (uint m) (uint (k8BitMatchLUT ! unat m))"
    using lut_ok_nth [OF k8BitMatchLUT_ok, of "unat m"]
    by (simp add: length_k8BitMatchLUT)
  moreover have "length (filter (bit m) [0..<8]) \<le> 8"
    by (metis length_filter_le length_upt diff_zero)
  ultimately show ?thesis
    by (intro nth_equalityI) (auto simp: match_pos_def match_lane)
qed

end
