(* ===== verification/VectorUtil.thy ===== *)
theory VectorUtil
  imports MatchLUT
begin

text \<open>
  \<^verbatim>\<open>src/src/util/vector_util.cpp\<close>: conversions between the three representations of a set of
  tuple positions (a selection vector of 16-bit indexes, a vector of saturated bytes, a bit
  vector) and sorted-set operations on selection vectors.

  An input pointer with its length is a list. An output pointer is the caller's buffer, a list
  whose length is its capacity; every store is checked against it, and an operation returns the
  number of elements it reports together with the buffer it leaves behind. The SIMD intrinsics
  are modelled lane by lane.
\<close>

type_synonym sel_t = u16

section \<open>Buffers\<close>

text \<open>\<open>buf_has out k xs\<close>: the first \<open>k\<close> elements of the buffer are \<open>xs\<close>.\<close>

definition buf_has :: "'a list \<Rightarrow> nat \<Rightarrow> 'a list \<Rightarrow> bool" where
  "buf_has out k xs \<longleftrightarrow> k = length xs \<and> k \<le> length out \<and> take k out = xs"

lemma buf_has_Nil [simp]: "buf_has out 0 []"
  by (simp add: buf_has_def)

lemma buf_has_push:
  "buf_has out k xs \<Longrightarrow> k < length out \<Longrightarrow> buf_has (out[k := v]) (Suc k) (xs @ [v])"
  by (auto simp: buf_has_def take_Suc_conv_app_nth)

lemma buf_has_scribble: "buf_has out k xs \<Longrightarrow> buf_has (out[k := v]) k xs"
  by (auto simp: buf_has_def)

definition mm_storeu_si128 :: "u16 list \<Rightarrow> nat \<Rightarrow> u16 list \<Rightarrow> u16 list option" where
  "mm_storeu_si128 out k lanes =
     (if k + 8 \<le> length out then Some (take k out @ lanes @ drop (k + 8) out) else None)"

lemma buf_has_store:
  assumes "buf_has out k xs" and "k + 8 \<le> length out" and "length lanes = 8" and "n \<le> 8"
  shows "\<exists>out'. mm_storeu_si128 out k lanes = Some out' \<and> length out' = length out \<and>
    buf_has out' (k + n) (xs @ take n lanes)"
  using assms by (auto simp: buf_has_def mm_storeu_si128_def min_def)

section \<open>Sorted-set operations on selection vectors\<close>

function intersect_loop ::
  "sel_t list \<Rightarrow> sel_t list \<Rightarrow> nat \<Rightarrow> nat \<Rightarrow> nat \<Rightarrow> sel_t list \<Rightarrow> (nat \<times> sel_t list) option" where
  "intersect_loop v1 v2 i j k out =
     (if i < length v1 \<and> j < length v2 then
        if v1 ! i = v2 ! j then
          do { out' \<leftarrow> vec_put out k (v1 ! i); intersect_loop v1 v2 (i + 1) (j + 1) (k + 1) out' }
        else if v1 ! i < v2 ! j then intersect_loop v1 v2 (i + 1) j k out
        else intersect_loop v1 v2 i (j + 1) k out
      else Some (k, out))"
  by pat_completeness auto
termination
  by (relation "measure (\<lambda>(v1, v2, i, j, k, out). (length v1 - i) + (length v2 - j))") auto

declare intersect_loop.simps [simp del]

function IntersectSelected :: "sel_t list \<Rightarrow> sel_t list \<Rightarrow> sel_t list \<Rightarrow> (nat \<times> sel_t list) option" where
  "IntersectSelected v1 v2 out =
     (if length v1 = 0 \<or> length v2 = 0 then Some (0, out)
      else if length v1 > length v2 then IntersectSelected v2 v1 out
      else intersect_loop v1 v2 0 0 0 out)"
  by pat_completeness auto
termination
  by (relation "measure (\<lambda>(v1, v2, out). length v1 - length v2)") auto

declare IntersectSelected.simps [simp del]

fun intersect_bits_loop ::
  "sel_t list \<Rightarrow> u64 list \<Rightarrow> nat \<Rightarrow> sel_t list \<Rightarrow> (nat \<times> sel_t list) option" where
  "intersect_bits_loop [] bits k out = Some (k, out)"
| "intersect_bits_loop (index # sel) bits k out = do {
     w \<leftarrow> vec_at bits (unat index div 64);
     let b = (w AND push_bit (unat index mod 64) 1 \<noteq> 0);
     out' \<leftarrow> vec_put out k index;
     intersect_bits_loop sel bits (k + of_bool b) out' }"

definition IntersectSelectedBits ::
  "sel_t list \<Rightarrow> u64 list \<Rightarrow> sel_t list \<Rightarrow> (nat \<times> sel_t list) option" where
  "IntersectSelectedBits sel bits out = intersect_bits_loop sel bits 0 out"

text \<open>\<^verbatim>\<open>while (j < limit) out[k++] = j++;\<close>\<close>

function emit_upto :: "nat \<Rightarrow> nat \<Rightarrow> nat \<Rightarrow> sel_t list \<Rightarrow> (nat \<times> nat \<times> sel_t list) option" where
  "emit_upto limit j k out =
     (if j < limit then do { out' \<leftarrow> vec_put out k (of_nat j); emit_upto limit (j + 1) (k + 1) out' }
      else Some (j, k, out))"
  by pat_completeness auto
termination
  by (relation "measure (\<lambda>(limit, j, k, out). limit - j)") auto

declare emit_upto.simps [simp del]

fun diff_scalar_loop ::
  "nat \<Rightarrow> sel_t list \<Rightarrow> nat \<Rightarrow> nat \<Rightarrow> sel_t list \<Rightarrow> (nat \<times> sel_t list) option" where
  "diff_scalar_loop n [] j k out = do { (j, k, out) \<leftarrow> emit_upto n j k out; Some (k, out) }"
| "diff_scalar_loop n (s # sel) j k out = do {
     (j, k, out) \<leftarrow> emit_upto (unat s) j k out;
     diff_scalar_loop n sel (j + 1) k out }"

text \<open>The function returns \<^verbatim>\<open>n - m\<close>, not the counter \<^verbatim>\<open>k\<close>, on unsigned 32-bit integers.\<close>

definition DiffSelected_Scalar :: "u32 \<Rightarrow> sel_t list \<Rightarrow> sel_t list \<Rightarrow> (u32 \<times> sel_t list) option" where
  "DiffSelected_Scalar n sel out = do {
     (k, out) \<leftarrow> diff_scalar_loop (unat n) sel 0 0 out;
     Some (n - of_nat (length sel), out) }"

fun SelectionVectorToByteVector :: "sel_t list \<Rightarrow> u8 list \<Rightarrow> u8 list option" where
  "SelectionVectorToByteVector [] bytes = Some bytes"
| "SelectionVectorToByteVector (s # sel) bytes = do {
     bytes \<leftarrow> vec_put bytes (unat s) 0xFF;
     SelectionVectorToByteVector sel bytes }"

section \<open>Byte vectors\<close>

text \<open>\<^verbatim>\<open>*reinterpret_cast<const uint64_t *>(byte_vector + i)\<close>, little-endian.\<close>

definition load_u64 :: "u8 list \<Rightarrow> nat \<Rightarrow> u64 option" where
  "load_u64 bytes i =
     (if i + 8 \<le> length bytes
      then Some (horner_sum of_bool 2
        (map (\<lambda>b. bit (bytes ! (i + b div 8)) (b mod 8)) [0..<64]))
      else None)"

definition pext_u64 :: "u64 \<Rightarrow> u64 \<Rightarrow> u64" where
  "pext_u64 src m = horner_sum of_bool 2 (map (bit src) (filter (bit m) [0..<64]))"

text \<open>One iteration of the main loop, on the eight bytes at \<open>i\<close>.\<close>

definition byte_block :: "llvm \<Rightarrow> u8 list \<Rightarrow> nat \<Rightarrow> u16 \<Rightarrow> nat \<Rightarrow> sel_t list
    \<Rightarrow> (u16 \<times> nat \<times> sel_t list) option" where
  "byte_block L bytes i idx k out = do {
     word \<leftarrow> load_u64 bytes i;
     let mask = pext_u64 word 0x202020202020202;
     tpl_assert (mask < 256);
     let pos_vec = map ((+) idx) (match_pos (ucast mask));
     let idx = idx + 8;
     out \<leftarrow> mm_storeu_si128 out k pos_vec;
     Some (idx, k + countPopulation L mask, out) }"

function byte_main_loop :: "llvm \<Rightarrow> u8 list \<Rightarrow> nat \<Rightarrow> u16 \<Rightarrow> nat \<Rightarrow> sel_t list
    \<Rightarrow> (nat \<times> nat \<times> sel_t list) option" where
  "byte_main_loop L bytes i idx k out =
     (if i + 8 \<le> length bytes
      then do { (idx, k, out) \<leftarrow> byte_block L bytes i idx k out;
                byte_main_loop L bytes (i + 8) idx k out }
      else Some (i, k, out))"
  by pat_completeness auto
termination
  by (relation "measure (\<lambda>(L, bytes, i, idx, k, out). length bytes - i)") auto

declare byte_main_loop.simps [simp del]

function byte_tail_loop :: "u8 list \<Rightarrow> nat \<Rightarrow> nat \<Rightarrow> sel_t list \<Rightarrow> (nat \<times> sel_t list) option" where
  "byte_tail_loop bytes i k out =
     (if i < length bytes
      then do { out \<leftarrow> vec_put out k (of_nat i);
                byte_tail_loop bytes (i + 1) (k + of_bool (bytes ! i = 0xFF)) out }
      else Some (k, out))"
  by pat_completeness auto
termination
  by (relation "measure (\<lambda>(bytes, i, k, out). length bytes - i)") auto

declare byte_tail_loop.simps [simp del]

definition ByteVectorToSelectionVector :: "llvm \<Rightarrow> u8 list \<Rightarrow> sel_t list
    \<Rightarrow> (nat \<times> sel_t list) option" where
  "ByteVectorToSelectionVector L bytes out = do {
     (i, k, out) \<leftarrow> byte_main_loop L bytes 0 0 0 out;
     byte_tail_loop bytes i k out }"

definition kDefaultVectorSize :: nat where
  "kDefaultVectorSize = 2048"

definition DiffSelected_WithScratchPad :: "llvm \<Rightarrow> nat \<Rightarrow> sel_t list \<Rightarrow> sel_t list \<Rightarrow> u8 list
    \<Rightarrow> (nat \<times> sel_t list) option" where
  "DiffSelected_WithScratchPad L n sel out scratch = do {
     tpl_assert (n \<le> kDefaultVectorSize);
     tpl_assert (n \<le> length scratch);
     let scratch = replicate n 0 @ drop n scratch;
     scratch \<leftarrow> SelectionVectorToByteVector sel scratch;
     let scratch = map NOT (take n scratch) @ drop n scratch;
     ByteVectorToSelectionVector L (take n scratch) out }"

text \<open>
  The scratch array of \<^verbatim>\<open>DiffSelected\<close> is an uninitialised local array of \<open>kDefaultVectorSize\<close>
  bytes; the argument \<open>scratch\<close> is whatever it happens to hold.
\<close>

definition DiffSelected :: "llvm \<Rightarrow> u8 list \<Rightarrow> nat \<Rightarrow> sel_t list \<Rightarrow> sel_t list
    \<Rightarrow> (nat \<times> sel_t list) option" where
  "DiffSelected L scratch n sel out = DiffSelected_WithScratchPad L n sel out scratch"

section \<open>Bit vectors\<close>

text \<open>\<^verbatim>\<open>_mm256_movemask_epi8\<close>: the most significant bit of each byte.\<close>

definition movemask_epi8 :: "u8 list \<Rightarrow> u32" where
  "movemask_epi8 bytes = horner_sum of_bool 2 (map (\<lambda>b. bit b 7) bytes)"

function byte_to_bit_main :: "u8 list \<Rightarrow> nat \<Rightarrow> nat \<Rightarrow> u64 list \<Rightarrow> (nat \<times> nat \<times> u64 list) option" where
  "byte_to_bit_main bytes i k bits =
     (if i + 64 \<le> length bytes
      then do {
        let v_lo = take 32 (drop i bytes);
        let v_hi = take 32 (drop (i + 32) bytes);
        let hi = movemask_epi8 v_hi;
        let lo = movemask_epi8 v_lo;
        bits \<leftarrow> vec_put bits k (push_bit 32 (ucast hi) OR ucast lo);
        byte_to_bit_main bytes (i + 64) (k + 1) bits }
      else Some (i, k, bits))"
  by pat_completeness auto
termination
  by (relation "measure (\<lambda>(bytes, i, k, bits). length bytes - i)") auto

declare byte_to_bit_main.simps [simp del]

function byte_to_bit_tail :: "u8 list \<Rightarrow> nat \<Rightarrow> nat \<Rightarrow> u64 list \<Rightarrow> u64 list option" where
  "byte_to_bit_tail bytes i k bits =
     (if i < length bytes
      then do {
        let val = (scast (bytes ! i) :: u64);
        let m = push_bit (i mod 64) 1;
        w \<leftarrow> vec_at bits k;
        bits \<leftarrow> vec_put bits k (w XOR ((val XOR w) AND m));
        byte_to_bit_tail bytes (i + 1) k bits }
      else Some bits)"
  by pat_completeness auto
termination
  by (relation "measure (\<lambda>(bytes, i, k, bits). length bytes - i)") auto

declare byte_to_bit_tail.simps [simp del]

definition ByteVectorToBitVector :: "u8 list \<Rightarrow> u64 list \<Rightarrow> u64 list option" where
  "ByteVectorToBitVector bytes bits = do {
     (i, k, bits) \<leftarrow> byte_to_bit_main bytes 0 0 bits;
     byte_to_bit_tail bytes i k bits }"

text \<open>
  The 32 lanes computed from one 32-bit half: \<^verbatim>\<open>set1_epi32\<close> and \<^verbatim>\<open>shuffle_epi8\<close> put byte
  \<open>j div 8\<close> of the half into lane \<open>j\<close>, \<^verbatim>\<open>or_si256\<close> sets every bit of it but bit \<open>j mod 8\<close>, and
  \<^verbatim>\<open>cmpeq_epi8\<close> compares the lane with \<open>0xFF\<close>.
\<close>

definition expand_lanes :: "u32 \<Rightarrow> u8 list" where
  "expand_lanes w = map (\<lambda>j.
     let lane = (ucast (drop_bit (8 * (j div 8)) w) :: u8) OR byte_of 0x7fbfdfeff7fbfdfe (j mod 8)
     in if lane = 0xFF then 0xFF else 0) [0..<32]"

definition store_bytes :: "u8 list \<Rightarrow> nat \<Rightarrow> u8 list \<Rightarrow> u8 list option" where
  "store_bytes out k lanes =
     (if k + length lanes \<le> length out
      then Some (take k out @ lanes @ drop (k + length lanes) out) else None)"

fun bit_to_byte_main :: "u64 list \<Rightarrow> nat \<Rightarrow> nat \<Rightarrow> nat \<Rightarrow> u8 list \<Rightarrow> (nat \<times> u8 list) option" where
  "bit_to_byte_main bits 0 i k out = Some (k, out)"
| "bit_to_byte_main bits (Suc n) i k out = do {
     word \<leftarrow> vec_at bits i;
     out \<leftarrow> store_bytes out k (expand_lanes (ucast word));
     out \<leftarrow> store_bytes out (k + 32) (expand_lanes (ucast (drop_bit 32 word)));
     bit_to_byte_main bits n (i + 1) (k + 64) out }"

fun bit_to_byte_tail :: "u64 \<Rightarrow> nat \<Rightarrow> nat \<Rightarrow> u8 list \<Rightarrow> u8 list option" where
  "bit_to_byte_tail word 0 k out = Some out"
| "bit_to_byte_tail word (Suc n) k out = do {
     out \<leftarrow> vec_put out k (- of_bool (word AND 1 = 1));
     bit_to_byte_tail (drop_bit 1 word) n (k + 1) out }"

definition BitVectorToByteVector :: "u64 list \<Rightarrow> nat \<Rightarrow> u8 list \<Rightarrow> u8 list option" where
  "BitVectorToByteVector bits num_bits out = do {
     (k, out) \<leftarrow> bit_to_byte_main bits (num_bits div 64) 0 0 out;
     let tail_size = num_bits mod 64;
     if tail_size \<noteq> 0
     then do { word \<leftarrow> vec_at bits (num_bits div 64); bit_to_byte_tail word tail_size k out }
     else Some out }"

function sparse_word :: "llvm \<Rightarrow> nat \<Rightarrow> u64 \<Rightarrow> nat \<Rightarrow> sel_t list \<Rightarrow> (nat \<times> sel_t list) option" where
  "sparse_word L base word k out =
     (if word \<noteq> 0
      then do {
        out \<leftarrow> vec_put out k (of_nat (base + countTrailingZeros L word));
        sparse_word L base (word AND (word - 1)) (k + 1) out }
      else Some (k, out))"
  by pat_completeness auto
termination
  by (relation "measure (\<lambda>(L, base, word, k, out). unat word)") (auto simp: and_minus_one_less)

declare sparse_word.simps [simp del]

fun sparse_loop :: "llvm \<Rightarrow> u64 list \<Rightarrow> nat \<Rightarrow> nat \<Rightarrow> nat \<Rightarrow> nat \<Rightarrow> sel_t list
    \<Rightarrow> (nat \<times> sel_t list) option" where
  "sparse_loop L bits 0 i base k out = Some (k, out)"
| "sparse_loop L bits (Suc n) i base k out = do {
     word \<leftarrow> vec_at bits i;
     (k, out) \<leftarrow> sparse_word L base word k out;
     sparse_loop L bits n (i + 1) (base + 64) k out }"

definition num_words_for :: "nat \<Rightarrow> nat" where
  "num_words_for num_bits = (num_bits + 64 - 1) div 64"

definition BitVectorToSelectionVector_Sparse :: "llvm \<Rightarrow> u64 list \<Rightarrow> nat \<Rightarrow> sel_t list
    \<Rightarrow> (nat \<times> sel_t list) option" where
  "BitVectorToSelectionVector_Sparse L bits num_bits out =
     sparse_loop L bits (num_words_for num_bits) 0 0 0 out"

text \<open>The output position \<^verbatim>\<open>k\<close> of the AVX2 routine is a 16-bit integer.\<close>

fun dense_word :: "llvm \<Rightarrow> nat \<Rightarrow> u64 \<Rightarrow> u16 \<Rightarrow> u16 \<Rightarrow> sel_t list
    \<Rightarrow> (u16 \<times> u16 \<times> sel_t list) option" where
  "dense_word L 0 word idx k out = Some (idx, k, out)"
| "dense_word L (Suc n) word idx k out = do {
     let m = (ucast word :: u8);
     let word = drop_bit 8 word;
     let pos_vec = map ((+) idx) (match_pos m);
     let idx = idx + 8;
     out \<leftarrow> mm_storeu_si128 out (unat k) pos_vec;
     dense_word L n word idx (k + of_nat (countPopulation L (ucast m))) out }"

fun dense_loop :: "llvm \<Rightarrow> u64 list \<Rightarrow> nat \<Rightarrow> nat \<Rightarrow> u16 \<Rightarrow> u16 \<Rightarrow> sel_t list
    \<Rightarrow> (nat \<times> sel_t list) option" where
  "dense_loop L bits 0 i idx k out = Some (unat k, out)"
| "dense_loop L bits (Suc n) i idx k out = do {
     word \<leftarrow> vec_at bits i;
     (idx, k, out) \<leftarrow> dense_word L 8 word idx k out;
     dense_loop L bits n (i + 1) idx k out }"

definition BitVectorToSelectionVector_Dense_AVX2 :: "llvm \<Rightarrow> u64 list \<Rightarrow> nat \<Rightarrow> sel_t list
    \<Rightarrow> (nat \<times> sel_t list) option" where
  "BitVectorToSelectionVector_Dense_AVX2 L bits num_bits out =
     dense_loop L bits (num_words_for num_bits) 0 0 0 out"

text \<open>
  \<^verbatim>\<open>_mm512_mask_compressstoreu_epi16(sel_vector + k, mask, indexes)\<close> stores the lanes of
  \<open>indexes\<close> whose mask bit is set, contiguously.
\<close>

definition mask_compressstoreu_epi16 :: "sel_t list \<Rightarrow> nat \<Rightarrow> u32 \<Rightarrow> u16 list \<Rightarrow> sel_t list option" where
  "mask_compressstoreu_epi16 out k m indexes =
     (let lanes = map (\<lambda>j. indexes ! j) (filter (bit m) [0..<32])
      in if k + length lanes \<le> length out
         then Some (take k out @ lanes @ drop (k + length lanes) out) else None)"

text \<open>
  The AVX-512 routine bumps its indexes by the expression statement
  \<^verbatim>\<open>_mm512_add_epi16(indexes, _32);\<close>, whose result is discarded: \<open>indexes\<close> never changes.
\<close>

fun dense512_loop :: "llvm \<Rightarrow> u64 list \<Rightarrow> nat \<Rightarrow> nat \<Rightarrow> u16 list \<Rightarrow> nat \<Rightarrow> sel_t list
    \<Rightarrow> (nat \<times> sel_t list) option" where
  "dense512_loop L bits 0 i indexes k out = Some (k, out)"
| "dense512_loop L bits (Suc n) i indexes k out = do {
     word \<leftarrow> vec_at bits i;
     let m = (ucast word :: u32);
     out \<leftarrow> mask_compressstoreu_epi16 out k m indexes;
     let k = k + countPopulation L (ucast m);
     let m = (ucast (drop_bit 32 word) :: u32);
     out \<leftarrow> mask_compressstoreu_epi16 out k m indexes;
     let k = k + countPopulation L (ucast m);
     dense512_loop L bits n (i + 1) indexes k out }"

definition BitVectorToSelectionVector_Dense_AVX512 :: "llvm \<Rightarrow> u64 list \<Rightarrow> nat \<Rightarrow> sel_t list
    \<Rightarrow> (nat \<times> sel_t list) option" where
  "BitVectorToSelectionVector_Dense_AVX512 L bits num_bits out =
     dense512_loop L bits (num_words_for num_bits) 0 (map of_nat [0..<32]) 0 out"

text \<open>The argument \<open>avx512\<close> is the build-time switch \<^verbatim>\<open>__AVX512VBMI2__\<close>.\<close>

definition BitVectorToSelectionVector_Dense :: "llvm \<Rightarrow> bool \<Rightarrow> u64 list \<Rightarrow> nat \<Rightarrow> sel_t list
    \<Rightarrow> (nat \<times> sel_t list) option" where
  "BitVectorToSelectionVector_Dense L avx512 bits num_bits out =
     (if avx512 then BitVectorToSelectionVector_Dense_AVX512 L bits num_bits out
      else BitVectorToSelectionVector_Dense_AVX2 L bits num_bits out)"

text \<open>
  The routine counts the set bits and compares the density, a \<^verbatim>\<open>float\<close>, with \<open>0.15\<close>. The
  comparison is the argument \<open>sparse\<close>, a function of the two counts.
\<close>

definition BitVectorToSelectionVector :: "llvm \<Rightarrow> bool \<Rightarrow> (nat \<Rightarrow> nat \<Rightarrow> bool) \<Rightarrow> u64 list \<Rightarrow> nat
    \<Rightarrow> sel_t list \<Rightarrow> (nat \<times> sel_t list) option" where
  "BitVectorToSelectionVector L avx512 sparse bits num_bits out = do {
     let num_words = num_words_for num_bits;
     tpl_assert (num_words \<le> length bits);
     let count = sum_list (map (countPopulation L) (take num_words bits));
     if sparse count num_bits
     then BitVectorToSelectionVector_Sparse L bits num_bits out
     else BitVectorToSelectionVector_Dense L avx512 bits num_bits out }"

section \<open>Correctness of the sorted-set operations\<close>

lemma intersect_loop_correct:
  assumes "sorted_wrt (<) v1" and "sorted_wrt (<) v2" and "buf_has out k xs"
    and "k + length (filter (\<lambda>x. x \<in> set (drop j v2)) (drop i v1)) \<le> length out"
  shows "\<exists>n out'. intersect_loop v1 v2 i j k out = Some (n, out') \<and> length out' = length out \<and>
    buf_has out' n (xs @ filter (\<lambda>x. x \<in> set (drop j v2)) (drop i v1))"
  using assms
proof (induction v1 v2 i j k out arbitrary: xs rule: intersect_loop.induct)
  case (1 v1 v2 i j k out)
  show ?case
  proof (cases "i < length v1 \<and> j < length v2")
    case False
    then show ?thesis using "1.prems" by (auto simp: intersect_loop.simps [of v1 v2 i j])
  next
    case True
    let ?x = "v1 ! i" and ?y = "v2 ! j"
    have d1: "drop i v1 = ?x # drop (Suc i) v1" "\<forall>z \<in> set (drop (Suc i) v1). ?x < z"
      and d2: "drop j v2 = ?y # drop (Suc j) v2" "\<forall>z \<in> set (drop (Suc j) v2). ?y < z"
      using True sorted_wrt_drop_Cons "1.prems"(1,2) by blast+
    consider (eq) "?x = ?y" | (lt) "?x < ?y" | (gt) "?y < ?x" by fastforce
    then show ?thesis
    proof cases
      case eq
      have *: "filter (\<lambda>x. x \<in> set (drop j v2)) (drop i v1) =
          ?x # filter (\<lambda>x. x \<in> set (drop (Suc j) v2)) (drop (Suc i) v1)"
        using d1 d2 eq by (auto intro!: filter_cong)
      have room: "k < length out" using "1.prems"(4) * by simp
      show ?thesis
        using "1.IH"(1) [OF True eq, of "out[k := ?x]" "xs @ [?x]"] "1.prems" room True eq *
        by (simp add: intersect_loop.simps [of v1 v2 i j] checked buf_has_push)
    next
      case lt
      then have "?x \<notin> set (drop j v2)" using d2 by auto
      then have "filter (\<lambda>x. x \<in> set (drop j v2)) (drop i v1) =
          filter (\<lambda>x. x \<in> set (drop j v2)) (drop (Suc i) v1)"
        using d1(1) by simp
      then show ?thesis
        using "1.IH"(2) [of xs] "1.prems" True lt less_imp_neq [OF lt]
        by (simp add: intersect_loop.simps [of v1 v2 i j] checked)
    next
      case gt
      then have "\<forall>z \<in> set (drop i v1). z \<noteq> ?y" using d1 by auto
      then have "filter (\<lambda>x. x \<in> set (drop j v2)) (drop i v1) =
          filter (\<lambda>x. x \<in> set (drop (Suc j) v2)) (drop i v1)"
        using d2(1) by (auto intro!: filter_cong)
      then show ?thesis
        using "1.IH"(3) [of xs] "1.prems" True gt less_imp_neq [OF gt] less_not_sym [OF gt]
        by (simp add: intersect_loop.simps [of v1 v2 i j] checked)
    qed
  qed
qed

lemma IntersectSelected_result:
  assumes "sorted_wrt (<) v1" and "sorted_wrt (<) v2" 
    and "length (filter (\<lambda>x. x \<in> set v2) v1) \<le> length out"
  shows "\<exists>n out'. IntersectSelected v1 v2 out = Some (n, out') \<and>
    buf_has out' n (filter (\<lambda>x. x \<in> set v2) v1)"
proof -
  have base: "\<exists>n out'. IntersectSelected v1 v2 out = Some (n, out') \<and>
      buf_has out' n (filter (\<lambda>x. x \<in> set v2) v1)"
    if "sorted_wrt (<) v1" "sorted_wrt (<) v2" "length v1 \<le> length v2"
      "length (filter (\<lambda>x. x \<in> set v2) v1) \<le> length out" for v1 v2
    using intersect_loop_correct [OF that(1,2) buf_has_Nil, of 0 0 out] that
    by (auto simp: IntersectSelected.simps [of v1 v2])
  show ?thesis
  proof (cases "length v1 \<le> length v2")
    case True
    then show ?thesis using base assms by blast
  next
    case False
    then have "length v2 = 0 \<or> IntersectSelected v1 v2 out = IntersectSelected v2 v1 out"
      by (auto simp: IntersectSelected.simps [of v1 v2])
    then show ?thesis
      using base [OF assms(2,1)] False assms(3) filter_mem_commute [OF assms(1,2)]
      by (auto simp: IntersectSelected.simps [of v1 v2])
  qed
qed

lemma emit_upto_correct:
  assumes "buf_has out k xs" and "k + (limit - j) \<le> length out"
  shows "\<exists>out'. emit_upto limit j k out = Some (max j limit, k + (limit - j), out') \<and>
    length out' = length out \<and> buf_has out' (k + (limit - j)) (xs @ map of_nat [j..<limit])"
  using assms
proof (induction limit j k out arbitrary: xs rule: emit_upto.induct)
  case (1 limit j k out)
  show ?case
  proof (cases "j < limit")
    case True
    then have d: "limit - j = Suc (limit - Suc j)" "max j limit = max (Suc j) limit"
      "[j..<limit] = j # [Suc j..<limit]"
      by (auto simp: upt_conv_Cons)
    show ?thesis
      using "1.IH" [of "out[k := of_nat j]" "xs @ [of_nat j]"] "1.prems" True
      by (simp add: emit_upto.simps [of limit j] checked buf_has_push d)
  next
    case False
    then show ?thesis using "1.prems" by (simp add: emit_upto.simps [of limit j] max_def)
  qed
qed

lemma diff_scalar_loop_correct:
  assumes "sorted_wrt (<) sel" and "\<forall>s \<in> set sel. j \<le> unat s \<and> unat s < n"
    and "buf_has out k xs"
    and "k + length (filter (\<lambda>i. i \<notin> unat ` set sel) [j..<n]) \<le> length out"
  shows "\<exists>m out'. diff_scalar_loop n sel j k out = Some (m, out') \<and>
    buf_has out' m (xs @ map of_nat (filter (\<lambda>i. i \<notin> unat ` set sel) [j..<n]))"
  using assms
proof (induction sel arbitrary: j k out xs)
  case Nil
  then show ?case using emit_upto_correct [OF Nil.prems(3), of n j] by auto
next
  case (Cons s sel)
  have s: "j \<le> unat s" "unat s < n" and gt: "\<forall>t \<in> set sel. unat s < unat t"
    using Cons.prems(1,2) by (auto simp: word_less_nat_alt)
  have split: "[j..<n] = [j..<unat s] @ unat s # [Suc (unat s)..<n]"
    using s by (rule upt_split_mid)
  have f: "filter (\<lambda>i. i \<notin> unat ` set (s # sel)) [j..<n] =
      [j..<unat s] @ filter (\<lambda>i. i \<notin> unat ` set sel) [Suc (unat s)..<n]"
  proof -
    have "filter (\<lambda>i. i \<notin> unat ` set (s # sel)) [j..<unat s] = [j..<unat s]"
      using gt by (intro filter_True) auto
    moreover have "filter (\<lambda>i. i \<notin> unat ` set (s # sel)) [Suc (unat s)..<n] =
        filter (\<lambda>i. i \<notin> unat ` set sel) [Suc (unat s)..<n]"
      by (intro filter_cong) auto
    ultimately show ?thesis unfolding split by simp
  qed
  have room: "k + (unat s - j) \<le> length out" using Cons.prems(4) unfolding f by simp
  obtain out1 where out1: "emit_upto (unat s) j k out = Some (unat s, k + (unat s - j), out1)"
    "length out1 = length out" "buf_has out1 (k + (unat s - j)) (xs @ map of_nat [j..<unat s])"
    using emit_upto_correct [OF Cons.prems(3) room] s(1) by (auto simp: max_def)
  show ?case
    using Cons.IH [of "Suc (unat s)", OF _ _ out1(3)] Cons.prems out1 gt
    unfolding f by (auto simp: Suc_le_eq)
qed

lemma DiffSelected_Scalar_correct:
  assumes "sorted_wrt (<) sel" and "\<forall>s \<in> set sel. unat s < unat n" and "unat n \<le> length out"
  shows "\<exists>m out'. DiffSelected_Scalar n sel out = Some (m, out') \<and>
    buf_has out' (unat m) (map of_nat (filter (\<lambda>i. i \<notin> unat ` set sel) [0..<unat n]))"
proof -
  let ?d = "filter (\<lambda>i. i \<notin> unat ` set sel) [0..<unat n]"
  have "distinct sel" using assms(1) by (simp add: strict_sorted_iff)
  then have "card (unat ` set sel) = length sel"
    by (subst card_image) (auto simp: inj_on_def distinct_card word_unat_eq_iff)
  moreover have sub: "unat ` set sel \<subseteq> {..<unat n}" using assms(2) by auto
  ultimately have len: "length ?d = unat n - length sel" "length sel \<le> unat n"
    using length_filter_compl card_mono [OF finite_lessThan sub] by auto
  have "unat n < 2 ^ 32" using unsigned_less [of n] by simp
  then have "unat (of_nat (length sel) :: u32) = length sel"
    using len(2) by (simp add: unsigned_of_nat take_bit_nat_eq_self)
  then have un: "unat (n - of_nat (length sel)) = length ?d"
    using len by (subst unat_sub) (auto simp: word_le_nat_alt)
  have "length ?d \<le> length out" using len assms(3) by linarith
  then obtain k out' where "diff_scalar_loop (unat n) sel 0 0 out = Some (k, out')"
    "buf_has out' k (map of_nat ?d)"
    using diff_scalar_loop_correct [OF assms(1) _ buf_has_Nil, of 0 "unat n" out] assms(2)
    by auto
  then show ?thesis
    using un by (auto simp: DiffSelected_Scalar_def buf_has_def)
qed

lemma SelectionVectorToByteVector_correct:
  assumes "\<forall>s \<in> set sel. unat s < length bytes"
  shows "\<exists>bytes'. SelectionVectorToByteVector sel bytes = Some bytes' \<and>
    length bytes' = length bytes \<and>
    (\<forall>i < length bytes. bytes' ! i = (if i \<in> unat ` set sel then 0xFF else bytes ! i))"
  using assms
proof (induction sel arbitrary: bytes)
  case (Cons s sel)
  then show ?case using Cons.IH [of "bytes[unat s := 0xFF]"]
    by (auto simp: checked nth_list_update)
qed simp

section \<open>Correctness of the byte vector conversion\<close>

definition saturated :: "u8 list \<Rightarrow> bool" where
  "saturated bytes \<longleftrightarrow> (\<forall>b \<in> set bytes. b = 0 \<or> b = 0xFF)"

lemma pext_mask_positions: "filter (bit (0x202020202020202 :: u64)) [0..<64] = map (\<lambda>j. 8 * j + 1) [0..<8]"
  by code_simp

lemma bit_pext_mask:
  "bit (pext_u64 w 0x202020202020202) j \<longleftrightarrow> j < 8 \<and> bit w (8 * j + 1)"
  by (auto simp: pext_u64_def pext_mask_positions bit_horner_sum_bit_word_iff)

lemma saturated_bit: "saturated bytes \<Longrightarrow> i < length bytes \<Longrightarrow> n < 8 \<Longrightarrow> bit (bytes ! i) n \<longleftrightarrow> bytes ! i = 0xFF"
proof -
  assume "saturated bytes" "i < length bytes" "n < 8"
  moreover have "bit (255 :: u8) n" using \<open>n < 8\<close>
    by (auto simp: less_Suc_eq numeral_eq_Suc)
  moreover have "bytes ! i = 0 \<or> bytes ! i = 0xFF"
    using \<open>saturated bytes\<close> \<open>i < length bytes\<close> by (simp add: saturated_def)
  ultimately show ?thesis by auto
qed

lemma bit_load_u64:
  assumes "i + 8 \<le> length bytes"
  shows "\<exists>w. load_u64 bytes i = Some w \<and> (\<forall>n < 64. bit w n = bit (bytes ! (i + n div 8)) (n mod 8))"
  using assms by (auto simp: load_u64_def bit_horner_sum_bit_word_iff)

lemma byte_block_correct:
  assumes "llvm_popcount_ok L" and "saturated bytes" and "i + 8 \<le> length bytes"
    and "buf_has out k xs" and "k + 8 \<le> length out"
  shows "\<exists>k' out'. byte_block L bytes i (of_nat i) k out = Some (of_nat (i + 8), k', out') \<and>
    length out' = length out \<and> k' \<le> k + 8 \<and>
    buf_has out' k' (xs @ map of_nat (filter (\<lambda>p. bytes ! p = 0xFF) [i..<i + 8]))"
proof -
  obtain w where w: "load_u64 bytes i = Some w"
    "\<forall>n < 64. bit w n = bit (bytes ! (i + n div 8)) (n mod 8)"
    using bit_load_u64 [OF assms(3)] by blast
  define m where "m = pext_u64 w 0x202020202020202"
  have bm: "bit m j \<longleftrightarrow> j < 8 \<and> bytes ! (i + j) = 0xFF" for j
  proof (cases "j < 8")
    case True
    moreover have "(8 * j + 1) div 8 = j" "(8 * j + 1) mod 8 = 1" by presburger+
    ultimately have "bit w (8 * j + 1) = bit (bytes ! (i + j)) 1" using w(2) by simp
    then show ?thesis
      using True saturated_bit [OF assms(2), of "i + j" 1] assms(3) by (simp add: m_def bit_pext_mask)
  qed (simp add: m_def bit_pext_mask)
  have "take_bit 8 m = m" by (rule bit_word_eqI) (auto simp: bit_take_bit_iff bm)
  then have "unat m = take_bit 8 (unat m)" by (metis unsigned_take_bit_eq)
  then have "m < 256" by (simp add: word_less_nat_alt take_bit_eq_mod)
  have f8: "filter (bit (ucast m :: u8)) [0..<8] = filter (\<lambda>j. bytes ! (i + j) = 0xFF) [0..<8]"
    by (intro filter_cong) (auto simp: bit_ucast_iff bm)
  have cnt: "countPopulation L m = length (filter (\<lambda>j. bytes ! (i + j) = 0xFF) [0..<8])"
  proof -
    have "filter (bit m) [0..<64] = filter (bit m) [0..<8]"
      by (rule filter_upt_extend) (auto simp: bm)
    also have "\<dots> = filter (\<lambda>j. bytes ! (i + j) = 0xFF) [0..<8]"
      by (intro filter_cong) (auto simp: bm)
    finally show ?thesis using assms(1) by (simp add: llvm_popcount_ok_def)
  qed
  let ?f = "filter (\<lambda>j. bytes ! (i + j) = 0xFF) [0..<8]"
  have "length ?f \<le> 8" by (metis length_filter_le length_upt diff_zero)
  moreover have "take (length ?f) (map ((+) (of_nat i)) (match_pos (ucast m))) =
      map of_nat (filter (\<lambda>p. bytes ! p = 0xFF) [i..<i + 8])"
    using match_pos_correct [of "ucast m"] unfolding f8 filter_upt_shift take_map by simp
  ultimately show ?thesis
    using buf_has_store [OF assms(4,5), of "map ((+) (of_nat i)) (match_pos (ucast m))" "length ?f"]
      w(1) \<open>m < 256\<close> by (auto simp: byte_block_def checked cnt Let_def simp flip: m_def)
qed

lemma byte_main_loop_correct:
  assumes "llvm_popcount_ok L" and "saturated bytes" and "length bytes \<le> length out"
    and "buf_has out k xs" and "k \<le> i" and "i \<le> length bytes"
  shows "\<exists>i' k' out'. byte_main_loop L bytes i (of_nat i) k out = Some (i', k', out') \<and>
    length out' = length out \<and> k' \<le> i' \<and> i \<le> i' \<and> i' \<le> length bytes \<and>
    buf_has out' k' (xs @ map of_nat (filter (\<lambda>p. bytes ! p = 0xFF) [i..<i']))"
  using assms(3-6)
proof (induction "length bytes - i" arbitrary: i k out xs rule: less_induct)
  case less
  show ?case
  proof (cases "i + 8 \<le> length bytes")
    case False
    then show ?thesis using less.prems by (auto simp: byte_main_loop.simps [of L bytes i])
  next
    case True
    obtain k1 out1 where b: "byte_block L bytes i (of_nat i) k out = Some (of_nat (i + 8), k1, out1)"
      "length out1 = length out" "k1 \<le> k + 8"
      "buf_has out1 k1 (xs @ map of_nat (filter (\<lambda>p. bytes ! p = 0xFF) [i..<i + 8]))"
      using byte_block_correct [OF assms(1,2) True less.prems(2)] True less.prems by auto
    have dec: "length bytes - (i + 8) < length bytes - i" using True by simp
    obtain i' k' out' where r: "byte_main_loop L bytes (i + 8) (of_nat (i + 8)) k1 out1 = Some (i', k', out')"
      "length out' = length out" "k' \<le> i'" "i + 8 \<le> i'" "i' \<le> length bytes"
      "buf_has out' k' ((xs @ map of_nat (filter (\<lambda>p. bytes ! p = 0xFF) [i..<i + 8]))
         @ map of_nat (filter (\<lambda>p. bytes ! p = 0xFF) [i + 8..<i']))"
      using less.hyps [OF dec _ b(4)] b less.prems True by auto
    have "filter (\<lambda>p. bytes ! p = 0xFF) [i..<i'] = filter (\<lambda>p. bytes ! p = 0xFF) [i..<i + 8]
        @ filter (\<lambda>p. bytes ! p = 0xFF) [i + 8..<i']"
      using r(4) by (intro filter_upt_split) auto
    then show ?thesis using b r True by (auto simp: byte_main_loop.simps [of L bytes i])
  qed
qed

lemma byte_tail_loop_correct:
  assumes "length bytes \<le> length out" and "buf_has out k xs" and "k \<le> i" and "i \<le> length bytes"
  shows "\<exists>k' out'. byte_tail_loop bytes i k out = Some (k', out') \<and> 
    buf_has out' k' (xs @ map of_nat (filter (\<lambda>p. bytes ! p = 0xFF) [i..<length bytes]))"
  using assms
proof (induction "length bytes - i" arbitrary: i k out xs rule: less_induct)
  case less
  show ?case
  proof (cases "i < length bytes")
    case False
    then show ?thesis using less.prems by (auto simp: byte_tail_loop.simps)
  next
    case True
    have k: "k < length out" using less.prems True by simp
    show ?thesis
    proof (cases "bytes ! i = 0xFF")
      case hit: True
      show ?thesis
        using less.hyps [of "Suc i" "out[k := of_nat i]" "Suc k" "xs @ [of_nat i]"] less.prems True hit k
        by (auto simp: byte_tail_loop.simps [of bytes i] checked buf_has_push upt_conv_Cons)
    next
      case miss: False
      show ?thesis
        using less.hyps [of "Suc i" "out[k := of_nat i]" k xs] less.prems True miss k
        by (auto simp: byte_tail_loop.simps [of bytes i] checked buf_has_scribble upt_conv_Cons)
    qed
  qed
qed

lemma ByteVectorToSelectionVector_correct:
  assumes "llvm_popcount_ok L" and "saturated bytes" and "length bytes \<le> length out"
  shows "\<exists>n out'. ByteVectorToSelectionVector L bytes out = Some (n, out') \<and>
    buf_has out' n (map of_nat (filter (\<lambda>p. bytes ! p = 0xFF) [0..<length bytes]))"
proof -
  obtain i k out1 where m: "byte_main_loop L bytes 0 0 0 out = Some (i, k, out1)"
    "length out1 = length out" "k \<le> i" "i \<le> length bytes"
    "buf_has out1 k (map of_nat (filter (\<lambda>p. bytes ! p = 0xFF) [0..<i]))"
    using byte_main_loop_correct [OF assms buf_has_Nil, of 0] by auto
  then show ?thesis
    using byte_tail_loop_correct [OF _ m(5,3,4)] assms(3) filter_upt_split [of 0 i "length bytes"]
    by (auto simp: ByteVectorToSelectionVector_def simp flip: map_append)
qed

lemma DiffSelected_correct:
  assumes "llvm_popcount_ok L" and "n \<le> kDefaultVectorSize" and "length scratch = kDefaultVectorSize"
    and "\<forall>s \<in> set sel. unat s < n" and "n \<le> length out"
  shows "\<exists>m out'. DiffSelected L scratch n sel out = Some (m, out') \<and>
    buf_has out' m (map of_nat (filter (\<lambda>i. i \<notin> unat ` set sel) [0..<n]))"
proof -
  have "\<forall>s \<in> set sel. unat s < length (replicate n 0 @ drop n scratch)"
    using assms by auto
  then obtain b where b: "SelectionVectorToByteVector sel (replicate n 0 @ drop n scratch) = Some b"
    "length b = length scratch"
    "\<forall>i < n. b ! i = (if i \<in> unat ` set sel then 0xFF else 0)"
    using SelectionVectorToByteVector_correct [of sel "replicate n 0 @ drop n scratch"] assms
    by (auto simp: nth_append)
  define s where "s = map NOT (take n b)"
  have s: "length s = n" "\<forall>i < n. s ! i = (if i \<in> unat ` set sel then 0 else 0xFF)"
    using b assms by (auto simp: s_def)
  have sat: "saturated s" unfolding saturated_def all_set_conv_all_nth using s by simp
  have f: "filter (\<lambda>p. s ! p = 0xFF) [0..<n] = filter (\<lambda>i. i \<notin> unat ` set sel) [0..<n]"
    using s by (intro filter_cong) auto
  have "take n (map NOT (take n b) @ drop n b) = s" using s(1) by (simp add: s_def)
  then show ?thesis
    using ByteVectorToSelectionVector_correct [OF assms(1) sat, of out] assms b(1) s(1) f
    by (simp add: DiffSelected_def DiffSelected_WithScratchPad_def checked Let_def)
qed

section \<open>Correctness of the bit vector conversions\<close>

lemma set_positions_take_Suc:
  assumes "i < length ws"
  shows "set_positions (take (Suc i) ws) =
    set_positions (take i ws) @ map ((+) (64 * i)) (filter (bit (ws ! i)) [0..<64])"
  using assms set_positions_snoc [of "take i ws" "ws ! i"] by (simp add: take_Suc_conv_app_nth)

lemma sparse_word_correct:
  assumes "llvm_ctz_ok L" and "buf_has out k xs"
    and "k + length (filter (bit word) [0..<64]) \<le> length out"
  shows "\<exists>out'. sparse_word L base word k out =
      Some (k + length (filter (bit word) [0..<64]), out') \<and> length out' = length out \<and>
    buf_has out' (k + length (filter (bit word) [0..<64]))
      (xs @ map (\<lambda>i. of_nat (base + i)) (filter (bit word) [0..<64]))"
  using assms(2,3)
proof (induction "unat word" arbitrary: word k out xs rule: less_induct)
  case less
  show ?case
  proof (cases "word = 0")
    case True
    then show ?thesis using less.prems by (simp add: sparse_word.simps)
  next
    case False
    note f = ctz_filter [OF assms(1) False]
    let ?v = "of_nat (base + countTrailingZeros L word)"
    have "k < length out" using less.prems(2) f by simp
    then show ?thesis
      using less.hyps [OF and_minus_one_less [OF False] buf_has_push [OF less.prems(1), of ?v]]
        less.prems False
      by (simp add: sparse_word.simps [of L base word] checked f)
  qed
qed

lemma sparse_loop_correct:
  assumes "llvm_ctz_ok L" and "buf_has out k (map of_nat (set_positions (take i ws)))"
    and "i + n \<le> length ws" and "length (set_positions (take (i + n) ws)) \<le> length out"
  shows "\<exists>k' out'. sparse_loop L ws n i (64 * i) k out = Some (k', out') \<and>
    buf_has out' k' (map of_nat (set_positions (take (i + n) ws)))"
  using assms(2-4)
proof (induction n arbitrary: i k out)
  case (Suc n)
  have i: "i < length ws" using Suc.prems by simp
  note s = set_positions_take_Suc [OF i]
  have mono: "length (set_positions (take (Suc i) ws)) \<le> length (set_positions (take (i + Suc n) ws))"
    unfolding length_set_positions
    by (intro card_mono bits_of_finite) (auto simp: bits_of_def)
  have k: "k = length (set_positions (take i ws))" using Suc.prems(1) by (simp add: buf_has_def)
  have room: "k + length (filter (bit (ws ! i)) [0..<64]) \<le> length out"
    using mono Suc.prems(3) k s by simp
  obtain out1 where o: "sparse_word L (64 * i) (ws ! i) k out =
      Some (k + length (filter (bit (ws ! i)) [0..<64]), out1)" "length out1 = length out"
    "buf_has out1 (k + length (filter (bit (ws ! i)) [0..<64])) (map of_nat (set_positions (take (Suc i) ws)))"
    using sparse_word_correct [OF assms(1) Suc.prems(1) room, of "64 * i"] by (auto simp: s o_def)
  show ?case using Suc.IH [OF o(3)] Suc.prems i o(1,2) by (simp add: checked algebra_simps)
qed simp

lemma filter_drop_bit:
  fixes w :: u64
  shows "filter (bit w) [0..<8 * Suc n] = filter (bit (ucast w :: u8)) [0..<8] @
    map ((+) 8) (filter (bit (drop_bit 8 w)) [0..<8 * n])"
proof -
  have "filter (bit w) [0..<8 + 8 * n] = filter (bit w) [0..<8] @ filter (bit w) [8..<8 + 8 * n]"
    by (rule filter_upt_split) auto
  moreover have "filter (bit w) [0..<8] = filter (bit (ucast w :: u8)) [0..<8]"
    by (intro filter_cong refl) (auto simp: bit_ucast_iff)
  moreover have "filter (bit w) [8..<8 + 8 * n] = map ((+) 8) (filter (bit (drop_bit 8 w)) [0..<8 * n])"
    unfolding filter_upt_shift by (simp add: bit_drop_bit_eq add.commute o_def)
  ultimately show ?thesis by simp
qed

lemma popcount_byte:
  assumes "llvm_popcount_ok L"
  shows "countPopulation L (ucast (m :: u8)) = length (filter (bit m) [0..<8])"
proof -
  have "filter (bit (ucast m :: u64)) [0..<64] = filter (bit (ucast m :: u64)) [0..<8]"
    by (rule filter_upt_extend) (auto simp: bit_ucast_iff dest: bit_imp_le_length)
  also have "\<dots> = filter (bit m) [0..<8]"
    by (intro filter_cong) (auto simp: bit_ucast_iff)
  finally have "filter (bit (ucast m :: u64)) [0..<64] = filter (bit m) [0..<8]" .
  then show ?thesis using assms by (simp add: llvm_popcount_ok_def)
qed

lemma dense_word_correct:
  assumes "llvm_popcount_ok L" and "buf_has out (unat k) xs"
    and "unat k + 8 * n \<le> length out" and "length out < 2 ^ 16"
  shows "\<exists>k' out'. dense_word L n word (of_nat p) k out = Some (of_nat (p + 8 * n), k', out') \<and>
    length out' = length out \<and> unat k' \<le> unat k + 8 * n \<and>
    buf_has out' (unat k') (xs @ map (\<lambda>i. of_nat (p + i)) (filter (bit word) [0..<8 * n]))"
  using assms(2-4)
proof (induction n arbitrary: word p k out xs)
  case (Suc n)
  let ?m = "ucast word :: u8"
  let ?f = "filter (bit ?m) [0..<8]"
  have f: "length ?f \<le> 8" by (metis length_filter_le length_upt diff_zero)
  have st: "map ((+) (of_nat p)) (take (length ?f) (match_pos ?m)) = map (\<lambda>i. of_nat (p + i)) ?f"
    by (simp add: match_pos_correct o_def)
  have len: "length (map ((+) (of_nat p)) (match_pos ?m)) = 8" by (simp add: match_pos_def)
  obtain out1 where o: "mm_storeu_si128 out (unat k) (map ((+) (of_nat p)) (match_pos ?m)) = Some out1"
    "length out1 = length out" "buf_has out1 (unat k + length ?f) (xs @ map (\<lambda>i. of_nat (p + i)) ?f)"
    using buf_has_store [OF Suc.prems(1) _ len f] Suc.prems st by (auto simp: take_map)
  define k1 where "k1 = k + of_nat (length ?f)"
  have k1: "unat k1 = unat k + length ?f"
    using Suc.prems f unfolding k1_def
    by (subst unat_add_lem [THEN iffD1]) (auto simp: unsigned_of_nat take_bit_nat_eq_self)
  obtain k' out' where r: "dense_word L n (drop_bit 8 word) (of_nat (p + 8)) k1 out1 =
      Some (of_nat (p + 8 + 8 * n), k', out')" "length out' = length out" "unat k' \<le> unat k1 + 8 * n"
    "buf_has out' (unat k') ((xs @ map (\<lambda>i. of_nat (p + i)) ?f) @
       map (\<lambda>i. of_nat (p + 8 + i)) (filter (bit (drop_bit 8 word)) [0..<8 * n]))"
    using Suc.IH [of out1 k1 "xs @ map (\<lambda>i. of_nat (p + i)) ?f" "drop_bit 8 word" "p + 8"]
      o(2,3) Suc.prems(2,3) k1 f by auto
  show ?case
    unfolding filter_drop_bit using r o(1) f k1
    by (intro exI [of _ k'] exI [of _ out'])
      (simp add: popcount_byte [OF assms(1)] k1_def [symmetric] ac_simps o_def Let_def)
qed simp

lemma dense_loop_correct:
  assumes "llvm_popcount_ok L" and "buf_has out (unat k) (map of_nat (set_positions (take i ws)))"
    and "i + n \<le> length ws" and "64 * (i + n) \<le> length out" and "unat k \<le> 64 * i"
    and "length out < 2 ^ 16"
  shows "\<exists>k' out'. dense_loop L ws n i (of_nat (64 * i)) k out = Some (k', out') \<and>
    buf_has out' k' (map of_nat (set_positions (take (i + n) ws)))"
  using assms(2-)
proof (induction n arbitrary: i k out)
  case (Suc n)
  have i: "i < length ws" using Suc.prems by simp
  note s = set_positions_take_Suc [OF i]
  obtain k' out1 where o: "dense_word L 8 (ws ! i) (of_nat (64 * i)) k out =
      Some (of_nat (64 * Suc i), k', out1)" "length out1 = length out" "unat k' \<le> 64 * Suc i"
    "buf_has out1 (unat k') (map of_nat (set_positions (take (Suc i) ws)))"
    using dense_word_correct [OF assms(1) Suc.prems(1), of 8 "ws ! i" "64 * i"] Suc.prems
    by (fastforce simp: s o_def algebra_simps)
  show ?case using Suc.IH [OF o(4)] Suc.prems i o(1,2,3) by (simp add: checked)
qed auto

section \<open>Bit vectors against byte vectors\<close>

lemma num_words_for_split: "num_words_for n = n div 64 + of_bool (n mod 64 \<noteq> 0)"
proof -
  have "(r + 63) div 64 = of_bool (r \<noteq> 0)" if "r < 64" for r :: nat
    using that by (cases "r = 0") (auto intro!: div_nat_eqI)
  then have "(64 * q + (r + 63)) div 64 = q + of_bool (r \<noteq> 0)" if "r < 64" for q r :: nat
    using that by simp
  from this [of "n mod 64" "n div 64"] show ?thesis
    by (simp add: num_words_for_def del: add.assoc flip: add.assoc)
qed

text \<open>Byte to bit\<close>
lemma bit_movemask:
  "length v = 32 \<Longrightarrow> bit (movemask_epi8 v) j \<longleftrightarrow> j < 32 \<and> bit (v ! j) 7"
  by (auto simp: movemask_epi8_def bit_horner_sum_bit_word_iff)

lemma bit_main_word:
  assumes "saturated bytes" and "i + 64 \<le> length bytes" and "j < 64"
  shows "bit (push_bit 32 (ucast (movemask_epi8 (take 32 (drop (i + 32) bytes)))) OR
      ucast (movemask_epi8 (take 32 (drop i bytes))) :: u64) j \<longleftrightarrow> bytes ! (i + j) = 0xFF"
proof (cases "j < 32")
  case True
  then show ?thesis using assms(2) saturated_bit [OF assms(1), of "i + j" 7]
    by (auto simp: bit_or_iff bit_push_bit_iff bit_ucast_iff bit_movemask)
next
  case False
  then have "i + 32 + (j - 32) = i + j" by simp
  then show ?thesis using False assms(2,3) saturated_bit [OF assms(1), of "i + j" 7]
    by (auto simp: bit_or_iff bit_push_bit_iff bit_ucast_iff bit_movemask)
qed

lemma byte_to_bit_main_correct:
  assumes "saturated bytes" and "length bytes div 64 \<le> length bits" and "64 * k \<le> length bytes"
    and "\<forall>p < 64 * k. p \<in> bits_of bits \<longleftrightarrow> bytes ! p = 0xFF"
  shows "\<exists>bits'. byte_to_bit_main bytes (64 * k) k bits =
      Some (64 * (length bytes div 64), length bytes div 64, bits') \<and>
    length bits' = length bits \<and>
    (\<forall>p. p \<in> bits_of bits' \<longleftrightarrow>
      (if p < 64 * (length bytes div 64) then bytes ! p = 0xFF else p \<in> bits_of bits))"
  using assms(2-)
proof (induction "length bytes - 64 * k" arbitrary: k bits rule: less_induct)
  case less
  show ?case
  proof (cases "64 * k + 64 \<le> length bytes")
    case False
    then have "length bytes div 64 = k" using less.prems(2) by (intro div_nat_eqI) auto
    then show ?thesis using less.prems False by (auto simp: byte_to_bit_main.simps [of bytes "64 * k"])
  next
    case True
    define w where "w = (push_bit 32 (ucast (movemask_epi8 (take 32 (drop (64 * k + 32) bytes)))) OR
      ucast (movemask_epi8 (take 32 (drop (64 * k) bytes))) :: u64)"
    have k: "k < length bits" and kd: "k < length bytes div 64"
      using True less.prems(1) by linarith+
    have w: "bit w j \<longleftrightarrow> bytes ! (64 * k + j) = 0xFF" if "j < 64" for j
      using bit_main_word [OF assms(1) True that] by (simp add: w_def)
    have mem: "p \<in> bits_of (bits[k := w]) \<longleftrightarrow>
        (if p div 64 = k then bytes ! p = 0xFF else p \<in> bits_of bits)" for p
      using k w [of "p mod 64"] mult_div_mod_eq [of 64 p]
      by (auto simp: mem_bits_of_update)
    have pre: "\<forall>p < 64 * Suc k. p \<in> bits_of (bits[k := w]) \<longleftrightarrow> bytes ! p = 0xFF"
      using less.prems(3) by (auto simp: mem)
    have dec: "length bytes - 64 * Suc k < length bytes - 64 * k" using True by simp
    obtain bits' where r: "byte_to_bit_main bytes (64 * Suc k) (Suc k) (bits[k := w]) =
      Some (64 * (length bytes div 64), length bytes div 64, bits')" "length bits' = length bits"
      "\<forall>p. p \<in> bits_of bits' \<longleftrightarrow> (if p < 64 * (length bytes div 64) then bytes ! p = 0xFF
         else p \<in> bits_of (bits[k := w]))"
      using less.hyps [OF dec _ _ pre] less.prems True by auto
    have "byte_to_bit_main bytes (64 * k) k bits = byte_to_bit_main bytes (64 * Suc k) (Suc k) (bits[k := w])"
      using True k by (simp add: byte_to_bit_main.simps [of bytes "64 * k"] checked w_def Let_def add.commute)
    moreover have "\<not> p < 64 * (length bytes div 64) \<Longrightarrow> p div 64 \<noteq> k" for p using kd by auto
    ultimately show ?thesis using r mem by auto
  qed
qed

lemma bit_merge:
  fixes w v :: "'a::len word"
  assumes "i < LENGTH('a)"
  shows "bit (w XOR ((v XOR w) AND push_bit i 1)) j \<longleftrightarrow> (if j = i then bit v i else bit w j)"
  using assms by (auto simp: bit_xor_iff bit_and_iff bit_push_bit_iff bit_1_iff simp del: push_bit_of_1)

lemma bit_scast_saturated:
  "saturated bytes \<Longrightarrow> i < length bytes \<Longrightarrow> n < 64 \<Longrightarrow>
   bit (scast (bytes ! i) :: u64) n \<longleftrightarrow> bytes ! i = 0xFF"
proof -
  assume *: "saturated bytes" "i < length bytes" "n < 64"
  then have "bytes ! i = 0 \<or> bytes ! i = 0xFF" by (simp add: saturated_def)
  moreover have "(scast (0xFF :: u8) :: u64) = - 1" by simp
  ultimately show ?thesis using * by auto
qed

lemma byte_to_bit_tail_correct:
  assumes "saturated bytes" and "k < length bits \<or> i = length bytes" 
    and "i \<le> length bytes" and "64 * k \<le> i" and "length bytes < 64 * Suc k"
  shows "\<exists>bits'. byte_to_bit_tail bytes i k bits = Some bits' \<and> length bits' = length bits \<and>
    (\<forall>p. p \<in> bits_of bits' \<longleftrightarrow> (if i \<le> p \<and> p < length bytes then bytes ! p = 0xFF else p \<in> bits_of bits))"
  using assms(2-)
proof (induction "length bytes - i" arbitrary: i bits rule: less_induct)
  case less
  show ?case
  proof (cases "i < length bytes")
    case False
    then show ?thesis using less.prems byte_to_bit_tail.simps [of bytes i k bits]
      by (intro exI [of _ bits]) auto
  next
    case True
    then have k: "k < length bits" and ik: "i div 64 = k" using less.prems by (auto intro!: div_nat_eqI)
    define w where "w = bits ! k XOR ((scast (bytes ! i) XOR bits ! k) AND push_bit (i mod 64) 1)"
    have w: "bit w j \<longleftrightarrow> (if j = i mod 64 then bytes ! i = 0xFF else bit (bits ! k) j)" for j
      unfolding w_def using bit_scast_saturated [OF assms(1) True] by (subst bit_merge) auto
    have "p = i \<longleftrightarrow> p div 64 = k \<and> p mod 64 = i mod 64" for p
      using ik by (metis div_mult_mod_eq)
    then have mem: "p \<in> bits_of (bits[k := w]) \<longleftrightarrow> (if p = i then bytes ! i = 0xFF else p \<in> bits_of bits)" for p
      using k w by (auto simp: mem_bits_of nth_list_update)
    have "byte_to_bit_tail bytes i k bits = byte_to_bit_tail bytes (Suc i) k (bits[k := w])"
      using True k by (simp add: byte_to_bit_tail.simps [of bytes i] checked Let_def w_def)
    moreover obtain b' where "byte_to_bit_tail bytes (Suc i) k (bits[k := w]) = Some b'"
      "length b' = length bits" "\<forall>p. p \<in> bits_of b' \<longleftrightarrow> (if i < p \<and> p < length bytes
         then bytes ! p = 0xFF else p \<in> bits_of (bits[k := w]))"
      using less.hyps [of "Suc i" "bits[k := w]"] less.prems True k diff_less_mono2 [of i "Suc i" "length bytes"]
      by (auto simp: Suc_le_eq)
    ultimately show ?thesis using mem True by (intro exI [of _ b']) auto
  qed
qed

lemma ByteVectorToBitVector_correct:
  assumes "saturated bytes" and "num_words_for (length bytes) \<le> length bits"
  shows "\<exists>bits'. ByteVectorToBitVector bytes bits = Some bits' \<and> length bits' = length bits \<and>
    (\<forall>p. p \<in> bits_of bits' \<longleftrightarrow> (if p < length bytes then bytes ! p = 0xFF else p \<in> bits_of bits))"
proof -
  let ?k = "length bytes div 64"
  have k: "?k \<le> length bits" "?k < length bits \<or> 64 * ?k = length bytes"
    using assms(2) mult_div_mod_eq [of 64 "length bytes"]
    unfolding num_words_for_split by (auto simp: of_bool_def split: if_splits)
  obtain b where b: "byte_to_bit_main bytes 0 0 bits = Some (64 * ?k, ?k, b)" "length b = length bits"
    "\<forall>p. p \<in> bits_of b \<longleftrightarrow> (if p < 64 * ?k then bytes ! p = 0xFF else p \<in> bits_of bits)"
    using byte_to_bit_main_correct [OF assms(1) k(1), of 0] by force
  have "64 * ?k \<le> length bytes" "length bytes < 64 * Suc ?k"
    using mult_div_mod_eq [of 64 "length bytes"] mod_less_divisor [of 64 "length bytes"]
    unfolding mult_Suc_right by linarith+
  then obtain b' where "byte_to_bit_tail bytes (64 * ?k) ?k b = Some b'" "length b' = length b"
     "\<forall>p. p \<in> bits_of b' \<longleftrightarrow> (if 64 * ?k \<le> p \<and> p < length bytes then bytes ! p = 0xFF else p \<in> bits_of b)"
    using byte_to_bit_tail_correct [OF assms(1), of ?k b "64 * ?k"] b(2) k(2) by (simp only: le_refl simp_thms) blast
  moreover have "64 * ?k \<le> length bytes" by simp
  ultimately show ?thesis using b by (force simp: ByteVectorToBitVector_def)
qed

text \<open>Bit to byte\<close>
lemma lane_mask_bit: "n < 8 \<Longrightarrow> j < 8 \<Longrightarrow> bit (byte_of 0x7fbfdfeff7fbfdfe j) n \<longleftrightarrow> n \<noteq> j"
proof -
  have "\<forall>j \<in> set [0..<8]. \<forall>n \<in> set [0..<8]. bit (byte_of 0x7fbfdfeff7fbfdfe j) n \<longleftrightarrow> n \<noteq> j"
    by code_simp
  then show "n < 8 \<Longrightarrow> j < 8 \<Longrightarrow> ?thesis" by simp
qed

lemma expand_lanes_nth:
  "j < 32 \<Longrightarrow> expand_lanes w ! j = (if bit w j then 0xFF else 0)"
proof -
  assume j: "j < 32"
  let ?lane = "(ucast (drop_bit (8 * (j div 8)) w) :: u8) OR byte_of 0x7fbfdfeff7fbfdfe (j mod 8)"
  have b: "n < 8 \<Longrightarrow> bit ?lane n \<longleftrightarrow> (n = j mod 8 \<longrightarrow> bit w j)" for n
    by (auto simp: bit_or_iff bit_ucast_iff bit_drop_bit_eq lane_mask_bit)
  have "?lane = - 1 \<longleftrightarrow> (\<forall>n < 8. bit ?lane n)" by (auto simp: bit_eq_iff)
  also have "\<dots> \<longleftrightarrow> bit w j" using b by (metis mod_less_divisor zero_less_numeral)
  also have "(- 1 :: u8) = 0xFF" by simp
  finally have "?lane = 0xFF \<longleftrightarrow> bit w j" .
  then show ?thesis using j by (simp add: expand_lanes_def Let_def)
qed

lemma length_expand_lanes [simp]: "length (expand_lanes w) = 32"
  by (simp add: expand_lanes_def)

lemma store_bytes_Some:
  "k + length lanes \<le> length out \<Longrightarrow> \<exists>out'. store_bytes out k lanes = Some out' \<and>
    length out' = length out \<and> (\<forall>p < length out. out' ! p =
      (if k \<le> p \<and> p < k + length lanes then lanes ! (p - k) else out ! p))"
  by (auto simp: store_bytes_def nth_append)

lemma bit_to_byte_main_correct:
  assumes "i + n \<le> length bits" and "64 * (i + n) \<le> length out"
  shows "\<exists>out'. bit_to_byte_main bits n i (64 * i) out = Some (64 * (i + n), out') \<and>
    length out' = length out \<and> (\<forall>p < length out. out' ! p =
      (if 64 * i \<le> p \<and> p < 64 * (i + n) then if p \<in> bits_of bits then 0xFF else 0 else out ! p))"
  using assms
proof (induction n arbitrary: i out)
  case (Suc n)
  let ?lo = "expand_lanes (ucast (bits ! i))" and ?hi = "expand_lanes (ucast (drop_bit 32 (bits ! i)))"
  obtain o1 where o1: "store_bytes out (64 * i) ?lo = Some o1" "length o1 = length out"
    "\<forall>p < length out. o1 ! p = (if 64 * i \<le> p \<and> p < 64 * i + 32 then ?lo ! (p - 64 * i) else out ! p)"
    using store_bytes_Some [of "64 * i" ?lo out] Suc.prems by auto
  obtain o2 where o2: "store_bytes o1 (64 * i + 32) ?hi = Some o2" "length o2 = length out"
    "\<forall>p < length out. o2 ! p = (if 64 * i + 32 \<le> p \<and> p < 64 * i + 64 then ?hi ! (p - (64 * i + 32)) else o1 ! p)"
    using store_bytes_Some [of "64 * i + 32" ?hi o1] o1(2) Suc.prems by auto
  have w: "o2 ! p = (if p \<in> bits_of bits then 0xFF else 0)" if "p < length out" "64 * i \<le> p" "p < 64 * i + 64" for p
  proof -
    have p: "p div 64 = i" using that(2,3) by (intro div_nat_eqI) auto
    then have "p mod 64 = p - 64 * i" by (metis minus_mult_div_eq_mod)
    then show ?thesis
      using that Suc.prems(1) o1(3) o2(3) p
      by (auto simp: expand_lanes_nth mem_bits_of bit_ucast_iff bit_drop_bit_eq)
  qed
  obtain out' where r: "bit_to_byte_main bits n (Suc i) (64 * Suc i) o2 = Some (64 * (Suc i + n), out')"
    "length out' = length out" "\<forall>p < length out. out' ! p =
      (if 64 * Suc i \<le> p \<and> p < 64 * (Suc i + n) then if p \<in> bits_of bits then 0xFF else 0 else o2 ! p)"
    using Suc.IH [of "Suc i" o2] o2(2) Suc.prems by auto
  have "bit_to_byte_main bits (Suc n) i (64 * i) out = bit_to_byte_main bits n (Suc i) (64 * Suc i) o2"
    using o1(1) o2(1) Suc.prems(1) by (simp add: checked add.commute)
  then show ?case using r w o1(3) o2(3) by (auto simp: not_le)
qed auto

lemma bit_to_byte_tail_correct:
  assumes "k + n \<le> length out" and "n \<le> 64"
  shows "\<exists>out'. bit_to_byte_tail word n k out = Some out' \<and> length out' = length out \<and>
    (\<forall>p < length out. out' ! p =
      (if k \<le> p \<and> p < k + n then if bit word (p - k) then 0xFF else 0 else out ! p))"
  using assms
proof (induction n arbitrary: word k out)
  case (Suc n)
  let ?b = "- of_bool (word AND 1 = 1) :: u8"
  have b: "?b = (if bit word 0 then 0xFF else 0)" by (auto simp: bit_0 and_one_eq odd_iff_mod_2_eq_one)
  obtain out' where r: "bit_to_byte_tail (drop_bit 1 word) n (Suc k) (out[k := ?b]) = Some out'"
    "length out' = length out" "\<forall>p < length out. out' ! p =
      (if Suc k \<le> p \<and> p < Suc k + n then if bit (drop_bit 1 word) (p - Suc k) then 0xFF else 0
       else out[k := ?b] ! p)"
    using Suc.IH [of "Suc k" "out[k := ?b]" "drop_bit 1 word"] Suc.prems by auto
  have "out' ! p = (if k \<le> p \<and> p < k + Suc n then if bit word (p - k) then 0xFF else 0 else out ! p)"
    if "p < length out" for p
    using r(3) that b by (cases "p = k") (auto simp: bit_drop_bit_eq Suc_diff_Suc)
  then show ?case using r(1,2) Suc.prems by (simp add: checked)
qed auto

lemma BitVectorToByteVector_correct:
  assumes "num_words_for num_bits \<le> length bits" and "num_bits \<le> length out"
  shows "\<exists>out'. BitVectorToByteVector bits num_bits out = Some out' \<and> length out' = length out \<and>
    (\<forall>p < length out. out' ! p =
      (if p < num_bits then if p \<in> bits_of bits then 0xFF else 0 else out ! p))"
proof -
  let ?n = "num_bits div 64" and ?t = "num_bits mod 64"
  have n: "?n \<le> length bits" "?n < length bits \<or> ?t = 0" "64 * ?n + ?t = num_bits"
    using assms(1) unfolding num_words_for_split by (auto split: if_splits)
  obtain o1 where o1: "bit_to_byte_main bits ?n 0 0 out = Some (64 * ?n, o1)" "length o1 = length out"
    "\<forall>p < length out. o1 ! p = (if p < 64 * ?n then if p \<in> bits_of bits then 0xFF else 0 else out ! p)"
    using bit_to_byte_main_correct [of 0 ?n bits out] n assms(2) by auto
  show ?thesis
  proof (cases "?t = 0")
    case True
    then show ?thesis using o1 n by (auto simp: BitVectorToByteVector_def)
  next
    case False
    obtain o2 where o2: "bit_to_byte_tail (bits ! ?n) ?t (64 * ?n) o1 = Some o2" "length o2 = length out"
      "\<forall>p < length out. o2 ! p = (if 64 * ?n \<le> p \<and> p < num_bits
         then if bit (bits ! ?n) (p - 64 * ?n) then 0xFF else 0 else o1 ! p)"
      using bit_to_byte_tail_correct [of "64 * ?n" ?t o1 "bits ! ?n"] o1(2) n(3) assms(2) by auto
    have "p \<in> bits_of bits \<longleftrightarrow> bit (bits ! ?n) (p - 64 * ?n)" if "64 * ?n \<le> p" "p < num_bits" for p
    proof -
      have "p div 64 = ?n" using that by (intro div_nat_eqI) auto
      then show ?thesis using n(2) False by (auto simp: mem_bits_of modulo_nat_def mult.commute)
    qed
    then have "o2 ! p = (if p < num_bits then if p \<in> bits_of bits then 0xFF else 0 else out ! p)"
      if "p < length out" for p
      using that o1(3) o2(3) n(3) by auto
    then show ?thesis
      using o1(1) o2(1,2) n(2) False by (simp add: BitVectorToByteVector_def checked Let_def)
  qed
qed

section \<open>Whole conversions\<close>

lemma BitVectorToSelectionVector_Sparse_correct:
  assumes "llvm_ctz_ok L" and "num_words_for num_bits \<le> length bits"
    and "card (bits_of (take (num_words_for num_bits) bits)) \<le> length out"
  shows "\<exists>n out'. BitVectorToSelectionVector_Sparse L bits num_bits out = Some (n, out') \<and>
    buf_has out' n (map of_nat (set_positions (take (num_words_for num_bits) bits)))"
  using sparse_loop_correct [OF assms(1), of out 0 0 bits "num_words_for num_bits"] assms(2,3)
  by (simp add: BitVectorToSelectionVector_Sparse_def length_set_positions)

lemma BitVectorToSelectionVector_AVX2_correct:
  assumes "llvm_popcount_ok L" and "num_words_for num_bits \<le> length bits"
    and "64 * num_words_for num_bits \<le> length out" and "length out < 2 ^ 16"
  shows "\<exists>n out'. BitVectorToSelectionVector_Dense_AVX2 L bits num_bits out = Some (n, out') \<and>
    buf_has out' n (map of_nat (set_positions (take (num_words_for num_bits) bits)))"
  using dense_loop_correct [OF assms(1), of out 0 0 bits "num_words_for num_bits"] assms(2-4)
  by (simp add: BitVectorToSelectionVector_Dense_AVX2_def)

lemma card_bits_of_le: "card (bits_of ws) \<le> 64 * length ws"
proof -
  have "bits_of ws \<subseteq> {..<64 * length ws}" by (auto simp: bits_of_def)
  then show ?thesis using card_mono [of "{..<64 * length ws}"] by simp
qed

lemma BitVectorToSelectionVector_result:
  assumes "llvm_ok L" and "num_words_for num_bits \<le> length bits"
    and "64 * num_words_for num_bits \<le> length out" and "length out < 2 ^ 16"
  shows "\<exists>n out'. BitVectorToSelectionVector L False sparse bits num_bits out = Some (n, out') \<and>
    buf_has out' n (map of_nat (set_positions (take (num_words_for num_bits) bits)))"
proof -
  let ?ws = "take (num_words_for num_bits) bits"
  have "card (bits_of ?ws) \<le> length out" using card_bits_of_le [of ?ws] assms(2,3) by simp
  then show ?thesis
    using BitVectorToSelectionVector_Sparse_correct [OF llvm_okD(1) [OF assms(1)] assms(2)]
      BitVectorToSelectionVector_AVX2_correct [OF llvm_okD(2) [OF assms(1)] assms(2-4)] assms(2)
    by (simp add: BitVectorToSelectionVector_def BitVectorToSelectionVector_Dense_def checked Let_def)
qed

lemma filter_bit_halves:
  fixes w :: u64
  shows "filter (bit w) [0..<64] = filter (bit (ucast w :: u32)) [0..<32] @
    map ((+) 32) (filter (bit (ucast (drop_bit 32 w) :: u32)) [0..<32])"
proof -
  have "filter (bit w) [0..<32 + 32] = filter (bit w) [0..<32] @ filter (bit w) [32..<32 + 32]"
    by (rule filter_upt_split) auto
  moreover have "filter (bit w) [0..<32] = filter (bit (ucast w :: u32)) [0..<32]"
    by (intro filter_cong refl) (auto simp: bit_ucast_iff)
  moreover have "filter (bit w) [32..<32 + 32] =
      map ((+) 32) (filter (bit (ucast (drop_bit 32 w) :: u32)) [0..<32])"
    unfolding filter_upt_shift
    by (intro arg_cong [of _ _ "map _"] filter_cong refl) (auto simp: bit_ucast_iff bit_drop_bit_eq)
  ultimately show ?thesis by simp
qed

lemma popcount_half:
  assumes "llvm_popcount_ok L"
  shows "countPopulation L (ucast (m :: u32)) = length (filter (bit m) [0..<32])"
proof -
  have "filter (bit (ucast m :: u64)) [0..<64] = filter (bit (ucast m :: u64)) [0..<32]"
    by (rule filter_upt_extend) (auto simp: bit_ucast_iff dest: bit_imp_le_length)
  also have "\<dots> = filter (bit m) [0..<32]"
    by (intro filter_cong) (auto simp: bit_ucast_iff)
  finally show ?thesis using assms by (simp add: llvm_popcount_ok_def)
qed

lemma compressstore_correct:
  assumes "buf_has out k xs" and "k + length (filter (bit m) [0..<32]) \<le> length out"
  shows "\<exists>out'. mask_compressstoreu_epi16 out k m (map of_nat [0..<32]) = Some out' \<and>
    length out' = length out \<and>
    buf_has out' (k + length (filter (bit m) [0..<32])) (xs @ map of_nat (filter (bit m) [0..<32]))"
proof -
  have "map (\<lambda>j. map of_nat [0..<32] ! j) (filter (bit m) [0..<32]) =
      map of_nat (filter (bit m) [0..<32])" by (intro map_cong) auto
  then show ?thesis using assms
    by (auto simp: mask_compressstoreu_epi16_def buf_has_def Let_def)
qed

lemma set_positions_mod_32:
  assumes "i < length ws"
  shows "map (\<lambda>p. of_nat (p mod 32)) (set_positions (take (Suc i) ws)) =
      (map (\<lambda>p. of_nat (p mod 32)) (set_positions (take i ws))
        @ map of_nat (filter (bit (ucast (ws ! i) :: u32)) [0..<32]))
        @ map of_nat (filter (bit (ucast (drop_bit 32 (ws ! i)) :: u32)) [0..<32])"
proof -
  have m: "(64 * i + p) mod 32 = p mod 32" "(64 * i + (32 + p)) mod 32 = p mod 32" for p
    using mod_mult_self2 [of p 32 "2 * i"] mod_mult_self2 [of p 32 "2 * i + 1"]
    by (simp_all add: algebra_simps)
  have f: "map (\<lambda>p. of_nat (p mod 32)) (filter P [0..<32]) = map of_nat (filter P [0..<32])" for P
    by (intro map_cong) auto
  show ?thesis
    by (simp only: set_positions_take_Suc [OF assms] filter_bit_halves map_append map_map o_def
        append_assoc m mod_add_self1 f)
qed

lemma dense512_loop_result:
  assumes "llvm_popcount_ok L"
    and "buf_has out k (map (\<lambda>p. of_nat (p mod 32)) (set_positions (take i ws)))"
    and "i + n \<le> length ws" and "length (set_positions (take (i + n) ws)) \<le> length out"
  shows "\<exists>k' out'. dense512_loop L ws n i (map of_nat [0..<32]) k out = Some (k', out') \<and>
    buf_has out' k' (map (\<lambda>p. of_nat (p mod 32)) (set_positions (take (i + n) ws)))"
  using assms(2-)
proof (induction n arbitrary: i k out)
  case (Suc n)
  let ?lo = "filter (bit (ucast (ws ! i) :: u32)) [0..<32]"
  let ?hi = "filter (bit (ucast (drop_bit 32 (ws ! i)) :: u32)) [0..<32]"
  have i: "i < length ws" using Suc.prems by simp
  note s = set_positions_mod_32 [OF i]
  have "length (set_positions (take (Suc i) ws)) \<le> length (set_positions (take (i + Suc n) ws))"
    unfolding length_set_positions by (intro card_mono bits_of_finite) (auto simp: bits_of_def)
  moreover have "length (set_positions (take (Suc i) ws)) = k + length ?lo + length ?hi"
    using Suc.prems(1) 
    by (simp add: buf_has_def set_positions_take_Suc [OF i] filter_bit_halves)
  ultimately have room: "k + length ?lo + length ?hi \<le> length out" using Suc.prems(3) by simp
  obtain o1 where o1: "mask_compressstoreu_epi16 out k (ucast (ws ! i)) (map of_nat [0..<32]) = Some o1"
    "length o1 = length out" "buf_has o1 (k + length ?lo)
      (map (\<lambda>p. of_nat (p mod 32)) (set_positions (take i ws)) @ map of_nat ?lo)"
    using compressstore_correct [OF Suc.prems(1), of "ucast (ws ! i)"] room by auto
  obtain o2 where o2: "mask_compressstoreu_epi16 o1 (k + length ?lo) (ucast (drop_bit 32 (ws ! i)))
      (map of_nat [0..<32]) = Some o2" "length o2 = length out"
    "buf_has o2 (k + length ?lo + length ?hi) (map (\<lambda>p. of_nat (p mod 32)) (set_positions (take (Suc i) ws)))"
    using compressstore_correct [OF o1(3), of "ucast (drop_bit 32 (ws ! i))"] room o1(2)
    unfolding s by auto
  have "dense512_loop L ws (Suc n) i (map of_nat [0..<32]) k out =
      dense512_loop L ws n (Suc i) (map of_nat [0..<32]) (k + length ?lo + length ?hi) o2"
    using i o1(1) o2(1) by (simp add: checked Let_def popcount_half [OF assms(1)] del: upt_Suc upt_rec_numeral)
  then show ?case using Suc.IH [OF o2(3)] Suc.prems o2(2) by (simp del: upt_rec_numeral)
qed simp

lemma BitVectorToSelectionVector_AVX512_result:
  assumes "llvm_ok L" and "num_words_for num_bits \<le> length bits"
    and "64 * num_words_for num_bits \<le> length out"
  shows "\<exists>n out'. BitVectorToSelectionVector_Dense_AVX512 L bits num_bits out = Some (n, out') \<and>
    buf_has out' n (map (\<lambda>p. of_nat (p mod 32)) (set_positions (take (num_words_for num_bits) bits)))"
proof -
  let ?ws = "take (num_words_for num_bits) bits"
  have "length (set_positions ?ws) \<le> length out"
    using card_bits_of_le [of ?ws] assms(2,3) by (simp add: length_set_positions)
  then show ?thesis
    using dense512_loop_result [OF llvm_okD(2) [OF assms(1)], of out 0 0 bits "num_words_for num_bits"]
      assms(2)
    by (simp add: BitVectorToSelectionVector_Dense_AVX512_def del: upt_rec_numeral)
qed

text \<open>
  In a build with AVX-512, the conversion is right as long as the sparse loop is taken or all the
  positions are below 32.
\<close>

lemma sum_countPopulation:
  assumes "llvm_popcount_ok L"
  shows "sum_list (map (countPopulation L) ws) = card (bits_of ws)"
proof -
  have "sum_list (map (countPopulation L) ws) = length (set_positions ws)"
    using assms by (induction ws rule: rev_induct) (simp_all add: set_positions_snoc llvm_popcount_ok_def)
  then show ?thesis by (simp add: length_set_positions)
qed

lemma BitVectorToSelectionVector_builds:
  assumes "llvm_ok L" and "num_words_for num_bits \<le> length bits"
    and "64 * num_words_for num_bits \<le> length out" and "length out < 2 ^ 16"
    and small: "avx512 \<longrightarrow> sparse (card (bits_of (take (num_words_for num_bits) bits))) num_bits \<or>
      (\<forall>p \<in> bits_of (take (num_words_for num_bits) bits). p < 32)"
  shows "\<exists>n out'. BitVectorToSelectionVector L avx512 sparse bits num_bits out = Some (n, out') \<and>
    buf_has out' n (map of_nat (set_positions (take (num_words_for num_bits) bits)))"
proof (cases avx512)
  case False
  then show ?thesis using BitVectorToSelectionVector_result [OF assms(1-4)] by simp
next
  case True
  let ?ws = "take (num_words_for num_bits) bits"
  note count = sum_countPopulation [OF llvm_okD(2) [OF assms(1)], of ?ws]
  show ?thesis
  proof (cases "sparse (card (bits_of ?ws)) num_bits")
    case True
    have "card (bits_of ?ws) \<le> length out" using card_bits_of_le [of ?ws] assms(2,3) by simp
    then show ?thesis
      using BitVectorToSelectionVector_Sparse_correct [OF llvm_okD(1) [OF assms(1)] assms(2)] assms(2) True
      by (simp add: BitVectorToSelectionVector_def checked Let_def count)
  next
    case dense: False
    have "p mod 32 = p" if "p \<in> set (set_positions ?ws)" for p
      using small True dense that by simp
    then have m: "map (\<lambda>p. of_nat (p mod 32) :: sel_t) (set_positions ?ws) = map of_nat (set_positions ?ws)"
      by simp
    show ?thesis
      using BitVectorToSelectionVector_AVX512_result [OF assms(1-3), unfolded m] assms(2) True dense
      by (simp add: BitVectorToSelectionVector_def BitVectorToSelectionVector_Dense_def checked Let_def count)
  qed
qed

section \<open>Properties\<close>

text \<open>
  C13. On two strictly ascending selection vectors, \<open>IntersectSelected\<close> leaves in the output
  buffer exactly the elements of the first that occur in the second, in ascending order, and
  returns their number, whichever of the two vectors is longer.
\<close>

theorem IntersectSelected_correct:
  assumes "sorted_wrt (<) v1" and "sorted_wrt (<) v2"
    and "length (filter (\<lambda>x. x \<in> set v2) v1) \<le> length out"
  shows "\<exists>n out'. IntersectSelected v1 v2 out = Some (n, out') \<and>
    n = card (set v1 \<inter> set v2) \<and> take n out' = sorted_list_of_set (set v1 \<inter> set v2)"
proof -
  obtain n out' where r: "IntersectSelected v1 v2 out = Some (n, out')"
    "n = length (filter (\<lambda>x. x \<in> set v2) v1)" "take n out' = filter (\<lambda>x. x \<in> set v2) v1"
    using IntersectSelected_result [OF assms] by (auto simp: buf_has_def)
  have "sorted_wrt (<) (filter (\<lambda>x. x \<in> set v2) v1)" using assms(1) by (rule sorted_wrt_filter)
  moreover have "set (filter (\<lambda>x. x \<in> set v2) v1) = set v1 \<inter> set v2" by auto
  ultimately have "filter (\<lambda>x. x \<in> set v2) v1 = sorted_list_of_set (set v1 \<inter> set v2)"
    by (metis strict_sorted_iff sorted_list_of_set.idem_if_sorted_distinct)
  then show ?thesis using r by simp
qed

theorem IntersectSelected_correct_witness:
  "IntersectSelected [2, 5, 9] [1, 5, 9, 12] (replicate 3 0) = Some (2, [5, 9, 0]) \<and>
   (\<exists>n out'. IntersectSelected [2, 5, 9] [1, 5, 9, 12] (replicate 3 0) = Some (n, out') \<and>
    n = card (set [2, 5, 9 :: sel_t] \<inter> set [1, 5, 9, 12]) \<and>
    take n out' = sorted_list_of_set (set [2, 5, 9] \<inter> set [1, 5, 9, 12]))"
proof -
  have "IntersectSelected [2, 5, 9] [1, 5, 9, 12] (replicate 3 0) = Some (2, [5, 9, 0])"
    by code_simp
  moreover have "sorted_wrt (<) [2, 5, 9 :: sel_t]" "sorted_wrt (<) [1, 5, 9, 12 :: sel_t]"
    "length (filter (\<lambda>x. x \<in> set [1, 5, 9, 12 :: sel_t]) [2, 5, 9]) \<le>
       length (replicate 3 (0 :: sel_t))" by code_simp+
  ultimately show ?thesis using IntersectSelected_correct by blast
qed

text \<open>
  C12. The scalar and the SIMD difference agree: on an ascending selection vector of positions
  below \<open>n\<close>, both return the number of positions below \<open>n\<close> that are not selected and leave
  exactly these positions, ascending, in the output; the contents of the uninitialised scratch
  array of the SIMD version does not matter.
\<close>

theorem DiffSelected_agree:
  assumes "llvm_ok L" and "sorted_wrt (<) sel" and "\<forall>s \<in> set sel. unat s < unat n"
    and "unat n \<le> kDefaultVectorSize" and "length scratch = kDefaultVectorSize"
    and "unat n \<le> length out"
  shows "\<exists>m out1 out2. DiffSelected_Scalar n sel out = Some (m, out1) \<and>
    DiffSelected L scratch (unat n) sel out = Some (unat m, out2) \<and>
    take (unat m) out1 = take (unat m) out2 \<and>
    take (unat m) out2 = map of_nat (filter (\<lambda>i. i \<notin> unat ` set sel) [0..<unat n]) \<and>
    unat m + length sel = unat n"
proof -
  let ?d = "filter (\<lambda>i. i \<notin> unat ` set sel) [0..<unat n]"
  obtain m out1 where s: "DiffSelected_Scalar n sel out = Some (m, out1)"
    "buf_has out1 (unat m) (map of_nat ?d)"
    using DiffSelected_Scalar_correct [OF assms(2,3,6)] by blast
  obtain m' out2 where v: "DiffSelected L scratch (unat n) sel out = Some (m', out2)"
    "buf_has out2 m' (map of_nat ?d)"
    using DiffSelected_correct [OF llvm_okD(2) [OF assms(1)] assms(4,5,3,6)] by blast
  have sub: "unat ` set sel \<subseteq> {..<unat n}" using assms(3) by auto
  have "distinct sel" using assms(2) by (simp add: strict_sorted_iff)
  then have "card (unat ` set sel) = length sel"
    by (subst card_image) (auto simp: inj_on_def distinct_card word_unat_eq_iff)
  then have "unat m + length sel = unat n"
    using s(2) length_filter_compl [OF sub] card_mono [OF finite_lessThan sub]
    by (simp add: buf_has_def)
  then show ?thesis using s v by (auto simp: buf_has_def)
qed

theorem DiffSelected_agree_witness:
  "DiffSelected_Scalar 12 [0, 3, 10] (replicate 12 7) =
     Some (9, [1, 2, 4, 5, 6, 7, 8, 9, 11, 7, 7, 7]) \<and>
   (\<exists>m out1 out2. DiffSelected_Scalar 12 [0, 3, 10] (replicate 12 7) = Some (m, out1) \<and>
    DiffSelected llvm_reference (replicate kDefaultVectorSize 0xAB) (unat (12 :: u32)) [0, 3, 10]
      (replicate 12 7) = Some (unat m, out2) \<and>
    take (unat m) out1 = take (unat m) out2 \<and>
    take (unat m) out2 = map of_nat (filter (\<lambda>i. i \<notin> unat ` set [0, 3, 10 :: sel_t]) [0..<unat (12 :: u32)]) \<and>
    unat m + length [0, 3, 10 :: sel_t] = unat (12 :: u32))"
proof -
  have "DiffSelected_Scalar 12 [0, 3, 10] (replicate 12 7) =
     Some (9, [1, 2, 4, 5, 6, 7, 8, 9, 11, 7, 7, 7])" by code_simp
  moreover have "sorted_wrt (<) [0, 3, 10 :: sel_t]" by code_simp
  moreover have "\<forall>s \<in> set [0, 3, 10 :: sel_t]. unat s < unat (12 :: u32)" by simp
  moreover have "unat (12 :: u32) \<le> kDefaultVectorSize" by (simp add: kDefaultVectorSize_def)
  moreover have "unat (12 :: u32) \<le> length (replicate 12 (7 :: sel_t))" by simp
  ultimately show ?thesis
    using DiffSelected_agree [OF llvm_reference_ok, of "[0, 3, 10]" 12
        "replicate kDefaultVectorSize 0xAB" "replicate 12 7"] by (simp only: length_replicate simp_thms)
qed

text \<open>
  C6. Whatever the density heuristic answers, \<open>BitVectorToSelectionVector\<close> writes the positions
  of the set bits of the input words in ascending order and returns their number, in a build
  without AVX-512: the sparse loop over the trailing zeros and the dense loop over the lookup
  table are equivalent. The output buffer must hold one element for each bit of the words.
\<close>

theorem BitVectorToSelectionVector_correct:
  assumes "llvm_ok L" and "num_words_for num_bits \<le> length bits"
    and "64 * num_words_for num_bits \<le> length out" and "length out < 2 ^ 16"
  shows "\<exists>n out'. BitVectorToSelectionVector L False sparse bits num_bits out = Some (n, out') \<and>
    n = card (bits_of (take (num_words_for num_bits) bits)) \<and>
    take n out' = map of_nat (sorted_list_of_set (bits_of (take (num_words_for num_bits) bits)))"
  using BitVectorToSelectionVector_result [OF assms, of sparse]
  by (auto simp: buf_has_def length_set_positions set_positions_eq [symmetric])

theorem BitVectorToSelectionVector_correct_witness:
  "BitVectorToSelectionVector llvm_reference False (\<lambda>c n. 8 * c < n) [0x81] 64 (replicate 64 0) =
     Some (2, [0, 7] @ replicate 62 0) \<and>
   (\<exists>n out'. BitVectorToSelectionVector llvm_reference False (\<lambda>c n. 8 * c < n) [0x81] 64
      (replicate 64 0) = Some (n, out') \<and>
    n = card (bits_of (take (num_words_for 64) [0x81])) \<and>
    take n out' = map of_nat (sorted_list_of_set (bits_of (take (num_words_for 64) [0x81]))))"
proof -
  have "BitVectorToSelectionVector llvm_reference False (\<lambda>c n. 8 * c < n) [0x81] 64
      (replicate 64 0) = Some (2, [0, 7] @ replicate 62 0)" by code_simp
  moreover have "num_words_for 64 \<le> length [0x81 :: u64]"
    "64 * num_words_for 64 \<le> length (replicate 64 (0 :: sel_t))"
    "length (replicate 64 (0 :: sel_t)) < 2 ^ 16" by (simp_all add: num_words_for_def)
  ultimately show ?thesis
    using BitVectorToSelectionVector_correct [OF llvm_reference_ok, of 64 "[0x81]" "replicate 64 0"]
    by blast
qed

text \<open>
  C21. The AVX-512 build writes, in place of each set position, its remainder modulo 32: the
  statement that advances the index vector discards its result, so every position from 32 on
  is reported wrongly.
\<close>

theorem BitVectorToSelectionVector_AVX512_mod_32:
  assumes "llvm_ok L" and "num_words_for num_bits \<le> length bits"
    and "64 * num_words_for num_bits \<le> length out"
  shows "\<exists>n out'. BitVectorToSelectionVector_Dense_AVX512 L bits num_bits out = Some (n, out') \<and>
    n = card (bits_of (take (num_words_for num_bits) bits)) \<and>
    take n out' = map (\<lambda>p. of_nat (p mod 32))
      (sorted_list_of_set (bits_of (take (num_words_for num_bits) bits)))"
  using BitVectorToSelectionVector_AVX512_result [OF assms]
  by (auto simp: buf_has_def length_set_positions set_positions_eq [symmetric])

theorem BitVectorToSelectionVector_AVX512_mod_32_witness:
  "BitVectorToSelectionVector_Dense_AVX512 llvm_reference [0x200000002] 64 (replicate 64 9) =
     Some (2, [1, 1] @ replicate 62 9) \<and>
   (\<exists>n out'. BitVectorToSelectionVector_Dense_AVX512 llvm_reference [0x200000002] 64
      (replicate 64 9) = Some (n, out') \<and>
    n = card (bits_of (take (num_words_for 64) [0x200000002])) \<and>
    take n out' = map (\<lambda>p. of_nat (p mod 32))
      (sorted_list_of_set (bits_of (take (num_words_for 64) [0x200000002]))))"
proof -
  have "BitVectorToSelectionVector_Dense_AVX512 llvm_reference [0x200000002] 64 (replicate 64 9) =
     Some (2, [1, 1] @ replicate 62 9)" by code_simp
  moreover have "num_words_for 64 \<le> length [0x200000002 :: u64]"
    "64 * num_words_for 64 \<le> length (replicate 64 (9 :: sel_t))" by (simp_all add: num_words_for_def)
  ultimately show ?thesis
    using BitVectorToSelectionVector_AVX512_mod_32 [OF llvm_reference_ok, of 64 "[0x200000002]"
        "replicate 64 9"]
    by blast
qed

text \<open>
  C14. Bits to bytes and back: \<open>BitVectorToByteVector\<close> fills the byte vector with \<open>0xFF\<close> for a
  set bit and \<open>0\<close> for a clear bit, and \<open>ByteVectorToBitVector\<close> turns that byte vector into a
  bit vector that agrees with the original on every position below \<open>num_bits\<close> and keeps the
  bits of its destination from there on.
\<close>

theorem bits_bytes_roundtrip:
  assumes "num_words_for num_bits \<le> length bits" and "num_bits = length out"
    and "num_words_for num_bits \<le> length bits2"
  shows "\<exists>bytes bits'. BitVectorToByteVector bits num_bits out = Some bytes \<and>
    ByteVectorToBitVector bytes bits2 = Some bits' \<and> saturated bytes \<and>
    bits_of bits' = {p \<in> bits_of bits. p < num_bits} \<union> {p \<in> bits_of bits2. num_bits \<le> p}"
proof -
  obtain bytes where b: "BitVectorToByteVector bits num_bits out = Some bytes"
    "length bytes = num_bits"
    "\<forall>p < num_bits. bytes ! p = (if p \<in> bits_of bits then 0xFF else 0)"
    using BitVectorToByteVector_correct [OF assms(1), of out] assms(2) by auto
  have sat: "saturated bytes" unfolding saturated_def all_set_conv_all_nth using b(2,3) by simp
  obtain bits' where "ByteVectorToBitVector bytes bits2 = Some bits'"
    "\<forall>p. p \<in> bits_of bits' \<longleftrightarrow> (if p < num_bits then bytes ! p = 0xFF else p \<in> bits_of bits2)"
    using ByteVectorToBitVector_correct [OF sat, of bits2] b(2) assms(3) by auto
  moreover from this(2) have "bits_of bits' =
      {p \<in> bits_of bits. p < num_bits} \<union> {p \<in> bits_of bits2. num_bits \<le> p}"
    using b(3) by (intro set_eqI) (simp add: not_less [symmetric])
  ultimately show ?thesis using b(1) sat by blast
qed

theorem bits_bytes_roundtrip_witness:
  "BitVectorToByteVector [0xB5] 5 (replicate 5 1) = Some [0xFF, 0, 0xFF, 0, 0xFF] \<and>
   (\<exists>bytes bits'. BitVectorToByteVector [0xB5] 5 (replicate 5 1) = Some bytes \<and>
    ByteVectorToBitVector bytes [0xFFFF] = Some bits' \<and> saturated bytes \<and>
    bits_of bits' = {p \<in> bits_of [0xB5]. p < 5} \<union> {p \<in> bits_of [0xFFFF]. 5 \<le> p})"
proof -
  have "BitVectorToByteVector [0xB5] 5 (replicate 5 1) = Some [0xFF, 0, 0xFF, 0, 0xFF]"
    by code_simp
  moreover have "num_words_for 5 \<le> length [0xB5 :: u64]" "5 = length (replicate 5 (1 :: u8))"
    "num_words_for 5 \<le> length [0xFFFF :: u64]" by (simp_all add: num_words_for_def)
  ultimately show ?thesis
    using bits_bytes_roundtrip by blast
qed

end
