(* ===== verification/BitVector.thy ===== *)
theory BitVector
  imports VectorUtil
begin

text \<open>
  \<^verbatim>\<open>src/src/include/util/bit_vector.h\<close>: the class \<^verbatim>\<open>BitVector<uint64_t>\<close>, the instance the
  engine uses. A bit vector is its number of bits and its array of 64-bit words. Every operation
  of the class is one definition; an operation whose assertion fails, or that accesses
  \<^verbatim>\<open>words_\<close> out of range, is \<open>None\<close>. Functors that are passed to an operation are functions:
  a predicate of a position, or a callback that updates a state of the caller.

  The abstraction of a bit vector is the set of its set positions. \<open>bv_wf\<close> is the class
  invariant: the array has just the words it needs, and no bit beyond the size is set.
\<close>

section \<open>The class\<close>

record BitVector =
  num_bits :: nat
  words :: "u64 list"

definition kBitsPerWord :: nat where
  "kBitsPerWord = 64"

definition kAllOnesWord :: u64 where
  "kAllOnesWord = NOT 0"

definition kInvalidPos :: nat where
  "kInvalidPos = 2 ^ 32 - 1"

definition NumNeededWords :: "nat \<Rightarrow> nat" where
  "NumNeededWords n = (n + kBitsPerWord - 1) div kBitsPerWord"

definition WordIndex :: "nat \<Rightarrow> nat" where
  "WordIndex position = position div kBitsPerWord"

definition BitIndex :: "nat \<Rightarrow> nat" where
  "BitIndex position = position mod kBitsPerWord"

definition BitMask :: "nat \<Rightarrow> u64" where
  "BitMask position = push_bit (BitIndex position) 1"

definition GetNumBits :: "BitVector \<Rightarrow> nat" where
  "GetNumBits bv = num_bits bv"

definition GetNumWords :: "BitVector \<Rightarrow> nat" where
  "GetNumWords bv = length (words bv)"

definition GetNumExtraBits :: "BitVector \<Rightarrow> nat" where
  "GetNumExtraBits bv = num_bits bv mod kBitsPerWord"

definition put_word :: "BitVector \<Rightarrow> nat \<Rightarrow> (u64 \<Rightarrow> u64) \<Rightarrow> BitVector option" where
  "put_word bv i f = do {
     w \<leftarrow> vec_at (words bv) i;
     ws \<leftarrow> vec_put (words bv) i (f w);
     Some (bv\<lparr>words := ws\<rparr>) }"

definition ZeroUnusedBits :: "BitVector \<Rightarrow> BitVector option" where
  "ZeroUnusedBits bv =
     (let extra_bits = GetNumExtraBits bv
      in if extra_bits \<noteq> 0
         then put_word bv (GetNumWords bv - 1) (\<lambda>w. w AND NOT (push_bit extra_bits kAllOnesWord))
         else Some bv)"

definition BitVector_empty :: BitVector where
  "BitVector_empty = \<lparr>num_bits = 0, words = []\<rparr>"

definition BitVector_new :: "nat \<Rightarrow> BitVector" where
  "BitVector_new n = \<lparr>num_bits = n, words = replicate (NumNeededWords n) 0\<rparr>"

definition BitVector_Test :: "BitVector \<Rightarrow> nat \<Rightarrow> bool option" where
  "BitVector_Test bv position = do {
     tpl_assert (position < GetNumBits bv);
     w \<leftarrow> vec_at (words bv) (WordIndex position);
     Some (w AND BitMask position \<noteq> 0) }"

definition BitVector_Set :: "BitVector \<Rightarrow> nat \<Rightarrow> BitVector option" where
  "BitVector_Set bv position = do {
     tpl_assert (position < GetNumBits bv);
     put_word bv (WordIndex position) (\<lambda>w. w OR BitMask position) }"

text \<open>\<^verbatim>\<open>Set(position, v)\<close>, the branch-free overload.\<close>

definition BitVector_SetTo :: "BitVector \<Rightarrow> nat \<Rightarrow> bool \<Rightarrow> BitVector option" where
  "BitVector_SetTo bv position v = do {
     tpl_assert (position < GetNumBits bv);
     put_word bv (WordIndex position) (\<lambda>w. w XOR ((- of_bool v XOR w) AND BitMask position)) }"

fun fill_words :: "BitVector \<Rightarrow> nat list \<Rightarrow> BitVector option" where
  "fill_words bv [] = Some bv"
| "fill_words bv (i # is) = do {
     bv \<leftarrow> put_word bv i (\<lambda>_. kAllOnesWord);
     fill_words bv is }"

definition BitVector_SetRange :: "BitVector \<Rightarrow> nat \<Rightarrow> nat \<Rightarrow> BitVector option" where
  "BitVector_SetRange bv start end_pos = do {
     tpl_assert (start \<le> end_pos);
     tpl_assert (end_pos \<le> GetNumBits bv);
     if start = end_pos then Some bv
     else do {
       let start_word_idx = start div kBitsPerWord;
       let end_word_idx = end_pos div kBitsPerWord;
       if start_word_idx = end_word_idx
       then put_word bv start_word_idx
              (\<lambda>w. w OR (push_bit (start mod kBitsPerWord) kAllOnesWord AND
                          NOT (push_bit (end_pos mod kBitsPerWord) kAllOnesWord)))
       else do {
         bv \<leftarrow> put_word bv start_word_idx
                 (\<lambda>w. w OR push_bit (start mod kBitsPerWord) kAllOnesWord);
         bv \<leftarrow> fill_words bv [start_word_idx + 1..<end_word_idx];
         put_word bv end_word_idx
           (\<lambda>w. w OR NOT (push_bit (end_pos mod kBitsPerWord) kAllOnesWord)) } } }"

definition BitVector_SetAll :: "BitVector \<Rightarrow> BitVector option" where
  "BitVector_SetAll bv = ZeroUnusedBits (bv\<lparr>words := map (\<lambda>_. kAllOnesWord) (words bv)\<rparr>)"

definition BitVector_Unset :: "BitVector \<Rightarrow> nat \<Rightarrow> BitVector option" where
  "BitVector_Unset bv position = do {
     tpl_assert (position < GetNumBits bv);
     put_word bv (WordIndex position) (\<lambda>w. w AND NOT (BitMask position)) }"

definition BitVector_Reset :: "BitVector \<Rightarrow> BitVector" where
  "BitVector_Reset bv = bv\<lparr>words := map (\<lambda>_. 0) (words bv)\<rparr>"

definition BitVector_Flip :: "BitVector \<Rightarrow> nat \<Rightarrow> BitVector option" where
  "BitVector_Flip bv position = do {
     tpl_assert (position < GetNumBits bv);
     put_word bv (WordIndex position) (\<lambda>w. w XOR BitMask position) }"

definition BitVector_FlipAll :: "BitVector \<Rightarrow> BitVector option" where
  "BitVector_FlipAll bv = ZeroUnusedBits (bv\<lparr>words := map NOT (words bv)\<rparr>)"

definition BitVector_GetWord :: "BitVector \<Rightarrow> nat \<Rightarrow> u64 option" where
  "BitVector_GetWord bv word_position = do {
     tpl_assert (word_position < GetNumWords bv);
     vec_at (words bv) word_position }"

definition BitVector_SetWord :: "BitVector \<Rightarrow> nat \<Rightarrow> u64 \<Rightarrow> BitVector option" where
  "BitVector_SetWord bv word_position word_val = do {
     tpl_assert (word_position < GetNumWords bv);
     bv \<leftarrow> put_word bv word_position (\<lambda>_. word_val);
     if word_position = GetNumWords bv - 1 then ZeroUnusedBits bv else Some bv }"

definition BitVector_All :: "BitVector \<Rightarrow> bool option" where
  "BitVector_All bv = do {
     let extra_bits = GetNumExtraBits bv;
     let num_full_words = (if extra_bits = 0 then GetNumWords bv else GetNumWords bv - 1);
     if \<not> list_all (\<lambda>w. w = kAllOnesWord) (take num_full_words (words bv)) then Some False
     else if extra_bits \<noteq> 0
     then do {
       w \<leftarrow> vec_at (words bv) (GetNumWords bv - 1);
       Some (w = NOT (push_bit extra_bits kAllOnesWord)) }
     else Some True }"

definition BitVector_None :: "BitVector \<Rightarrow> bool" where
  "BitVector_None bv = list_all (\<lambda>w. w = 0) (words bv)"

definition BitVector_Any :: "BitVector \<Rightarrow> bool" where
  "BitVector_Any bv = (\<not> BitVector_None bv)"

definition BitVector_CountOnes :: "llvm \<Rightarrow> BitVector \<Rightarrow> nat" where
  "BitVector_CountOnes L bv = foldl (\<lambda>count w. count + countPopulation L w) 0 (words bv)"

text \<open>
  \<^verbatim>\<open>_pdep_u64\<close> deposits the low bits of the source at the set positions of the mask, in
  ascending order.
\<close>

definition pdep_u64 :: "u64 \<Rightarrow> u64 \<Rightarrow> u64" where
  "pdep_u64 src m = horner_sum of_bool 2
     (map (\<lambda>i. bit m i \<and> bit src (length (filter (bit m) [0..<i]))) [0..<64])"

fun nth_one_loop :: "llvm \<Rightarrow> nat \<Rightarrow> u64 list \<Rightarrow> nat \<Rightarrow> nat \<Rightarrow> nat" where
  "nth_one_loop L nbits [] i n = nbits"
| "nth_one_loop L nbits (word # ws) i n =
     (let count = countPopulation L word
      in if n < count
         then let mask = pdep_u64 (push_bit n 1) word; pos = countTrailingZeros L mask
              in min nbits (i * kBitsPerWord + pos)
         else nth_one_loop L nbits ws (i + 1) (n - count))"

definition BitVector_NthOne :: "llvm \<Rightarrow> BitVector \<Rightarrow> nat \<Rightarrow> nat" where
  "BitVector_NthOne L bv n = nth_one_loop L (GetNumBits bv) (words bv) 0 n"

text \<open>
  The loop shared by \<^verbatim>\<open>Copy\<close>, \<^verbatim>\<open>Intersect\<close>, \<^verbatim>\<open>Union\<close>, \<^verbatim>\<open>Difference\<close> and \<^verbatim>\<open>Xor\<close>: it reads
  \<^verbatim>\<open>other.words_[i]\<close> for every word of this vector.
\<close>

definition zip_words :: "(u64 \<Rightarrow> u64 \<Rightarrow> u64) \<Rightarrow> BitVector \<Rightarrow> BitVector \<Rightarrow> BitVector option" where
  "zip_words f bv other = do {
     tpl_assert (GetNumBits bv = GetNumBits other);
     tpl_assert (GetNumWords bv \<le> GetNumWords other);
     Some (bv\<lparr>words := map2 f (words bv) (words other)\<rparr>) }"

definition BitVector_Copy :: "BitVector \<Rightarrow> BitVector \<Rightarrow> BitVector option" where
  "BitVector_Copy = zip_words (\<lambda>_ w. w)"

definition BitVector_Intersect :: "BitVector \<Rightarrow> BitVector \<Rightarrow> BitVector option" where
  "BitVector_Intersect = zip_words (AND)"

definition BitVector_Union :: "BitVector \<Rightarrow> BitVector \<Rightarrow> BitVector option" where
  "BitVector_Union = zip_words (OR)"

definition BitVector_Difference :: "BitVector \<Rightarrow> BitVector \<Rightarrow> BitVector option" where
  "BitVector_Difference = zip_words (\<lambda>v w. v AND NOT w)"

definition BitVector_Xor :: "BitVector \<Rightarrow> BitVector \<Rightarrow> BitVector option" where
  "BitVector_Xor = zip_words (XOR)"

text \<open>\<^verbatim>\<open>std::vector::resize(n, v)\<close>\<close>

definition vec_resize :: "'a list \<Rightarrow> nat \<Rightarrow> 'a \<Rightarrow> 'a list" where
  "vec_resize xs n v = take n xs @ replicate (n - length xs) v"

definition BitVector_Resize :: "BitVector \<Rightarrow> nat \<Rightarrow> BitVector option" where
  "BitVector_Resize bv n =
     ZeroUnusedBits \<lparr>num_bits = n, words = vec_resize (words bv) (NumNeededWords n) 0\<rparr>"

function update_set_word :: "llvm \<Rightarrow> (nat \<Rightarrow> bool) \<Rightarrow> nat \<Rightarrow> u64 \<Rightarrow> u64 \<Rightarrow> u64" where
  "update_set_word L p base word word_result =
     (if word \<noteq> 0
      then let r = countTrailingZeros L word
           in update_set_word L p base (word AND (word - 1))
                (word_result OR push_bit r (of_bool (p (base + r))))
      else word_result)"
  by pat_completeness auto
termination
  by (relation "measure (\<lambda>(L, p, base, word, res). unat word)") (auto simp: and_minus_one_less)

declare update_set_word.simps [simp del]

definition BitVector_UpdateSetBits :: "llvm \<Rightarrow> BitVector \<Rightarrow> (nat \<Rightarrow> bool) \<Rightarrow> BitVector" where
  "BitVector_UpdateSetBits L bv p = bv\<lparr>words :=
     map (\<lambda>(i, w). w AND update_set_word L p (i * kBitsPerWord) w 0)
       (zip [0..<GetNumWords bv] (words bv))\<rparr>"

definition full_word_result :: "(nat \<Rightarrow> bool) \<Rightarrow> nat \<Rightarrow> u64" where
  "full_word_result p i =
     foldl (\<lambda>res j. res OR push_bit j (of_bool (p (i * kBitsPerWord + j)))) 0 [0..<kBitsPerWord]"

fun update_tail :: "(nat \<Rightarrow> bool) \<Rightarrow> BitVector \<Rightarrow> nat list \<Rightarrow> BitVector option" where
  "update_tail p bv [] = Some bv"
| "update_tail p bv (i # is) = do {
     bv \<leftarrow> if \<not> p i then BitVector_Unset bv i else Some bv;
     update_tail p bv is }"

definition BitVector_UpdateFull :: "BitVector \<Rightarrow> (nat \<Rightarrow> bool) \<Rightarrow> BitVector option" where
  "BitVector_UpdateFull bv p =
     (if GetNumBits bv = 0 then Some bv
      else let num_full_words =
             (if GetNumExtraBits bv = 0 then GetNumWords bv else GetNumWords bv - 1);
             bv = bv\<lparr>words := map (\<lambda>(i, w). if i < num_full_words then w AND full_word_result p i else w)
                   (zip [0..<GetNumWords bv] (words bv))\<rparr>
           in update_tail p bv [num_full_words * kBitsPerWord..<GetNumBits bv])"

text \<open>The value passed to the callback is \<^verbatim>\<open>static_cast<bool>(word >> j)\<close>.\<close>

definition BitVector_ForEach :: "BitVector \<Rightarrow> (nat \<Rightarrow> bool \<Rightarrow> 's \<Rightarrow> 's) \<Rightarrow> 's \<Rightarrow> 's" where
  "BitVector_ForEach bv f s =
     fold (\<lambda>(i, word) s. fold (\<lambda>j s. f (i * kBitsPerWord + j) (drop_bit j word \<noteq> 0) s)
         [0..<kBitsPerWord] s)
       (zip [0..<GetNumWords bv] (words bv)) s"

function for_each_word :: "llvm \<Rightarrow> nat \<Rightarrow> u64 \<Rightarrow> (nat \<Rightarrow> 's \<Rightarrow> 's) \<Rightarrow> 's \<Rightarrow> 's" where
  "for_each_word L base word f s =
     (if word \<noteq> 0
      then for_each_word L base (word AND (word - 1)) f (f (base + countTrailingZeros L word) s)
      else s)"
  by pat_completeness auto
termination
  by (relation "measure (\<lambda>(L, base, word, f, s). unat word)") (auto simp: and_minus_one_less)

declare for_each_word.simps [simp del]

definition BitVector_ForEachSet :: "llvm \<Rightarrow> BitVector \<Rightarrow> (nat \<Rightarrow> 's \<Rightarrow> 's) \<Rightarrow> 's \<Rightarrow> 's" where
  "BitVector_ForEachSet L bv f s =
     fold (\<lambda>(i, word) s. for_each_word L (i * kBitsPerWord) word f s)
       (zip [0..<GetNumWords bv] (words bv)) s"

definition BitVector_SetFromBytes :: "BitVector \<Rightarrow> u8 list \<Rightarrow> BitVector option" where
  "BitVector_SetFromBytes bv bytes = do {
     tpl_assert (length bytes = GetNumBits bv);
     ws \<leftarrow> ByteVectorToBitVector bytes (words bv);
     Some (bv\<lparr>words := ws\<rparr>) }"

fun bits_to_string :: "BitVector \<Rightarrow> nat list \<Rightarrow> bool \<Rightarrow> string \<Rightarrow> string option" where
  "bits_to_string bv [] is_first result = Some result"
| "bits_to_string bv (i # is) is_first result = do {
     b \<leftarrow> BitVector_Test bv i;
     bits_to_string bv is False
       ((if is_first then result else result @ '','') @ (if b then ''1'' else ''0'')) }"

definition BitVector_ToString :: "BitVector \<Rightarrow> string option" where
  "BitVector_ToString bv = do {
     result \<leftarrow> bits_to_string bv [0..<GetNumBits bv] True
       (''BitVector(#bits='' @ to_string (GetNumBits bv) @ '')=['');
     Some (result @ '']'') }"

fun find_from_loop :: "llvm \<Rightarrow> u64 list \<Rightarrow> nat \<Rightarrow> nat" where
  "find_from_loop L [] i = kInvalidPos"
| "find_from_loop L (w # ws) i =
     (if w \<noteq> 0 then i * kBitsPerWord + countTrailingZeros L w else find_from_loop L ws (i + 1))"

definition FindFrom :: "llvm \<Rightarrow> BitVector \<Rightarrow> nat \<Rightarrow> nat" where
  "FindFrom L bv word_index = find_from_loop L (drop word_index (words bv)) word_index"

definition FindFirst :: "llvm \<Rightarrow> BitVector \<Rightarrow> nat" where
  "FindFirst L bv = FindFrom L bv 0"

definition FindNext :: "llvm \<Rightarrow> BitVector \<Rightarrow> nat \<Rightarrow> nat option" where
  "FindNext L bv position =
     (if GetNumBits bv = 0 \<or> position \<ge> GetNumBits bv - 1 then Some kInvalidPos
      else do {
        let position = position + 1;
        let word_index = WordIndex position;
        let bit_index = BitIndex position;
        w \<leftarrow> vec_at (words bv) word_index;
        let word = drop_bit bit_index w;
        if word \<noteq> 0 then Some (position + countTrailingZeros L word)
        else Some (FindFrom L bv (word_index + 1)) })"

text \<open>
  \<^verbatim>\<open>bv[position] = val\<close> goes through \<^verbatim>\<open>BitReference\<close>, a pointer to the word and a mask:
  a read is \<open>BitReference_get\<close>, an assignment is \<open>BitReference_assign\<close>.
\<close>

record BitReference =
  ref_word :: nat
  ref_mask :: u64

definition BitVector_index :: "BitVector \<Rightarrow> nat \<Rightarrow> BitReference option" where
  "BitVector_index bv position = do {
     tpl_assert (position < GetNumBits bv);
     Some \<lparr>ref_word = WordIndex position, ref_mask = push_bit (BitIndex position) 1\<rparr> }"

definition BitReference_get :: "BitVector \<Rightarrow> BitReference \<Rightarrow> bool option" where
  "BitReference_get bv r = do {
     w \<leftarrow> vec_at (words bv) (ref_word r);
     Some (w AND ref_mask r \<noteq> 0) }"

definition BitReference_assign :: "BitVector \<Rightarrow> BitReference \<Rightarrow> bool \<Rightarrow> BitVector option" where
  "BitReference_assign bv r val =
     (if val then put_word bv (ref_word r) (\<lambda>w. w OR ref_mask r)
      else put_word bv (ref_word r) (\<lambda>w. w AND NOT (ref_mask r)))"

definition BitVector_eq :: "BitVector \<Rightarrow> BitVector \<Rightarrow> bool" where
  "BitVector_eq a b \<longleftrightarrow> num_bits a = num_bits b \<and> words a = words b"

section \<open>Invariant and abstraction\<close>

definition bv_set :: "BitVector \<Rightarrow> nat set" where
  "bv_set bv = bits_of (words bv)"

definition bv_wf :: "BitVector \<Rightarrow> bool" where
  "bv_wf bv \<longleftrightarrow> length (words bv) = NumNeededWords (num_bits bv) \<and>
     (\<forall>p \<in> bv_set bv. p < num_bits bv)"

lemmas bv_consts = kBitsPerWord_def WordIndex_def BitIndex_def BitMask_def GetNumBits_def
  GetNumWords_def GetNumExtraBits_def kAllOnesWord_def

lemma NumNeededWords_split: "NumNeededWords n = n div 64 + of_bool (n mod 64 \<noteq> 0)"
  using num_words_for_split [of n] by (simp add: NumNeededWords_def num_words_for_def kBitsPerWord_def)

lemma NumNeededWords_word: "p < n \<Longrightarrow> p div 64 < NumNeededWords n"
proof -
  assume "p < n"
  then have "p div 64 \<le> n div 64" by (simp add: div_le_mono)
  moreover have "p div 64 < n div 64" if "n mod 64 = 0"
    using that \<open>p < n\<close> by (metis div_less_iff_less_mult div_mod_decomp add.right_neutral zero_less_numeral)
  ultimately show ?thesis by (auto simp: NumNeededWords_split of_bool_def)
qed

lemma NumNeededWords_last: "n mod 64 \<noteq> 0 \<Longrightarrow> NumNeededWords n - 1 = n div 64 \<and> 0 < NumNeededWords n"
  by (simp add: NumNeededWords_split)

lemma NumNeededWords_full: "n mod 64 = 0 \<Longrightarrow> 64 * NumNeededWords n = n"
  using mult_div_mod_eq [of 64 n] by (simp add: NumNeededWords_split)

lemma bv_wf_word: "bv_wf bv \<Longrightarrow> p < num_bits bv \<Longrightarrow> p div 64 < length (words bv)"
  by (simp add: bv_wf_def NumNeededWords_word)

lemma bv_wf_bound: "bv_wf bv \<Longrightarrow> p \<in> bv_set bv \<Longrightarrow> p < num_bits bv"
  by (simp add: bv_wf_def)

lemma bv_wf_finite [simp]: "finite (bv_set bv)"
  by (simp add: bv_set_def)

lemma same_position: "q = p \<longleftrightarrow> q div 64 = p div 64 \<and> q mod 64 = p mod (64 :: nat)"
  by (metis div_mult_mod_eq)

text \<open>An update of a single word changes the positions of that word only.\<close>

lemma put_word_result:
  assumes "i < length (words bv)"
  shows "\<exists>bv'. put_word bv i f = Some bv' \<and> num_bits bv' = num_bits bv \<and>
    length (words bv') = length (words bv) \<and>
    (\<forall>p. p \<in> bv_set bv' \<longleftrightarrow> (if p div 64 = i then bit (f (words bv ! i)) (p mod 64) else p \<in> bv_set bv))"
  using assms by (auto simp: put_word_def checked bv_set_def mem_bits_of_update)

lemma put_bit_result:
  assumes wf: "bv_wf bv" and p: "p < num_bits bv"
    and f: "\<And>w j. j < 64 \<Longrightarrow> bit (f w) j \<longleftrightarrow> (if j = p mod 64 then g (bit w j) else bit w j)"
  shows "\<exists>bv'. put_word bv (p div 64) f = Some bv' \<and> bv_wf bv' \<and> num_bits bv' = num_bits bv \<and>
    bv_set bv' = (if g (p \<in> bv_set bv) then insert p (bv_set bv) else bv_set bv - {p})"
proof -
  have i: "p div 64 < length (words bv)" using wf p by (rule bv_wf_word)
  obtain bv' where bv': "put_word bv (p div 64) f = Some bv'" "num_bits bv' = num_bits bv"
    "length (words bv') = length (words bv)"
    "\<And>q. q \<in> bv_set bv' \<longleftrightarrow> (if q div 64 = p div 64 then bit (f (words bv ! (p div 64))) (q mod 64)
       else q \<in> bv_set bv)"
    using put_word_result [OF i, of f] by blast
  have mem: "q \<in> bv_set bv' \<longleftrightarrow> (if q = p then g (p \<in> bv_set bv) else q \<in> bv_set bv)" for q
  proof (cases "q div 64 = p div 64")
    case True
    then have "q \<in> bv_set bv \<longleftrightarrow> bit (words bv ! (p div 64)) (q mod 64)"
      using i by (simp add: bv_set_def mem_bits_of)
    moreover have "q = p \<longleftrightarrow> q mod 64 = p mod 64" using True same_position [of q p] by simp
    moreover have "q mod 64 < 64" by simp
    ultimately show ?thesis
      using True bv'(4) [of q] f [of "q mod 64" "words bv ! (p div 64)"] by (cases "q = p") simp_all
  qed (use bv'(4) [of q] in auto)
  have "\<forall>q \<in> bv_set bv'. q < num_bits bv"
    using mem wf p by (metis bv_wf_bound)
  then have "bv_wf bv'" using wf bv'(2,3) by (simp add: bv_wf_def)
  moreover have "bv_set bv' = (if g (p \<in> bv_set bv) then insert p (bv_set bv) else bv_set bv - {p})"
    by (intro set_eqI) (simp add: mem)
  ultimately show ?thesis using bv'(1,2) by blast
qed

lemma bit_BitMask: "j < 64 \<Longrightarrow> bit (BitMask p) j \<longleftrightarrow> j = p mod 64"
  by (auto simp: bv_consts bit_push_bit_iff bit_1_iff simp del: push_bit_of_1)

lemma test_BitMask: "(w AND BitMask p \<noteq> 0) = bit w (p mod 64)"
  using bit_iff_and_mask [of w "p mod 64"] by (simp only: BitMask_def BitIndex_def kBitsPerWord_def)

section \<open>Single positions\<close>

lemma BitVector_Test_result:
  assumes "bv_wf bv" and "p < num_bits bv"
  shows "BitVector_Test bv p = Some (p \<in> bv_set bv)"
  using assms bv_wf_word [OF assms]
  by (simp add: BitVector_Test_def checked test_BitMask WordIndex_def GetNumBits_def kBitsPerWord_def
      bv_set_def mem_bits_of)

lemma BitVector_Set_result:
  assumes "bv_wf bv" and "p < num_bits bv"
  shows "\<exists>bv'. BitVector_Set bv p = Some bv' \<and> bv_wf bv' \<and> num_bits bv' = num_bits bv \<and>
    bv_set bv' = insert p (bv_set bv)"
  using put_bit_result [OF assms, of "\<lambda>w. w OR BitMask p" "\<lambda>_. True"] assms(2)
  by (auto simp: BitVector_Set_def checked WordIndex_def GetNumBits_def kBitsPerWord_def bit_or_iff bit_BitMask)

lemma BitVector_Unset_result:
  assumes "bv_wf bv" and "p < num_bits bv"
  shows "\<exists>bv'. BitVector_Unset bv p = Some bv' \<and> bv_wf bv' \<and> num_bits bv' = num_bits bv \<and>
    bv_set bv' = bv_set bv - {p}"
  using put_bit_result [OF assms, of "\<lambda>w. w AND NOT (BitMask p)" "\<lambda>_. False"] assms(2)
  by (auto simp: BitVector_Unset_def checked WordIndex_def GetNumBits_def kBitsPerWord_def
      bit_and_iff bit_not_iff bit_BitMask)

lemma BitVector_SetTo_result:
  assumes "bv_wf bv" and "p < num_bits bv"
  shows "\<exists>bv'. BitVector_SetTo bv p v = Some bv' \<and> bv_wf bv' \<and> num_bits bv' = num_bits bv \<and>
    bv_set bv' = (if v then insert p (bv_set bv) else bv_set bv - {p})"
  using put_bit_result [OF assms, of "\<lambda>w. w XOR ((- of_bool v XOR w) AND BitMask p)" "\<lambda>_. v"] assms(2)
  by (auto simp: BitVector_SetTo_def checked WordIndex_def GetNumBits_def kBitsPerWord_def
      bit_and_iff bit_xor_iff bit_BitMask)

lemma BitVector_Flip_result:
  assumes "bv_wf bv" and "p < num_bits bv"
  shows "\<exists>bv'. BitVector_Flip bv p = Some bv' \<and> bv_wf bv' \<and> num_bits bv' = num_bits bv \<and>
    bv_set bv' = (if p \<in> bv_set bv then bv_set bv - {p} else insert p (bv_set bv))"
  using put_bit_result [OF assms, of "\<lambda>w. w XOR BitMask p" "\<lambda>b. \<not> b"] assms(2)
  by (auto simp: BitVector_Flip_def checked WordIndex_def GetNumBits_def kBitsPerWord_def
      bit_xor_iff bit_BitMask)

lemma BitReference_assign_result:
  assumes "bv_wf bv" and "p < num_bits bv"
  shows "\<exists>r bv'. BitVector_index bv p = Some r \<and> BitReference_assign bv r v = Some bv' \<and>
    BitReference_get bv' r = Some v \<and> bv_wf bv' \<and> num_bits bv' = num_bits bv \<and>
    bv_set bv' = (if v then insert p (bv_set bv) else bv_set bv - {p})"
proof -
  let ?r = "\<lparr>ref_word = p div 64, ref_mask = BitMask p\<rparr>"
  have "BitReference_assign bv ?r v = (if v then BitVector_Set bv p else BitVector_Unset bv p)"
    using assms(2) by (simp add: BitReference_assign_def BitVector_Set_def BitVector_Unset_def checked
        GetNumBits_def WordIndex_def kBitsPerWord_def)
  then obtain bv' where bv': "BitReference_assign bv ?r v = Some bv'"
    "bv_wf bv'" "num_bits bv' = num_bits bv"
    "bv_set bv' = (if v then insert p (bv_set bv) else bv_set bv - {p})"
    using BitVector_Set_result [OF assms] BitVector_Unset_result [OF assms] by (cases v) auto
  have "BitVector_Test bv' p = Some v"
    using BitVector_Test_result [of bv' p] bv' assms(2) by simp
  then have "BitReference_get bv' ?r = Some v"
    using assms(2) bv'(3) by (simp add: BitReference_get_def BitVector_Test_def checked GetNumBits_def WordIndex_def kBitsPerWord_def)
  then show ?thesis using bv' assms(2)
    by (simp add: BitVector_index_def checked GetNumBits_def WordIndex_def BitMask_def kBitsPerWord_def)
qed

section \<open>Whole-vector operations\<close>

lemma wf_new [simp]: "bv_wf (BitVector_new n)" "num_bits (BitVector_new n) = n" "bv_set (BitVector_new n) = {}"
  by (auto simp: BitVector_new_def bv_wf_def bv_set_def bits_of_def)

lemma wf_empty: "bv_wf BitVector_empty" "bv_set BitVector_empty = {}"
  by (auto simp: BitVector_empty_def bv_wf_def bv_set_def bits_of_def NumNeededWords_def kBitsPerWord_def)

text \<open>\<open>ZeroUnusedBits\<close> restores the invariant: it drops just the positions beyond the size.\<close>

lemma ZeroUnusedBits_result:
  assumes len: "length (words bv) = NumNeededWords (num_bits bv)"
  shows "\<exists>bv'. ZeroUnusedBits bv = Some bv' \<and> bv_wf bv' \<and> num_bits bv' = num_bits bv \<and>
    bv_set bv' = {p \<in> bv_set bv. p < num_bits bv}"
proof (cases "num_bits bv mod 64 = 0")
  case True
  then have "\<forall>p \<in> bv_set bv. p < num_bits bv"
    using NumNeededWords_full [OF True] len by (auto simp: bv_set_def bits_of_def div_64_less)
  then show ?thesis using True len
    by (auto simp: ZeroUnusedBits_def bv_wf_def GetNumExtraBits_def kBitsPerWord_def)
next
  case False
  let ?n = "num_bits bv" and ?i = "num_bits bv div 64"
  have i: "NumNeededWords ?n - 1 = ?i" "?i < length (words bv)"
    using NumNeededWords_last [OF False] len by auto
  let ?f = "\<lambda>w. w AND NOT (push_bit (?n mod 64) kAllOnesWord)"
  obtain bv' where bv': "put_word bv ?i ?f = Some bv'" "num_bits bv' = num_bits bv"
    "length (words bv') = length (words bv)"
    "\<And>q. q \<in> bv_set bv' \<longleftrightarrow> (if q div 64 = ?i then bit (?f (words bv ! ?i)) (q mod 64) else q \<in> bv_set bv)"
    using put_word_result [OF i(2), of ?f] by blast
  have lt: "q < ?n \<longleftrightarrow> q div 64 < ?i \<or> q div 64 = ?i \<and> q mod 64 < ?n mod 64" for q
  proof -
    have "q = 64 * (q div 64) + q mod 64" "?n = 64 * ?i + ?n mod 64" "q mod 64 < 64" "?n mod 64 < 64" by auto
    then show ?thesis by linarith
  qed
  have mem: "q \<in> bv_set bv' \<longleftrightarrow> q \<in> bv_set bv \<and> q < ?n" for q
  proof (cases "q div 64 = ?i")
    case True
    then have "q \<in> bv_set bv \<longleftrightarrow> bit (words bv ! ?i) (q mod 64)"
      using i(2) by (simp add: bv_set_def mem_bits_of)
    then show ?thesis using bv'(4) [of q] True lt [of q]
      by (auto simp: bit_and_iff bit_mask_iff kAllOnesWord_def)
  next
    case other: False
    then have "q \<in> bv_set bv \<Longrightarrow> q div 64 < ?i"
      using len i False by (auto simp: bv_set_def mem_bits_of NumNeededWords_split)
    then show ?thesis using bv'(4) [of q] other lt [of q] by auto
  qed
  have z: "ZeroUnusedBits bv = Some bv'"
    using False bv'(1) i len by (simp add: ZeroUnusedBits_def GetNumExtraBits_def GetNumWords_def kBitsPerWord_def)
  have "bv_wf bv'" using bv'(2,3) len mem by (simp add: bv_wf_def)
  moreover have "bv_set bv' = {p \<in> bv_set bv. p < ?n}" using mem by blast
  ultimately show ?thesis using z bv'(2) by blast
qed

lemma BitVector_SetAll_result:
  assumes "bv_wf bv"
  shows "\<exists>bv'. BitVector_SetAll bv = Some bv' \<and> bv_wf bv' \<and> num_bits bv' = num_bits bv \<and>
    bv_set bv' = {..<num_bits bv}"
proof -
  let ?b = "bv\<lparr>words := map (\<lambda>_. kAllOnesWord) (words bv)\<rparr>"
  have len: "length (words ?b) = NumNeededWords (num_bits ?b)" using assms by (simp add: bv_wf_def)
  have "p \<in> bv_set ?b" if "p < num_bits bv" for p
    using bv_wf_word [OF assms that] by (simp add: bv_set_def mem_bits_of_map kAllOnesWord_def)
  then show ?thesis using ZeroUnusedBits_result [OF len] by (auto simp: BitVector_SetAll_def)
qed

lemma BitVector_FlipAll_result:
  assumes "bv_wf bv"
  shows "\<exists>bv'. BitVector_FlipAll bv = Some bv' \<and> bv_wf bv' \<and> num_bits bv' = num_bits bv \<and>
    bv_set bv' = {..<num_bits bv} - bv_set bv"
proof -
  let ?b = "bv\<lparr>words := map NOT (words bv)\<rparr>"
  have len: "length (words ?b) = NumNeededWords (num_bits ?b)" using assms by (simp add: bv_wf_def)
  have "p \<in> bv_set ?b \<longleftrightarrow> p \<notin> bv_set bv" if "p < num_bits bv" for p
    using bv_wf_word [OF assms that] by (auto simp: bv_set_def mem_bits_of_map mem_bits_of bit_not_iff)
  then show ?thesis using ZeroUnusedBits_result [OF len] by (auto simp: BitVector_FlipAll_def)
qed

lemma BitVector_Reset_result:
  "bv_wf bv \<Longrightarrow> bv_wf (BitVector_Reset bv)" "num_bits (BitVector_Reset bv) = num_bits bv"
  "bv_set (BitVector_Reset bv) = {}"
  by (auto simp: BitVector_Reset_def bv_wf_def bv_set_def bits_of_def)

lemma zip_words_result:
  assumes "bv_wf a" and "bv_wf b" and "num_bits a = num_bits b"
    and "\<And>v w j. j < 64 \<Longrightarrow> bit (f v w) j \<longleftrightarrow> g (bit v j) (bit w j)" and "\<not> g False False"
  shows "\<exists>c. zip_words f a b = Some c \<and> bv_wf c \<and> num_bits c = num_bits a \<and>
    bv_set c = {p. g (p \<in> bv_set a) (p \<in> bv_set b)}"
proof -
  let ?c = "a\<lparr>words := map2 f (words a) (words b)\<rparr>"
  have len: "length (words a) = length (words b)" using assms(1-3) by (simp add: bv_wf_def)
  have mem: "p \<in> bv_set ?c \<longleftrightarrow> g (p \<in> bv_set a) (p \<in> bv_set b)" for p
    using len assms(4,5) by (cases "p div 64 < length (words b)")
      (auto simp: bv_set_def mem_bits_of_map2 mem_bits_of)
  have "p < num_bits a" if "g (p \<in> bv_set a) (p \<in> bv_set b)" for p
    using that assms(1-3,5) bv_wf_bound by (metis (full_types))
  then have "bv_wf ?c" using assms(1,2) mem len by (auto simp: bv_wf_def)
  then show ?thesis using len assms(3) mem
    by (auto simp: zip_words_def checked GetNumBits_def GetNumWords_def)
qed

lemma BitVector_Copy_result:
  assumes "bv_wf a" and "bv_wf b" and "num_bits a = num_bits b"
  shows "\<exists>c. BitVector_Copy a b = Some c \<and> bv_wf c \<and> num_bits c = num_bits a \<and> bv_set c = bv_set b"
  using zip_words_result [OF assms, of "\<lambda>_ w. w" "\<lambda>_ y. y"] unfolding BitVector_Copy_def
  by auto

lemma BitVector_Intersect_result:
  assumes "bv_wf a" and "bv_wf b" and "num_bits a = num_bits b"
  shows "\<exists>c. BitVector_Intersect a b = Some c \<and> bv_wf c \<and> num_bits c = num_bits a \<and>
    bv_set c = bv_set a \<inter> bv_set b"
  using zip_words_result [OF assms, of "(AND)" "(\<and>)"] unfolding BitVector_Intersect_def
  by (auto simp: bit_and_iff Int_def)

lemma BitVector_Union_result:
  assumes "bv_wf a" and "bv_wf b" and "num_bits a = num_bits b"
  shows "\<exists>c. BitVector_Union a b = Some c \<and> bv_wf c \<and> num_bits c = num_bits a \<and>
    bv_set c = bv_set a \<union> bv_set b"
  using zip_words_result [OF assms, of "(OR)" "(\<or>)"] unfolding BitVector_Union_def
  by (auto simp: bit_or_iff Un_def)

lemma BitVector_Difference_result:
  assumes "bv_wf a" and "bv_wf b" and "num_bits a = num_bits b"
  shows "\<exists>c. BitVector_Difference a b = Some c \<and> bv_wf c \<and> num_bits c = num_bits a \<and>
    bv_set c = bv_set a - bv_set b"
  using zip_words_result [OF assms, of "\<lambda>v w. v AND NOT w" "\<lambda>x y. x \<and> \<not> y"] unfolding BitVector_Difference_def
  by (auto simp: bit_and_iff bit_not_iff set_diff_eq)

lemma BitVector_Xor_result:
  assumes "bv_wf a" and "bv_wf b" and "num_bits a = num_bits b"
  shows "\<exists>c. BitVector_Xor a b = Some c \<and> bv_wf c \<and> num_bits c = num_bits a \<and>
    bv_set c = (bv_set a - bv_set b) \<union> (bv_set b - bv_set a)"
  using zip_words_result [OF assms, of "(XOR)" "(\<noteq>)"] unfolding BitVector_Xor_def
  by (auto simp: bit_xor_iff)

lemma BitVector_Resize_result:
  assumes "bv_wf bv"
  shows "\<exists>bv'. BitVector_Resize bv n = Some bv' \<and> bv_wf bv' \<and> num_bits bv' = n \<and>
    bv_set bv' = {p \<in> bv_set bv. p < n}"
proof -
  let ?b = "\<lparr>num_bits = n, words = vec_resize (words bv) (NumNeededWords n) 0\<rparr>"
  have len: "length (words ?b) = NumNeededWords (num_bits ?b)" by (simp add: vec_resize_def)
  have "p \<in> bv_set ?b \<longleftrightarrow> p \<in> bv_set bv" if "p < n" for p
    using NumNeededWords_word [OF that]
    by (auto simp: bv_set_def mem_bits_of vec_resize_def nth_append)
  then show ?thesis using ZeroUnusedBits_result [OF len] by (auto simp: BitVector_Resize_def)
qed

section \<open>Ranges\<close>

lemma fill_words_result:
  assumes "\<forall>i \<in> set is. i < length (words bv)"
  shows "\<exists>bv'. fill_words bv is = Some bv' \<and> num_bits bv' = num_bits bv \<and>
    length (words bv') = length (words bv) \<and>
    (\<forall>p. p \<in> bv_set bv' \<longleftrightarrow> p div 64 \<in> set is \<or> p \<in> bv_set bv)"
  using assms
proof (induction "is" arbitrary: bv)
  case (Cons i "is")
  obtain b where b: "put_word bv i (\<lambda>_. kAllOnesWord) = Some b" "num_bits b = num_bits bv"
    "length (words b) = length (words bv)"
    "\<And>p. p \<in> bv_set b \<longleftrightarrow> p div 64 = i \<or> p \<in> bv_set bv"
    using put_word_result [of i bv "\<lambda>_. kAllOnesWord"] Cons.prems
    by (force simp: kAllOnesWord_def)
  obtain bv' where "fill_words b is = Some bv'" "num_bits bv' = num_bits bv"
    "length (words bv') = length (words bv)"
    "\<And>p. p \<in> bv_set bv' \<longleftrightarrow> p div 64 \<in> set is \<or> p \<in> bv_set b"
    using Cons.IH [of b] Cons.prems b by auto
  then show ?case using b by auto
qed auto

text \<open>
  A word is modified with a disjunction: the positions of the word that satisfy \<open>P\<close> are added.
\<close>

lemma or_word_result:
  assumes "i < length (words bv)" and "\<And>j. j < 64 \<Longrightarrow> bit m j \<longleftrightarrow> P (64 * i + j)"
  shows "\<exists>bv'. put_word bv i (\<lambda>w. w OR m) = Some bv' \<and> num_bits bv' = num_bits bv \<and>
    length (words bv') = length (words bv) \<and>
    bv_set bv' = bv_set bv \<union> {p. p div 64 = i \<and> P p}"
proof -
  obtain b where b: "put_word bv i (\<lambda>w. w OR m) = Some b" "num_bits b = num_bits bv"
    "length (words b) = length (words bv)"
    "\<And>p. p \<in> bv_set b \<longleftrightarrow> (if p div 64 = i then bit (words bv ! i OR m) (p mod 64) else p \<in> bv_set bv)"
    using put_word_result [OF assms(1), of "\<lambda>w. w OR m"] by blast
  have "p \<in> bv_set b \<longleftrightarrow> p \<in> bv_set bv \<or> p div 64 = i \<and> P p" for p
  proof (cases "p div 64 = i")
    case True
    then have "64 * i + p mod 64 = p" by (metis mult_div_mod_eq)
    then show ?thesis using True b(4) [of p] assms(1) assms(2) [of "p mod 64"]
      by (simp add: bit_or_iff bv_set_def mem_bits_of [of p "words bv"])
  qed (use b(4) [of p] in auto)
  then show ?thesis using b(1-3) by blast
qed

lemma bit_high_mask: "j < 64 \<Longrightarrow> bit (push_bit n kAllOnesWord) j \<longleftrightarrow> n \<le> j"
  by (auto simp: kAllOnesWord_def bit_not_iff bit_mask_iff)

lemma BitVector_SetRange_result:
  assumes wf: "bv_wf bv" and se: "s \<le> e" "e \<le> num_bits bv" and e: "e < num_bits bv \<or> e mod 64 \<noteq> 0 \<or> s = e"
  shows "\<exists>bv'. BitVector_SetRange bv s e = Some bv' \<and> bv_wf bv' \<and> num_bits bv' = num_bits bv \<and>
    bv_set bv' = bv_set bv \<union> {s..<e}"
proof (cases "s = e")
  case True
  then show ?thesis using wf se by (auto simp: BitVector_SetRange_def checked GetNumBits_def)
next
  case False
  then have lt: "s < e" using se by simp
  have ws: "s div 64 < length (words bv)" using wf lt se by (intro bv_wf_word) auto
  have we: "e div 64 < length (words bv)"
  proof (cases "e < num_bits bv")
    case True
    then show ?thesis by (rule bv_wf_word [OF wf])
  next
    case False
    then have "e = num_bits bv" "e mod 64 \<noteq> 0" using se e lt by auto
    then show ?thesis using wf by (simp add: bv_wf_def NumNeededWords_split)
  qed
  have wf': "bv_wf b" if "num_bits b = num_bits bv" "length (words b) = length (words bv)"
    "bv_set b = bv_set bv \<union> {s..<e}" for b
    using that wf se by (auto simp: bv_wf_def)
  let ?hi = "push_bit (s mod 64) kAllOnesWord" and ?lo = "NOT (push_bit (e mod 64) kAllOnesWord)"
  have hi: "bit ?hi j \<longleftrightarrow> s \<le> 64 * (s div 64) + j" if "j < 64" for j
    using bit_high_mask [OF that] mult_div_mod_eq [of 64 s] by (metis add_le_cancel_left)
  have lo: "bit ?lo j \<longleftrightarrow> 64 * (e div 64) + j < e" if "j < 64" for j
  proof -
    have "64 * (e div 64) + j < e \<longleftrightarrow> j < e mod 64"
      using mult_div_mod_eq [of 64 e] by (metis add_less_cancel_left)
    then show ?thesis using bit_high_mask [OF that, of "e mod 64"] that by (auto simp: bit_not_iff)
  qed
  show ?thesis
  proof (cases "s div 64 = e div 64")
    case True
    have m: "bit (?hi AND ?lo) j \<longleftrightarrow> s \<le> 64 * (s div 64) + j \<and> 64 * (s div 64) + j < e" if "j < 64" for j
      using hi [OF that] lo [OF that] True by (simp add: bit_and_iff)
    obtain b where b: "put_word bv (s div 64) (\<lambda>w. w OR (?hi AND ?lo)) = Some b"
      "num_bits b = num_bits bv" "length (words b) = length (words bv)"
      "bv_set b = bv_set bv \<union> {p. p div 64 = s div 64 \<and> s \<le> p \<and> p < e}"
      using or_word_result [OF ws m] by blast
    have "{p. p div 64 = s div 64 \<and> s \<le> p \<and> p < e} = {s..<e}"
      using True by (auto simp: le_antisym div_le_mono)
    then show ?thesis using b True False se wf' [OF b(2,3)]
      by (simp add: BitVector_SetRange_def checked GetNumBits_def kBitsPerWord_def Let_def)
  next
    case other: False
    then have d: "s div 64 < e div 64" using lt by (simp add: div_le_mono le_neq_implies_less)
    obtain b1 where b1: "put_word bv (s div 64) (\<lambda>w. w OR ?hi) = Some b1"
      "num_bits b1 = num_bits bv" "length (words b1) = length (words bv)"
      "bv_set b1 = bv_set bv \<union> {p. p div 64 = s div 64 \<and> s \<le> p}"
      using or_word_result [OF ws hi] by blast
    obtain b2 where b2: "fill_words b1 [Suc (s div 64)..<e div 64] = Some b2"
      "num_bits b2 = num_bits bv" "length (words b2) = length (words bv)"
      "bv_set b2 = bv_set b1 \<union> {p. s div 64 < p div 64 \<and> p div 64 < e div 64}"
      using fill_words_result [of "[Suc (s div 64)..<e div 64]" b1] b1 we by (auto simp: Suc_le_eq)
    have we2: "e div 64 < length (words b2)" using we b2 by simp
    obtain b3 where b3: "put_word b2 (e div 64) (\<lambda>w. w OR ?lo) = Some b3"
      "num_bits b3 = num_bits bv" "length (words b3) = length (words bv)"
      "bv_set b3 = bv_set b2 \<union> {p. p div 64 = e div 64 \<and> p < e}"
      using or_word_result [OF we2 lo] b2 by auto
    have "p \<in> {s..<e} \<longleftrightarrow> p div 64 = s div 64 \<and> s \<le> p \<or> s div 64 < p div 64 \<and> p div 64 < e div 64 \<or>
        p div 64 = e div 64 \<and> p < e" for p
      using d by (auto dest: div_le_mono [of _ _ 64] simp: not_less)
    then have "bv_set b3 = bv_set bv \<union> {s..<e}" using b1(4) b2(4) b3(4) by blast
    then show ?thesis using b1 b2 b3 other False se wf' [OF b3(2,3)]
      by (simp add: BitVector_SetRange_def checked GetNumBits_def kBitsPerWord_def Let_def)
  qed
qed

lemma put_word_length: "put_word b i f = Some b' \<Longrightarrow> length (words b') = length (words b)"
  by (auto simp: put_word_def vec_put_def vec_at_def split: if_splits)

lemma put_word_None: "length (words b) \<le> i \<Longrightarrow> put_word b i f = None"
  by (simp add: put_word_def checked)

lemma fill_words_length: "fill_words b is = Some b' \<Longrightarrow> length (words b') = length (words b)"
  by (induction b "is" rule: fill_words.induct)
    (auto simp: bind_eq_Some_conv dest: put_word_length)

text \<open>
  When the range ends at the end of the vector and the size is a multiple of the word size, the
  operation touches the word after the last one.
\<close>

lemma BitVector_SetRange_overrun:
  assumes wf: "bv_wf bv" and "s < num_bits bv" and "num_bits bv mod 64 = 0"
  shows "BitVector_SetRange bv s (num_bits bv) = None"
proof -
  let ?e = "num_bits bv"
  have len: "length (words bv) = ?e div 64" using wf assms(3) by (simp add: bv_wf_def NumNeededWords_split)
  have "s div 64 < ?e div 64" using bv_wf_word [OF wf assms(2)] len by simp
  moreover have "(do { b1 \<leftarrow> put_word bv i f; b2 \<leftarrow> fill_words b1 is; put_word b2 (?e div 64) g }) = None"
    for i f "is" g
    using len by (auto simp: put_word_None dest!: put_word_length fill_words_length split: bind_splits)
  ultimately show ?thesis using assms(2)
    by (simp add: BitVector_SetRange_def checked GetNumBits_def kBitsPerWord_def Let_def)
qed

section \<open>Queries\<close>

lemma word_all_ones: "w = kAllOnesWord \<longleftrightarrow> (\<forall>j < 64. bit w j)"
  by (auto simp: kAllOnesWord_def bit_eq_iff)

lemma word_prefix_ones: "n < 64 \<Longrightarrow> w = NOT (push_bit n kAllOnesWord) \<longleftrightarrow> (\<forall>j < 64. bit w j \<longleftrightarrow> j < n)"
  by (auto simp: kAllOnesWord_def bit_eq_iff bit_mask_iff)

lemma bv_set_word: "i < length (words bv) \<Longrightarrow> j < 64 \<Longrightarrow> 64 * i + j \<in> bv_set bv \<longleftrightarrow> bit (words bv ! i) j"
  by (simp add: bv_set_def mem_bits_of)

lemma pos_cases: "p < 64 * n \<Longrightarrow> (\<And>i j. i < n \<Longrightarrow> j < 64 \<Longrightarrow> p = 64 * i + j \<Longrightarrow> P) \<Longrightarrow> P" for p n :: nat
  by (metis div_64_less mod_less_divisor mult_div_mod_eq zero_less_numeral)

lemma words_all_ones:
  assumes "n \<le> length (words bv)"
  shows "list_all (\<lambda>w. w = kAllOnesWord) (take n (words bv)) \<longleftrightarrow> {..<64 * n} \<subseteq> bv_set bv"
proof -
  have "list_all (\<lambda>w. w = kAllOnesWord) (take n (words bv)) \<longleftrightarrow>
      (\<forall>i < n. \<forall>j < 64. 64 * i + j \<in> bv_set bv)"
    using assms bv_set_word [of _ bv] by (simp add: list_all_length word_all_ones)
  also have "\<dots> \<longleftrightarrow> {..<64 * n} \<subseteq> bv_set bv"
    by (auto elim!: pos_cases)
  finally show ?thesis .
qed

lemma BitVector_All_result:
  assumes wf: "bv_wf bv"
  shows "BitVector_All bv = Some (bv_set bv = {..<num_bits bv})"
proof -
  let ?n = "num_bits bv" and ?i = "num_bits bv div 64"
  have sub: "bv_set bv \<subseteq> {..<?n}" using wf by (auto simp: bv_wf_def)
  show ?thesis
  proof (cases "?n mod 64 = 0")
    case True
    then have "64 * length (words bv) = ?n" using wf NumNeededWords_full by (simp add: bv_wf_def)
    then show ?thesis using True sub words_all_ones [of "length (words bv)" bv]
      by (auto simp: BitVector_All_def bv_consts Let_def)
  next
    case False
    have len: "length (words bv) - 1 = ?i" "?i < length (words bv)"
      using wf NumNeededWords_last [OF False] by (auto simp: bv_wf_def)
    have n: "?n = 64 * ?i + ?n mod 64" by simp
    have last: "words bv ! ?i = NOT (push_bit (?n mod 64) kAllOnesWord) \<longleftrightarrow>
        (\<forall>j < 64. 64 * ?i + j \<in> bv_set bv \<longleftrightarrow> 64 * ?i + j < ?n)"
    proof -
      have "64 * ?i + j < ?n \<longleftrightarrow> j < ?n mod 64" for j using n by linarith
      then show ?thesis using bv_set_word [OF len(2)] by (simp add: word_prefix_ones)
    qed
    have "bv_set bv = {..<?n} \<longleftrightarrow> {..<64 * ?i} \<subseteq> bv_set bv \<and>
        (\<forall>j < 64. 64 * ?i + j \<in> bv_set bv \<longleftrightarrow> 64 * ?i + j < ?n)"
    proof (intro iffI conjI subset_antisym sub)
      assume *: "{..<64 * ?i} \<subseteq> bv_set bv \<and> (\<forall>j < 64. 64 * ?i + j \<in> bv_set bv \<longleftrightarrow> 64 * ?i + j < ?n)"
      show "{..<?n} \<subseteq> bv_set bv"
      proof
        fix p assume "p \<in> {..<?n}"
        then have "p < 64 * Suc ?i" "p < ?n" using n mod_less_divisor [of 64 ?n] by auto
        then show "p \<in> bv_set bv" using * by (cases "p < 64 * ?i") (auto simp: not_less dest!: le_Suc_ex)
      qed
    qed (use n in auto)
    then show ?thesis
      using False len last words_all_ones [of ?i bv]
      by (simp add: BitVector_All_def GetNumExtraBits_def GetNumWords_def kBitsPerWord_def Let_def checked del: One_nat_def)
  qed
qed

lemma BitVector_None_result: "BitVector_None bv \<longleftrightarrow> bv_set bv = {}"
proof
  assume "BitVector_None bv"
  then show "bv_set bv = {}" by (auto simp: BitVector_None_def bv_set_def bits_of_def list_all_length)
next
  assume e: "bv_set bv = {}"
  have "words bv ! i = 0" if "i < length (words bv)" for i
    using e bv_set_word [OF that] by (intro bit_word_eqI) auto
  then show "BitVector_None bv" by (simp add: BitVector_None_def list_all_length)
qed

lemma set_positions_Cons:
  "set_positions (w # ws) = filter (bit w) [0..<64] @ map ((+) 64) (set_positions ws)"
proof (induction ws rule: rev_induct)
  case Nil
  then show ?case using set_positions_snoc [of "[]" w] by (simp add: map_idI)
next
  case (snoc v ws)
  then show ?case using set_positions_snoc [of "w # ws" v] set_positions_snoc [of ws v]
    by (simp add: o_def algebra_simps)
qed

lemma BitVector_CountOnes_result:
  assumes "llvm_popcount_ok L"
  shows "BitVector_CountOnes L bv = card (bv_set bv)"
proof -
  have "foldl (\<lambda>count w. count + countPopulation L w) c ws = c + length (set_positions ws)" for c ws
    using assms by (induction ws arbitrary: c) (simp_all add: set_positions_Cons llvm_popcount_ok_def)
  then show ?thesis by (simp add: BitVector_CountOnes_def bv_set_def length_set_positions)
qed

section \<open>Selecting the n-th set bit\<close>

lemma bit_pdep: "bit (pdep_u64 src m) i \<longleftrightarrow>
    i < 64 \<and> bit m i \<and> bit src (length (filter (bit m) [0..<i]))"
  by (auto simp: pdep_u64_def bit_horner_sum_bit_word_iff)

lemma filter_upt_nth_index:
  assumes "n < length (filter P [0..<k])"
  shows "let q = filter P [0..<k] ! n in q < k \<and> P q \<and> length (filter P [0..<q]) = n"
  using assms
proof (induction k)
  case (Suc k)
  then show ?case by (cases "n < length (filter P [0..<k])") (auto simp: Let_def nth_append less_Suc_eq split: if_splits)
qed simp

lemma pdep_select:
  assumes "llvm_ctz_ok L" and "n < length (filter (bit w) [0..<64])"
  shows "countTrailingZeros L (pdep_u64 (push_bit n 1) w) = filter (bit w) [0..<64] ! n"
proof -
  define q where "q = filter (bit w) [0..<64] ! n"
  have q: "q < 64" "bit w q" "length (filter (bit w) [0..<q]) = n"
    using filter_upt_nth_index [OF assms(2)] by (simp_all add: Let_def q_def)
  have n64: "n < 64" using assms(2) length_filter_le [of "bit w" "[0..<64]"] by simp
  have mono: "length (filter (bit w) [0..<i]) \<noteq> n" if "i < q" "bit w i" for i
  proof -
    have "filter (bit w) [0..<q] = filter (bit w) [0..<i] @ filter (bit w) [i..<q]"
      using that by (intro filter_upt_split) auto
    moreover have "i \<in> set (filter (bit w) [i..<q])" using that by simp
    ultimately show ?thesis using q(3) by (auto simp: filter_empty_conv)
  qed
  have b: "bit (push_bit n 1 :: u64) k \<longleftrightarrow> k = n" for k
    using n64 by (auto simp: bit_push_bit_iff bit_1_iff simp del: push_bit_of_1)
  let ?m = "pdep_u64 (push_bit n 1) w"
  have bm: "bit ?m q" "\<And>i. i < q \<Longrightarrow> \<not> bit ?m i"
    unfolding bit_pdep b using q mono by auto
  have "?m \<noteq> 0" using bm(1) by auto
  then show ?thesis
    using ctz_okD [OF assms(1), of ?m] bm by (metis nat_neq_iff q_def)
qed

lemma nth_one_loop_result:
  assumes "llvm_ctz_ok L" and "llvm_popcount_ok L"
  shows "n < length (set_positions ws) \<Longrightarrow>
    nth_one_loop L nbits ws i n = min nbits (64 * i + set_positions ws ! n)"
proof (induction ws arbitrary: i n)
  case (Cons w ws)
  have c: "countPopulation L w = length (filter (bit w) [0..<64])"
    using assms(2) by (simp add: llvm_popcount_ok_def)
  show ?case
  proof (cases "n < length (filter (bit w) [0..<64])")
    case True
    then show ?thesis using pdep_select [OF assms(1) True] c
      by (simp add: Let_def set_positions_Cons nth_append kBitsPerWord_def mult.commute del: push_bit_of_1)
  next
    case False
    then show ?thesis using Cons c
      by (simp add: Let_def set_positions_Cons nth_append del: push_bit_of_1)
  qed
qed simp

lemma nth_one_loop_none:
  assumes "llvm_popcount_ok L"
  shows "length (set_positions ws) \<le> n \<Longrightarrow> nth_one_loop L nbits ws i n = nbits"
proof (induction ws arbitrary: i n)
  case (Cons w ws)
  have "countPopulation L w = length (filter (bit w) [0..<64])"
    using assms by (simp add: llvm_popcount_ok_def)
  then show ?case using Cons by (simp add: set_positions_Cons)
qed simp

lemma BitVector_NthOne_result:
  assumes "bv_wf bv" and "llvm_ctz_ok L" and "llvm_popcount_ok L"
  shows "BitVector_NthOne L bv n =
    (if n < card (bv_set bv) then sorted_list_of_set (bv_set bv) ! n else num_bits bv)"
proof (cases "n < card (bv_set bv)")
  case True
  then have n: "n < length (set_positions (words bv))" by (simp add: bv_set_def length_set_positions)
  then have "set_positions (words bv) ! n \<in> bv_set bv"
    by (metis bv_set_def nth_mem set_set_positions)
  then have "set_positions (words bv) ! n < num_bits bv" by (rule bv_wf_bound [OF assms(1)])
  then show ?thesis using True n nth_one_loop_result [OF assms(2,3) n]
    by (simp add: BitVector_NthOne_def GetNumBits_def bv_set_def set_positions_eq)
next
  case False
  then show ?thesis using nth_one_loop_none [OF assms(3), of "words bv" n]
    by (simp add: BitVector_NthOne_def GetNumBits_def bv_set_def length_set_positions)
qed

section \<open>Iteration\<close>

lemma for_each_word_result:
  assumes "llvm_ctz_ok L"
  shows "for_each_word L base word f s = fold f (map ((+) base) (filter (bit word) [0..<64])) s"
proof (induction "unat word" arbitrary: word s rule: less_induct)
  case less
  show ?case
  proof (cases "word = 0")
    case True
    then show ?thesis by (simp add: for_each_word.simps)
  next
    case False
    then show ?thesis
      using less.hyps [OF and_minus_one_less [OF False]] ctz_filter [OF assms False]
      by (simp add: for_each_word.simps [of L base word])
  qed
qed

lemma fold_words_result:
  assumes "\<And>i w s. step (i, w) s = fold f (map ((+) (i * 64)) (filter (bit w) [0..<64])) s"
  shows "fold step (zip [i..<i + length ws] ws) s = fold f (map ((+) (i * 64)) (set_positions ws)) s"
proof (induction ws arbitrary: i s)
  case (Cons w ws)
  have "[i..<i + length (w # ws)] = i # [Suc i..<Suc i + length ws]"
    by (subst upt_conv_Cons) auto
  moreover have "map ((+) (Suc i * 64)) xs = map ((+) (i * 64)) (map ((+) 64) xs)" for xs
    by simp
  ultimately show ?case using Cons [of "Suc i"] assms
    by (simp only: set_positions_Cons map_append fold_append zip_Cons_Cons fold_simps comp_apply)
qed simp

lemma BitVector_ForEachSet_result:
  assumes "llvm_ctz_ok L"
  shows "BitVector_ForEachSet L bv f s = fold f (sorted_list_of_set (bv_set bv)) s"
proof -
  have "BitVector_ForEachSet L bv f s = fold f (map (\<lambda>p. 0 * 64 + p) (set_positions (words bv))) s"
    unfolding BitVector_ForEachSet_def GetNumWords_def kBitsPerWord_def
    using fold_words_result [of "\<lambda>(i, word) s. for_each_word L (i * 64) word f s" f 0 "words bv" s,
        unfolded prod.case, OF for_each_word_result [OF assms]]
    by (simp only: add_0)
  then show ?thesis by (simp add: bv_set_def set_positions_eq)
qed

section \<open>Filtering\<close>

lemma update_set_word_result:
  assumes "llvm_ctz_ok L" and "j < 64"
  shows "bit (update_set_word L p base word res) j \<longleftrightarrow> bit res j \<or> bit word j \<and> p (base + j)"
proof (induction "unat word" arbitrary: word res rule: less_induct)
  case less
  show ?case
  proof (cases "word = 0")
    case True
    then show ?thesis by (simp add: update_set_word.simps)
  next
    case False
    let ?r = "countTrailingZeros L word"
    have "bit (word AND (word - 1)) j \<longleftrightarrow> bit word j \<and> j \<noteq> ?r"
      using ctz_okD [OF assms(1) False] by (intro bit_clear_lowest) auto
    moreover have "bit (push_bit ?r (of_bool (p (base + ?r))) :: u64) j \<longleftrightarrow> j = ?r \<and> p (base + ?r)"
      using assms(2) by (auto simp: bit_push_bit_iff bit_1_iff simp del: push_bit_of_1)
    moreover have "bit word ?r" using ctz_okD(1) [OF assms(1) False] .
    ultimately show ?thesis
      using less.hyps [OF and_minus_one_less [OF False]] False
      by (auto simp: update_set_word.simps [of L p base word] Let_def bit_or_iff)
  qed
qed

lemma BitVector_UpdateSetBits_result:
  assumes "bv_wf bv" and "llvm_ctz_ok L"
  shows "bv_wf (BitVector_UpdateSetBits L bv p)"
    and "num_bits (BitVector_UpdateSetBits L bv p) = num_bits bv"
    and "bv_set (BitVector_UpdateSetBits L bv p) = {q \<in> bv_set bv. p q}"
proof -
  let ?b = "BitVector_UpdateSetBits L bv p"
  have w: "words ?b ! i = words bv ! i AND update_set_word L p (i * 64) (words bv ! i) 0"
    if "i < length (words bv)" for i
    using that by (simp add: BitVector_UpdateSetBits_def GetNumWords_def kBitsPerWord_def)
  have len: "length (words ?b) = length (words bv)" "num_bits ?b = num_bits bv"
    by (simp_all add: BitVector_UpdateSetBits_def GetNumWords_def)
  have "q \<in> bv_set ?b \<longleftrightarrow> q \<in> bv_set bv \<and> p q" for q
    using w [of "q div 64"] len update_set_word_result [OF assms(2), of "q mod 64" p "q div 64 * 64"]
    by (auto simp: bv_set_def mem_bits_of bit_and_iff)
  then show "bv_set ?b = {q \<in> bv_set bv. p q}" by auto
  then show "bv_wf ?b" using len assms(1) by (auto simp: bv_wf_def)
qed (simp add: BitVector_UpdateSetBits_def)

lemma full_word_result_bit:
  assumes "j < 64"
  shows "bit (full_word_result p i) j \<longleftrightarrow> p (i * 64 + j)"
proof -
  have "bit (foldl (\<lambda>res j. res OR push_bit j (of_bool (p (i * 64 + j)))) res [0..<n]) j \<longleftrightarrow>
      bit res j \<or> j < n \<and> p (i * 64 + j)" for res :: u64 and n
    using assms
    by (induction n) (auto simp: bit_or_iff bit_push_bit_iff bit_1_iff less_Suc_eq simp del: push_bit_of_1)
  from this [of 0 64] show ?thesis using assms by (simp only: full_word_result_def kBitsPerWord_def) simp
qed

lemma update_tail_result:
  assumes "bv_wf bv" and "\<forall>i \<in> set is. i < num_bits bv"
  shows "\<exists>bv'. update_tail p bv is = Some bv' \<and> bv_wf bv' \<and> num_bits bv' = num_bits bv \<and>
    bv_set bv' = {q \<in> bv_set bv. q \<in> set is \<longrightarrow> p q}"
  using assms
proof (induction "is" arbitrary: bv)
  case (Cons i "is")
  show ?case
  proof (cases "p i")
    case True
    then show ?thesis using Cons by auto
  next
    case False
    obtain b where b: "BitVector_Unset bv i = Some b" "bv_wf b" "num_bits b = num_bits bv"
      "bv_set b = bv_set bv - {i}"
      using BitVector_Unset_result [of bv i] Cons.prems by auto
    obtain b' where "update_tail p b is = Some b'" "bv_wf b'" "num_bits b' = num_bits b"
      "bv_set b' = {q \<in> bv_set b. q \<in> set is \<longrightarrow> p q}"
      using Cons.IH [OF b(2)] Cons.prems b(3) by auto
    then show ?thesis using b False by auto
  qed
qed auto

lemma BitVector_UpdateFull_result:
  assumes wf: "bv_wf bv"
  shows "\<exists>bv'. BitVector_UpdateFull bv p = Some bv' \<and> bv_wf bv' \<and> num_bits bv' = num_bits bv \<and>
    bv_set bv' = {q \<in> bv_set bv. p q}"
proof (cases "num_bits bv = 0")
  case True
  then have "bv_set bv = {}" using wf by (auto simp: bv_wf_def)
  then show ?thesis using True wf by (auto simp: BitVector_UpdateFull_def GetNumBits_def)
next
  case False
  define nf where "nf = (if num_bits bv mod 64 = 0 then length (words bv) else length (words bv) - 1)"
  define b where "b = bv\<lparr>words := map (\<lambda>(i, w). if i < nf then w AND full_word_result p i else w)
    (zip [0..<length (words bv)] (words bv))\<rparr>"
  have len: "length (words b) = length (words bv)" "num_bits b = num_bits bv" by (simp_all add: b_def)
  have mem: "q \<in> bv_set b \<longleftrightarrow> q \<in> bv_set bv \<and> (q < 64 * nf \<longrightarrow> p q)" for q
    using full_word_result_bit [of "q mod 64" p "q div 64"] div_64_less [of q nf]
    by (auto simp: bv_set_def mem_bits_of b_def bit_and_iff)
  have wfb: "bv_wf b" using wf len mem by (auto simp: bv_wf_def)
  obtain b' where b': "update_tail p b [nf * 64..<num_bits bv] = Some b'" "bv_wf b'"
    "num_bits b' = num_bits bv"
    "bv_set b' = {q \<in> bv_set b. q \<in> set [nf * 64..<num_bits bv] \<longrightarrow> p q}"
    using update_tail_result [OF wfb, of "[nf * 64..<num_bits bv]" p] len by auto
  have "bv_set b' = {q \<in> bv_set bv. p q}"
    using b'(4) mem bv_wf_bound [OF wf] by auto
  moreover have "BitVector_UpdateFull bv p = update_tail p b [nf * 64..<num_bits bv]"
    using False unfolding BitVector_UpdateFull_def GetNumBits_def GetNumExtraBits_def GetNumWords_def
      kBitsPerWord_def Let_def nf_def [symmetric] b_def [symmetric] by (simp add: len)
  ultimately show ?thesis using b' by simp
qed

section \<open>Searching\<close>

text \<open>The least element of a set of positions from a given one on, or the invalid position.\<close>

definition next_from :: "nat set \<Rightarrow> nat \<Rightarrow> nat" where
  "next_from S p = (if \<exists>q \<in> S. p \<le> q then LEAST q. q \<in> S \<and> p \<le> q else kInvalidPos)"

lemma next_from_eqI:
  assumes "q \<in> S" and "p \<le> q" and "\<And>r. r \<in> S \<Longrightarrow> p \<le> r \<Longrightarrow> q \<le> r"
  shows "next_from S p = q"
  using assms unfolding next_from_def by (auto intro!: Least_equality)

lemma next_from_skip:
  assumes "p \<le> p'" and "\<And>q. q \<in> S \<Longrightarrow> p \<le> q \<Longrightarrow> p' \<le> q"
  shows "next_from S p = next_from S p'"
proof -
  have "(q \<in> S \<and> p \<le> q) = (q \<in> S \<and> p' \<le> q)" for q using assms le_trans by blast
  then have "(\<lambda>q. q \<in> S \<and> p \<le> q) = (\<lambda>q. q \<in> S \<and> p' \<le> q)" by blast
  then show ?thesis unfolding next_from_def Bex_def by presburger
qed

lemma FindFrom_result:
  assumes "llvm_ctz_ok L"
  shows "FindFrom L bv i = next_from (bv_set bv) (64 * i)"
proof (induction "length (words bv) - i" arbitrary: i)
  case 0
  then have "q \<in> bv_set bv \<Longrightarrow> q < 64 * i" for q
    by (auto simp: bv_set_def mem_bits_of div_64_less)
  then have "\<not> (\<exists>q \<in> bv_set bv. 64 * i \<le> q)" by (meson not_le)
  then show ?case using 0 by (simp add: FindFrom_def next_from_def)
next
  case (Suc n)
  then have i: "i < length (words bv)" by simp
  have d: "drop i (words bv) = words bv ! i # drop (Suc i) (words bv)"
    using i by (simp add: Cons_nth_drop_Suc)
  show ?case
  proof (cases "words bv ! i = 0")
    case True
    have "64 * Suc i \<le> q" if q: "q \<in> bv_set bv" "64 * i \<le> q" for q
    proof (rule ccontr)
      assume "\<not> 64 * Suc i \<le> q"
      then have "q div 64 = i" using q(2) by (intro div_nat_eqI) auto
      then show False using q(1) True by (simp add: bv_set_def mem_bits_of)
    qed
    then have "next_from (bv_set bv) (64 * i) = next_from (bv_set bv) (64 * Suc i)"
      by (intro next_from_skip) auto
    then show ?thesis using Suc(1) [of "Suc i"] Suc(2) True by (simp add: FindFrom_def d)
  next
    case False
    let ?r = "countTrailingZeros L (words bv ! i)"
    have r: "?r < 64" "bit (words bv ! i) ?r" "\<And>j. j < ?r \<Longrightarrow> \<not> bit (words bv ! i) j"
      using ctz_okD [OF assms False] ctz_less_64 [OF assms False] by auto
    have "next_from (bv_set bv) (64 * i) = 64 * i + ?r"
    proof (rule next_from_eqI)
      show "64 * i + ?r \<in> bv_set bv" using bv_set_word [OF i r(1)] r(2) by simp
      fix q assume q: "q \<in> bv_set bv" "64 * i \<le> q"
      then obtain j where j: "q = 64 * i + j" by (auto dest: le_Suc_ex)
      show "64 * i + ?r \<le> q"
      proof (cases "j < 64")
        case True
        then show ?thesis using q(1) j r(3) bv_set_word [OF i True] by (meson add_left_mono not_le)
      qed (use j r(1) in simp)
    qed simp
    then show ?thesis using False by (simp add: FindFrom_def d kBitsPerWord_def mult.commute)
  qed
qed

lemma FindFirst_result: "llvm_ctz_ok L \<Longrightarrow> FindFirst L bv = next_from (bv_set bv) 0"
  using FindFrom_result [of L bv 0] by (simp add: FindFirst_def)

lemma FindNext_result:
  assumes wf: "bv_wf bv" and ok: "llvm_ctz_ok L"
  shows "FindNext L bv p = Some (next_from (bv_set bv) (Suc p))"
proof (cases "num_bits bv = 0 \<or> p \<ge> num_bits bv - 1")
  case True
  then have "\<not> (\<exists>q \<in> bv_set bv. Suc p \<le> q)" using bv_wf_bound [OF wf] by fastforce
  then show ?thesis using True by (simp add: FindNext_def next_from_def GetNumBits_def)
next
  case False
  define s where "s = Suc p"
  have s: "s < num_bits bv" using False unfolding s_def by linarith
  let ?i = "s div 64" and ?w = "drop_bit (s mod 64) (words bv ! (s div 64))"
  have i: "?i < length (words bv)" using wf s by (rule bv_wf_word)
  have b: "bit ?w j \<longleftrightarrow> s + j \<in> bv_set bv" if "s mod 64 + j < 64" for j
  proof -
    have "64 * ?i + (s mod 64 + j) = s + j" by simp
    then show ?thesis using bv_set_word [OF i that] by (simp add: bit_drop_bit_eq)
  qed
  have w: "j < 64 - s mod 64" if "bit ?w j" for j
    using that bit_imp_le_length [of "words bv ! ?i" "s mod 64 + j"] by (auto simp: bit_drop_bit_eq)
  have "FindNext L bv p = Some (if ?w \<noteq> 0 then s + countTrailingZeros L ?w else FindFrom L bv (?i + 1))"
    using False i by (simp add: FindNext_def GetNumBits_def WordIndex_def BitIndex_def kBitsPerWord_def
        checked s_def Let_def)
  moreover have "next_from (bv_set bv) s = (if ?w \<noteq> 0 then s + countTrailingZeros L ?w else FindFrom L bv (?i + 1))"
  proof (cases "?w = 0")
    case True
    have "64 * (?i + 1) \<le> q" if q: "q \<in> bv_set bv" "s \<le> q" for q
    proof (rule ccontr)
      assume "\<not> 64 * (?i + 1) \<le> q"
      moreover obtain j where j: "q = s + j" using q(2) by (auto dest: le_Suc_ex)
      moreover have "s = 64 * ?i + s mod 64" by simp
      ultimately have "s mod 64 + j < 64" unfolding add_mult_distrib2 by linarith
      then show False using b [of j] q(1) j True by simp
    qed
    moreover have "s \<le> 64 * (?i + 1)"
      using mod_less_divisor [of 64 s] mult_div_mod_eq [of 64 s] unfolding add_mult_distrib2 by linarith
    ultimately show ?thesis using True next_from_skip [of s "64 * (?i + 1)"] FindFrom_result [OF ok] by simp
  next
    case False
    let ?r = "countTrailingZeros L ?w"
    note r = ctz_okD [OF ok False]
    have "next_from (bv_set bv) s = s + ?r"
    proof (rule next_from_eqI)
      show "s + ?r \<in> bv_set bv" using b [of ?r] w [OF r(1)] r(1) by simp
      fix q assume q: "q \<in> bv_set bv" "s \<le> q"
      then obtain j where j: "q = s + j" by (auto dest: le_Suc_ex)
      show "s + ?r \<le> q"
      proof (rule ccontr)
        assume "\<not> s + ?r \<le> q"
        then have "j < ?r" using j by simp
        then show False using b [of j] w [OF r(1)] r(2) [of j] q(1) j by simp
      qed
    qed simp
    then show ?thesis using False by simp
  qed
  ultimately show ?thesis by (simp add: s_def)
qed

section \<open>Words and bytes\<close>

lemma BitVector_SetFromBytes_result:
  assumes wf: "bv_wf bv" and "length bytes = num_bits bv" and "saturated bytes"
  shows "\<exists>bv'. BitVector_SetFromBytes bv bytes = Some bv' \<and> bv_wf bv' \<and> num_bits bv' = num_bits bv \<and>
    bv_set bv' = {p. p < num_bits bv \<and> bytes ! p = 0xFF}"
proof -
  have "num_words_for (length bytes) \<le> length (words bv)"
    using wf assms(2) by (simp add: bv_wf_def NumNeededWords_def num_words_for_def kBitsPerWord_def)
  then obtain ws where ws: "ByteVectorToBitVector bytes (words bv) = Some ws" "length ws = length (words bv)"
    "\<And>p. p \<in> bits_of ws \<longleftrightarrow> (if p < num_bits bv then bytes ! p = 0xFF else p \<in> bits_of (words bv))"
    using ByteVectorToBitVector_correct [OF assms(3)] assms(2) by metis
  have "p \<in> bits_of ws \<longleftrightarrow> p < num_bits bv \<and> bytes ! p = 0xFF" for p
    using ws(3) bv_wf_bound [OF wf, of p] by (auto simp: bv_set_def)
  then show ?thesis using ws(1,2) wf assms(2)
    by (auto simp: BitVector_SetFromBytes_def checked GetNumBits_def bv_wf_def bv_set_def)
qed

lemma BitVector_SetWord_result:
  assumes wf: "bv_wf bv" and i: "i < length (words bv)"
  shows "\<exists>bv'. BitVector_SetWord bv i w = Some bv' \<and> bv_wf bv' \<and> num_bits bv' = num_bits bv \<and>
    bv_set bv' = {p. p < num_bits bv \<and> (if p div 64 = i then bit w (p mod 64) else p \<in> bv_set bv)}"
proof -
  obtain b where b: "put_word bv i (\<lambda>_. w) = Some b" "num_bits b = num_bits bv"
    "length (words b) = length (words bv)"
    "\<And>p. p \<in> bv_set b \<longleftrightarrow> (if p div 64 = i then bit w (p mod 64) else p \<in> bv_set bv)"
    using put_word_result [OF i, of "\<lambda>_. w"] by blast
  have len: "length (words b) = NumNeededWords (num_bits b)" using b wf by (simp add: bv_wf_def)
  obtain z where z: "ZeroUnusedBits b = Some z" "bv_wf z" "num_bits z = num_bits bv"
    "bv_set z = {p \<in> bv_set b. p < num_bits bv}"
    using ZeroUnusedBits_result [OF len] b(2) by auto
  show ?thesis
  proof (cases "i = length (words bv) - 1")
    case True
    then show ?thesis using b z i
      by (auto simp: BitVector_SetWord_def checked GetNumWords_def)
  next
    case False
    have "p < num_bits bv" if "p div 64 = i" for p
    proof -
      have "Suc (p div 64) \<le> num_bits bv div 64"
        using that False i wf by (auto simp: bv_wf_def NumNeededWords_split of_bool_def split: if_splits)
      then show ?thesis using div_less_iff_less_mult [of 64 p "num_bits bv div 64"]
          div_times_less_eq_dividend [of "num_bits bv" 64] by (simp add: Suc_le_eq)
    qed
    then have "bv_wf b" "bv_set b = {p. p < num_bits bv \<and> (if p div 64 = i then bit w (p mod 64) else p \<in> bv_set bv)}"
      using b(2,4) len wf by (auto simp: bv_wf_def split: if_splits)
    then show ?thesis using b i False by (simp add: BitVector_SetWord_def checked GetNumWords_def)
  qed
qed

lemma bv_set_inject:
  assumes "bv_wf a" and "bv_wf b"
  shows "num_bits a = num_bits b \<and> bv_set a = bv_set b \<longleftrightarrow> a = b"
proof
  assume *: "num_bits a = num_bits b \<and> bv_set a = bv_set b"
  then have len: "length (words a) = length (words b)" using assms by (simp add: bv_wf_def)
  have "words a ! i = words b ! i" if "i < length (words a)" for i
    using * bv_set_word [OF that] bv_set_word [of i b] that len by (intro bit_word_eqI) auto
  then have "words a = words b" using len by (intro nth_equalityI) auto
  then show "a = b" using * by simp
qed simp

lemma for_each_fold:
  "fold (\<lambda>(i, w) s. fold (\<lambda>j s. f (i * 64 + j) (drop_bit j w \<noteq> 0) s) [0..<64] s)
     (zip [0..<length ws] ws) s =
   fold (\<lambda>p. f p (drop_bit (p mod 64) (ws ! (p div 64)) \<noteq> 0)) [0..<64 * length ws] s"
  for ws :: "u64 list"
proof (induction ws arbitrary: s rule: rev_induct)
  case (snoc w ws)
  let ?n = "length ws"
  let ?g = "\<lambda>vs p. f p (drop_bit (p mod 64) (vs ! (p div 64)) \<noteq> 0)"
  have "[0..<64 * length (ws @ [w])] = [0..<64 * ?n] @ map (\<lambda>j. j + 64 * ?n) [0..<64]"
    using upt_add_eq_append [of 0 "64 * ?n" 64] map_add_upt [of "64 * ?n" 64]
    by (simp add: add.commute del: upt_rec_numeral)
  moreover have "fold (?g (ws @ [w])) [0..<64 * ?n] s = fold (?g ws) [0..<64 * ?n] s"
    by (intro fold_cong refl) (auto simp: nth_append div_64_less)
  moreover have "fold (?g (ws @ [w])) (map (\<lambda>j. j + 64 * ?n) [0..<64]) t =
      fold (\<lambda>j s. f (?n * 64 + j) (drop_bit j w \<noteq> 0) s) [0..<64] t" for t
    unfolding fold_map by (intro fold_cong refl) (auto simp: ac_simps)
  moreover have "zip [0..<length (ws @ [w])] (ws @ [w]) = zip [0..<?n] ws @ [(?n, w)]" by simp
  ultimately show ?case
    by (simp only: snoc fold_append comp_apply fold_simps prod.case)
qed simp

lemma high_bit_iff:
  assumes "p < 64 * length (words bv)"
  shows "drop_bit (p mod 64) (words bv ! (p div 64)) \<noteq> 0 \<longleftrightarrow>
    (\<exists>q \<in> bv_set bv. q div 64 = p div 64 \<and> p \<le> q)"
proof
  let ?w = "words bv ! (p div 64)"
  have i: "p div 64 < length (words bv)" using assms by (simp add: div_64_less)
  assume "drop_bit (p mod 64) ?w \<noteq> 0"
  then obtain j where j: "bit ?w (p mod 64 + j)"
    using ex_lowest_bit [of "drop_bit (p mod 64) ?w"] by (auto simp: bit_drop_bit_eq)
  then have lt: "p mod 64 + j < 64" using bit_imp_le_length [OF j] by simp
  have "64 * (p div 64) + (p mod 64 + j) \<in> bv_set bv" using bv_set_word [OF i lt] j by simp
  moreover have "64 * (p div 64) + (p mod 64 + j) = p + j" by simp
  moreover have "(p + j) div 64 = p div 64" using lt
    by (metis div_mult_self4 div_less add_0_right \<open>64 * (p div 64) + (p mod 64 + j) = p + j\<close> zero_neq_numeral mult.commute)
  ultimately show "\<exists>q \<in> bv_set bv. q div 64 = p div 64 \<and> p \<le> q" by (metis le_add1)
next
  assume "\<exists>q \<in> bv_set bv. q div 64 = p div 64 \<and> p \<le> q"
  then obtain q where q: "q \<in> bv_set bv" "q div 64 = p div 64" "p \<le> q" by blast
  have "p mod 64 \<le> q mod 64" using q(2,3) mult_div_mod_eq [of 64 q] mult_div_mod_eq [of 64 p] by linarith
  then have "bit (drop_bit (p mod 64) (words bv ! (p div 64))) (q mod 64 - p mod 64)"
    using q(1,2) by (simp add: bit_drop_bit_eq bv_set_def mem_bits_of)
  then show "drop_bit (p mod 64) (words bv ! (p div 64)) \<noteq> 0" by auto
qed

lemma next_from_Least:
  assumes "\<exists>q \<in> S. p \<le> q"
  shows "next_from S p \<in> S" and "p \<le> next_from S p" and "r \<in> S \<Longrightarrow> p \<le> r \<Longrightarrow> next_from S p \<le> r"
proof -
  have "next_from S p = (LEAST q. q \<in> S \<and> p \<le> q)" using assms by (simp add: next_from_def)
  moreover have "(LEAST q. q \<in> S \<and> p \<le> q) \<in> S \<and> p \<le> (LEAST q. q \<in> S \<and> p \<le> q)"
    using assms by (intro LeastI_ex [of "\<lambda>q. q \<in> S \<and> p \<le> q"]) blast
  ultimately show "next_from S p \<in> S" "p \<le> next_from S p" by simp_all
  show "r \<in> S \<Longrightarrow> p \<le> r \<Longrightarrow> next_from S p \<le> r"
    using \<open>next_from S p = _\<close> by (simp add: Least_le)
qed

text \<open>
  The loop \<^verbatim>\<open>for (it = begin(); it != end(); ++it)\<close> over a forward search, collecting the
  positions it visits.
\<close>

partial_function (option) walk :: "(nat \<Rightarrow> nat option) \<Rightarrow> nat \<Rightarrow> nat list option" where
  "walk next p =
     (if p = kInvalidPos then Some []
      else do { q \<leftarrow> next p; ps \<leftarrow> walk next q; Some (p # ps) })"

section \<open>The interface of a set of positions\<close>

text \<open>
  What the clients of the class rely on. \<open>position_set\<close> is the contract of the operations on
  one position; \<open>position_algebra\<close> adds the operations on two sets of the same capacity;
  \<open>position_cursor\<close> is the contract of a forward search.
\<close>

locale position_set =
  fixes invar :: "'b \<Rightarrow> bool" and cap :: "'b \<Rightarrow> nat" and elems :: "'b \<Rightarrow> nat set"
    and test :: "'b \<Rightarrow> nat \<Rightarrow> bool option"
    and add :: "'b \<Rightarrow> nat \<Rightarrow> 'b option" and remove :: "'b \<Rightarrow> nat \<Rightarrow> 'b option"
  assumes elems_bound: "invar b \<Longrightarrow> p \<in> elems b \<Longrightarrow> p < cap b"
    and test_elems: "invar b \<Longrightarrow> p < cap b \<Longrightarrow> test b p = Some (p \<in> elems b)"
    and add_elems: "invar b \<Longrightarrow> p < cap b \<Longrightarrow>
      \<exists>b'. add b p = Some b' \<and> invar b' \<and> cap b' = cap b \<and> elems b' = insert p (elems b)"
    and remove_elems: "invar b \<Longrightarrow> p < cap b \<Longrightarrow>
      \<exists>b'. remove b p = Some b' \<and> invar b' \<and> cap b' = cap b \<and> elems b' = elems b - {p}"
begin

lemma add_list:
  "invar b \<Longrightarrow> \<forall>p \<in> set ps. p < cap b \<Longrightarrow>
   \<exists>b'. fold_opt (\<lambda>p b. add b p) ps b = Some b' \<and> invar b' \<and> cap b' = cap b \<and>
     elems b' = elems b \<union> set ps"
proof (induction ps arbitrary: b)
  case (Cons p ps)
  obtain b1 where b1: "add b p = Some b1" "invar b1" "cap b1 = cap b" "elems b1 = insert p (elems b)"
    using add_elems [of b p] Cons.prems by auto
  obtain b2 where "fold_opt (\<lambda>p b. add b p) ps b1 = Some b2" "invar b2" "cap b2 = cap b"
    "elems b2 = elems b1 \<union> set ps"
    using Cons.IH [of b1] Cons.prems b1 by auto
  then show ?case using b1 by auto
qed simp

lemma test_after_add_remove:
  assumes "invar b" and "p < cap b" and "q < cap b"
  shows "(do { b' \<leftarrow> add b p; test b' q }) = Some (q = p \<or> q \<in> elems b)"
    and "(do { b' \<leftarrow> remove b p; test b' q }) = Some (q \<noteq> p \<and> q \<in> elems b)"
  using add_elems [OF assms(1,2)] remove_elems [OF assms(1,2)] assms(3)
  by (auto simp: test_elems)

end

locale position_algebra = position_set +
  fixes assign :: "'b \<Rightarrow> 'b \<Rightarrow> 'b option" and intersect :: "'b \<Rightarrow> 'b \<Rightarrow> 'b option"
    and union :: "'b \<Rightarrow> 'b \<Rightarrow> 'b option" and diff :: "'b \<Rightarrow> 'b \<Rightarrow> 'b option"
  assumes assign_elems: "invar a \<Longrightarrow> invar b \<Longrightarrow> cap a = cap b \<Longrightarrow>
      \<exists>c. assign a b = Some c \<and> invar c \<and> cap c = cap a \<and> elems c = elems b"
    and intersect_elems: "invar a \<Longrightarrow> invar b \<Longrightarrow> cap a = cap b \<Longrightarrow>
      \<exists>c. intersect a b = Some c \<and> invar c \<and> cap c = cap a \<and> elems c = elems a \<inter> elems b"
    and union_elems: "invar a \<Longrightarrow> invar b \<Longrightarrow> cap a = cap b \<Longrightarrow>
      \<exists>c. union a b = Some c \<and> invar c \<and> cap c = cap a \<and> elems c = elems a \<union> elems b"
    and diff_elems: "invar a \<Longrightarrow> invar b \<Longrightarrow> cap a = cap b \<Longrightarrow>
      \<exists>c. diff a b = Some c \<and> invar c \<and> cap c = cap a \<and> elems c = elems a - elems b"
begin

text \<open>Splitting a set by another and joining the parts gives the set back.\<close>

lemma split_join:
  assumes "invar a" and "invar b" and "cap a = cap b"
  shows "\<exists>i d u. intersect a b = Some i \<and> diff a b = Some d \<and> union i d = Some u \<and>
    invar u \<and> cap u = cap a \<and> elems u = elems a"
proof -
  obtain i where i: "intersect a b = Some i" "invar i" "cap i = cap a" "elems i = elems a \<inter> elems b"
    using intersect_elems [OF assms] by blast
  obtain d where d: "diff a b = Some d" "invar d" "cap d = cap a" "elems d = elems a - elems b"
    using diff_elems [OF assms] by blast
  show ?thesis using union_elems [OF i(2) d(2)] i d by auto
qed

end

locale position_cursor =
  fixes invar :: "'b \<Rightarrow> bool" and elems :: "'b \<Rightarrow> nat set"
    and first_pos :: "'b \<Rightarrow> nat" and next_pos :: "'b \<Rightarrow> nat \<Rightarrow> nat option"
  assumes first_elems: "invar b \<Longrightarrow> first_pos b = next_from (elems b) 0"
    and next_elems: "invar b \<Longrightarrow> next_pos b p = Some (next_from (elems b) (Suc p))"
    and elems_finite: "finite (elems b)"
begin

lemma walk_from:
  assumes "invar b" and "\<forall>q \<in> elems b. q < kInvalidPos"
  shows "walk (next_pos b) (next_from (elems b) p) = Some (sorted_list_of_set {q \<in> elems b. p \<le> q})"
proof (induction "card {q \<in> elems b. p \<le> q}" arbitrary: p rule: less_induct)
  case less
  have fin: "finite {q \<in> elems b. p \<le> q}" using elems_finite [of b] by simp
  show ?case
  proof (cases "{q \<in> elems b. p \<le> q} = {}")
    case True
    then have "next_from (elems b) p = kInvalidPos" by (auto simp: next_from_def)
    then show ?thesis unfolding True by (simp add: walk.simps)
  next
    case False
    define m where "m = next_from (elems b) p"
    have m: "m \<in> elems b" "p \<le> m" "\<And>q. q \<in> elems b \<Longrightarrow> p \<le> q \<Longrightarrow> m \<le> q"
      using next_from_Least [of "elems b" p] False by (auto simp: m_def)
    have split: "{q \<in> elems b. p \<le> q} = insert m {q \<in> elems b. Suc m \<le> q}"
      using m by (auto simp: Suc_le_eq le_neq_implies_less)
    have "card {q \<in> elems b. Suc m \<le> q} < card {q \<in> elems b. p \<le> q}"
      using fin unfolding split by (subst card_insert_disjoint) auto
    note ih = less.hyps [OF this]
    have "sorted_list_of_set {q \<in> elems b. p \<le> q} = m # sorted_list_of_set {q \<in> elems b. Suc m \<le> q}"
      unfolding split using elems_finite [of b]
      by (intro sorted_list_of_set_eq_Cons) auto
    moreover have "m \<noteq> kInvalidPos" using m(1) assms(2) by auto
    ultimately show ?thesis
      using ih next_elems [OF assms(1)] by (simp add: walk.simps [of _ m] flip: m_def)
  qed
qed

lemma walk_all:
  assumes "invar b" and "\<forall>q \<in> elems b. q < kInvalidPos"
  shows "walk (next_pos b) (first_pos b) = Some (sorted_list_of_set (elems b))"
  using walk_from [OF assms, of 0] first_elems [OF assms(1)] by simp

end

interpretation bits: position_algebra bv_wf num_bits bv_set BitVector_Test BitVector_Set BitVector_Unset
  BitVector_Copy BitVector_Intersect BitVector_Union BitVector_Difference
  by unfold_locales (rule bv_wf_bound BitVector_Test_result BitVector_Set_result
    BitVector_Unset_result BitVector_Copy_result BitVector_Intersect_result BitVector_Union_result
    BitVector_Difference_result; assumption)+

text \<open>The search is a cursor for every LLVM that counts trailing zeros as documented.\<close>

interpretation bits_cursor: position_cursor "\<lambda>(L, bv). bv_wf bv \<and> llvm_ctz_ok L" "\<lambda>(L, bv). bv_set bv"
  "\<lambda>(L, bv). FindFirst L bv" "\<lambda>(L, bv). FindNext L bv"
  by unfold_locales (auto simp: FindFirst_result FindNext_result)

section \<open>Properties\<close>

text \<open>
  C15. Refinement of the operations on one position: on a well-formed vector and a position below
  its size, every one of them returns, keeps the size and the invariant, and acts on the set of
  set positions as insertion, removal, conditional insertion or removal, and toggling; the
  branch-free \<^verbatim>\<open>Set(position, v)\<close> and an assignment through a bit reference are equivalent.
\<close>

theorem BitVector_point_operations:
  assumes "bv_wf bv" and "p < num_bits bv"
  shows "BitVector_Test bv p = Some (p \<in> bv_set bv) \<and>
    (\<exists>b. BitVector_Set bv p = Some b \<and> bv_wf b \<and> num_bits b = num_bits bv \<and>
      bv_set b = insert p (bv_set bv)) \<and>
    (\<exists>b. BitVector_Unset bv p = Some b \<and> bv_wf b \<and> num_bits b = num_bits bv \<and>
      bv_set b = bv_set bv - {p}) \<and>
    (\<exists>b. BitVector_Flip bv p = Some b \<and> bv_wf b \<and> num_bits b = num_bits bv \<and>
      bv_set b = (if p \<in> bv_set bv then bv_set bv - {p} else insert p (bv_set bv))) \<and>
    (\<exists>r b b'. BitVector_SetTo bv p v = Some b \<and> BitVector_index bv p = Some r \<and>
      BitReference_assign bv r v = Some b' \<and> bv_wf b \<and> bv_wf b' \<and>
      num_bits b = num_bits bv \<and> num_bits b' = num_bits bv \<and> bv_set b = bv_set b' \<and>
      bv_set b = (if v then insert p (bv_set bv) else bv_set bv - {p}))"
proof -
  obtain b where b: "BitVector_SetTo bv p v = Some b" "bv_wf b" "num_bits b = num_bits bv"
    "bv_set b = (if v then insert p (bv_set bv) else bv_set bv - {p})"
    using BitVector_SetTo_result [OF assms] by blast
  obtain r b' where b': "BitVector_index bv p = Some r" "BitReference_assign bv r v = Some b'"
    "bv_wf b'" "num_bits b' = num_bits bv"
    "bv_set b' = (if v then insert p (bv_set bv) else bv_set bv - {p})"
    using BitReference_assign_result [OF assms] by blast
  show ?thesis
    using BitVector_Test_result [OF assms] BitVector_Set_result [OF assms]
      BitVector_Unset_result [OF assms] BitVector_Flip_result [OF assms] b b' by simp
qed

theorem BitVector_point_operations_witness:
  "BitVector_Test (BitVector_new 70) 65 = Some (65 \<in> bv_set (BitVector_new 70))"
proof -
  have "bv_wf (BitVector_new 70)" "65 < num_bits (BitVector_new 70)" by simp_all
  from BitVector_point_operations [OF this] show ?thesis by blast
qed

text \<open>
  C8. Refinement of the operations on whole vectors: on well-formed vectors of equal size,
  \<^verbatim>\<open>Copy\<close>, \<^verbatim>\<open>Intersect\<close>, \<^verbatim>\<open>Union\<close>, \<^verbatim>\<open>Difference\<close> and \<^verbatim>\<open>Xor\<close> are the operations on sets, and
  \<^verbatim>\<open>SetAll\<close>, \<^verbatim>\<open>FlipAll\<close>, \<^verbatim>\<open>Reset\<close> and \<^verbatim>\<open>Resize\<close> give all positions, the complement, none, and
  the positions below the new size; every result satisfies the invariant, so that no bit beyond
  the size is ever set.
\<close>

theorem BitVector_set_algebra:
  assumes "bv_wf a" and "bv_wf b" and "num_bits a = num_bits b"
  shows "(\<exists>c. BitVector_Copy a b = Some c \<and> bv_wf c \<and> num_bits c = num_bits a \<and>
      bv_set c = bv_set b) \<and>
    (\<exists>c. BitVector_Intersect a b = Some c \<and> bv_wf c \<and> num_bits c = num_bits a \<and>
      bv_set c = bv_set a \<inter> bv_set b) \<and>
    (\<exists>c. BitVector_Union a b = Some c \<and> bv_wf c \<and> num_bits c = num_bits a \<and>
      bv_set c = bv_set a \<union> bv_set b) \<and>
    (\<exists>c. BitVector_Difference a b = Some c \<and> bv_wf c \<and> num_bits c = num_bits a \<and>
      bv_set c = bv_set a - bv_set b) \<and>
    (\<exists>c. BitVector_Xor a b = Some c \<and> bv_wf c \<and> num_bits c = num_bits a \<and>
      bv_set c = (bv_set a - bv_set b) \<union> (bv_set b - bv_set a)) \<and>
    (\<exists>c. BitVector_SetAll a = Some c \<and> bv_wf c \<and> num_bits c = num_bits a \<and>
      bv_set c = {..<num_bits a}) \<and>
    (\<exists>c. BitVector_FlipAll a = Some c \<and> bv_wf c \<and> num_bits c = num_bits a \<and>
      bv_set c = {..<num_bits a} - bv_set a) \<and>
    (bv_wf (BitVector_Reset a) \<and> bv_set (BitVector_Reset a) = {}) \<and>
    (\<exists>c. BitVector_Resize a n = Some c \<and> bv_wf c \<and> num_bits c = n \<and>
      bv_set c = {p \<in> bv_set a. p < n})"
  using assms by (intro conjI)
    (rule bits.assign_elems bits.intersect_elems bits.union_elems bits.diff_elems
      BitVector_Xor_result BitVector_SetAll_result BitVector_FlipAll_result BitVector_Reset_result
      BitVector_Resize_result; assumption)+

theorem BitVector_set_algebra_witness:
  "\<exists>c. BitVector_Union (BitVector_new 70) (BitVector_new 70) = Some c \<and> bv_wf c \<and>
     num_bits c = num_bits (BitVector_new 70) \<and>
     bv_set c = bv_set (BitVector_new 70) \<union> bv_set (BitVector_new 70)"
  by (rule BitVector_set_algebra [THEN conjunct2, THEN conjunct2, THEN conjunct1]) simp_all

text \<open>
  C16. \<^verbatim>\<open>SetRange(start, end)\<close> adds exactly the positions of the half-open range, over any number
  of words, when the range is empty, or ends below the size or inside the last word.
\<close>

theorem BitVector_SetRange_correct:
  assumes "bv_wf bv" and "s \<le> e" and "e \<le> num_bits bv" and "e < num_bits bv \<or> e mod 64 \<noteq> 0 \<or> s = e"
  shows "\<exists>b. BitVector_SetRange bv s e = Some b \<and> bv_wf b \<and> num_bits b = num_bits bv \<and>
    bv_set b = bv_set bv \<union> {s..<e}"
  using assms by (rule BitVector_SetRange_result)

theorem BitVector_SetRange_correct_witness:
  "BitVector_SetRange (BitVector_new 200) 60 131 =
     Some \<lparr>num_bits = 200, words = [0xF000000000000000, 0xFFFFFFFFFFFFFFFF, 7, 0]\<rparr> \<and>
   (\<exists>b. BitVector_SetRange (BitVector_new 200) 60 131 = Some b \<and> bv_wf b \<and>
      num_bits b = num_bits (BitVector_new 200) \<and>
      bv_set b = bv_set (BitVector_new 200) \<union> {60..<131})"
proof -
  have "BitVector_SetRange (BitVector_new 200) 60 131 =
     Some \<lparr>num_bits = 200, words = [0xF000000000000000, 0xFFFFFFFFFFFFFFFF, 7, 0]\<rparr>" by code_simp
  then show ?thesis using BitVector_SetRange_correct [of "BitVector_new 200" 60 131] by simp
qed

text \<open>
  C19. The documented precondition \<^verbatim>\<open>start <= end <= num_bits()\<close> is not enough: on a vector whose
  size is a multiple of 64, setting a non-empty range up to the very end makes \<^verbatim>\<open>SetRange\<close> access
  the word after the last one.
\<close>

theorem BitVector_SetRange_past_end:
  assumes "bv_wf bv" and "s < num_bits bv" and "num_bits bv mod 64 = 0"
  shows "BitVector_SetRange bv s (num_bits bv) = None"
  using assms by (rule BitVector_SetRange_overrun)

theorem BitVector_SetRange_past_end_witness:
  "BitVector_SetRange (BitVector_new 2048) 0 (num_bits (BitVector_new 2048)) = None"
  using BitVector_SetRange_past_end [of "BitVector_new 2048" 0] by simp

text \<open>
  C10. The two filters agree: \<^verbatim>\<open>UpdateFull\<close>, which evaluates the predicate on every position, and
  \<^verbatim>\<open>UpdateSetBits\<close>, which evaluates it on the set positions only, both keep exactly the set
  positions that satisfy it.
\<close>

theorem BitVector_update_equivalence:
  assumes "bv_wf bv" and "llvm_ok L"
  shows "\<exists>b. BitVector_UpdateFull bv p = Some b \<and> bv_wf b \<and>
    bv_set b = {q \<in> bv_set bv. p q} \<and>
    BitVector_UpdateSetBits L bv p = b"
proof -
  obtain b where b: "BitVector_UpdateFull bv p = Some b" "bv_wf b" "num_bits b = num_bits bv"
    "bv_set b = {q \<in> bv_set bv. p q}"
    using BitVector_UpdateFull_result [OF assms(1)] by blast
  note u = BitVector_UpdateSetBits_result [OF assms(1) llvm_okD(1) [OF assms(2)], of p]
  have "BitVector_UpdateSetBits L bv p = b"
    using bv_set_inject [OF u(1) b(2)] u b by simp
  then show ?thesis using b by blast
qed

theorem BitVector_update_equivalence_witness:
  "\<exists>b. BitVector_UpdateFull (BitVector_new 70) even = Some b \<and> bv_wf b \<and>
    bv_set b = {q \<in> bv_set (BitVector_new 70). even q} \<and>
    BitVector_UpdateSetBits llvm_reference (BitVector_new 70) even = b"
  by (rule BitVector_update_equivalence) (simp_all add: llvm_reference_ok)

text \<open>
  C9. Three ways to enumerate a vector agree on the ascending list of its set positions:
  the callback of \<^verbatim>\<open>ForEachSet\<close> is called on it in order, the loop over \<^verbatim>\<open>FindFirst\<close> and
  \<^verbatim>\<open>FindNext\<close> ends and visits it, and \<^verbatim>\<open>NthOne(n)\<close> is its n-th element, or the size when there
  are no more than \<open>n\<close>; \<^verbatim>\<open>CountOnes\<close> is its length.
\<close>

theorem BitVector_enumeration:
  assumes "bv_wf bv" and "llvm_ok L" and "num_bits bv \<le> kInvalidPos"
  shows "\<exists>ps. walk (FindNext L bv) (FindFirst L bv) = Some ps \<and>
    ps = sorted_list_of_set (bv_set bv) \<and>
    BitVector_ForEachSet L bv f s = fold f ps s \<and>
    BitVector_CountOnes L bv = length ps \<and>
    BitVector_NthOne L bv n = (if n < length ps then ps ! n else num_bits bv)"
proof -
  have "\<forall>q \<in> bv_set bv. q < kInvalidPos" using assms(1,3) by (auto simp: bv_wf_def)
  then have "walk (FindNext L bv) (FindFirst L bv) = Some (sorted_list_of_set (bv_set bv))"
    using bits_cursor.walk_all [of "(L, bv)"] assms(1) llvm_okD(1) [OF assms(2)] by simp
  then show ?thesis
    using BitVector_ForEachSet_result [OF llvm_okD(1) [OF assms(2)], of bv f s]
      BitVector_CountOnes_result [OF llvm_okD(2) [OF assms(2)]]
      BitVector_NthOne_result [OF assms(1) llvm_okD(1,2) [OF assms(2)], of n]
    by simp
qed

theorem BitVector_enumeration_witness:
  "\<exists>b ps. BitVector_Set (BitVector_new 70) 65 = Some b \<and>
    walk (FindNext llvm_reference b) (FindFirst llvm_reference b) = Some ps \<and> ps = [65]"
proof -
  obtain b where b: "BitVector_Set (BitVector_new 70) 65 = Some b" "bv_wf b" "num_bits b = 70" "bv_set b = {65}"
    using BitVector_Set_result [of "BitVector_new 70" 65] by auto
  then have "num_bits b \<le> kInvalidPos" by (simp add: kInvalidPos_def)
  from BitVector_enumeration [OF b(2) llvm_reference_ok this, of "\<lambda>_ s. s" "()" 0]
  have "walk (FindNext llvm_reference b) (FindFirst llvm_reference b) = Some [65]"
    by (auto simp: b(4))
  then show ?thesis using b(1) by blast
qed

text \<open>
  C17. \<^verbatim>\<open>All\<close> and \<^verbatim>\<open>None\<close> decide whether every position, respectively no position, is set, and two
  well-formed vectors are equal under \<^verbatim>\<open>operator==\<close> just when they have the same size and the
  same set positions.
\<close>

theorem BitVector_queries:
  assumes "bv_wf bv" and "bv_wf b"
  shows "BitVector_All bv = Some (bv_set bv = {..<num_bits bv}) \<and>
    (BitVector_None bv \<longleftrightarrow> bv_set bv = {}) \<and>
    (BitVector_eq bv b \<longleftrightarrow> num_bits bv = num_bits b \<and> bv_set bv = bv_set b)"
  using BitVector_All_result [OF assms(1)] BitVector_None_result [of bv] bv_set_inject [OF assms]
  by (auto simp: BitVector_eq_def)

theorem BitVector_queries_witness:
  "BitVector_All (BitVector_new 70) = Some (bv_set (BitVector_new 70) = {..<num_bits (BitVector_new 70)}) \<and>
   (BitVector_None (BitVector_new 70) \<longleftrightarrow> bv_set (BitVector_new 70) = {}) \<and>
    (BitVector_eq (BitVector_new 70) (BitVector_new 6) \<longleftrightarrow> num_bits (BitVector_new 70) = num_bits (BitVector_new 6) \<and>
       bv_set (BitVector_new 70) = bv_set (BitVector_new 6))"
  by (rule BitVector_queries) simp_all

text \<open>
  C20. \<^verbatim>\<open>ForEach\<close> visits every position of every word in ascending order, those beyond the size
  included, and what it passes with a position is not the value of the bit but whether this bit
  or a higher bit of the same word is set.
\<close>

theorem BitVector_ForEach_values:
  "BitVector_ForEach bv f s =
     fold (\<lambda>p. f p (\<exists>q \<in> bv_set bv. q div 64 = p div 64 \<and> p \<le> q)) [0..<64 * length (words bv)] s"
  unfolding BitVector_ForEach_def GetNumWords_def kBitsPerWord_def for_each_fold
  by (intro fold_cong refl) (simp add: high_bit_iff)

end
