(* ===== verification/TupleIdList.thy ===== *)
theory TupleIdList
  imports BitVector
begin

text \<open>
  \<^verbatim>\<open>src/src/include/sql/tuple_id_list.h\<close> and \<^verbatim>\<open>src/src/sql/tuple_id_list.cpp\<close>: the ordered
  set of tuple IDs, a thin wrapper around a bit vector, with its two iterators. The list is a
  client of \<open>position_set\<close> and \<open>position_cursor\<close>: what it adds is the choice between the dense
  and the sparse routine, the error of the initialiser-list assignment, the conversion to a
  selection vector and the iterators.
\<close>

section \<open>The list\<close>

record TupleIdList =
  bit_vector :: BitVector

definition on_bits :: "(BitVector \<Rightarrow> BitVector option) \<Rightarrow> TupleIdList \<Rightarrow> TupleIdList option" where
  "on_bits f l = do { b \<leftarrow> f (bit_vector l); Some \<lparr>bit_vector = b\<rparr> }"

definition TupleIdList_new :: "u32 \<Rightarrow> TupleIdList" where
  "TupleIdList_new num_tuples = \<lparr>bit_vector = BitVector_new (unat num_tuples)\<rparr>"

definition TupleIdList_Resize :: "TupleIdList \<Rightarrow> nat \<Rightarrow> TupleIdList option" where
  "TupleIdList_Resize l num_tuples = on_bits (\<lambda>b. BitVector_Resize b num_tuples) l"

definition Contains :: "TupleIdList \<Rightarrow> nat \<Rightarrow> bool option" where
  "Contains l tid = BitVector_Test (bit_vector l) tid"

definition IsFull :: "TupleIdList \<Rightarrow> bool option" where
  "IsFull l = BitVector_All (bit_vector l)"

definition IsEmpty :: "TupleIdList \<Rightarrow> bool" where
  "IsEmpty l = BitVector_None (bit_vector l)"

definition Add :: "TupleIdList \<Rightarrow> nat \<Rightarrow> TupleIdList option" where
  "Add l tid = on_bits (\<lambda>b. BitVector_Set b tid) l"

definition AddRange :: "TupleIdList \<Rightarrow> nat \<Rightarrow> nat \<Rightarrow> TupleIdList option" where
  "AddRange l start_tid end_tid = on_bits (\<lambda>b. BitVector_SetRange b start_tid end_tid) l"

definition AddAll :: "TupleIdList \<Rightarrow> TupleIdList option" where
  "AddAll l = on_bits BitVector_SetAll l"

definition Enable :: "TupleIdList \<Rightarrow> nat \<Rightarrow> bool \<Rightarrow> TupleIdList option" where
  "Enable l tid enable = on_bits (\<lambda>b. BitVector_SetTo b tid enable) l"

definition Remove :: "TupleIdList \<Rightarrow> nat \<Rightarrow> TupleIdList option" where
  "Remove l tid = on_bits (\<lambda>b. BitVector_Unset b tid) l"

definition AssignFrom :: "TupleIdList \<Rightarrow> TupleIdList \<Rightarrow> TupleIdList option" where
  "AssignFrom l other = on_bits (\<lambda>b. BitVector_Copy b (bit_vector other)) l"

definition IntersectWith :: "TupleIdList \<Rightarrow> TupleIdList \<Rightarrow> TupleIdList option" where
  "IntersectWith l other = on_bits (\<lambda>b. BitVector_Intersect b (bit_vector other)) l"

definition UnionWith :: "TupleIdList \<Rightarrow> TupleIdList \<Rightarrow> TupleIdList option" where
  "UnionWith l other = on_bits (\<lambda>b. BitVector_Union b (bit_vector other)) l"

definition UnsetFrom :: "TupleIdList \<Rightarrow> TupleIdList \<Rightarrow> TupleIdList option" where
  "UnsetFrom l other = on_bits (\<lambda>b. BitVector_Difference b (bit_vector other)) l"

definition Filter :: "llvm \<Rightarrow> TupleIdList \<Rightarrow> (nat \<Rightarrow> bool) \<Rightarrow> TupleIdList option" where
  "Filter L l p = do {
     full \<leftarrow> IsFull l;
     if full then on_bits (\<lambda>b. BitVector_UpdateFull b p) l
     else on_bits (\<lambda>b. Some (BitVector_UpdateSetBits L b p)) l }"

definition BuildFromSelectionVector :: "TupleIdList \<Rightarrow> sel_t list \<Rightarrow> TupleIdList option" where
  "BuildFromSelectionVector l sel_vector =
     on_bits (fold_opt (\<lambda>s b. BitVector_Set b (unat s)) sel_vector) l"

definition BuildFromMatchVector :: "TupleIdList \<Rightarrow> u8 list \<Rightarrow> TupleIdList option" where
  "BuildFromMatchVector l matches = on_bits (\<lambda>b. BitVector_SetFromBytes b matches) l"

definition Clear :: "TupleIdList \<Rightarrow> TupleIdList" where
  "Clear l = \<lparr>bit_vector = BitVector_Reset (bit_vector l)\<rparr>"

definition GetTupleCount :: "llvm \<Rightarrow> TupleIdList \<Rightarrow> u32" where
  "GetTupleCount L l = of_nat (BitVector_CountOnes L (bit_vector l))"

definition GetCapacity :: "TupleIdList \<Rightarrow> u32" where
  "GetCapacity l = of_nat (GetNumBits (bit_vector l))"

definition ToSelectionVector :: "llvm \<Rightarrow> bool \<Rightarrow> (nat \<Rightarrow> nat \<Rightarrow> bool) \<Rightarrow> TupleIdList \<Rightarrow> sel_t list
    \<Rightarrow> (u32 \<times> sel_t list) option" where
  "ToSelectionVector L avx512 sparse l sel_vec = do {
     (n, out) \<leftarrow> BitVectorToSelectionVector L avx512 sparse (words (bit_vector l))
       (GetNumBits (bit_vector l)) sel_vec;
     Some (of_nat n, out) }"

definition ForEach :: "llvm \<Rightarrow> TupleIdList \<Rightarrow> (nat \<Rightarrow> 's \<Rightarrow> 's) \<Rightarrow> 's \<Rightarrow> 's option" where
  "ForEach L l f s = do {
     full \<leftarrow> IsFull l;
     if full then Some (fold f [0..<unat (GetCapacity l)] s)
     else Some (BitVector_ForEachSet L (bit_vector l) f s) }"

definition TupleIdList_ToString :: "llvm \<Rightarrow> TupleIdList \<Rightarrow> string option" where
  "TupleIdList_ToString L l = do {
     (is_first, result) \<leftarrow> ForEach L l
       (\<lambda>i (is_first, result). (False, (if is_first then result else result @ '','') @ to_string i))
       (True, ''TIDs('' @ to_string (unat (GetTupleCount L l)) @ ''/'' @
              to_string (unat (GetCapacity l)) @ '')=['');
     Some (result @ '']'') }"

definition TupleIdList_index :: "llvm \<Rightarrow> TupleIdList \<Rightarrow> nat \<Rightarrow> nat option" where
  "TupleIdList_index L l i = do {
     tpl_assert (i < unat (GetTupleCount L l));
     Some (BitVector_NthOne L (bit_vector l) i) }"

text \<open>
  \<^verbatim>\<open>operator=(std::initializer_list<uint32_t>)\<close> throws \<^verbatim>\<open>std::out_of_range\<close> before it changes
  anything.
\<close>

datatype tid_error = OutOfRange string

definition TupleIdList_assign :: "TupleIdList \<Rightarrow> u32 list \<Rightarrow> (tid_error + TupleIdList) option" where
  "TupleIdList_assign l tids =
     (if \<not> list_all (\<lambda>tid. tid < GetCapacity l) tids
      then Some (Inl (OutOfRange ''Not all TIDs can be added to this list''))
      else do {
        l \<leftarrow> fold_opt (\<lambda>tid l. Add l (unat tid)) tids (Clear l);
        Some (Inr l) })"

section \<open>Iterators\<close>

text \<open>
  \<^verbatim>\<open>TupleIdList::ConstIterator\<close>: a reference to the bit vector (its address and what lies there)
  and a 32-bit position. Two iterators are equal when the addresses and the positions are. The
  position returned by the search is truncated to 32 bits when it is stored.
\<close>

record ConstIterator =
  it_address :: u64
  it_bv :: BitVector
  current_position :: u32

definition iter_begin :: "llvm \<Rightarrow> u64 \<Rightarrow> TupleIdList \<Rightarrow> ConstIterator" where
  "iter_begin L a l =
     \<lparr>it_address = a, it_bv = bit_vector l, current_position = of_nat (FindFirst L (bit_vector l))\<rparr>"

definition iter_end :: "u64 \<Rightarrow> TupleIdList \<Rightarrow> ConstIterator" where
  "iter_end a l = \<lparr>it_address = a, it_bv = bit_vector l, current_position = of_nat kInvalidPos\<rparr>"

definition iter_next :: "llvm \<Rightarrow> ConstIterator \<Rightarrow> ConstIterator option" where
  "iter_next L it = do {
     p \<leftarrow> FindNext L (it_bv it) (unat (current_position it));
     Some (it\<lparr>current_position := of_nat p\<rparr>) }"

fun iter_advance :: "llvm \<Rightarrow> ConstIterator \<Rightarrow> nat \<Rightarrow> ConstIterator option" where
  "iter_advance L it 0 = Some it"
| "iter_advance L it (Suc n) = do { it \<leftarrow> iter_next L it; iter_advance L it n }"

definition iter_eq :: "ConstIterator \<Rightarrow> ConstIterator \<Rightarrow> bool" where
  "iter_eq a b \<longleftrightarrow> it_address a = it_address b \<and> current_position a = current_position b"

text \<open>\<^verbatim>\<open>for (auto it = l.begin(); it != l.end(); ++it)\<close>, collecting \<^verbatim>\<open>*it\<close>.\<close>

partial_function (option) iter_loop ::
  "llvm \<Rightarrow> ConstIterator \<Rightarrow> ConstIterator \<Rightarrow> u32 list option" where
  "iter_loop L it it_end =
     (if iter_eq it it_end then Some []
      else do {
        it' \<leftarrow> iter_next L it;
        ps \<leftarrow> iter_loop L it' it_end;
        Some (current_position it # ps) })"

text \<open>\<^verbatim>\<open>TupleIdListIterator\<close>: it materialises the list in an array of 16-bit IDs.\<close>

record TupleIdListIterator =
  tid_list :: TupleIdList
  sel_vector :: "sel_t list"
  sel_size :: u16
  curr_idx :: u16

definition Iterator_Reset :: "llvm \<Rightarrow> bool \<Rightarrow> (nat \<Rightarrow> nat \<Rightarrow> bool) \<Rightarrow> TupleIdListIterator
    \<Rightarrow> TupleIdListIterator option" where
  "Iterator_Reset L avx512 sparse it = do {
     (n, out) \<leftarrow> ToSelectionVector L avx512 sparse (tid_list it) (sel_vector it);
     Some (it\<lparr>curr_idx := 0, sel_size := ucast n, sel_vector := out\<rparr>) }"

text \<open>The array is an uninitialised member; \<open>garbage\<close> is what it happens to hold.\<close>

definition Iterator_new :: "llvm \<Rightarrow> bool \<Rightarrow> (nat \<Rightarrow> nat \<Rightarrow> bool) \<Rightarrow> sel_t list \<Rightarrow> TupleIdList
    \<Rightarrow> TupleIdListIterator option" where
  "Iterator_new L avx512 sparse garbage l = do {
     tpl_assert (unat (GetCapacity l) \<le> kDefaultVectorSize);
     Iterator_Reset L avx512 sparse
       \<lparr>tid_list = l, sel_vector = garbage, sel_size = 0, curr_idx = 0\<rparr> }"

definition Iterator_HasNext :: "TupleIdListIterator \<Rightarrow> bool" where
  "Iterator_HasNext it \<longleftrightarrow> curr_idx it \<noteq> sel_size it"

definition Iterator_Advance :: "TupleIdListIterator \<Rightarrow> TupleIdListIterator" where
  "Iterator_Advance it = it\<lparr>curr_idx := curr_idx it + 1\<rparr>"

definition Iterator_GetCurrentTupleId :: "TupleIdListIterator \<Rightarrow> sel_t option" where
  "Iterator_GetCurrentTupleId it = vec_at (sel_vector it) (unat (curr_idx it))"

partial_function (option) Iterator_loop :: "TupleIdListIterator \<Rightarrow> sel_t list option" where
  "Iterator_loop it =
     (if Iterator_HasNext it
      then do {
        tid \<leftarrow> Iterator_GetCurrentTupleId it;
        tids \<leftarrow> Iterator_loop (Iterator_Advance it);
        Some (tid # tids) }
      else Some [])"

section \<open>Invariant and abstraction\<close>

text \<open>The capacity of a list is given as a 32-bit integer, and the largest one is not a TID.\<close>

definition tid_cap :: "TupleIdList \<Rightarrow> nat" where
  "tid_cap l = num_bits (bit_vector l)"

definition tid_wf :: "TupleIdList \<Rightarrow> bool" where
  "tid_wf l \<longleftrightarrow> bv_wf (bit_vector l) \<and> tid_cap l \<le> kInvalidPos"

definition tid_set :: "TupleIdList \<Rightarrow> nat set" where
  "tid_set l = bv_set (bit_vector l)"

lemma tid_wf_new: "tid_wf (TupleIdList_new n)" "tid_set (TupleIdList_new n) = {}" "tid_cap (TupleIdList_new n) = unat n"
proof -
  have "unat n < 2 ^ 32" using unsigned_less [of n] by simp
  then show "tid_wf (TupleIdList_new n)"
    by (simp add: tid_wf_def tid_cap_def TupleIdList_new_def kInvalidPos_def)
qed (simp_all add: TupleIdList_new_def tid_set_def tid_cap_def)

lemma unat_of_nat_32: "n < 2 ^ 32 \<Longrightarrow> unat (of_nat n :: u32) = n"
  by (simp add: unsigned_of_nat take_bit_nat_eq_self)

lemma GetCapacity_result: "tid_wf l \<Longrightarrow> unat (GetCapacity l) = tid_cap l"
  unfolding GetCapacity_def GetNumBits_def tid_cap_def [symmetric]
  by (rule unat_of_nat_32) (simp add: tid_wf_def kInvalidPos_def)

text \<open>An operation of the bit vector that keeps size and invariant lifts to the list.\<close>

lemma on_bits_lift:
  assumes "\<exists>b. f (bit_vector l) = Some b \<and> bv_wf b \<and> num_bits b = num_bits (bit_vector l) \<and> bv_set b = S"
    and "tid_wf l"
  shows "\<exists>l'. on_bits f l = Some l' \<and> tid_wf l' \<and> tid_cap l' = tid_cap l \<and> tid_set l' = S"
  using assms by (auto simp: on_bits_def tid_wf_def tid_cap_def tid_set_def)

lemmas tid_defs = tid_wf_def tid_cap_def tid_set_def

interpretation tids: position_algebra tid_wf tid_cap tid_set Contains Add Remove
  AssignFrom IntersectWith UnionWith UnsetFrom
proof unfold_locales
  fix l :: TupleIdList and p
  assume l: "tid_wf l"
  then have wf: "bv_wf (bit_vector l)" by (simp add: tid_wf_def)
  show "p \<in> tid_set l \<Longrightarrow> p < tid_cap l" using bits.elems_bound [OF wf] by (simp add: tid_defs)
  assume "p < tid_cap l"
  then have p: "p < num_bits (bit_vector l)" by (simp add: tid_cap_def)
  show "Contains l p = Some (p \<in> tid_set l)"
    using bits.test_elems [OF wf p] by (simp add: Contains_def tid_set_def)
  show "\<exists>l'. Add l p = Some l' \<and> tid_wf l' \<and> tid_cap l' = tid_cap l \<and> tid_set l' = insert p (tid_set l)"
    unfolding Add_def tid_set_def [of l] by (rule on_bits_lift, rule bits.add_elems [OF wf p], rule l)
  show "\<exists>l'. Remove l p = Some l' \<and> tid_wf l' \<and> tid_cap l' = tid_cap l \<and> tid_set l' = tid_set l - {p}"
    unfolding Remove_def tid_set_def [of l] by (rule on_bits_lift, rule bits.remove_elems [OF wf p], rule l)
next
  fix l m :: TupleIdList
  assume l: "tid_wf l" and m: "tid_wf m" and "tid_cap l = tid_cap m"
  then have lm: "bv_wf (bit_vector l)" "bv_wf (bit_vector m)" "num_bits (bit_vector l) = num_bits (bit_vector m)"
    by (simp_all add: tid_defs)
  show "\<exists>c. AssignFrom l m = Some c \<and> tid_wf c \<and> tid_cap c = tid_cap l \<and> tid_set c = tid_set m"
    unfolding AssignFrom_def tid_set_def [of m] by (rule on_bits_lift, rule bits.assign_elems [OF lm], rule l)
  show "\<exists>c. IntersectWith l m = Some c \<and> tid_wf c \<and> tid_cap c = tid_cap l \<and> tid_set c = tid_set l \<inter> tid_set m"
    unfolding IntersectWith_def tid_set_def [of m] tid_set_def [of l]
    by (rule on_bits_lift, rule bits.intersect_elems [OF lm], rule l)
  show "\<exists>c. UnionWith l m = Some c \<and> tid_wf c \<and> tid_cap c = tid_cap l \<and> tid_set c = tid_set l \<union> tid_set m"
    unfolding UnionWith_def tid_set_def [of m] tid_set_def [of l]
    by (rule on_bits_lift, rule bits.union_elems [OF lm], rule l)
  show "\<exists>c. UnsetFrom l m = Some c \<and> tid_wf c \<and> tid_cap c = tid_cap l \<and> tid_set c = tid_set l - tid_set m"
    unfolding UnsetFrom_def tid_set_def [of m] tid_set_def [of l]
    by (rule on_bits_lift, rule bits.diff_elems [OF lm], rule l)
qed

lemma IsFull_result: "tid_wf l \<Longrightarrow> IsFull l = Some (tid_set l = {..<tid_cap l})"
  by (simp add: IsFull_def tid_defs BitVector_All_result)

lemma Clear_result: "tid_wf l \<Longrightarrow> tid_wf (Clear l)" "tid_set (Clear l) = {}" "tid_cap (Clear l) = tid_cap l"
  by (simp_all add: Clear_def tid_defs BitVector_Reset_result)

lemma Filter_result:
  assumes "tid_wf l" and "llvm_ok L"
  shows "\<exists>l'. Filter L l p = Some l' \<and> tid_wf l' \<and> tid_cap l' = tid_cap l \<and>
    tid_set l' = {t \<in> tid_set l. p t}"
proof -
  have wf: "bv_wf (bit_vector l)" using assms(1) by (simp add: tid_wf_def)
  have full: "\<exists>b. BitVector_UpdateFull (bit_vector l) p = Some b \<and> bv_wf b \<and>
      num_bits b = num_bits (bit_vector l) \<and> bv_set b = {t \<in> tid_set l. p t}"
    using BitVector_UpdateFull_result [OF wf] by (simp add: tid_set_def)
  have sparse: "\<exists>b. Some (BitVector_UpdateSetBits L (bit_vector l) p) = Some b \<and> bv_wf b \<and>
      num_bits b = num_bits (bit_vector l) \<and> bv_set b = {t \<in> tid_set l. p t}"
    using BitVector_UpdateSetBits_result [OF wf llvm_okD(1) [OF assms(2)]] by (simp add: tid_set_def)
  show ?thesis
    using on_bits_lift [of "\<lambda>b. BitVector_UpdateFull b p", OF full assms(1)]
      on_bits_lift [of "\<lambda>b. Some (BitVector_UpdateSetBits L b p)", OF sparse assms(1)]
      IsFull_result [OF assms(1)]
    by (cases "tid_set l = {..<tid_cap l}") (simp_all only: Filter_def bind.simps simp_thms if_True if_False)
qed

lemma ForEach_result:
  assumes "tid_wf l" and "llvm_ok L"
  shows "ForEach L l f s = Some (fold f (sorted_list_of_set (tid_set l)) s)"
proof -
  have "sorted_list_of_set {..<tid_cap l} = [0..<tid_cap l]"
    by (simp add: lessThan_atLeast0)
  then show ?thesis
    using IsFull_result [OF assms(1)] GetCapacity_result [OF assms(1)]
      BitVector_ForEachSet_result [OF llvm_okD(1) [OF assms(2)], of "bit_vector l" f s]
    by (auto simp: ForEach_def tid_set_def)
qed

section \<open>Selection vectors\<close>

lemma num_words_bound: "n \<le> 2048 \<Longrightarrow> 64 * num_words_for n \<le> 2048"
proof -
  assume "n \<le> 2048"
  then have "(n + 64 - 1) div 64 \<le> (2048 + 64 - 1) div 64" by (intro div_le_mono) simp
  then show ?thesis by (simp add: num_words_for_def)
qed

text \<open>
  A list is \<open>convertible\<close> in every build without AVX-512. In a build with AVX-512 the list must be
  one that takes the sparse loop, or hold only TIDs below 32: the dense loop of that build wraps
  the positions modulo 32, as VectorUtil shows.
\<close>

definition convertible :: "bool \<Rightarrow> (nat \<Rightarrow> nat \<Rightarrow> bool) \<Rightarrow> TupleIdList \<Rightarrow> bool" where
  "convertible avx512 sparse l \<longleftrightarrow>
     \<not> avx512 \<or> sparse (card (tid_set l)) (tid_cap l) \<or> (\<forall>t \<in> tid_set l. t < 32)"

lemma ToSelectionVector_result:
  assumes "tid_wf l" and "llvm_ok L" and "tid_cap l \<le> kDefaultVectorSize"
    and "length out = kDefaultVectorSize" and "convertible avx512 sparse l"
  shows "\<exists>n out'. ToSelectionVector L avx512 sparse l out = Some (n, out') \<and>
    unat n = card (tid_set l) \<and> unat n \<le> kDefaultVectorSize \<and>
    length (take (unat n) out') = unat n \<and>
    take (unat n) out' = map of_nat (sorted_list_of_set (tid_set l))"
proof -
  let ?b = "bit_vector l"
  have wf: "bv_wf ?b" using assms(1) by (simp add: tid_wf_def)
  have nw: "num_words_for (num_bits ?b) = length (words ?b)"
    using wf by (simp add: bv_wf_def NumNeededWords_def num_words_for_def kBitsPerWord_def)
  have "64 * num_words_for (num_bits ?b) \<le> length out" "length out < 2 ^ 16"
    using num_words_bound [of "num_bits ?b"] assms(3,4) by (simp_all add: kDefaultVectorSize_def tid_cap_def)
  then obtain n out' where r: "BitVectorToSelectionVector L avx512 sparse (words ?b) (num_bits ?b) out = Some (n, out')"
    "buf_has out' n (map of_nat (sorted_list_of_set (tid_set l)))"
    using BitVectorToSelectionVector_builds [OF assms(2), of "num_bits ?b" "words ?b" out avx512 sparse]
      assms(5) nw
    by (auto simp: bv_set_def tid_set_def tid_cap_def convertible_def set_positions_eq)
  have n: "n = card (tid_set l)" using r(2) by (simp add: buf_has_def tid_set_def)
  have "tid_set l \<subseteq> {..<tid_cap l}" using tids.elems_bound [OF assms(1)] by auto
  then have "n \<le> tid_cap l" unfolding n using card_mono [of "{..<tid_cap l}"] by simp
  then have "n \<le> kDefaultVectorSize" "unat (of_nat n :: u32) = n"
    using assms(3) by (auto simp: kDefaultVectorSize_def intro: unat_of_nat_32)
  then show ?thesis using r n by (auto simp: ToSelectionVector_def GetNumBits_def buf_has_def)
qed

lemma BuildFromSelectionVector_result:
  assumes "tid_wf l" and "\<forall>s \<in> set sel. unat s < tid_cap l"
  shows "\<exists>l'. BuildFromSelectionVector l sel = Some l' \<and> tid_wf l' \<and> tid_cap l' = tid_cap l \<and>
    tid_set l' = tid_set l \<union> unat ` set sel"
proof -
  have wf: "bv_wf (bit_vector l)" using assms(1) by (simp add: tid_wf_def)
  have "fold_opt (\<lambda>s b. BitVector_Set b (unat s)) sel b = fold_opt (\<lambda>p b. BitVector_Set b p) (map unat sel) b"
    for b by (rule fold_opt_map [symmetric])
  then have "\<exists>b. fold_opt (\<lambda>s b. BitVector_Set b (unat s)) sel (bit_vector l) = Some b \<and> bv_wf b \<and>
      num_bits b = num_bits (bit_vector l) \<and> bv_set b = tid_set l \<union> unat ` set sel"
    using bits.add_list [OF wf, of "map unat sel"] assms(2) by (simp add: tid_defs)
  then show ?thesis unfolding BuildFromSelectionVector_def by (rule on_bits_lift [OF _ assms(1)])
qed

lemma convertible_examples:
  "convertible False sparse l"
  "tid_wf l \<Longrightarrow> tid_cap l \<le> 32 \<Longrightarrow> convertible avx512 sparse l"
  using tids.elems_bound [of l] by (force simp: convertible_def)+

section \<open>Iterators\<close>

lemma next_from_le: "\<forall>q \<in> S. q < kInvalidPos \<Longrightarrow> next_from S p \<le> kInvalidPos"
  using next_from_Least(1) [of S p] by (cases "\<exists>q \<in> S. p \<le> q") (auto simp: next_from_def less_imp_le_nat)


lemma iter_loop_walk:
  assumes "walk (FindNext L bv) p = Some ps" and "bv_wf bv" and "llvm_ctz_ok L" and "num_bits bv \<le> kInvalidPos"
    and "p \<le> kInvalidPos"
  shows "iter_loop L \<lparr>it_address = a, it_bv = bv, current_position = of_nat p\<rparr>
    \<lparr>it_address = a, it_bv = bv, current_position = of_nat kInvalidPos\<rparr> = Some (map of_nat ps)"
  using assms(1,5)
proof (induction ps arbitrary: p)
  case Nil
  then have "p = kInvalidPos" by (auto simp: walk.simps [of _ p] bind_eq_Some_conv split: if_splits)
  then show ?case by (simp add: iter_loop.simps iter_eq_def)
next
  case (Cons q ps)
  have p: "p \<noteq> kInvalidPos" using Cons.prems(1) by (auto simp: walk.simps [of _ p])
  define r where "r = next_from (bv_set bv) (Suc p)"
  have r: "FindNext L bv p = Some r" using FindNext_result [OF assms(2,3)] by (simp add: r_def)
  have w: "q = p" "walk (FindNext L bv) r = Some ps"
    using Cons.prems(1) p r by (auto simp: walk.simps [of _ p] bind_eq_Some_conv split: if_splits)
  have "r \<le> kInvalidPos"
    using next_from_le [of "bv_set bv" "Suc p"] bv_wf_bound [OF assms(2)] assms(4) by (force simp: r_def)
  note ih = Cons.IH [OF w(2) this]
  have un: "unat (of_nat p :: u32) = p" using Cons.prems(2) by (intro unat_of_nat_32) (simp add: kInvalidPos_def)
  have "(of_nat p :: u32) \<noteq> of_nat kInvalidPos"
    using p un unat_of_nat_32 [of kInvalidPos] by (auto simp: kInvalidPos_def)
  then show ?case using ih r w(1) un
    by (simp add: iter_loop.simps [of L "\<lparr>it_address = a, it_bv = bv, current_position = of_nat p\<rparr>"] iter_eq_def iter_next_def)
qed

lemma Iterator_loop_result:
  assumes "unat (sel_size it) \<le> length (sel_vector it)" and "unat (curr_idx it) \<le> unat (sel_size it)"
  shows "Iterator_loop it = Some (drop (unat (curr_idx it)) (take (unat (sel_size it)) (sel_vector it)))"
  using assms
proof (induction "unat (sel_size it) - unat (curr_idx it)" arbitrary: it)
  case 0
  then have "unat (curr_idx it) = unat (sel_size it)" by simp
  then show ?case by (simp add: Iterator_loop.simps [of it] Iterator_HasNext_def word_unat_eq_iff)
next
  case (Suc n)
  have lt: "unat (curr_idx it) < unat (sel_size it)" using Suc(2) by simp
  have inc: "unat (curr_idx it + 1) = Suc (unat (curr_idx it))"
  proof -
    have "unat (sel_size it) < 2 ^ 16" using unsigned_less [of "sel_size it"] by simp
    then show ?thesis using lt by (subst unat_add_lem [THEN iffD1]) auto
  qed
  let ?it = "Iterator_Advance it"
  have ih: "Iterator_loop ?it = Some (drop (Suc (unat (curr_idx it))) (take (unat (sel_size it)) (sel_vector it)))"
    using Suc.hyps(1) [of ?it] Suc(2) Suc.prems lt inc by (simp add: Iterator_Advance_def)
  have "drop (unat (curr_idx it)) (take (unat (sel_size it)) (sel_vector it)) =
      sel_vector it ! unat (curr_idx it) #
      drop (Suc (unat (curr_idx it))) (take (unat (sel_size it)) (sel_vector it))"
    using lt Suc.prems(1) by (subst Cons_nth_drop_Suc [symmetric]) auto
  moreover have "Iterator_HasNext it" using lt by (auto simp: Iterator_HasNext_def)
  moreover have "Iterator_GetCurrentTupleId it = Some (sel_vector it ! unat (curr_idx it))"
    using lt Suc.prems(1) by (simp add: Iterator_GetCurrentTupleId_def checked)
  ultimately show ?case using ih by (simp add: Iterator_loop.simps [of it])
qed

section \<open>Properties\<close>

text \<open>
  C5. \<^verbatim>\<open>Filter\<close> keeps exactly the TIDs of the list that satisfy the predicate, whether it takes
  the dense path for a full list or the sparse path; the list stays well-formed and keeps its
  capacity.
\<close>

theorem Filter_correct:
  assumes "tid_wf l" and "llvm_ok L"
  shows "\<exists>l'. Filter L l p = Some l' \<and> tid_wf l' \<and> tid_cap l' = tid_cap l \<and>
    tid_set l' = {t \<in> tid_set l. p t}"
  using assms by (rule Filter_result)

theorem Filter_correct_witness:
  "\<exists>l'. Filter llvm_reference (TupleIdList_new 100) even = Some l' \<and> tid_wf l' \<and>
    tid_cap l' = tid_cap (TupleIdList_new 100) \<and> tid_set l' = {t \<in> tid_set (TupleIdList_new 100). even t}"
  by (rule Filter_correct) (simp_all add: tid_wf_new llvm_reference_ok)

text \<open>
  C7. Round trip through a selection vector: for a list whose capacity is at most
  \<^verbatim>\<open>kDefaultVectorSize\<close> (2048), \<^verbatim>\<open>ToSelectionVector\<close> reports the number of TIDs and writes them in
  ascending order, and \<^verbatim>\<open>BuildFromSelectionVector\<close> on a cleared list of the same capacity gives
  the list back. This holds for every such list in a build without AVX-512. In a build with
  AVX-512 (\<open>avx512\<close>) it is limited to the \<open>convertible\<close> lists: those the density heuristic sends
  to the sparse loop, and those whose TIDs are all below 32.
\<close>

theorem selection_vector_roundtrip:
  assumes "tid_wf l" and "llvm_ok L" and "tid_cap l \<le> kDefaultVectorSize"
    and "length out = kDefaultVectorSize" and "convertible avx512 sparse l"
    and "tid_wf l2" and "tid_cap l2 = tid_cap l"
  shows "\<exists>n out' l'. ToSelectionVector L avx512 sparse l out = Some (n, out') \<and>
    unat n = card (tid_set l) \<and> sorted (take (unat n) out') \<and>
    BuildFromSelectionVector (Clear l2) (take (unat n) out') = Some l' \<and> l' = l"
proof -
  obtain n out' where r: "ToSelectionVector L avx512 sparse l out = Some (n, out')"
    "unat n = card (tid_set l)" "take (unat n) out' = map of_nat (sorted_list_of_set (tid_set l))"
    using ToSelectionVector_result [OF assms(1-5)] by blast
  have small: "unat (of_nat t :: sel_t) = t" if "t \<in> tid_set l" for t
    using tids.elems_bound [OF assms(1) that] assms(3)
    by (simp add: kDefaultVectorSize_def unsigned_of_nat take_bit_nat_eq_self)
  have fin: "finite (tid_set l)" by (simp add: tid_set_def)
  have set: "unat ` set (take (unat n) out') = tid_set l"
    unfolding r(3) using small fin by (force simp: image_image)
  have "sorted (take (unat n) out')"
    unfolding r(3) sorted_map using small fin
    by (auto simp: word_le_nat_alt sorted_wrt_iff_nth_less) (metis nth_mem set_sorted_list_of_set sorted_sorted_list_of_set sorted_wrt_nth_less length_sorted_list_of_set order_less_trans)
  moreover obtain l' where l': "BuildFromSelectionVector (Clear l2) (take (unat n) out') = Some l'"
    "tid_wf l'" "tid_cap l' = tid_cap l" "tid_set l' = tid_set l"
    using BuildFromSelectionVector_result [of "Clear l2" "take (unat n) out'"] Clear_result [of l2]
      assms(6,7) set tids.elems_bound [OF assms(1)] by auto
  moreover have "l' = l"
    using bv_set_inject [of "bit_vector l'" "bit_vector l"] l' assms(1) by (simp add: tid_defs)
  ultimately show ?thesis using r(1,2) by blast
qed

theorem selection_vector_roundtrip_witness:
  "(\<exists>n out' l'. ToSelectionVector llvm_reference False (\<lambda>c n. 8 * c < n) (TupleIdList_new 100)
      (replicate kDefaultVectorSize 0) = Some (n, out') \<and>
    unat n = card (tid_set (TupleIdList_new 100)) \<and> sorted (take (unat n) out') \<and>
    BuildFromSelectionVector (Clear (TupleIdList_new 100)) (take (unat n) out') = Some l' \<and>
    l' = TupleIdList_new 100) \<and>
   (\<exists>n out' l'. ToSelectionVector llvm_reference True (\<lambda>c n. False) (TupleIdList_new 20)
      (replicate kDefaultVectorSize 0) = Some (n, out') \<and>
    unat n = card (tid_set (TupleIdList_new 20)) \<and> sorted (take (unat n) out') \<and>
    BuildFromSelectionVector (Clear (TupleIdList_new 20)) (take (unat n) out') = Some l' \<and>
    l' = TupleIdList_new 20)"
  by (intro conjI selection_vector_roundtrip convertible_examples)
    (simp_all add: tid_wf_new llvm_reference_ok kDefaultVectorSize_def)

text \<open>
  C18. The initialiser-list assignment throws \<^verbatim>\<open>std::out_of_range\<close> just when some TID is not below
  the capacity; otherwise the list holds exactly the given TIDs, whatever it held before.
\<close>

theorem TupleIdList_assign_correct:
  assumes "tid_wf l"
  shows "if \<exists>t \<in> set tids. tid_cap l \<le> unat t
    then TupleIdList_assign l tids = Some (Inl (OutOfRange ''Not all TIDs can be added to this list''))
    else \<exists>l'. TupleIdList_assign l tids = Some (Inr l') \<and> tid_wf l' \<and>
      tid_cap l' = tid_cap l \<and> tid_set l' = unat ` set tids"
proof (cases "\<exists>t \<in> set tids. tid_cap l \<le> unat t")
  case True
  then have "\<not> list_all (\<lambda>tid. tid < GetCapacity l) tids"
    using GetCapacity_result [OF assms] by (auto simp: list_all_iff word_less_nat_alt not_less)
  then show ?thesis using True by (simp add: TupleIdList_assign_def)
next
  case False
  then have all: "list_all (\<lambda>tid. tid < GetCapacity l) tids"
    using GetCapacity_result [OF assms] by (auto simp: list_all_iff word_less_nat_alt not_le)
  have "\<exists>l'. fold_opt (\<lambda>p b. Add b p) (map unat tids) (Clear l) = Some l' \<and> tid_wf l' \<and>
      tid_cap l' = tid_cap (Clear l) \<and> tid_set l' = tid_set (Clear l) \<union> set (map unat tids)"
    using False Clear_result(1) [OF assms] by (intro tids.add_list) (auto simp: Clear_result(3) not_le)
  then show ?thesis using False all by (auto simp: TupleIdList_assign_def fold_opt_map Clear_result(2,3))
qed

theorem TupleIdList_assign_correct_witness:
  "TupleIdList_assign (TupleIdList_new 100) [7, 100] =
     Some (Inl (OutOfRange ''Not all TIDs can be added to this list''))"
  using TupleIdList_assign_correct [of "TupleIdList_new 100" "[7, 100]"] by (simp add: tid_wf_new)

text \<open>
  C11. Both iterators end and enumerate the list in ascending order: the loop from \<^verbatim>\<open>begin()\<close> to
  \<^verbatim>\<open>end()\<close> over the bit vector, wherever the list lies, and the loop over a
  \<^verbatim>\<open>TupleIdListIterator\<close>; \<^verbatim>\<open>operator[]\<close> returns the element at the given index, and \<^verbatim>\<open>ForEach\<close> calls
  its callback in that order. The capacity is at most \<^verbatim>\<open>kDefaultVectorSize\<close> (2048), the size
  of the array in a \<^verbatim>\<open>TupleIdListIterator\<close>. The claim holds for every such list in a build without
  AVX-512; in a build with AVX-512 (\<open>avx512\<close>), where that iterator inherits the defect of the
  dense conversion, it is limited to the \<open>convertible\<close> lists: those the density heuristic sends to
  the sparse loop, and those whose TIDs are all below 32.
\<close>

theorem TupleIdList_iteration:
  assumes "tid_wf l" and "llvm_ok L" and "tid_cap l \<le> kDefaultVectorSize"
    and "length garbage = kDefaultVectorSize" and "convertible avx512 sparse l"
  shows "\<exists>it. iter_loop L (iter_begin L a l) (iter_end a l) =
      Some (map of_nat (sorted_list_of_set (tid_set l))) \<and>
    Iterator_new L avx512 sparse garbage l = Some it \<and>
    Iterator_loop it = Some (map of_nat (sorted_list_of_set (tid_set l))) \<and>
    (\<forall>i < card (tid_set l). TupleIdList_index L l i = Some (sorted_list_of_set (tid_set l) ! i)) \<and>
    ForEach L l f s = Some (fold f (sorted_list_of_set (tid_set l)) s)"
proof -
  let ?b = "bit_vector l"
  note ctz = llvm_okD(1) [OF assms(2)] and pop = llvm_okD(2) [OF assms(2)]
  have wf: "bv_wf ?b" "num_bits ?b \<le> kInvalidPos" using assms(1) by (simp_all add: tid_defs)
  have bound: "\<forall>q \<in> bv_set ?b. q < kInvalidPos" using bv_wf_bound [OF wf(1)] wf(2) by force
  then have "walk (FindNext L ?b) (FindFirst L ?b) = Some (sorted_list_of_set (tid_set l))"
    using bits_cursor.walk_all [of "(L, ?b)"] wf ctz by (simp add: tid_set_def)
  moreover have "FindFirst L ?b \<le> kInvalidPos"
    using FindFirst_result [OF ctz, of ?b] next_from_le [OF bound, of 0] by simp
  ultimately have c1: "iter_loop L (iter_begin L a l) (iter_end a l) =
      Some (map of_nat (sorted_list_of_set (tid_set l)))"
    using iter_loop_walk [OF _ wf(1) ctz wf(2)] by (simp add: iter_begin_def iter_end_def)
  obtain n out' where r: "ToSelectionVector L avx512 sparse l garbage = Some (n, out')"
    "unat n = card (tid_set l)" "unat n \<le> kDefaultVectorSize" "length (take (unat n) out') = unat n"
    "take (unat n) out' = map of_nat (sorted_list_of_set (tid_set l))"
    using ToSelectionVector_result [OF assms] by blast
  have n16: "unat (ucast n :: u16) = unat n"
    using r(3) by (simp add: unsigned_ucast_eq take_bit_nat_eq_self kDefaultVectorSize_def)
  let ?it = "\<lparr>tid_list = l, sel_vector = out', sel_size = ucast n, curr_idx = 0\<rparr>"
  have c2: "Iterator_new L avx512 sparse garbage l = Some ?it"
    using r(1) assms(3) GetCapacity_result [OF assms(1)]
    by (simp add: Iterator_new_def Iterator_Reset_def checked)
  have "unat n \<le> length out'" using r(4) unfolding length_take by linarith
  then have c3: "Iterator_loop ?it = Some (map of_nat (sorted_list_of_set (tid_set l)))"
    using Iterator_loop_result [of ?it] r(4,5) n16 by simp
  have "card (tid_set l) < 2 ^ 32" using r(2,3) by (simp add: kDefaultVectorSize_def)
  then have c4: "TupleIdList_index L l i = Some (sorted_list_of_set (tid_set l) ! i)" if "i < card (tid_set l)" for i
    using that BitVector_NthOne_result [OF wf(1) ctz pop, of i] BitVector_CountOnes_result [OF pop, of ?b]
    by (simp add: TupleIdList_index_def GetTupleCount_def checked tid_set_def unat_of_nat_32)
  show ?thesis
    using c4 by (intro exI [of _ ?it] conjI c1 c2 c3 ForEach_result [OF assms(1,2)]) simp
qed

theorem TupleIdList_iteration_witness:
  "(\<exists>it. iter_loop llvm_reference (iter_begin llvm_reference 4096 (TupleIdList_new 100))
       (iter_end 4096 (TupleIdList_new 100)) =
      Some (map of_nat (sorted_list_of_set (tid_set (TupleIdList_new 100)))) \<and>
    Iterator_new llvm_reference False (\<lambda>c n. 8 * c < n) (replicate kDefaultVectorSize 0) (TupleIdList_new 100) = Some it) \<and>
   (\<exists>it. Iterator_new llvm_reference True (\<lambda>c n. False) (replicate kDefaultVectorSize 0) (TupleIdList_new 20) = Some it \<and>
    Iterator_loop it = Some (map of_nat (sorted_list_of_set (tid_set (TupleIdList_new 20)))))"
proof -
  have w: "tid_wf (TupleIdList_new 100)" "tid_cap (TupleIdList_new 100) \<le> kDefaultVectorSize"
    "tid_wf (TupleIdList_new 20)" "tid_cap (TupleIdList_new 20) \<le> kDefaultVectorSize"
    "length (replicate kDefaultVectorSize (0 :: sel_t)) = kDefaultVectorSize"
    "convertible True (\<lambda>c n. False) (TupleIdList_new 20)"
    by (simp_all add: tid_wf_new kDefaultVectorSize_def convertible_examples)
  show ?thesis
    using TupleIdList_iteration [OF w(1) llvm_reference_ok w(2,5) convertible_examples(1),
        of 4096 "\<lambda>c n. 8 * c < n" "\<lambda>_ s. s" "()"]
      TupleIdList_iteration [OF w(3) llvm_reference_ok w(4,5,6), of 4096 "\<lambda>_ s. s" "()"]
    by blast
qed

end
