(* ===== verification/RuntimeTypes.thy ===== *)
theory RuntimeTypes
  imports Complex_Main Prelude "HOL-Library.Signed_Division"
begin

text \<open>
  Dates and timestamps: \<^verbatim>\<open>src/src/sql/runtime_types.cpp\<close> with the classes \<^verbatim>\<open>Date\<close> and
  \<^verbatim>\<open>Timestamp\<close> of \<^verbatim>\<open>src/src/include/sql/runtime_types.h\<close>.

  A value of type \<^verbatim>\<open>int32_t\<close> or \<^verbatim>\<open>int64_t\<close> is an \<open>int\<close>; unsigned arithmetic is done on words,
  and a conversion between the two is \<open>word_of_int\<close> or \<open>sint\<close>. Signed division is \<open>sdiv\<close>, which
  truncates towards zero as C++ does. An operation whose signed arithmetic leaves the 64-bit range
  has no defined result and is \<open>None\<close>. The exceptions are values of \<open>conv_error\<close>; their texts are
  put together by the fmt library and are represented by the values that are formatted.
\<close>

section \<open>Constants\<close>

datatype DateOrderFormat = YMD | DMY | MDY

datatype DateTimeFormat = ISO | SQL | Postgres

definition kDateOrder :: DateOrderFormat where
  "kDateOrder = MDY"

definition kMaxDateTimeLen :: nat where
  "kMaxDateTimeLen = 128"

definition kMonthsPerYear :: int where
  "kMonthsPerYear = 12"

definition kDaysPerMonth :: "int list list" where
  "kDaysPerMonth = [[31, 28, 31, 30, 31, 30, 31, 31, 30, 31, 30, 31],
                    [31, 29, 31, 30, 31, 30, 31, 31, 30, 31, 30, 31]]"

definition kMonthNames :: "string list" where
  "kMonthNames = [''January'', ''February'', ''March'', ''April'', ''May'', ''June'', ''July'',
                  ''August'', ''September'', ''October'', ''November'', ''December'']"

definition kDayNames :: "string list" where
  "kDayNames = [''Sun'', ''Mon'', ''Tue'', ''Wed'', ''Thu'', ''Fri'', ''Sat'']"

definition kHoursPerDay :: int where
  "kHoursPerDay = 24"

definition kMinutesPerHour :: int where
  "kMinutesPerHour = 60"

definition kSecondsPerMinute :: int where
  "kSecondsPerMinute = 60"

definition kMaxTimestampPrecision :: nat where
  "kMaxTimestampPrecision = 6"

definition kMicroSecondsPerSecond :: int where
  "kMicroSecondsPerSecond = 1000 * 1000"

definition kMicroSecondsPerMinute :: int where
  "kMicroSecondsPerMinute = 60 * kMicroSecondsPerSecond"

definition kMicroSecondsPerHour :: int where
  "kMicroSecondsPerHour = 60 * kMicroSecondsPerMinute"

definition kMicroSecondsPerDay :: int where
  "kMicroSecondsPerDay = 24 * kMicroSecondsPerHour"

definition kJulianMinYear :: int where
  "kJulianMinYear = - 4713"

definition kJulianMinMonth :: int where
  "kJulianMinMonth = 11"

definition kJulianMaxYear :: int where
  "kJulianMaxYear = 5874898"

definition kJulianMaxMonth :: int where
  "kJulianMaxMonth = 6"

section \<open>The calendar\<close>

definition IsLeapYear :: "int \<Rightarrow> bool" where
  "IsLeapYear year \<longleftrightarrow> year smod 4 = 0 \<and> (year smod 100 \<noteq> 0 \<or> year smod 400 = 0)"

definition IsValidJulianDate :: "int \<Rightarrow> int \<Rightarrow> int \<Rightarrow> bool" where
  "IsValidJulianDate y m d \<longleftrightarrow>
     (y > kJulianMinYear \<or> (y = kJulianMinYear \<and> m \<ge> kJulianMinMonth)) \<and>
     (y < kJulianMaxYear \<or> (y = kJulianMaxYear \<and> m < kJulianMaxMonth))"

definition IsValidCalendarDate :: "int \<Rightarrow> int \<Rightarrow> int \<Rightarrow> bool" where
  "IsValidCalendarDate year month day =
     (if year = 0 then False
      else if month < 1 \<or> month > kMonthsPerYear then False
      else if day < 1 \<or> day > kDaysPerMonth ! of_bool (IsLeapYear year) ! nat (month - 1) then False
      else True)"

definition BuildJulianDate :: "u32 \<Rightarrow> u32 \<Rightarrow> u32 \<Rightarrow> u32" where
  "BuildJulianDate year month day =
     (let (month, year) = (if month > 2 then (month + 1, year + 4800) else (month + 13, year + 4799));
          century = year div 100;
          julian = year * 365 - 32167;
          julian = julian + (year div 4 - century + century div 4);
          julian = julian + (7834 * month div 256 + day)
      in julian)"

definition SplitJulianDate :: "int \<Rightarrow> int \<times> int \<times> int" where
  "SplitJulianDate jd =
     (let julian = (word_of_int jd :: u32);
          julian = julian + 32044;
          quad = julian div 146097;
          extra = (julian - quad * 146097) * 4 + 3;
          julian = julian + (60 + quad * 3 + extra div 146097);
          quad = julian div 1461;
          julian = julian - quad * 1461;
          y = julian * 4 div 1461;
          julian = (if sint y \<noteq> 0 then (julian + 305) mod 365 else (julian + 306) mod 366) + 123;
          y = y + quad * 4;
          year = sint y - 4800;
          quad = julian * 2141 div 65536;
          day = sint (julian - 7834 * quad div 256);
          month = uint (quad + 10) smod kMonthsPerYear + 1
      in (year, month, day))"

definition JulianDateToDay :: "int \<Rightarrow> int" where
  "JulianDateToDay date =
     (let date = date + 1; date = date smod 7 in if date < 0 then date + 7 else date)"

definition StripTime :: "int \<Rightarrow> int \<times> int" where
  "StripTime jd = (let date = jd sdiv kMicroSecondsPerDay in (date, jd - date * kMicroSecondsPerDay))"

definition BuildTime :: "int \<Rightarrow> int \<Rightarrow> int \<Rightarrow> int" where
  "BuildTime hour minute sec =
     (((hour * kMinutesPerHour + minute) * kSecondsPerMinute) * kMicroSecondsPerSecond) +
     sec * kMicroSecondsPerSecond"

definition SplitTime :: "int \<Rightarrow> int \<times> int \<times> int \<times> int" where
  "SplitTime jd =
     (let time = jd;
          hour = time sdiv kMicroSecondsPerHour;
          time = time - hour * kMicroSecondsPerHour;
          minute = time sdiv kMicroSecondsPerMinute;
          time = time - minute * kMicroSecondsPerMinute;
          sec = time sdiv kMicroSecondsPerSecond;
          fsec = time - sec * kMicroSecondsPerSecond
      in (hour, minute, sec, fsec))"

section \<open>Writing to a character buffer\<close>

text \<open>
  The encoders write through a \<^verbatim>\<open>char *\<close> into a local array. The state is the array and the
  position of the pointer; a write beyond the end of the array is \<open>None\<close>.
\<close>

type_synonym cursor = "char list \<times> nat"

definition put_chars :: "cursor \<Rightarrow> string \<Rightarrow> cursor option" where
  "put_chars c s =
     (let (buf, pos) = c
      in if pos + length s \<le> length buf
         then Some (take pos buf @ s @ drop (pos + length s) buf, pos + length s) else None)"

definition kDigitTable :: string where
  "kDigitTable =
     ''00010203040506070809'' @ ''10111213141516171819'' @ ''20212223242526272829'' @
     ''30313233343536373839'' @ ''40414243444546474849'' @ ''50515253545556575859'' @
     ''60616263646566676869'' @ ''70717273747576777879'' @ ''80818283848586878889'' @
     ''90919293949596979899''"

definition NumberToStringWithZeroPad :: "cursor \<Rightarrow> u32 \<Rightarrow> nat \<Rightarrow> cursor option" where
  "NumberToStringWithZeroPad str val min_width =
     (if val < 100 \<and> min_width = 2 then put_chars str (take 2 (drop (unat val * 2) kDigitTable))
      else do {
        (buf, ptr) \<leftarrow> put_chars str (to_string (unat val));
        let len = ptr - snd str;
        if len \<ge> min_width then Some (buf, ptr)
        else put_chars (buf, snd str)
               (replicate (min_width - len) (CHR ''0'') @ take len (drop (snd str) buf)) })"

definition year_field :: "int \<Rightarrow> u32" where
  "year_field year = word_of_int (if year > 0 then year else - (year - 1))"

definition put_era :: "cursor \<Rightarrow> int \<Rightarrow> char list option" where
  "put_era str year = do {
     str \<leftarrow> if year \<le> 0 then put_chars str '' BC'' else Some str;
     (buf, pos) \<leftarrow> put_chars str [CHR 0x00];
     Some buf }"

definition EncodeDateOnly ::
  "int \<Rightarrow> int \<Rightarrow> int \<Rightarrow> DateTimeFormat \<Rightarrow> cursor \<Rightarrow> char list option" where
  "EncodeDateOnly year month day style str = do {
     tpl_assert (month \<ge> 1 \<and> month \<le> kMonthsPerYear);
     str \<leftarrow> (case style of
       ISO \<Rightarrow> do {
         str \<leftarrow> NumberToStringWithZeroPad str (year_field year) 4;
         str \<leftarrow> put_chars str ''-'';
         str \<leftarrow> NumberToStringWithZeroPad str (word_of_int month) 2;
         str \<leftarrow> put_chars str ''-'';
         NumberToStringWithZeroPad str (word_of_int day) 2 }
     | _ \<Rightarrow> do {
         let sep = (if style = SQL then ''/'' else ''-'');
         str \<leftarrow> (if kDateOrder = DMY then do {
             str \<leftarrow> NumberToStringWithZeroPad str (word_of_int day) 2;
             str \<leftarrow> put_chars str sep;
             NumberToStringWithZeroPad str (word_of_int month) 2 }
           else do {
             str \<leftarrow> NumberToStringWithZeroPad str (word_of_int month) 2;
             str \<leftarrow> put_chars str sep;
             NumberToStringWithZeroPad str (word_of_int day) 2 });
         str \<leftarrow> put_chars str sep;
         NumberToStringWithZeroPad str (year_field year) 4 });
     put_era str year }"

text \<open>
  The loop over the fractional digits, from the last to the first. \<open>base\<close> is the position of
  \<^verbatim>\<open>str\<close> after the decimal point: digit number \<open>precision\<close> is stored at \<^verbatim>\<open>str[precision]\<close>.
\<close>

fun fraction_loop :: "char list \<Rightarrow> nat \<Rightarrow> nat \<Rightarrow> nat \<Rightarrow> bool \<Rightarrow> nat
    \<Rightarrow> (char list \<times> nat \<times> nat) option" where
  "fraction_loop buf base 0 val seen_non_zero last_pos = Some (buf, val, last_pos)"
| "fraction_loop buf base (Suc precision) val seen_non_zero last_pos = do {
     let r = val mod 10;
     let val = val div 10;
     let seen_non_zero = (seen_non_zero \<or> r \<noteq> 0);
     if seen_non_zero
     then do {
       buf \<leftarrow> vec_put buf (base + Suc precision) (digit_char r);
       fraction_loop buf base precision val seen_non_zero last_pos }
     else fraction_loop buf base precision val seen_non_zero (base + Suc precision) }"

definition AppendTimestampSeconds_prec :: "cursor \<Rightarrow> int \<Rightarrow> int \<Rightarrow> nat \<Rightarrow> cursor option" where
  "AppendTimestampSeconds_prec str sec fsec precision = do {
     str \<leftarrow> NumberToStringWithZeroPad str (word_of_int \<bar>sec\<bar>) 2;
     if fsec \<noteq> 0
     then do {
       (buf, base) \<leftarrow> put_chars str ''.'';
       (buf, val, last_pos) \<leftarrow> fraction_loop buf base precision (nat \<bar>fsec\<bar>) False (base + precision);
       if val \<noteq> 0 then put_chars (buf, base) (to_string (nat \<bar>fsec\<bar>))
       else Some (buf, last_pos) }
     else Some str }"

definition AppendTimestampSeconds :: "cursor \<Rightarrow> int \<Rightarrow> int \<Rightarrow> cursor option" where
  "AppendTimestampSeconds str sec fsec =
     AppendTimestampSeconds_prec str sec fsec kMaxTimestampPrecision"

definition put_time :: "cursor \<Rightarrow> int \<Rightarrow> int \<Rightarrow> int \<Rightarrow> int \<Rightarrow> cursor option" where
  "put_time str hour minute sec fsec = do {
     str \<leftarrow> put_chars str '' '';
     str \<leftarrow> NumberToStringWithZeroPad str (word_of_int hour) 2;
     str \<leftarrow> put_chars str '':'';
     str \<leftarrow> NumberToStringWithZeroPad str (word_of_int minute) 2;
     str \<leftarrow> put_chars str '':'';
     AppendTimestampSeconds str sec fsec }"

definition EncodeDateTime :: "int \<Rightarrow> int \<Rightarrow> int \<Rightarrow> int \<Rightarrow> int \<Rightarrow> int \<Rightarrow> int \<Rightarrow> DateTimeFormat \<Rightarrow> cursor
    \<Rightarrow> char list option" where
  "EncodeDateTime year month day hour minute sec fsec style str = do {
     tpl_assert (month \<ge> 1 \<and> month \<le> kMonthsPerYear);
     str \<leftarrow> (case style of
       ISO \<Rightarrow> do {
         str \<leftarrow> NumberToStringWithZeroPad str (year_field year) 4;
         str \<leftarrow> put_chars str ''-'';
         str \<leftarrow> NumberToStringWithZeroPad str (word_of_int month) 2;
         str \<leftarrow> put_chars str ''-'';
         str \<leftarrow> NumberToStringWithZeroPad str (word_of_int day) 2;
         put_time str hour minute sec fsec }
     | SQL \<Rightarrow> do {
         str \<leftarrow> (if kDateOrder = DMY then do {
             str \<leftarrow> NumberToStringWithZeroPad str (word_of_int day) 2;
             str \<leftarrow> put_chars str ''/'';
             NumberToStringWithZeroPad str (word_of_int month) 2 }
           else do {
             str \<leftarrow> NumberToStringWithZeroPad str (word_of_int month) 2;
             str \<leftarrow> put_chars str ''/'';
             NumberToStringWithZeroPad str (word_of_int day) 2 });
         str \<leftarrow> put_chars str ''/'';
         str \<leftarrow> NumberToStringWithZeroPad str (year_field year) 4;
         put_time str hour minute sec fsec }
     | Postgres \<Rightarrow> do {
         let julian_date = sint (BuildJulianDate (word_of_int year) (word_of_int month) (word_of_int day));
         let day_of_week = JulianDateToDay julian_date;
         day_name \<leftarrow> vec_at kDayNames (nat day_of_week);
         month_name \<leftarrow> vec_at kMonthNames (nat (month - 1));
         str \<leftarrow> put_chars str (take 3 day_name);
         str \<leftarrow> put_chars str '' '';
         str \<leftarrow> (if kDateOrder = DMY then do {
             str \<leftarrow> NumberToStringWithZeroPad str (word_of_int day) 2;
             str \<leftarrow> put_chars str '' '';
             put_chars str (take 3 month_name) }
           else do {
             str \<leftarrow> put_chars str (take 3 month_name);
             str \<leftarrow> put_chars str '' '';
             NumberToStringWithZeroPad str (word_of_int day) 2 });
         str \<leftarrow> put_time str hour minute sec fsec;
         str \<leftarrow> put_chars str '' '';
         NumberToStringWithZeroPad str (year_field year) 4 });
     put_era str year }"

text \<open>\<^verbatim>\<open>std::string(buf.data())\<close> reads up to the first null character.\<close>

definition c_string :: "char list \<Rightarrow> string" where
  "c_string buf = takeWhile (\<lambda>c. c \<noteq> CHR 0x00) buf"

section \<open>Dates\<close>

datatype conv_error =
    InvalidDateString string
  | InvalidDate int int int
  | DateFieldOutOfRange int int int
  | TimeFieldOutOfRange int int int
  | TimestampOutOfRange int int int int int int
  | NotImplemented string

record Date =
  date_value :: int

text \<open>The local array of the encoders is not initialised; \<open>garbage\<close> is what it happens to hold.\<close>

definition Date_ToString :: "char list \<Rightarrow> Date \<Rightarrow> string option" where
  "Date_ToString garbage date = do {
     tpl_assert (length garbage = kMaxDateTimeLen + 1);
     let (year, month, day) = SplitJulianDate (date_value date);
     buf \<leftarrow> EncodeDateOnly year month day ISO (garbage, 0);
     Some (c_string buf) }"

definition Date_ExtractComponents :: "Date \<Rightarrow> int \<times> int \<times> int" where
  "Date_ExtractComponents date = SplitJulianDate (date_value date)"

definition Date_ExtractYear :: "Date \<Rightarrow> int" where
  "Date_ExtractYear date = (let (year, month, day) = SplitJulianDate (date_value date) in year)"

definition Date_ExtractMonth :: "Date \<Rightarrow> int" where
  "Date_ExtractMonth date = (let (year, month, day) = SplitJulianDate (date_value date) in month)"

definition Date_ExtractDay :: "Date \<Rightarrow> int" where
  "Date_ExtractDay date = (let (year, month, day) = SplitJulianDate (date_value date) in day)"

definition Date_FromYMD :: "int \<Rightarrow> int \<Rightarrow> int \<Rightarrow> conv_error + Date" where
  "Date_FromYMD year month day =
     (if \<not> IsValidCalendarDate year month day then Inl (InvalidDate year month day)
      else if \<not> IsValidJulianDate year month day then Inl (InvalidDate year month day)
      else Inr \<lparr>date_value =
        sint (BuildJulianDate (word_of_int year) (word_of_int month) (word_of_int day))\<rparr>)"

definition is_digit :: "char \<Rightarrow> bool" where
  "is_digit c \<longleftrightarrow> 48 \<le> (of_char c :: nat) \<and> (of_char c :: nat) \<le> 57"

definition is_space :: "char \<Rightarrow> bool" where
  "is_space c \<longleftrightarrow> (of_char c :: nat) = 32 \<or> (9 \<le> (of_char c :: nat) \<and> (of_char c :: nat) \<le> 13)"

definition digit_val :: "char \<Rightarrow> u32" where
  "digit_val c = of_nat (of_char c) - 48"

text \<open>The year and the month: digits up to a dash; the end of the input is an error.\<close>

fun parse_until_dash :: "u32 \<Rightarrow> string \<Rightarrow> (u32 \<times> string) option" where
  "parse_until_dash acc [] = None"
| "parse_until_dash acc (c # cs) =
     (if is_digit c then parse_until_dash (acc * 10 + digit_val c) cs
      else if c = CHR ''-'' then Some (acc, cs)
      else None)"

text \<open>The day: digits up to the end of the input.\<close>

fun parse_to_end :: "u32 \<Rightarrow> string \<Rightarrow> u32 option" where
  "parse_to_end acc [] = Some acc"
| "parse_to_end acc (c # cs) =
     (if is_digit c then parse_to_end (acc * 10 + digit_val c) cs else None)"

definition trim_spaces :: "string \<Rightarrow> string" where
  "trim_spaces s = rev (dropWhile is_space (rev (dropWhile is_space s)))"

definition Date_FromString :: "string \<Rightarrow> conv_error + Date" where
  "Date_FromString str =
     (case parse_until_dash 0 (trim_spaces str) of
        None \<Rightarrow> Inl (InvalidDateString str)
      | Some (year, rest) \<Rightarrow>
          (case parse_until_dash 0 rest of
             None \<Rightarrow> Inl (InvalidDateString str)
           | Some (month, rest) \<Rightarrow>
               (case parse_to_end 0 rest of
                  None \<Rightarrow> Inl (InvalidDateString str)
                | Some day \<Rightarrow> Date_FromYMD (sint year) (sint month) (sint day))))"

definition Date_eq :: "Date \<Rightarrow> Date \<Rightarrow> bool" where
  "Date_eq a b \<longleftrightarrow> date_value a = date_value b"

definition Date_less :: "Date \<Rightarrow> Date \<Rightarrow> bool" where
  "Date_less a b \<longleftrightarrow> date_value a < date_value b"

definition Date_ne :: "Date \<Rightarrow> Date \<Rightarrow> bool" where
  "Date_ne a b \<longleftrightarrow> date_value a \<noteq> date_value b"

definition Date_leq :: "Date \<Rightarrow> Date \<Rightarrow> bool" where
  "Date_leq a b \<longleftrightarrow> date_value a \<le> date_value b"

definition Date_greater :: "Date \<Rightarrow> Date \<Rightarrow> bool" where
  "Date_greater a b \<longleftrightarrow> date_value a > date_value b"

definition Date_geq :: "Date \<Rightarrow> Date \<Rightarrow> bool" where
  "Date_geq a b \<longleftrightarrow> date_value a \<ge> date_value b"

section \<open>Timestamps\<close>

record Timestamp =
  ts_value :: u64

definition i64_ok :: "int \<Rightarrow> bool" where
  "i64_ok x \<longleftrightarrow> - (2 ^ 63) \<le> x \<and> x < 2 ^ 63"

definition ts_date :: "Timestamp \<Rightarrow> int \<times> int \<times> int" where
  "ts_date ts = (let (date, time) = StripTime (sint (ts_value ts))
     in SplitJulianDate (sint (word_of_int date :: u32)))"

definition ts_time :: "Timestamp \<Rightarrow> int \<times> int \<times> int \<times> int" where
  "ts_time ts = (let (date, time) = StripTime (sint (ts_value ts)) in SplitTime time)"

definition Timestamp_ExtractYear :: "Timestamp \<Rightarrow> int" where
  "Timestamp_ExtractYear ts = (let (year, month, day) = ts_date ts in year)"

definition Timestamp_ExtractMonth :: "Timestamp \<Rightarrow> int" where
  "Timestamp_ExtractMonth ts = (let (year, month, day) = ts_date ts in month)"

definition Timestamp_ExtractDay :: "Timestamp \<Rightarrow> int" where
  "Timestamp_ExtractDay ts = (let (year, month, day) = ts_date ts in day)"

definition Timestamp_ExtractHour :: "Timestamp \<Rightarrow> int" where
  "Timestamp_ExtractHour ts = (let (hour, minute, sec, fsec) = ts_time ts in hour)"

definition Timestamp_ExtractMinute :: "Timestamp \<Rightarrow> int" where
  "Timestamp_ExtractMinute ts = (let (hour, minute, sec, fsec) = ts_time ts in minute)"

definition Timestamp_ExtractSecond :: "Timestamp \<Rightarrow> int" where
  "Timestamp_ExtractSecond ts = (let (hour, minute, sec, fsec) = ts_time ts in sec)"

text \<open>
  The next two compute in \<^verbatim>\<open>double\<close> and convert the result to \<^verbatim>\<open>int32_t\<close>, which truncates; the
  arithmetic is done here on rational numbers.
\<close>

definition trunc_rat :: "rat \<Rightarrow> int" where
  "trunc_rat x = (if x < 0 then \<lceil>x\<rceil> else \<lfloor>x\<rfloor>)"

definition Timestamp_ExtractMillis :: "Timestamp \<Rightarrow> int" where
  "Timestamp_ExtractMillis ts = (let (hour, minute, sec, fsec) = ts_time ts
     in trunc_rat (of_int sec * 1000 + of_int fsec / 1000))"

definition Timestamp_ExtractMicros :: "Timestamp \<Rightarrow> int" where
  "Timestamp_ExtractMicros ts = (let (hour, minute, sec, fsec) = ts_time ts
     in trunc_rat (of_int sec + of_int fsec / 1000000))"

definition Timestamp_ExtractDayOfWeek :: "Timestamp \<Rightarrow> int" where
  "Timestamp_ExtractDayOfWeek ts =
     (let (date, time) = StripTime (sint (ts_value ts));
          date = date + 1;
          date = date smod 7
      in if date < 0 then date + 7 else date)"

definition Timestamp_ExtractDayOfYear :: "Timestamp \<Rightarrow> int" where
  "Timestamp_ExtractDayOfYear ts =
     (let (year, month, day) = ts_date ts
      in sint (BuildJulianDate (word_of_int year) (word_of_int month) (word_of_int day) -
           BuildJulianDate (word_of_int year) 1 1 + 1))"

definition Timestamp_FromYMDHMS ::
  "int \<Rightarrow> int \<Rightarrow> int \<Rightarrow> int \<Rightarrow> int \<Rightarrow> int \<Rightarrow> (conv_error + Timestamp) option" where
  "Timestamp_FromYMDHMS year month day hour minute sec =
     (if \<not> IsValidCalendarDate year month day \<or> \<not> IsValidJulianDate year month day
      then Some (Inl (DateFieldOutOfRange year month day))
      else if hour < 0 \<or> minute < 0 \<or> minute > kMinutesPerHour - 1 \<or> sec < 0 \<or>
        sec > kSecondsPerMinute \<or> hour > kHoursPerDay \<or>
        (hour = kHoursPerDay \<and> (minute > 0 \<or> sec > 0))
      then Some (Inl (TimeFieldOutOfRange hour minute sec))
      else do {
        let date = uint (BuildJulianDate (word_of_int year) (word_of_int month) (word_of_int day));
        let time = BuildTime hour minute sec;
        tpl_assert (i64_ok (date * kMicroSecondsPerDay));
        let result = date * kMicroSecondsPerDay + time;
        tpl_assert (i64_ok result);
        if (result - time) sdiv kMicroSecondsPerDay \<noteq> date
        then Some (Inl (TimestampOutOfRange year month day hour minute sec))
        else Some (Inr \<lparr>ts_value = word_of_int result\<rparr>) })"

definition Timestamp_ToString :: "char list \<Rightarrow> Timestamp \<Rightarrow> string option" where
  "Timestamp_ToString garbage ts = do {
     tpl_assert (length garbage = kMaxDateTimeLen + 1);
     let (year, month, day) = ts_date ts;
     let (hour, minute, sec, fsec) = ts_time ts;
     buf \<leftarrow> EncodeDateTime year month day hour minute sec fsec ISO (garbage, 0);
     Some (c_string buf) }"

definition Timestamp_FromString :: "string \<Rightarrow> conv_error + Timestamp" where
  "Timestamp_FromString str =
     Inl (NotImplemented ''Converting strings to timestamps not implemented.'')"

definition Timestamp_eq :: "Timestamp \<Rightarrow> Timestamp \<Rightarrow> bool" where
  "Timestamp_eq a b \<longleftrightarrow> ts_value a = ts_value b"

definition Timestamp_less :: "Timestamp \<Rightarrow> Timestamp \<Rightarrow> bool" where
  "Timestamp_less a b \<longleftrightarrow> ts_value a < ts_value b"

definition Timestamp_ne :: "Timestamp \<Rightarrow> Timestamp \<Rightarrow> bool" where
  "Timestamp_ne a b \<longleftrightarrow> ts_value a \<noteq> ts_value b"

definition Timestamp_leq :: "Timestamp \<Rightarrow> Timestamp \<Rightarrow> bool" where
  "Timestamp_leq a b \<longleftrightarrow> ts_value a \<le> ts_value b"

definition Timestamp_greater :: "Timestamp \<Rightarrow> Timestamp \<Rightarrow> bool" where
  "Timestamp_greater a b \<longleftrightarrow> ts_value a > ts_value b"

definition Timestamp_geq :: "Timestamp \<Rightarrow> Timestamp \<Rightarrow> bool" where
  "Timestamp_geq a b \<longleftrightarrow> ts_value a \<ge> ts_value b"

definition ConvertToTimestamp :: "Date \<Rightarrow> Timestamp option" where
  "ConvertToTimestamp date = do {
     tpl_assert (i64_ok (date_value date * kMicroSecondsPerDay));
     Some \<lparr>ts_value = word_of_int (date_value date * kMicroSecondsPerDay)\<rparr> }"

definition ConvertToDate :: "Timestamp \<Rightarrow> Date" where
  "ConvertToDate ts =
     \<lparr>date_value = sint (ucast (ts_value ts div word_of_int kMicroSecondsPerDay) :: u32)\<rparr>"

section \<open>Julian days\<close>

text \<open>
  The conversions count years from March: the computational year \<open>Y\<close> of a date has its January
  and February at its end, and \<open>M\<close> runs from 4 (March) to 15 (February). \<open>days_before Y\<close> is the
  number of days before the first day of \<open>Y\<close>, \<open>month_start M\<close> the number of days of the year
  before the month, plus 122.
\<close>

definition days_before :: "nat \<Rightarrow> nat" where
  "days_before Y = 365 * Y + Y div 4 - Y div 100 + Y div 400"

definition month_start :: "nat \<Rightarrow> nat" where
  "month_start M = 7834 * M div 256"

lemma word_div_of_nat: "a < 2 ^ 32 \<Longrightarrow> b < 2 ^ 32 \<Longrightarrow> (of_nat a :: u32) div of_nat b = of_nat (a div b)"
  by (simp add: word_unat_eq_iff unat_div_distrib unsigned_of_nat take_bit_nat_eq_self
      div_le_dividend le_less_trans [of "a div b" a])

lemma word_mod_of_nat: "a < 2 ^ 32 \<Longrightarrow> b < 2 ^ 32 \<Longrightarrow> (of_nat a :: u32) mod of_nat b = of_nat (a mod b)"
  by (simp add: word_unat_eq_iff unat_mod_distrib unsigned_of_nat take_bit_nat_eq_self
      le_less_trans [OF mod_less_eq_dividend])

lemma of_nat_minus_div: "of_nat a - of_nat (a div b) * of_nat b = (of_nat (a mod b) :: u32)"
proof -
  have "of_nat a = (of_nat (a div b * b + a mod b) :: u32)" by simp
  then show ?thesis by (simp only: of_nat_add of_nat_mult) (simp add: algebra_simps)
qed

lemma sint_of_nat: "a < 2 ^ 31 \<Longrightarrow> sint (of_nat a :: u32) = int a"
  by (simp add: signed_of_nat signed_take_bit_int_eq_self)

lemma sint_word_of_int_32: "- (2 ^ 31) \<le> x \<Longrightarrow> x < 2 ^ 31 \<Longrightarrow> sint (word_of_int x :: u32) = x"
  by (simp add: signed_of_int signed_take_bit_int_eq_self)

lemma uint_of_nat_32: "a < 2 ^ 32 \<Longrightarrow> uint (of_nat a :: u32) = int a"
  by (simp add: unsigned_of_nat take_bit_nat_eq_self)

lemma BuildJulianDate_nat:
  assumes "Y < 2 ^ 24" and "M < 2 ^ 8"
  shows "(let year = of_nat Y :: u32; century = year div 100; julian = year * 365 - 32167;
      julian = julian + (year div 4 - century + century div 4)
     in julian + (7834 * of_nat M div 256 + of_nat d)) =
    word_of_int (int (days_before Y) + int (month_start M) + int d - 32167)"
proof -
  have c: "(of_nat Y :: u32) div 100 = of_nat (Y div 100)" "(of_nat Y :: u32) div 4 = of_nat (Y div 4)"
    using assms word_div_of_nat [of Y 100] word_div_of_nat [of Y 4] by simp_all
  have c4: "(of_nat (Y div 100) :: u32) div 4 = of_nat (Y div 400)"
    using assms word_div_of_nat [of "Y div 100" 4] by (simp add: div_mult2_eq [symmetric])
  have m: "(7834 * of_nat M :: u32) div 256 = of_nat (month_start M)"
    using assms word_div_of_nat [of "7834 * M" 256] by (simp add: month_start_def)
  have "Y div 100 \<le> 365 * Y + Y div 4" using div_le_dividend [of Y 100] by linarith
  then have "int (days_before Y) = 365 * int Y + int (Y div 4) - int (Y div 100) + int (Y div 400)"
    by (simp add: days_before_def of_nat_diff)
  then have "word_of_int (int (days_before Y) + int (month_start M) + int d - 32167) =
     365 * (of_nat Y :: u32) + of_nat (Y div 4) - of_nat (Y div 100) + of_nat (Y div 400) + of_nat (month_start M)
       + of_nat d - 32167"
    by simp
  then show ?thesis unfolding Let_def c c4 m by (simp add: algebra_simps)
qed

lemma SplitJulianDate_nat:
  assumes "J < 2 ^ 31 + 32044"
  defines "J2 \<equiv> J + 60 + 3 * (J div 146097) + (4 * (J mod 146097) + 3) div 146097"
  defines "E \<equiv> J2 mod 1461"
  defines "y \<equiv> E * 4 div 1461"
  defines "D3 \<equiv> (if y \<noteq> 0 then (E + 305) mod 365 else (E + 306) mod 366) + 123"
  shows "SplitJulianDate (int J - 32044) =
    (int (y + 4 * (J2 div 1461)) - 4800,
     int ((D3 * 2141 div 65536 + 10) mod 12) + 1,
     int D3 - int (month_start (D3 * 2141 div 65536)))"
proof -
  have b: "J div 146097 < 14700" "J mod 146097 < 146097" using assms(1) by (auto simp: div_less_iff_less_mult)
  then have "4 * (J mod 146097) + 3 < 584391" by simp
  then have b2: "(4 * (J mod 146097) + 3) div 146097 < 4" by (simp add: div_less_iff_less_mult)
  have J2: "J2 < 2 ^ 32" using assms(1) b b2 by (simp add: J2_def)
  have E: "E < 1461" by (simp add: E_def)
  then have y: "y < 4" by (simp add: y_def div_less_iff_less_mult)
  have "(E + 305) mod 365 < 366" using mod_less_divisor [of 365 "E + 305"] by linarith
  then have D3: "D3 < 489" unfolding D3_def using mod_less_divisor [of 366 "E + 306"] by simp
  define Q where "Q = D3 * 2141 div 65536"
  have Q: "Q < 16" using D3 by (simp add: Q_def div_less_iff_less_mult)
  have w1: "(word_of_int (int J - 32044) :: u32) + 32044 = of_nat J" by simp
  have w2: "(of_nat J :: u32) div 146097 = of_nat (J div 146097)"
    using assms(1) word_div_of_nat [of J 146097] by simp
  have w3: "(of_nat J - of_nat (J div 146097) * 146097) * 4 + 3 = (of_nat (4 * (J mod 146097) + 3) :: u32)"
    using of_nat_minus_div [of J 146097] by (simp add: algebra_simps)
  have w4: "(of_nat (4 * (J mod 146097) + 3) :: u32) div 146097 = of_nat ((4 * (J mod 146097) + 3) div 146097)"
    using b word_div_of_nat [of "4 * (J mod 146097) + 3" 146097] by simp
  have w5: "of_nat J + (60 + of_nat (J div 146097) * 3 + of_nat ((4 * (J mod 146097) + 3) div 146097)) = (of_nat J2 :: u32)"
    by (simp add: J2_def algebra_simps)
  have w6: "(of_nat J2 :: u32) div 1461 = of_nat (J2 div 1461)" using J2 word_div_of_nat [of J2 1461] by simp
  have w7: "of_nat J2 - of_nat (J2 div 1461) * 1461 = (of_nat E :: u32)"
    using of_nat_minus_div [of J2 1461] by (simp add: E_def)
  have w8: "(of_nat E :: u32) * 4 div 1461 = of_nat y"
    using E word_div_of_nat [of "E * 4" 1461] by (simp add: y_def)
  have w9: "sint (of_nat y :: u32) \<noteq> 0 \<longleftrightarrow> y \<noteq> 0" using y by (simp add: sint_of_nat)
  have w10: "((of_nat E :: u32) + 305) mod 365 = of_nat ((E + 305) mod 365)"
    "((of_nat E :: u32) + 306) mod 366 = of_nat ((E + 306) mod 366)"
    using E word_mod_of_nat [of "E + 305" 365] word_mod_of_nat [of "E + 306" 366] by simp_all
  have w11: "(if sint (of_nat y :: u32) \<noteq> 0 then ((of_nat E :: u32) + 305) mod 365 else (of_nat E + 306) mod 366) + 123 = of_nat D3"
    unfolding w9 w10 D3_def by simp
  have w12: "(of_nat y :: u32) + of_nat (J2 div 1461) * 4 = of_nat (y + 4 * (J2 div 1461))" by simp
  have "J2 div 1461 < 2 ^ 24" using J2 by (simp add: div_less_iff_less_mult)
  then have w13: "sint (of_nat (y + 4 * (J2 div 1461)) :: u32) = int (y + 4 * (J2 div 1461))"
    using y by (intro sint_of_nat) simp
  have w14: "(of_nat D3 :: u32) * 2141 div 65536 = of_nat Q"
    using D3 word_div_of_nat [of "D3 * 2141" 65536] by (simp add: Q_def)
  have w15: "7834 * (of_nat Q :: u32) div 256 = of_nat (month_start Q)"
    using Q word_div_of_nat [of "7834 * Q" 256] by (simp add: month_start_def)
  have qs: "month_start Q \<le> D3"
  proof -
    have "256 * month_start Q \<le> 7834 * Q" unfolding month_start_def by (rule times_div_less_eq_dividend)
    moreover have "65536 * Q \<le> D3 * 2141" unfolding Q_def by (rule times_div_less_eq_dividend)
    ultimately show ?thesis by linarith
  qed
  then have "(of_nat D3 :: u32) - of_nat (month_start Q) = of_nat (D3 - month_start Q)" by (simp add: of_nat_diff)
  moreover have "sint (of_nat (D3 - month_start Q) :: u32) = int (D3 - month_start Q)"
    using D3 by (intro sint_of_nat) simp
  ultimately have w16: "sint ((of_nat D3 :: u32) - of_nat (month_start Q)) = int D3 - int (month_start Q)"
    using qs by (simp add: of_nat_diff)
  have "uint ((of_nat Q :: u32) + 10) = int (Q + 10)" using Q uint_of_nat_32 [of "Q + 10"] by simp
  then have w17: "uint ((of_nat Q :: u32) + 10) smod kMonthsPerYear = int ((Q + 10) mod 12)"
    by (simp add: kMonthsPerYear_def signed_modulo_int_def sgn_if zmod_int)
  show ?thesis
    unfolding SplitJulianDate_def Let_def w1 w2 w3 w4 w5 w6 w7 w8 w11 w12 w13 w14 w15 w16 w17
    by (simp add: Q_def)
qed

lemma days_before_split:
  assumes "r < 400"
  shows "days_before (400 * a + r) = 146097 * a + days_before r"
proof -
  have "(400 * a + r) div 4 = 100 * a + r div 4" "(400 * a + r) div 100 = 4 * a + r div 100"
    "(400 * a + r) div 400 = a" "r div 400 = 0"
    using assms div_mult_self2 [of 4 r "100 * a"] div_mult_self2 [of 100 r "4 * a"] by (simp_all add: algebra_simps)
  moreover have "r div 100 \<le> 365 * r + r div 4" using div_le_dividend [of r 100] by linarith
  ultimately show ?thesis unfolding days_before_def by simp
qed

lemma days_before_century:
  assumes "e < 100" and "c < 4"
  shows "days_before (100 * c + e) = 36524 * c + 365 * e + e div 4"
proof -
  have "(100 * c + e) div 4 = 25 * c + e div 4" "(100 * c + e) div 100 = c" "(100 * c + e) div 400 = 0"
    using assms div_mult_self2 [of 4 e "25 * c"] by (simp_all add: algebra_simps)
  then show ?thesis unfolding days_before_def by simp
qed

text \<open>\<open>leap_end Y\<close>: the computational year \<open>Y\<close> ends with a 29th of February.\<close>

definition leap_end :: "nat \<Rightarrow> bool" where
  "leap_end Y \<longleftrightarrow> Y mod 4 = 3 \<and> (Y mod 100 \<noteq> 99 \<or> Y mod 400 = 399)"

text \<open>The first step finds the 400 years and the century within them.\<close>

lemma century_of_day:
  assumes D: "D \<le> 364 \<or> D = 365 \<and> leap_end Y"
  defines "J \<equiv> days_before Y + D"
  shows "J div 146097 = Y div 400" (is ?q) and "(4 * (J mod 146097) + 3) div 146097 = Y mod 400 div 100" (is ?c)
proof -
  define a r where "a = Y div 400" and "r = Y mod 400"
  define c e where "c = r div 100" and "e = r mod 100"
  have r: "r < 400" "Y = 400 * a + r" by (simp_all add: a_def r_def)
  have ce: "r = 100 * c + e" "e < 100" "c < 4" using r(1) by (auto simp: c_def e_def div_less_iff_less_mult)
  define j where "j = 36524 * c + 365 * e + e div 4 + D"
  have J: "J = 146097 * a + j"
    unfolding J_def j_def using days_before_split [OF r(1)] days_before_century [OF ce(2,3)] r(2) ce(1) by simp
  have e4: "e div 4 \<le> 24" using ce(2) by (simp add: div_le_mono [of e 99 4, simplified])
  have last: "e \<noteq> 99 \<or> c = 3" if "D = 365" "D \<noteq> 364"
  proof -
    have "leap_end Y" using that D by auto
    then have "Y mod 100 \<noteq> 99 \<or> r = 399" by (auto simp: leap_end_def r_def)
    moreover have "Y mod 100 = e" unfolding e_def r_def by (simp add: mod_mod_cancel)
    ultimately show ?thesis using ce by auto
  qed
  have top: "365 * e + e div 4 + D \<le> 36523 + of_bool (c = 3)"
    using D last ce(2) e4 by (cases "D = 365"; cases "e = 99") auto
  have jlt: "j < 146097" using top ce(3) unfolding j_def by (cases "c = 3") auto
  have q: "J div 146097 = a" "J mod 146097 = j" using jlt unfolding J by simp_all
  then show ?q by (simp add: a_def)
  have "(4 * j + 3) div 146097 = c"
    using top ce(3) unfolding j_def by (intro div_nat_eqI; cases "c = 3") auto
  then show ?c using q(2) by (simp add: c_def r_def)
qed

text \<open>The second step works on cycles of four Julian years that start with a leap year.\<close>

lemma year_of_day:
  fixes t D :: nat
  assumes t: "t < 4" and D: "D \<le> 364 \<or> D = 365 \<and> t = 3"
  defines "G \<equiv> 365 * t + D + 60"
  defines "E \<equiv> G mod 1461"
  defines "y \<equiv> E * 4 div 1461"
  shows "y + 4 * (G div 1461) = t + of_bool (306 \<le> D)"
    and "(if y \<noteq> 0 then (E + 305) mod 365 else (E + 306) mod 366) = D"
proof -
  have "y + 4 * (G div 1461) = t + of_bool (306 \<le> D) \<and>
    (if y \<noteq> 0 then (E + 305) mod 365 else (E + 306) mod 366) = D"
  proof (cases "1461 \<le> G")
    case True
    then have t3: "t = 3" "306 \<le> D" using D t by (auto simp: G_def)
    have "G div 1461 = 1" using True D t by (intro div_nat_eqI) (auto simp: G_def)
    moreover have E: "E = D - 306" using True D t3 calculation by (simp add: E_def G_def modulo_nat_def)
    moreover have "y = 0" using D E unfolding y_def by auto
    moreover have "E + 306 = D" using E t3 by simp
    ultimately show ?thesis using t3 D by auto
  next
    case False
    then have E: "E = G" "G div 1461 = 0" by (simp_all add: E_def)
    consider "t = 0" | "t = 1" | "t = 2" | "t = 3" using t by linarith
    then show ?thesis
    proof cases
      case 1
      show ?thesis
      proof (cases "306 \<le> D")
        case True
        have "y = 1" using True D 1 unfolding y_def E G_def by (intro div_nat_eqI) auto
        moreover have "(E + 305) mod 365 = D" using D 1 unfolding E G_def by simp
        ultimately show ?thesis using 1 True E(2) by simp
      next
        case False
        have "y = 0" using False 1 unfolding y_def E G_def by simp
        moreover have "(E + 306) mod 366 = D" using False 1 unfolding E G_def by simp
        ultimately show ?thesis using 1 False E(2) by simp
      qed
    next
      case 2
      have "y = 1 + of_bool (306 \<le> D)" using D 2 unfolding y_def E G_def by (intro div_nat_eqI) auto
      moreover have "(E + 305) mod 365 = D"
        using D 2 mod_mult_self2 [of D 365 2] unfolding E G_def by (simp add: add.commute)
      ultimately show ?thesis using 2 E(2) by simp
    next
      case 3
      have "y = 2 + of_bool (306 \<le> D)" using D 3 unfolding y_def E G_def by (intro div_nat_eqI) auto
      moreover have "(E + 305) mod 365 = D"
        using D 3 mod_mult_self2 [of D 365 3] unfolding E G_def by (simp add: add.commute)
      ultimately show ?thesis using 3 E(2) by simp
    next
      case 4
      have D': "D < 306" using 4 False by (simp add: G_def)
      have "y = 3" using D' 4 unfolding y_def E G_def by (intro div_nat_eqI) auto
      moreover have "(E + 305) mod 365 = D"
        using D' 4 mod_mult_self2 [of D 365 4] unfolding E G_def by (simp add: add.commute)
      ultimately show ?thesis using 4 D' E(2) by simp
    qed
  qed
  then show "y + 4 * (G div 1461) = t + of_bool (306 \<le> D)"
    "(if y \<noteq> 0 then (E + 305) mod 365 else (E + 306) mod 366) = D" by blast+
qed

text \<open>The third step finds the month and the day.\<close>

definition month_len :: "nat \<Rightarrow> nat" where
  "month_len M = [31, 30, 31, 30, 31, 31, 30, 31, 30, 31, 31, 29] ! (M - 4)"

lemma month_cases:
  fixes M :: nat
  assumes "4 \<le> M" and "M \<le> 15"
  obtains "M = 4" | "M = 5" | "M = 6" | "M = 7" | "M = 8" | "M = 9" | "M = 10" | "M = 11" | "M = 12"
    | "M = 13" | "M = 14" | "M = 15"
proof -
  have "M \<in> {4, 5, 6, 7, 8, 9, 10, 11, 12, 13, 14, 15}" using assms by (cases "M < 10") auto
  then show thesis using that by blast
qed

lemma month_of_day:
  assumes "4 \<le> M" and "M \<le> 15" and "1 \<le> d" and "d \<le> month_len M"
  shows "(month_start M + d) * 2141 div 65536 = M" and "123 \<le> month_start M + d"
    and "month_start M + d \<le> 123 + 365" and "month_start M + d = 123 + 365 \<Longrightarrow> M = 15 \<and> d = 29"
    and "306 + 123 \<le> month_start M + d \<longleftrightarrow> 14 \<le> M"
proof -
  have *: "(month_start M + d) * 2141 div 65536 = M \<and> 123 \<le> month_start M + d \<and>
    month_start M + d \<le> 123 + 365 \<and> (month_start M + d = 123 + 365 \<longrightarrow> M = 15 \<and> d = 29) \<and>
    (306 + 123 \<le> month_start M + d \<longleftrightarrow> 14 \<le> M)"
    using assms(1,2)
    by (cases rule: month_cases) (use assms(3,4) in \<open>auto simp: month_start_def month_len_def intro!: div_nat_eqI\<close>)
  then show "(month_start M + d) * 2141 div 65536 = M" "123 \<le> month_start M + d"
    "month_start M + d \<le> 123 + 365" "month_start M + d = 123 + 365 \<Longrightarrow> M = 15 \<and> d = 29"
    "306 + 123 \<le> month_start M + d \<longleftrightarrow> 14 \<le> M" by blast+
qed

lemma SplitJulianDate_day:
  assumes M: "4 \<le> M" "M \<le> 15" and d: "1 \<le> d" "d \<le> month_len M" and leap: "M = 15 \<and> d = 29 \<longrightarrow> leap_end Y"
    and bound: "days_before Y + (month_start M + d - 123) < 2 ^ 31 + 32044"
  shows "SplitJulianDate (int (days_before Y + (month_start M + d - 123)) - 32044) =
    (int Y + of_bool (14 \<le> M) - 4800, int ((M + 10) mod 12) + 1, int d)"
proof -
  note md = month_of_day [OF M d]
  define D where "D = month_start M + d - 123"
  have D3: "D + 123 = month_start M + d" using md(2) by (simp add: D_def)
  have D: "D \<le> 364 \<or> D = 365 \<and> leap_end Y" using md(3,4) leap D3 by fastforce
  define J where "J = days_before Y + D"
  define t where "t = Y mod 4"
  have t: "t < 4" "D \<le> 364 \<or> D = 365 \<and> t = 3" using D by (auto simp: t_def leap_end_def)
  note c = century_of_day [OF D, folded J_def]
  let ?J2 = "J + 60 + 3 * (J div 146097) + (4 * (J mod 146097) + 3) div 146097"
  have J2: "?J2 = 1461 * (Y div 4) + (365 * t + D + 60)"
  proof -
    define a r where "a = Y div 400" and "r = Y mod 400"
    have r: "r < 400" "Y = 400 * a + r" by (simp_all add: a_def r_def)
    have "(400 * a + r) div 4 = 100 * a + r div 4" "(400 * a + r) mod 4 = r mod 4"
      using div_mult_self2 [of 4 r "100 * a"] mod_mult_self2 [of r 4 "100 * a"] by (simp_all add: algebra_simps)
    then have Y4: "Y div 4 = 100 * a + r div 4" "t = r mod 4" using r(2) by (simp_all add: t_def)
    have "r div 400 = 0" "r div 100 \<le> 365 * r + r div 4" using r(1) div_le_dividend [of r 100] by simp linarith
    then have "days_before r + r div 100 = 365 * r + r div 4" by (simp add: days_before_def)
    moreover have "J = 146097 * a + days_before r + D" using days_before_split [OF r(1)] r(2) by (simp add: J_def)
    moreover have "r = 4 * (r div 4) + r mod 4" by simp
    moreover have "?J2 = J + 60 + 3 * a + r div 100" unfolding c by (simp add: a_def r_def)
    ultimately show ?thesis using Y4 by linarith
  qed
  let ?G = "365 * t + D + 60"
  have E: "?J2 mod 1461 = ?G mod 1461" and Q: "?J2 div 1461 = Y div 4 + ?G div 1461" unfolding J2 by simp_all
  note y = year_of_day [OF t]
  have b: "J < 2 ^ 31 + 32044" using bound by (simp add: J_def D_def)
  have Yt: "4 * (Y div 4) + t = Y" by (simp add: t_def)
  have ge: "306 \<le> D \<longleftrightarrow> 14 \<le> M" using md(5) D3 by linarith
  have yy: "?G mod 1461 * 4 div 1461 + 4 * (Y div 4 + ?G div 1461) = Y + of_bool (14 \<le> M)"
    using y(1) Yt ge by (simp add: distrib_left)
  show ?thesis
    using SplitJulianDate_nat [OF b]
    unfolding E Q yy y(2) D3 md(1) by (simp add: J_def D_def)
qed

section \<open>Calendar dates\<close>

lemma smod_zero_iff: "a smod n = 0 \<longleftrightarrow> n dvd a" for a n :: int
proof -
  have "a smod n = 0 \<longleftrightarrow> \<bar>a\<bar> mod \<bar>n\<bar> = 0"
    by (auto simp: signed_modulo_int_def sgn_if)
  then show ?thesis by (simp add: dvd_eq_mod_eq_0 [symmetric])
qed

lemma IsLeapYear_iff: "IsLeapYear y \<longleftrightarrow> 4 dvd y \<and> (\<not> 100 dvd y \<or> 400 dvd y)"
  by (simp add: IsLeapYear_def smod_zero_iff)

text \<open>The computational year and month of a calendar date.\<close>

definition comp_year :: "int \<Rightarrow> int \<Rightarrow> nat" where
  "comp_year y m = nat (if m > 2 then y + 4800 else y + 4799)"

definition comp_month :: "int \<Rightarrow> nat" where
  "comp_month m = nat (if m > 2 then m + 1 else m + 13)"

definition comp_day :: "int \<Rightarrow> int \<Rightarrow> nat" where
  "comp_day m d = month_start (comp_month m) + nat d - 123"

text \<open>
  The proleptic Gregorian calendar, independent of the tables and checks of the code: a year whose number is divisible
  by 4 is a leap year, except for those divisible by 100 and not by 400. The dates that are supported leave out
  year 0 and lie between November of year \<open>-4713\<close> and May of year 5874898.
\<close>

definition gregorian_leap :: "int \<Rightarrow> bool" where
  "gregorian_leap y \<longleftrightarrow> 4 dvd y \<and> (100 dvd y \<longrightarrow> 400 dvd y)"

definition gregorian_month_days :: "int \<Rightarrow> int \<Rightarrow> int" where
  "gregorian_month_days y m =
     (if m = 2 then if gregorian_leap y then 29 else 28 else if m \<in> {4, 6, 9, 11} then 30 else 31)"

definition valid_date :: "int \<Rightarrow> int \<Rightarrow> int \<Rightarrow> bool" where
  "valid_date y m d \<longleftrightarrow> 1 \<le> m \<and> m \<le> 12 \<and> 1 \<le> d \<and> d \<le> gregorian_month_days y m \<and> y \<noteq> 0 \<and>
     (- 4713 < y \<or> y = - 4713 \<and> 11 \<le> m) \<and> (y < 5874898 \<or> y = 5874898 \<and> m \<le> 5)"

lemma month_number_cases:
  fixes m :: int
  assumes "1 \<le> m" and "m \<le> 12"
  obtains "m = 1" | "m = 2" | "m = 3" | "m = 4" | "m = 5" | "m = 6" | "m = 7" | "m = 8" | "m = 9"
    | "m = 10" | "m = 11" | "m = 12"
proof -
  have "m \<in> {1, 2, 3, 4, 5, 6, 7, 8, 9, 10, 11, 12}" using assms by (cases "m < 7") auto
  then show thesis using that by blast
qed

text \<open>The two checks of the code accept these dates and no others.\<close>

lemma valid_date_checks: "valid_date y m d \<longleftrightarrow> IsValidCalendarDate y m d \<and> IsValidJulianDate y m d"
proof (cases "1 \<le> m \<and> m \<le> 12")
  case True
  then have m: "1 \<le> m" "m \<le> 12" by simp_all
  have leap: "IsLeapYear y \<longleftrightarrow> gregorian_leap y" by (auto simp: IsLeapYear_iff gregorian_leap_def)
  have days: "gregorian_month_days y m = kDaysPerMonth ! of_bool (IsLeapYear y) ! nat (m - 1)"
    using m unfolding leap
    by (cases rule: month_number_cases; cases "gregorian_leap y") (simp_all add: gregorian_month_days_def kDaysPerMonth_def)
  show ?thesis unfolding valid_date_def days
    using m by (auto simp: IsValidCalendarDate_def IsValidJulianDate_def kMonthsPerYear_def kJulianMinYear_def kJulianMinMonth_def
        kJulianMaxYear_def kJulianMaxMonth_def)
qed (auto simp: valid_date_def IsValidCalendarDate_def kMonthsPerYear_def)

lemma valid_date_bounds:
  assumes "valid_date y m d"
  shows "1 \<le> m" and "m \<le> 12" and "1 \<le> d" and "- 4713 \<le> y" and "y \<le> 5874898"
    and "y = 5874898 \<Longrightarrow> m \<le> 5" and "nat d \<le> month_len (comp_month m)"
    and "m = 2 \<Longrightarrow> d = 29 \<Longrightarrow> IsLeapYear y" and "d \<le> 31"
proof -
  have m: "1 \<le> m" "m \<le> 12" "1 \<le> d"
    and dd: "d \<le> kDaysPerMonth ! of_bool (IsLeapYear y) ! nat (m - 1)"
    using assms by (auto simp: valid_date_checks IsValidCalendarDate_def kMonthsPerYear_def split: if_splits)
  then show "1 \<le> m" "m \<le> 12" "1 \<le> d" by blast+
  show "- 4713 \<le> y" "y \<le> 5874898" "y = 5874898 \<Longrightarrow> m \<le> 5"
    using assms by (auto simp: valid_date_checks IsValidJulianDate_def kJulianMinYear_def kJulianMaxYear_def kJulianMaxMonth_def)
  have *: "nat d \<le> month_len (comp_month m) \<and> d \<le> 31 \<and> (m = 2 \<and> d = 29 \<longrightarrow> IsLeapYear y)"
    using m(1,2)
    by (cases rule: month_number_cases; cases "IsLeapYear y")
      (use dd in \<open>simp_all add: kDaysPerMonth_def month_len_def comp_month_def\<close>)
  then show "nat d \<le> month_len (comp_month m)" "m = 2 \<Longrightarrow> d = 29 \<Longrightarrow> IsLeapYear y" "d \<le> 31" by blast+
qed

lemma comp_month_bounds:
  "1 \<le> m \<Longrightarrow> m \<le> 12 \<Longrightarrow> 4 \<le> comp_month m" "1 \<le> m \<Longrightarrow> m \<le> 12 \<Longrightarrow> comp_month m \<le> 15"
  "1 \<le> m \<Longrightarrow> m \<le> 12 \<Longrightarrow> 14 \<le> comp_month m \<longleftrightarrow> m \<le> 2"
  "1 \<le> m \<Longrightarrow> m \<le> 12 \<Longrightarrow> int ((comp_month m + 10) mod 12) + 1 = m"
  "1 \<le> m \<Longrightarrow> m \<le> 12 \<Longrightarrow> comp_month m = 15 \<longleftrightarrow> m = 2"
proof -
  assume m: "1 \<le> m" "m \<le> 12"
  then have "4 \<le> comp_month m \<and> comp_month m \<le> 15 \<and> (14 \<le> comp_month m \<longleftrightarrow> m \<le> 2) \<and>
    int ((comp_month m + 10) mod 12) + 1 = m \<and> (comp_month m = 15 \<longleftrightarrow> m = 2)"
    by (cases rule: month_number_cases) (simp_all add: comp_month_def)
  then show "4 \<le> comp_month m" "comp_month m \<le> 15" "14 \<le> comp_month m \<longleftrightarrow> m \<le> 2"
    "int ((comp_month m + 10) mod 12) + 1 = m" "comp_month m = 15 \<longleftrightarrow> m = 2" by blast+
qed

lemma leap_end_iff:
  assumes "- 4713 \<le> y"
  shows "IsLeapYear y \<longleftrightarrow> leap_end (nat (y + 4799))"
proof -
  define Y where "Y = nat (y + 4799)"
  have y: "y = int Y - 4799" using assms by (simp add: Y_def)
  have d: "(int k dvd y) = (k dvd Suc Y)" if "k dvd 4800" for k :: nat
  proof -
    have "y = int (Suc Y) - int 4800" using y by simp
    moreover have "int k dvd int 4800" using that by presburger
    ultimately show ?thesis by (metis dvd_diff_right_iff int_dvd_int_iff dvd_diffD dvd_add_left_iff diff_add_cancel)
  qed
  have "(4 dvd y) = (4 dvd Suc Y)" "(100 dvd y) = (100 dvd Suc Y)" "(400 dvd y) = (400 dvd Suc Y)"
    using d [of 4] d [of 100] d [of 400] by simp_all
  moreover have "(4 dvd Suc Y) = (Y mod 4 = 3)" by presburger
  moreover have "(100 dvd Suc Y) = (Y mod 100 = 99)" "(400 dvd Suc Y) = (Y mod 400 = 399)"
    by (simp_all add: dvd_eq_mod_eq_0 mod_Suc)
  ultimately show ?thesis unfolding IsLeapYear_iff leap_end_def Y_def by simp
qed

lemma BuildJulianDate_value:
  assumes "valid_date y m d"
  shows "BuildJulianDate (word_of_int y) (word_of_int m) (word_of_int d) =
    word_of_int (int (days_before (comp_year y m) + comp_day m d) - 32044)"
proof -
  note v = valid_date_bounds [OF assms]
  note c = comp_month_bounds [OF v(1,2)]
  have d: "1 \<le> nat d" using v(3) by simp
  have "123 \<le> month_start (comp_month m) + nat d" by (rule month_of_day(2) [OF c(1,2) d v(7)])
  then have e: "int (days_before (comp_year y m) + comp_day m d) - 32044 =
      int (days_before (comp_year y m)) + int (month_start (comp_month m)) + int (nat d) - 32167"
    by (simp add: comp_day_def of_nat_diff)
  have w2: "(word_of_int m :: u32) > 2 \<longleftrightarrow> m > 2"
  proof -
    have "uint (word_of_int m :: u32) = m" using v(1,2) by (intro word_of_int_inverse) (auto)
    then show ?thesis by (simp add: word_less_def)
  qed
  have Y: "(if m > 2 then word_of_int y + 4800 else word_of_int y + 4799) = (of_nat (comp_year y m) :: u32)"
    using v(4) by (auto simp: comp_year_def)
  have M: "(if m > 2 then word_of_int m + 1 else word_of_int m + 13) = (of_nat (comp_month m) :: u32)"
    using v(1) by (auto simp: comp_month_def)
  have D: "(word_of_int d :: u32) = of_nat (nat d)" using v(3) by simp
  have b: "comp_year y m < 2 ^ 24" "comp_month m < 2 ^ 8" using v(4,5) c(2) by (auto simp: comp_year_def)
  have "BuildJulianDate (word_of_int y) (word_of_int m) (word_of_int d) =
     (let year = of_nat (comp_year y m) :: u32; century = year div 100; julian = year * 365 - 32167;
      julian = julian + (year div 4 - century + century div 4)
     in julian + (7834 * of_nat (comp_month m) div 256 + of_nat (nat d)))"
    unfolding BuildJulianDate_def Let_def w2 D Y [symmetric] M [symmetric] by (simp split: prod.splits)
  then show ?thesis unfolding e BuildJulianDate_nat [OF b] .
qed

lemma julian_day_bound:
  assumes "valid_date y m d"
  shows "days_before (comp_year y m) + comp_day m d < 2 ^ 31 + 32044"
proof -
  note v = valid_date_bounds [OF assms]
  note c = comp_month_bounds [OF v(1,2)]
  have d: "1 \<le> nat d" using v(3) by simp
  have D: "comp_day m d \<le> 365" using month_of_day(3) [OF c(1,2) d v(7)] by (simp add: comp_day_def)
  show ?thesis
  proof (cases "y = 5874898 \<and> m > 2")
    case True
    then have Y: "comp_year y m = 5879698" by (simp add: comp_year_def)
    have "m = 3 \<or> m = 4 \<or> m = 5" using True v(6) by auto
    then have "comp_day m d \<le> 91"
      using v(9) by (auto simp: comp_day_def comp_month_def month_start_def)
    then show ?thesis unfolding Y by (simp add: days_before_def)
  next
    case False
    define Y where "Y = comp_year y m"
    have "Y \<le> 5879697" using False v(4,5) by (auto simp: comp_year_def Y_def)
    moreover have "4 * (Y div 4) \<le> Y" "400 * (Y div 400) \<le> Y" "Y < 100 * (Y div 100) + 100"
      using mod_less_divisor [of 100 Y] mult_div_mod_eq [of 100 Y] by (auto simp: ac_simps) 
    ultimately have "days_before Y + 365 < 2 ^ 31 + 32044"
      unfolding days_before_def by simp
    then show ?thesis using D by (simp add: Y_def)
  qed
qed

lemma Split_Build:
  assumes "valid_date y m d"
  shows "SplitJulianDate (sint (BuildJulianDate (word_of_int y) (word_of_int m) (word_of_int d))) = (y, m, d)"
    and "sint (BuildJulianDate (word_of_int y) (word_of_int m) (word_of_int d)) =
      int (days_before (comp_year y m) + comp_day m d) - 32044"
proof -
  note v = valid_date_bounds [OF assms]
  note c = comp_month_bounds [OF v(1,2)]
  have d: "1 \<le> nat d" using v(3) by simp
  have bound: "days_before (comp_year y m) + (month_start (comp_month m) + nat d - 123) < 2 ^ 31 + 32044"
    using julian_day_bound [OF assms] by (simp add: comp_day_def)
  have leap: "comp_month m = 15 \<and> nat d = 29 \<longrightarrow> leap_end (comp_year y m)"
  proof -
    have "nat d = 29 \<longleftrightarrow> d = 29" using v(3) by auto
    then show ?thesis using v(8) leap_end_iff [OF v(4)] c(5) by (auto simp: comp_year_def)
  qed
  have r: "- (2 ^ 31) \<le> int (days_before (comp_year y m) + comp_day m d) - 32044"
    "int (days_before (comp_year y m) + comp_day m d) - 32044 < 2 ^ 31"
    using julian_day_bound [OF assms] by simp_all
  then show s: "sint (BuildJulianDate (word_of_int y) (word_of_int m) (word_of_int d)) =
      int (days_before (comp_year y m) + comp_day m d) - 32044"
    unfolding BuildJulianDate_value [OF assms] by (rule sint_word_of_int_32)
  show "SplitJulianDate (sint (BuildJulianDate (word_of_int y) (word_of_int m) (word_of_int d))) = (y, m, d)"
    using SplitJulianDate_day [OF c(1,2) d v(7) leap bound] c(3,4) v(3,4)
    unfolding s comp_day_def by (auto simp: comp_year_def)
qed

section \<open>Decimal fields\<close>

definition zero_pad :: "nat \<Rightarrow> nat \<Rightarrow> string" where
  "zero_pad w n = replicate (w - length (to_string n)) (CHR ''0'') @ to_string n"

lemma length_to_string_le: "n < 10 ^ Suc k \<Longrightarrow> length (to_string n) \<le> Suc k"
proof (induction k arbitrary: n)
  case 0
  then show ?case by (simp add: to_string.simps [of n])
next
  case (Suc k)
  then have "n div 10 < 10 ^ Suc k" by (simp add: div_less_iff_less_mult ac_simps)
  then show ?case using Suc.IH [of "n div 10"] by (simp add: to_string.simps [of n])
qed

lemma digit_char_simps [simp]:
  "digit_char 0 = CHR ''0''" "digit_char 1 = CHR ''1''" "digit_char (Suc 0) = CHR ''1''"
  "digit_char 2 = CHR ''2''" "digit_char 3 = CHR ''3''" "digit_char 4 = CHR ''4''"
  "digit_char 5 = CHR ''5''" "digit_char 6 = CHR ''6''" "digit_char 7 = CHR ''7''"
  "digit_char 8 = CHR ''8''" "digit_char 9 = CHR ''9''"
  by (simp_all add: digit_char_def char_of_def bit_Suc_0_iff)

lemma digit_char_props:
  assumes "d < 10"
  shows "is_digit (digit_char d)" and "digit_val (digit_char d) = of_nat d" and "digit_char d \<noteq> CHR 0x00"
    and "\<not> is_space (digit_char d)"
proof -
  have "d \<in> {0, 1, 2, 3, 4, 5, 6, 7, 8, 9}" using assms by auto
  then have "is_digit (digit_char d) \<and> digit_val (digit_char d) = of_nat d \<and> digit_char d \<noteq> CHR 0x00 \<and>
    \<not> is_space (digit_char d)"
    by (elim insertE emptyE) (simp_all add: is_digit_def is_space_def digit_val_def)
  then show "is_digit (digit_char d)" "digit_val (digit_char d) = of_nat d" "digit_char d \<noteq> CHR 0x00"
    "\<not> is_space (digit_char d)" by blast+
qed

lemma digit_chars_ok: "is_digit c \<Longrightarrow> c \<noteq> CHR 0x00 \<and> \<not> is_space c \<and> c \<noteq> CHR ''-''"
  by (auto simp: is_digit_def is_space_def)

lemma to_string_digits: "c \<in> set (to_string n) \<Longrightarrow> is_digit c"
proof (induction n rule: to_string.induct)
  case (1 n)
  then show ?case
    by (cases "n < 10") (auto simp: to_string.simps [of n] digit_char_props(1))
qed

lemma to_string_nonempty [simp]: "to_string n \<noteq> []"
  by (simp add: to_string.simps [of n])

lemma zero_pad_digits: "c \<in> set (zero_pad w n) \<Longrightarrow> is_digit c"
  using to_string_digits [of c n] by (auto simp: zero_pad_def is_digit_def split: if_splits)

lemma zero_pad_nonempty [simp]: "zero_pad w n \<noteq> []"
  by (simp add: zero_pad_def)

definition digits_value :: "u32 \<Rightarrow> string \<Rightarrow> u32" where
  "digits_value acc s = foldl (\<lambda>a c. a * 10 + digit_val c) acc s"

lemma digits_value_to_string: "digits_value acc (to_string n) = acc * 10 ^ length (to_string n) + of_nat n"
proof (induction n arbitrary: acc rule: to_string.induct)
  case (1 n)
  show ?case
  proof (cases "n < 10")
    case True
    then show ?thesis by (simp add: to_string.simps [of n] digits_value_def digit_char_props)
  next
    case False
    have n: "of_nat n = of_nat (n div 10) * 10 + (of_nat (n mod 10) :: u32)"
      by (metis div_mult_mod_eq of_nat_add of_nat_mult of_nat_numeral)
    show ?thesis using 1 [OF False, of acc] False
      by (simp add: to_string.simps [of n] digits_value_def digit_char_props n algebra_simps)
  qed
qed

lemma digits_value_zero_pad: "digits_value 0 (zero_pad w n) = of_nat n"
proof -
  have "foldl (\<lambda>a c. a * 10 + digit_val c) (0 :: u32) (replicate k (CHR ''0'')) = 0" for k
    by (induction k) (simp_all add: digit_val_def)
  then show ?thesis using digits_value_to_string [of 0 n] by (simp add: digits_value_def zero_pad_def)
qed

lemma parse_until_dash_digits:
  "(\<And>c. c \<in> set ds \<Longrightarrow> is_digit c) \<Longrightarrow>
   parse_until_dash acc (ds @ CHR ''-'' # rest) = Some (digits_value acc ds, rest)"
  by (induction ds arbitrary: acc) (simp_all add: digits_value_def is_digit_def)

lemma parse_to_end_digits:
  "(\<And>c. c \<in> set ds \<Longrightarrow> is_digit c) \<Longrightarrow> parse_to_end acc ds = Some (digits_value acc ds)"
  by (induction ds arbitrary: acc) (simp_all add: digits_value_def)

section \<open>The buffer\<close>

definition cur_has :: "cursor \<Rightarrow> string \<Rightarrow> nat \<Rightarrow> bool" where
  "cur_has c s n \<longleftrightarrow> length (fst c) = n \<and> snd c = length s \<and> take (snd c) (fst c) = s"

lemma cur_has_start: "cur_has (buf, 0) [] (length buf)"
  by (simp add: cur_has_def)

lemma put_chars_has:
  assumes "cur_has c s n" and "length s + length t \<le> n"
  shows "\<exists>c'. put_chars c t = Some c' \<and> cur_has c' (s @ t) n"
proof -
  obtain buf ptr where c: "c = (buf, ptr)" by (cases c)
  show ?thesis using assms unfolding c by (auto simp: cur_has_def put_chars_def)
qed

lemma upt_two: "[0..<100] = 0 # 1 # [2..<100]"
  by (simp add: upt_conv_Cons)

lemma zero_pad_two: "v < 100 \<Longrightarrow> zero_pad 2 v = [digit_char (v div 10), digit_char (v mod 10)]"
  by (simp add: zero_pad_def to_string.simps [of v] to_string.simps [of "v div 10"] div_less_iff_less_mult)

lemma kDigitTable_concat:
  "kDigitTable = concat (map (\<lambda>v. [digit_char (v div 10), digit_char (v mod 10)]) [0..<100])"
  unfolding kDigitTable_def upt_two by (simp add: upt_rec_numeral)

lemma concat_pairs:
  "(\<And>x. x \<in> set xs \<Longrightarrow> length (f x) = 2) \<Longrightarrow> v < length xs \<Longrightarrow>
   take 2 (drop (v * 2) (concat (map f xs))) = f (xs ! v)"
proof (induction xs arbitrary: v)
  case (Cons x xs)
  then show ?case by (cases v) (auto simp: numeral_2_eq_2)
qed simp

lemma kDigitTable_entry: "v < 100 \<Longrightarrow> take 2 (drop (v * 2) kDigitTable) = zero_pad 2 v"
  unfolding kDigitTable_concat by (subst concat_pairs) (simp_all add: zero_pad_two)

lemma NumberToStringWithZeroPad_has:
  assumes "cur_has c s n" and "w \<le> 10" and "length s + 10 \<le> n"
  shows "\<exists>c'. NumberToStringWithZeroPad c v w = Some c' \<and> cur_has c' (s @ zero_pad w (unat v)) n"
proof (cases "v < 100 \<and> w = 2")
  case True
  then have "unat v < 100" by (simp add: word_less_nat_alt)
  moreover from this have "length (zero_pad 2 (unat v)) \<le> 2"
    using length_to_string_le [of "unat v" 1] by (simp add: zero_pad_def)
  ultimately show ?thesis
    using put_chars_has [OF assms(1), of "zero_pad 2 (unat v)"] assms(3) True
    by (simp add: NumberToStringWithZeroPad_def kDigitTable_entry)
next
  case False
  let ?t = "to_string (unat v)"
  have "unat v < 2 ^ 32" using unsigned_less [of v] by simp
  then have t: "length ?t \<le> 10" using length_to_string_le [of "unat v" 9] by simp
  then obtain c1 where c1: "put_chars c ?t = Some c1" "cur_has c1 (s @ ?t) n"
    using put_chars_has [OF assms(1), of ?t] assms(3) by auto
  obtain buf ptr where b: "c1 = (buf, ptr)" by (cases c1)
  have ptr: "ptr = length s + length ?t" "take ptr buf = s @ ?t" "length buf = n" "snd c = length s"
    using c1(2) assms(1) by (auto simp: cur_has_def b)
  have "take (length ?t) (drop (length s) buf) = drop (length s) (take ptr buf)"
    by (simp add: drop_take ptr(1))
  then have len: "ptr - snd c = length ?t" "take (length ?t) (drop (snd c) buf) = ?t"
    using ptr by simp_all
  have "take (length s) buf = take (length s) (take ptr buf)" by (simp add: ptr(1) min_def)
  also have "\<dots> = s" by (simp add: ptr(2))
  finally have start: "cur_has (buf, snd c) s n" using ptr by (simp add: cur_has_def)
  show ?thesis
  proof (cases "w \<le> length ?t")
    case True
    then show ?thesis using False c1 b len by (auto simp: NumberToStringWithZeroPad_def zero_pad_def Let_def)
  next
    case less: False
    let ?p = "replicate (w - length ?t) (CHR ''0'') @ ?t"
    have "\<exists>c'. put_chars (buf, snd c) ?p = Some c' \<and> cur_has c' (s @ ?p) n"
      using put_chars_has [OF start, of ?p] assms(2,3) less by simp
    then show ?thesis using False less c1(1) b len by (auto simp: NumberToStringWithZeroPad_def zero_pad_def Let_def)
  qed
qed

text \<open>The number of a year as it is printed: years before year 1 are counted back from it and marked.\<close>

definition printed_year :: "int \<Rightarrow> nat" where
  "printed_year y = nat (if y > 0 then y else 1 - y)"

definition era :: "int \<Rightarrow> string" where
  "era y = (if y > 0 then [] else '' BC'')"

lemma c_string_has:
  assumes "cur_has c s n" and "length s + 3 < n" and "CHR 0x00 \<notin> set s"
  shows "\<exists>buf. put_era c y = Some buf \<and> c_string buf = s @ era y"
proof -
  obtain c1 where c1: "(if y \<le> 0 then put_chars c '' BC'' else Some c) = Some c1" "cur_has c1 (s @ era y) n"
  proof (cases "y \<le> 0")
    case True
    from put_chars_has [OF assms(1), of "'' BC''"] assms(2) obtain c1 where "put_chars c '' BC'' = Some c1" "cur_has c1 (s @ '' BC'') n"
      by auto
    then show ?thesis using True by (intro that [of c1]) (simp_all add: era_def)
  next
    case False
    then show ?thesis using assms(1) by (intro that [of c]) (simp_all add: era_def)
  qed
  have len: "length (s @ era y) + 1 \<le> n" using assms(2) by (simp add: era_def)
  obtain c' where c': "put_chars c1 [CHR 0x00] = Some c'" "cur_has c' ((s @ era y) @ [CHR 0x00]) n"
    using put_chars_has [OF c1(2), of "[CHR 0x00]"] len by auto
  then have f: "fst c' = (s @ era y) @ CHR 0x00 # drop (length (s @ era y) + 1) (fst c')"
    unfolding cur_has_def by (metis append.assoc append_Cons append_Nil append_take_drop_id length_append_singleton Suc_eq_plus1)
  have "\<forall>c \<in> set (s @ era y). c \<noteq> CHR 0x00" using assms(3) by (auto simp: era_def)
  then have "c_string (fst c') = s @ era y"
    by (subst f) (simp only: c_string_def takeWhile_append2 takeWhile.simps if_False not_True_eq_False simp_thms append_Nil2)
  then show ?thesis using c1(1) c'(1) by (auto simp: put_era_def split: prod.splits)
qed

lemma trim_spaces_id:
  assumes "s \<noteq> []" and "\<not> is_space (hd s)" and "\<not> is_space (last s)"
  shows "trim_spaces s = s"
proof -
  have "dropWhile is_space s = s" using assms by (cases s) auto
  moreover have "dropWhile is_space (rev s) = rev s"
    using assms by (cases s rule: rev_cases) auto
  ultimately show ?thesis by (simp add: trim_spaces_def)
qed

definition iso_date :: "nat \<Rightarrow> nat \<Rightarrow> nat \<Rightarrow> string" where
  "iso_date y m d = zero_pad 4 y @ ''-'' @ zero_pad 2 m @ ''-'' @ zero_pad 2 d"

lemma length_zero_pad: "n < 10 ^ Suc k \<Longrightarrow> w \<le> Suc k \<Longrightarrow> length (zero_pad w n) \<le> Suc k"
  using length_to_string_le [of n k] by (simp add: zero_pad_def)

lemma EncodeDateOnly_ISO:
  assumes "length garbage = 129" and "- (10 ^ 8) < y" and "y < 10 ^ 9" and "1 \<le> m" and "m \<le> 12" and "1 \<le> d" and "d \<le> 31"
  shows "\<exists>buf. EncodeDateOnly y m d ISO (garbage, 0) = Some buf \<and> c_string buf = iso_date (printed_year y) (nat m) (nat d) @ era y"
proof -
  have u: "unat (year_field y) = printed_year y" "unat (word_of_int m :: u32) = nat m" "unat (word_of_int d :: u32) = nat d"
    using assms by (simp_all add: year_field_def printed_year_def unsigned_of_int take_bit_int_eq_self)
  have len: "length (zero_pad 4 (printed_year y)) \<le> 9" "length (zero_pad 2 (nat m)) \<le> 2" "length (zero_pad 2 (nat d)) \<le> 2"
    using assms length_zero_pad [of "printed_year y" 8 4] length_zero_pad [of "nat m" 1 2] length_zero_pad [of "nat d" 1 2]
    by (auto simp: numeral_2_eq_2 printed_year_def)
  obtain c1 where c1: "NumberToStringWithZeroPad (garbage, 0) (year_field y) 4 = Some c1"
    "cur_has c1 (zero_pad 4 (printed_year y)) 129"
    using NumberToStringWithZeroPad_has [OF cur_has_start, of 4 garbage "year_field y"] assms(1) u by auto
  obtain c2 where c2: "put_chars c1 ''-'' = Some c2" "cur_has c2 (zero_pad 4 (printed_year y) @ ''-'') 129"
    using put_chars_has [OF c1(2), of "''-''"] len by auto
  obtain c3 where c3: "NumberToStringWithZeroPad c2 (word_of_int m) 2 = Some c3"
    "cur_has c3 ((zero_pad 4 (printed_year y) @ ''-'') @ zero_pad 2 (nat m)) 129"
    using NumberToStringWithZeroPad_has [OF c2(2), of 2 "word_of_int m"] len u by auto
  obtain c4 where c4: "put_chars c3 ''-'' = Some c4"
    "cur_has c4 (((zero_pad 4 (printed_year y) @ ''-'') @ zero_pad 2 (nat m)) @ ''-'') 129"
    using put_chars_has [OF c3(2), of "''-''"] len by auto
  obtain c5 where c5: "NumberToStringWithZeroPad c4 (word_of_int d) 2 = Some c5"
    "cur_has c5 (iso_date (printed_year y) (nat m) (nat d)) 129"
    using NumberToStringWithZeroPad_has [OF c4(2), of 2 "word_of_int d"] len u by (auto simp: iso_date_def)
  have "CHR 0x00 \<notin> set (iso_date (printed_year y) (nat m) (nat d))"
    using digit_chars_ok zero_pad_digits by (fastforce simp: iso_date_def)
  moreover have "length (iso_date (printed_year y) (nat m) (nat d)) + 3 < 129" using len by (simp add: iso_date_def)
  ultimately obtain buf where "put_era c5 y = Some buf" "c_string buf = iso_date (printed_year y) (nat m) (nat d) @ era y"
    using c_string_has [OF c5(2)] by blast
  then show ?thesis
    using c1(1) c2(1) c3(1) c4(1) c5(1) assms(4,5)
    by (simp add: EncodeDateOnly_def checked kMonthsPerYear_def)
qed

lemma parse_to_end_reject: "\<exists>c\<in>set cs. \<not> is_digit c \<Longrightarrow> parse_to_end acc cs = None"
  by (induction cs arbitrary: acc) auto

text \<open>The parser has no rule for the mark of the years before year 1.\<close>

lemma Date_FromString_BC: "Date_FromString (iso_date y m d @ '' BC'') = Inl (InvalidDateString (iso_date y m d @ '' BC''))"
proof -
  have "trim_spaces (iso_date y m d @ '' BC'') = iso_date y m d @ '' BC''"
  proof (rule trim_spaces_id)
    show "\<not> is_space (hd (iso_date y m d @ '' BC''))"
      using zero_pad_digits [of "hd (zero_pad 4 y)" 4 y] digit_chars_ok by (simp add: iso_date_def)
  qed (simp_all add: is_space_def)
  moreover have "parse_until_dash 0 (zero_pad 4 y @ CHR ''-'' # rest) = Some (of_nat y, rest)" for rest
    using parse_until_dash_digits [OF zero_pad_digits] by (simp add: digits_value_zero_pad)
  moreover have "parse_until_dash 0 (zero_pad 2 m @ CHR ''-'' # rest) = Some (of_nat m, rest)" for rest
    using parse_until_dash_digits [OF zero_pad_digits] by (simp add: digits_value_zero_pad)
  moreover have "parse_to_end 0 (zero_pad 2 d @ '' BC'') = None"
    by (rule parse_to_end_reject) (simp add: is_digit_def)
  ultimately show ?thesis by (simp add: Date_FromString_def iso_date_def)
qed

lemma Date_FromString_iso:
  assumes "y < 2 ^ 31" and "m < 2 ^ 31" and "d < 2 ^ 31"
  shows "Date_FromString (iso_date y m d) = Date_FromYMD (int y) (int m) (int d)"
proof -
  have trim: "trim_spaces (iso_date y m d) = iso_date y m d"
  proof (rule trim_spaces_id)
    show "\<not> is_space (hd (iso_date y m d))"
      using zero_pad_digits [of "hd (zero_pad 4 y)" 4 y] digit_chars_ok by (simp add: iso_date_def)
    show "\<not> is_space (last (iso_date y m d))"
      using zero_pad_digits [of "last (zero_pad 2 d)" 2 d] digit_chars_ok by (simp add: iso_date_def)
  qed (simp add: iso_date_def)
  have "parse_until_dash 0 (zero_pad 4 y @ CHR ''-'' # rest) = Some (of_nat y, rest)" for rest
    using parse_until_dash_digits [OF zero_pad_digits] by (simp add: digits_value_zero_pad)
  moreover have "parse_until_dash 0 (zero_pad 2 m @ CHR ''-'' # rest) = Some (of_nat m, rest)" for rest
    using parse_until_dash_digits [OF zero_pad_digits] by (simp add: digits_value_zero_pad)
  moreover have "parse_to_end 0 (zero_pad 2 d) = Some (of_nat d)"
    using parse_to_end_digits [OF zero_pad_digits] by (simp add: digits_value_zero_pad)
  ultimately show ?thesis unfolding Date_FromString_def trim using assms
    by (simp add: iso_date_def sint_of_nat)
qed

section \<open>Order of the Julian days\<close>

lemma Suc_div_cases: "0 < k \<Longrightarrow> Suc Y div k = Y div k + of_bool (Y mod k = k - 1)" for Y k :: nat
  by (auto simp: div_Suc mod_Suc)

lemma days_before_Suc: "days_before (Suc Y) = days_before Y + 365 + of_bool (leap_end Y)"
proof -
  have a: "Y mod 100 = 99 \<Longrightarrow> Y mod 4 = 3"
    using mod_mod_cancel [of 4 100 Y] by simp
  have b: "Y mod 400 = 399 \<Longrightarrow> Y mod 100 = 99"
    using mod_mod_cancel [of 100 400 Y] by simp
  have le: "Y div 100 \<le> 365 * Y + Y div 4" using div_le_dividend [of Y 100] by linarith
  define p q r where "p = Y div 4" and "q = Y div 100" and "r = Y div 400"
  show ?thesis using le
    unfolding days_before_def leap_end_def Suc_div_cases [of 4, simplified] Suc_div_cases [of 100, simplified] Suc_div_cases [of 400, simplified]
      p_def [symmetric] q_def [symmetric] r_def [symmetric]
    using a b by (cases "Y mod 4 = 3"; cases "Y mod 100 = 99"; cases "Y mod 400 = 399") simp_all
qed

lemma days_before_mono: "Y < Y' \<Longrightarrow> days_before Y + 365 + of_bool (leap_end Y) \<le> days_before Y'"
proof (induction Y' rule: less_Suc_induct)
  case (1 i)
  then show ?case by (simp add: days_before_Suc)
next
  case (2 i j k)
  then show ?case by linarith
qed

lemma comp_day_bound:
  assumes "valid_date y m d"
  shows "comp_day m d < 365 + of_bool (leap_end (comp_year y m))"
proof -
  note v = valid_date_bounds [OF assms]
  note c = comp_month_bounds [OF v(1,2)]
  have d: "1 \<le> nat d" using v(3) by simp
  note mm = month_of_day [OF c(1,2) d v(7)]
  have "leap_end (comp_year y m)" if "comp_day m d = 365"
  proof -
    have "comp_month m = 15 \<and> nat d = 29" using mm(2,4) that by (simp add: comp_day_def)
    then have "m = 2" "d = 29" using c(5) v(3) by auto
    then show ?thesis using v(8) leap_end_iff [OF v(4)] by (simp add: comp_year_def)
  qed
  moreover have "comp_day m d \<le> 365" using mm(3) by (simp add: comp_day_def)
  ultimately show ?thesis by (cases "comp_day m d = 365") auto
qed

definition date_before :: "int \<times> int \<times> int \<Rightarrow> int \<times> int \<times> int \<Rightarrow> bool" where
  "date_before a b \<longleftrightarrow> (case (a, b) of ((y, m, d), (y', m', d')) \<Rightarrow>
     y < y' \<or> y = y' \<and> (m < m' \<or> m = m' \<and> d < d'))"

lemma month_start_step:
  assumes "4 \<le> M" and "M < M'" and "M' \<le> 15" and "1 \<le> d" and "d \<le> month_len M"
  shows "month_start M + d \<le> month_start M'"
proof -
  have "M \<le> 15" using assms by simp
  then have "month_start M + month_len M \<le> month_start (Suc M) \<or> M = 15" using assms(1)
    by (elim month_cases) (simp_all add: month_start_def month_len_def)
  moreover have "month_start (Suc M) \<le> month_start M'" using assms(2)
    by (auto simp: month_start_def intro!: div_le_mono)
  ultimately show ?thesis using assms by auto
qed

lemma julian_day_mono:
  assumes v: "valid_date y m d" and v': "valid_date y' m' d'" and less: "date_before (y, m, d) (y', m', d')"
  shows "days_before (comp_year y m) + comp_day m d < days_before (comp_year y' m') + comp_day m' d'"
proof -
  note b = valid_date_bounds [OF v] and b' = valid_date_bounds [OF v']
  note c = comp_month_bounds [OF b(1,2)] and c' = comp_month_bounds [OF b'(1,2)]
  have "comp_year y m < comp_year y' m' \<or>
    comp_year y m = comp_year y' m' \<and> (comp_month m < comp_month m' \<or> m = m' \<and> d < d')"
    using less b(1-4) b'(1-4) unfolding date_before_def comp_year_def comp_month_def by auto
  then show ?thesis
  proof (elim disjE conjE)
    assume "comp_year y m < comp_year y' m'"
    then show ?thesis using days_before_mono comp_day_bound [OF v] by fastforce
  next
    assume "comp_year y m = comp_year y' m'" "comp_month m < comp_month m'"
    moreover have "1 \<le> nat d" "1 \<le> nat d'" using b(3) b'(3) by simp_all
    ultimately show ?thesis
      using month_start_step [OF c(1) _ c'(2) _ b(7)] month_of_day(2) [OF c(1,2) _ b(7)]
      by (fastforce simp: comp_day_def)
  next
    assume "comp_year y m = comp_year y' m'" "m = m'" "d < d'"
    moreover have "1 \<le> nat d" using b(3) by simp
    ultimately show ?thesis using month_of_day(2) [OF c(1,2) _ b(7)] b(3) by (auto simp: comp_day_def)
  qed
qed

lemma date_before_total: "date_before a b \<or> a = b \<or> date_before b a"
  by (cases a; cases b) (auto simp: date_before_def)

lemma julian_day_less_iff:
  assumes "valid_date y m d" and "valid_date y' m' d'"
  shows "days_before (comp_year y m) + comp_day m d < days_before (comp_year y' m') + comp_day m' d' \<longleftrightarrow>
    date_before (y, m, d) (y', m', d')"
  using julian_day_mono [OF assms] julian_day_mono [OF assms(2,1)]
    date_before_total [of "(y, m, d)" "(y', m', d')"] by (metis Pair_inject less_asym less_irrefl)

lemma Date_FromYMD_valid:
  assumes "valid_date y m d"
  shows "Date_FromYMD y m d = Inr \<lparr>date_value = int (days_before (comp_year y m) + comp_day m d) - 32044\<rparr>"
  using assms Split_Build(2) [OF assms] by (simp add: Date_FromYMD_def valid_date_checks)

section \<open>Properties of dates\<close>

text \<open>
  C22. A date is accepted exactly when it is a day of the Gregorian calendar, as \<open>valid_date\<close> defines it
  from the lengths of the months and the rule for leap years, in the supported range without year 0; its
  components read back are the ones it was built from, and every other triple is rejected with the exception.
\<close>

theorem Date_FromYMD_roundtrip:
  "(case Date_FromYMD y m d of
      Inr date \<Rightarrow> valid_date y m d \<and> Date_ExtractComponents date = (y, m, d)
    | Inl e \<Rightarrow> \<not> valid_date y m d \<and> e = InvalidDate y m d)"
proof (cases "valid_date y m d")
  case True
  then show ?thesis using Split_Build [OF True] by (simp add: Date_FromYMD_valid Date_ExtractComponents_def)
next
  case False
  then show ?thesis by (auto simp: Date_FromYMD_def valid_date_checks)
qed

text \<open>
  Comparing two dates compares the calendar days they were built from in chronological order.
\<close>

theorem Date_less_chronological:
  assumes "Date_FromYMD y m d = Inr a" and "Date_FromYMD y' m' d' = Inr b"
  shows "(Date_less a b \<longleftrightarrow> date_before (y, m, d) (y', m', d')) \<and> (Date_eq a b \<longleftrightarrow> (y, m, d) = (y', m', d'))"
proof -
  have v: "valid_date y m d" "valid_date y' m' d'"
    using assms by (auto simp: Date_FromYMD_def valid_date_checks split: if_splits)
  have a: "date_value a = int (days_before (comp_year y m) + comp_day m d) - 32044"
    and b: "date_value b = int (days_before (comp_year y' m') + comp_day m' d') - 32044"
    using assms by (simp_all add: Date_FromYMD_valid [OF v(1)] Date_FromYMD_valid [OF v(2)]) fastforce+
  have "Date_less a b \<longleftrightarrow> date_before (y, m, d) (y', m', d')"
    unfolding Date_less_def a b julian_day_less_iff [OF v, symmetric] by linarith
  moreover have "Date_eq a b \<longleftrightarrow> (y, m, d) = (y', m', d')"
    using julian_day_mono [OF v] julian_day_mono [OF v(2,1)] date_before_total [of "(y, m, d)" "(y', m', d')"]
    by (auto simp: Date_eq_def a b)
  ultimately show ?thesis by blast
qed

theorem Date_less_chronological_witness:
  "\<exists>a b. Date_FromYMD 2000 2 29 = Inr a \<and> Date_FromYMD 2000 3 1 = Inr b \<and>
     Date_less a b = date_before (2000, 2, 29) (2000, 3, 1)"
proof -
  have "valid_date 2000 2 29" "valid_date 2000 3 1" by (simp_all add: valid_date_def gregorian_month_days_def gregorian_leap_def)
  then obtain a b where "Date_FromYMD 2000 2 29 = Inr a" "Date_FromYMD 2000 3 1 = Inr b"
    using Date_FromYMD_valid by metis
  then show ?thesis using Date_less_chronological by blast
qed

text \<open>
  C23. The text of a date is the year, month and day in decimal, padded with zeros to four, two and two digits, and
  for the years before year 1 the year counted back from it, followed by \<^verbatim>\<open>" BC"\<close>. Parsing the text of a date
  from year 1 on gives the date back; parsing the text of an earlier date throws the exception for an invalid string.
\<close>

theorem Date_string_roundtrip:
  assumes "Date_FromYMD y m d = Inr date" and "length garbage = kMaxDateTimeLen + 1"
  shows "\<exists>text. Date_ToString garbage date = Some text \<and> text = iso_date (printed_year y) (nat m) (nat d) @ era y \<and>
    Date_FromString text = (if y > 0 then Inr date else Inl (InvalidDateString text))"
proof -
  have v: "valid_date y m d" using assms(1) by (auto simp: Date_FromYMD_def valid_date_checks split: if_splits)
  note b = valid_date_bounds [OF v]
  have g: "length garbage = 129" using assms(2) by (simp add: kMaxDateTimeLen_def)
  have s: "SplitJulianDate (date_value date) = (y, m, d)"
    using Split_Build [OF v] assms(1) Date_FromYMD_valid [OF v] by auto
  let ?text = "iso_date (printed_year y) (nat m) (nat d) @ era y"
  obtain buf where "EncodeDateOnly y m d ISO (garbage, 0) = Some buf" "c_string buf = ?text"
    using EncodeDateOnly_ISO [OF g _ _ b(1,2,3,9), of y] b(4,5) by auto
  then have "Date_ToString garbage date = Some ?text"
    using g by (simp add: Date_ToString_def s checked kMaxDateTimeLen_def)
  moreover have "Date_FromString ?text = (if y > 0 then Inr date else Inl (InvalidDateString ?text))"
    using Date_FromString_iso [of "nat y" "nat m" "nat d"] Date_FromString_BC b(1-5,9) assms(1)
    by (simp add: printed_year_def era_def)
  ultimately show ?thesis by blast
qed

theorem Date_string_roundtrip_witness:
  "\<exists>date bc. Date_FromYMD 1999 12 31 = Inr date \<and> Date_FromYMD (- 43) 3 15 = Inr bc \<and>
     Date_ToString (replicate 129 (CHR ''x'')) date = Some ''1999-12-31'' \<and> Date_FromString ''1999-12-31'' = Inr date \<and>
     Date_ToString (replicate 129 (CHR ''x'')) bc = Some ''0044-03-15 BC'' \<and>
     Date_FromString ''0044-03-15 BC'' = Inl (InvalidDateString ''0044-03-15 BC'')"
proof -
  have "valid_date 1999 12 31" "valid_date (- 43) 3 15" by (simp_all add: valid_date_def gregorian_month_days_def gregorian_leap_def)
  then obtain date bc where d: "Date_FromYMD 1999 12 31 = Inr date" "Date_FromYMD (- 43) 3 15 = Inr bc"
    using Date_FromYMD_valid by metis
  have "replicate 2 (CHR ''0'') = ''00''" by (simp add: numeral_2_eq_2)
  then have t: "iso_date 1999 12 31 = ''1999-12-31''" "iso_date 44 3 15 = ''0044-03-15''"
    by (simp_all add: iso_date_def zero_pad_def to_string.simps)
  show ?thesis
    using Date_string_roundtrip [OF d(1), of "replicate 129 (CHR ''x'')"] Date_string_roundtrip [OF d(2), of "replicate 129 (CHR ''x'')"] d
    by (simp add: kMaxDateTimeLen_def printed_year_def era_def t)
qed

section \<open>Properties of timestamps\<close>

lemmas microseconds = kMicroSecondsPerSecond_def kMicroSecondsPerMinute_def kMicroSecondsPerHour_def
  kMicroSecondsPerDay_def kMinutesPerHour_def kSecondsPerMinute_def kHoursPerDay_def

lemma sdiv_nonneg: "0 \<le> a \<Longrightarrow> 0 < b \<Longrightarrow> a sdiv b = a div b" for a b :: int
  by (simp add: sgn_if signed_divide_int_def)

lemma sint_word_of_int_64: "- (2 ^ 63) \<le> k \<Longrightarrow> k < 2 ^ 63 \<Longrightarrow> sint (word_of_int k :: u64) = k"
  by (simp add: signed_of_int signed_take_bit_int_eq_self)

lemma StripTime_split:
  assumes "0 \<le> D" and "0 \<le> T" and "T < kMicroSecondsPerDay"
  shows "StripTime (D * kMicroSecondsPerDay + T) = (D, T)"
  using assms by (simp add: StripTime_def sdiv_nonneg Let_def kMicroSecondsPerDay_def)

lemma SplitTime_Build:
  assumes "0 \<le> h" and "0 \<le> mi" and "mi < 60" and "0 \<le> s" and "s < 60"
  shows "SplitTime (BuildTime h mi s) = (h, mi, s, 0)"
proof -
  have t: "BuildTime h mi s = h * 3600000000 + (mi * 60000000 + s * 1000000)"
    by (simp add: BuildTime_def microseconds)
  have "BuildTime h mi s sdiv 3600000000 = h"
    unfolding t by (subst sdiv_nonneg) (use assms in auto)
  moreover have "(mi * 60000000 + s * 1000000) sdiv 60000000 = mi"
    by (subst sdiv_nonneg) (use assms in auto)
  moreover have "(s * 1000000) sdiv 1000000 = s"
    by (subst sdiv_nonneg) (use assms in auto)
  ultimately show ?thesis unfolding SplitTime_def t by (simp add: microseconds Let_def)
qed

lemma BuildTime_bounds:
  assumes "0 \<le> h" and "h < 24" and "0 \<le> mi" and "mi < 60" and "0 \<le> s" and "s < 60"
  shows "0 \<le> BuildTime h mi s" and "BuildTime h mi s < kMicroSecondsPerDay"
  using assms by (auto simp: BuildTime_def microseconds)

definition julian :: "int \<Rightarrow> int \<Rightarrow> int \<Rightarrow> int" where
  "julian y m d = int (days_before (comp_year y m) + comp_day m d) - 32044"

lemma days_before_range: "Y \<le> 284800 \<Longrightarrow> days_before Y + 366 < 104021500"
  and days_before_low: "88 \<le> Y \<Longrightarrow> 32044 \<le> days_before Y"
proof -
  assume "Y \<le> 284800"
  then have "days_before Y \<le> days_before 284800"
    using days_before_mono [of Y 284800] by (cases "Y = 284800") auto
  then show "days_before Y + 366 < 104021500" by (simp add: days_before_def)
next
  assume "88 \<le> Y"
  then have "days_before 88 \<le> days_before Y"
    using days_before_mono [of 88 Y] by (cases "Y = 88") auto
  then show "32044 \<le> days_before Y" by (simp add: days_before_def)
qed

lemma julian_range:
  assumes v: "valid_date y m d" and "- 4711 \<le> y" and "y \<le> 280000"
  shows "0 \<le> julian y m d" and "julian y m d < 104000000"
proof -
  have "88 \<le> comp_year y m" "comp_year y m \<le> 284800" using assms(2,3) by (auto simp: comp_year_def)
  moreover have "comp_day m d < 366"
    using comp_day_bound [OF v] by (cases "leap_end (comp_year y m)") auto
  ultimately show "0 \<le> julian y m d" "julian y m d < 104000000"
    using days_before_range [of "comp_year y m"] days_before_low [of "comp_year y m"] by (auto simp: julian_def)
qed

lemma Timestamp_value:
  assumes "valid_date y m d" and "- 4711 \<le> y" and "y \<le> 280000"
    and "0 \<le> h" and "h < 24" and "0 \<le> mi" and "mi < 60" and "0 \<le> s" and "s < 60"
  shows "Timestamp_FromYMDHMS y m d h mi s =
      Some (Inr \<lparr>ts_value = word_of_int (julian y m d * kMicroSecondsPerDay + BuildTime h mi s)\<rparr>)"
    and "StripTime (sint (word_of_int (julian y m d * kMicroSecondsPerDay + BuildTime h mi s) :: u64)) =
      (julian y m d, BuildTime h mi s)"
    and "SplitJulianDate (sint (word_of_int (julian y m d) :: u32)) = (y, m, d)"
proof -
  note j = julian_range [OF assms(1-3)]
  note t = BuildTime_bounds [OF assms(4-9)]
  let ?r = "julian y m d * kMicroSecondsPerDay + BuildTime h mi s"
  have r: "0 \<le> ?r" "?r < 2 ^ 63" "julian y m d * kMicroSecondsPerDay < 2 ^ 63" "0 \<le> julian y m d * kMicroSecondsPerDay"
    using j t by (auto simp: kMicroSecondsPerDay_def microseconds)
  have s: "sint (word_of_int ?r :: u64) = ?r" using r by (intro sint_word_of_int_64) simp_all
  show "StripTime (sint (word_of_int ?r :: u64)) = (julian y m d, BuildTime h mi s)"
    unfolding s by (rule StripTime_split [OF j(1) t])
  have b: "sint (BuildJulianDate (word_of_int y) (word_of_int m) (word_of_int d)) = julian y m d"
    using Split_Build(2) [OF assms(1)] by (simp add: julian_def)
  have w: "BuildJulianDate (word_of_int y) (word_of_int m) (word_of_int d) = word_of_int (julian y m d)"
    unfolding julian_def by (rule BuildJulianDate_value [OF assms(1)])
  show "SplitJulianDate (sint (word_of_int (julian y m d) :: u32)) = (y, m, d)"
    using Split_Build(1) [OF assms(1)] unfolding w .
  have u: "uint (word_of_int (julian y m d) :: u32) = julian y m d"
    using j by (intro uint_word_of_int_eq [THEN trans] take_bit_int_eq_self) simp_all
  have "(?r - BuildTime h mi s) sdiv kMicroSecondsPerDay = julian y m d"
    using r(4) j(1) by (simp add: sdiv_nonneg kMicroSecondsPerDay_def microseconds)
  then show "Timestamp_FromYMDHMS y m d h mi s = Some (Inr \<lparr>ts_value = word_of_int ?r\<rparr>)"
    using assms r unfolding Timestamp_FromYMDHMS_def valid_date_checks w u
    by (simp add: Let_def i64_ok_def checked kHoursPerDay_def kMinutesPerHour_def kSecondsPerMinute_def)
qed

text \<open>
  C24. A timestamp built from calendar and clock fields gives every field back: year, month, day, hour,
  minute and second; and converting it to a date drops exactly the time of day. The years are those for
  which the microseconds fit 64 bits.
\<close>

theorem Timestamp_field_roundtrip:
  assumes "valid_date y m d" and "- 4711 \<le> y" and "y \<le> 280000"
    and "0 \<le> h" and "h < 24" and "0 \<le> mi" and "mi < 60" and "0 \<le> s" and "s < 60"
  shows "\<exists>ts. Timestamp_FromYMDHMS y m d h mi s = Some (Inr ts) \<and>
    Timestamp_ExtractYear ts = y \<and> Timestamp_ExtractMonth ts = m \<and> Timestamp_ExtractDay ts = d \<and>
    Timestamp_ExtractHour ts = h \<and> Timestamp_ExtractMinute ts = mi \<and> Timestamp_ExtractSecond ts = s \<and>
    Date_FromYMD y m d = Inr (ConvertToDate ts)"
proof -
  note T = Timestamp_value [OF assms]
  let ?ts = "\<lparr>ts_value = word_of_int (julian y m d * kMicroSecondsPerDay + BuildTime h mi s)\<rparr> :: Timestamp"
  have f: "ts_date ?ts = (y, m, d)" "ts_time ?ts = (h, mi, s, 0)"
    using SplitTime_Build [OF assms(4,6-9)] unfolding ts_date_def ts_time_def Timestamp.select_convs T(2)
    by (simp_all add: T(3))
  have c: "Date_FromYMD y m d = Inr (ConvertToDate ?ts)"
  proof -
    note j = julian_range [OF assms(1-3)] and t = BuildTime_bounds [OF assms(4-9)]
    have "uint (word_of_int (julian y m d * kMicroSecondsPerDay + BuildTime h mi s) :: u64) =
      julian y m d * kMicroSecondsPerDay + BuildTime h mi s"
      using j t by (intro uint_word_of_int_eq [THEN trans] take_bit_int_eq_self) (auto simp: kMicroSecondsPerDay_def microseconds)
    moreover have "(julian y m d * kMicroSecondsPerDay + BuildTime h mi s) div kMicroSecondsPerDay = julian y m d"
      using t by (simp add: kMicroSecondsPerDay_def microseconds)
    moreover have "uint (word_of_int kMicroSecondsPerDay :: u64) = kMicroSecondsPerDay"
      by (simp add: kMicroSecondsPerDay_def microseconds)
    ultimately have q: "(word_of_int (julian y m d * kMicroSecondsPerDay + BuildTime h mi s) :: u64) div
      word_of_int kMicroSecondsPerDay = word_of_int (julian y m d)"
      by (metis word_div_def)
    have "(ucast (word_of_int (julian y m d) :: u64) :: u32) = word_of_int (julian y m d)"
      by (rule bit_word_eqI) (simp add: bit_simps)
    moreover have "sint (word_of_int (julian y m d) :: u32) = julian y m d"
      using j by (intro sint_word_of_int_32) simp_all
    moreover have "Date_FromYMD y m d = Inr \<lparr>date_value = julian y m d\<rparr>"
      using Date_FromYMD_valid [OF assms(1)] by (simp add: julian_def)
    ultimately show ?thesis unfolding ConvertToDate_def Timestamp.select_convs q by simp
  qed
  define ts where "ts = ?ts"
  note facts = T(1) [folded ts_def] c [folded ts_def] f [folded ts_def]
  show ?thesis
    by (intro exI [of _ ts] conjI facts(1,2))
      (simp_all add: facts(3,4) Timestamp_ExtractYear_def Timestamp_ExtractMonth_def Timestamp_ExtractDay_def
        Timestamp_ExtractHour_def Timestamp_ExtractMinute_def Timestamp_ExtractSecond_def)
qed

theorem Timestamp_field_roundtrip_witness:
  "\<exists>ts. Timestamp_FromYMDHMS 2020 2 29 23 59 59 = Some (Inr ts) \<and> Timestamp_ExtractDay ts = 29"
proof -
  have "valid_date 2020 2 29" by (simp add: valid_date_def gregorian_month_days_def gregorian_leap_def)
  then show ?thesis using Timestamp_field_roundtrip [of 2020 2 29 23 59 59] by auto
qed

section \<open>Printing timestamps\<close>

definition iso_time :: "nat \<Rightarrow> nat \<Rightarrow> nat \<Rightarrow> string" where
  "iso_time h mi s = '' '' @ zero_pad 2 h @ '':'' @ zero_pad 2 mi @ '':'' @ zero_pad 2 s"

lemma unat_word_of_int_32: "0 \<le> k \<Longrightarrow> k < 2 ^ 32 \<Longrightarrow> unat (word_of_int k :: u32) = nat k"
  by (simp add: unsigned_of_int take_bit_int_eq_self)

lemma length_field: "0 \<le> k \<Longrightarrow> k < 100 \<Longrightarrow> length (zero_pad 2 (nat k)) = 2"
  using zero_pad_two [of "nat k"] by simp

lemma field_has:
  assumes "cur_has c s n" and "0 \<le> k" and "k < 100" and "length s + 10 \<le> n"
  shows "\<exists>c'. NumberToStringWithZeroPad c (word_of_int k) 2 = Some c' \<and> cur_has c' (s @ zero_pad 2 (nat k)) n"
  using NumberToStringWithZeroPad_has [OF assms(1), of 2 "word_of_int k"] assms by (simp add: unat_word_of_int_32)

lemma put_time_has:
  assumes c: "cur_has c t n" and "length t + 40 \<le> n"
    and "0 \<le> h" and "h < 24" and "0 \<le> mi" and "mi < 60" and "0 \<le> s" and "s < 60"
  shows "\<exists>c'. put_time c h mi s 0 = Some c' \<and> cur_has c' (t @ iso_time (nat h) (nat mi) (nat s)) n"
proof -
  have len: "length (zero_pad 2 (nat h)) \<le> 2" "length (zero_pad 2 (nat mi)) \<le> 2"
    using assms length_field [of h] length_field [of mi] by simp_all
  obtain c1 where c1: "put_chars c '' '' = Some c1" "cur_has c1 (t @ '' '') n"
    using put_chars_has [OF c, of "'' ''"] assms(2) by auto
  obtain c2 where c2: "NumberToStringWithZeroPad c1 (word_of_int h) 2 = Some c2"
    "cur_has c2 ((t @ '' '') @ zero_pad 2 (nat h)) n"
    using field_has [OF c1(2), of h] assms by auto
  obtain c3 where c3: "put_chars c2 '':'' = Some c3" "cur_has c3 (((t @ '' '') @ zero_pad 2 (nat h)) @ '':'') n"
    using put_chars_has [OF c2(2), of "'':''"] assms(2) len by auto
  obtain c4 where c4: "NumberToStringWithZeroPad c3 (word_of_int mi) 2 = Some c4"
    "cur_has c4 ((((t @ '' '') @ zero_pad 2 (nat h)) @ '':'') @ zero_pad 2 (nat mi)) n"
    using field_has [OF c3(2), of mi] assms len by auto
  obtain c5 where c5: "put_chars c4 '':'' = Some c5"
    "cur_has c5 (((((t @ '' '') @ zero_pad 2 (nat h)) @ '':'') @ zero_pad 2 (nat mi)) @ '':'') n"
    using put_chars_has [OF c4(2), of "'':''"] assms(2) len by auto
  obtain c6 where c6: "NumberToStringWithZeroPad c5 (word_of_int s) 2 = Some c6"
    "cur_has c6 (t @ iso_time (nat h) (nat mi) (nat s)) n"
    using field_has [OF c5(2), of s] assms len by (auto simp: iso_time_def)
  show ?thesis using c1(1) c2(1) c3(1) c4(1) c5(1) c6 assms(7)
    by (simp add: put_time_def AppendTimestampSeconds_def AppendTimestampSeconds_prec_def)
qed

lemma EncodeDateTime_ISO:
  assumes "length garbage = 129" and "0 < y" and "y < 10 ^ 9" and "1 \<le> m" and "m \<le> 12" and "1 \<le> d" and "d \<le> 31"
    and t: "0 \<le> h" "h < 24" "0 \<le> mi" "mi < 60" "0 \<le> s" "s < 60"
  shows "\<exists>buf. EncodeDateTime y m d h mi s 0 ISO (garbage, 0) = Some buf \<and>
    c_string buf = iso_date (nat y) (nat m) (nat d) @ iso_time (nat h) (nat mi) (nat s)" (is "\<exists>buf. _ \<and> _ buf = ?text")
proof -
  have u: "unat (year_field y) = nat y" using assms by (simp add: year_field_def unsigned_of_int take_bit_int_eq_self)
  have len: "length (zero_pad 4 (nat y)) \<le> 9" "length (zero_pad 2 (nat m)) \<le> 2" "length (zero_pad 2 (nat d)) \<le> 2"
    using assms length_zero_pad [of "nat y" 8 4] length_zero_pad [of "nat m" 1 2] length_zero_pad [of "nat d" 1 2]
    by (auto simp: numeral_2_eq_2)
  have len': "length (zero_pad 2 (nat h)) \<le> 2" "length (zero_pad 2 (nat mi)) \<le> 2" "length (zero_pad 2 (nat s)) \<le> 2"
    using t length_field [of h] length_field [of mi] length_field [of s] by simp_all
  obtain c1 where c1: "NumberToStringWithZeroPad (garbage, 0) (year_field y) 4 = Some c1"
    "cur_has c1 (zero_pad 4 (nat y)) 129"
    using NumberToStringWithZeroPad_has [OF cur_has_start, of 4 garbage "year_field y"] assms(1) u by auto
  obtain c2 where c2: "put_chars c1 ''-'' = Some c2" "cur_has c2 (zero_pad 4 (nat y) @ ''-'') 129"
    using put_chars_has [OF c1(2), of "''-''"] len by auto
  obtain c3 where c3: "NumberToStringWithZeroPad c2 (word_of_int m) 2 = Some c3"
    "cur_has c3 ((zero_pad 4 (nat y) @ ''-'') @ zero_pad 2 (nat m)) 129"
    using field_has [OF c2(2), of m] len assms by auto
  obtain c4 where c4: "put_chars c3 ''-'' = Some c4"
    "cur_has c4 (((zero_pad 4 (nat y) @ ''-'') @ zero_pad 2 (nat m)) @ ''-'') 129"
    using put_chars_has [OF c3(2), of "''-''"] len by auto
  obtain c5 where c5: "NumberToStringWithZeroPad c4 (word_of_int d) 2 = Some c5"
    "cur_has c5 (iso_date (nat y) (nat m) (nat d)) 129"
    using field_has [OF c4(2), of d] len assms by (auto simp: iso_date_def)
  have "length (iso_date (nat y) (nat m) (nat d)) \<le> 15" using len by (simp add: iso_date_def)
  then obtain c6 where c6: "put_time c5 h mi s 0 = Some c6" "cur_has c6 ?text 129"
    using put_time_has [OF c5(2) _ t] by auto
  have "CHR 0x00 \<notin> set ?text"
    using digit_chars_ok zero_pad_digits by (fastforce simp: iso_date_def iso_time_def)
  moreover have "length ?text + 3 < 129" using len len' by (simp add: iso_date_def iso_time_def)
  ultimately obtain buf where "put_era c6 y = Some buf" "c_string buf = ?text"
    using c_string_has [OF c6(2), of y] assms(2) by (auto simp: era_def)
  then show ?thesis
    using c1(1) c2(1) c3(1) c4(1) c5(1) c6(1) assms(4,5)
    by (simp add: EncodeDateTime_def checked kMonthsPerYear_def)
qed

lemma fraction_loop_keeps:
  "base + p < length buf \<Longrightarrow> base < lp \<Longrightarrow>
   \<exists>buf' l. fraction_loop buf base p v seen lp = Some (buf', v div 10 ^ p, l) \<and> length buf' = length buf \<and>
     (\<forall>i \<le> base. buf' ! i = buf ! i) \<and> base < l"
proof (induction p arbitrary: buf v seen lp)
  case (Suc p)
  have d: "v div 10 div 10 ^ p = v div (10 * 10 ^ p)" by (simp add: div_mult2_eq)
  show ?case
  proof (cases "seen \<or> v mod 10 \<noteq> 0")
    case True
    let ?b = "buf[base + Suc p := digit_char (v mod 10)]"
    obtain buf' l where "fraction_loop ?b base p (v div 10) True lp = Some (buf', v div 10 div 10 ^ p, l)"
      "length buf' = length buf" "\<forall>i \<le> base. buf' ! i = ?b ! i" "base < l"
      using Suc.IH [of ?b lp "v div 10" True] Suc.prems by auto
    then show ?thesis using True Suc.prems by (auto simp: Let_def d vec_put_def)
  next
    case False
    then show ?thesis
      using Suc.IH [of buf "base + Suc p" "v div 10" False] Suc.prems by (auto simp: Let_def d)
  qed
qed simp

text \<open>
  The text of a timestamp of whole seconds is the date and the time of day in decimal.
\<close>

theorem Timestamp_ToString_whole_seconds:
  assumes "valid_date y m d" and "0 < y" and "y \<le> 280000"
    and "0 \<le> h" and "h < 24" and "0 \<le> mi" and "mi < 60" and "0 \<le> s" and "s < 60"
    and "length garbage = kMaxDateTimeLen + 1"
  shows "\<exists>ts. Timestamp_FromYMDHMS y m d h mi s = Some (Inr ts) \<and>
    Timestamp_ToString garbage ts =
      Some (iso_date (nat y) (nat m) (nat d) @ iso_time (nat h) (nat mi) (nat s))"
proof -
  have y: "- 4711 \<le> y" using assms(2) by simp
  note T = Timestamp_value [OF assms(1) y assms(3-9)]
  note b = valid_date_bounds [OF assms(1)]
  define ts where "ts = (\<lparr>ts_value = word_of_int (julian y m d * kMicroSecondsPerDay + BuildTime h mi s)\<rparr> :: Timestamp)"
  have f: "ts_date ts = (y, m, d)" "ts_time ts = (h, mi, s, 0)"
    using SplitTime_Build [OF assms(4,6-9)] unfolding ts_def ts_date_def ts_time_def Timestamp.select_convs T(2)
    by (simp_all add: T(3))
  have g: "length garbage = 129" using assms(10) by (simp add: kMaxDateTimeLen_def)
  obtain buf where "EncodeDateTime y m d h mi s 0 ISO (garbage, 0) = Some buf"
    "c_string buf = iso_date (nat y) (nat m) (nat d) @ iso_time (nat h) (nat mi) (nat s)"
    using EncodeDateTime_ISO [OF g assms(2) _ b(1,2,3,9) assms(4-9)] assms(3) by auto
  then have "Timestamp_ToString garbage ts =
      Some (iso_date (nat y) (nat m) (nat d) @ iso_time (nat h) (nat mi) (nat s))"
    using g by (simp add: Timestamp_ToString_def f checked kMaxDateTimeLen_def)
  then show ?thesis using T(1) by (auto simp: ts_def)
qed

theorem Timestamp_ToString_whole_seconds_witness:
  "\<exists>ts. Timestamp_FromYMDHMS 2020 2 29 23 59 7 = Some (Inr ts) \<and>
     Timestamp_ToString (replicate 129 (CHR ''x'')) ts = Some ''2020-02-29 23:59:07''"
proof -
  have v: "valid_date 2020 2 29" by (simp add: valid_date_def gregorian_month_days_def gregorian_leap_def)
  have "iso_date 2020 2 29 @ iso_time 23 59 7 = ''2020-02-29 23:59:07''"
    by (simp add: iso_date_def iso_time_def zero_pad_def to_string.simps)
  then show ?thesis
    using Timestamp_ToString_whole_seconds [OF v, of 23 59 7 "replicate 129 (CHR ''x'')"]
    by (simp add: kMaxDateTimeLen_def)
qed

text \<open>
  C25. With a fraction of a second the text is wrong: the character after the decimal point is one
  that the loop never writes, so that what the uninitialised array held becomes part of the text.
\<close>

theorem AppendTimestampSeconds_uninitialised:
  assumes "0 \<le> sec" and "sec < 60" and "0 < fsec" and "fsec < 1000000" and "pos + 12 \<le> length buf"
  shows "\<exists>buf' fin. AppendTimestampSeconds (buf, pos) sec fsec = Some (buf', fin) \<and>
    pos + 3 < fin \<and> buf' ! (pos + 3) = buf ! (pos + 3)"
proof -
  define t where "t = zero_pad 2 (nat sec)"
  have t: "take 2 (drop (nat sec * 2) kDigitTable) = t" "length t = 2"
    using kDigitTable_entry [of "nat sec"] zero_pad_two [of "nat sec"] assms(1,2) by (simp_all add: t_def)
  let ?b1 = "take pos buf @ t @ drop (pos + 2) buf"
  have n: "NumberToStringWithZeroPad (buf, pos) (word_of_int sec) 2 = Some (?b1, pos + 2)"
  proof -
    have "unat (word_of_int sec :: u32) = nat sec" "(word_of_int sec :: u32) < 100"
      using assms(1,2) by (simp_all add: unat_word_of_int_32 word_less_nat_alt)
    then show ?thesis using assms(5) t by (simp add: NumberToStringWithZeroPad_def put_chars_def)
  qed
  define b2 where "b2 = take (pos + 2) ?b1 @ ''.'' @ drop (pos + 3) ?b1"
  have p: "put_chars (?b1, pos + 2) ''.'' = Some (b2, pos + 3)"
    using assms(5) t by (simp add: put_chars_def b2_def)
  have same: "b2 ! (pos + 3) = buf ! (pos + 3)" and len: "length b2 = length buf"
    using assms(5) t unfolding b2_def by (simp_all add: nth_append numeral_3_eq_3)
  have "nat \<bar>fsec\<bar> div 10 ^ 6 = 0" using assms(3,4) by simp
  moreover obtain buf' l where "fraction_loop b2 (pos + 3) 6 (nat \<bar>fsec\<bar>) False (pos + 3 + 6) =
    Some (buf', nat \<bar>fsec\<bar> div 10 ^ 6, l)" "\<forall>i \<le> pos + 3. buf' ! i = b2 ! i" "pos + 3 < l"
    using fraction_loop_keeps [of "pos + 3" 6 b2 "pos + 3 + 6" "nat \<bar>fsec\<bar>" False] len assms(5) by auto
  ultimately show ?thesis using n p same assms(1,3)
    by (simp add: AppendTimestampSeconds_def AppendTimestampSeconds_prec_def kMaxTimestampPrecision_def)
qed

theorem AppendTimestampSeconds_uninitialised_witness:
  "\<exists>buf' fin. AppendTimestampSeconds (replicate 20 (CHR ''x''), 0) 7 500000 = Some (buf', fin) \<and>
     3 < fin \<and> buf' ! 3 = CHR ''x''"
  using AppendTimestampSeconds_uninitialised [of 7 500000 0 "replicate 20 (CHR ''x'')"] by auto

end
