(* ===== verification/Varlen.thy ===== *)
theory Varlen
  imports RuntimeTypes "HOL-Library.List_Lexorder"
begin

text \<open>
  Variable-length values: \<^verbatim>\<open>VarlenEntry\<close> with its small-string optimisation, and \<^verbatim>\<open>Blob\<close>
  (\<^verbatim>\<open>sql/runtime_types.h\<close>). Memory is a partial function from addresses to bytes; a read of an
  address outside it is \<open>None\<close>.

  The lemmas show that the comparison operators of SQL values are those of a linear order on what the
  values stand for. That contract is the locale \<open>ordered_values\<close>; dates, timestamps and variable-length
  strings interpret it.
\<close>

section \<open>Memory\<close>

type_synonym memory = "nat \<Rightarrow> u8 option"

fun read_bytes :: "memory \<Rightarrow> nat \<Rightarrow> nat \<Rightarrow> u8 list option" where
  "read_bytes mem p 0 = Some []"
| "read_bytes mem p (Suc n) = do {
     b \<leftarrow> mem p;
     bs \<leftarrow> read_bytes mem (Suc p) n;
     Some (b # bs) }"

text \<open>
  \<^verbatim>\<open>std::memcmp\<close> on two ranges of the same length: the difference of the first bytes that differ.
  Only its sign is specified, and only its sign is used.
\<close>

fun memcmp :: "u8 list \<Rightarrow> u8 list \<Rightarrow> int" where
  "memcmp (a # as) (b # bs) = (if a = b then memcmp as bs else uint a - uint b)"
| "memcmp _ _ = 0"

section \<open>Variable-length entries\<close>

text \<open>
  The last eight bytes of an entry are a pointer, or the part of a short string after its prefix: the
  copy of a string of five to twelve bytes into \<^verbatim>\<open>prefix_\<close> runs over into the pointer.
\<close>

datatype content_slot = Pointer nat | Bytes "u8 list"

record VarlenEntry =
  v_size :: u32
  v_prefix :: "u8 list"
  v_content :: content_slot

definition kPrefixLength :: nat where
  "kPrefixLength = 4"

definition GetInlineThreshold :: nat where
  "GetInlineThreshold = 16 - 4"

definition GetPrefixSize :: nat where
  "GetPrefixSize = kPrefixLength"

definition VarlenEntry_GetSize :: "VarlenEntry \<Rightarrow> u32" where
  "VarlenEntry_GetSize v = v_size v"

definition IsInlined :: "VarlenEntry \<Rightarrow> bool" where
  "IsInlined v \<longleftrightarrow> unat (VarlenEntry_GetSize v) \<le> GetInlineThreshold"

text \<open>\<open>garbage\<close> is what the eight bytes of \<^verbatim>\<open>content_\<close> hold before they are written.\<close>

definition VarlenEntry_Create :: "memory \<Rightarrow> u8 list \<Rightarrow> nat \<Rightarrow> u32 \<Rightarrow> VarlenEntry option" where
  "VarlenEntry_Create mem garbage content len =
     (if unat len \<le> GetInlineThreshold
      then do {
        bs \<leftarrow> (if len \<noteq> 0 then read_bytes mem content (unat len) else Some []);
        let raw = bs @ drop (unat len) (replicate GetPrefixSize 0 @ garbage);
        Some \<lparr>v_size = len, v_prefix = take kPrefixLength raw, v_content = Bytes (drop kPrefixLength raw)\<rparr> }
      else do {
        bs \<leftarrow> read_bytes mem content kPrefixLength;
        Some \<lparr>v_size = len, v_prefix = bs, v_content = Pointer content\<rparr> })"

text \<open>The first \<open>n\<close> bytes at the address that \<^verbatim>\<open>GetContent()\<close> returns.\<close>

definition GetContent :: "memory \<Rightarrow> VarlenEntry \<Rightarrow> nat \<Rightarrow> u8 list option" where
  "GetContent mem v n =
     (case v_content v of
        Bytes rest \<Rightarrow> if IsInlined v \<and> n \<le> length (v_prefix v @ rest) then Some (take n (v_prefix v @ rest)) else None
      | Pointer p \<Rightarrow> if IsInlined v then None else read_bytes mem p n)"

definition CompareEqualOrNot :: "bool \<Rightarrow> memory \<Rightarrow> VarlenEntry \<Rightarrow> VarlenEntry \<Rightarrow> bool option" where
  "CompareEqualOrNot EqualityCheck mem left right =
     (if v_size left = v_size right \<and> memcmp (v_prefix left) (v_prefix right) = 0
      then do {
        l \<leftarrow> GetContent mem left (unat (v_size left));
        r \<leftarrow> GetContent mem right (unat (v_size left));
        Some (if memcmp l r = 0 then EqualityCheck else \<not> EqualityCheck) }
      else Some (\<not> EqualityCheck))"

definition VarlenEntry_Compare :: "memory \<Rightarrow> VarlenEntry \<Rightarrow> VarlenEntry \<Rightarrow> int option" where
  "VarlenEntry_Compare mem left right = do {
     let min_len = min (VarlenEntry_GetSize left) (VarlenEntry_GetSize right);
     l \<leftarrow> GetContent mem left (unat min_len);
     r \<leftarrow> GetContent mem right (unat min_len);
     let result = memcmp l r;
     Some (if result \<noteq> 0 then result else sint (VarlenEntry_GetSize left - VarlenEntry_GetSize right)) }"

definition VarlenEntry_eq :: "memory \<Rightarrow> VarlenEntry \<Rightarrow> VarlenEntry \<Rightarrow> bool option" where
  "VarlenEntry_eq mem a b = CompareEqualOrNot True mem a b"

definition VarlenEntry_ne :: "memory \<Rightarrow> VarlenEntry \<Rightarrow> VarlenEntry \<Rightarrow> bool option" where
  "VarlenEntry_ne mem a b = CompareEqualOrNot False mem a b"

definition VarlenEntry_less :: "memory \<Rightarrow> VarlenEntry \<Rightarrow> VarlenEntry \<Rightarrow> bool option" where
  "VarlenEntry_less mem a b = do { c \<leftarrow> VarlenEntry_Compare mem a b; Some (c < 0) }"

definition VarlenEntry_leq :: "memory \<Rightarrow> VarlenEntry \<Rightarrow> VarlenEntry \<Rightarrow> bool option" where
  "VarlenEntry_leq mem a b = do { c \<leftarrow> VarlenEntry_Compare mem a b; Some (c \<le> 0) }"

definition VarlenEntry_greater :: "memory \<Rightarrow> VarlenEntry \<Rightarrow> VarlenEntry \<Rightarrow> bool option" where
  "VarlenEntry_greater mem a b = do { c \<leftarrow> VarlenEntry_Compare mem a b; Some (c > 0) }"

definition VarlenEntry_geq :: "memory \<Rightarrow> VarlenEntry \<Rightarrow> VarlenEntry \<Rightarrow> bool option" where
  "VarlenEntry_geq mem a b = do { c \<leftarrow> VarlenEntry_Compare mem a b; Some (c \<ge> 0) }"

section \<open>Blobs\<close>

record Blob =
  blob_data :: nat
  blob_size :: u64

definition Blob_Compare :: "memory \<Rightarrow> Blob \<Rightarrow> Blob \<Rightarrow> int option" where
  "Blob_Compare mem left right = do {
     let min_len = min (blob_size left) (blob_size right);
     result \<leftarrow> (if min_len = 0 then Some 0
       else do {
         l \<leftarrow> read_bytes mem (blob_data left) (unat (blob_size left));
         r \<leftarrow> read_bytes mem (blob_data right) (unat (blob_size left));
         Some (memcmp l r) });
     Some (if result \<noteq> 0 then result else sint (ucast (blob_size left - blob_size right) :: u32)) }"

definition Blob_eq :: "memory \<Rightarrow> Blob \<Rightarrow> Blob \<Rightarrow> bool option" where
  "Blob_eq mem a b =
     (if blob_size a = blob_size b
      then do {
        l \<leftarrow> read_bytes mem (blob_data a) (unat (blob_size a));
        r \<leftarrow> read_bytes mem (blob_data b) (unat (blob_size a));
        Some (memcmp l r = 0) }
      else Some False)"

definition Blob_ne :: "memory \<Rightarrow> Blob \<Rightarrow> Blob \<Rightarrow> bool option" where
  "Blob_ne mem a b = do { e \<leftarrow> Blob_eq mem a b; Some (\<not> e) }"

definition Blob_less :: "memory \<Rightarrow> Blob \<Rightarrow> Blob \<Rightarrow> bool option" where
  "Blob_less mem a b = do { c \<leftarrow> Blob_Compare mem a b; Some (c < 0) }"

definition Blob_leq :: "memory \<Rightarrow> Blob \<Rightarrow> Blob \<Rightarrow> bool option" where
  "Blob_leq mem a b = do { c \<leftarrow> Blob_Compare mem a b; Some (c \<le> 0) }"

definition Blob_greater :: "memory \<Rightarrow> Blob \<Rightarrow> Blob \<Rightarrow> bool option" where
  "Blob_greater mem a b = do { c \<leftarrow> Blob_Compare mem a b; Some (c > 0) }"

definition Blob_geq :: "memory \<Rightarrow> Blob \<Rightarrow> Blob \<Rightarrow> bool option" where
  "Blob_geq mem a b = do { c \<leftarrow> Blob_Compare mem a b; Some (c \<ge> 0) }"

section \<open>Comparing bytes\<close>

lemma read_bytes_length: "read_bytes mem p n = Some bs \<Longrightarrow> length bs = n"
  by (induction n arbitrary: p bs) (auto split: Option.bind_splits)

lemma read_bytes_take:
  "read_bytes mem p n = Some bs \<Longrightarrow> k \<le> n \<Longrightarrow> read_bytes mem p k = Some (take k bs)"
proof (induction n arbitrary: p bs k)
  case (Suc n)
  then show ?case by (cases k) (auto split: Option.bind_splits)
qed simp

lemma memcmp_zero: "length a = length b \<Longrightarrow> memcmp a b = 0 \<longleftrightarrow> a = b"
  by (induction a b rule: memcmp.induct) (auto simp: word_uint_eq_iff)

lemma memcmp_negative: "length a = length b \<Longrightarrow> memcmp a b < 0 \<longleftrightarrow> a < b"
  by (induction a b rule: memcmp.induct) (auto simp: word_less_def)

text \<open>Lexicographic order, by the common length first.\<close>

lemma less_by_prefix:
  fixes a b :: "u8 list"
  assumes "k = min (length a) (length b)"
  shows "a < b \<longleftrightarrow> take k a < take k b \<or> take k a = take k b \<and> length a < length b"
  using assms
proof (induction a arbitrary: b k)
  case Nil
  then show ?case by (cases b) auto
next
  case (Cons x a)
  then show ?case by (cases b) auto
qed

lemma equal_by_prefix:
  assumes "k = min (length a) (length b)"
  shows "a = b \<longleftrightarrow> take k a = take k b \<and> length a = length b"
  using assms by auto

section \<open>Entries and the strings they hold\<close>

definition varlen_holds :: "memory \<Rightarrow> VarlenEntry \<Rightarrow> u8 list \<Rightarrow> bool" where
  "varlen_holds mem v bs \<longleftrightarrow>
     unat (v_size v) = length bs \<and> length (v_prefix v) = 4 \<and>
     v_prefix v = take 4 (bs @ replicate 4 0) \<and>
     (case v_content v of
        Bytes rest \<Rightarrow> length bs \<le> 12 \<and> length rest = 8 \<and> take (length bs) (v_prefix v @ rest) = bs
      | Pointer p \<Rightarrow> 12 < length bs \<and> read_bytes mem p (length bs) = Some bs)"

lemmas varlen_sizes = GetInlineThreshold_def GetPrefixSize_def kPrefixLength_def VarlenEntry_GetSize_def

lemma Create_holds:
  assumes "read_bytes mem content (unat len) = Some bs" and "length garbage = 8"
  shows "\<exists>v. VarlenEntry_Create mem garbage content len = Some v \<and> varlen_holds mem v bs"
proof (cases "unat len \<le> 12")
  case True
  have "length bs = unat len" using read_bytes_length [OF assms(1)] .
  moreover have "len = 0 \<Longrightarrow> bs = []" using assms(1) by simp
  ultimately show ?thesis using True assms
    by (cases "len = 0") (auto simp: VarlenEntry_Create_def varlen_holds_def varlen_sizes Let_def take_Cons' min_def)
next
  case False
  then have "read_bytes mem content 4 = Some (take 4 bs)" using assms(1) by (intro read_bytes_take) auto
  then show ?thesis using False assms read_bytes_length [OF assms(1)]
    by (auto simp: VarlenEntry_Create_def varlen_holds_def varlen_sizes)
qed

lemma GetContent_holds:
  assumes "varlen_holds mem v bs" and "n \<le> length bs"
  shows "GetContent mem v n = Some (take n bs)"
proof (cases "v_content v")
  case (Pointer p)
  then show ?thesis using assms read_bytes_take [of mem p "length bs" bs n]
    by (auto simp: varlen_holds_def GetContent_def IsInlined_def varlen_sizes)
next
  case (Bytes rest)
  have h: "unat (v_size v) = length bs" "length (v_prefix v) = 4" "length bs \<le> 12" "length rest = 8"
    and eq: "take (length bs) (v_prefix v @ rest) = bs"
    using assms(1) unfolding varlen_holds_def Bytes content_slot.case by blast+
  have "take n (v_prefix v @ rest) = take n bs"
    using arg_cong [OF eq, of "take n"] assms(2) by (simp only: take_take min_absorb1)
  then show ?thesis using h assms(2) Bytes by (simp add: GetContent_def IsInlined_def varlen_sizes)
qed

lemma Compare_holds:
  assumes "varlen_holds mem a as" and "varlen_holds mem b bs"
    and "length as < 2 ^ 31" and "length bs < 2 ^ 31"
  obtains c where "VarlenEntry_Compare mem a b = Some c" and "c < 0 \<longleftrightarrow> as < bs" and "c = 0 \<longleftrightarrow> as = bs"
proof -
  have s: "unat (v_size a) = length as" "unat (v_size b) = length bs" using assms by (simp_all add: varlen_holds_def)
  define k where "k = min (length as) (length bs)"
  have k: "unat (min (v_size a) (v_size b)) = k" using s by (simp add: k_def min_def word_le_nat_alt)
  have kl: "k \<le> length as" "k \<le> length bs" by (simp_all add: k_def)
  let ?r = "memcmp (take k as) (take k bs)" and ?d = "sint (v_size a - v_size b)"
  have r: "VarlenEntry_Compare mem a b = Some (if ?r \<noteq> 0 then ?r else ?d)"
    using GetContent_holds [OF assms(1) kl(1)] GetContent_holds [OF assms(2) kl(2)]
    by (simp add: VarlenEntry_Compare_def VarlenEntry_GetSize_def k Let_def)
  have d: "?d = int (length as) - int (length bs)"
  proof -
    have e: "v_size a - v_size b = word_of_int (int (length as) - int (length bs))"
      by (simp add: s [symmetric])
    show ?thesis unfolding e by (rule sint_word_of_int_32) (use assms(3,4) in auto)
  qed
  have m: "?r = 0 \<longleftrightarrow> take k as = take k bs" "?r < 0 \<longleftrightarrow> take k as < take k bs"
    using memcmp_zero [of "take k as" "take k bs"] memcmp_negative [of "take k as" "take k bs"] kl by simp_all
  show thesis
  proof (rule that [OF r])
    show "(if ?r \<noteq> 0 then ?r else ?d) < 0 \<longleftrightarrow> as < bs"
      using m less_by_prefix [OF k_def] by (auto simp: d)
    show "(if ?r \<noteq> 0 then ?r else ?d) = 0 \<longleftrightarrow> as = bs"
      using m equal_by_prefix [OF k_def] by (auto simp: d)
  qed
qed

lemma CompareEqualOrNot_holds:
  assumes "varlen_holds mem a as" and "varlen_holds mem b bs"
  shows "CompareEqualOrNot e mem a b = Some (if as = bs then e else \<not> e)"
proof -
  have s: "unat (v_size a) = length as" "unat (v_size b) = length bs" using assms by (simp_all add: varlen_holds_def)
  then have sz: "v_size a = v_size b \<longleftrightarrow> length as = length bs" by (auto simp: word_unat_eq_iff)
  have p: "v_prefix a = take 4 (as @ replicate 4 0)" "v_prefix b = take 4 (bs @ replicate 4 0)"
    using assms by (simp_all add: varlen_holds_def)
  show ?thesis
  proof (cases "length as = length bs \<and> memcmp (v_prefix a) (v_prefix b) = 0")
    case True
    then show ?thesis
      using GetContent_holds [OF assms(1), of "length as"] GetContent_holds [OF assms(2), of "length as"] s sz
      by (simp add: CompareEqualOrNot_def memcmp_zero)
  next
    case False
    then have "as \<noteq> bs" using p by (auto simp: memcmp_zero)
    then show ?thesis using False sz by (auto simp: CompareEqualOrNot_def)
  qed
qed

section \<open>The contract of the comparison operators\<close>

text \<open>
  The six comparison operators of a value type whose values stand for the elements of a linear order.
  \<open>None\<close> is an access outside the memory.
\<close>

locale ordered_values =
  fixes valid :: "'v \<Rightarrow> bool"
    and key :: "'v \<Rightarrow> 'k::linorder"
    and eq ne less leq greater geq :: "'v \<Rightarrow> 'v \<Rightarrow> bool option"
  assumes eq_key: "valid a \<Longrightarrow> valid b \<Longrightarrow> eq a b = Some (key a = key b)"
    and ne_key: "valid a \<Longrightarrow> valid b \<Longrightarrow> ne a b = Some (key a \<noteq> key b)"
    and less_key: "valid a \<Longrightarrow> valid b \<Longrightarrow> less a b = Some (key a < key b)"
    and leq_key: "valid a \<Longrightarrow> valid b \<Longrightarrow> leq a b = Some (key a \<le> key b)"
    and greater_key: "valid a \<Longrightarrow> valid b \<Longrightarrow> greater a b = Some (key a > key b)"
    and geq_key: "valid a \<Longrightarrow> valid b \<Longrightarrow> geq a b = Some (key a \<ge> key b)"
begin

lemma exactly_one:
  "valid a \<Longrightarrow> valid b \<Longrightarrow>
   less a b = Some True \<and> eq a b = Some False \<and> greater a b = Some False \<or>
   less a b = Some False \<and> eq a b = Some True \<and> greater a b = Some False \<or>
   less a b = Some False \<and> eq a b = Some False \<and> greater a b = Some True"
  using less_linear [of "key a" "key b"] by (auto simp: less_key eq_key greater_key)

lemma swapped: "valid a \<Longrightarrow> valid b \<Longrightarrow> greater a b = less b a \<and> geq a b = leq b a"
  by (simp add: less_key greater_key leq_key geq_key)

lemma negated:
  "valid a \<Longrightarrow> valid b \<Longrightarrow> ne a b = map_option Not (eq a b) \<and> geq a b = map_option Not (less a b) \<and>
   leq a b = map_option Not (greater a b)"
  by (auto simp: eq_key ne_key less_key greater_key leq_key geq_key)

lemma less_trans_values:
  "valid a \<Longrightarrow> valid b \<Longrightarrow> valid c \<Longrightarrow> less a b = Some True \<Longrightarrow> less b c = Some True \<Longrightarrow> less a c = Some True"
  by (auto simp: less_key)

end

definition varlen_string :: "memory \<Rightarrow> VarlenEntry \<Rightarrow> u8 list" where
  "varlen_string mem v = the (GetContent mem v (unat (v_size v)))"

definition varlen_ok :: "memory \<Rightarrow> VarlenEntry \<Rightarrow> bool" where
  "varlen_ok mem v \<longleftrightarrow> length (varlen_string mem v) < 2 ^ 31 \<and> varlen_holds mem v (varlen_string mem v)"

lemma varlen_string_holds: "varlen_holds mem v bs \<Longrightarrow> varlen_string mem v = bs"
  using GetContent_holds [of mem v bs "length bs"] by (simp add: varlen_string_def varlen_holds_def)

lemma varlen_ok_holds: "varlen_holds mem v bs \<Longrightarrow> length bs < 2 ^ 31 \<Longrightarrow> varlen_ok mem v"
  by (simp add: varlen_ok_def varlen_string_holds)

lemma varlen_ok_compare:
  assumes "varlen_ok mem a" and "varlen_ok mem b"
  obtains c where "VarlenEntry_Compare mem a b = Some c"
    and "c < 0 \<longleftrightarrow> varlen_string mem a < varlen_string mem b" and "c = 0 \<longleftrightarrow> varlen_string mem a = varlen_string mem b"
  using assms Compare_holds unfolding varlen_ok_def by blast

interpretation varlen: ordered_values "varlen_ok mem" "varlen_string mem" "VarlenEntry_eq mem" "VarlenEntry_ne mem"
  "VarlenEntry_less mem" "VarlenEntry_leq mem" "VarlenEntry_greater mem" "VarlenEntry_geq mem"
  for mem
proof
  fix a b
  assume ok: "varlen_ok mem a" "varlen_ok mem b"
  show "VarlenEntry_eq mem a b = Some (varlen_string mem a = varlen_string mem b)"
    "VarlenEntry_ne mem a b = Some (varlen_string mem a \<noteq> varlen_string mem b)"
    using ok CompareEqualOrNot_holds unfolding varlen_ok_def by (auto simp: VarlenEntry_eq_def VarlenEntry_ne_def)
  obtain c where c: "VarlenEntry_Compare mem a b = Some c"
    "c < 0 \<longleftrightarrow> varlen_string mem a < varlen_string mem b" "c = 0 \<longleftrightarrow> varlen_string mem a = varlen_string mem b"
    by (rule varlen_ok_compare [OF ok])
  then show "VarlenEntry_less mem a b = Some (varlen_string mem a < varlen_string mem b)"
    "VarlenEntry_leq mem a b = Some (varlen_string mem a \<le> varlen_string mem b)"
    "VarlenEntry_greater mem a b = Some (varlen_string mem a > varlen_string mem b)"
    "VarlenEntry_geq mem a b = Some (varlen_string mem a \<ge> varlen_string mem b)"
    by (auto simp: VarlenEntry_less_def VarlenEntry_leq_def VarlenEntry_greater_def VarlenEntry_geq_def)
qed

interpretation dates: ordered_values "\<lambda>_. True" date_value "\<lambda>a b. Some (Date_eq a b)" "\<lambda>a b. Some (Date_ne a b)"
  "\<lambda>a b. Some (Date_less a b)" "\<lambda>a b. Some (Date_leq a b)" "\<lambda>a b. Some (Date_greater a b)"
  "\<lambda>a b. Some (Date_geq a b)"
  by unfold_locales (simp_all add: Date_eq_def Date_ne_def Date_less_def Date_leq_def Date_greater_def Date_geq_def)

interpretation timestamps: ordered_values "\<lambda>_. True" ts_value "\<lambda>a b. Some (Timestamp_eq a b)"
  "\<lambda>a b. Some (Timestamp_ne a b)" "\<lambda>a b. Some (Timestamp_less a b)" "\<lambda>a b. Some (Timestamp_leq a b)"
  "\<lambda>a b. Some (Timestamp_greater a b)" "\<lambda>a b. Some (Timestamp_geq a b)"
  by unfold_locales (simp_all add: Timestamp_eq_def Timestamp_ne_def Timestamp_less_def Timestamp_leq_def
      Timestamp_greater_def Timestamp_geq_def)

section \<open>Properties\<close>

text \<open>
  C26. The small-string optimisation is invisible: an entry made from a string of any length gives the
  string back, and the equality test, which compares the size and a zero-padded prefix first, decides
  equality of the two strings whether they are inlined or not.
\<close>

theorem VarlenEntry_equality:
  assumes "read_bytes mem p (unat m) = Some as" and "read_bytes mem q (unat n) = Some bs"
    and "length garbage = 8" and "length garbage' = 8"
  shows "\<exists>a b. VarlenEntry_Create mem garbage p m = Some a \<and> VarlenEntry_Create mem garbage' q n = Some b \<and>
    GetContent mem a (unat (VarlenEntry_GetSize a)) = Some as \<and>
    VarlenEntry_eq mem a b = Some (as = bs) \<and> VarlenEntry_ne mem a b = Some (as \<noteq> bs)"
proof -
  obtain a b where v: "VarlenEntry_Create mem garbage p m = Some a" "varlen_holds mem a as"
    "VarlenEntry_Create mem garbage' q n = Some b" "varlen_holds mem b bs"
    using Create_holds assms by meson
  then have "VarlenEntry_eq mem a b = Some (as = bs)" "VarlenEntry_ne mem a b = Some (as \<noteq> bs)"
    by (simp_all add: VarlenEntry_eq_def VarlenEntry_ne_def CompareEqualOrNot_holds)
  moreover have "GetContent mem a (unat (VarlenEntry_GetSize a)) = Some as"
    using GetContent_holds [OF v(2), of "length as"] v(2) by (simp add: varlen_holds_def VarlenEntry_GetSize_def)
  ultimately show ?thesis using v by blast
qed

text \<open>A memory for the examples: every address holds its own low byte.\<close>

lemma read_bytes_counting:
  "read_bytes (\<lambda>i. Some (of_nat i)) p n = Some (map (\<lambda>i. of_nat (p + i)) [0..<n])"
  by (induction n arbitrary: p) (simp_all add: upt_conv_Cons map_Suc_upt [symmetric] comp_def del: upt_Suc)

theorem VarlenEntry_equality_witness:
  "\<exists>a b. VarlenEntry_Create (\<lambda>i. Some (of_nat i)) (replicate 8 7) 1 3 = Some a \<and>
     VarlenEntry_Create (\<lambda>i. Some (of_nat i)) (replicate 8 9) 257 3 = Some b \<and>
     VarlenEntry_eq (\<lambda>i. Some (of_nat i)) a b = Some True"
proof -
  let ?mem = "\<lambda>i. Some (of_nat i) :: u8 option"
  have "read_bytes ?mem 1 (unat (3 :: u32)) = Some [1, 2, 3]" "read_bytes ?mem 257 (unat (3 :: u32)) = Some [1, 2, 3]"
    by (simp_all add: read_bytes_counting upt_rec)
  then show ?thesis using VarlenEntry_equality [of ?mem 1 3 "[1, 2, 3]" 257 3 "[1, 2, 3]" "replicate 8 7" "replicate 8 9"]
    by auto
qed

text \<open>
  C27. The ordering operators of strings are those of the lexicographic order of the byte strings: they
  agree with each other and with the equality test, exactly one of less, equal and greater holds, and
  less is transitive. Strings are shorter than two gigabytes, since the difference of the sizes is
  returned as a signed 32-bit number.
\<close>

theorem VarlenEntry_order:
  assumes "varlen_ok mem a" and "varlen_ok mem b" and "varlen_ok mem c"
  shows "VarlenEntry_less mem a b = Some (varlen_string mem a < varlen_string mem b) \<and>
    (VarlenEntry_less mem a b = Some True \<and> VarlenEntry_eq mem a b = Some False \<and> VarlenEntry_greater mem a b = Some False \<or>
     VarlenEntry_less mem a b = Some False \<and> VarlenEntry_eq mem a b = Some True \<and> VarlenEntry_greater mem a b = Some False \<or>
     VarlenEntry_less mem a b = Some False \<and> VarlenEntry_eq mem a b = Some False \<and> VarlenEntry_greater mem a b = Some True) \<and>
    VarlenEntry_geq mem a b = VarlenEntry_leq mem b a \<and>
    VarlenEntry_geq mem a b = map_option Not (VarlenEntry_less mem a b) \<and>
    (VarlenEntry_less mem a b = Some True \<longrightarrow> VarlenEntry_less mem b c = Some True \<longrightarrow>
      VarlenEntry_less mem a c = Some True)"
  using varlen.less_key [OF assms(1,2)] varlen.exactly_one [OF assms(1,2)] varlen.swapped [OF assms(1,2)]
    varlen.negated [OF assms(1,2)] varlen.less_trans_values [OF assms] by blast

theorem VarlenEntry_order_witness:
  "\<exists>a b. VarlenEntry_Create (\<lambda>i. Some (of_nat i)) (replicate 8 7) 1 3 = Some a \<and>
     VarlenEntry_Create (\<lambda>i. Some (of_nat i)) (replicate 8 9) 1 20 = Some b \<and>
     VarlenEntry_geq (\<lambda>i. Some (of_nat i)) a b = VarlenEntry_leq (\<lambda>i. Some (of_nat i)) b a"
proof -
  let ?mem = "\<lambda>i. Some (of_nat i) :: u8 option"
  obtain a where a: "VarlenEntry_Create ?mem (replicate 8 7) 1 3 = Some a" "varlen_ok ?mem a"
    using Create_holds [OF read_bytes_counting, of "replicate 8 7" 1 3] varlen_ok_holds by force
  obtain b where b: "VarlenEntry_Create ?mem (replicate 8 9) 1 20 = Some b" "varlen_ok ?mem b"
    using Create_holds [OF read_bytes_counting, of "replicate 8 9" 1 20] varlen_ok_holds by force
  show ?thesis using VarlenEntry_order [OF a(2) b(2) b(2)] a b by blast
qed

text \<open>
  C28. \<^verbatim>\<open>Blob::Compare\<close> hands \<^verbatim>\<open>memcmp\<close> the size of the left blob: when the right blob is shorter, not
  empty and lies at the end of the readable memory, the comparison reads beyond it.
\<close>

theorem Blob_Compare_overread:
  assumes "blob_size right < blob_size left" and "blob_size right \<noteq> 0"
    and "mem (blob_data right + unat (blob_size right)) = None"
  shows "Blob_Compare mem left right = None"
proof -
  have short: "read_bytes mem p n = None" if "mem (p + k) = None" "k < n" for p k n
    using that
  proof (induction n arbitrary: p k)
    case (Suc n)
    then show ?case by (cases k) (auto split: Option.bind_splits)
  qed simp
  have "read_bytes mem (blob_data right) (unat (blob_size left)) = None"
    using short [OF assms(3)] assms(1) by (simp add: word_less_nat_alt)
  then show ?thesis using assms(1,2) by (auto simp: Blob_Compare_def min_def split: Option.bind_splits)
qed

theorem Blob_Compare_overread_witness:
  "Blob_Compare (\<lambda>i. if i < 8 then Some 65 else None) \<lparr>blob_data = 0, blob_size = 2\<rparr> \<lparr>blob_data = 7, blob_size = 1\<rparr> = None"
  by (rule Blob_Compare_overread) simp_all

end
