(* ===== verification/Token.thy ===== *)
theory Token
  imports Prelude
begin

text \<open>
  The tokens of TPL (\<^verbatim>\<open>parsing/token.h\<close>): the enumeration \<^verbatim>\<open>Token::Type\<close>, the table
  \<^verbatim>\<open>TOKENS\<close> with the name, spelling and precedence of each token, and the predicates on them. The
  constructors carry the prefix \<open>T_\<close> of the macro because some of the bare names are syntax here.
\<close>

section \<open>Tokens\<close>

datatype TokenType =
    T_LEFT_PAREN | T_RIGHT_PAREN | T_LEFT_BRACE | T_RIGHT_BRACE | T_LEFT_BRACKET
  | T_RIGHT_BRACKET | T_ARROW | T_BANG | T_BIT_NOT | T_COLON | T_DOT | T_SEMI | T_AT | T_EQUAL
  | T_COMMA | T_OR | T_AND | T_BIT_OR | T_BIT_XOR | T_AMPERSAND | T_BIT_SHL | T_BIT_SHR | T_PLUS
  | T_MINUS | T_STAR | T_SLASH | T_PERCENT | T_BANG_EQUAL | T_EQUAL_EQUAL | T_GREATER
  | T_GREATER_EQUAL | T_LESS | T_LESS_EQUAL | T_IDENTIFIER | T_BUILTIN_IDENTIFIER | T_INTEGER
  | T_FLOAT | T_STRING | T_ELSE | T_FALSE | T_FOR | T_FUN | T_IF | T_IN | T_MAP | T_NIL
  | T_RETURN | T_STRUCT | T_TRUE | T_VAR | T_UNINIITIALIZED | T_WHITESPACE | T_ERROR | T_EOS

text \<open>The table, in the order of the enumeration; a \<^verbatim>\<open>nullptr\<close> spelling is \<open>None\<close>.\<close>

definition TOKENS :: "(TokenType \<times> string option \<times> nat) list" where
  "TOKENS = [
     (T_LEFT_PAREN, Some ''('', 0),
     (T_RIGHT_PAREN, Some '')'', 0),
     (T_LEFT_BRACE, Some ''{'', 0),
     (T_RIGHT_BRACE, Some ''}'', 0),
     (T_LEFT_BRACKET, Some ''['', 0),
     (T_RIGHT_BRACKET, Some '']'', 0),
     (T_ARROW, Some ''->'', 0),
     (T_BANG, Some ''!'', 0),
     (T_BIT_NOT, Some ''~'', 0),
     (T_COLON, Some '':'', 0),
     (T_DOT, Some ''.'', 0),
     (T_SEMI, Some '';'', 0),
     (T_AT, Some ''@'', 0),
     (T_EQUAL, Some ''='', 0),
     (T_COMMA, Some '','', 1),
     (T_OR, Some ''or'', 3),
     (T_AND, Some ''and'', 4),
     (T_BIT_OR, Some ''|'', 5),
     (T_BIT_XOR, Some ''^'', 6),
     (T_AMPERSAND, Some ''&'', 7),
     (T_BIT_SHL, Some ''<<'', 10),
     (T_BIT_SHR, Some ''>>'', 10),
     (T_PLUS, Some ''+'', 11),
     (T_MINUS, Some ''-'', 11),
     (T_STAR, Some ''*'', 12),
     (T_SLASH, Some ''/'', 12),
     (T_PERCENT, Some ''%'', 12),
     (T_BANG_EQUAL, Some ''!='', 8),
     (T_EQUAL_EQUAL, Some ''=='', 8),
     (T_GREATER, Some ''>'', 9),
     (T_GREATER_EQUAL, Some ''>='', 9),
     (T_LESS, Some ''<'', 9),
     (T_LESS_EQUAL, Some ''<='', 9),
     (T_IDENTIFIER, Some ''[ident]'', 0),
     (T_BUILTIN_IDENTIFIER, Some ''@[ident]'', 0),
     (T_INTEGER, Some ''num'', 0),
     (T_FLOAT, Some ''float'', 0),
     (T_STRING, Some ''str'', 0),
     (T_ELSE, Some ''else'', 0),
     (T_FALSE, Some ''false'', 0),
     (T_FOR, Some ''for'', 0),
     (T_FUN, Some ''fun'', 0),
     (T_IF, Some ''if'', 0),
     (T_IN, Some ''in'', 0),
     (T_MAP, Some ''map'', 0),
     (T_NIL, Some ''nil'', 0),
     (T_RETURN, Some ''return'', 0),
     (T_STRUCT, Some ''struct'', 0),
     (T_TRUE, Some ''true'', 0),
     (T_VAR, Some ''var'', 0),
     (T_UNINIITIALIZED, None, 0),
     (T_WHITESPACE, None, 0),
     (T_ERROR, Some ''error'', 0),
     (T_EOS, Some ''eos'', 0)]"

text \<open>The entries that the table makes with the callback \<^verbatim>\<open>K\<close>, which is for keywords.\<close>

definition KEYWORD_TOKENS :: "TokenType list" where
  "KEYWORD_TOKENS = [T_OR, T_AND, T_ELSE, T_FALSE, T_FOR, T_FUN, T_IF, T_IN, T_MAP, T_NIL, T_RETURN, T_STRUCT, T_TRUE, T_VAR]"

definition token_number :: "TokenType \<Rightarrow> nat" where
  "token_number t = length (takeWhile (\<lambda>(u, s, p). u \<noteq> t) TOKENS)"

definition kTokenCount :: nat where
  "kTokenCount = length TOKENS"

definition GetString :: "TokenType \<Rightarrow> string option" where
  "GetString t = (case TOKENS ! token_number t of (u, s, p) \<Rightarrow> s)"

definition GetPrecedence :: "TokenType \<Rightarrow> nat" where
  "GetPrecedence t = (case TOKENS ! token_number t of (u, s, p) \<Rightarrow> p)"

definition LowestPrecedence :: nat where
  "LowestPrecedence = 0"

definition IsBinaryOp :: "TokenType \<Rightarrow> bool" where
  "IsBinaryOp t \<longleftrightarrow> token_number T_COMMA \<le> token_number t \<and> token_number t \<le> token_number T_PERCENT"

definition IsCompareOp :: "TokenType \<Rightarrow> bool" where
  "IsCompareOp t \<longleftrightarrow> token_number T_BANG_EQUAL \<le> token_number t \<and> token_number t \<le> token_number T_LESS_EQUAL"

definition IsEqualityOp :: "TokenType \<Rightarrow> bool" where
  "IsEqualityOp t \<longleftrightarrow> t = T_BANG_EQUAL \<or> t = T_EQUAL_EQUAL"

definition IsCallOrMemberOrIndex :: "TokenType \<Rightarrow> bool" where
  "IsCallOrMemberOrIndex t \<longleftrightarrow> t = T_LEFT_PAREN \<or> t = T_DOT \<or> t = T_LEFT_BRACKET"

text \<open>The table evaluated: number, spelling and precedence of every token.\<close>

lemma token_number_simps [simp]:
  "token_number T_LEFT_PAREN = 0"
  "token_number T_RIGHT_PAREN = 1"
  "token_number T_LEFT_BRACE = 2"
  "token_number T_RIGHT_BRACE = 3"
  "token_number T_LEFT_BRACKET = 4"
  "token_number T_RIGHT_BRACKET = 5"
  "token_number T_ARROW = 6"
  "token_number T_BANG = 7"
  "token_number T_BIT_NOT = 8"
  "token_number T_COLON = 9"
  "token_number T_DOT = 10"
  "token_number T_SEMI = 11"
  "token_number T_AT = 12"
  "token_number T_EQUAL = 13"
  "token_number T_COMMA = 14"
  "token_number T_OR = 15"
  "token_number T_AND = 16"
  "token_number T_BIT_OR = 17"
  "token_number T_BIT_XOR = 18"
  "token_number T_AMPERSAND = 19"
  "token_number T_BIT_SHL = 20"
  "token_number T_BIT_SHR = 21"
  "token_number T_PLUS = 22"
  "token_number T_MINUS = 23"
  "token_number T_STAR = 24"
  "token_number T_SLASH = 25"
  "token_number T_PERCENT = 26"
  "token_number T_BANG_EQUAL = 27"
  "token_number T_EQUAL_EQUAL = 28"
  "token_number T_GREATER = 29"
  "token_number T_GREATER_EQUAL = 30"
  "token_number T_LESS = 31"
  "token_number T_LESS_EQUAL = 32"
  "token_number T_IDENTIFIER = 33"
  "token_number T_BUILTIN_IDENTIFIER = 34"
  "token_number T_INTEGER = 35"
  "token_number T_FLOAT = 36"
  "token_number T_STRING = 37"
  "token_number T_ELSE = 38"
  "token_number T_FALSE = 39"
  "token_number T_FOR = 40"
  "token_number T_FUN = 41"
  "token_number T_IF = 42"
  "token_number T_IN = 43"
  "token_number T_MAP = 44"
  "token_number T_NIL = 45"
  "token_number T_RETURN = 46"
  "token_number T_STRUCT = 47"
  "token_number T_TRUE = 48"
  "token_number T_VAR = 49"
  "token_number T_UNINIITIALIZED = 50"
  "token_number T_WHITESPACE = 51"
  "token_number T_ERROR = 52"
  "token_number T_EOS = 53"
  by (simp_all add: token_number_def TOKENS_def)

lemma GetPrecedence_simps [simp]:
  "GetPrecedence T_LEFT_PAREN = 0"
  "GetPrecedence T_RIGHT_PAREN = 0"
  "GetPrecedence T_LEFT_BRACE = 0"
  "GetPrecedence T_RIGHT_BRACE = 0"
  "GetPrecedence T_LEFT_BRACKET = 0"
  "GetPrecedence T_RIGHT_BRACKET = 0"
  "GetPrecedence T_ARROW = 0"
  "GetPrecedence T_BANG = 0"
  "GetPrecedence T_BIT_NOT = 0"
  "GetPrecedence T_COLON = 0"
  "GetPrecedence T_DOT = 0"
  "GetPrecedence T_SEMI = 0"
  "GetPrecedence T_AT = 0"
  "GetPrecedence T_EQUAL = 0"
  "GetPrecedence T_COMMA = 1"
  "GetPrecedence T_OR = 3"
  "GetPrecedence T_AND = 4"
  "GetPrecedence T_BIT_OR = 5"
  "GetPrecedence T_BIT_XOR = 6"
  "GetPrecedence T_AMPERSAND = 7"
  "GetPrecedence T_BIT_SHL = 10"
  "GetPrecedence T_BIT_SHR = 10"
  "GetPrecedence T_PLUS = 11"
  "GetPrecedence T_MINUS = 11"
  "GetPrecedence T_STAR = 12"
  "GetPrecedence T_SLASH = 12"
  "GetPrecedence T_PERCENT = 12"
  "GetPrecedence T_BANG_EQUAL = 8"
  "GetPrecedence T_EQUAL_EQUAL = 8"
  "GetPrecedence T_GREATER = 9"
  "GetPrecedence T_GREATER_EQUAL = 9"
  "GetPrecedence T_LESS = 9"
  "GetPrecedence T_LESS_EQUAL = 9"
  "GetPrecedence T_IDENTIFIER = 0"
  "GetPrecedence T_BUILTIN_IDENTIFIER = 0"
  "GetPrecedence T_INTEGER = 0"
  "GetPrecedence T_FLOAT = 0"
  "GetPrecedence T_STRING = 0"
  "GetPrecedence T_ELSE = 0"
  "GetPrecedence T_FALSE = 0"
  "GetPrecedence T_FOR = 0"
  "GetPrecedence T_FUN = 0"
  "GetPrecedence T_IF = 0"
  "GetPrecedence T_IN = 0"
  "GetPrecedence T_MAP = 0"
  "GetPrecedence T_NIL = 0"
  "GetPrecedence T_RETURN = 0"
  "GetPrecedence T_STRUCT = 0"
  "GetPrecedence T_TRUE = 0"
  "GetPrecedence T_VAR = 0"
  "GetPrecedence T_UNINIITIALIZED = 0"
  "GetPrecedence T_WHITESPACE = 0"
  "GetPrecedence T_ERROR = 0"
  "GetPrecedence T_EOS = 0"
  by (simp_all add: GetPrecedence_def TOKENS_def)

lemma GetString_simps [simp]:
  "GetString T_LEFT_PAREN = Some ''(''"
  "GetString T_RIGHT_PAREN = Some '')''"
  "GetString T_LEFT_BRACE = Some ''{''"
  "GetString T_RIGHT_BRACE = Some ''}''"
  "GetString T_LEFT_BRACKET = Some ''[''"
  "GetString T_RIGHT_BRACKET = Some '']''"
  "GetString T_ARROW = Some ''->''"
  "GetString T_BANG = Some ''!''"
  "GetString T_BIT_NOT = Some ''~''"
  "GetString T_COLON = Some '':''"
  "GetString T_DOT = Some ''.''"
  "GetString T_SEMI = Some '';''"
  "GetString T_AT = Some ''@''"
  "GetString T_EQUAL = Some ''=''"
  "GetString T_COMMA = Some '',''"
  "GetString T_OR = Some ''or''"
  "GetString T_AND = Some ''and''"
  "GetString T_BIT_OR = Some ''|''"
  "GetString T_BIT_XOR = Some ''^''"
  "GetString T_AMPERSAND = Some ''&''"
  "GetString T_BIT_SHL = Some ''<<''"
  "GetString T_BIT_SHR = Some ''>>''"
  "GetString T_PLUS = Some ''+''"
  "GetString T_MINUS = Some ''-''"
  "GetString T_STAR = Some ''*''"
  "GetString T_SLASH = Some ''/''"
  "GetString T_PERCENT = Some ''%''"
  "GetString T_BANG_EQUAL = Some ''!=''"
  "GetString T_EQUAL_EQUAL = Some ''==''"
  "GetString T_GREATER = Some ''>''"
  "GetString T_GREATER_EQUAL = Some ''>=''"
  "GetString T_LESS = Some ''<''"
  "GetString T_LESS_EQUAL = Some ''<=''"
  "GetString T_IDENTIFIER = Some ''[ident]''"
  "GetString T_BUILTIN_IDENTIFIER = Some ''@[ident]''"
  "GetString T_INTEGER = Some ''num''"
  "GetString T_FLOAT = Some ''float''"
  "GetString T_STRING = Some ''str''"
  "GetString T_ELSE = Some ''else''"
  "GetString T_FALSE = Some ''false''"
  "GetString T_FOR = Some ''for''"
  "GetString T_FUN = Some ''fun''"
  "GetString T_IF = Some ''if''"
  "GetString T_IN = Some ''in''"
  "GetString T_MAP = Some ''map''"
  "GetString T_NIL = Some ''nil''"
  "GetString T_RETURN = Some ''return''"
  "GetString T_STRUCT = Some ''struct''"
  "GetString T_TRUE = Some ''true''"
  "GetString T_VAR = Some ''var''"
  "GetString T_UNINIITIALIZED = None"
  "GetString T_WHITESPACE = None"
  "GetString T_ERROR = Some ''error''"
  "GetString T_EOS = Some ''eos''"
  by (simp_all add: GetString_def TOKENS_def)

lemma IsBinaryOp_iff: "IsBinaryOp t \<longleftrightarrow> 14 \<le> token_number t \<and> token_number t \<le> 26"
  by (simp add: IsBinaryOp_def)

lemma IsCompareOp_iff: "IsCompareOp t \<longleftrightarrow> 27 \<le> token_number t \<and> token_number t \<le> 32"
  by (simp add: IsCompareOp_def)

text \<open>
  The precedence of a token is positive just for the binary and comparison operators, which is what the
  precedence-climbing loop of the parser relies on.
\<close>

lemma GetPrecedence_positive: "0 < GetPrecedence t \<longleftrightarrow> IsBinaryOp t \<or> IsCompareOp t"
  by (cases t) (simp_all add: IsBinaryOp_iff IsCompareOp_iff)

lemma GetPrecedence_le: "GetPrecedence t \<le> 12"
  by (cases t) simp_all

end
