(* ===== verification/Scanner.thy ===== *)
theory Scanner
  imports Token
begin

text \<open>
  The token scanner (\<^verbatim>\<open>parsing/scanner.h\<close>, \<^verbatim>\<open>parsing/scanner.cpp\<close>). A scanner is the source, the
  offset of the next character, the lookahead character \<open>c0\<close> with its position, and the current and the
  next token.

  A character is the signed \<^verbatim>\<open>char\<close> widened to \<^verbatim>\<open>int32_t\<close>, so that the byte 255 is \<open>-1\<close>, the same
  as the mark for the end of the input. The inner loops end because each step moves the lookahead; the
  outer loop of \<open>Scan\<close> need not end, and is a partial function whose value \<open>None\<close> is that it runs
  forever.
\<close>

section \<open>State\<close>

record SourcePosition =
  pos_line :: nat
  pos_column :: nat

record TokenDesc =
  tok_type :: TokenType
  tok_pos :: SourcePosition
  tok_offset :: nat
  tok_literal :: string

record Scanner =
  sc_source :: string
  sc_offset :: nat
  c0 :: int
  c0_pos :: SourcePosition
  sc_curr :: TokenDesc
  sc_next :: TokenDesc

definition kEndOfInput :: int where
  "kEndOfInput = - 1"

definition kNewLine :: int where
  "kNewLine = 10"

text \<open>The conversions between \<^verbatim>\<open>char\<close> and \<^verbatim>\<open>int32_t\<close>.\<close>

definition to_int :: "char \<Rightarrow> int" where
  "to_int c = (if of_char c < (128 :: int) then of_char c else of_char c - 256)"

definition to_char :: "int \<Rightarrow> char" where
  "to_char i = char_of (i mod 256)"

section \<open>Characters\<close>

definition IsInRange :: "int \<Rightarrow> int \<Rightarrow> int \<Rightarrow> bool" where
  "IsInRange c lower upper \<longleftrightarrow> c \<ge> lower \<and> c \<le> upper"

definition IsAlpha :: "int \<Rightarrow> bool" where
  "IsAlpha c \<longleftrightarrow> IsInRange c (to_int (CHR ''a'')) (to_int (CHR ''z'')) \<or> IsInRange c (to_int (CHR ''A'')) (to_int (CHR ''Z''))"

definition IsDigit :: "int \<Rightarrow> bool" where
  "IsDigit c \<longleftrightarrow> IsInRange c (to_int (CHR ''0'')) (to_int (CHR ''9''))"

definition IsIdentifierChar :: "int \<Rightarrow> bool" where
  "IsIdentifierChar c \<longleftrightarrow> IsAlpha c \<or> IsDigit c \<or> c = to_int (CHR ''_'')"

section \<open>Moving the lookahead\<close>

definition Advance :: "Scanner \<Rightarrow> Scanner" where
  "Advance s =
     (if sc_offset s = length (sc_source s) then s\<lparr>c0 := kEndOfInput\<rparr>
      else s\<lparr>c0 := to_int (sc_source s ! sc_offset s), sc_offset := sc_offset s + 1,
             c0_pos := (c0_pos s)\<lparr>pos_column := pos_column (c0_pos s) + 1\<rparr>\<rparr>)"

text \<open>What the loops consume: twice the characters left, and one for the lookahead.\<close>

definition scan_left :: "Scanner \<Rightarrow> nat" where
  "scan_left s = 2 * (length (sc_source s) - sc_offset s) + of_bool (c0 s \<noteq> kEndOfInput)"

definition scanner_ok :: "Scanner \<Rightarrow> bool" where
  "scanner_ok s \<longleftrightarrow> sc_offset s \<le> length (sc_source s)"

lemma Advance_left: "scanner_ok s \<Longrightarrow> c0 s \<noteq> kEndOfInput \<Longrightarrow> scan_left (Advance s) < scan_left s"
  by (auto simp: Advance_def scan_left_def of_bool_def scanner_ok_def)

lemma of_char_nonneg [simp]: "0 \<le> (of_char c :: int)"
  by (cases c) (simp add: of_char_def horner_sum_simps)

lemma char_not_end [simp]:
  "of_char c < (128 :: int) \<Longrightarrow> to_int c \<noteq> kEndOfInput" "of_char c < (128 :: int) \<Longrightarrow> kEndOfInput \<noteq> to_int c"
  using of_char_nonneg [of c] by (simp_all add: to_int_def kEndOfInput_def del: of_char_nonneg)

lemma newline_not_end [simp]: "kNewLine \<noteq> kEndOfInput"
  by (simp add: kNewLine_def kEndOfInput_def)

lemma Advance_ok [simp]: "scanner_ok s \<Longrightarrow> scanner_ok (Advance s)"
  by (auto simp: Advance_def scanner_ok_def)

text \<open>
  A scanner never has an offset beyond its source; outside of that the loops stop at once, which makes
  them total functions.
\<close>

function AdvanceUntil :: "(int \<Rightarrow> bool) \<Rightarrow> Scanner \<Rightarrow> Scanner" where
  "AdvanceUntil p s =
     (if scanner_ok s \<and> c0 s \<noteq> kEndOfInput \<and> \<not> p (c0 s) then AdvanceUntil p (Advance s) else s)"
  by pat_completeness auto
termination by (relation "measure (scan_left \<circ> snd)") (auto simp: Advance_left)

declare AdvanceUntil.simps [simp del]

definition Matches :: "int \<Rightarrow> Scanner \<Rightarrow> bool \<times> Scanner" where
  "Matches expected s = (if c0 s \<noteq> expected then (False, s) else (True, Advance s))"

section \<open>White space and comments\<close>

function SkipWhiteSpace :: "Scanner \<Rightarrow> Scanner" where
  "SkipWhiteSpace s =
     (if \<not> scanner_ok s then s
      else if c0 s = to_int (CHR '' '') \<or> c0 s = 13 \<or> c0 s = 9 then SkipWhiteSpace (Advance s)
      else if c0 s = kNewLine
      then SkipWhiteSpace (Advance (s\<lparr>c0_pos := \<lparr>pos_line = pos_line (c0_pos s) + 1, pos_column = 0\<rparr>\<rparr>))
      else s)"
  by pat_completeness auto
termination
proof (relation "measure scan_left")
  fix s assume s: "\<not> \<not> scanner_ok s"
  then show "c0 s = to_int (CHR '' '') \<or> c0 s = 13 \<or> c0 s = 9 \<Longrightarrow> (Advance s, s) \<in> measure scan_left"
    using Advance_left [of s] by (auto simp: kEndOfInput_def to_int_def)
  let ?s = "s\<lparr>c0_pos := \<lparr>pos_line = pos_line (c0_pos s) + 1, pos_column = 0\<rparr>\<rparr>"
  have "scan_left ?s = scan_left s" by (simp add: scan_left_def)
  then show "c0 s = kNewLine \<Longrightarrow> (Advance ?s, s) \<in> measure scan_left"
    using s Advance_left [of ?s] by (simp add: scanner_ok_def kEndOfInput_def kNewLine_def)
qed simp

declare SkipWhiteSpace.simps [simp del]

definition SkipLineComment :: "Scanner \<Rightarrow> Scanner" where
  "SkipLineComment s = AdvanceUntil (\<lambda>c. c = kNewLine) s"

text \<open>The inner loop of a block comment: after stars, a slash ends the comment.\<close>

function skip_stars :: "Scanner \<Rightarrow> bool \<times> Scanner" where
  "skip_stars s =
     (if scanner_ok s \<and> c0 s = to_int (CHR ''*'')
      then (let s = Advance s
            in if c0 s = to_int (CHR ''/'') then (True, Advance s) else skip_stars s)
      else (False, s))"
  by pat_completeness auto
termination
  by (relation "measure scan_left") (auto intro!: Advance_left)

declare skip_stars.simps [simp del]

lemma AdvanceUntil_props:
  "scanner_ok s \<Longrightarrow> scanner_ok (AdvanceUntil p s) \<and> scan_left (AdvanceUntil p s) \<le> scan_left s \<and>
     (c0 (AdvanceUntil p s) = kEndOfInput \<or> p (c0 (AdvanceUntil p s)))"
proof (induction p s rule: AdvanceUntil.induct)
  case (1 p s)
  then show ?case
    using Advance_left [of s] Advance_ok [of s] by (auto simp: AdvanceUntil.simps [of p s])
qed

lemma skip_stars_props:
  "scanner_ok s \<Longrightarrow> scanner_ok (snd (skip_stars s)) \<and> scan_left (snd (skip_stars s)) \<le> scan_left s"
  "scanner_ok s \<Longrightarrow> c0 s = to_int (CHR ''*'') \<Longrightarrow> scan_left (snd (skip_stars s)) < scan_left s"
proof -
  have *: "scanner_ok s \<Longrightarrow> scanner_ok (snd (skip_stars s)) \<and> scan_left (snd (skip_stars s)) \<le> scan_left s \<and>
    (c0 s = to_int (CHR ''*'') \<longrightarrow> scan_left (snd (skip_stars s)) < scan_left s)"
  proof (induction s rule: skip_stars.induct)
    case (1 s)
    show ?case
    proof (cases "c0 s = to_int (CHR ''*'')")
      case True
      have less: "scan_left (Advance s) < scan_left s"
        using 1(2) True by (intro Advance_left) auto
      have "c0 (Advance s) = to_int (CHR ''/'') \<Longrightarrow> scan_left (Advance (Advance s)) < scan_left (Advance s)"
        using 1(2) by (intro Advance_left) auto
      then show ?thesis using 1 True less by (auto simp: skip_stars.simps [of s] Let_def)
    qed (use 1(2) in \<open>simp add: skip_stars.simps [of s]\<close>)
  qed
  then show "scanner_ok s \<Longrightarrow> scanner_ok (snd (skip_stars s)) \<and> scan_left (snd (skip_stars s)) \<le> scan_left s"
    "scanner_ok s \<Longrightarrow> c0 s = to_int (CHR ''*'') \<Longrightarrow> scan_left (snd (skip_stars s)) < scan_left s"
    by blast+
qed

function SkipBlockComment :: "Scanner \<Rightarrow> Scanner" where
  "SkipBlockComment s =
     (if scanner_ok s \<and> c0 s \<noteq> kEndOfInput
      then (let s = AdvanceUntil (\<lambda>c. c = to_int (CHR ''*'')) s; (closed, s) = skip_stars s
            in if closed then s else SkipBlockComment s)
      else s)"
  by pat_completeness auto
termination
proof (relation "measure scan_left")
  fix s s1 s2 closed s3
  assume a: "scanner_ok s \<and> c0 s \<noteq> kEndOfInput" "s1 = AdvanceUntil (\<lambda>c. c = to_int (CHR ''*'')) s"
    "s2 = skip_stars s1" "(closed, s3) = s2" "\<not> closed"
  have p: "scanner_ok s1" "scan_left s1 \<le> scan_left s" "c0 s1 = kEndOfInput \<or> c0 s1 = to_int (CHR ''*'')"
    using AdvanceUntil_props [of s] a(1,2) by auto
  have s3: "s3 = snd (skip_stars s1)" using a(3,4) by (metis snd_conv)
  have "scan_left s3 < scan_left s"
  proof (cases "c0 s1 = to_int (CHR ''*'')")
    case True
    then show ?thesis using skip_stars_props(2) [OF p(1)] p(2) by (simp add: s3)
  next
    case False
    then have "s1 = AdvanceUntil (\<lambda>c. c = to_int (CHR ''*'')) (Advance s)"
      using p(3) a(1,2) by (auto simp: AdvanceUntil.simps [of _ s] split: if_splits)
    then have "scan_left s1 < scan_left s"
      using a(1) AdvanceUntil_props [OF Advance_ok, of s] Advance_left [of s] by (meson le_less_trans)
    then show ?thesis using skip_stars_props(1) [OF p(1)] by (simp add: s3)
  qed
  then show "(s3, s) \<in> measure scan_left" by simp
qed simp

declare SkipBlockComment.simps [simp del]

section \<open>Identifiers, numbers and strings\<close>

definition add_literal :: "Scanner \<Rightarrow> Scanner" where
  "add_literal s = s\<lparr>sc_next := (sc_next s)\<lparr>tok_literal := tok_literal (sc_next s) @ [to_char (c0 s)]\<rparr>\<rparr>"

lemma add_literal_simps [simp]:
  "scanner_ok (add_literal s) = scanner_ok s" "scan_left (add_literal s) = scan_left s" "c0 (add_literal s) = c0 s"
  by (simp_all add: add_literal_def scanner_ok_def scan_left_def)

text \<open>The loop that collects the characters of a class into the literal.\<close>

function collect :: "(int \<Rightarrow> bool) \<Rightarrow> Scanner \<Rightarrow> Scanner" where
  "collect p s =
     (if scanner_ok s \<and> p (c0 s) \<and> c0 s \<noteq> kEndOfInput then collect p (Advance (add_literal s)) else s)"
  by pat_completeness auto
termination
proof (relation "measure (scan_left \<circ> snd)")
  fix p s assume "scanner_ok s \<and> p (c0 s) \<and> c0 s \<noteq> kEndOfInput"
  then show "((p, Advance (add_literal s)), p, s) \<in> measure (scan_left \<circ> snd)"
    using Advance_left [of "add_literal s"] by simp
qed simp

declare collect.simps [simp del]

text \<open>The keywords, in groups by their first character.\<close>

definition KEYWORDS :: "(char \<times> (string \<times> TokenType) list) list" where
  "KEYWORDS = [
     (CHR ''a'', [(''and'', T_AND)]),
     (CHR ''e'', [(''else'', T_ELSE)]),
     (CHR ''f'', [(''false'', T_FALSE), (''for'', T_FOR), (''fun'', T_FUN)]),
     (CHR ''i'', [(''if'', T_IF), (''in'', T_IN)]),
     (CHR ''m'', [(''map'', T_MAP)]),
     (CHR ''n'', [(''nil'', T_NIL)]),
     (CHR ''o'', [(''or'', T_OR)]),
     (CHR ''r'', [(''return'', T_RETURN)]),
     (CHR ''s'', [(''struct'', T_STRUCT)]),
     (CHR ''t'', [(''true'', T_TRUE)]),
     (CHR ''v'', [(''var'', T_VAR)])]"

text \<open>The test of a group element compares the length and the characters from the second to the sixth.\<close>

definition group_elem :: "string \<Rightarrow> string \<Rightarrow> bool" where
  "group_elem keyword input \<longleftrightarrow>
     length keyword = length input \<and> keyword ! 1 = input ! 1 \<and>
     (length keyword < 3 \<or> keyword ! 2 = input ! 2) \<and>
     (length keyword < 4 \<or> keyword ! 3 = input ! 3) \<and>
     (length keyword < 5 \<or> keyword ! 4 = input ! 4) \<and>
     (length keyword < 6 \<or> keyword ! 5 = input ! 5)"

definition kMinKeywordLen :: nat where
  "kMinKeywordLen = 2"

definition kMaxKeywordLen :: nat where
  "kMaxKeywordLen = 6"

definition CheckIdentifierOrKeyword :: "string \<Rightarrow> TokenType" where
  "CheckIdentifierOrKeyword input =
     (if length input < kMinKeywordLen \<or> length input > kMaxKeywordLen then T_IDENTIFIER
      else case map_of KEYWORDS (input ! 0) of
          None \<Rightarrow> T_IDENTIFIER
        | Some grp \<Rightarrow>
            (case find (\<lambda>(keyword, t). group_elem keyword input) grp of
               Some (keyword, t) \<Rightarrow> t
             | None \<Rightarrow> T_IDENTIFIER))"

definition ScanIdentifierOrKeyword :: "Scanner \<Rightarrow> TokenType \<times> Scanner" where
  "ScanIdentifierOrKeyword s =
     (let identifier_char0 = c0 s;
          s = collect IsIdentifierChar s
      in if identifier_char0 = to_int (CHR ''_'') \<or> IsInRange identifier_char0 (to_int (CHR ''A'')) (to_int (CHR ''Z''))
         then (T_IDENTIFIER, s)
         else (CheckIdentifierOrKeyword (tok_literal (sc_next s)), s))"

definition ScanNumber :: "Scanner \<Rightarrow> TokenType \<times> Scanner" where
  "ScanNumber s =
     (let s = collect IsDigit s
      in if c0 s = to_int (CHR ''.'')
         then (let s = s\<lparr>sc_next := (sc_next s)\<lparr>tok_literal := tok_literal (sc_next s) @ ''.''\<rparr>\<rparr>;
                   s = Advance s;
                   s = collect IsDigit s
               in (T_FLOAT, s))
         else (T_INTEGER, s))"

function ScanString :: "Scanner \<Rightarrow> TokenType \<times> Scanner" where
  "ScanString s =
     (if \<not> scanner_ok s \<or> c0 s = kEndOfInput
      then (T_ERROR, s\<lparr>sc_next := (sc_next s)\<lparr>tok_literal := ''Unterminated string''\<rparr>\<rparr>)
      else (let escape = (c0 s = 92);
                s = Advance (add_literal s)
            in if c0 s = to_int (CHR 0x22) \<and> \<not> escape then (T_STRING, Advance s) else ScanString s))"
  by pat_completeness auto
termination
proof (relation "measure scan_left")
  fix s escape s'
  assume "\<not> (\<not> scanner_ok s \<or> c0 s = kEndOfInput)" "s' = Advance (add_literal s)"
  then show "(s', s) \<in> measure scan_left" using Advance_left [of "add_literal s"] by simp
qed simp

declare ScanString.simps [simp del]

section \<open>Scanning a token\<close>

text \<open>The characters that are a token by themselves.\<close>

definition punctuation :: "(char \<times> TokenType) list" where
  "punctuation = [
     (CHR ''{'', T_LEFT_BRACE), (CHR ''}'', T_RIGHT_BRACE), (CHR ''('', T_LEFT_PAREN), (CHR '')'', T_RIGHT_PAREN),
     (CHR ''['', T_LEFT_BRACKET), (CHR '']'', T_RIGHT_BRACKET), (CHR ''&'', T_AMPERSAND), (CHR ''|'', T_BIT_OR),
     (CHR ''^'', T_BIT_XOR), (CHR ''~'', T_BIT_NOT), (CHR '':'', T_COLON), (CHR '','', T_COMMA), (CHR ''.'', T_DOT),
     (CHR '';'', T_SEMI), (CHR ''%'', T_PERCENT), (CHR ''+'', T_PLUS), (CHR ''*'', T_STAR)]"

text \<open>One or two characters: the first alternative that matches the second character, else the default.\<close>

fun scan_operator :: "(char \<times> TokenType) list \<Rightarrow> TokenType \<Rightarrow> Scanner \<Rightarrow> TokenType \<times> Scanner" where
  "scan_operator [] t s = (t, s)"
| "scan_operator ((c, u) # alts) t s =
     (let (matched, s) = Matches (to_int c) s in if matched then (u, s) else scan_operator alts t s)"

definition is_char :: "Scanner \<Rightarrow> char \<Rightarrow> bool" where
  "is_char s c \<longleftrightarrow> c0 s = to_int c"

definition scan_switch :: "Scanner \<Rightarrow> TokenType \<times> Scanner" where
  "scan_switch s =
     (if is_char s (CHR ''@'')
      then (let s = Advance s
            in if IsIdentifierChar (c0 s) then (T_BUILTIN_IDENTIFIER, snd (ScanIdentifierOrKeyword s)) else (T_AT, s))
      else if \<exists>(c, t) \<in> set punctuation. is_char s c
      then (snd (hd (filter (\<lambda>(c, t). is_char s c) punctuation)), Advance s)
      else if is_char s (CHR ''!'') then scan_operator [(CHR ''='', T_BANG_EQUAL)] T_BANG (Advance s)
      else if is_char s (CHR ''='') then scan_operator [(CHR ''='', T_EQUAL_EQUAL)] T_EQUAL (Advance s)
      else if is_char s (CHR ''>'')
      then scan_operator [(CHR ''='', T_GREATER_EQUAL), (CHR ''>'', T_BIT_SHR)] T_GREATER (Advance s)
      else if is_char s (CHR ''<'')
      then scan_operator [(CHR ''='', T_LESS_EQUAL), (CHR ''<'', T_BIT_SHL)] T_LESS (Advance s)
      else if is_char s (CHR ''-'') then scan_operator [(CHR ''>'', T_ARROW)] T_MINUS (Advance s)
      else if is_char s (CHR ''/'')
      then (let (line, s) = Matches (to_int (CHR ''/'')) (Advance s)
            in if line then (T_WHITESPACE, SkipLineComment s)
               else (let (block, s) = Matches (to_int (CHR ''*'')) s
                     in if block then (T_WHITESPACE, SkipBlockComment s) else (T_SLASH, s)))
      else if is_char s (CHR 0x22) then ScanString (Advance s)
      else if IsDigit (c0 s) then ScanNumber s
      else if IsIdentifierChar (c0 s) then ScanIdentifierOrKeyword s
      else if c0 s = kEndOfInput then (T_EOS, s)
      else (T_WHITESPACE, SkipWhiteSpace s))"

text \<open>One round of the loop: the position and the offset are set at its start.\<close>

definition scan_round :: "Scanner \<Rightarrow> TokenType \<times> Scanner" where
  "scan_round s = scan_switch (s\<lparr>sc_next := (sc_next s)\<lparr>tok_pos := c0_pos s, tok_offset := sc_offset s\<rparr>\<rparr>)"

partial_function (option) scan_loop :: "Scanner \<Rightarrow> (TokenType \<times> Scanner) option" where
  "scan_loop s =
     (let (t, s) = scan_round s in if t = T_WHITESPACE then scan_loop s else Some (t, s))"

definition Scan :: "Scanner \<Rightarrow> Scanner option" where
  "Scan s = do {
     (t, s) \<leftarrow> scan_loop (s\<lparr>sc_next := (sc_next s)\<lparr>tok_literal := []\<rparr>\<rparr>);
     Some (s\<lparr>sc_next := (sc_next s)\<lparr>tok_type := t\<rparr>\<rparr>) }"

definition Next :: "Scanner \<Rightarrow> (TokenType \<times> Scanner) option" where
  "Next s = do {
     s \<leftarrow> Scan (s\<lparr>sc_curr := sc_next s\<rparr>);
     Some (tok_type (sc_curr s), s) }"

definition Peek :: "Scanner \<Rightarrow> TokenType" where
  "Peek s = tok_type (sc_next s)"

definition CurrentToken :: "Scanner \<Rightarrow> TokenType" where
  "CurrentToken s = tok_type (sc_curr s)"

definition CurrentLiteral :: "Scanner \<Rightarrow> string" where
  "CurrentLiteral s = tok_literal (sc_curr s)"

definition CurrentPosition :: "Scanner \<Rightarrow> SourcePosition" where
  "CurrentPosition s = tok_pos (sc_curr s)"

definition no_token :: TokenDesc where
  "no_token = \<lparr>tok_type = T_UNINIITIALIZED, tok_pos = \<lparr>pos_line = 0, pos_column = 0\<rparr>, tok_offset = 0, tok_literal = []\<rparr>"

definition Scanner_new :: "string \<Rightarrow> Scanner option" where
  "Scanner_new source =
     Scan (Advance \<lparr>sc_source = source, sc_offset = 0, c0 = 0, c0_pos = \<lparr>pos_line = 1, pos_column = 0\<rparr>,
       sc_curr = no_token, sc_next = no_token\<rparr>)"

section \<open>The input in front of the scanner\<close>

definition ascii :: "char \<Rightarrow> bool" where
  "ascii c \<longleftrightarrow> of_char c < (128 :: int)"

definition scan_at :: "Scanner \<Rightarrow> string \<Rightarrow> bool" where
  "scan_at s cs \<longleftrightarrow> scanner_ok s \<and> (\<forall>c \<in> set cs. ascii c) \<and>
     (case cs of [] \<Rightarrow> c0 s = kEndOfInput \<and> sc_offset s = length (sc_source s)
      | c # cs' \<Rightarrow> c0 s = to_int c \<and> drop (sc_offset s) (sc_source s) = cs')"

lemma of_char_less [simp]: "(of_char c :: int) < 256"
  by (cases c) (simp add: of_char_def horner_sum_simps)

lemma to_int_cases: "0 \<le> to_int c \<and> to_int c < 128 \<and> of_char c = to_int c \<or>
    - 128 \<le> to_int c \<and> to_int c < 0 \<and> of_char c = to_int c + 256"
  using of_char_less [of c] of_char_nonneg [of c] unfolding to_int_def by presburger

lemma to_int_inject [simp]: "to_int c = to_int d \<longleftrightarrow> c = d"
proof
  assume "to_int c = to_int d"
  then have "(of_char c :: int) = of_char d"
    using to_int_cases [of c] to_int_cases [of d] by (elim disjE conjE) linarith+
  then show "c = d" by simp
qed simp

lemma ascii_iff: "ascii c \<longleftrightarrow> 0 \<le> to_int c"
  using to_int_cases [of c] by (auto simp: ascii_def)

lemma to_char_to_int [simp]: "to_char (to_int c) = c"
proof -
  have "(of_char c - 256) mod 256 = (of_char c :: int) mod 256" by (rule minus_mod_self2)
  then have "to_int c mod 256 = of_char c mod 256" by (simp add: to_int_def)
  then show ?thesis by (simp add: to_char_def) 
qed

lemma is_char_at: "scan_at s (c # cs) \<Longrightarrow> is_char s d \<longleftrightarrow> c = d"
  by (auto simp: scan_at_def is_char_def)

lemma is_char_end: "scan_at s [] \<Longrightarrow> ascii d \<Longrightarrow> \<not> is_char s d"
  by (simp add: scan_at_def is_char_def ascii_def)

lemma c0_at: "scan_at s (c # cs) \<Longrightarrow> c0 s = to_int c"
  by (simp add: scan_at_def)

lemma scan_at_ok: "scan_at s cs \<Longrightarrow> scanner_ok s"
  by (simp add: scan_at_def)

lemma Advance_at: "scan_at s (c # cs) \<Longrightarrow> scan_at (Advance s) cs"
proof (cases cs)
  case Nil
  assume "scan_at s (c # cs)"
  then show ?thesis using Nil by (auto simp: scan_at_def Advance_def scanner_ok_def)
next
  case (Cons d ds)
  assume s: "scan_at s (c # cs)"
  then have drop: "drop (sc_offset s) (sc_source s) = d # ds" using Cons by (simp add: scan_at_def)
  then have less: "sc_offset s < length (sc_source s)" by (metis drop_all list.discI not_le)
  then have "sc_source s ! sc_offset s = d" "drop (Suc (sc_offset s)) (sc_source s) = ds"
    using drop Cons_nth_drop_Suc [OF less] by auto
  then show ?thesis using s Cons less by (auto simp: scan_at_def Advance_def scanner_ok_def)
qed

lemma Advance_keeps [simp]: "sc_next (Advance s) = sc_next s" "sc_curr (Advance s) = sc_curr s"
  "sc_source (Advance s) = sc_source s"
  by (simp_all add: Advance_def)

lemma update_next_at [simp]: "scan_at (s\<lparr>sc_next := d\<rparr>) cs = scan_at s cs"
  by (simp add: scan_at_def scanner_ok_def cong: list.case_cong)

lemma update_curr_at [simp]: "scan_at (s\<lparr>sc_curr := d\<rparr>) cs = scan_at s cs"
  by (simp add: scan_at_def scanner_ok_def cong: list.case_cong)

lemma add_literal_at [simp]: "scan_at (add_literal s) cs = scan_at s cs"
  by (simp add: add_literal_def)

text \<open>The literal of the token being scanned.\<close>

definition lit :: "Scanner \<Rightarrow> string" where
  "lit s = tok_literal (sc_next s)"

lemma lit_simps [simp]: "lit (Advance s) = lit s" "lit (add_literal s) = lit s @ [to_char (c0 s)]"
  "sc_curr (add_literal s) = sc_curr s"
  by (simp_all add: lit_def add_literal_def)

lemma collect_at:
  assumes "scan_at s (ds @ cs)" and "\<And>d. d \<in> set ds \<Longrightarrow> p (to_int d)" and "cs \<noteq> [] \<Longrightarrow> \<not> p (to_int (hd cs))"
  shows "scan_at (collect p s) cs \<and> lit (collect p s) = lit s @ ds \<and> sc_curr (collect p s) = sc_curr s"
  using assms
proof (induction ds arbitrary: s)
  case Nil
  then have "collect p s = s" by (cases cs) (auto simp: collect.simps [of p s] scan_at_def)
  then show ?case using Nil by simp
next
  case (Cons d ds)
  have s: "scan_at s (d # ds @ cs)" using Cons.prems(1) by simp
  then have "ascii d" by (simp add: scan_at_def)
  then have step: "collect p s = collect p (Advance (add_literal s))"
    using s Cons.prems(2) [of d] scan_at_ok [OF s] by (simp add: collect.simps [of p s] c0_at ascii_def)
  have "scan_at (Advance (add_literal s)) (ds @ cs)" using s Advance_at add_literal_at by blast
  then show ?case unfolding step using Cons.IH Cons.prems(2,3) c0_at [OF s] by auto
qed

section \<open>Classes of characters\<close>

lemma to_int_consts:
  "to_int (CHR ''a'') = 97" "to_int (CHR ''z'') = 122" "to_int (CHR ''A'') = 65" "to_int (CHR ''Z'') = 90"
  "to_int (CHR ''0'') = 48" "to_int (CHR ''9'') = 57" "to_int (CHR ''_'') = 95" "to_int (CHR '' '') = 32"
  by (simp_all add: to_int_def)

lemmas char_classes = IsIdentifierChar_def IsAlpha_def IsDigit_def IsInRange_def to_int_consts

definition ident_char :: "char \<Rightarrow> bool" where
  "ident_char c \<longleftrightarrow> IsIdentifierChar (to_int c)"

definition digit_chr :: "char \<Rightarrow> bool" where
  "digit_chr c \<longleftrightarrow> IsDigit (to_int c)"

lemma ident_char_ascii: "ident_char c \<Longrightarrow> ascii c"
  by (auto simp: ident_char_def char_classes ascii_iff)

lemma ident_char_cases: "ident_char c \<Longrightarrow> c \<notin> set ''{}@()[]&|^!~:,.;=><-%+/* '' \<and> c \<noteq> CHR 0x22"
  by (auto simp: ident_char_def char_classes to_int_def)

lemma digit_ident: "digit_chr c \<Longrightarrow> ident_char c"
  by (simp add: digit_chr_def ident_char_def IsIdentifierChar_def)

lemma not_ident [simp]: "\<not> IsIdentifierChar (to_int (CHR '' ''))" "\<not> IsDigit (to_int (CHR '' ''))"
  "\<not> IsDigit (to_int (CHR ''.''))" "\<not> IsIdentifierChar kEndOfInput" "\<not> IsDigit kEndOfInput"
  by (simp_all add: char_classes to_int_def kEndOfInput_def)

section \<open>Keywords\<close>

text \<open>The keywords of the token table with their spellings, and the words that the switch knows.\<close>

definition keyword_table :: "(string \<times> TokenType) list" where
  "keyword_table = map (\<lambda>t. (the (GetString t), t)) KEYWORD_TOKENS"

lemma keyword_words:
  "keyword_table = [(''or'', T_OR), (''and'', T_AND), (''else'', T_ELSE), (''false'', T_FALSE), (''for'', T_FOR), (''fun'', T_FUN),
     (''if'', T_IF), (''in'', T_IN), (''map'', T_MAP), (''nil'', T_NIL), (''return'', T_RETURN), (''struct'', T_STRUCT),
     (''true'', T_TRUE), (''var'', T_VAR)]"
  by (simp add: keyword_table_def KEYWORD_TOKENS_def)

lemma switch_words: "map_of (concat (map snd KEYWORDS)) = map_of keyword_table"
  by (subst map_of_inject_set) (auto simp: keyword_words KEYWORDS_def)

lemma list_eq_by_nth6:
  assumes "length xs = length ys" and "2 \<le> length xs" and "length xs \<le> 6"
  shows "xs = ys \<longleftrightarrow> xs ! 0 = ys ! 0 \<and> group_elem xs ys"
proof
  assume r: "xs ! 0 = ys ! 0 \<and> group_elem xs ys"
  show "xs = ys"
  proof (rule nth_equalityI [OF assms(1)])
    fix i assume "i < length xs"
    then have "i \<in> {0, 1, 2, 3, 4, 5}" "i < length xs" using assms(3) by auto
    then show "xs ! i = ys ! i" using r by (auto simp: group_elem_def numeral_eq_Suc)
  qed
qed (simp add: group_elem_def)

text \<open>The nested switch finds exactly the words of the table.\<close>

lemma grouped_lookup:
  assumes "distinct (map fst gs)" and "\<And>c g k t. (c, g) \<in> set gs \<Longrightarrow> (k, t) \<in> set g \<Longrightarrow> k ! 0 = c"
    and e: "\<And>k. k ! 0 = input ! 0 \<Longrightarrow> group_elem k input \<longleftrightarrow> k = input"
  shows "(case map_of gs (input ! 0) of None \<Rightarrow> None
          | Some g \<Rightarrow> map_option snd (find (\<lambda>(k, t). group_elem k input) g)) = map_of (concat (map snd gs)) input"
  using assms(1,2)
proof (induction gs)
  case (Cons cg gs)
  obtain c g where cg: "cg = (c, g)" by (cases cg)
  have words: "(k, t) \<in> set g \<Longrightarrow> k ! 0 = c" for k t using Cons.prems(2) [of c g k t] cg by simp
  show ?case
  proof (cases "input ! 0 = c")
    case True
    have find: "map_option snd (find (\<lambda>(k, t). group_elem k input) h) = map_of h input"
      if "\<And>k t. (k, t) \<in> set h \<Longrightarrow> k ! 0 = c" for h
      using that
    proof (induction h)
      case (Cons kt h)
      obtain k t where kt: "kt = (k, t)" by (cases kt)
      then have "group_elem k input \<longleftrightarrow> k = input" using Cons.prems [of k t] e True by simp
      then show ?case using Cons kt by auto
    qed simp
    moreover have "map_of (concat (map snd gs)) input = None"
    proof -
      have "k \<noteq> input" if "(d, h) \<in> set gs" "(k, t) \<in> set h" for d h k t
        using that Cons.prems(1) Cons.prems(2) [of d h k t] cg True by force
      then show ?thesis by (fastforce simp: map_of_eq_None_iff)
    qed
    moreover have "map_option snd (find (\<lambda>(k, t). group_elem k input) g) = map_of g input"
      by (rule find) (rule words)
    ultimately show ?thesis using True cg by (cases "map_of g input") (simp_all add: map_add_def)
  next
    case False
    then have "map_of g input = None" using words by (force simp: map_of_eq_None_iff)
    moreover have "(case map_of gs (input ! 0) of None \<Rightarrow> None
        | Some g \<Rightarrow> map_option snd (find (\<lambda>(k, t). group_elem k input) g)) = map_of (concat (map snd gs)) input"
      by (rule Cons.IH) (use Cons.prems in auto)
    ultimately show ?thesis using False cg by (simp add: map_add_def)
  qed
qed simp

lemma keyword_lengths: "(k, t) \<in> set keyword_table \<Longrightarrow> 2 \<le> length k \<and> length k \<le> 6"
  by (auto simp: keyword_words)

lemma keyword_lower: "(k, t) \<in> set keyword_table \<Longrightarrow> 97 \<le> to_int (hd k)"
  by (auto simp: keyword_words to_int_def)

lemma CheckIdentifierOrKeyword_table:
  "CheckIdentifierOrKeyword input = (case map_of keyword_table input of Some t \<Rightarrow> t | None \<Rightarrow> T_IDENTIFIER)"
proof (cases "2 \<le> length input \<and> length input \<le> 6")
  case True
  have e: "k ! 0 = input ! 0 \<Longrightarrow> group_elem k input \<longleftrightarrow> k = input" for k
    using True list_eq_by_nth6 [of k input] by (auto simp: group_elem_def)
  have "(case map_of KEYWORDS (input ! 0) of None \<Rightarrow> None
      | Some g \<Rightarrow> map_option snd (find (\<lambda>(k, t). group_elem k input) g)) = map_of keyword_table input"
    unfolding switch_words [symmetric] by (rule grouped_lookup [OF _ _ e]) (auto simp: KEYWORDS_def)
  then show ?thesis using True
    by (auto simp: CheckIdentifierOrKeyword_def kMinKeywordLen_def kMaxKeywordLen_def split: option.splits)
next
  case False
  then have "length input < 2 \<or> 6 < length input" by auto
  moreover from this have "map_of keyword_table input = None"
    using keyword_lengths by (force simp: map_of_eq_None_iff)
  ultimately show ?thesis by (auto simp: CheckIdentifierOrKeyword_def kMinKeywordLen_def kMaxKeywordLen_def)
qed

section \<open>Printing tokens\<close>

text \<open>
  A token with its literal, as the parser sees it, and the text it comes from. The literal of a keyword is
  its spelling; punctuation has none.
\<close>

type_synonym token = "TokenType \<times> string"

fun token_text :: "token \<Rightarrow> string" where
  "token_text (t, l) =
     (case t of
        T_IDENTIFIER \<Rightarrow> l
      | T_BUILTIN_IDENTIFIER \<Rightarrow> CHR ''@'' # l
      | T_INTEGER \<Rightarrow> l
      | T_FLOAT \<Rightarrow> l
      | T_STRING \<Rightarrow> CHR 0x22 # l @ [CHR 0x22]
      | _ \<Rightarrow> the (GetString t))"

definition word_ok :: "string \<Rightarrow> bool" where
  "word_ok l \<longleftrightarrow> l \<noteq> [] \<and> \<not> digit_chr (hd l) \<and> (\<forall>c \<in> set l. ident_char c)"

definition digits_ok :: "string \<Rightarrow> bool" where
  "digits_ok l \<longleftrightarrow> l \<noteq> [] \<and> (\<forall>c \<in> set l. digit_chr c)"

text \<open>A string literal is not empty, and every quote after its first character is escaped.\<close>

fun quotes_escaped :: "string \<Rightarrow> bool" where
  "quotes_escaped [] \<longleftrightarrow> False"
| "quotes_escaped [c] \<longleftrightarrow> ascii c \<and> to_int c \<noteq> 92"
| "quotes_escaped (c # d # cs) \<longleftrightarrow> ascii c \<and> (d = CHR 0x22 \<longrightarrow> to_int c = 92) \<and> quotes_escaped (d # cs)"

definition symbol_tokens :: "TokenType list" where
  "symbol_tokens = [T_LEFT_PAREN, T_RIGHT_PAREN, T_LEFT_BRACE, T_RIGHT_BRACE, T_LEFT_BRACKET, T_RIGHT_BRACKET,
     T_ARROW, T_BANG, T_BIT_NOT, T_COLON, T_DOT, T_SEMI, T_AT, T_EQUAL, T_COMMA, T_BIT_OR, T_BIT_XOR, T_AMPERSAND,
     T_BIT_SHL, T_BIT_SHR, T_PLUS, T_MINUS, T_STAR, T_SLASH, T_PERCENT, T_BANG_EQUAL, T_EQUAL_EQUAL, T_GREATER,
     T_GREATER_EQUAL, T_LESS, T_LESS_EQUAL]"

fun token_ok :: "token \<Rightarrow> bool" where
  "token_ok (t, l) \<longleftrightarrow>
     (if t = T_IDENTIFIER then word_ok l \<and> l \<notin> fst ` set keyword_table
      else if t = T_BUILTIN_IDENTIFIER then l \<noteq> [] \<and> (\<forall>c \<in> set l. ident_char c)
      else if t = T_INTEGER then digits_ok l
      else if t = T_FLOAT then \<exists>a b. l = a @ ''.'' @ b \<and> digits_ok a \<and> (\<forall>c \<in> set b. digit_chr c)
      else if t = T_STRING then quotes_escaped l
      else if t \<in> set symbol_tokens then l = []
      else (l, t) \<in> set keyword_table)"

fun print_tokens :: "token list \<Rightarrow> string" where
  "print_tokens [] = []"
| "print_tokens (t # ts) = token_text t @ '' '' @ print_tokens ts"

section \<open>Scanning a printed token\<close>

text \<open>What a round leaves behind: the token, its literal and the input after it.\<close>

definition scans :: "Scanner \<Rightarrow> token \<Rightarrow> string \<Rightarrow> bool" where
  "scans s tok rest \<longleftrightarrow> (case scan_switch s of (t, s') \<Rightarrow>
     t = fst tok \<and> scan_at s' rest \<and> lit s' = lit s @ snd tok \<and> sc_curr s' = sc_curr s)"

lemma Matches_at:
  "scan_at s (c # cs) \<Longrightarrow> Matches (to_int c) s = (True, Advance s)"
  "scan_at s (c # cs) \<Longrightarrow> c \<noteq> d \<Longrightarrow> Matches (to_int d) s = (False, s)"
  by (simp_all add: Matches_def c0_at)

lemma symbol_scans:
  assumes "t \<in> set symbol_tokens" and s: "scan_at s (token_text (t, []) @ CHR '' '' # rest)"
  shows "scans s (t, []) (CHR '' '' # rest)"
proof -
  have "t \<in> {T_LEFT_PAREN, T_RIGHT_PAREN, T_LEFT_BRACE, T_RIGHT_BRACE, T_LEFT_BRACKET, T_RIGHT_BRACKET,
     T_ARROW, T_BANG, T_BIT_NOT, T_COLON, T_DOT, T_SEMI, T_AT, T_EQUAL, T_COMMA, T_BIT_OR, T_BIT_XOR, T_AMPERSAND,
     T_BIT_SHL, T_BIT_SHR, T_PLUS, T_MINUS, T_STAR, T_SLASH, T_PERCENT, T_BANG_EQUAL, T_EQUAL_EQUAL, T_GREATER,
     T_GREATER_EQUAL, T_LESS, T_LESS_EQUAL}"
    using assms(1) unfolding symbol_tokens_def list.set .
  then show ?thesis using s
    by (elim insertE emptyE)
      (simp_all add: scans_def scan_switch_def is_char_at punctuation_def Let_def Advance_at c0_at [OF Advance_at]
        Matches_at [OF Advance_at] Advance_at [OF Advance_at])
qed

text \<open>The branch of the switch for a character that starts a word or a number.\<close>

lemma scan_switch_word:
  assumes "scan_at s (c # cs)" and "ident_char c"
  shows "scan_switch s = (if digit_chr c then ScanNumber s else ScanIdentifierOrKeyword s)"
proof -
  have c: "c \<notin> set ''{}@()[]&|^!~:,.;=><-%+/* ''" "c \<noteq> CHR 0x22" using ident_char_cases [OF assms(2)] by auto
  have "IsIdentifierChar (c0 s)" "IsDigit (c0 s) = digit_chr c"
    using assms by (simp_all add: c0_at ident_char_def digit_chr_def)
  then show ?thesis using c
    by (simp add: scan_switch_def is_char_at [OF assms(1)] punctuation_def)
qed

lemma word_scans:
  assumes s: "scan_at s (l @ CHR '' '' # rest)" and l: "word_ok l" and "lit s = []"
  shows "scans s (CheckIdentifierOrKeyword l, l) (CHR '' '' # rest)"
proof -
  obtain c l' where cl: "l = c # l'" using l by (cases l) (auto simp: word_ok_def)
  have c: "ident_char c" "\<not> digit_chr c" using l cl by (auto simp: word_ok_def)
  have sw: "scan_switch s = ScanIdentifierOrKeyword s"
    using scan_switch_word [of s c "l' @ CHR '' '' # rest"] s c cl by simp
  have col: "scan_at (collect IsIdentifierChar s) (CHR '' '' # rest) \<and> lit (collect IsIdentifierChar s) = lit s @ l \<and>
    sc_curr (collect IsIdentifierChar s) = sc_curr s"
    using l s by (intro collect_at) (auto simp: word_ok_def ident_char_def)
  have id: "CheckIdentifierOrKeyword l = T_IDENTIFIER" if "c = CHR ''_'' \<or> IsInRange (to_int c) 65 90"
  proof -
    have "to_int c < 97" using that by (auto simp: IsInRange_def to_int_consts)
    then have "(l, t) \<notin> set keyword_table" for t using keyword_lower [of l t] cl by auto
    then have "map_of keyword_table l = None" by (force simp: map_of_eq_None_iff)
    then show ?thesis by (simp add: CheckIdentifierOrKeyword_table)
  qed
  have "c0 s = to_int c" using s cl by (simp add: c0_at)
  then show ?thesis using col assms(3) id
    by (auto simp: scans_def sw ScanIdentifierOrKeyword_def Let_def lit_def to_int_consts to_int_inject [of c "CHR ''_''", simplified to_int_consts])
qed

lemma builtin_scans:
  assumes s: "scan_at s (CHR ''@'' # l @ CHR '' '' # rest)" and l: "l \<noteq> []" "\<And>c. c \<in> set l \<Longrightarrow> ident_char c"
  shows "scans s (T_BUILTIN_IDENTIFIER, l) (CHR '' '' # rest)"
proof -
  have a: "scan_at (Advance s) (l @ CHR '' '' # rest)" using s by (rule Advance_at)
  have "scan_at (collect IsIdentifierChar (Advance s)) (CHR '' '' # rest) \<and>
    lit (collect IsIdentifierChar (Advance s)) = lit (Advance s) @ l \<and>
    sc_curr (collect IsIdentifierChar (Advance s)) = sc_curr (Advance s)"
    using l a by (intro collect_at) (auto simp: ident_char_def)
  moreover have "IsIdentifierChar (c0 (Advance s))" using a l by (cases l) (auto simp: c0_at ident_char_def)
  ultimately show ?thesis
    by (simp add: scans_def scan_switch_def is_char_at [OF s] Let_def ScanIdentifierOrKeyword_def)
qed

lemma digits_scans:
  assumes s: "scan_at s (l @ CHR '' '' # rest)" and l: "digits_ok l"
  shows "scans s (T_INTEGER, l) (CHR '' '' # rest)"
proof -
  obtain c l' where cl: "l = c # l'" using l by (cases l) (auto simp: digits_ok_def)
  have sw: "scan_switch s = ScanNumber s"
    using scan_switch_word [of s c "l' @ CHR '' '' # rest"] s l cl digit_ident by (simp add: digits_ok_def)
  have col: "scan_at (collect IsDigit s) (CHR '' '' # rest) \<and> lit (collect IsDigit s) = lit s @ l \<and>
    sc_curr (collect IsDigit s) = sc_curr s"
    using l s by (intro collect_at) (auto simp: digits_ok_def digit_chr_def)
  then have "c0 (collect IsDigit s) \<noteq> to_int (CHR ''.'')" using c0_at by fastforce
  then show ?thesis using col by (simp add: scans_def sw ScanNumber_def Let_def)
qed

lemma float_scans:
  assumes s: "scan_at s ((a @ ''.'' @ b) @ CHR '' '' # rest)" and a: "digits_ok a" and b: "\<And>c. c \<in> set b \<Longrightarrow> digit_chr c"
  shows "scans s (T_FLOAT, a @ ''.'' @ b) (CHR '' '' # rest)"
proof -
  obtain c a' where ca: "a = c # a'" using a by (cases a) (auto simp: digits_ok_def)
  have sw: "scan_switch s = ScanNumber s"
    using scan_switch_word [of s c "a' @ CHR ''.'' # b @ CHR '' '' # rest"] s a ca digit_ident by (simp add: digits_ok_def)
  let ?s1 = "collect IsDigit s"
  have c1: "scan_at ?s1 (CHR ''.'' # b @ CHR '' '' # rest) \<and> lit ?s1 = lit s @ a \<and> sc_curr ?s1 = sc_curr s"
    using a s by (intro collect_at) (auto simp: digits_ok_def digit_chr_def)
  let ?s2 = "Advance (?s1\<lparr>sc_next := (sc_next ?s1)\<lparr>tok_literal := tok_literal (sc_next ?s1) @ ''.''\<rparr>\<rparr>)"
  have "scan_at ?s2 (b @ CHR '' '' # rest)" using c1 by (intro Advance_at) auto
  then have c2: "scan_at (collect IsDigit ?s2) (CHR '' '' # rest) \<and> lit (collect IsDigit ?s2) = lit ?s2 @ b \<and>
    sc_curr (collect IsDigit ?s2) = sc_curr ?s2"
    using b by (intro collect_at) (auto simp: digit_chr_def)
  have "c0 ?s1 = to_int (CHR ''.'')" using c1 c0_at by blast
  then show ?thesis using c1 c2 by (simp add: scans_def sw ScanNumber_def Let_def lit_def)
qed

lemma ScanString_at:
  "scan_at s (l @ CHR 0x22 # rest) \<Longrightarrow> quotes_escaped l \<Longrightarrow>
   fst (ScanString s) = T_STRING \<and> scan_at (snd (ScanString s)) rest \<and> lit (snd (ScanString s)) = lit s @ l \<and>
     sc_curr (snd (ScanString s)) = sc_curr s"
proof (induction l arbitrary: s rule: quotes_escaped.induct)
  case (2 c)
  have s: "scan_at s (c # CHR 0x22 # rest)" using 2(1) by simp
  then have a: "scan_at (Advance (add_literal s)) (CHR 0x22 # rest)" using Advance_at add_literal_at by blast
  have "c0 s \<noteq> kEndOfInput" using s 2(2) c0_at [OF s] by (simp add: ascii_def)
  then show ?case using a 2(2) scan_at_ok [OF s] c0_at [OF s] c0_at [OF a] Advance_at [OF a]
    by (simp add: ScanString.simps [of s] Let_def)
next
  case (3 c d cs)
  have s: "scan_at s (c # d # cs @ CHR 0x22 # rest)" using 3(2) by simp
  then have a: "scan_at (Advance (add_literal s)) ((d # cs) @ CHR 0x22 # rest)" using Advance_at add_literal_at by fastforce
  have "c0 s \<noteq> kEndOfInput" using s 3(3) c0_at [OF s] by (simp add: ascii_def)
  moreover have "\<not> (c0 (Advance (add_literal s)) = to_int (CHR 0x22) \<and> c0 s \<noteq> 92)"
    using 3(3) c0_at [OF s] c0_at [of "Advance (add_literal s)" d] a by auto
  ultimately have "ScanString s = ScanString (Advance (add_literal s))"
    using scan_at_ok [OF s] by (auto simp: ScanString.simps [of s] Let_def)
  then show ?case using 3(1) [OF a] 3(3) c0_at [OF s] by simp
qed simp

lemma string_scans:
  assumes s: "scan_at s (CHR 0x22 # l @ CHR 0x22 # rest)" and "quotes_escaped l"
  shows "scans s (T_STRING, l) rest"
proof -
  have "scan_at (Advance s) (l @ CHR 0x22 # rest)" using s by (rule Advance_at)
  then show ?thesis using ScanString_at [of "Advance s" l rest] assms(2)
    by (simp add: scans_def scan_switch_def is_char_at [OF s] punctuation_def case_prod_unfold)
qed

lemma keyword_token:
  assumes "(l, t) \<in> set keyword_table"
  shows "token_text (t, l) = l" and "word_ok l" and "CheckIdentifierOrKeyword l = t" and "t \<notin> set symbol_tokens"
    and "t \<notin> {T_IDENTIFIER, T_BUILTIN_IDENTIFIER, T_INTEGER, T_FLOAT, T_STRING, T_WHITESPACE, T_EOS}"
proof -
  have d: "distinct (map fst keyword_table)" by (simp add: keyword_words)
  then show "CheckIdentifierOrKeyword l = t"
    using map_of_is_SomeI [OF d assms] by (simp add: CheckIdentifierOrKeyword_table)
  have *: "token_text (t, l) = l \<and> word_ok l \<and> t \<notin> set symbol_tokens \<and>
    t \<notin> {T_IDENTIFIER, T_BUILTIN_IDENTIFIER, T_INTEGER, T_FLOAT, T_STRING, T_WHITESPACE, T_EOS}"
    using assms unfolding keyword_words
    by (auto simp: word_ok_def digit_chr_def ident_char_def char_classes to_int_def symbol_tokens_def)
  then show "token_text (t, l) = l" "word_ok l" "t \<notin> set symbol_tokens"
    "t \<notin> {T_IDENTIFIER, T_BUILTIN_IDENTIFIER, T_INTEGER, T_FLOAT, T_STRING, T_WHITESPACE, T_EOS}" by blast+
qed

lemma symbol_text: "t \<in> set symbol_tokens \<Longrightarrow>
  t \<notin> {T_IDENTIFIER, T_BUILTIN_IDENTIFIER, T_INTEGER, T_FLOAT, T_STRING, T_WHITESPACE, T_EOS}"
  by (auto simp: symbol_tokens_def)

lemma token_scans:
  assumes "token_ok tok" and "scan_at s (token_text tok @ CHR '' '' # rest)" and "lit s = []"
  shows "scans s tok (CHR '' '' # rest)"
proof -
  obtain t l where tok: "tok = (t, l)" by (cases tok)
  consider "t = T_IDENTIFIER" | "t = T_BUILTIN_IDENTIFIER" | "t = T_INTEGER" | "t = T_FLOAT" | "t = T_STRING"
    | "t \<in> set symbol_tokens" | "(l, t) \<in> set keyword_table"
    using assms(1) tok by (auto split: if_splits)
  then show ?thesis
  proof cases
    case 1
    then have "map_of keyword_table l = None" using assms(1) tok by (simp add: map_of_eq_None_iff)
    then show ?thesis using 1 assms tok word_scans [of s l rest] by (simp add: CheckIdentifierOrKeyword_table)
  next
    case 2
    then show ?thesis using assms tok builtin_scans [of s l rest] by simp
  next
    case 3
    then show ?thesis using assms tok digits_scans [of s l rest] by simp
  next
    case 4
    then show ?thesis using assms tok float_scans [of s _ _ rest] by auto
  next
    case 5
    then show ?thesis using assms tok string_scans [of s l "CHR '' '' # rest"] by simp
  next
    case 6
    then have "l = []" using assms(1) tok symbol_text [OF 6] by auto
    then show ?thesis using 6 assms tok symbol_scans [of t s rest] by blast
  next
    case 7
    then show ?thesis using assms tok word_scans [of s l rest] keyword_token [OF 7] by simp
  qed
qed

lemma token_ok_type: "token_ok (t, l) \<Longrightarrow> t \<noteq> T_WHITESPACE \<and> t \<noteq> T_EOS"
  using keyword_token(5) symbol_text by (auto split: if_splits)

section \<open>The loop\<close>

lemma scan_round_at:
  "scan_round s = scan_switch (s\<lparr>sc_next := (sc_next s)\<lparr>tok_pos := c0_pos s, tok_offset := sc_offset s\<rparr>\<rparr>)"
  by (simp add: scan_round_def)

lemma Scan_token:
  assumes "token_ok tok" and "scan_at s (token_text tok @ CHR '' '' # rest)"
  shows "\<exists>s'. Scan s = Some s' \<and> tok_type (sc_next s') = fst tok \<and> lit s' = snd tok \<and> sc_curr s' = sc_curr s \<and>
    scan_at s' (CHR '' '' # rest)"
proof -
  let ?s0 = "s\<lparr>sc_next := (sc_next s)\<lparr>tok_literal := []\<rparr>\<rparr>"
  let ?s1 = "?s0\<lparr>sc_next := (sc_next ?s0)\<lparr>tok_pos := c0_pos ?s0, tok_offset := sc_offset ?s0\<rparr>\<rparr>"
  have "scans ?s1 tok (CHR '' '' # rest)" by (rule token_scans) (use assms in \<open>simp_all add: lit_def\<close>)
  then obtain s' where s': "scan_switch ?s1 = (fst tok, s')" "scan_at s' (CHR '' '' # rest)" "lit s' = snd tok"
    "sc_curr s' = sc_curr s"
    unfolding scans_def by (auto simp: lit_def split: prod.splits)
  have "fst tok \<noteq> T_WHITESPACE" using token_ok_type [of "fst tok" "snd tok"] assms(1) by simp
  then have "scan_loop ?s0 = Some (fst tok, s')"
    unfolding scan_loop.simps [of ?s0] scan_round_def s'(1) by simp
  then show ?thesis using s' by (simp add: Scan_def lit_def)
qed

lemma Scan_space:
  assumes "scan_at s (CHR '' '' # rest)" and "rest \<noteq> [] \<Longrightarrow> hd rest \<noteq> CHR '' '' \<and> to_int (hd rest) \<notin> {9, 10, 13}"
  shows "\<exists>s'. scan_loop s = scan_loop s' \<and> scan_at s' rest \<and> lit s' = lit s \<and> sc_curr s' = sc_curr s"
proof -
  let ?s1 = "s\<lparr>sc_next := (sc_next s)\<lparr>tok_pos := c0_pos s, tok_offset := sc_offset s\<rparr>\<rparr>"
  have a: "scan_at ?s1 (CHR '' '' # rest)" using assms(1) by simp
  have sw: "scan_switch ?s1 = (T_WHITESPACE, SkipWhiteSpace ?s1)"
    using c0_at [OF a] by (simp add: scan_switch_def is_char_at [OF a] punctuation_def)
  have at: "scan_at (Advance ?s1) rest" using a by (rule Advance_at)
  have "SkipWhiteSpace (Advance ?s1) = Advance ?s1"
    using assms(2) at by (cases rest) (auto simp: SkipWhiteSpace.simps [of "Advance ?s1"] scan_at_def kNewLine_def
        kEndOfInput_def to_int_consts to_int_inject [of _ "CHR '' ''", simplified to_int_consts])
  then have "SkipWhiteSpace ?s1 = Advance ?s1"
    using c0_at [OF a] scan_at_ok [OF a] by (simp add: SkipWhiteSpace.simps [of ?s1])
  then have "scan_loop s = scan_loop (Advance ?s1)"
    unfolding scan_loop.simps [of s] scan_round_def sw by simp
  then show ?thesis using at by (intro exI [of _ "Advance ?s1"]) (simp add: lit_def)
qed

lemma token_text_start:
  assumes "token_ok tok"
  shows "token_text tok \<noteq> [] \<and> hd (token_text tok) \<noteq> CHR '' '' \<and> to_int (hd (token_text tok)) \<notin> {9, 10, 13}"
proof -
  have w: "ident_char c \<Longrightarrow> c \<noteq> CHR '' '' \<and> to_int c \<notin> {9, 10, 13}" for c
    by (auto simp: ident_char_def char_classes)
  obtain t l where tok: "tok = (t, l)" by (cases tok)
  consider "t = T_IDENTIFIER" | "t = T_BUILTIN_IDENTIFIER" | "t = T_INTEGER" | "t = T_FLOAT" | "t = T_STRING"
    | "t \<in> set symbol_tokens" | "(l, t) \<in> set keyword_table"
    using assms(1) tok by (auto split: if_splits)
  then show ?thesis
  proof cases
    case 6
    then show ?thesis by (auto simp: tok symbol_tokens_def to_int_def)
  next
    case 7
    then show ?thesis using keyword_token [OF 7] w [of "hd l"] tok by (auto simp: word_ok_def)
  next
    case 4
    then obtain a b where l: "l = a @ ''.'' @ b" "digits_ok a" using assms tok by auto
    then have "a \<noteq> []" "digit_chr (hd a)" by (auto simp: digits_ok_def)
    then show ?thesis using 4 l tok w [of "hd a"] digit_ident by auto
  next
    case 1
    then show ?thesis using assms tok w [of "hd l"] by (auto simp: word_ok_def)
  next
    case 3
    then show ?thesis using assms tok w [of "hd l"] digit_ident by (auto simp: digits_ok_def)
  qed (auto simp: tok to_int_def)
qed

lemma Scan_token_space:
  assumes "token_ok tok" and "scan_at s (CHR '' '' # token_text tok @ CHR '' '' # rest)"
  shows "\<exists>s'. Scan s = Some s' \<and> tok_type (sc_next s') = fst tok \<and> lit s' = snd tok \<and> sc_curr s' = sc_curr s \<and>
    scan_at s' (CHR '' '' # rest)"
proof -
  let ?s0 = "s\<lparr>sc_next := (sc_next s)\<lparr>tok_literal := []\<rparr>\<rparr>"
  obtain s1 where s1: "scan_loop ?s0 = scan_loop s1" "scan_at s1 (token_text tok @ CHR '' '' # rest)"
    "lit s1 = []" "sc_curr s1 = sc_curr s"
    using Scan_space [of ?s0 "token_text tok @ CHR '' '' # rest"] assms(2) token_text_start [OF assms(1)]
    by (auto simp: lit_def)
  have "s1\<lparr>sc_next := (sc_next s1)\<lparr>tok_literal := []\<rparr>\<rparr> = s1" using s1(3) by (simp add: lit_def)
  then have "Scan s = Scan s1" using s1(1) by (simp add: Scan_def)
  then show ?thesis using Scan_token [OF assms(1) s1(2)] s1(4) by simp
qed

lemma Scan_end:
  assumes "scan_at s ''''" shows "\<exists>s'. Scan s = Some s' \<and> tok_type (sc_next s') = T_EOS \<and> sc_curr s' = sc_curr s"
proof -
  let ?s0 = "s\<lparr>sc_next := (sc_next s)\<lparr>tok_literal := []\<rparr>\<rparr>"
  let ?s1 = "?s0\<lparr>sc_next := (sc_next ?s0)\<lparr>tok_pos := c0_pos ?s0, tok_offset := sc_offset ?s0\<rparr>\<rparr>"
  have a: "scan_at ?s1 []" using assms by simp
  have "c0 ?s1 = kEndOfInput" using a by (simp add: scan_at_def)
  then have "scan_switch ?s1 = (T_EOS, ?s1)"
    using is_char_end [OF a] by (simp add: scan_switch_def punctuation_def ascii_def)
  then have "scan_loop ?s0 = Some (T_EOS, ?s1)" unfolding scan_loop.simps [of ?s0] scan_round_def by simp
  then show ?thesis by (simp add: Scan_def)
qed

lemma Scan_end_space:
  assumes "scan_at s '' ''" shows "\<exists>s'. Scan s = Some s' \<and> tok_type (sc_next s') = T_EOS \<and> sc_curr s' = sc_curr s"
proof -
  let ?s0 = "s\<lparr>sc_next := (sc_next s)\<lparr>tok_literal := []\<rparr>\<rparr>"
  obtain s1 where s1: "scan_loop ?s0 = scan_loop s1" "scan_at s1 []" "lit s1 = []" "sc_curr s1 = sc_curr s"
    using Scan_space [of ?s0 "[]"] assms by (auto simp: lit_def)
  have "s1\<lparr>sc_next := (sc_next s1)\<lparr>tok_literal := []\<rparr>\<rparr> = s1" using s1(3) by (simp add: lit_def)
  then have "Scan s = Scan s1" using s1(1) by (simp add: Scan_def)
  then show ?thesis using Scan_end [OF s1(2)] s1(4) by simp
qed

text \<open>Reading \<open>n\<close> tokens with \<^verbatim>\<open>Next\<close>, each with its literal.\<close>

fun read_tokens :: "nat \<Rightarrow> Scanner \<Rightarrow> (token list \<times> Scanner) option" where
  "read_tokens 0 s = Some ([], s)"
| "read_tokens (Suc n) s = do {
     (t, s) \<leftarrow> Next s;
     (ts, s') \<leftarrow> read_tokens n s;
     Some ((t, CurrentLiteral s) # ts, s') }"

lemma read_printed:
  assumes "tok_type (sc_next s) = fst tok" and "lit s = snd tok" and "scan_at s (CHR '' '' # print_tokens ts)"
    and "\<And>t. t \<in> set ts \<Longrightarrow> token_ok t"
  shows "\<exists>s'. read_tokens (Suc (length ts)) s = Some (tok # ts, s') \<and> Peek s' = T_EOS"
  using assms
proof (induction ts arbitrary: s tok)
  case Nil
  have "scan_at (s\<lparr>sc_curr := sc_next s\<rparr>) '' ''" using Nil.prems(3) by simp
  from Scan_end_space [OF this] show ?case
    using Nil.prems(1,2) by (auto simp: Next_def CurrentLiteral_def Peek_def lit_def prod_eq_iff)
next
  case (Cons u ts)
  have "scan_at (s\<lparr>sc_curr := sc_next s\<rparr>) (CHR '' '' # token_text u @ CHR '' '' # print_tokens ts)"
    using Cons.prems(3) by simp
  from Scan_token_space [OF _ this] obtain s1 where s1: "Scan (s\<lparr>sc_curr := sc_next s\<rparr>) = Some s1"
    "tok_type (sc_next s1) = fst u" "lit s1 = snd u" "sc_curr s1 = sc_next s" "scan_at s1 (CHR '' '' # print_tokens ts)"
    using Cons.prems(4) by auto
  from Cons.IH [OF s1(2,3,5)] obtain s2 where "read_tokens (Suc (length ts)) s1 = Some (u # ts, s2)" "Peek s2 = T_EOS"
    using Cons.prems(4) by auto
  moreover have "Next s = Some (fst tok, s1)" "CurrentLiteral s1 = snd tok"
    using s1(1,4) Cons.prems(1,2) by (simp_all add: Next_def CurrentLiteral_def lit_def)
  ultimately show ?case
    by (simp add: read_tokens.simps(2) [of "Suc (length ts)"] prod_eq_iff del: read_tokens.simps)
qed

section \<open>Progress\<close>

text \<open>
  \<open>moves s s'\<close>: \<open>s'\<close> is ahead of \<open>s\<close> in the same source. \<open>lookahead_ok\<close> relates the lookahead to the
  source: it is the end mark only at the end, and otherwise a character of the source.
\<close>

definition lookahead_ok :: "Scanner \<Rightarrow> bool" where
  "lookahead_ok s \<longleftrightarrow> scanner_ok s \<and>
     (c0 s = kEndOfInput \<and> sc_offset s = length (sc_source s) \<or> c0 s \<in> to_int ` set (sc_source s))"

definition moves :: "Scanner \<Rightarrow> Scanner \<Rightarrow> bool" where
  "moves s s' \<longleftrightarrow> lookahead_ok s' \<and> sc_source s' = sc_source s \<and> sc_curr s' = sc_curr s \<and> scan_left s' \<le> scan_left s"

lemma moves_refl: "lookahead_ok s \<Longrightarrow> moves s s"
  by (simp add: moves_def)

lemma moves_trans: "moves s s' \<Longrightarrow> moves s' s'' \<Longrightarrow> moves s s''"
  by (auto simp: moves_def)

lemma lookahead_next [simp]: "lookahead_ok (s\<lparr>sc_next := d\<rparr>) = lookahead_ok s"
  by (simp add: lookahead_ok_def scanner_ok_def)

lemma lookahead_pos [simp]: "lookahead_ok (s\<lparr>c0_pos := p\<rparr>) = lookahead_ok s"
  by (simp add: lookahead_ok_def scanner_ok_def)

lemma scan_left_updates [simp]: "scan_left (s\<lparr>sc_next := d\<rparr>) = scan_left s" "scan_left (s\<lparr>c0_pos := p\<rparr>) = scan_left s"
  by (simp_all add: scan_left_def)

lemma moves_updates:
  "lookahead_ok s \<Longrightarrow> moves s (s\<lparr>sc_next := d\<rparr>)" "lookahead_ok s \<Longrightarrow> moves s (s\<lparr>c0_pos := p\<rparr>)"
  "lookahead_ok s \<Longrightarrow> moves s (add_literal s)"
  by (simp_all add: moves_def add_literal_def)

lemma moves_ok: "moves s s' \<Longrightarrow> lookahead_ok s'"
  by (simp add: moves_def)

lemma Advance_moves:
  assumes "lookahead_ok s" shows "moves s (Advance s)"
proof -
  have "scan_left (Advance s) \<le> scan_left s" using assms
    by (auto simp: Advance_def scan_left_def lookahead_ok_def scanner_ok_def of_bool_def)
  moreover have "lookahead_ok (Advance s)" using assms
    by (auto simp: Advance_def lookahead_ok_def scanner_ok_def)
  ultimately show ?thesis by (simp add: moves_def)
qed

lemma Advance_strict: "lookahead_ok s \<Longrightarrow> c0 s \<noteq> kEndOfInput \<Longrightarrow> scan_left (Advance s) < scan_left s"
  by (rule Advance_left) (simp_all add: lookahead_ok_def)

lemma AdvanceUntil_moves: "lookahead_ok s \<Longrightarrow> moves s (AdvanceUntil p s)"
proof (induction p s rule: AdvanceUntil.induct)
  case (1 p s)
  then show ?case using Advance_moves [of s] moves_trans moves_ok moves_refl
    by (auto simp: AdvanceUntil.simps [of p s])
qed

lemma SkipWhiteSpace_moves: "lookahead_ok s \<Longrightarrow> moves s (SkipWhiteSpace s)"
proof (induction s rule: SkipWhiteSpace.induct)
  case (1 s)
  let ?s = "s\<lparr>c0_pos := \<lparr>pos_line = pos_line (c0_pos s) + 1, pos_column = 0\<rparr>\<rparr>"
  have m: "moves s (Advance s)" "moves s (Advance ?s)"
    using 1(3) Advance_moves [of s] Advance_moves [of ?s] moves_updates(2) [of s] moves_trans by auto
  have ok: "scanner_ok s" using 1(3) by (simp add: lookahead_ok_def)
  show ?case
  proof (cases "c0 s = to_int (CHR '' '') \<or> c0 s = 13 \<or> c0 s = 9")
    case True
    then have "SkipWhiteSpace s = SkipWhiteSpace (Advance s)" using ok by (simp only: SkipWhiteSpace.simps [of s] simp_thms if_True if_False)
    then show ?thesis using 1(1) [OF _ True moves_ok [OF m(1)]] ok moves_trans [OF m(1)] by simp
  next
    case sp: False
    show ?thesis
    proof (cases "c0 s = kNewLine")
      case True
      then have "SkipWhiteSpace s = SkipWhiteSpace (Advance ?s)" using ok sp by (simp only: SkipWhiteSpace.simps [of s] simp_thms if_True if_False)
      then show ?thesis using 1(2) [OF _ sp True moves_ok [OF m(2)]] ok moves_trans [OF m(2)] by simp
    next
      case False
      then have "SkipWhiteSpace s = s" using ok sp by (simp only: SkipWhiteSpace.simps [of s] simp_thms if_True if_False)
      then show ?thesis using moves_refl [OF 1(3)] by simp
    qed
  qed
qed

lemma skip_stars_moves: "lookahead_ok s \<Longrightarrow> moves s (snd (skip_stars s))"
proof (induction s rule: skip_stars.induct)
  case (1 s)
  have m: "moves s (Advance s)" using 1(2) by (rule Advance_moves)
  have "moves s (Advance (Advance s))" using Advance_moves [OF moves_ok [OF m]] m moves_trans by blast
  moreover have "scanner_ok s \<and> c0 s = to_int (CHR ''*'') \<Longrightarrow> c0 (Advance s) \<noteq> to_int (CHR ''/'') \<Longrightarrow>
    moves s (snd (skip_stars (Advance s)))"
    using 1(1) [OF _ refl] moves_ok [OF m] moves_trans [OF m] by blast
  ultimately show ?case using moves_refl [OF 1(2)] by (simp add: skip_stars.simps [of s] Let_def)
qed

lemma SkipBlockComment_moves: "lookahead_ok s \<Longrightarrow> moves s (SkipBlockComment s)"
proof (induction s rule: SkipBlockComment.induct)
  case (1 s)
  let ?s1 = "AdvanceUntil (\<lambda>c. c = to_int (CHR ''*'')) s"
  obtain closed s2 where s2: "skip_stars ?s1 = (closed, s2)" by (cases "skip_stars ?s1")
  have m: "moves s ?s1" using 1(2) by (rule AdvanceUntil_moves)
  then have m2: "moves s s2" using skip_stars_moves [OF moves_ok [OF m]] s2 moves_trans by fastforce
  show ?case
  proof (cases "scanner_ok s \<and> c0 s \<noteq> kEndOfInput \<and> \<not> closed")
    case True
    then have "moves s2 (SkipBlockComment s2)" using 1(1) [OF _ refl s2 [symmetric]] moves_ok [OF m2] s2 by auto
    then show ?thesis using True s2 m2 moves_trans by (auto simp: SkipBlockComment.simps [of s])
  next
    case False
    then show ?thesis using s2 m2 moves_refl [OF 1(2)] by (auto simp: SkipBlockComment.simps [of s])
  qed
qed

lemma literal_step_moves: "lookahead_ok s \<Longrightarrow> moves s (Advance (add_literal s))"
  using moves_updates(3) Advance_moves moves_trans moves_ok by blast

lemma collect_moves: "lookahead_ok s \<Longrightarrow> moves s (collect p s)"
proof (induction p s rule: collect.induct)
  case (1 p s)
  have m: "moves s (Advance (add_literal s))" using 1(2) by (rule literal_step_moves)
  then show ?case using 1 moves_ok [OF m] moves_trans moves_refl by (auto simp: collect.simps [of p s])
qed

lemma ScanString_moves: "lookahead_ok s \<Longrightarrow> moves s (snd (ScanString s))"
proof (induction s rule: ScanString.induct)
  case (1 s)
  have m: "moves s (Advance (add_literal s))" using 1(2) by (rule literal_step_moves)
  have "moves s (Advance (Advance (add_literal s)))" using Advance_moves [OF moves_ok [OF m]] m moves_trans by blast
  then show ?case using 1 m moves_ok [OF m] moves_trans moves_updates(1) [OF 1(2)]
    by (auto simp: ScanString.simps [of s] Let_def)
qed

lemma Matches_moves: "lookahead_ok s \<Longrightarrow> moves s (snd (Matches c s))"
  using Advance_moves moves_refl by (auto simp: Matches_def)

lemma scan_operator_moves: "lookahead_ok s \<Longrightarrow> moves s (snd (scan_operator alts t s))"
proof (induction alts arbitrary: s)
  case (Cons a alts)
  obtain c u where "a = (c, u)" by (cases a)
  then show ?case using Cons Advance_moves [OF Cons.prems] by (auto simp: Matches_def)
qed (simp add: moves_refl)

lemma ScanNumber_moves: "lookahead_ok s \<Longrightarrow> moves s (snd (ScanNumber s))"
proof -
  assume s: "lookahead_ok s"
  let ?s1 = "collect IsDigit s"
  have m: "moves s ?s1" using s by (rule collect_moves)
  have "moves ?s1 (collect IsDigit (Advance (?s1\<lparr>sc_next := d\<rparr>)))" for d
    using moves_ok [OF m] moves_updates(1) [of ?s1 d] Advance_moves [of "?s1\<lparr>sc_next := d\<rparr>"] collect_moves
      moves_trans moves_ok by (metis lookahead_next)
  then show ?thesis using m moves_trans by (auto simp: ScanNumber_def Let_def)
qed

lemma ScanIdentifierOrKeyword_moves: "lookahead_ok s \<Longrightarrow> moves s (snd (ScanIdentifierOrKeyword s))"
  using collect_moves by (auto simp: ScanIdentifierOrKeyword_def Let_def)

text \<open>The characters that some branch of the switch accepts.\<close>

definition scannable :: "char \<Rightarrow> bool" where
  "scannable c \<longleftrightarrow> ident_char c \<or> c \<in> set ''{}@()[]&|^!~:,.;=><-%+/* '' \<or> c = CHR 0x22 \<or> to_int c \<in> {9, 10, 13}"

lemma scan_switch_progress:
  assumes s: "lookahead_ok s" and end_: "c0 s \<noteq> kEndOfInput" and c: "c0 s = to_int c" "scannable c"
  shows "moves s (snd (scan_switch s))" and "scan_left (snd (scan_switch s)) < scan_left s"
proof -
  define Q where "Q s' \<longleftrightarrow> moves s s' \<and> scan_left s' < scan_left s" for s'
  have a: "moves s (Advance s)" using s by (rule Advance_moves)
  have step: "moves s1 s' \<Longrightarrow> Q s'" if "moves s s1" "scan_left s1 < scan_left s" for s1 s'
    using that moves_trans by (fastforce simp: Q_def moves_def)
  note A = step [OF a Advance_strict [OF s end_]]
  note ok = moves_ok [OF a]
  have L: "moves s (Advance (add_literal s))" "scan_left (Advance (add_literal s)) < scan_left s"
    using literal_step_moves [OF s] Advance_left [of "add_literal s"] s end_ by (simp_all add: lookahead_ok_def)
  have col: "Q (collect p s)" if "p (c0 s)" for p
  proof -
    have "collect p s = collect p (Advance (add_literal s))"
      using that s end_ by (simp add: collect.simps [of p s] lookahead_ok_def)
    then show ?thesis using step [OF L] collect_moves moves_ok [OF L(1)] by simp
  qed
  have number: "IsDigit (c0 s) \<Longrightarrow> Q (snd (ScanNumber s))"
  proof -
    assume "IsDigit (c0 s)"
    then have q: "Q (collect IsDigit s)" by (rule col)
    let ?s1 = "collect IsDigit s"
    have "moves ?s1 (collect IsDigit (Advance (?s1\<lparr>sc_next := d\<rparr>)))" for d
      using q moves_ok [of s ?s1] moves_updates(1) [of ?s1 d] Advance_moves [of "?s1\<lparr>sc_next := d\<rparr>"] collect_moves
        moves_trans moves_ok by (metis Q_def lookahead_next)
    then show ?thesis using q step [of ?s1] by (auto simp: ScanNumber_def Let_def Q_def)
  qed
  have word: "IsIdentifierChar (c0 s) \<Longrightarrow> Q (snd (ScanIdentifierOrKeyword s))"
    using col by (auto simp: ScanIdentifierOrKeyword_def Let_def)
  have branches: "Q (snd (ScanIdentifierOrKeyword (Advance s)))" "Q (Advance s)" "Q (snd (ScanString (Advance s)))"
    "\<And>alts t. Q (snd (scan_operator alts t (Advance s)))"
    using A ScanIdentifierOrKeyword_moves [OF ok] moves_refl [OF ok] ScanString_moves [OF ok] scan_operator_moves [OF ok]
    by blast+
  have M: "moves (Advance s) (snd (Matches d (Advance s)))" for d using ok by (rule Matches_moves)
  have M2: "moves (Advance s) (snd (Matches e (snd (Matches d (Advance s)))))" for d e
    using Matches_moves [OF moves_ok [OF M]] M moves_trans by blast
  have comments: "Q (SkipLineComment (snd (Matches d (Advance s))))" "Q (snd (Matches e (snd (Matches d (Advance s)))))"
    "Q (SkipBlockComment (snd (Matches e (snd (Matches d (Advance s))))))" for d e
    using A M2 [of e d] moves_trans [OF M AdvanceUntil_moves [OF moves_ok [OF M]]]
      moves_trans [OF M2 SkipBlockComment_moves [OF moves_ok [OF M2]]]
    by (auto simp: SkipLineComment_def)
  have blank: "Q (SkipWhiteSpace s)" if "\<not> IsIdentifierChar (c0 s)" "c \<notin> set ''{}@()[]&|^!~:,.;=><-%+/*''" "c \<noteq> CHR 0x22"
  proof -
    have w: "c0 s = to_int (CHR '' '') \<or> c0 s = 13 \<or> c0 s = 9 \<or> c0 s = kNewLine"
      using that c by (auto simp: scannable_def ident_char_def kNewLine_def)
    have ok': "scanner_ok s" using s by (simp add: lookahead_ok_def)
    show ?thesis
    proof (cases "c0 s = to_int (CHR '' '') \<or> c0 s = 13 \<or> c0 s = 9")
      case True
      then have "SkipWhiteSpace s = SkipWhiteSpace (Advance s)"
        using ok' by (simp only: SkipWhiteSpace.simps [of s] simp_thms if_True if_False)
      then show ?thesis using A SkipWhiteSpace_moves [OF ok] by simp
    next
      case False
      let ?s = "s\<lparr>c0_pos := \<lparr>pos_line = pos_line (c0_pos s) + 1, pos_column = 0\<rparr>\<rparr>"
      have nl: "c0 s = kNewLine" using w False by blast
      have "SkipWhiteSpace s = SkipWhiteSpace (Advance ?s)"
        using ok' False nl by (simp only: SkipWhiteSpace.simps [of s] simp_thms if_True if_False)
      moreover have m: "moves s (Advance ?s)" "scan_left (Advance ?s) < scan_left s"
        using s end_ Advance_moves [of ?s] moves_updates(2) [OF s] moves_trans Advance_strict [of ?s] by auto
      ultimately show ?thesis using step [OF m] SkipWhiteSpace_moves [OF moves_ok [OF m(1)]] by simp
    qed
  qed
  have cases: "(b \<Longrightarrow> Q (snd x)) \<Longrightarrow> (\<not> b \<Longrightarrow> Q (snd y)) \<Longrightarrow> Q (snd (if b then x else y))"
    for b and x y :: "TokenType \<times> Scanner" by simp
  have is_c: "is_char s d \<longleftrightarrow> c = d" for d using c(1) by (simp add: is_char_def)
  have "Q (snd (scan_switch s))"
    unfolding scan_switch_def Let_def case_prod_unfold
    by (intro cases) (simp_all add: branches comments number word end_ blank is_c punctuation_def
        del: scan_operator.simps)
  then show "moves s (snd (scan_switch s))" "scan_left (snd (scan_switch s)) < scan_left s" by (simp_all add: Q_def)
qed

definition scan_inv :: "Scanner \<Rightarrow> bool" where
  "scan_inv s \<longleftrightarrow> lookahead_ok s \<and> (\<forall>c \<in> set (sc_source s). scannable c)"

lemma scannable_not_end: "scannable c \<Longrightarrow> to_int c \<noteq> kEndOfInput"
proof -
  assume "scannable c"
  then have "ascii c" using ident_char_ascii by (auto simp: scannable_def ascii_iff) (auto simp: to_int_def)
  then show ?thesis by (simp add: ascii_def)
qed

lemma scan_loop_progress:
  "scan_inv s \<Longrightarrow> \<exists>t s'. scan_loop s = Some (t, s') \<and> scan_inv s' \<and> sc_curr s' = sc_curr s \<and>
     (t = T_EOS \<or> scan_left s' < scan_left s)"
proof (induction "scan_left s" arbitrary: s rule: less_induct)
  case less
  let ?s1 = "s\<lparr>sc_next := (sc_next s)\<lparr>tok_pos := c0_pos s, tok_offset := sc_offset s\<rparr>\<rparr>"
  have s1: "lookahead_ok ?s1" "\<forall>c \<in> set (sc_source ?s1). scannable c" using less.prems by (simp_all add: scan_inv_def)
  obtain t s2 where sw: "scan_switch ?s1 = (t, s2)" by (cases "scan_switch ?s1")
  show ?case
  proof (cases "c0 s = kEndOfInput")
    case True
    then have "scan_switch ?s1 = (T_EOS, ?s1)"
      by (simp add: scan_switch_def punctuation_def is_char_def)
    then have "scan_loop s = Some (T_EOS, ?s1)" unfolding scan_loop.simps [of s] scan_round_def by simp
    then show ?thesis using s1 by (auto simp: scan_inv_def)
  next
    case False
    obtain c where c: "c0 ?s1 = to_int c" "scannable c" using s1 False by (auto simp: lookahead_ok_def)
    have p: "moves ?s1 s2" "scan_left s2 < scan_left s"
      using scan_switch_progress [OF s1(1) _ c] False sw by auto
    have inv: "scan_inv s2" "sc_curr s2 = sc_curr s" using p(1) s1(2) by (auto simp: moves_def scan_inv_def)
    show ?thesis
    proof (cases "t = T_WHITESPACE")
      case True
      then have "scan_loop s = scan_loop s2" unfolding scan_loop.simps [of s] scan_round_def sw by simp
      then show ?thesis using less.hyps [OF p(2) inv(1)] inv(2) p(2) by (metis less_trans)
    next
      case False
      then have "scan_loop s = Some (t, s2)" unfolding scan_loop.simps [of s] scan_round_def sw by simp
      then show ?thesis using inv p(2) by blast
    qed
  qed
qed

lemma Scan_progress:
  assumes "scan_inv s"
  shows "\<exists>s'. Scan s = Some s' \<and> scan_inv s' \<and> sc_curr s' = sc_curr s \<and> (Peek s' = T_EOS \<or> scan_left s' < scan_left s)"
proof -
  let ?s0 = "s\<lparr>sc_next := (sc_next s)\<lparr>tok_literal := []\<rparr>\<rparr>"
  have "scan_inv ?s0" using assms by (simp add: scan_inv_def)
  from scan_loop_progress [OF this] show ?thesis by (auto simp: Scan_def Peek_def scan_inv_def)
qed

lemma read_to_end:
  "scan_inv s \<Longrightarrow> \<exists>n ts s'. n \<le> scan_left s + 1 \<and> read_tokens n s = Some (ts, s') \<and> Peek s' = T_EOS"
proof (induction "scan_left s" arbitrary: s rule: less_induct)
  case less
  have "scan_inv (s\<lparr>sc_curr := sc_next s\<rparr>)" "scan_left (s\<lparr>sc_curr := sc_next s\<rparr>) = scan_left s"
    using less.prems by (auto simp: scan_inv_def lookahead_ok_def scanner_ok_def scan_left_def)
  then obtain s1 where s1: "Next s = Some (tok_type (sc_curr s1), s1)" "scan_inv s1" "Peek s1 = T_EOS \<or> scan_left s1 < scan_left s"
    using Scan_progress [of "s\<lparr>sc_curr := sc_next s\<rparr>"] by (auto simp: Next_def)
  show ?case
  proof (cases "Peek s1 = T_EOS")
    case True
    then show ?thesis using s1(1) by (intro exI [of _ 1]) simp
  next
    case False
    then have l: "scan_left s1 < scan_left s" using s1(3) by blast
    from less.hyps [OF this s1(2)] obtain n ts s' where "n \<le> scan_left s1 + 1" "read_tokens n s1 = Some (ts, s')" "Peek s' = T_EOS"
      by blast
    then show ?thesis using s1(1) l by (intro exI [of _ "Suc n"]) simp
  qed
qed

text \<open>The scanner before its first token.\<close>

abbreviation start_scanner :: "string \<Rightarrow> Scanner" where
  "start_scanner source \<equiv> Advance \<lparr>sc_source = source, sc_offset = 0, c0 = 0, c0_pos = \<lparr>pos_line = 1, pos_column = 0\<rparr>,
     sc_curr = no_token, sc_next = no_token\<rparr>"

lemma start_at: "\<forall>c \<in> set source. ascii c \<Longrightarrow> scan_at (start_scanner source) source"
  by (cases source) (auto simp: scan_at_def Advance_def scanner_ok_def)

lemma start_inv: "\<forall>c \<in> set source. scannable c \<Longrightarrow> scan_inv (start_scanner source) \<and> scan_left (start_scanner source) \<le> 2 * length source"
  by (cases source) (auto simp: scan_inv_def lookahead_ok_def Advance_def scanner_ok_def scan_left_def)

lemma token_ascii:
  assumes "token_ok t" shows "\<forall>c \<in> set (token_text t). ascii c"
proof -
  have q: "quotes_escaped l \<Longrightarrow> \<forall>c \<in> set l. ascii c" for l by (induction l rule: quotes_escaped.induct) auto
  obtain k l where t: "t = (k, l)" by (cases t)
  consider "k = T_IDENTIFIER" | "k = T_BUILTIN_IDENTIFIER" | "k = T_INTEGER" | "k = T_FLOAT" | "k = T_STRING"
    | "k \<in> set symbol_tokens" | "(l, k) \<in> set keyword_table"
    using assms t by (auto split: if_splits)
  then show ?thesis
  proof cases
    case 6
    then show ?thesis by (auto simp: t symbol_tokens_def ascii_def)
  next
    case 7
    then show ?thesis using keyword_token(1,2) [OF 7] ident_char_ascii t by (auto simp: word_ok_def)
  next
    case 5
    then show ?thesis using assms t q by (auto simp: ascii_def)
  next
    case 4
    then show ?thesis using assms t digit_ident ident_char_ascii by (auto simp: digits_ok_def ascii_def)
  qed (use assms t ident_char_ascii digit_ident in \<open>auto simp: word_ok_def digits_ok_def ascii_def\<close>)
qed

section \<open>Properties\<close>

text \<open>
  C29. Scanning the text of a sequence of tokens gives the tokens back, each with its literal, and then the
  end of the stream: identifiers, builtins, numbers, strings, keywords and every operator and punctuation.
\<close>

theorem Scanner_print_roundtrip:
  assumes "\<forall>t \<in> set ts. token_ok t"
  shows "\<exists>s s'. Scanner_new (print_tokens ts) = Some s \<and> read_tokens (length ts) s = Some (ts, s') \<and> Peek s' = T_EOS"
proof -
  have "\<forall>c \<in> set (print_tokens ts). ascii c"
    using assms token_ascii by (induction ts) (auto simp: ascii_def)
  then have at: "scan_at (start_scanner (print_tokens ts)) (print_tokens ts)" by (rule start_at)
  show ?thesis
  proof (cases ts)
    case Nil
    then show ?thesis using Scan_end at by (auto simp: Scanner_new_def Peek_def)
  next
    case (Cons t ts')
    then obtain s where "Scanner_new (print_tokens ts) = Some s" "tok_type (sc_next s) = fst t" "lit s = snd t"
      "scan_at s (CHR '' '' # print_tokens ts')"
      using Scan_token [of t "start_scanner (print_tokens ts)" "print_tokens ts'"] at assms by (auto simp: Scanner_new_def)
    moreover from this obtain s' where "read_tokens (Suc (length ts')) s = Some (t # ts', s')" "Peek s' = T_EOS"
      using read_printed [of s t ts'] assms Cons by auto
    ultimately show ?thesis using Cons by auto
  qed
qed

theorem Scanner_print_roundtrip_witness:
  "\<exists>s s'. Scanner_new ''var x = 1 '' = Some s \<and>
     read_tokens 4 s = Some ([(T_VAR, ''var''), (T_IDENTIFIER, ''x''), (T_EQUAL, []), (T_INTEGER, ''1'')], s') \<and>
     Peek s' = T_EOS"
proof -
  let ?ts = "[(T_VAR, ''var''), (T_IDENTIFIER, ''x''), (T_EQUAL, []), (T_INTEGER, ''1'')]"
  have ok: "\<forall>t \<in> set ?ts. token_ok t"
    by (simp add: keyword_words word_ok_def digits_ok_def digit_chr_def ident_char_def char_classes
        to_int_def symbol_tokens_def)
  have printed: "print_tokens ?ts = ''var x = 1 ''" by simp
  show ?thesis using Scanner_print_roundtrip [OF ok] unfolding printed by (simp only: list.size add_0 add_Suc numeral_eq_Suc pred_numeral_simps BitM.simps One_nat_def)
qed

text \<open>
  C30. On a source made of the characters that TPL knows the scanner ends: the constructor and every call
  of \<^verbatim>\<open>Next\<close> return, and the end of the stream comes after at most twice as many tokens as the source has
  characters, and one.
\<close>

theorem Scanner_terminates:
  assumes "\<forall>c \<in> set source. scannable c"
  shows "\<exists>s n ts s'. Scanner_new source = Some s \<and> n \<le> 2 * length source + 1 \<and>
    read_tokens n s = Some (ts, s') \<and> Peek s' = T_EOS"
proof -
  note i = start_inv [OF assms]
  obtain s where s: "Scanner_new source = Some s" "scan_inv s" "Peek s = T_EOS \<or> scan_left s < scan_left (start_scanner source)"
    using Scan_progress [of "start_scanner source"] i unfolding Scanner_new_def by blast
  show ?thesis
  proof (cases "Peek s = T_EOS")
    case True
    then show ?thesis using s(1) by (intro exI [of _ s] exI [of _ 0]) simp
  next
    case False
    then show ?thesis using s read_to_end [OF s(2)] i by (metis le_trans less_imp_le add_le_mono1)
  qed
qed

theorem Scanner_terminates_witness:
  "\<exists>s n ts s'. Scanner_new ''fun /* it never ends'' = Some s \<and> n \<le> 41 \<and> read_tokens n s = Some (ts, s') \<and> Peek s' = T_EOS"
proof -
  have "\<forall>c \<in> set ''fun /* it never ends''. scannable c" by (simp add: scannable_def ident_char_def char_classes to_int_def)
  from Scanner_terminates [OF this] show ?thesis by simp
qed

text \<open>
  C31. A character outside that set makes the scanner run forever: white space is skipped, nothing is
  consumed, and the loop repeats. \<open>None\<close> is the value of a loop that does not end.
\<close>

theorem Scan_diverges:
  assumes "c0 s = to_int c" and "\<not> scannable c" and "to_int c \<noteq> kEndOfInput"
  shows "Scan s = None"
proof -
  have *: "c0 s \<noteq> to_int c" if "scan_loop s = Some y" for s y
    using that
  proof (rule scan_loop.raw_induct [rotated])
    fix loop :: "Scanner \<Rightarrow> (TokenType \<times> Scanner) option" and s y
    assume IH: "\<And>s y. loop s = Some y \<Longrightarrow> c0 s \<noteq> to_int c"
      and body: "(let (t, s) = scan_round s in if t = T_WHITESPACE then loop s else Some (t, s)) = Some y"
    show "c0 s \<noteq> to_int c"
    proof
    assume c0: "c0 s = to_int c"
    let ?s1 = "s\<lparr>sc_next := (sc_next s)\<lparr>tok_pos := c0_pos s, tok_offset := sc_offset s\<rparr>\<rparr>"
    have "\<not> IsIdentifierChar (to_int c)" "c \<notin> set ''{}@()[]&|^!~:,.;=><-%+/* ''" "c \<noteq> CHR 0x22" "to_int c \<notin> {9, 10, 13}"
      using assms(2) by (auto simp: scannable_def ident_char_def)
    note c = this
    have "scan_switch ?s1 = (T_WHITESPACE, SkipWhiteSpace ?s1)"
      using c0 assms(3) c by (simp add: scan_switch_def punctuation_def is_char_def IsIdentifierChar_def)
    moreover have "c0 ?s1 \<noteq> to_int (CHR '' '')" "c0 ?s1 \<noteq> 13" "c0 ?s1 \<noteq> 9" "c0 ?s1 \<noteq> kNewLine"
      using c0 c by (simp_all add: kNewLine_def)
    then have "SkipWhiteSpace ?s1 = ?s1"
      by (simp only: SkipWhiteSpace.simps [of ?s1] simp_thms if_False if_cancel)
    ultimately have "loop ?s1 = Some y" using body by (simp add: scan_round_def)
    then show False using IH [of ?s1 y] c0 by simp
    qed
  qed
  have "scan_loop (s\<lparr>sc_next := d\<rparr>) = None" for d
    using * [of "s\<lparr>sc_next := d\<rparr>"] assms(1) by (cases "scan_loop (s\<lparr>sc_next := d\<rparr>)") auto
  then show ?thesis by (simp add: Scan_def)
qed

theorem Scan_diverges_witness: "Scanner_new ''$'' = None"
proof -
  have "\<not> scannable (CHR ''$'')" by (simp add: scannable_def ident_char_def char_classes to_int_def)
  then show ?thesis unfolding Scanner_new_def by (intro Scan_diverges [of _ "CHR ''$''"]) (simp_all add: Advance_def)
qed

text \<open>
  C32. The nested switch over the first character and the character-wise comparisons of its groups
  recognise exactly the keywords of the token table, each by its spelling there; every other word is an identifier.
\<close>

theorem CheckIdentifierOrKeyword_correct:
  "CheckIdentifierOrKeyword input =
     (case find (\<lambda>t. GetString t = Some input) KEYWORD_TOKENS of Some t \<Rightarrow> t | None \<Rightarrow> T_IDENTIFIER)"
proof -
  have "find (\<lambda>t. GetString t = Some input) ts = map_of (map (\<lambda>t. (the (GetString t), t)) ts) input"
    if "\<forall>t \<in> set ts. GetString t \<noteq> None" for ts
    using that by (induction ts) auto
  then have "find (\<lambda>t. GetString t = Some input) KEYWORD_TOKENS = map_of keyword_table input"
    unfolding keyword_table_def by (simp add: KEYWORD_TOKENS_def)
  then show ?thesis by (simp add: CheckIdentifierOrKeyword_table)
qed

end
