(* ===== verification/Ast.thy ===== *)
theory Ast
  imports Scanner
begin

text \<open>
  The abstract syntax tree (\<^verbatim>\<open>ast/ast.h\<close>, \<^verbatim>\<open>ast/ast.cpp\<close>) as the parser builds it: one constructor
  for each node class that the parser creates, with its members in the order of the class. A pointer that
  may be null is an \<open>option\<close>. A floating-point literal is kept as its text.
\<close>

section \<open>Nodes\<close>

datatype CallKind = RegularCall | BuiltinCall

datatype Literal =
    NilLiteral
  | BoolLiteral bool
  | IntLiteral int
  | FloatLiteral string
  | StringLiteral string

datatype Expression =
    BadExpression SourcePosition
  | BinaryOpExpression SourcePosition TokenType Expression Expression
  | CallExpression Expression "Expression list" CallKind
  | ComparisonOpExpression SourcePosition TokenType Expression Expression
  | FunctionLiteralExpression Expression Statement
  | IdentifierExpression SourcePosition string
  | IndexExpression SourcePosition Expression Expression
  | LiteralExpression SourcePosition Literal
  | MemberExpression SourcePosition Expression Expression
  | UnaryOpExpression SourcePosition TokenType Expression
  | ArrayTypeRepr SourcePosition "Expression option" "Expression option"
  | FunctionTypeRepr SourcePosition "Declaration list" "Expression option"
  | MapTypeRepr SourcePosition "Expression option" "Expression option"
  | PointerTypeRepr SourcePosition "Expression option"
  | StructTypeRepr SourcePosition "Declaration list"
and Statement =
    AssignmentStatement SourcePosition Expression Expression
  | BlockStatement SourcePosition SourcePosition "Statement list"
  | DeclarationStatement Declaration
  | ExpressionStatement Expression
  | ForStatement SourcePosition "Statement option" "Expression option" "Statement option" Statement
  | ForInStatement SourcePosition Expression Expression Statement
  | IfStatement SourcePosition Expression Statement "Statement option"
  | ReturnStatement SourcePosition "Expression option"
and Declaration =
    FieldDeclaration SourcePosition "string option" "Expression option"
  | FunctionDeclaration SourcePosition string Expression
  | StructDeclaration SourcePosition string Expression
  | VariableDeclaration SourcePosition string "Expression option" "Expression option"

record File =
  file_pos :: SourcePosition
  file_decls :: "Declaration list"

section \<open>Positions\<close>

fun expr_pos :: "Expression \<Rightarrow> SourcePosition" where
  "expr_pos (BadExpression p) = p"
| "expr_pos (BinaryOpExpression p _ _ _) = p"
| "expr_pos (CallExpression f _ _) = expr_pos f"
| "expr_pos (ComparisonOpExpression p _ _ _) = p"
| "expr_pos (FunctionLiteralExpression t _) = expr_pos t"
| "expr_pos (IdentifierExpression p _) = p"
| "expr_pos (IndexExpression p _ _) = p"
| "expr_pos (LiteralExpression p _) = p"
| "expr_pos (MemberExpression p _ _) = p"
| "expr_pos (UnaryOpExpression p _ _) = p"
| "expr_pos (ArrayTypeRepr p _ _) = p"
| "expr_pos (FunctionTypeRepr p _ _) = p"
| "expr_pos (MapTypeRepr p _ _) = p"
| "expr_pos (PointerTypeRepr p _) = p"
| "expr_pos (StructTypeRepr p _) = p"

fun decl_pos :: "Declaration \<Rightarrow> SourcePosition" where
  "decl_pos (FieldDeclaration p _ _) = p"
| "decl_pos (FunctionDeclaration p _ _) = p"
| "decl_pos (StructDeclaration p _ _) = p"
| "decl_pos (VariableDeclaration p _ _ _) = p"

fun stmt_pos :: "Statement \<Rightarrow> SourcePosition" where
  "stmt_pos (AssignmentStatement p _ _) = p"
| "stmt_pos (BlockStatement p _ _) = p"
| "stmt_pos (DeclarationStatement d) = decl_pos d"
| "stmt_pos (ExpressionStatement e) = expr_pos e"
| "stmt_pos (ForStatement p _ _ _ _) = p"
| "stmt_pos (ForInStatement p _ _ _) = p"
| "stmt_pos (IfStatement p _ _ _) = p"
| "stmt_pos (ReturnStatement p _) = p"

section \<open>Predicates\<close>

fun IsNilLiteral :: "Expression \<Rightarrow> bool" where
  "IsNilLiteral (LiteralExpression _ NilLiteral) = True"
| "IsNilLiteral _ = False"

fun IsBoolLiteral :: "Expression \<Rightarrow> bool" where
  "IsBoolLiteral (LiteralExpression _ (BoolLiteral _)) = True"
| "IsBoolLiteral _ = False"

fun IsStringLiteral :: "Expression \<Rightarrow> bool" where
  "IsStringLiteral (LiteralExpression _ (StringLiteral _)) = True"
| "IsStringLiteral _ = False"

fun IsIntegerLiteral :: "Expression \<Rightarrow> bool" where
  "IsIntegerLiteral (LiteralExpression _ (IntLiteral _)) = True"
| "IsIntegerLiteral _ = False"

text \<open>The other operand when one operand of a comparison is \<^verbatim>\<open>nil\<close>.\<close>

definition MatchIsLiteralCompareNil :: "Expression \<Rightarrow> TokenType \<Rightarrow> Expression \<Rightarrow> Expression option" where
  "MatchIsLiteralCompareNil left op right = (if IsNilLiteral left \<and> IsCompareOp op then Some right else None)"

definition IsLiteralCompareNil :: "TokenType \<Rightarrow> Expression \<Rightarrow> Expression \<Rightarrow> Expression option" where
  "IsLiteralCompareNil op left right =
     (case MatchIsLiteralCompareNil left op right of
        Some e \<Rightarrow> Some e
      | None \<Rightarrow> MatchIsLiteralCompareNil right op left)"

text \<open>
  Whether control cannot reach the end of a statement. The source reads \<^verbatim>\<open>back()\<close> of the statements of a
  block, which is undefined for an empty block: that is \<open>None\<close>.
\<close>

function IsTerminating :: "Statement \<Rightarrow> bool option" where
  "IsTerminating (BlockStatement p q stmts) =
     (case stmts of [] \<Rightarrow> None | _ \<Rightarrow> IsTerminating (last stmts))"
| "IsTerminating (IfStatement p c t (Some e)) = do {
     a \<leftarrow> IsTerminating t;
     if a then IsTerminating e else Some False }"
| "IsTerminating (IfStatement p c t None) = Some False"
| "IsTerminating (ReturnStatement p r) = Some True"
| "IsTerminating (AssignmentStatement p d s) = Some False"
| "IsTerminating (DeclarationStatement d) = Some False"
| "IsTerminating (ExpressionStatement x) = Some False"
| "IsTerminating (ForStatement p i c n b) = Some False"
| "IsTerminating (ForInStatement p a b c) = Some False"
  by pat_completeness auto
termination
proof (relation "measure size", goal_cases)
  case (2 p q stmts x xs)
  then have "last stmts \<in> set stmts" by simp
  then have "size (last stmts) < Suc (size_list size stmts)" by (meson le_imp_less_Suc size_list_estimation' order_refl)
  then show ?case by simp
qed auto

end
