(* ===== verification/Parser.thy ===== *)
theory Parser
  imports Ast
begin

text \<open>
  The recursive-descent parser (\<^verbatim>\<open>parsing/parser.h\<close>, \<^verbatim>\<open>parsing/parser.cpp\<close>), one definition per
  production. The state is the scanner and the errors reported so far.

  The productions call each other, and some of their loops do not end on some inputs. Each production
  therefore takes the record \<open>p\<close> of the productions it calls back into and a bound for its loops;
  \<open>productions n\<close> unrolls the recursion \<open>n\<close> times. \<open>None\<close> means that the bound is exhausted (or that
  the scanner does not return); a result does not change when the bound grows.

  Positions: the source binds most positions by reference to the scanner's current token, so that a node gets
  the position of the token that is current when the node is made. The definitions follow that.
\<close>

section \<open>State\<close>

datatype ErrorMessage =
    kExpectingExpression
  | kExpectingType
  | kInvalidDeclaration
  | kMissingArrayLength
  | kMissingTypeAndInitialValue string
  | kUnexpectedToken TokenType TokenType

record Parser =
  p_scanner :: Scanner
  p_errors :: "(SourcePosition \<times> ErrorMessage) list"

type_synonym 'a parse = "Parser \<Rightarrow> ('a \<times> Parser) option"

definition position :: "Parser \<Rightarrow> SourcePosition" where
  "position s = CurrentPosition (p_scanner s)"

definition Report :: "SourcePosition \<Rightarrow> ErrorMessage \<Rightarrow> Parser \<Rightarrow> Parser" where
  "Report pos e s = s\<lparr>p_errors := p_errors s @ [(pos, e)]\<rparr>"

definition Parser_Next :: "TokenType parse" where
  "Parser_Next s = do { (t, sc) \<leftarrow> Next (p_scanner s); Some (t, s\<lparr>p_scanner := sc\<rparr>) }"

definition Parser_Peek :: "Parser \<Rightarrow> TokenType" where
  "Parser_Peek s = Peek (p_scanner s)"

text \<open>In a debug build \<^verbatim>\<open>Consume\<close> reports an unexpected token just as \<^verbatim>\<open>Expect\<close> does.\<close>

definition Expect :: "TokenType \<Rightarrow> Parser \<Rightarrow> Parser option" where
  "Expect expected s = do {
     (t, s) \<leftarrow> Parser_Next s;
     Some (if t \<noteq> expected then Report (position s) (kUnexpectedToken t expected) s else s) }"

definition Consume :: "TokenType \<Rightarrow> Parser \<Rightarrow> Parser option" where
  "Consume expected s = do {
     (t, s) \<leftarrow> Parser_Next s;
     Some (if t \<noteq> expected then Report (position s) (kUnexpectedToken t expected) s else s) }"

definition Parser_Matches :: "TokenType \<Rightarrow> bool parse" where
  "Parser_Matches expected s =
     (if Parser_Peek s \<noteq> expected then Some (False, s) else do { s \<leftarrow> Consume expected s; Some (True, s) })"

definition GetSymbol :: "Parser \<Rightarrow> string" where
  "GetSymbol s = CurrentLiteral (p_scanner s)"

definition kTopLevelDecls :: "TokenType list" where
  "kTopLevelDecls = [T_STRUCT, T_FUN]"

text \<open>\<^verbatim>\<open>std::strtoll\<close> on a string of digits.\<close>

fun digits_to_int :: "int \<Rightarrow> string \<Rightarrow> int" where
  "digits_to_int acc [] = acc"
| "digits_to_int acc (c # cs) = digits_to_int (10 * acc + (of_char c - 48)) cs"

definition strtoll :: "string \<Rightarrow> int" where
  "strtoll l = min (digits_to_int 0 l) (2 ^ 63 - 1)"

section \<open>Productions called back\<close>

record productions =
  loop_bound :: nat
  pr_binary :: "nat \<Rightarrow> Expression parse"
  pr_unary :: "Expression parse"
  pr_type :: "Expression option parse"
  pr_block :: "Statement parse"
  pr_statement :: "Statement parse"
  pr_if :: "Statement parse"

definition ParseExpression :: "productions \<Rightarrow> Expression parse" where
  "ParseExpression p = pr_binary p (LowestPrecedence + 1)"

section \<open>Types\<close>

definition ParsePointerType :: "productions \<Rightarrow> Expression parse" where
  "ParsePointerType p s = do {
     s \<leftarrow> Expect T_STAR s;
     (base, s) \<leftarrow> pr_type p s;
     Some (PointerTypeRepr (position s) base, s) }"

definition ParseArrayType :: "productions \<Rightarrow> Expression parse" where
  "ParseArrayType p s = do {
     s \<leftarrow> Consume T_LEFT_BRACKET s;
     (empty, s) \<leftarrow> Parser_Matches T_RIGHT_BRACKET s;
     (len, s) \<leftarrow> (if \<not> empty
       then do {
         (star, s) \<leftarrow> Parser_Matches T_STAR s;
         (len, s) \<leftarrow> (if \<not> star then do { (e, s) \<leftarrow> ParseExpression p s; Some (Some e, s) } else Some (None, s));
         s \<leftarrow> Expect T_RIGHT_BRACKET s;
         Some (len, s) }
       else Some (None, Report (position s) kMissingArrayLength s));
     (elem_type, s) \<leftarrow> pr_type p s;
     Some (ArrayTypeRepr (position s) len elem_type, s) }"

definition ParseMapType :: "productions \<Rightarrow> Expression parse" where
  "ParseMapType p s = do {
     s \<leftarrow> Consume T_MAP s;
     s \<leftarrow> Expect T_LEFT_BRACKET s;
     (key_type, s) \<leftarrow> pr_type p s;
     s \<leftarrow> Expect T_RIGHT_BRACKET s;
     (value_type, s) \<leftarrow> pr_type p s;
     Some (MapTypeRepr (position s) key_type value_type, s) }"

text \<open>The fields of a struct, up to the closing brace.\<close>

fun struct_fields :: "nat \<Rightarrow> productions \<Rightarrow> Declaration list parse" where
  "struct_fields n p s =
     (if Parser_Peek s = T_RIGHT_BRACE then Some ([], s)
      else case n of 0 \<Rightarrow> None
        | Suc n \<Rightarrow> do {
            s \<leftarrow> Expect T_IDENTIFIER s;
            let name = GetSymbol s;
            s \<leftarrow> Expect T_COLON s;
            (type, s) \<leftarrow> pr_type p s;
            let field = FieldDeclaration (position s) (Some name) type;
            (fields, s) \<leftarrow> struct_fields n p s;
            Some (field # fields, s) })"

definition ParseStructType :: "productions \<Rightarrow> Expression parse" where
  "ParseStructType p s = do {
     s \<leftarrow> Consume T_LEFT_BRACE s;
     (fields, s) \<leftarrow> struct_fields (loop_bound p) p s;
     s \<leftarrow> Consume T_RIGHT_BRACE s;
     Some (StructTypeRepr (position s) fields, s) }"

definition parse_parameter :: "productions \<Rightarrow> Declaration parse" where
  "parse_parameter p s = do {
     (named, s) \<leftarrow> Parser_Matches T_IDENTIFIER s;
     let ident = (if named then Some (GetSymbol s) else None);
     (colon, s) \<leftarrow> Parser_Matches T_COLON s;
     (ident, type, s) \<leftarrow> (if colon \<or> ident = None
       then do { (type, s) \<leftarrow> pr_type p s; Some (ident, type, s) }
       else Some (None, Some (IdentifierExpression (position s) (the ident)), s));
     Some (FieldDeclaration (position s) ident type, s) }"

fun parse_parameters :: "nat \<Rightarrow> productions \<Rightarrow> Declaration list parse" where
  "parse_parameters n p s =
     (if Parser_Peek s = T_RIGHT_PAREN then Some ([], s)
      else case n of 0 \<Rightarrow> None
        | Suc n \<Rightarrow> do {
            (param, s) \<leftarrow> parse_parameter p s;
            (comma, s) \<leftarrow> Parser_Matches T_COMMA s;
            if \<not> comma then Some ([param], s)
            else do {
              (params, s) \<leftarrow> parse_parameters n p s;
              Some (param # params, s) } })"

definition ParseFunctionType :: "productions \<Rightarrow> Expression parse" where
  "ParseFunctionType p s = do {
     s \<leftarrow> Consume T_LEFT_PAREN s;
     (params, s) \<leftarrow> parse_parameters (loop_bound p) p s;
     s \<leftarrow> Expect T_RIGHT_PAREN s;
     s \<leftarrow> Expect T_ARROW s;
     (ret, s) \<leftarrow> pr_type p s;
     Some (FunctionTypeRepr (position s) params ret, s) }"

definition some_type :: "Expression parse \<Rightarrow> Expression option parse" where
  "some_type f s = do { (e, s) \<leftarrow> f s; Some (Some e, s) }"

definition ParseType :: "productions \<Rightarrow> Expression option parse" where
  "ParseType p s =
     (case Parser_Peek s of
        T_NIL \<Rightarrow> do { (t, s) \<leftarrow> Parser_Next s; Some (Some (IdentifierExpression (position s) (GetSymbol s)), s) }
      | T_IDENTIFIER \<Rightarrow> do { (t, s) \<leftarrow> Parser_Next s; Some (Some (IdentifierExpression (position s) (GetSymbol s)), s) }
      | T_MAP \<Rightarrow> some_type (ParseMapType p) s
      | T_LEFT_PAREN \<Rightarrow> some_type (ParseFunctionType p) s
      | T_STAR \<Rightarrow> some_type (ParsePointerType p) s
      | T_LEFT_BRACKET \<Rightarrow> some_type (ParseArrayType p) s
      | T_STRUCT \<Rightarrow> do { (t, s) \<leftarrow> Parser_Next s; some_type (ParseStructType p) s }
      | _ \<Rightarrow> Some (None, Report (position s) kExpectingType s))"

section \<open>Expressions\<close>

definition ParseFunctionLiteralExpression :: "productions \<Rightarrow> Expression parse" where
  "ParseFunctionLiteralExpression p s = do {
     (func_type, s) \<leftarrow> ParseFunctionType p s;
     (body, s) \<leftarrow> pr_block p s;
     Some (FunctionLiteralExpression func_type body, s) }"

text \<open>The arguments of a call, up to the closing parenthesis.\<close>

fun parse_arguments :: "nat \<Rightarrow> productions \<Rightarrow> Expression list parse" where
  "parse_arguments n p s =
     (if Parser_Peek s = T_RIGHT_PAREN then Some ([], s)
      else case n of 0 \<Rightarrow> None
        | Suc n \<Rightarrow> do {
            (arg, s) \<leftarrow> ParseExpression p s;
            s \<leftarrow> (if Parser_Peek s = T_COMMA then do { (t, s) \<leftarrow> Parser_Next s; Some s } else Some s);
            (args, s) \<leftarrow> parse_arguments n p s;
            Some (arg # args, s) })"

definition ParseOperand :: "productions \<Rightarrow> Expression parse" where
  "ParseOperand p s =
     (case Parser_Peek s of
        T_NIL \<Rightarrow> do {
          s \<leftarrow> Consume T_NIL s;
          Some (LiteralExpression (position s) NilLiteral, s) }
      | T_FALSE \<Rightarrow> do {
          (t, s) \<leftarrow> Parser_Next s;
          Some (LiteralExpression (position s) (BoolLiteral (t = T_TRUE)), s) }
      | T_TRUE \<Rightarrow> do {
          (t, s) \<leftarrow> Parser_Next s;
          Some (LiteralExpression (position s) (BoolLiteral (t = T_TRUE)), s) }
      | T_BUILTIN_IDENTIFIER \<Rightarrow> do {
          (t, s) \<leftarrow> Parser_Next s;
          let func_name = IdentifierExpression (position s) (GetSymbol s);
          s \<leftarrow> Consume T_LEFT_PAREN s;
          (args, s) \<leftarrow> parse_arguments (loop_bound p) p s;
          s \<leftarrow> Expect T_RIGHT_PAREN s;
          Some (CallExpression func_name args BuiltinCall, s) }
      | T_IDENTIFIER \<Rightarrow> do {
          (t, s) \<leftarrow> Parser_Next s;
          Some (IdentifierExpression (position s) (GetSymbol s), s) }
      | T_INTEGER \<Rightarrow> do {
          (t, s) \<leftarrow> Parser_Next s;
          Some (LiteralExpression (position s) (IntLiteral (strtoll (GetSymbol s))), s) }
      | T_FLOAT \<Rightarrow> do {
          (t, s) \<leftarrow> Parser_Next s;
          Some (LiteralExpression (position s) (FloatLiteral (GetSymbol s)), s) }
      | T_STRING \<Rightarrow> do {
          (t, s) \<leftarrow> Parser_Next s;
          Some (LiteralExpression (position s) (StringLiteral (GetSymbol s)), s) }
      | T_FUN \<Rightarrow> do {
          (t, s) \<leftarrow> Parser_Next s;
          ParseFunctionLiteralExpression p s }
      | T_LEFT_PAREN \<Rightarrow> do {
          s \<leftarrow> Consume T_LEFT_PAREN s;
          (expr, s) \<leftarrow> ParseExpression p s;
          s \<leftarrow> Expect T_RIGHT_PAREN s;
          Some (expr, s) }
      | _ \<Rightarrow> do {
          let s = Report (position s) kExpectingExpression s;
          (t, s) \<leftarrow> Parser_Next s;
          Some (BadExpression (position s), s) })"

text \<open>The calls, member accesses and index operations that follow an operand.\<close>

definition primary_step :: "productions \<Rightarrow> Expression \<Rightarrow> Expression parse" where
  "primary_step p result s =
     (case Parser_Peek s of
        T_LEFT_PAREN \<Rightarrow> do {
          s \<leftarrow> Consume T_LEFT_PAREN s;
          (args, s) \<leftarrow> parse_arguments (loop_bound p) p s;
          s \<leftarrow> Expect T_RIGHT_PAREN s;
          Some (CallExpression result args RegularCall, s) }
      | T_DOT \<Rightarrow> do {
          s \<leftarrow> Consume T_DOT s;
          (member, s) \<leftarrow> ParseOperand p s;
          Some (MemberExpression (expr_pos result) result member, s) }
      | T_LEFT_BRACKET \<Rightarrow> do {
          s \<leftarrow> Consume T_LEFT_BRACKET s;
          (index, s) \<leftarrow> ParseExpression p s;
          s \<leftarrow> Expect T_RIGHT_BRACKET s;
          Some (IndexExpression (expr_pos result) result index, s) }
      | _ \<Rightarrow> Some (result, s))"

fun primary_loop :: "nat \<Rightarrow> productions \<Rightarrow> Expression \<Rightarrow> Expression parse" where
  "primary_loop n p result s =
     (case n of 0 \<Rightarrow> None
      | Suc n \<Rightarrow> do {
          (result, s) \<leftarrow> primary_step p result s;
          if IsCallOrMemberOrIndex (Parser_Peek s) then primary_loop n p result s else Some (result, s) })"

definition ParsePrimaryExpression :: "productions \<Rightarrow> Expression parse" where
  "ParsePrimaryExpression p s = do {
     (result, s) \<leftarrow> ParseOperand p s;
     primary_loop (loop_bound p) p result s }"

definition unary_ops :: "TokenType list" where
  "unary_ops = [T_AMPERSAND, T_BANG, T_BIT_NOT, T_BIT_XOR, T_MINUS, T_PLUS, T_STAR]"

text \<open>The rewrites of a unary operator applied to a literal.\<close>

definition make_unary :: "SourcePosition \<Rightarrow> TokenType \<Rightarrow> Expression \<Rightarrow> Expression" where
  "make_unary pos op e =
     (case e of
        LiteralExpression q (BoolLiteral b) \<Rightarrow>
          if op = T_BANG then LiteralExpression pos (BoolLiteral (\<not> b)) else UnaryOpExpression pos op e
      | LiteralExpression q (IntLiteral i) \<Rightarrow>
          if op = T_PLUS then e
          else if op = T_MINUS then LiteralExpression pos (IntLiteral (- i))
          else UnaryOpExpression pos op e
      | _ \<Rightarrow> UnaryOpExpression pos op e)"

definition ParseUnaryOpExpression :: "productions \<Rightarrow> Expression parse" where
  "ParseUnaryOpExpression p s =
     (if Parser_Peek s \<in> set unary_ops
      then do {
        (op, s) \<leftarrow> Parser_Next s;
        let pos = position s;
        (e, s) \<leftarrow> pr_unary p s;
        Some (make_unary pos op e, s) }
      else ParsePrimaryExpression p s)"

text \<open>All operators of one precedence, then those of the lower ones.\<close>

fun same_prec_loop :: "nat \<Rightarrow> productions \<Rightarrow> nat \<Rightarrow> Expression \<Rightarrow> Expression parse" where
  "same_prec_loop n p prec left s =
     (if GetPrecedence (Parser_Peek s) = prec
      then case n of 0 \<Rightarrow> None
        | Suc n \<Rightarrow> do {
            (op, s) \<leftarrow> Parser_Next s;
            (right, s) \<leftarrow> pr_binary p prec s;
            let left = (if IsCompareOp op then ComparisonOpExpression (position s) op left right
                        else BinaryOpExpression (position s) op left right);
            same_prec_loop n p prec left s }
      else Some (left, s))"

fun prec_loop :: "productions \<Rightarrow> nat \<Rightarrow> nat \<Rightarrow> Expression \<Rightarrow> Expression parse" where
  "prec_loop p min_prec 0 left s = Some (left, s)"
| "prec_loop p min_prec (Suc prec) left s =
     (if \<not> Suc prec > min_prec then Some (left, s)
      else if GetPrecedence (Parser_Peek s) < min_prec then Some (left, s)
      else do {
        (left, s) \<leftarrow> same_prec_loop (loop_bound p) p (Suc prec) left s;
        prec_loop p min_prec prec left s })"

definition ParseBinaryOpExpression :: "productions \<Rightarrow> nat \<Rightarrow> Expression parse" where
  "ParseBinaryOpExpression p min_prec s = do {
     tpl_assert (min_prec > 0);
     (left, s) \<leftarrow> ParseUnaryOpExpression p s;
     prec_loop p min_prec (GetPrecedence (Parser_Peek s)) left s }"

section \<open>Statements\<close>

definition ParseVariableDeclaration :: "productions \<Rightarrow> Declaration parse" where
  "ParseVariableDeclaration p s = do {
     s \<leftarrow> Expect T_VAR s;
     s \<leftarrow> Expect T_IDENTIFIER s;
     let name = GetSymbol s;
     (colon, s) \<leftarrow> Parser_Matches T_COLON s;
     (type, s) \<leftarrow> (if colon then pr_type p s else Some (None, s));
     (equal, s) \<leftarrow> Parser_Matches T_EQUAL s;
     (init, s) \<leftarrow> (if equal then do { (e, s) \<leftarrow> ParseExpression p s; Some (Some e, s) } else Some (None, s));
     let s = (if type = None \<and> init = None then Report (position s) (kMissingTypeAndInitialValue name) s else s);
     Some (VariableDeclaration (position s) name type init, s) }"

definition ParseSimpleStatement :: "productions \<Rightarrow> Statement parse" where
  "ParseSimpleStatement p s = do {
     (left, s) \<leftarrow> ParseExpression p s;
     (equal, s) \<leftarrow> Parser_Matches T_EQUAL s;
     if equal
     then do {
       (right, s) \<leftarrow> ParseExpression p s;
       Some (AssignmentStatement (position s) left right, s) }
     else Some (ExpressionStatement left, s) }"

fun block_loop :: "nat \<Rightarrow> productions \<Rightarrow> Statement list parse" where
  "block_loop n p s =
     (if Parser_Peek s = T_RIGHT_BRACE \<or> Parser_Peek s = T_EOS then Some ([], s)
      else case n of 0 \<Rightarrow> None
        | Suc n \<Rightarrow> do {
            (stmt, s) \<leftarrow> pr_statement p s;
            (stmts, s) \<leftarrow> block_loop n p s;
            Some (stmt # stmts, s) })"

definition ParseBlockStatement :: "productions \<Rightarrow> Statement parse" where
  "ParseBlockStatement p s = do {
     s \<leftarrow> Expect T_LEFT_BRACE s;
     (statements, s) \<leftarrow> block_loop (loop_bound p) p s;
     s \<leftarrow> Expect T_RIGHT_BRACE s;
     Some (BlockStatement (position s) (position s) statements, s) }"

text \<open>The five pointers of a header of a loop.\<close>

record ForHeader =
  fh_init :: "Statement option"
  fh_cond :: "Expression option"
  fh_next :: "Statement option"
  fh_target :: "Expression option"
  fh_iter :: "Expression option"

definition Infinite :: ForHeader where
  "Infinite = \<lparr>fh_init = None, fh_cond = None, fh_next = None, fh_target = None, fh_iter = None\<rparr>"

definition Standard :: "Statement option \<Rightarrow> Expression option \<Rightarrow> Statement option \<Rightarrow> ForHeader" where
  "Standard init cond next_stmt =
     \<lparr>fh_init = init, fh_cond = cond, fh_next = next_stmt, fh_target = None, fh_iter = None\<rparr>"

definition ForIn :: "Expression option \<Rightarrow> Expression option \<Rightarrow> ForHeader" where
  "ForIn target iter = \<lparr>fh_init = None, fh_cond = None, fh_next = None, fh_target = target, fh_iter = iter\<rparr>"

definition IsForIn :: "ForHeader \<Rightarrow> bool" where
  "IsForIn h \<longleftrightarrow> fh_target h \<noteq> None \<and> fh_iter h \<noteq> None"

definition IsStandard :: "ForHeader \<Rightarrow> bool" where
  "IsStandard h \<longleftrightarrow> \<not> IsForIn h"

definition MakeExpr :: "Statement option \<Rightarrow> Parser \<Rightarrow> Expression option \<times> Parser" where
  "MakeExpr node s =
     (case node of
        None \<Rightarrow> (None, s)
      | Some (ExpressionStatement e) \<Rightarrow> (Some e, s)
      | Some stmt \<Rightarrow> (None, Report (stmt_pos stmt) kExpectingExpression s))"

definition optional_statement :: "productions \<Rightarrow> bool \<Rightarrow> Statement option parse" where
  "optional_statement p present s =
     (if present then do { (st, s) \<leftarrow> pr_statement p s; Some (Some st, s) } else Some (None, s))"

definition ParseForHeader :: "productions \<Rightarrow> ForHeader parse" where
  "ParseForHeader p s =
     (if Parser_Peek s = T_LEFT_BRACE then Some (Infinite, s)
      else do {
        s \<leftarrow> Expect T_LEFT_PAREN s;
        (cond, s) \<leftarrow> optional_statement p (Parser_Peek s \<noteq> T_SEMI) s;
        (is_in, s) \<leftarrow> Parser_Matches T_IN s;
        if is_in
        then do {
          tpl_assert (cond \<noteq> None);
          let (target, s) = MakeExpr cond s;
          (stmt, s) \<leftarrow> pr_statement p s;
          let (iter, s) = MakeExpr (Some stmt) s;
          s \<leftarrow> Expect T_RIGHT_PAREN s;
          Some (ForIn target iter, s) }
        else do {
          (semi, s) \<leftarrow> Parser_Matches T_SEMI s;
          (init, cond, next_stmt, s) \<leftarrow> (if semi
            then do {
              let init = cond;
              (cond, s) \<leftarrow> optional_statement p (Parser_Peek s \<noteq> T_SEMI) s;
              s \<leftarrow> Expect T_SEMI s;
              (next_stmt, s) \<leftarrow> optional_statement p (Parser_Peek s \<noteq> T_RIGHT_PAREN) s;
              Some (init, cond, next_stmt, s) }
            else Some (None, cond, None, s));
          s \<leftarrow> Expect T_RIGHT_PAREN s;
          let (cond, s) = MakeExpr cond s;
          Some (Standard init cond next_stmt, s) } })"

definition ParseForStatement :: "productions \<Rightarrow> Statement parse" where
  "ParseForStatement p s = do {
     s \<leftarrow> Expect T_FOR s;
     (header, s) \<leftarrow> ParseForHeader p s;
     (body, s) \<leftarrow> ParseBlockStatement p s;
     if IsStandard header
     then Some (ForStatement (position s) (fh_init header) (fh_cond header) (fh_next header) body, s)
     else Some (ForInStatement (position s) (the (fh_target header)) (the (fh_iter header)) body, s) }"

definition ParseIfStatement :: "productions \<Rightarrow> Statement parse" where
  "ParseIfStatement p s = do {
     s \<leftarrow> Expect T_IF s;
     s \<leftarrow> Expect T_LEFT_PAREN s;
     (cond, s) \<leftarrow> ParseExpression p s;
     s \<leftarrow> Expect T_RIGHT_PAREN s;
     (then_stmt, s) \<leftarrow> ParseBlockStatement p s;
     (has_else, s) \<leftarrow> Parser_Matches T_ELSE s;
     (else_stmt, s) \<leftarrow> (if has_else
       then do {
         (st, s) \<leftarrow> (if Parser_Peek s = T_IF then pr_if p s else ParseBlockStatement p s);
         Some (Some st, s) }
       else Some (None, s));
     Some (IfStatement (position s) cond then_stmt else_stmt, s) }"

definition ParseReturnStatement :: "productions \<Rightarrow> Statement parse" where
  "ParseReturnStatement p s = do {
     s \<leftarrow> Expect T_RETURN s;
     (ret, s) \<leftarrow> (if Parser_Peek s \<noteq> T_RIGHT_BRACE
       then do { (e, s) \<leftarrow> ParseExpression p s; Some (Some e, s) } else Some (None, s));
     Some (ReturnStatement (position s) ret, s) }"

definition ParseStatement :: "productions \<Rightarrow> Statement parse" where
  "ParseStatement p s =
     (case Parser_Peek s of
        T_LEFT_BRACE \<Rightarrow> ParseBlockStatement p s
      | T_FOR \<Rightarrow> ParseForStatement p s
      | T_IF \<Rightarrow> ParseIfStatement p s
      | T_RETURN \<Rightarrow> ParseReturnStatement p s
      | T_VAR \<Rightarrow> do {
          (var_decl, s) \<leftarrow> ParseVariableDeclaration p s;
          Some (DeclarationStatement var_decl, s) }
      | _ \<Rightarrow> ParseSimpleStatement p s)"

section \<open>The recursion\<close>

primrec productions_of :: "nat \<Rightarrow> productions" where
  "productions_of 0 = \<lparr>loop_bound = 0, pr_binary = \<lambda>_ _. None, pr_unary = \<lambda>_. None, pr_type = \<lambda>_. None,
     pr_block = \<lambda>_. None, pr_statement = \<lambda>_. None, pr_if = \<lambda>_. None\<rparr>"
| "productions_of (Suc n) = (let p = productions_of n in
     \<lparr>loop_bound = Suc n, pr_binary = ParseBinaryOpExpression p, pr_unary = ParseUnaryOpExpression p,
      pr_type = ParseType p, pr_block = ParseBlockStatement p, pr_statement = ParseStatement p,
      pr_if = ParseIfStatement p\<rparr>)"

section \<open>Declarations and files\<close>

definition ParseFunctionDeclaration :: "productions \<Rightarrow> Declaration parse" where
  "ParseFunctionDeclaration p s = do {
     s \<leftarrow> Expect T_FUN s;
     s \<leftarrow> Expect T_IDENTIFIER s;
     let name = GetSymbol s;
     (func, s) \<leftarrow> ParseFunctionLiteralExpression p s;
     Some (FunctionDeclaration (position s) name func, s) }"

definition ParseStructDeclaration :: "productions \<Rightarrow> Declaration parse" where
  "ParseStructDeclaration p s = do {
     s \<leftarrow> Expect T_STRUCT s;
     s \<leftarrow> Expect T_IDENTIFIER s;
     let name = GetSymbol s;
     (struct_type, s) \<leftarrow> ParseStructType p s;
     Some (StructDeclaration (position s) name struct_type, s) }"

fun sync_loop :: "nat \<Rightarrow> TokenType list \<Rightarrow> Parser \<Rightarrow> Parser option" where
  "sync_loop n ts s =
     (if Parser_Peek s = T_EOS \<or> Parser_Peek s \<in> set ts then Some s
      else case n of 0 \<Rightarrow> None | Suc n \<Rightarrow> do { (t, s) \<leftarrow> Parser_Next s; sync_loop n ts s })"

definition Sync :: "nat \<Rightarrow> TokenType list \<Rightarrow> Parser \<Rightarrow> Parser option" where
  "Sync n ts s = do {
     (t, s) \<leftarrow> Parser_Next s;
     sync_loop n ts s }"

definition ParseDeclaration :: "productions \<Rightarrow> Declaration option parse" where
  "ParseDeclaration p s =
     (case Parser_Peek s of
        T_STRUCT \<Rightarrow> do { (d, s) \<leftarrow> ParseStructDeclaration p s; Some (Some d, s) }
      | T_FUN \<Rightarrow> do { (d, s) \<leftarrow> ParseFunctionDeclaration p s; Some (Some d, s) }
      | _ \<Rightarrow> do {
          let s = Report (position s) kInvalidDeclaration s;
          s \<leftarrow> Sync (loop_bound p) kTopLevelDecls s;
          Some (None, s) })"

fun parse_declarations :: "nat \<Rightarrow> productions \<Rightarrow> Declaration list parse" where
  "parse_declarations n p s =
     (if Parser_Peek s = T_EOS then Some ([], s)
      else case n of 0 \<Rightarrow> None
        | Suc n \<Rightarrow> do {
            (decl, s) \<leftarrow> ParseDeclaration p s;
            (decls, s) \<leftarrow> parse_declarations n p s;
            Some ((case decl of None \<Rightarrow> decls | Some d \<Rightarrow> d # decls), s) })"

definition Parse :: "nat \<Rightarrow> File parse" where
  "Parse n s = do {
     (decls, s) \<leftarrow> parse_declarations n (productions_of n) s;
     Some (\<lparr>file_pos = position s, file_decls = decls\<rparr>, s) }"

declare struct_fields.simps [simp del] parse_parameters.simps [simp del] parse_arguments.simps [simp del]
  primary_loop.simps [simp del] same_prec_loop.simps [simp del] block_loop.simps [simp del]
  sync_loop.simps [simp del] parse_declarations.simps [simp del]

end
