(* ===== verification/ParserInvariant.thy ===== *)
theory ParserInvariant
  imports Parser
begin

text \<open>
  What every production keeps. The parser changes its state only by reading a token and by reporting an error, so
  a property of the state that these two keep is kept by every production, however often the recursion is
  unrolled. The locale \<open>parser_invariant\<close> states that contract and proves it production by production. Its
  interpretation is \<open>no_close\<close>, that no closing parenthesis lies ahead: it shows that a call whose argument
  list is not closed is never parsed.
\<close>

section \<open>Invariants of the parser\<close>

locale parser_invariant =
  fixes Q :: "Parser \<Rightarrow> bool"
  assumes next_keeps: "Q s \<Longrightarrow> Parser_Next s = Some (t, s') \<Longrightarrow> Q s'"
    and report_keeps [simp]: "Q s \<Longrightarrow> Q (Report pos e s)"
begin

definition keeps :: "'a parse \<Rightarrow> bool" where
  "keeps f \<longleftrightarrow> (\<forall>s x s'. f s = Some (x, s') \<longrightarrow> Q s \<longrightarrow> Q s')"

definition callbacks_keep :: "productions \<Rightarrow> bool" where
  "callbacks_keep p \<longleftrightarrow> (\<forall>m. keeps (pr_binary p m)) \<and> keeps (pr_unary p) \<and> keeps (pr_type p) \<and>
     keeps (pr_block p) \<and> keeps (pr_statement p) \<and> keeps (pr_if p)"

lemma keeps_parseI [intro?]: "(\<And>s x s'. f s = Some (x, s') \<Longrightarrow> Q s \<Longrightarrow> Q s') \<Longrightarrow> keeps f"
  by (simp add: keeps_def)

lemma keeps_parseD: "keeps f \<Longrightarrow> f s = Some (x, s') \<Longrightarrow> Q s \<longrightarrow> Q s'"
  by (auto simp: keeps_def)

lemma Next_keeps: "Parser_Next s = Some (t, s') \<Longrightarrow> Q s \<longrightarrow> Q s'"
  using next_keeps by blast

lemma Expect_keeps: "Expect t s = Some s' \<Longrightarrow> Q s \<longrightarrow> Q s'"
  by (auto simp: Expect_def split: Option.bind_splits if_splits dest!: Next_keeps)

lemma Consume_keeps: "Consume t s = Some s' \<Longrightarrow> Q s \<longrightarrow> Q s'"
  by (auto simp: Consume_def split: Option.bind_splits if_splits dest!: Next_keeps)

lemma Matches_keeps: "Parser_Matches t s = Some (b, s') \<Longrightarrow> Q s \<longrightarrow> Q s'"
  by (auto simp: Parser_Matches_def split: Option.bind_splits if_splits dest!: Consume_keeps)

lemmas token_keeps = Next_keeps Expect_keeps Consume_keeps Matches_keeps

lemma callbacks_keepD:
  assumes "callbacks_keep p"
  shows "keeps (ParseExpression p)" "keeps (pr_binary p m)" "keeps (pr_unary p)" "keeps (pr_type p)" "keeps (pr_block p)"
    "keeps (pr_statement p)" "keeps (pr_if p)"
  using assms by (simp_all add: callbacks_keep_def ParseExpression_def)

lemmas callback_keeps = callbacks_keepD [THEN keeps_parseD]

section \<open>Types\<close>

lemma ParsePointerType_keeps:
  assumes p: "callbacks_keep p" shows "keeps (ParsePointerType p)"
  by (rule keeps_parseI) (auto simp: ParsePointerType_def Let_def split: Option.bind_splits if_splits
      dest!: token_keeps callback_keeps [OF p])

lemma ParseArrayType_keeps:
  assumes p: "callbacks_keep p" shows "keeps (ParseArrayType p)"
  by (rule keeps_parseI) (auto simp: ParseArrayType_def Let_def split: Option.bind_splits if_splits
      dest!: token_keeps callback_keeps [OF p])

lemma ParseMapType_keeps:
  assumes p: "callbacks_keep p" shows "keeps (ParseMapType p)"
  by (rule keeps_parseI) (auto simp: ParseMapType_def Let_def split: Option.bind_splits if_splits
      dest!: token_keeps callback_keeps [OF p])

lemma struct_fields_keeps:
  assumes p: "callbacks_keep p" shows "keeps (struct_fields n p)"
proof (induction n)
  case 0
  show ?case by (rule keeps_parseI) (simp add: struct_fields.simps split: if_splits)
next
  case (Suc n)
  show ?case
    by (rule keeps_parseI) (auto simp: struct_fields.simps [of "Suc n"] Let_def split: Option.bind_splits if_splits
        dest!: token_keeps callback_keeps [OF p] keeps_parseD [OF Suc])
qed

lemma ParseStructType_keeps:
  assumes p: "callbacks_keep p" shows "keeps (ParseStructType p)"
  by (rule keeps_parseI) (auto simp: ParseStructType_def Let_def split: Option.bind_splits if_splits
      dest!: token_keeps callback_keeps [OF p] keeps_parseD [OF struct_fields_keeps [OF p]])

lemma parse_parameter_keeps:
  assumes p: "callbacks_keep p" shows "keeps (parse_parameter p)"
  by (rule keeps_parseI) (auto simp: parse_parameter_def Let_def split: Option.bind_splits if_splits
      dest!: token_keeps callback_keeps [OF p])

lemma parse_parameters_keeps:
  assumes p: "callbacks_keep p" shows "keeps (parse_parameters n p)"
proof (induction n)
  case 0
  show ?case by (rule keeps_parseI) (simp add: parse_parameters.simps split: if_splits)
next
  case (Suc n)
  show ?case
    by (rule keeps_parseI) (auto simp: parse_parameters.simps [of "Suc n"] split: Option.bind_splits if_splits
        dest!: token_keeps keeps_parseD [OF parse_parameter_keeps [OF p]] keeps_parseD [OF Suc])
qed

lemma ParseFunctionType_keeps:
  assumes p: "callbacks_keep p" shows "keeps (ParseFunctionType p)"
  by (rule keeps_parseI) (auto simp: ParseFunctionType_def Let_def split: Option.bind_splits if_splits
      dest!: token_keeps callback_keeps [OF p] keeps_parseD [OF parse_parameters_keeps [OF p]])

lemma some_type_keeps: "keeps f \<Longrightarrow> some_type f s = Some (e, s') \<Longrightarrow> Q s \<longrightarrow> Q s'"
  by (auto simp: some_type_def split: Option.bind_splits dest!: keeps_parseD)

lemma ParseType_keeps:
  assumes p: "callbacks_keep p" shows "keeps (ParseType p)"
  by (rule keeps_parseI) (auto simp: ParseType_def split: Option.bind_splits TokenType.splits
      dest!: token_keeps some_type_keeps [OF ParseMapType_keeps [OF p]] some_type_keeps [OF ParseFunctionType_keeps [OF p]]
        some_type_keeps [OF ParsePointerType_keeps [OF p]] some_type_keeps [OF ParseArrayType_keeps [OF p]]
        some_type_keeps [OF ParseStructType_keeps [OF p]])

section \<open>Expressions\<close>

lemma ParseFunctionLiteralExpression_keeps:
  assumes p: "callbacks_keep p" shows "keeps (ParseFunctionLiteralExpression p)"
  by (rule keeps_parseI) (auto simp: ParseFunctionLiteralExpression_def Let_def split: Option.bind_splits if_splits
      dest!: token_keeps callback_keeps [OF p] keeps_parseD [OF ParseFunctionType_keeps [OF p]])

lemma parse_arguments_keeps:
  assumes p: "callbacks_keep p" shows "keeps (parse_arguments n p)"
proof (induction n)
  case 0
  show ?case by (rule keeps_parseI) (simp add: parse_arguments.simps split: if_splits)
next
  case (Suc n)
  show ?case
    by (rule keeps_parseI) (auto simp: parse_arguments.simps [of "Suc n"] Let_def split: Option.bind_splits if_splits
        dest!: token_keeps callback_keeps [OF p]  keeps_parseD [OF Suc])
qed

lemma ParseOperand_keeps:
  assumes p: "callbacks_keep p" shows "keeps (ParseOperand p)"
proof (rule keeps_parseI)
  fix s x s' assume "ParseOperand p s = Some (x, s')" "Q s"
  then show "Q s'"
    by (cases "Parser_Peek s") (auto simp: ParseOperand_def Let_def split: Option.bind_splits
        dest!: token_keeps callback_keeps(1) [OF p] keeps_parseD [OF parse_arguments_keeps [OF p]]
          keeps_parseD [OF ParseFunctionLiteralExpression_keeps [OF p]])
qed

lemma primary_step_keeps:
  assumes p: "callbacks_keep p" shows "keeps (primary_step p r)"
  by (rule keeps_parseI) (auto simp: primary_step_def Let_def split: Option.bind_splits TokenType.splits
      dest!: token_keeps callback_keeps [OF p] keeps_parseD [OF parse_arguments_keeps [OF p]] keeps_parseD [OF ParseOperand_keeps [OF p]])

lemma primary_loop_keeps:
  assumes p: "callbacks_keep p" shows "keeps (primary_loop n p r)"
proof (induction n arbitrary: r)
  case 0
  show ?case by (rule keeps_parseI) (simp add: primary_loop.simps split: if_splits)
next
  case (Suc n)
  show ?case
    by (rule keeps_parseI) (auto simp: primary_loop.simps [of "Suc n"] Let_def split: Option.bind_splits if_splits
        dest!: token_keeps callback_keeps [OF p] keeps_parseD [OF primary_step_keeps [OF p]] keeps_parseD [OF Suc])
qed

lemma ParsePrimaryExpression_keeps:
  assumes p: "callbacks_keep p" shows "keeps (ParsePrimaryExpression p)"
  by (rule keeps_parseI) (auto simp: ParsePrimaryExpression_def Let_def split: Option.bind_splits if_splits
      dest!: token_keeps callback_keeps [OF p] keeps_parseD [OF ParseOperand_keeps [OF p]] keeps_parseD [OF primary_loop_keeps [OF p]])

lemma ParseUnaryOpExpression_keeps:
  assumes p: "callbacks_keep p" shows "keeps (ParseUnaryOpExpression p)"
  by (rule keeps_parseI) (auto simp: ParseUnaryOpExpression_def Let_def split: Option.bind_splits if_splits
      dest!: token_keeps callback_keeps [OF p] keeps_parseD [OF ParsePrimaryExpression_keeps [OF p]])

lemma same_prec_loop_keeps:
  assumes p: "callbacks_keep p" shows "keeps (same_prec_loop n p q l)"
proof (induction n arbitrary: q l)
  case 0
  show ?case by (rule keeps_parseI) (simp add: same_prec_loop.simps split: if_splits)
next
  case (Suc n)
  show ?case
    by (rule keeps_parseI) (auto simp: same_prec_loop.simps [of "Suc n"] Let_def split: Option.bind_splits if_splits
        dest!: token_keeps callback_keeps [OF p]  keeps_parseD [OF Suc])
qed

lemma prec_loop_keeps:
  assumes p: "callbacks_keep p" shows "keeps (prec_loop p m q l)"
proof (induction q arbitrary: l)
  case 0
  show ?case by (rule keeps_parseI) simp
next
  case (Suc q)
  show ?case
    by (rule keeps_parseI) (auto split: Option.bind_splits if_splits dest!: keeps_parseD [OF same_prec_loop_keeps [OF p]] keeps_parseD [OF Suc])
qed

lemma ParseBinaryOpExpression_keeps:
  assumes p: "callbacks_keep p" shows "keeps (ParseBinaryOpExpression p m)"
  by (rule keeps_parseI) (auto simp: ParseBinaryOpExpression_def Let_def checked split: Option.bind_splits if_splits
      dest!: token_keeps callback_keeps [OF p] keeps_parseD [OF ParseUnaryOpExpression_keeps [OF p]] keeps_parseD [OF prec_loop_keeps [OF p]])

section \<open>Statements\<close>

lemma ParseVariableDeclaration_keeps:
  assumes p: "callbacks_keep p" shows "keeps (ParseVariableDeclaration p)"
  by (rule keeps_parseI) (auto simp: ParseVariableDeclaration_def Let_def split: Option.bind_splits if_splits
      dest!: token_keeps callback_keeps [OF p])

lemma ParseSimpleStatement_keeps:
  assumes p: "callbacks_keep p" shows "keeps (ParseSimpleStatement p)"
  by (rule keeps_parseI) (auto simp: ParseSimpleStatement_def Let_def split: Option.bind_splits if_splits
      dest!: token_keeps callback_keeps [OF p])

lemma block_loop_keeps:
  assumes p: "callbacks_keep p" shows "keeps (block_loop n p)"
proof (induction n)
  case 0
  show ?case by (rule keeps_parseI) (simp add: block_loop.simps split: if_splits)
next
  case (Suc n)
  show ?case
    by (rule keeps_parseI) (auto simp: block_loop.simps [of "Suc n"] Let_def split: Option.bind_splits if_splits
        dest!: token_keeps callback_keeps [OF p]  keeps_parseD [OF Suc])
qed

lemma ParseBlockStatement_keeps:
  assumes p: "callbacks_keep p" shows "keeps (ParseBlockStatement p)"
  by (rule keeps_parseI) (auto simp: ParseBlockStatement_def Let_def split: Option.bind_splits if_splits
      dest!: token_keeps callback_keeps [OF p] keeps_parseD [OF block_loop_keeps [OF p]])

lemma MakeExpr_keeps: "MakeExpr node s = (e, s') \<Longrightarrow> Q s \<longrightarrow> Q s'"
  by (auto simp: MakeExpr_def split: option.splits Statement.splits)

lemma optional_statement_keeps:
  assumes p: "callbacks_keep p" shows "keeps (optional_statement p b)"
  by (rule keeps_parseI) (auto simp: optional_statement_def Let_def split: Option.bind_splits if_splits
      dest!: token_keeps callback_keeps [OF p])

lemma ParseForHeader_keeps:
  assumes p: "callbacks_keep p" shows "keeps (ParseForHeader p)"
  by (rule keeps_parseI) (auto simp: ParseForHeader_def Let_def checked split: Option.bind_splits if_splits prod.splits
      dest!: token_keeps MakeExpr_keeps callback_keeps [OF p] keeps_parseD [OF optional_statement_keeps [OF p]])

lemma ParseForStatement_keeps:
  assumes p: "callbacks_keep p" shows "keeps (ParseForStatement p)"
  by (rule keeps_parseI) (auto simp: ParseForStatement_def Let_def split: Option.bind_splits if_splits
      dest!: token_keeps callback_keeps [OF p] keeps_parseD [OF ParseForHeader_keeps [OF p]] keeps_parseD [OF ParseBlockStatement_keeps [OF p]])

lemma ParseIfStatement_keeps:
  assumes p: "callbacks_keep p" shows "keeps (ParseIfStatement p)"
  by (rule keeps_parseI) (auto simp: ParseIfStatement_def Let_def split: Option.bind_splits if_splits
      dest!: token_keeps callback_keeps [OF p] keeps_parseD [OF ParseBlockStatement_keeps [OF p]])

lemma ParseReturnStatement_keeps:
  assumes p: "callbacks_keep p" shows "keeps (ParseReturnStatement p)"
  by (rule keeps_parseI) (auto simp: ParseReturnStatement_def Let_def split: Option.bind_splits if_splits
      dest!: token_keeps callback_keeps [OF p])

lemma ParseStatement_keeps:
  assumes p: "callbacks_keep p" shows "keeps (ParseStatement p)"
  by (rule keeps_parseI) (auto simp: ParseStatement_def Let_def split: Option.bind_splits TokenType.splits
      dest!: token_keeps callback_keeps [OF p] keeps_parseD [OF ParseBlockStatement_keeps [OF p]] keeps_parseD [OF ParseForStatement_keeps [OF p]] keeps_parseD [OF ParseIfStatement_keeps [OF p]] keeps_parseD [OF ParseReturnStatement_keeps [OF p]] keeps_parseD [OF ParseVariableDeclaration_keeps [OF p]] keeps_parseD [OF ParseSimpleStatement_keeps [OF p]])

section \<open>The recursion\<close>

lemma productions_keep: "callbacks_keep (productions_of n)"
proof (induction n)
  case 0
  show ?case by (simp add: callbacks_keep_def keeps_def)
next
  case (Suc n)
  show ?case
    using ParseBinaryOpExpression_keeps [OF Suc] ParseUnaryOpExpression_keeps [OF Suc] ParseType_keeps [OF Suc]
      ParseBlockStatement_keeps [OF Suc] ParseStatement_keeps [OF Suc] ParseIfStatement_keeps [OF Suc]
    by (simp add: callbacks_keep_def Let_def)
qed

end

section \<open>No closing parenthesis ahead\<close>

text \<open>
  \<open>reads sc sc'\<close>: the scanner gets from \<open>sc\<close> to \<open>sc'\<close> by reading tokens. In a state with \<open>no_close\<close> the parser
  never sees a closing parenthesis, however many tokens it reads.
\<close>

inductive reads :: "Scanner \<Rightarrow> Scanner \<Rightarrow> bool" where
  reads_refl [simp, intro]: "reads sc sc"
| reads_next: "Next sc = Some (t, sc') \<Longrightarrow> reads sc' sc'' \<Longrightarrow> reads sc sc''"

definition no_close :: "Parser \<Rightarrow> bool" where
  "no_close s \<longleftrightarrow> (\<forall>sc. reads (p_scanner s) sc \<longrightarrow> Peek sc \<noteq> T_RIGHT_PAREN)"

lemma no_close_peek: "no_close s \<Longrightarrow> Parser_Peek s \<noteq> T_RIGHT_PAREN"
  by (auto simp: no_close_def Parser_Peek_def)

lemma no_closeI:
  assumes "Parser_Peek s \<noteq> T_RIGHT_PAREN" and "\<And>t s'. Parser_Next s = Some (t, s') \<Longrightarrow> no_close s'"
  shows "no_close s"
  unfolding no_close_def
proof (intro allI impI)
  fix sc assume "reads (p_scanner s) sc"
  then show "Peek sc \<noteq> T_RIGHT_PAREN"
  proof cases
    case reads_refl
    then show ?thesis using assms(1) by (simp add: Parser_Peek_def)
  next
    case (reads_next t sc')
    then have "no_close (s\<lparr>p_scanner := sc'\<rparr>)" by (intro assms(2)) (simp add: Parser_Next_def)
    then show ?thesis using reads_next by (simp add: no_close_def)
  qed
qed

interpretation unclosed: parser_invariant no_close
proof
  show "no_close s'" if "no_close s" "Parser_Next s = Some (t, s')" for s t s'
    using that by (auto simp: no_close_def Parser_Next_def split: Option.bind_splits dest: reads_next)
  show "no_close (Report pos e s)" if "no_close s" for s pos e
    using that by (simp add: no_close_def Report_def)
qed

lemma unclosed_arguments: "no_close s \<Longrightarrow> parse_arguments k (productions_of n) s = None"
proof (induction k arbitrary: s)
  case 0
  then show ?case by (simp add: parse_arguments.simps no_close_peek)
next
  case (Suc k)
  note kept = unclosed.callback_keeps(1) [OF unclosed.productions_keep] unclosed.Next_keeps
  show ?case using no_close_peek [OF Suc.prems] Suc.prems
    by (auto simp: parse_arguments.simps [of "Suc k"] Suc.IH split: Option.bind_splits dest!: kept
        intro!: Suc.IH)
qed

lemma unclosed_call:
  assumes "no_close s"
  shows "Parser_Peek s = T_LEFT_PAREN \<Longrightarrow> primary_step (productions_of n) f s = None"
    and "Parser_Peek s = T_BUILTIN_IDENTIFIER \<Longrightarrow> ParseOperand (productions_of n) s = None"
  using assms
  by (auto simp: primary_step_def ParseOperand_def Let_def unclosed_arguments split: Option.bind_splits
      dest!: unclosed.token_keeps)

lemma unclosed_expression:
  assumes s: "no_close s" and n: "Parser_Next s = Some (t, s1)" and l: "Parser_Peek s1 = T_LEFT_PAREN"
    and k: "Parser_Peek s \<in> {T_IDENTIFIER, T_BUILTIN_IDENTIFIER}"
  shows "ParseExpression (productions_of m) s = None"
proof -
  have s1: "no_close s1" using s n unclosed.next_keeps by blast
  have "ParsePrimaryExpression (productions_of m) s = None" for m
  proof (cases "Parser_Peek s = T_IDENTIFIER")
    case True
    have "primary_loop j (productions_of m) f s1 = None" for j f
      using unclosed_call(1) [OF s1 l] by (cases j) (simp_all add: primary_loop.simps)
    then show ?thesis using True n by (simp add: ParsePrimaryExpression_def ParseOperand_def)
  next
    case False
    then show ?thesis using k unclosed_call(2) [OF s] by (simp add: ParsePrimaryExpression_def)
  qed
  then show ?thesis using k
    by (cases m) (auto simp: ParseExpression_def Let_def ParseBinaryOpExpression_def ParseUnaryOpExpression_def unary_ops_def checked
        split: Option.bind_splits)
qed

end
