(* ===== verification/ParserCorrect.thy ===== *)
theory ParserCorrect
  imports ParserInvariant
begin

text \<open>
  Correctness of the expression parser. \<open>aexpr\<close> is the abstract syntax the grammar means, \<open>raw\<close> prints
  it as tokens with as few parentheses as the precedences allow, and \<open>abs_expr\<close> reads the abstract
  syntax off the parser's tree. The lemmas show, production by production, that parsing printed tokens
  gives the expression back; the theorems state it for the text of a source file.
\<close>

section \<open>Abstract expressions and their tokens\<close>

text \<open>
  Expressions without positions and without parentheses: the trees that the grammar means. \<open>abs_expr\<close>
  reads one off the parser's tree; a binary and a comparison operator are told apart by their token.
\<close>

datatype aexpr =
    AIdent string
  | ALit Literal
  | ABuiltin string "aexpr list"
  | ACall aexpr "aexpr list"
  | AMember aexpr aexpr
  | AIndex aexpr aexpr
  | AUnary TokenType aexpr
  | ABinary TokenType aexpr aexpr

fun abs_expr :: "Expression \<Rightarrow> aexpr option" where
  "abs_expr (IdentifierExpression p x) = Some (AIdent x)"
| "abs_expr (LiteralExpression p l) = Some (ALit l)"
| "abs_expr (CallExpression f as k) = do {
     as \<leftarrow> those (map abs_expr as);
     case k of
       BuiltinCall \<Rightarrow> (case f of IdentifierExpression p x \<Rightarrow> Some (ABuiltin x as) | _ \<Rightarrow> None)
     | RegularCall \<Rightarrow> do { f \<leftarrow> abs_expr f; Some (ACall f as) } }"
| "abs_expr (MemberExpression p e m) = do { e \<leftarrow> abs_expr e; m \<leftarrow> abs_expr m; Some (AMember e m) }"
| "abs_expr (IndexExpression p e i) = do { e \<leftarrow> abs_expr e; i \<leftarrow> abs_expr i; Some (AIndex e i) }"
| "abs_expr (UnaryOpExpression p op e) = do { e \<leftarrow> abs_expr e; Some (AUnary op e) }"
| "abs_expr (BinaryOpExpression p op l r) = do {
     l \<leftarrow> abs_expr l; r \<leftarrow> abs_expr r; if IsCompareOp op then None else Some (ABinary op l r) }"
| "abs_expr (ComparisonOpExpression p op l r) = do {
     l \<leftarrow> abs_expr l; r \<leftarrow> abs_expr r; if IsCompareOp op then Some (ABinary op l r) else None }"
| "abs_expr _ = None"

text \<open>
  The level of an expression: the precedence of a binary operator, then unary operators, postfix forms
  and operands. An expression is printed in parentheses where the grammar asks for a higher level.
\<close>

fun level :: "aexpr \<Rightarrow> nat" where
  "level (ABinary op l r) = GetPrecedence op"
| "level (AUnary op e) = 13"
| "level (ACall f as) = 14"
| "level (AMember e m) = 14"
| "level (AIndex e i) = 14"
| "level _ = 15"

definition tk :: "TokenType \<Rightarrow> token" where
  "tk t = (t, if t \<in> set symbol_tokens then [] else the (GetString t))"

fun literal_token :: "Literal \<Rightarrow> token" where
  "literal_token NilLiteral = tk T_NIL"
| "literal_token (BoolLiteral b) = tk (if b then T_TRUE else T_FALSE)"
| "literal_token (IntLiteral i) = (T_INTEGER, to_string (nat i))"
| "literal_token (FloatLiteral l) = (T_FLOAT, l)"
| "literal_token (StringLiteral l) = (T_STRING, l)"

definition parens :: "token list \<Rightarrow> token list" where
  "parens ts = tk T_LEFT_PAREN # ts @ [tk T_RIGHT_PAREN]"

fun commas :: "token list list \<Rightarrow> token list" where
  "commas [] = []"
| "commas [ts] = ts"
| "commas (ts # tss) = ts @ tk T_COMMA # commas tss"

fun raw :: "aexpr \<Rightarrow> token list" where
  "raw (AIdent x) = [(T_IDENTIFIER, x)]"
| "raw (ALit l) = [literal_token l]"
| "raw (ABuiltin x as) = (T_BUILTIN_IDENTIFIER, x) # parens (commas (map raw as))"
| "raw (ACall f as) = (if level f > 13 then raw f else parens (raw f)) @ parens (commas (map raw as))"
| "raw (AMember e m) = (if level e > 13 then raw e else parens (raw e)) @ tk T_DOT #
     (if level m > 14 then raw m else parens (raw m))"
| "raw (AIndex e i) = (if level e > 13 then raw e else parens (raw e)) @
     tk T_LEFT_BRACKET # raw i @ [tk T_RIGHT_BRACKET]"
| "raw (AUnary op e) = tk op # (if level e > 12 then raw e else parens (raw e))"
| "raw (ABinary op l r) =
     (if level l > GetPrecedence op - 1 then raw l else parens (raw l)) @ tk op #
     (if level r > GetPrecedence op then raw r else parens (raw r))"

definition print_at :: "nat \<Rightarrow> aexpr \<Rightarrow> token list" where
  "print_at m e = (if level e > m then raw e else parens (raw e))"

text \<open>
  The expressions that are the tree of some source: the operators are operators, an integer literal is not
  negative and fits 64 bits, and no unary operator is applied to a literal that the parser would fold.
\<close>

fun wf_expr :: "aexpr \<Rightarrow> bool" where
  "wf_expr (AIdent x) = True"
| "wf_expr (ALit (IntLiteral i)) = (0 \<le> i \<and> i < 2 ^ 63)"
| "wf_expr (ALit l) = True"
| "wf_expr (ABuiltin x as) = list_all wf_expr as"
| "wf_expr (ACall f as) = (wf_expr f \<and> list_all wf_expr as)"
| "wf_expr (AMember e m) = (wf_expr e \<and> wf_expr m)"
| "wf_expr (AIndex e i) = (wf_expr e \<and> wf_expr i)"
| "wf_expr (AUnary op e) = (op \<in> set unary_ops \<and> wf_expr e \<and>
     (case e of ALit (BoolLiteral b) \<Rightarrow> op \<noteq> T_BANG | ALit (IntLiteral i) \<Rightarrow> op \<noteq> T_PLUS \<and> op \<noteq> T_MINUS | _ \<Rightarrow> True))"
| "wf_expr (ABinary op l r) = (1 < GetPrecedence op \<and> wf_expr l \<and> wf_expr r)"

lemma wf_level: "wf_expr e \<Longrightarrow> 1 < level e"
  by (cases e) auto

section \<open>Token streams\<close>

text \<open>
  \<open>stream s ts t\<close>: the parser in state \<open>s\<close> reads the tokens \<open>ts\<close> and then sees a token of type \<open>t\<close>.
  \<open>skip n s\<close> is the state after \<open>n\<close> tokens.
\<close>

definition nxt :: "Parser \<Rightarrow> Parser" where
  "nxt s = snd (the (Parser_Next s))"

fun stream :: "Parser \<Rightarrow> token list \<Rightarrow> TokenType \<Rightarrow> bool" where
  "stream s [] t \<longleftrightarrow> Parser_Peek s = t"
| "stream s (x # xs) t \<longleftrightarrow> Parser_Peek s = fst x \<and> Parser_Next s = Some (fst x, nxt s) \<and>
     GetSymbol (nxt s) = snd x \<and> stream (nxt s) xs t"

primrec skip :: "nat \<Rightarrow> Parser \<Rightarrow> Parser" where
  "skip 0 s = s"
| "skip (Suc n) s = skip n (nxt s)"

definition starts :: "token list \<Rightarrow> TokenType \<Rightarrow> TokenType" where
  "starts ts t = (case ts of [] \<Rightarrow> t | x # xs \<Rightarrow> fst x)"

lemma skip_add: "skip (m + n) s = skip n (skip m s)"
  by (induction m arbitrary: s) auto

lemma stream_peek: "stream s ts t \<Longrightarrow> Parser_Peek s = starts ts t"
  by (cases ts) (auto simp: starts_def)

lemma stream_append:
  "stream s (xs @ ys) t \<longleftrightarrow> stream s xs (starts ys t) \<and> stream (skip (length xs) s) ys t"
proof (induction xs arbitrary: s)
  case Nil
  then show ?case using stream_peek by auto
qed auto

lemma fst_tk [simp]: "fst (tk t) = t"
  by (simp add: tk_def)

lemma Consume_stream [simp]: "stream s (tk t # xs) u \<Longrightarrow> Consume t s = Some (nxt s)"
  by (simp add: Consume_def)

lemma Expect_stream [simp]: "stream s (tk t # xs) u \<Longrightarrow> Expect t s = Some (nxt s)"
  by (simp add: Expect_def)

lemma starts_Cons [simp]: "starts (x # xs) t = fst x"
  by (simp add: starts_def)

lemma starts_append [simp]: "xs \<noteq> [] \<Longrightarrow> starts (xs @ ys) t = starts xs t"
  by (cases xs) (simp_all add: starts_def)

lemma raw_nonempty [simp]: "raw e \<noteq> []"
  by (induction e) (auto simp: parens_def)

section \<open>What each production does on the tokens of an expression\<close>

text \<open>
  \<open>okO\<close>, \<open>okP\<close>, \<open>okU\<close> and \<open>okB\<close> say that the production for operands, primary, unary and binary
  expressions reads the tokens \<open>ts\<close> and returns a tree for \<open>e\<close>, with the recursion unrolled \<open>n\<close> times.
  The claim for primary expressions leaves the loop over the postfix forms open, so that it can be used
  for the left part of a longer chain.
\<close>

definition postfix :: "nat \<Rightarrow> productions \<Rightarrow> Expression \<Rightarrow> Expression parse" where
  "postfix n p r s = (if IsCallOrMemberOrIndex (Parser_Peek s) then primary_loop n p r s else Some (r, s))"

definition okO :: "nat \<Rightarrow> token list \<Rightarrow> aexpr \<Rightarrow> bool" where
  "okO n ts e \<longleftrightarrow> (\<forall>s t. stream s ts t \<longrightarrow>
     (\<exists>E. ParseOperand (productions_of n) s = Some (E, skip (length ts) s) \<and> abs_expr E = Some e))"

definition okP :: "nat \<Rightarrow> token list \<Rightarrow> aexpr \<Rightarrow> bool" where
  "okP n ts e \<longleftrightarrow> (\<forall>s t. stream s ts t \<longrightarrow>
     (\<exists>E c. abs_expr E = Some e \<and> c < length ts \<and>
        (\<forall>k. (ParseOperand (productions_of n) s \<bind> (\<lambda>(r, s). postfix (c + k) (productions_of n) r s)) =
              postfix k (productions_of n) E (skip (length ts) s))))"

definition okU :: "nat \<Rightarrow> token list \<Rightarrow> aexpr \<Rightarrow> bool" where
  "okU n ts e \<longleftrightarrow> (\<forall>s t. stream s ts t \<longrightarrow> \<not> IsCallOrMemberOrIndex t \<longrightarrow>
     (\<exists>E. ParseUnaryOpExpression (productions_of n) s = Some (E, skip (length ts) s) \<and> abs_expr E = Some e))"

definition okB :: "nat \<Rightarrow> nat \<Rightarrow> token list \<Rightarrow> aexpr \<Rightarrow> bool" where
  "okB n m ts e \<longleftrightarrow> (\<forall>s t. stream s ts t \<longrightarrow> \<not> IsCallOrMemberOrIndex t \<longrightarrow> GetPrecedence t \<le> m \<longrightarrow>
     (\<exists>E. ParseBinaryOpExpression (productions_of n) m s = Some (E, skip (length ts) s) \<and> abs_expr E = Some e))"

lemma productions_simps [simp]:
  "loop_bound (productions_of n) = n"
  "pr_binary (productions_of (Suc n)) = ParseBinaryOpExpression (productions_of n)"
  "pr_unary (productions_of (Suc n)) = ParseUnaryOpExpression (productions_of n)"
  "ParseExpression (productions_of (Suc n)) = ParseBinaryOpExpression (productions_of n) 1"
  by (cases n) (simp_all add: Let_def ParseExpression_def LowestPrecedence_def)

declare productions_of.simps [simp del]

lemma primary_step_stop: "\<not> IsCallOrMemberOrIndex (Parser_Peek s) \<Longrightarrow> primary_step p r s = Some (r, s)"
  by (simp add: primary_step_def IsCallOrMemberOrIndex_def split: TokenType.split)

lemma primary_loop_postfix: "primary_loop (Suc n) p r s = postfix (Suc n) p r s"
  by (simp add: postfix_def primary_loop.simps primary_step_stop)

lemma postfix_step:
  "IsCallOrMemberOrIndex (Parser_Peek s) \<Longrightarrow>
   postfix (Suc n) p r s = (primary_step p r s \<bind> (\<lambda>(r, s). postfix n p r s))"
  by (simp add: postfix_def primary_loop.simps)

lemma postfix_stop: "\<not> IsCallOrMemberOrIndex (Parser_Peek s) \<Longrightarrow> postfix n p r s = Some (r, s)"
  by (simp add: postfix_def)

lemma okO_okP: "okO n ts e \<Longrightarrow> ts \<noteq> [] \<Longrightarrow> okP n ts e"
  unfolding okO_def okP_def by (fastforce intro: exI [of _ 0])

lemma okP_okU:
  assumes "okP n ts e" and "length ts \<le> n" and "ts \<noteq> []" and "fst (hd ts) \<notin> set unary_ops"
  shows "okU n ts e"
  unfolding okU_def
proof (intro allI impI)
  fix s t assume s: "stream s ts t" and t: "\<not> IsCallOrMemberOrIndex t"
  let ?p = "productions_of n"
  obtain E c where E: "abs_expr E = Some e" "c < length ts" and
    loop: "\<And>k. (ParseOperand ?p s \<bind> (\<lambda>(r, s). postfix (c + k) ?p r s)) = postfix k ?p E (skip (length ts) s)"
    using assms(1) s unfolding okP_def by blast
  obtain n' where n': "n = Suc n'" using assms(2) E(2) by (cases n) auto
  have "c + (n - c) = n" using E(2) assms(2) by simp
  then have "(ParseOperand ?p s \<bind> (\<lambda>(r, s). postfix n ?p r s)) = postfix (n - c) ?p E (skip (length ts) s)"
    using loop [of "n - c"] by simp
  moreover have "stream (skip (length ts) s) [] t" using s stream_append [of s ts "[]" t] by simp
  ultimately have "ParsePrimaryExpression ?p s = Some (E, skip (length ts) s)"
    using t n' by (simp add: ParsePrimaryExpression_def primary_loop_postfix postfix_stop)
  moreover have "Parser_Peek s \<notin> set unary_ops" using s assms(3,4) by (cases ts) auto
  ultimately show "\<exists>E. ParseUnaryOpExpression ?p s = Some (E, skip (length ts) s) \<and> abs_expr E = Some e"
    using E(1) by (simp add: ParseUnaryOpExpression_def)
qed

text \<open>The loop over the precedences stops at a token whose precedence is not above the minimum.\<close>

lemma same_prec_stop: "GetPrecedence (Parser_Peek s) \<noteq> q \<Longrightarrow> same_prec_loop n p q l s = Some (l, s)"
  by (simp add: same_prec_loop.simps)

lemma prec_loop_stop: "GetPrecedence (Parser_Peek s) \<le> m \<Longrightarrow> prec_loop p m q l s = Some (l, s)"
  by (induction q) (simp_all add: same_prec_stop)

lemma okU_okB:
  assumes "okU n ts e" and "0 < m" shows "okB n m ts e"
  unfolding okB_def
proof (intro allI impI)
  fix s t assume s: "stream s ts t" and t: "\<not> IsCallOrMemberOrIndex t" "GetPrecedence t \<le> m"
  obtain E where E: "ParseUnaryOpExpression (productions_of n) s = Some (E, skip (length ts) s)" "abs_expr E = Some e"
    using assms(1) s t unfolding okU_def by blast
  have "Parser_Peek (skip (length ts) s) = t" using s stream_append [of s ts "[]" t] by simp
  then show "\<exists>E. ParseBinaryOpExpression (productions_of n) m s = Some (E, skip (length ts) s) \<and> abs_expr E = Some e"
    using E t assms(2) by (simp add: ParseBinaryOpExpression_def checked prec_loop_stop)
qed

text \<open>Running a claim on the front of a longer stream.\<close>

lemma okB_front:
  assumes "okB n m ts e" and "stream s (ts @ ys) t" and "\<not> IsCallOrMemberOrIndex (starts ys t)" and "GetPrecedence (starts ys t) \<le> m"
  obtains E where "ParseBinaryOpExpression (productions_of n) m s = Some (E, skip (length ts) s)" and "abs_expr E = Some e"
    and "stream (skip (length ts) s) ys t"
  using assms unfolding okB_def stream_append by blast

lemma okO_parens:
  assumes "okB n 1 ts e" and "ts \<noteq> []"
  shows "okO (Suc n) (parens ts) e"
  unfolding okO_def
proof (intro allI impI)
  fix s t assume s: "stream s (parens ts) t"
  then have c: "Consume T_LEFT_PAREN s = Some (nxt s)" "Parser_Peek s = T_LEFT_PAREN" and
    s1: "stream (nxt s) (ts @ [tk T_RIGHT_PAREN]) t"
    by (auto simp: parens_def Consume_def)
  obtain E where E: "ParseBinaryOpExpression (productions_of n) 1 (nxt s) = Some (E, skip (length ts) (nxt s))"
    "abs_expr E = Some e" "stream (skip (length ts) (nxt s)) [tk T_RIGHT_PAREN] t"
    using okB_front [OF assms(1) s1] by (auto simp: IsCallOrMemberOrIndex_def)
  have "skip (length (parens ts)) s = nxt (skip (length ts) (nxt s))"
    using skip_add [of "length ts" 1 "nxt s"] by (simp add: parens_def)
  then show "\<exists>E. ParseOperand (productions_of (Suc n)) s = Some (E, skip (length (parens ts)) s) \<and> abs_expr E = Some e"
    using c E Expect_stream [OF E(3)] by (simp add: ParseOperand_def)
qed

lemma okO_ident: "okO n [(T_IDENTIFIER, x)] (AIdent x)"
  by (auto simp: okO_def ParseOperand_def)

lemma digits_to_int_append: "digits_to_int acc (a @ b) = digits_to_int (digits_to_int acc a) b"
  by (induction a arbitrary: acc) auto

lemma of_char_digit: "d < 10 \<Longrightarrow> (of_char (digit_char d) :: int) = 48 + int d"
proof -
  assume "d < 10"
  then have "(of_char (digit_char d) :: nat) = 48 + d" by (simp add: digit_char_def of_char_of)
  then show ?thesis by (metis of_nat_of_char of_nat_add of_nat_numeral)
qed

lemma digits_to_int_to_string: "digits_to_int 0 (to_string n) = int n"
proof (induction n rule: to_string.induct)
  case (1 n)
  have "10 * int (n div 10) + int (n mod 10) = int n" by (metis mult_div_mod_eq of_nat_add of_nat_mult of_nat_numeral)
  then show ?case using 1
    by (cases "n < 10") (simp_all add: to_string.simps [of n] digits_to_int_append of_char_digit)
qed

lemma strtoll_to_string: "0 \<le> i \<Longrightarrow> i < 2 ^ 63 \<Longrightarrow> strtoll (to_string (nat i)) = i"
  by (simp add: strtoll_def digits_to_int_to_string)

lemma okO_literal:
  assumes "wf_expr (ALit l)" shows "okO n [literal_token l] (ALit l)"
proof (cases l)
  case (BoolLiteral b)
  then show ?thesis by (cases b) (auto simp: okO_def ParseOperand_def)
next
  case (IntLiteral i)
  then show ?thesis using assms by (auto simp: okO_def ParseOperand_def strtoll_to_string)
qed (auto simp: okO_def ParseOperand_def Consume_def)

section \<open>Arguments\<close>

definition starter :: "TokenType \<Rightarrow> bool" where
  "starter t \<longleftrightarrow> t \<in> {T_IDENTIFIER, T_BUILTIN_IDENTIFIER, T_INTEGER, T_FLOAT, T_STRING, T_NIL, T_TRUE, T_FALSE,
     T_LEFT_PAREN} \<or> t \<in> set unary_ops"

lemma commas_Cons: "tss \<noteq> [] \<Longrightarrow> commas (ts # tss) = ts @ tk T_COMMA # commas tss"
  by (cases tss) auto

lemma comma_stops [simp]: "\<not> IsCallOrMemberOrIndex T_COMMA" "\<not> IsCallOrMemberOrIndex T_RIGHT_PAREN"
  "\<not> IsCallOrMemberOrIndex T_RIGHT_BRACKET"
  by (simp_all add: IsCallOrMemberOrIndex_def)

lemma parse_arguments_ok:
  assumes "list_all2 (okB n 1) tss es" and "\<And>ts. ts \<in> set tss \<Longrightarrow> ts \<noteq> [] \<and> fst (hd ts) \<noteq> T_RIGHT_PAREN"
    and "length es \<le> k" and "stream s (commas tss) T_RIGHT_PAREN"
  shows "\<exists>Es. parse_arguments k (productions_of (Suc n)) s = Some (Es, skip (length (commas tss)) s) \<and>
    map abs_expr Es = map Some es"
  using assms
proof (induction tss es arbitrary: k s rule: list_all2_induct)
  case Nil
  then show ?case by (simp add: parse_arguments.simps)
next
  case (Cons ts tss e es)
  obtain k' where k: "k = Suc k'" "length es \<le> k'" using Cons.prems(2) by (cases k) auto
  have ts: "ts \<noteq> []" "fst (hd ts) \<noteq> T_RIGHT_PAREN" using Cons.prems(1) by auto
  show ?case
  proof (cases "tss = []")
    case True
    then have e: "es = []" using Cons.hyps(2) by simp
    have s: "stream s ts T_RIGHT_PAREN" using Cons.prems(3) True by simp
    obtain E where E: "ParseBinaryOpExpression (productions_of n) 1 s = Some (E, skip (length ts) s)" "abs_expr E = Some e"
      using Cons.hyps(1) s unfolding okB_def by fastforce
    have "Parser_Peek (skip (length ts) s) = T_RIGHT_PAREN" "Parser_Peek s \<noteq> T_RIGHT_PAREN"
      using s stream_append [of s ts "[]" T_RIGHT_PAREN] ts by (cases ts; auto)+
    then show ?thesis using E k e True by (simp add: parse_arguments.simps [of "Suc k'"] parse_arguments.simps [of k'])
  next
    case False
    have s: "stream s (ts @ tk T_COMMA # commas tss) T_RIGHT_PAREN" using Cons.prems(3) commas_Cons [OF False] by simp
    obtain E where E: "ParseBinaryOpExpression (productions_of n) 1 s = Some (E, skip (length ts) s)" "abs_expr E = Some e"
      and s1: "stream (skip (length ts) s) (tk T_COMMA # commas tss) T_RIGHT_PAREN"
      by (rule okB_front [OF Cons.hyps(1) s]) auto
    let ?s2 = "nxt (skip (length ts) s)"
    obtain Es where Es: "parse_arguments k' (productions_of (Suc n)) ?s2 = Some (Es, skip (length (commas tss)) ?s2)"
      "map abs_expr Es = map Some es"
      using Cons.IH [of k' ?s2] Cons.prems(1) k(2) s1 by auto
    have "Parser_Peek s \<noteq> T_RIGHT_PAREN" using s ts by (cases ts) auto
    moreover have "skip (length (commas (ts # tss))) s = skip (length (commas tss)) ?s2"
      using skip_add [of "length ts" "Suc (length (commas tss))" s] by (simp add: commas_Cons [OF False])
    ultimately show ?thesis using E Es k s1 by (simp add: parse_arguments.simps [of "Suc k'"])
  qed
qed

lemma those_map_Some: "those (map Some xs) = Some xs"
  by (induction xs) auto

lemma arguments_parens:
  assumes "list_all2 (okB n 1) tss es" and "\<And>ts. ts \<in> set tss \<Longrightarrow> ts \<noteq> [] \<and> fst (hd ts) \<noteq> T_RIGHT_PAREN"
    and "length es \<le> Suc n" and "stream s (parens (commas tss)) t"
  shows "\<exists>Es s1 s2. Consume T_LEFT_PAREN s = Some s1 \<and>
    parse_arguments (Suc n) (productions_of (Suc n)) s1 = Some (Es, s2) \<and>
    Expect T_RIGHT_PAREN s2 = Some (skip (length (parens (commas tss))) s) \<and>
    those (map abs_expr Es) = Some es"
proof -
  have s: "stream s (tk T_LEFT_PAREN # commas tss @ [tk T_RIGHT_PAREN]) t" using assms(4) by (simp add: parens_def)
  then have s1: "stream (nxt s) (commas tss) T_RIGHT_PAREN" "stream (skip (length (commas tss)) (nxt s)) [tk T_RIGHT_PAREN] t"
    using stream_append [of "nxt s" "commas tss" "[tk T_RIGHT_PAREN]" t] by auto
  obtain Es where Es: "parse_arguments (Suc n) (productions_of (Suc n)) (nxt s) = Some (Es, skip (length (commas tss)) (nxt s))"
    "map abs_expr Es = map Some es"
    using parse_arguments_ok [OF assms(1,2,3) s1(1)] by blast
  have "skip (length (parens (commas tss))) s = nxt (skip (length (commas tss)) (nxt s))"
    using skip_add [of "length (commas tss)" 1 "nxt s"] by (simp add: parens_def)
  then show ?thesis using Es Consume_stream [OF s] Expect_stream [OF s1(2)] by (auto simp: those_map_Some)
qed

lemma okO_builtin:
  assumes "list_all2 (okB n 1) tss es" and "\<And>ts. ts \<in> set tss \<Longrightarrow> ts \<noteq> [] \<and> fst (hd ts) \<noteq> T_RIGHT_PAREN"
    and "length es \<le> Suc n"
  shows "okO (Suc n) ((T_BUILTIN_IDENTIFIER, x) # parens (commas tss)) (ABuiltin x es)"
  unfolding okO_def
proof (intro allI impI)
  fix s t assume s: "stream s ((T_BUILTIN_IDENTIFIER, x) # parens (commas tss)) t"
  then have "stream (nxt s) (parens (commas tss)) t" by simp
  from arguments_parens [OF assms this] show "\<exists>E. ParseOperand (productions_of (Suc n)) s =
      Some (E, skip (length ((T_BUILTIN_IDENTIFIER, x) # parens (commas tss))) s) \<and> abs_expr E = Some (ABuiltin x es)"
    using s by (auto simp: ParseOperand_def)
qed

section \<open>Postfix forms\<close>

text \<open>One more postfix form, read by \<open>primary_step\<close>.\<close>

lemma okP_step:
  assumes "okP n us f" and "us \<noteq> []" and "vs \<noteq> []" and "IsCallOrMemberOrIndex (fst (hd vs))"
    and step: "\<And>s t F. stream s vs t \<Longrightarrow> abs_expr F = Some f \<Longrightarrow>
      \<exists>E. primary_step (productions_of n) F s = Some (E, skip (length vs) s) \<and> abs_expr E = Some e"
  shows "okP n (us @ vs) e"
  unfolding okP_def
proof (intro allI impI)
  fix s t assume "stream s (us @ vs) t"
  then have s: "stream s us (starts vs t)" "stream (skip (length us) s) vs t" by (simp_all add: stream_append)
  let ?p = "productions_of n" and ?s1 = "skip (length us) s"
  obtain F c where F: "abs_expr F = Some f" "c < length us" and
    loop: "\<And>k. (ParseOperand ?p s \<bind> (\<lambda>(r, s). postfix (c + k) ?p r s)) = postfix k ?p F ?s1"
    using assms(1) s(1) unfolding okP_def by blast
  obtain E where E: "primary_step ?p F ?s1 = Some (E, skip (length vs) ?s1)" "abs_expr E = Some e"
    using step [OF s(2) F(1)] by blast
  have "IsCallOrMemberOrIndex (Parser_Peek ?s1)" using s(2) assms(3,4) by (cases vs) auto
  then have "(ParseOperand ?p s \<bind> (\<lambda>(r, s). postfix (Suc c + k) ?p r s)) = postfix k ?p E (skip (length (us @ vs)) s)" for k
    using loop [of "Suc k"] E(1) by (simp add: postfix_step skip_add)
  moreover have "Suc c < length (us @ vs)" using F(2) assms(3) by (cases vs) auto
  ultimately show "\<exists>E c. abs_expr E = Some e \<and> c < length (us @ vs) \<and>
      (\<forall>k. (ParseOperand ?p s \<bind> (\<lambda>(r, s). postfix (c + k) ?p r s)) = postfix k ?p E (skip (length (us @ vs)) s))"
    using E(2) by blast
qed

lemma okP_call:
  assumes "okP (Suc n) us f" and "us \<noteq> []" and "list_all2 (okB n 1) tss es"
    and "\<And>ts. ts \<in> set tss \<Longrightarrow> ts \<noteq> [] \<and> fst (hd ts) \<noteq> T_RIGHT_PAREN" and "length es \<le> Suc n"
  shows "okP (Suc n) (us @ parens (commas tss)) (ACall f es)"
proof (rule okP_step [OF assms(1,2)])
  fix s t F assume s: "stream s (parens (commas tss)) t" and F: "abs_expr F = Some f"
  from arguments_parens [OF assms(3-5) s] F
  show "\<exists>E. primary_step (productions_of (Suc n)) F s = Some (E, skip (length (parens (commas tss))) s) \<and>
      abs_expr E = Some (ACall f es)"
    using stream_peek [OF s] by (auto simp: primary_step_def parens_def)
qed (simp_all add: parens_def IsCallOrMemberOrIndex_def)

lemma okP_member:
  assumes "okP n us e" and "us \<noteq> []" and "okO n vs m"
  shows "okP n (us @ tk T_DOT # vs) (AMember e m)"
proof (rule okP_step [OF assms(1,2)])
  fix s t F assume s: "stream s (tk T_DOT # vs) t" and F: "abs_expr F = Some e"
  then have "stream (nxt s) vs t" by simp
  then obtain M where "ParseOperand (productions_of n) (nxt s) = Some (M, skip (length vs) (nxt s))" "abs_expr M = Some m"
    using assms(3) unfolding okO_def by blast
  then show "\<exists>E. primary_step (productions_of n) F s = Some (E, skip (length (tk T_DOT # vs)) s) \<and> abs_expr E = Some (AMember e m)"
    using s F Consume_stream [OF s] by (simp add: primary_step_def)
qed (simp_all add: IsCallOrMemberOrIndex_def)

lemma okP_index:
  assumes "okP (Suc n) us e" and "us \<noteq> []" and "okB n 1 vs i"
  shows "okP (Suc n) (us @ tk T_LEFT_BRACKET # vs @ [tk T_RIGHT_BRACKET]) (AIndex e i)"
proof (rule okP_step [OF assms(1,2)])
  fix s t F assume s: "stream s (tk T_LEFT_BRACKET # vs @ [tk T_RIGHT_BRACKET]) t" and F: "abs_expr F = Some e"
  then have s1: "stream (nxt s) (vs @ [tk T_RIGHT_BRACKET]) t" by simp
  obtain I where I: "ParseBinaryOpExpression (productions_of n) 1 (nxt s) = Some (I, skip (length vs) (nxt s))"
    "abs_expr I = Some i" "stream (skip (length vs) (nxt s)) [tk T_RIGHT_BRACKET] t"
    by (rule okB_front [OF assms(3) s1]) auto
  have "skip (length (tk T_LEFT_BRACKET # vs @ [tk T_RIGHT_BRACKET])) s = nxt (skip (length vs) (nxt s))"
    using skip_add [of "length vs" 1 "nxt s"] by simp
  then show "\<exists>E. primary_step (productions_of (Suc n)) F s =
      Some (E, skip (length (tk T_LEFT_BRACKET # vs @ [tk T_RIGHT_BRACKET])) s) \<and> abs_expr E = Some (AIndex e i)"
    using s F I Consume_stream [OF s] Expect_stream [OF I(3)] by (simp add: primary_step_def)
qed (simp_all add: IsCallOrMemberOrIndex_def)

section \<open>Unary operators\<close>

lemma okU_unary:
  assumes "okU n ts e" and "op \<in> set unary_ops" and "wf_expr (AUnary op e)"
  shows "okU (Suc n) (tk op # ts) (AUnary op e)"
  unfolding okU_def
proof (intro allI impI)
  fix s t assume s: "stream s (tk op # ts) t" and t: "\<not> IsCallOrMemberOrIndex t"
  then have "stream (nxt s) ts t" by simp
  then obtain E where E: "ParseUnaryOpExpression (productions_of n) (nxt s) = Some (E, skip (length ts) (nxt s))" "abs_expr E = Some e"
    using assms(1) t unfolding okU_def by blast
  have "make_unary pos op E = UnaryOpExpression pos op E" for pos
    using assms(3) E(2) by (auto simp: make_unary_def split: Expression.splits Literal.splits)
  then show "\<exists>E. ParseUnaryOpExpression (productions_of (Suc n)) s = Some (E, skip (length (tk op # ts)) s) \<and>
      abs_expr E = Some (AUnary op e)"
    using s E assms(2) by (simp add: ParseUnaryOpExpression_def)
qed

section \<open>Chains of binary operators\<close>

text \<open>
  A binary expression is its leftmost operand and the chain of operators and right operands that follow it,
  in the order of the tokens. The precedences along the chain do not increase.
\<close>

fun spine :: "aexpr \<Rightarrow> aexpr \<times> (TokenType \<times> aexpr) list" where
  "spine (ABinary op l r) =
     (if level l > GetPrecedence op - 1 then (fst (spine l), snd (spine l) @ [(op, r)]) else (l, [(op, r)]))"
| "spine e = (e, [])"

definition chain_tokens :: "(TokenType \<times> aexpr) list \<Rightarrow> token list" where
  "chain_tokens xs = concat (map (\<lambda>(op, r). tk op # print_at (GetPrecedence op) r) xs)"

definition build :: "aexpr \<Rightarrow> (TokenType \<times> aexpr) list \<Rightarrow> aexpr" where
  "build u xs = foldl (\<lambda>l (op, r). ABinary op l r) u xs"

lemma chain_tokens_simps [simp]:
  "chain_tokens [] = []" "chain_tokens ((op, r) # xs) = tk op # print_at (GetPrecedence op) r @ chain_tokens xs"
  "chain_tokens (xs @ ys) = chain_tokens xs @ chain_tokens ys"
  by (simp_all add: chain_tokens_def)

lemma build_simps [simp]: "build u [] = u" "build u ((op, r) # xs) = build (ABinary op u r) xs"
  "build u (xs @ ys) = build (build u xs) ys"
  by (simp_all add: build_def)

lemma non_binary_level: "\<not> (\<exists>op l r. e = ABinary op l r) \<Longrightarrow> 12 < level e"
  by (cases e) auto

lemma spine_props:
  assumes "wf_expr e"
  shows "build (fst (spine e)) (snd (spine e)) = e \<and>
    raw e = print_at 12 (fst (spine e)) @ chain_tokens (snd (spine e)) \<and>
    sorted_wrt (\<lambda>x y. GetPrecedence (fst y) \<le> GetPrecedence (fst x)) (snd (spine e)) \<and>
    (\<forall>x \<in> set (snd (spine e)). level e \<le> GetPrecedence (fst x) \<and> wf_expr (snd x) \<and> size (snd x) < size e) \<and>
    wf_expr (fst (spine e)) \<and> size (fst (spine e)) \<le> size e \<and> (snd (spine e) \<noteq> [] \<longrightarrow> size (fst (spine e)) < size e)"
    (is "?P e")
  using assms
proof (induction e)
  case (ABinary op l r)
  then have wf: "wf_expr l" "wf_expr r" "1 < GetPrecedence op" by auto
  show ?case
  proof (cases "level l > GetPrecedence op - 1")
    case True
    then have r: "raw (ABinary op l r) = raw l @ chain_tokens [(op, r)]" by (simp add: print_at_def)
    have le: "GetPrecedence op \<le> level l" using True wf(3) by simp
    have IH: "?P l" using ABinary.IH(1) wf(1) by blast
    then have "sorted_wrt (\<lambda>x y. GetPrecedence (fst y) \<le> GetPrecedence (fst x)) (snd (spine l) @ [(op, r)])"
      using le by (auto simp: sorted_wrt_append)
    then show ?thesis using IH True le wf r by auto
  next
    case False
    then have "level l \<le> 12" using GetPrecedence_le [of op] by simp
    then show ?thesis using False wf by (auto simp: print_at_def)
  qed
qed (auto simp: print_at_def)

lemma binary_op_stops:
  "0 < GetPrecedence op \<Longrightarrow> \<not> IsCallOrMemberOrIndex op"
  by (auto simp: IsCallOrMemberOrIndex_def)

lemma starts_chain: "starts (chain_tokens xs) t = (case xs of [] \<Rightarrow> t | x # _ \<Rightarrow> fst x)"
  by (cases xs) (auto simp: starts_def)

lemma chain_follow:
  assumes "\<not> IsCallOrMemberOrIndex t" and "GetPrecedence t \<le> q"
    and "xs \<noteq> [] \<Longrightarrow> 0 < GetPrecedence (fst (hd xs)) \<and> GetPrecedence (fst (hd xs)) \<le> q"
  shows "\<not> IsCallOrMemberOrIndex (starts (chain_tokens xs) t)" and "GetPrecedence (starts (chain_tokens xs) t) \<le> q"
proof -
  have "starts (chain_tokens xs) t = (if xs = [] then t else fst (hd xs))" by (cases xs) (auto simp: starts_def)
  then show "\<not> IsCallOrMemberOrIndex (starts (chain_tokens xs) t)" "GetPrecedence (starts (chain_tokens xs) t) \<le> q"
    using assms binary_op_stops [of "fst (hd xs)"] by (simp_all split: if_splits)
qed

lemma same_prec_chain:
  assumes "\<And>x. x \<in> set xs \<Longrightarrow> GetPrecedence (fst x) = q \<and> okB n q (print_at q (snd x)) (snd x)" and "0 < q"
    and "length xs \<le> k" and "stream s (chain_tokens xs) t" and "\<not> IsCallOrMemberOrIndex t" and "GetPrecedence t < q"
    and "abs_expr L = Some l"
  shows "\<exists>E. same_prec_loop k (productions_of (Suc n)) q L s = Some (E, skip (length (chain_tokens xs)) s) \<and>
    abs_expr E = Some (build l xs)"
  using assms
proof (induction xs arbitrary: k s l L)
  case Nil
  then show ?case by (simp add: same_prec_loop.simps)
next
  case (Cons x xs)
  obtain op r where x: "x = (op, r)" by (cases x)
  obtain k' where k: "k = Suc k'" "length xs \<le> k'" using Cons.prems(3) by (cases k) auto
  have op: "GetPrecedence op = q" "okB n q (print_at q r) r" using Cons.prems(1) [of x] x by auto
  have s: "stream s (tk op # print_at q r @ chain_tokens xs) t" using Cons.prems(4) x op by simp
  then have s1: "stream (nxt s) (print_at q r @ chain_tokens xs) t" by simp
  have follow: "\<not> IsCallOrMemberOrIndex (starts (chain_tokens xs) t)" "GetPrecedence (starts (chain_tokens xs) t) \<le> q"
    using chain_follow [of t q xs] Cons.prems(1) [of "hd xs"] Cons.prems(2,5,6) by auto
  obtain R where R: "ParseBinaryOpExpression (productions_of n) q (nxt s) = Some (R, skip (length (print_at q r)) (nxt s))"
    "abs_expr R = Some r" "stream (skip (length (print_at q r)) (nxt s)) (chain_tokens xs) t"
    by (rule okB_front [OF op(2) s1 follow])
  let ?s2 = "skip (length (print_at q r)) (nxt s)"
  let ?L = "if IsCompareOp op then ComparisonOpExpression (position ?s2) op L R else BinaryOpExpression (position ?s2) op L R"
  have "abs_expr ?L = Some (ABinary op l r)" using R(2) Cons.prems(7) by simp
  then obtain E where E: "same_prec_loop k' (productions_of (Suc n)) q ?L ?s2 = Some (E, skip (length (chain_tokens xs)) ?s2)"
    "abs_expr E = Some (build (ABinary op l r) xs)"
    using Cons.IH [of k' ?s2 ?L "ABinary op l r"] Cons.prems(1,2,5,6) k(2) R(3) by auto
  have "skip (length (chain_tokens (x # xs))) s = skip (length (chain_tokens xs)) ?s2"
    using skip_add [of "length (print_at q r)" "length (chain_tokens xs)" "nxt s"] by (simp add: x op)
  then show ?case using s R E op k x by (simp add: same_prec_loop.simps [of "Suc k'"] Let_def)
qed

lemma sorted_split:
  assumes "sorted_wrt (\<lambda>x y. f y \<le> f x) xs" and "\<forall>x \<in> set xs. f x \<le> Suc q"
  shows "\<forall>x \<in> set (dropWhile (\<lambda>x. f x = Suc q) xs). f x \<le> (q :: nat)"
  using assms
proof (induction xs)
  case (Cons a xs)
  then have "f a \<le> Suc q" "\<forall>x \<in> set xs. f x \<le> f a" by auto
  then show ?case using Cons by (cases "f a = Suc q") (auto intro: le_trans)
qed simp

lemma prec_chain:
  assumes "\<And>x. x \<in> set xs \<Longrightarrow> m < GetPrecedence (fst x) \<and> GetPrecedence (fst x) \<le> q \<and>
      okB n (GetPrecedence (fst x)) (print_at (GetPrecedence (fst x)) (snd x)) (snd x)"
    and "sorted_wrt (\<lambda>x y. GetPrecedence (fst y) \<le> GetPrecedence (fst x)) xs"
    and "length xs \<le> Suc n" and "stream s (chain_tokens xs) t" and "\<not> IsCallOrMemberOrIndex t" and "GetPrecedence t \<le> m"
    and "abs_expr L = Some l"
  shows "\<exists>E. prec_loop (productions_of (Suc n)) m q L s = Some (E, skip (length (chain_tokens xs)) s) \<and>
    abs_expr E = Some (build l xs)"
  using assms
proof (induction q arbitrary: xs s l L)
  case 0
  have "xs = []"
  proof (rule ccontr)
    assume "xs \<noteq> []"
    then show False using 0(1) [of "hd xs"] by auto
  qed
  then show ?case using 0 by simp
next
  case (Suc q)
  show ?case
  proof (cases "xs = []")
    case True
    then have "GetPrecedence (Parser_Peek s) \<le> m" using Suc.prems(4,6) by simp
    then show ?thesis using True Suc.prems(7) prec_loop_stop [of s m] by (simp del: prec_loop.simps)
  next
    case False
    have m: "m < Suc q" using Suc.prems(1) [of "hd xs"] False by auto
    have peek: "\<not> GetPrecedence (Parser_Peek s) < m"
      using Suc.prems(1) [of "hd xs"] False stream_peek [OF Suc.prems(4)] by (cases xs) (auto simp: starts_chain)
    define as bs where "as = takeWhile (\<lambda>x. GetPrecedence (fst x) = Suc q) xs"
      and "bs = dropWhile (\<lambda>x. GetPrecedence (fst x) = Suc q) xs"
    have xs: "xs = as @ bs" by (simp add: as_def bs_def)
    have as: "GetPrecedence (fst x) = Suc q" if "x \<in> set as" for x using that set_takeWhileD unfolding as_def by fast
    have bs: "GetPrecedence (fst x) \<le> q" if "x \<in> set bs" for x
      using sorted_split [of "\<lambda>x. GetPrecedence (fst x)" xs q] Suc.prems(1,2) that unfolding bs_def by auto
    have s: "stream s (chain_tokens as) (starts (chain_tokens bs) t)"
      "stream (skip (length (chain_tokens as)) s) (chain_tokens bs) t"
      using Suc.prems(4) by (simp_all add: xs stream_append)
    have "bs \<noteq> [] \<Longrightarrow> 0 < GetPrecedence (fst (hd bs)) \<and> GetPrecedence (fst (hd bs)) \<le> q"
      using Suc.prems(1) [of "hd bs"] bs [of "hd bs"] hd_in_set [of bs] unfolding xs set_append by auto
    then have follow: "\<not> IsCallOrMemberOrIndex (starts (chain_tokens bs) t)" "GetPrecedence (starts (chain_tokens bs) t) < Suc q"
      using chain_follow [of t q bs] Suc.prems(5,6) m by auto
    have "\<And>x. x \<in> set as \<Longrightarrow> GetPrecedence (fst x) = Suc q \<and> okB n (Suc q) (print_at (Suc q) (snd x)) (snd x)"
      using Suc.prems(1) as by (metis UnCI set_append xs)
    from same_prec_chain [OF this _ _ s(1) follow Suc.prems(7)]
    obtain E1 where E1: "same_prec_loop (Suc n) (productions_of (Suc n)) (Suc q) L s = Some (E1, skip (length (chain_tokens as)) s)"
      "abs_expr E1 = Some (build l as)"
      using Suc.prems(3) unfolding xs length_append by (metis add_leD1 zero_less_Suc)
    obtain E where E: "prec_loop (productions_of (Suc n)) m q E1 (skip (length (chain_tokens as)) s) =
      Some (E, skip (length (chain_tokens bs)) (skip (length (chain_tokens as)) s))" "abs_expr E = Some (build (build l as) bs)"
      using Suc.IH [OF _ _ _ s(2) Suc.prems(5,6) E1(2)] Suc.prems(1,2,3) bs by (auto simp: xs sorted_wrt_append)
    then show ?thesis using E1 m peek by (simp add: xs skip_add)
  qed
qed

lemma okB_binary:
  assumes "wf_expr e" and "snd (spine e) \<noteq> []" and "0 < m" and "m < level e"
    and "okU (Suc n) (print_at 12 (fst (spine e))) (fst (spine e))"
    and "\<And>x. x \<in> set (snd (spine e)) \<Longrightarrow> okB n (GetPrecedence (fst x)) (print_at (GetPrecedence (fst x)) (snd x)) (snd x)"
    and "length (raw e) \<le> Suc n"
  shows "okB (Suc n) m (raw e) e"
  unfolding okB_def
proof (intro allI impI)
  fix s t assume s: "stream s (raw e) t" and t: "\<not> IsCallOrMemberOrIndex t" "GetPrecedence t \<le> m"
  note sp = spine_props [OF assms(1)]
  let ?u = "fst (spine e)" and ?xs = "snd (spine e)"
  have prec: "m < GetPrecedence (fst x)" if "x \<in> set ?xs" for x using sp that assms(4) by fastforce
  have st: "stream s (print_at 12 ?u) (starts (chain_tokens ?xs) t)" "stream (skip (length (print_at 12 ?u)) s) (chain_tokens ?xs) t"
    using s sp by (auto simp: stream_append)
  have first: "starts (chain_tokens ?xs) t = fst (hd ?xs)" using assms(2) by (cases ?xs) (auto simp: starts_chain)
  have "\<not> IsCallOrMemberOrIndex (starts (chain_tokens ?xs) t)"
    using prec [of "hd ?xs"] assms(2) binary_op_stops [of "fst (hd ?xs)"] first by auto
  then obtain U where U: "ParseUnaryOpExpression (productions_of (Suc n)) s = Some (U, skip (length (print_at 12 ?u)) s)" "abs_expr U = Some ?u"
    using assms(5) st(1) unfolding okU_def by blast
  have peek: "Parser_Peek (skip (length (print_at 12 ?u)) s) = fst (hd ?xs)" using stream_peek [OF st(2)] first by simp
  have max: "GetPrecedence (fst x) \<le> GetPrecedence (fst (hd ?xs))" if "x \<in> set ?xs" for x
    using sp that assms(2) by (cases ?xs) auto
  have "length xs \<le> length (chain_tokens xs)" for xs by (induction xs) auto
  then have len: "length ?xs \<le> Suc n" using sp assms(7) by (metis le_trans length_append le_add2)
  obtain E where "prec_loop (productions_of (Suc n)) m (GetPrecedence (fst (hd ?xs))) U (skip (length (print_at 12 ?u)) s) =
      Some (E, skip (length (chain_tokens ?xs)) (skip (length (print_at 12 ?u)) s))" "abs_expr E = Some (build ?u ?xs)"
    using prec_chain [of ?xs m "GetPrecedence (fst (hd ?xs))" n _ t U ?u, OF _ _ len st(2) t U(2)] prec max assms(6) sp by blast
  moreover have "skip (length (raw e)) s = skip (length (chain_tokens ?xs)) (skip (length (print_at 12 ?u)) s)"
    using sp by (metis length_append skip_add)
  ultimately show "\<exists>E. ParseBinaryOpExpression (productions_of (Suc n)) m s = Some (E, skip (length (raw e)) s) \<and> abs_expr E = Some e"
    using U peek sp assms(3) by (auto simp: ParseBinaryOpExpression_def checked)
qed

section \<open>Every expression\<close>

lemma starter_raw: "wf_expr e \<Longrightarrow> starter (fst (hd (raw e)))"
proof (induction e)
  case (ALit l)
  then show ?case by (cases l) (auto simp: starter_def)
next
  case (ABinary op l r)
  then show ?case by (auto simp: hd_append parens_def starter_def)
qed (auto simp: hd_append parens_def starter_def)

lemma hd_print_at: "hd (print_at m e) = (if level e > m then hd (raw e) else tk T_LEFT_PAREN)"
  by (simp add: print_at_def parens_def)

lemma primary_start: "12 < level e \<Longrightarrow> level e \<noteq> 13 \<Longrightarrow> wf_expr e \<Longrightarrow> fst (hd (raw e)) \<notin> set unary_ops"
proof (induction e)
  case (ALit l)
  then show ?case by (cases l) (auto simp: unary_ops_def)
next
  case (ABinary op l r)
  then show ?case using GetPrecedence_le [of op] by simp
next
  case (ACall f as)
  then show ?case by (cases "level f = 13") (auto simp: hd_append parens_def unary_ops_def)
next
  case (AMember e m)
  then show ?case by (cases "level e = 13") (auto simp: hd_append parens_def unary_ops_def)
next
  case (AIndex e i)
  then show ?case by (cases "level e = 13") (auto simp: hd_append parens_def unary_ops_def)
qed (auto simp: unary_ops_def)

lemma starter_not_close: "starter t \<Longrightarrow> t \<noteq> T_RIGHT_PAREN"
  by (auto simp: starter_def unary_ops_def)

definition good :: "aexpr \<Rightarrow> bool" where
  "good e \<longleftrightarrow> (\<forall>n. length (print_at 14 e) \<le> n \<longrightarrow> okO n (print_at 14 e) e) \<and>
     (\<forall>n. length (print_at 13 e) \<le> n \<longrightarrow> okP n (print_at 13 e) e) \<and>
     (\<forall>n. length (print_at 12 e) \<le> n \<longrightarrow> okU n (print_at 12 e) e) \<and>
     (\<forall>n m. 0 < m \<longrightarrow> length (print_at m e) \<le> n \<longrightarrow> okB n m (print_at m e) e)"

text \<open>In parentheses every expression is an operand; from an operand the claims go up.\<close>

lemma parens_claims:
  assumes "\<And>n. length (raw e) \<le> n \<Longrightarrow> okB n 1 (raw e) e" and "length (parens (raw e)) \<le> n"
  shows "okO n (parens (raw e)) e" and "okP n (parens (raw e)) e" and "okU n (parens (raw e)) e"
    and "0 < m \<Longrightarrow> okB n m (parens (raw e)) e"
proof -
  obtain k where k: "n = Suc k" "length (raw e) \<le> k" using assms(2) by (cases n) (auto simp: parens_def)
  show O: "okO n (parens (raw e)) e" unfolding k(1) by (rule okO_parens) (use assms(1) k in auto)
  then show P: "okP n (parens (raw e)) e" by (rule okO_okP) (simp add: parens_def)
  then show U: "okU n (parens (raw e)) e" by (rule okP_okU) (use assms(2) in \<open>auto simp: parens_def unary_ops_def\<close>)
  then show "0 < m \<Longrightarrow> okB n m (parens (raw e)) e" by (rule okU_okB)
qed

lemma good_binary:
  assumes "level e \<le> 12" and "\<And>n m. 0 < m \<Longrightarrow> m < level e \<Longrightarrow> length (raw e) \<le> n \<Longrightarrow> okB n m (raw e) e" and "1 < level e"
  shows "good e"
proof -
  have B: "\<And>n. length (raw e) \<le> n \<Longrightarrow> okB n 1 (raw e) e" using assms by auto
  show ?thesis unfolding good_def print_at_def using assms parens_claims [OF B] by auto
qed

lemma good_unary:
  assumes "level e = 13" and "\<And>n. length (raw e) \<le> n \<Longrightarrow> okU n (raw e) e"
  shows "good e"
proof -
  have B: "\<And>n. length (raw e) \<le> n \<Longrightarrow> okB n 1 (raw e) e" using assms okU_okB by simp
  show ?thesis unfolding good_def print_at_def using assms parens_claims [OF B] okU_okB by auto
qed

lemma good_primary:
  assumes "level e = 14" and P: "\<And>n. length (raw e) \<le> n \<Longrightarrow> okP n (raw e) e" and "wf_expr e"
  shows "good e"
proof -
  have U: "okU n (raw e) e" if "length (raw e) \<le> n" for n
    using okP_okU [OF P [OF that] that] primary_start [of e] assms(1,3) by auto
  then have B: "\<And>n. length (raw e) \<le> n \<Longrightarrow> okB n 1 (raw e) e" using okU_okB by simp
  show ?thesis unfolding good_def print_at_def using assms U parens_claims [OF B] okU_okB by auto
qed

lemma good_operand:
  assumes "level e = 15" and op: "\<And>n. length (raw e) \<le> n \<Longrightarrow> okO n (raw e) e" and "wf_expr e"
  shows "good e"
proof -
  have P: "okP n (raw e) e" if "length (raw e) \<le> n" for n using okO_okP [OF op [OF that]] by simp
  have U: "okU n (raw e) e" if "length (raw e) \<le> n" for n
    using okP_okU [OF P [OF that] that] primary_start [of e] assms(1,3) by auto
  then have B: "\<And>n. length (raw e) \<le> n \<Longrightarrow> okB n 1 (raw e) e" using okU_okB by simp
  show ?thesis unfolding good_def print_at_def using assms P U parens_claims [OF B] okU_okB by auto
qed

lemma length_commas: "ts \<in> set tss \<Longrightarrow> length ts \<le> length (commas tss)"
  by (induction tss rule: commas.induct) auto

lemma length_commas_ge: "(\<And>ts. ts \<in> set tss \<Longrightarrow> ts \<noteq> []) \<Longrightarrow> length tss \<le> length (commas tss)"
proof (induction tss rule: commas.induct)
  case (3 ts t tss)
  then show ?case by (cases ts) auto
qed (auto simp: Suc_le_eq)

lemma arguments_ok:
  assumes "\<And>a. a \<in> set as \<Longrightarrow> good a" and "list_all wf_expr as" and "length (commas (map raw as)) \<le> n"
  shows "list_all2 (okB n 1) (map raw as) as" and "\<And>ts. ts \<in> set (map raw as) \<Longrightarrow> ts \<noteq> [] \<and> fst (hd ts) \<noteq> T_RIGHT_PAREN"
    and "length as \<le> Suc n"
proof -
  have "okB n 1 (raw a) a" if "a \<in> set as" for a
  proof -
    have "length (raw a) \<le> n" using that assms(3) length_commas [of "raw a" "map raw as"] by (simp add: image_eqI)
    moreover have "print_at 1 a = raw a" using that assms(2) wf_level by (auto simp: print_at_def list_all_iff)
    ultimately show ?thesis using assms(1) [OF that] unfolding good_def by (metis zero_less_one)
  qed
  then show "list_all2 (okB n 1) (map raw as) as" by (simp add: list_all2_conv_all_nth)
  show "ts \<noteq> [] \<and> fst (hd ts) \<noteq> T_RIGHT_PAREN" if "ts \<in> set (map raw as)" for ts
    using that assms(2) starter_raw starter_not_close by (auto simp: list_all_iff)
  have "length (map raw as) \<le> length (commas (map raw as))" by (rule length_commas_ge) auto
  then show "length as \<le> Suc n" using assms(3) by simp
qed

lemma good_all: "wf_expr e \<Longrightarrow> good e"
proof (induction "size e" arbitrary: e rule: less_induct)
  case less
  have wf: "wf_expr e" by fact
  have IH: "\<And>x. size x < size e \<Longrightarrow> wf_expr x \<Longrightarrow> good x" using less.hyps by blast
  have args: "good a" if "list_all wf_expr as" "a \<in> set as" "size_list size as < size e" for a as
    using that IH size_list_estimation' [of a as] by (meson le_less_trans list_all_iff order_refl size_list_estimation)
  show ?case
  proof (cases e)
    case (AIdent x)
    then show ?thesis using okO_ident by (intro good_operand) auto
  next
    case (ALit l)
    then show ?thesis using wf okO_literal by (intro good_operand) auto
  next
    case (ABuiltin x as)
    then have w: "list_all wf_expr as" using wf by simp
    show ?thesis
    proof (rule good_operand)
      fix n assume len: "length (raw e) \<le> n"
      then obtain k where k: "n = Suc k" "length (commas (map raw as)) \<le> k"
        using ABuiltin by (cases n) (auto simp: parens_def)
      note a = arguments_ok [OF _ w k(2)]
      show "okO n (raw e) e" unfolding k(1) ABuiltin raw.simps
        using args [OF w] ABuiltin by (intro okO_builtin a) auto
    qed (use ABuiltin wf in auto)
  next
    case (ACall f as)
    then have w: "wf_expr f" "list_all wf_expr as" using wf by simp_all
    have f: "good f" using IH [OF _ w(1)] ACall by simp
    have r: "raw e = print_at 13 f @ parens (commas (map raw as))" using ACall by (simp add: print_at_def)
    show ?thesis
    proof (rule good_primary)
      fix n assume len: "length (raw e) \<le> n"
      then obtain k where k: "n = Suc k" "length (commas (map raw as)) \<le> k" "length (print_at 13 f) \<le> Suc k"
        unfolding r by (cases n) (auto simp: parens_def)
      note a = arguments_ok [OF _ w(2) k(2)]
      have "okP (Suc k) (print_at 13 f) f" using f k(3) unfolding good_def by blast
      then show "okP n (raw e) e" unfolding k(1) r unfolding ACall
        using args [OF w(2)] ACall by (intro okP_call a) (auto simp: print_at_def parens_def)
    qed (use ACall wf in auto)
  next
    case (AMember a m)
    then have w: "wf_expr a" "wf_expr m" using wf by simp_all
    have g: "good a" "good m" using IH w AMember by simp_all
    have r: "raw e = print_at 13 a @ tk T_DOT # print_at 14 m" using AMember by (simp add: print_at_def)
    show ?thesis
    proof (rule good_primary)
      fix n assume len: "length (raw e) \<le> n"
      then have "okP n (print_at 13 a) a" "okO n (print_at 14 m) m" using g unfolding good_def r by auto
      then show "okP n (raw e) e" unfolding r unfolding AMember by (intro okP_member) (auto simp: print_at_def parens_def)
    qed (use AMember wf in auto)
  next
    case (AIndex a i)
    then have w: "wf_expr a" "wf_expr i" using wf by simp_all
    have g: "good a" "good i" using IH w AIndex by simp_all
    have i: "print_at 1 i = raw i" using wf_level [OF w(2)] by (simp add: print_at_def)
    have r: "raw e = print_at 13 a @ tk T_LEFT_BRACKET # raw i @ [tk T_RIGHT_BRACKET]" using AIndex by (simp add: print_at_def)
    show ?thesis
    proof (rule good_primary)
      fix n assume len: "length (raw e) \<le> n"
      then obtain k where k: "n = Suc k" "length (raw i) \<le> k" "length (print_at 13 a) \<le> Suc k" unfolding r by (cases n) auto
      then have "okP (Suc k) (print_at 13 a) a" "okB k 1 (raw i) i" using g i unfolding good_def by (metis, metis zero_less_one)
      then show "okP n (raw e) e" unfolding k(1) r unfolding AIndex by (intro okP_index) (auto simp: print_at_def parens_def)
    qed (use AIndex wf in auto)
  next
    case (AUnary op a)
    then have w: "wf_expr a" "op \<in> set unary_ops" using wf by simp_all
    have g: "good a" using IH w AUnary by simp
    have r: "raw e = tk op # print_at 12 a" using AUnary by (simp add: print_at_def)
    show ?thesis
    proof (rule good_unary)
      fix n assume len: "length (raw e) \<le> n"
      then obtain k where k: "n = Suc k" "length (print_at 12 a) \<le> k" unfolding r by (cases n) auto
      then have "okU k (print_at 12 a) a" using g unfolding good_def by blast
      then show "okU n (raw e) e" unfolding k(1) r unfolding AUnary by (intro okU_unary) (use w wf AUnary in auto)
    qed (use AUnary in auto)
  next
    case (ABinary op l r)
    note sp = spine_props [OF wf]
    have ne: "snd (spine e) \<noteq> []" using ABinary by simp
    have u: "good (fst (spine e))" using IH sp ne by blast
    have xs: "good (snd x)" if "x \<in> set (snd (spine e))" for x using IH sp that by blast
    show ?thesis
    proof (rule good_binary)
      fix n m assume m: "0 < m" "m < level e" and len: "length (raw e) \<le> n"
      then obtain k where k: "n = Suc k" by (cases n) auto
      have len': "length (print_at 12 (fst (spine e))) + length (chain_tokens (snd (spine e))) \<le> Suc k"
        using len sp k by (metis length_append)
      have c: "length (print_at (GetPrecedence (fst x)) (snd x)) < length (chain_tokens ys)" if "x \<in> set ys" for x ys
        using that by (induction ys) auto
      show "okB n m (raw e) e" unfolding k
      proof (rule okB_binary [OF wf ne m])
        show "okU (Suc k) (print_at 12 (fst (spine e))) (fst (spine e))" using u len' unfolding good_def by auto
        show "length (raw e) \<le> Suc k" using len k by simp
        fix x assume x: "x \<in> set (snd (spine e))"
        have "length (print_at (GetPrecedence (fst x)) (snd x)) \<le> k" using c [OF x] len' by linarith
        moreover have "0 < GetPrecedence (fst x)" using sp x m by fastforce
        ultimately show "okB k (GetPrecedence (fst x)) (print_at (GetPrecedence (fst x)) (snd x)) (snd x)"
          using xs [OF x] unfolding good_def by blast
      qed
    qed (use ABinary wf GetPrecedence_le in auto)
  qed
qed

section \<open>From the source text to the tree\<close>

text \<open>At the end of the input \<^verbatim>\<open>Next\<close> returns the end of the stream again and again.\<close>

definition at_end :: "Parser \<Rightarrow> bool" where
  "at_end s \<longleftrightarrow> scan_at (p_scanner s) [] \<and> Parser_Peek s = T_EOS"

lemma Scan_at_end:
  assumes "scan_at s []"
  shows "\<exists>s'. Scan s = Some s' \<and> tok_type (sc_next s') = T_EOS \<and> sc_curr s' = sc_curr s \<and> scan_at s' []"
proof -
  let ?s0 = "s\<lparr>sc_next := (sc_next s)\<lparr>tok_literal := []\<rparr>\<rparr>"
  let ?s1 = "?s0\<lparr>sc_next := (sc_next ?s0)\<lparr>tok_pos := c0_pos ?s0, tok_offset := sc_offset ?s0\<rparr>\<rparr>"
  have a: "scan_at ?s1 []" using assms by simp
  have "c0 ?s1 = kEndOfInput" using a by (simp add: scan_at_def)
  then have "scan_switch ?s1 = (T_EOS, ?s1)"
    using is_char_end [OF a] by (simp add: scan_switch_def punctuation_def ascii_def)
  then have "scan_loop ?s0 = Some (T_EOS, ?s1)" unfolding scan_loop.simps [of ?s0] scan_round_def by simp
  then show ?thesis using assms by (simp add: Scan_def)
qed

lemma Scan_space_end:
  assumes "scan_at s '' ''"
  shows "\<exists>s'. Scan s = Some s' \<and> tok_type (sc_next s') = T_EOS \<and> sc_curr s' = sc_curr s \<and> scan_at s' []"
proof -
  let ?s0 = "s\<lparr>sc_next := (sc_next s)\<lparr>tok_literal := []\<rparr>\<rparr>"
  obtain s1 where s1: "scan_loop ?s0 = scan_loop s1" "scan_at s1 []" "lit s1 = []" "sc_curr s1 = sc_curr s"
    using Scan_space [of ?s0 "[]"] assms by (auto simp: lit_def)
  have "s1\<lparr>sc_next := (sc_next s1)\<lparr>tok_literal := []\<rparr>\<rparr> = s1" using s1(3) by (simp add: lit_def)
  then have "Scan s = Scan s1" using s1(1) by (simp add: Scan_def)
  then show ?thesis using Scan_at_end [OF s1(2)] s1(4) by simp
qed

lemma at_end_next: "at_end s \<Longrightarrow> \<exists>s'. Parser_Next s = Some (T_EOS, s') \<and> at_end s'"
proof -
  assume s: "at_end s"
  then have "scan_at ((p_scanner s)\<lparr>sc_curr := sc_next (p_scanner s)\<rparr>) []" by (simp add: at_end_def)
  from Scan_at_end [OF this] s show ?thesis
    by (auto simp: at_end_def Parser_Next_def Next_def Parser_Peek_def Peek_def)
qed

lemma stream_printed:
  assumes "tok_type (sc_next (p_scanner s)) = fst tok" and "lit (p_scanner s) = snd tok"
    and "scan_at (p_scanner s) (CHR '' '' # print_tokens ts)" and "\<And>t. t \<in> set ts \<Longrightarrow> token_ok t"
  shows "stream s (tok # ts) T_EOS \<and> at_end (skip (length (tok # ts)) s)"
  using assms
proof (induction ts arbitrary: s tok)
  case Nil
  have "scan_at ((p_scanner s)\<lparr>sc_curr := sc_next (p_scanner s)\<rparr>) '' ''" using Nil.prems(3) by simp
  from Scan_space_end [OF this] obtain s' where s': "Scan ((p_scanner s)\<lparr>sc_curr := sc_next (p_scanner s)\<rparr>) = Some s'"
    "tok_type (sc_next s') = T_EOS" "sc_curr s' = sc_next (p_scanner s)" "scan_at s' []" by auto
  then have n: "Parser_Next s = Some (fst tok, s\<lparr>p_scanner := s'\<rparr>)"
    using Nil.prems(1) by (simp add: Parser_Next_def Next_def)
  then have "nxt s = s\<lparr>p_scanner := s'\<rparr>" by (simp add: nxt_def)
  then show ?case using n s' Nil.prems(1,2)
    by (simp add: at_end_def Parser_Peek_def Peek_def GetSymbol_def CurrentLiteral_def lit_def)
next
  case (Cons u ts)
  have "scan_at ((p_scanner s)\<lparr>sc_curr := sc_next (p_scanner s)\<rparr>) (CHR '' '' # token_text u @ CHR '' '' # print_tokens ts)"
    using Cons.prems(3) by simp
  from Scan_token_space [OF _ this] obtain s1 where s1: "Scan ((p_scanner s)\<lparr>sc_curr := sc_next (p_scanner s)\<rparr>) = Some s1"
    "tok_type (sc_next s1) = fst u" "lit s1 = snd u" "sc_curr s1 = sc_next (p_scanner s)" "scan_at s1 (CHR '' '' # print_tokens ts)"
    using Cons.prems(4) by auto
  then have n: "Parser_Next s = Some (fst tok, s\<lparr>p_scanner := s1\<rparr>)"
    using Cons.prems(1) by (simp add: Parser_Next_def Next_def)
  then have x: "nxt s = s\<lparr>p_scanner := s1\<rparr>" by (simp add: nxt_def)
  have "stream (nxt s) (u # ts) T_EOS \<and> at_end (skip (length (u # ts)) (nxt s))"
    by (rule Cons.IH) (use s1 Cons.prems(4) in \<open>auto simp: x\<close>)
  then show ?case using n x s1(4) Cons.prems(1,2)
    by (simp add: Parser_Peek_def Peek_def GetSymbol_def CurrentLiteral_def lit_def)
qed

lemma stream_errors: "stream s ts t \<Longrightarrow> p_errors (skip (length ts) s) = p_errors s"
proof (induction ts arbitrary: s)
  case (Cons x ts)
  then have "p_errors (nxt s) = p_errors s" by (auto simp: Parser_Next_def nxt_def split: Option.bind_splits)
  then show ?case using Cons by simp
qed simp

lemma stream_source:
  assumes "\<forall>t \<in> set (tok # ts). token_ok t"
  shows "\<exists>sc. Scanner_new (print_tokens (tok # ts)) = Some sc \<and>
    stream \<lparr>p_scanner = sc, p_errors = es\<rparr> (tok # ts) T_EOS \<and>
    at_end (skip (length (tok # ts)) \<lparr>p_scanner = sc, p_errors = es\<rparr>)"
proof -
  have "\<forall>c \<in> set (print_tokens ts). ascii c" if "\<forall>t \<in> set ts. token_ok t" for ts
    using that token_ascii by (induction ts) (auto simp: ascii_def)
  then have "scan_at (start_scanner (print_tokens (tok # ts))) (token_text tok @ CHR '' '' # print_tokens ts)"
    using start_at [of "print_tokens (tok # ts)"] assms by simp
  from Scan_token [OF _ this] obtain sc where sc: "Scanner_new (print_tokens (tok # ts)) = Some sc"
    "tok_type (sc_next sc) = fst tok" "lit sc = snd tok" "scan_at sc (CHR '' '' # print_tokens ts)"
    using assms by (auto simp: Scanner_new_def)
  then show ?thesis using stream_printed [of "\<lparr>p_scanner = sc, p_errors = es\<rparr>" tok ts] assms by auto
qed

text \<open>Tokens without a closing parenthesis, up to the end of the input, leave none ahead.\<close>

lemma at_end_no_close:
  assumes "at_end s" shows "no_close s"
proof -
  have "at_end \<lparr>p_scanner = sc', p_errors = []\<rparr>" if "reads sc sc'" "at_end \<lparr>p_scanner = sc, p_errors = []\<rparr>" for sc sc'
    using that
  proof induction
    case (reads_next sc t sc' sc'')
    from at_end_next [OF reads_next.prems] reads_next show ?case
      by (auto simp: Parser_Next_def at_end_def Parser_Peek_def)
  qed
  then show ?thesis using assms by (force simp: no_close_def at_end_def Parser_Peek_def)
qed

lemma stream_no_close:
  assumes "stream s ts T_EOS" and "at_end (skip (length ts) s)" and "T_RIGHT_PAREN \<notin> fst ` set ts"
  shows "no_close s"
  using assms
proof (induction ts arbitrary: s)
  case Nil
  then show ?case by (simp add: at_end_no_close)
next
  case (Cons x ts)
  then have "no_close (nxt s)" by simp
  moreover have "Parser_Peek s \<noteq> T_RIGHT_PAREN" "Parser_Next s = Some (fst x, nxt s)" using Cons.prems by auto
  ultimately show ?case using no_closeI [of s] by simp
qed

section \<open>Properties\<close>

text \<open>
  C33. Scanning and parsing the text of an expression gives the expression: operators bind by their
  precedence and to the left, unary operators bind tighter than binary ones and postfix calls, member
  accesses and indexing tightest, and parentheses appear in the text only where a subexpression binds
  more loosely than its place allows. No error is reported and the whole text is read. Unrolling the
  recursion as often as the text has tokens is enough.
\<close>

theorem ParseExpression_source:
  assumes "wf_expr e" and "\<forall>t \<in> set (raw e). token_ok t" and "length (raw e) < n"
  shows "\<exists>sc E s'. Scanner_new (print_tokens (raw e)) = Some sc \<and>
    ParseExpression (productions_of n) \<lparr>p_scanner = sc, p_errors = []\<rparr> = Some (E, s') \<and>
    abs_expr E = Some e \<and> Parser_Peek s' = T_EOS \<and> p_errors s' = []"
proof -
  obtain tok ts where r: "raw e = tok # ts" using raw_nonempty [of e] by (cases "raw e") auto
  obtain sc where sc: "Scanner_new (print_tokens (raw e)) = Some sc"
    "stream \<lparr>p_scanner = sc, p_errors = []\<rparr> (raw e) T_EOS" "at_end (skip (length (raw e)) \<lparr>p_scanner = sc, p_errors = []\<rparr>)"
    using stream_source [of tok ts] assms(2) unfolding r by blast
  obtain k where k: "n = Suc k" "length (raw e) \<le> k" using assms(3) by (cases n) auto
  have "print_at 1 e = raw e" using wf_level [OF assms(1)] by (simp add: print_at_def)
  then have "okB k 1 (raw e) e" using good_all [OF assms(1)] k(2) unfolding good_def by (metis zero_less_one)
  then obtain E where "ParseBinaryOpExpression (productions_of k) 1 \<lparr>p_scanner = sc, p_errors = []\<rparr> =
      Some (E, skip (length (raw e)) \<lparr>p_scanner = sc, p_errors = []\<rparr>)" "abs_expr E = Some e"
    using sc(2) unfolding okB_def by (fastforce simp: IsCallOrMemberOrIndex_def)
  then show ?thesis using sc(1,3) stream_errors [OF sc(2)] k(1) by (auto simp: at_end_def)
qed

theorem ParseExpression_source_witness:
  "\<exists>sc E s'. Scanner_new ''a + b * ( c - 1 ) '' = Some sc \<and>
     ParseExpression (productions_of 10) \<lparr>p_scanner = sc, p_errors = []\<rparr> = Some (E, s') \<and>
     abs_expr E = Some (ABinary T_PLUS (AIdent ''a'')
       (ABinary T_STAR (AIdent ''b'') (ABinary T_MINUS (AIdent ''c'') (ALit (IntLiteral 1))))) \<and>
     Parser_Peek s' = T_EOS \<and> p_errors s' = []"
proof -
  let ?e = "ABinary T_PLUS (AIdent ''a'') (ABinary T_STAR (AIdent ''b'') (ABinary T_MINUS (AIdent ''c'') (ALit (IntLiteral 1))))"
  have r: "raw ?e = [(T_IDENTIFIER, ''a''), (T_PLUS, []), (T_IDENTIFIER, ''b''), (T_STAR, []), (T_LEFT_PAREN, []),
      (T_IDENTIFIER, ''c''), (T_MINUS, []), (T_INTEGER, ''1''), (T_RIGHT_PAREN, [])]"
    by (simp add: parens_def tk_def symbol_tokens_def to_string.simps digit_char_def char_of_def bit_Suc_0_iff)
  have "wf_expr ?e" by simp
  moreover have "\<forall>t \<in> set (raw ?e). token_ok t"
    unfolding r by (simp add: keyword_words word_ok_def digits_ok_def digit_chr_def ident_char_def char_classes
        to_int_def symbol_tokens_def)
  moreover have "length (raw ?e) < 10" unfolding r by simp
  moreover have "print_tokens (raw ?e) = ''a + b * ( c - 1 ) ''" unfolding r by simp
  ultimately show ?thesis using ParseExpression_source [of ?e 10] by simp
qed

text \<open>
  C34. The loop over the arguments of a call stops only at a closing parenthesis: no call is parsed, with any
  unrolling of the recursion, when no closing parenthesis lies ahead in the source. Let a source consist of the
  tokens \<open>pre @ ts\<close> with no closing parenthesis in \<open>ts\<close>, whatever \<open>pre\<close> is, and let the parser, with any errors
  reported so far, have read \<open>pre\<close>. When \<open>ts\<close> starts with an opening parenthesis, the step that parses a regular call
  of any callee there gives no result; when it starts with the name of a builtin function, neither does the operand
  there; and when it starts with either kind of name and an opening parenthesis, neither does the expression there.
\<close>

theorem unclosed_call_diverges:
  assumes "\<forall>t \<in> set (pre @ ts). token_ok t" and "ts \<noteq> []" and "T_RIGHT_PAREN \<notin> fst ` set ts"
  shows "\<exists>sc s. Scanner_new (print_tokens (pre @ ts)) = Some sc \<and> s = skip (length pre) \<lparr>p_scanner = sc, p_errors = es\<rparr> \<and>
    Parser_Peek s = fst (hd ts) \<and>
    (\<forall>n callee. fst (hd ts) = T_LEFT_PAREN \<longrightarrow> primary_step (productions_of n) callee s = None) \<and>
    (\<forall>n. fst (hd ts) = T_BUILTIN_IDENTIFIER \<longrightarrow> ParseOperand (productions_of n) s = None) \<and>
    (\<forall>n k x rest. ts = (k, x) # tk T_LEFT_PAREN # rest \<and> k \<in> {T_IDENTIFIER, T_BUILTIN_IDENTIFIER} \<longrightarrow>
       ParseExpression (productions_of n) s = None)"
proof -
  obtain tok rest where t: "pre @ ts = tok # rest" using assms(2) by (cases "pre @ ts") auto
  obtain sc where sc: "Scanner_new (print_tokens (pre @ ts)) = Some sc"
    "stream \<lparr>p_scanner = sc, p_errors = es\<rparr> (pre @ ts) T_EOS"
    "at_end (skip (length (pre @ ts)) \<lparr>p_scanner = sc, p_errors = es\<rparr>)"
    using stream_source [of tok rest es] assms(1) unfolding t by blast
  let ?s = "skip (length pre) \<lparr>p_scanner = sc, p_errors = es\<rparr>"
  have st: "stream ?s ts T_EOS" using sc(2) stream_append by blast
  have nc: "no_close ?s" using sc(3) assms(3) by (intro stream_no_close [OF st]) (simp_all add: skip_add)
  have peek: "Parser_Peek ?s = fst (hd ts)" using stream_peek [OF st] assms(2) by (cases ts) simp_all
  have "ParseExpression (productions_of n) ?s = None"
    if "ts = (k, x) # tk T_LEFT_PAREN # rest" "k \<in> {T_IDENTIFIER, T_BUILTIN_IDENTIFIER}" for n k x rest
    using unclosed_expression [OF nc, of "fst (hd ts)" "nxt ?s"] st that by simp
  then show ?thesis using unclosed_call [OF nc] peek sc(1) by auto
qed

text \<open>\<^verbatim>\<open>( a ) @f ( 1 , x\<close> and \<^verbatim>\<open>f ( 1\<close>.\<close>

theorem unclosed_call_diverges_witness:
  "\<exists>sc s sc'. Scanner_new ''( a ) @f ( 1 , x '' = Some sc \<and> s = skip 3 \<lparr>p_scanner = sc, p_errors = []\<rparr> \<and>
     (\<forall>n. ParseOperand (productions_of n) s = None) \<and> Scanner_new ''f ( 1 '' = Some sc' \<and>
     (\<forall>n. ParseExpression (productions_of n) \<lparr>p_scanner = sc', p_errors = []\<rparr> = None)"
proof -
  let ?pre = "[tk T_LEFT_PAREN, (T_IDENTIFIER, ''a''), tk T_RIGHT_PAREN]"
  let ?ts = "[(T_BUILTIN_IDENTIFIER, ''f''), tk T_LEFT_PAREN, (T_INTEGER, ''1''), tk T_COMMA, (T_IDENTIFIER, ''x'')]"
  let ?us = "[(T_IDENTIFIER, ''f''), tk T_LEFT_PAREN, (T_INTEGER, ''1'')]"
  have ok: "\<forall>t \<in> set (?pre @ ?ts). token_ok t" "\<forall>t \<in> set ([] @ ?us). token_ok t"
    by (simp_all add: tk_def keyword_words word_ok_def digits_ok_def digit_chr_def symbol_tokens_def ident_char_def char_classes to_int_def)
  have src: "print_tokens (?pre @ ?ts) = ''( a ) @f ( 1 , x ''" "print_tokens ([] @ ?us) = ''f ( 1 ''"
    by (simp_all add: tk_def symbol_tokens_def)
  have close: "T_RIGHT_PAREN \<notin> fst ` set ?ts" "T_RIGHT_PAREN \<notin> fst ` set ?us" by simp_all
  have ne: "?ts \<noteq> []" "?us \<noteq> []" by simp_all
  obtain sc s where 1: "Scanner_new ''( a ) @f ( 1 , x '' = Some sc" "s = skip (length ?pre) \<lparr>p_scanner = sc, p_errors = []\<rparr>"
    "\<forall>n. fst (hd ?ts) = T_BUILTIN_IDENTIFIER \<longrightarrow> ParseOperand (productions_of n) s = None"
    using unclosed_call_diverges [OF ok(1) ne(1) close(1), of "[]", unfolded src]
    by (elim exE conjE) (rule that, assumption+)
  obtain sc' s' where 2: "Scanner_new ''f ( 1 '' = Some sc'" "s' = skip (length ([] :: token list)) \<lparr>p_scanner = sc', p_errors = []\<rparr>"
    "\<forall>n k x rest. ?us = (k, x) # tk T_LEFT_PAREN # rest \<and> k \<in> {T_IDENTIFIER, T_BUILTIN_IDENTIFIER} \<longrightarrow>
       ParseExpression (productions_of n) s' = None"
    using unclosed_call_diverges [OF ok(2) ne(2) close(2), of "[]", unfolded src]
    by (elim exE conjE) (rule that, assumption+)
  have "s = skip 3 \<lparr>p_scanner = sc, p_errors = []\<rparr>" using 1(2) by (simp add: numeral_3_eq_3)
  moreover have "\<forall>n. ParseOperand (productions_of n) s = None" using 1(3) by simp
  moreover have "\<forall>n. ParseExpression (productions_of n) \<lparr>p_scanner = sc', p_errors = []\<rparr> = None"
    using 2(2,3) by simp
  ultimately show ?thesis using 1(1) 2(1) by blast
qed

end
