(* ===== verification/Types.thy ===== *)
theory Types
  imports BitUtil Ast
begin

text \<open>
  The types of TPL (\<^verbatim>\<open>ast/type.h\<close>, \<^verbatim>\<open>ast/type.cpp\<close>) and the part of the context that makes them
  (\<^verbatim>\<open>ast/context.cpp\<close>).

  The context keeps one object for each type and compares types by address. Two types made by the same
  context have the same address just when they have the same structure, named structs included because
  \<^verbatim>\<open>StructType::Get\<close> gives every named struct a name of its own; so types are the values of a datatype and
  are compared by \<open>=\<close>. The parameters of a function type carry their names, and these take part in the comparison.

  The sizes and alignments of the C++ types behind the builtin kinds and maps are the parameter \<open>abi\<close>.
\<close>

section \<open>Builtin kinds\<close>

datatype Kind =
    K_Nil | K_Bool | K_Int8 | K_Int16 | K_Int32 | K_Int64 | K_UInt8 | K_UInt16 | K_UInt32 | K_UInt64 |
    K_Int128 | K_UInt128 | K_Float32 | K_Float64 | K_AggregationHashTable | K_AnalysisStats |
    K_AHTIterator | K_AHTVectorIterator | K_AHTOverflowPartitionIterator | K_CompactStorage |
    K_CSVReader | K_Date | K_ExecutionContext | K_FilterManager | K_HashTableEntry | K_JoinHashTable |
    K_MemoryPool | K_Sorter | K_SorterIterator | K_TableVectorIterator | K_ThreadStateContainer |
    K_Timestamp | K_TupleIdList | K_VarlenEntry | K_VarlenHeap | K_VectorProjection |
    K_VectorProjectionIterator | K_CountAggregate | K_CountStarAggregate | K_AvgAggregate |
    K_IntegerMaxAggregate | K_IntegerMinAggregate | K_IntegerSumAggregate | K_RealMaxAggregate |
    K_RealMinAggregate | K_RealSumAggregate | K_DateMinAggregate | K_DateMaxAggregate |
    K_StringMinAggregate | K_StringMaxAggregate | K_BooleanVal | K_IntegerVal | K_RealVal |
    K_DecimalVal | K_StringVal | K_DateVal | K_TimestampVal

definition BUILTIN_TYPE_LIST :: "(Kind \<times> string) list" where
  "BUILTIN_TYPE_LIST = [
     (K_Nil, ''nil''), (K_Bool, ''bool''), (K_Int8, ''int8''), (K_Int16, ''int16''),
     (K_Int32, ''int32''), (K_Int64, ''int64''), (K_UInt8, ''uint8''), (K_UInt16, ''uint16''),
     (K_UInt32, ''uint32''), (K_UInt64, ''uint64''), (K_Int128, ''int128''), (K_UInt128, ''uint128''),
     (K_Float32, ''float32''), (K_Float64, ''float64''),
     (K_AggregationHashTable, ''AggregationHashTable''), (K_AnalysisStats, ''AnalysisStats''),
     (K_AHTIterator, ''AHTIterator''), (K_AHTVectorIterator, ''AHTVectorIterator''),
     (K_AHTOverflowPartitionIterator, ''AHTOverflowPartitionIterator''),
     (K_CompactStorage, ''CompactStorage''), (K_CSVReader, ''CSVReader''), (K_Date, ''Date''),
     (K_ExecutionContext, ''ExecutionContext''), (K_FilterManager, ''FilterManager''),
     (K_HashTableEntry, ''HashTableEntry''), (K_JoinHashTable, ''JoinHashTable''),
     (K_MemoryPool, ''MemoryPool''), (K_Sorter, ''Sorter''), (K_SorterIterator, ''SorterIterator''),
     (K_TableVectorIterator, ''TableVectorIterator''),
     (K_ThreadStateContainer, ''ThreadStateContainer''), (K_Timestamp, ''Timestamp''),
     (K_TupleIdList, ''TupleIdList''), (K_VarlenEntry, ''VarlenEntry''), (K_VarlenHeap, ''VarlenHeap''),
     (K_VectorProjection, ''VectorProjection''),
     (K_VectorProjectionIterator, ''VectorProjectionIterator''), (K_CountAggregate, ''CountAggregate''),
     (K_CountStarAggregate, ''CountStarAggregate''), (K_AvgAggregate, ''AvgAggregate''),
     (K_IntegerMaxAggregate, ''IntegerMaxAggregate''), (K_IntegerMinAggregate, ''IntegerMinAggregate''),
     (K_IntegerSumAggregate, ''IntegerSumAggregate''), (K_RealMaxAggregate, ''RealMaxAggregate''),
     (K_RealMinAggregate, ''RealMinAggregate''), (K_RealSumAggregate, ''RealSumAggregate''),
     (K_DateMinAggregate, ''DateMinAggregate''), (K_DateMaxAggregate, ''DateMaxAggregate''),
     (K_StringMinAggregate, ''StringMinAggregate''), (K_StringMaxAggregate, ''StringMaxAggregate''),
     (K_BooleanVal, ''BooleanVal''), (K_IntegerVal, ''IntegerVal''), (K_RealVal, ''RealVal''),
     (K_DecimalVal, ''DecimalVal''), (K_StringVal, ''StringVal''), (K_DateVal, ''DateVal''),
     (K_TimestampVal, ''TimestampVal'')]"

record abi =
  cpp_sizeof :: "Kind \<Rightarrow> u32"
  cpp_alignof :: "Kind \<Rightarrow> u32"
  cpp_int128_signed :: bool
  cpp_sizeof_map :: u32
  cpp_alignof_map :: u32

text \<open>The value of an enumerator: its position in the list.\<close>

definition kind_index :: "Kind \<Rightarrow> nat" where
  "kind_index k = length (takeWhile (\<lambda>(k', _). k' \<noteq> k) BUILTIN_TYPE_LIST)"

definition IsIntegral :: "Kind \<Rightarrow> bool" where
  "IsIntegral k \<longleftrightarrow> kind_index K_Int8 \<le> kind_index k \<and> kind_index k \<le> kind_index K_UInt128"

definition IsSqlValue :: "Kind \<Rightarrow> bool" where
  "IsSqlValue k \<longleftrightarrow> kind_index K_BooleanVal \<le> kind_index k \<and> kind_index k \<le> kind_index K_TimestampVal"

definition IsSqlAggregateType :: "Kind \<Rightarrow> bool" where
  "IsSqlAggregateType k \<longleftrightarrow>
     kind_index K_CountAggregate \<le> kind_index k \<and> kind_index k \<le> kind_index K_RealSumAggregate"

definition kFloatingPointFlags :: "Kind \<Rightarrow> bool" where
  "kFloatingPointFlags k \<longleftrightarrow> k \<in> {K_Float32, K_Float64}"

text \<open>\<^verbatim>\<open>std::is_signed_v\<close>; whether it holds of \<^verbatim>\<open>__int128\<close> depends on the compiler.\<close>

definition kSignedFlags :: "abi \<Rightarrow> Kind \<Rightarrow> bool" where
  "kSignedFlags A k \<longleftrightarrow>
     k \<in> {K_Int8, K_Int16, K_Int32, K_Int64, K_Float32, K_Float64} \<or> (k = K_Int128 \<and> cpp_int128_signed A)"

definition GetTplName :: "Kind \<Rightarrow> string" where
  "GetTplName k = snd (BUILTIN_TYPE_LIST ! kind_index k)"

section \<open>Types\<close>

datatype Type =
    BuiltinType Kind
  | StringType
  | PointerType Type
  | ArrayType u64 Type
  | MapType Type Type
  | StructType "string option" "(string option \<times> Type) list"
  | FunctionType "(string option \<times> Type) list" Type

type_synonym Field = "string option \<times> Type"

fun IsPointerType :: "Type \<Rightarrow> bool" where
  "IsPointerType (PointerType _) = True"
| "IsPointerType _ = False"

fun IsArrayType :: "Type \<Rightarrow> bool" where
  "IsArrayType (ArrayType _ _) = True"
| "IsArrayType _ = False"

fun IsMapType :: "Type \<Rightarrow> bool" where
  "IsMapType (MapType _ _) = True"
| "IsMapType _ = False"

fun IsStructType :: "Type \<Rightarrow> bool" where
  "IsStructType (StructType _ _) = True"
| "IsStructType _ = False"

fun IsFunctionType :: "Type \<Rightarrow> bool" where
  "IsFunctionType (FunctionType _ _) = True"
| "IsFunctionType _ = False"

fun IsStringType :: "Type \<Rightarrow> bool" where
  "IsStringType StringType = True"
| "IsStringType _ = False"

fun GetPointeeType :: "Type \<Rightarrow> Type option" where
  "GetPointeeType (PointerType b) = Some b"
| "GetPointeeType _ = None"

fun IsSpecificBuiltin :: "Type \<Rightarrow> Kind \<Rightarrow> bool" where
  "IsSpecificBuiltin (BuiltinType k') k = (k' = k)"
| "IsSpecificBuiltin _ k = False"

definition IsNilType :: "Type \<Rightarrow> bool" where
  "IsNilType t = IsSpecificBuiltin t K_Nil"

definition IsBoolType :: "Type \<Rightarrow> bool" where
  "IsBoolType t = IsSpecificBuiltin t K_Bool"

fun IsIntegerType :: "Type \<Rightarrow> bool" where
  "IsIntegerType (BuiltinType k) = IsIntegral k"
| "IsIntegerType _ = False"

fun IsFloatType :: "Type \<Rightarrow> bool" where
  "IsFloatType (BuiltinType k) = kFloatingPointFlags k"
| "IsFloatType _ = False"

fun IsSqlValueType :: "Type \<Rightarrow> bool" where
  "IsSqlValueType (BuiltinType k) = IsSqlValue k"
| "IsSqlValueType _ = False"

fun IsSqlAggregatorType :: "Type \<Rightarrow> bool" where
  "IsSqlAggregatorType (BuiltinType k) = IsSqlAggregateType k"
| "IsSqlAggregatorType _ = False"

definition IsArithmetic :: "Type \<Rightarrow> bool" where
  "IsArithmetic t \<longleftrightarrow> IsIntegerType t \<or> IsFloatType t \<or> IsSpecificBuiltin t K_IntegerVal \<or>
     IsSpecificBuiltin t K_RealVal \<or> IsSpecificBuiltin t K_DecimalVal"

definition HasKnownLength :: "u64 \<Rightarrow> bool" where
  "HasKnownLength len = (len \<noteq> 0)"

fun LookupFieldByName :: "Field list \<Rightarrow> string option \<Rightarrow> Type option" where
  "LookupFieldByName [] name = None"
| "LookupFieldByName (f # fs) name = (if fst f = name then Some (snd f) else LookupFieldByName fs name)"

section \<open>Sizes and struct layout\<close>

record LayoutHelper =
  l_size :: u32
  l_alignment :: u32
  l_offsets :: "u32 list"

text \<open>One turn of the loop of \<^verbatim>\<open>LayoutHelper\<close> for a field of the given size and alignment.\<close>

definition layout_field :: "llvm \<Rightarrow> u32 \<times> u32 \<Rightarrow> LayoutHelper \<Rightarrow> LayoutHelper option" where
  "layout_field L f h = do {
     let (field_size, field_align) = f;
     aligned \<leftarrow> IsAligned L (ucast (l_size h)) (ucast field_align);
     let size = (if \<not> aligned then ucast (AlignTo L (ucast (l_size h)) (ucast field_align)) else l_size h);
     Some \<lparr>l_size = size + field_size, l_alignment = max (l_alignment h) field_align,
           l_offsets = l_offsets h @ [size]\<rparr> }"

definition LayoutHelper_new :: "llvm \<Rightarrow> (u32 \<times> u32) list \<Rightarrow> LayoutHelper option" where
  "LayoutHelper_new L ls = do {
     h \<leftarrow> fold_opt (layout_field L) ls \<lparr>l_size = 0, l_alignment = 0, l_offsets = []\<rparr>;
     let alignment = (if l_alignment h = 0 then 1 else l_alignment h);
     aligned \<leftarrow> IsAligned L (ucast (l_size h)) (ucast alignment);
     let size = (if \<not> aligned then ucast (AlignTo L (ucast (l_size h)) (ucast alignment)) else l_size h);
     Some \<lparr>l_size = size, l_alignment = alignment, l_offsets = l_offsets h\<rparr> }"

text \<open>
  The size and the alignment a type is constructed with. The size of an array is computed with 64 bits and
  stored with 32. Pointers, functions and strings are 8 bytes; a map has the layout of a
  \<^verbatim>\<open>std::unordered_map<int32_t, int32_t>\<close>.
\<close>

fun type_layout :: "llvm \<Rightarrow> abi \<Rightarrow> Type \<Rightarrow> (u32 \<times> u32) option" where
  "type_layout L A (BuiltinType k) = Some (cpp_sizeof A k, cpp_alignof A k)"
| "type_layout L A StringType = Some (8, 8)"
| "type_layout L A (PointerType b) = Some (8, 8)"
| "type_layout L A (ArrayType n t) = do {
     (s, a) \<leftarrow> type_layout L A t;
     Some (if n = 0 then (8, 8) else (ucast (ucast s * n :: u64), a)) }"
| "type_layout L A (MapType k v) = Some (cpp_sizeof_map A, cpp_alignof_map A)"
| "type_layout L A (StructType n fs) = do {
     ls \<leftarrow> those (map (\<lambda>f. type_layout L A (snd f)) fs);
     h \<leftarrow> LayoutHelper_new L ls;
     Some (l_size h, l_alignment h) }"
| "type_layout L A (FunctionType ps r) = Some (8, 8)"

text \<open>The offsets that \<^verbatim>\<open>StructType::Get\<close> stores, and their lookup by the name of the field.\<close>

definition field_offsets :: "llvm \<Rightarrow> abi \<Rightarrow> Field list \<Rightarrow> u32 list option" where
  "field_offsets L A fs = do {
     ls \<leftarrow> those (map (\<lambda>f. type_layout L A (snd f)) fs);
     h \<leftarrow> LayoutHelper_new L ls;
     Some (l_offsets h) }"

fun offset_of :: "Field list \<Rightarrow> u32 list \<Rightarrow> string option \<Rightarrow> u32" where
  "offset_of (f # fs) (offset # offsets) name = (if fst f = name then offset else offset_of fs offsets name)"
| "offset_of _ _ name = 0"

definition GetOffsetOfFieldByName :: "llvm \<Rightarrow> abi \<Rightarrow> Field list \<Rightarrow> string option \<Rightarrow> u32 option" where
  "GetOffsetOfFieldByName L A fs name = do { offsets \<leftarrow> field_offsets L A fs; Some (offset_of fs offsets name) }"

section \<open>The context\<close>

text \<open>The builtin types by name, with the three aliases.\<close>

definition LookupBuiltinType :: "string \<Rightarrow> Type option" where
  "LookupBuiltinType name =
     (if name = ''int'' then Some (BuiltinType K_Int32)
      else if name = ''float'' then Some (BuiltinType K_Float32)
      else if name = ''void'' then Some (BuiltinType K_Nil)
      else case find (\<lambda>(k, n). n = name) BUILTIN_TYPE_LIST of
             Some (k, _) \<Rightarrow> Some (BuiltinType k)
           | None \<Rightarrow> None)"

text \<open>The names of the named structs made so far, and the counter for fresh suffixes.\<close>

record Context =
  named_struct_types :: "string list"
  named_struct_types_unique_id :: u64

text \<open>
  The search for a name that is not taken. The loop of the source has no bound; here it makes as many tries as
  there are names, and one more, which is enough (\<open>StructType_Get_named_fresh\<close>).
\<close>

fun unique_name_loop :: "nat \<Rightarrow> string \<Rightarrow> Context \<Rightarrow> (string \<times> Context) option" where
  "unique_name_loop 0 name c = None"
| "unique_name_loop (Suc n) name c =
     (let temp = name @ ''_'' @ to_string (unat (named_struct_types_unique_id c));
          c = c\<lparr>named_struct_types_unique_id := named_struct_types_unique_id c + 1\<rparr>
      in if temp \<in> set (named_struct_types c) then unique_name_loop n name c
         else Some (temp, c\<lparr>named_struct_types := temp # named_struct_types c\<rparr>))"

definition StructType_Get_named :: "string \<Rightarrow> Field list \<Rightarrow> Context \<Rightarrow> (Type \<times> Context) option" where
  "StructType_Get_named name fs c =
     (if name \<notin> set (named_struct_types c)
      then Some (StructType (Some name) fs, c\<lparr>named_struct_types := name # named_struct_types c\<rparr>)
      else do {
        (name, c) \<leftarrow> unique_name_loop (length (named_struct_types c) + 1) name c;
        Some (StructType (Some name) fs, c) })"

definition StructType_Get :: "Field list \<Rightarrow> Type" where
  "StructType_Get fs =
     StructType None (if fs = [] then [(Some ''__field$0$'', BuiltinType K_Int8)] else fs)"

section \<open>Correctness of struct layout\<close>

text \<open>
  The fields are placed from a first free position on: each at the least multiple of its alignment that is not
  before the end of the field before it.
\<close>

fun placed_fields :: "nat \<Rightarrow> (u32 \<times> u32) list \<Rightarrow> u32 list \<Rightarrow> nat \<Rightarrow> bool" where
  "placed_fields free [] [] fin = (fin = free)"
| "placed_fields free ((sz, al) # fs) (off # offs) fin =
     (free \<le> unat off \<and> unat off < free + unat al \<and> unat al dvd unat off \<and>
      placed_fields (unat off + unat sz) fs offs fin)"
| "placed_fields free _ _ fin = False"

text \<open>The least multiple that \<^verbatim>\<open>IsAligned\<close> and \<^verbatim>\<open>AlignTo\<close> compute together.\<close>

definition align_size :: "llvm \<Rightarrow> u32 \<Rightarrow> u32 \<Rightarrow> u32 option" where
  "align_size L sz align = do {
     aligned \<leftarrow> IsAligned L (ucast sz) (ucast align);
     Some (if \<not> aligned then ucast (AlignTo L (ucast sz) (ucast align)) else sz) }"

lemma unat_ucast_64 [simp]: "unat (ucast w :: u64) = unat w" for w :: u32
proof -
  have "unat w < 2 ^ 32" using unsigned_less [of w] by simp
  then show ?thesis by (simp add: unsigned_ucast_eq take_bit_nat_eq_self_iff)
qed

lemma unat_ucast_32: "unat w < 2 ^ 32 \<Longrightarrow> unat (ucast w :: u32) = unat w" for w :: u64
  by (simp add: unsigned_ucast_eq take_bit_nat_eq_self_iff)

lemma IsAligned_iff:
  assumes "llvm_pow2_ok L" and "k < 64"
  shows "IsAligned L v (2 ^ k) = Some (2 ^ k dvd unat v)"
proof -
  have "(v AND (2 ^ k - 1) = 0) \<longleftrightarrow> take_bit k v = 0"
    by (simp add: mask_eq_exp_minus_1 [symmetric] take_bit_eq_mask)
  also have "\<dots> \<longleftrightarrow> take_bit k (unat v) = 0" by (simp only: unsigned_take_bit_eq [symmetric] unat_eq_0)
  also have "\<dots> \<longleftrightarrow> 2 ^ k dvd unat v" by (simp only: take_bit_eq_mod dvd_eq_mod_eq_0)
  finally show ?thesis using assms by (auto simp: IsAligned_def checked llvm_pow2_ok_def)
qed

lemma align_size_least:
  assumes L: "llvm_pow2_ok L" "llvm_align_ok L" and al: "unat align = 2 ^ k" and b: "unat sz + unat align < 2 ^ 32"
  shows "\<exists>r. align_size L sz align = Some r \<and> unat sz \<le> unat r \<and> unat r < unat sz + unat align \<and> unat align dvd unat r"
proof -
  have "(2::nat) ^ k < 2 ^ 32" using b al by linarith
  then have k: "k < 32" by (rule power_less_imp_less_exp [rotated]) simp
  have ua: "ucast align = (2 ^ k :: u64)"
    using al k by (intro word_unat_eq_iff [THEN iffD2]) (simp add: unat_two_power)
  have al': "IsAligned L (ucast sz) (ucast align) = Some (2 ^ k dvd unat sz)"
    using IsAligned_iff [OF L(1), of k "ucast sz"] k ua by simp
  show ?thesis
  proof (cases "2 ^ k dvd unat sz")
    case True
    then show ?thesis using al' al by (simp add: align_size_def)
  next
    case False
    let ?r = "AlignTo L (ucast sz) (ucast align)"
    have "unat ?r = (unat sz + (2 ^ k - 1)) div 2 ^ k * 2 ^ k"
      using L(2) [unfolded llvm_align_ok_def, rule_format, of "2 ^ k" "ucast sz"] b al ua k
      by (simp add: AlignTo_def unat_two_power)
    note r = round_up_least [OF _ this]
    have "unat (ucast ?r :: u32) = unat ?r"
      using r(2) b al by (intro unat_ucast_32) simp
    with r al al' False show ?thesis by (auto simp: align_size_def)
  qed
qed

definition layout_bound :: "(u32 \<times> u32) list \<Rightarrow> nat" where
  "layout_bound fs = sum_list (map (\<lambda>(sz, al). unat sz + unat al) fs)"

lemma layout_field_align_size:
  "layout_field L (sz, al) h = map_option (\<lambda>off. \<lparr>l_size = off + sz, l_alignment = max (l_alignment h) al,
     l_offsets = l_offsets h @ [off]\<rparr>) (align_size L (l_size h) al)"
  by (cases "IsAligned L (ucast (l_size h)) (ucast al)") (simp_all add: layout_field_def align_size_def Let_def)

lemma layout_fields:
  assumes L: "llvm_pow2_ok L" "llvm_align_ok L" and al: "\<forall>(sz, al) \<in> set fs. \<exists>k. unat al = 2 ^ k"
    and b: "unat (l_size h) + layout_bound fs < 2 ^ 32"
  shows "\<exists>h' offs. fold_opt (layout_field L) fs h = Some h' \<and> l_offsets h' = l_offsets h @ offs \<and>
    placed_fields (unat (l_size h)) fs offs (unat (l_size h')) \<and> unat (l_size h') \<le> unat (l_size h) + layout_bound fs \<and>
    l_alignment h' = fold max (map snd fs) (l_alignment h)"
  using al b
proof (induction fs arbitrary: h)
  case Nil
  then show ?case by (simp add: layout_bound_def)
next
  case (Cons f fs)
  obtain sz al where f: "f = (sz, al)" by (cases f)
  from Cons.prems f obtain k where k: "unat al = 2 ^ k" by auto
  have b: "unat (l_size h) + unat sz + unat al + layout_bound fs < 2 ^ 32"
    using Cons.prems(2) f by (simp add: layout_bound_def)
  obtain off where off: "align_size L (l_size h) al = Some off" "unat (l_size h) \<le> unat off"
    "unat off < unat (l_size h) + unat al" "unat al dvd unat off"
    using align_size_least [OF L k, of "l_size h"] b by auto
  define h1 where "h1 = \<lparr>l_size = off + sz, l_alignment = max (l_alignment h) al, l_offsets = l_offsets h @ [off]\<rparr>"
  have sz: "unat (l_size h1) = unat off + unat sz"
    using off(3) b by (simp add: h1_def unat_add_lem [THEN iffD1])
  have "unat (l_size h1) + layout_bound fs < 2 ^ 32" using sz off(3) b by linarith
  from Cons.IH [OF _ this] Cons.prems(1) obtain h' offs where h': "fold_opt (layout_field L) fs h1 = Some h'"
    "l_offsets h' = l_offsets h1 @ offs" "placed_fields (unat (l_size h1)) fs offs (unat (l_size h'))"
    "unat (l_size h') \<le> unat (l_size h1) + layout_bound fs" "l_alignment h' = fold max (map snd fs) (l_alignment h1)"
    by auto
  have "fold_opt (layout_field L) (f # fs) h = Some h'"
    using h'(1) off(1) by (simp add: f layout_field_align_size h1_def)
  moreover have "unat (l_size h') \<le> unat (l_size h) + layout_bound (f # fs)"
    using h'(4) sz off(3) by (simp add: f layout_bound_def)
  ultimately show ?case
    using h' off sz by (intro exI [of _ h'] exI [of _ "off # offs"]) (simp add: f h1_def max.commute)
qed

lemma fold_max_word: "fold max xs a \<in> insert a (set xs) \<and> (\<forall>x \<in> insert a (set xs). x \<le> fold max xs a)"
  for a :: "'a :: linorder"
proof (induction xs arbitrary: a)
  case (Cons x xs)
  show ?case using Cons.IH [of "max x a"] by (auto simp: max_def split: if_splits)
qed auto

lemma two_power_dvd: "(2::nat) ^ i \<le> 2 ^ j \<Longrightarrow> (2::nat) ^ i dvd 2 ^ j"
  by (simp add: le_imp_power_dvd)

text \<open>The alignment of a struct is the largest of its fields, or 1, and is a multiple of each of them.\<close>

lemma struct_alignment:
  assumes "\<forall>(sz, al) \<in> set fs. \<exists>k. unat al = 2 ^ k"
    and "a = (if fold max (map snd fs) 0 = 0 then 1 else fold max (map snd fs) (0::u32))"
  shows "(\<exists>k. unat a = 2 ^ k) \<and> unat a \<le> layout_bound fs + 1 \<and> (\<forall>(sz, al) \<in> set fs. unat al dvd unat a)"
proof (cases "fs = []")
  case True
  then show ?thesis using assms(2) by (auto intro: exI [of _ 0])
next
  case False
  let ?m = "fold max (map snd fs) (0::u32)"
  have pow: "\<exists>k. unat x = 2 ^ k" if "x \<in> set (map snd fs)" for x using that assms(1) by auto
  then have nz: "x \<noteq> 0" if "x \<in> set (map snd fs)" for x using that by (metis power_not_zero unat_0 zero_neq_numeral)
  note m = fold_max_word [of "map snd fs" "0::u32"]
  from False nz m have "?m \<noteq> 0" by (metis insertE insertI2 list.map_disc_iff list.set_sel(1) word_coorder.extremum_uniqueI)
  with m have a: "a \<in> set (map snd fs)" "\<forall>x \<in> set (map snd fs). x \<le> a" using assms(2) by auto
  from pow [OF a(1)] obtain k where k: "unat a = 2 ^ k" by blast
  have "unat x dvd unat a" if "x \<in> set (map snd fs)" for x
    using pow [OF that] k a(2) that by (metis two_power_dvd word_le_nat_alt)
  moreover from a(1) obtain sz where "(sz, a) \<in> set fs" by auto
  then have "unat sz + unat a \<in> set (map (\<lambda>(sz, al). unat sz + unat al) fs)" by force
  then have "unat sz + unat a \<le> layout_bound fs" unfolding layout_bound_def by (rule member_le_sum_list) simp
  ultimately show ?thesis using k by force
qed

text \<open>
  C36. Struct layout. For fields whose alignments are powers of two, and whose sizes and alignments do not add up to
  more than 32 bits can hold, \<^verbatim>\<open>LayoutHelper\<close> puts every field at the least multiple of its alignment after the
  field before it, so that fields do not overlap; the size of the struct is the least multiple of its alignment that
  holds all fields, and its alignment is a multiple of the alignment of every field.
\<close>

theorem LayoutHelper_layout:
  assumes "llvm_ok L" and "llvm_align_ok L" and al: "\<forall>(sz, al) \<in> set fs. \<exists>k. unat al = 2 ^ k"
    and b: "2 * layout_bound fs + 1 < 2 ^ 32"
  shows "\<exists>h fin. LayoutHelper_new L fs = Some h \<and> placed_fields 0 fs (l_offsets h) fin \<and>
    fin \<le> unat (l_size h) \<and> unat (l_size h) < fin + unat (l_alignment h) \<and> unat (l_alignment h) dvd unat (l_size h) \<and>
    (\<forall>(sz, al) \<in> set fs. unat al dvd unat (l_alignment h))"
proof -
  note L = llvm_okD(3) [OF assms(1)] assms(2)
  obtain h where h: "fold_opt (layout_field L) fs \<lparr>l_size = 0, l_alignment = 0, l_offsets = []\<rparr> = Some h"
    "placed_fields 0 fs (l_offsets h) (unat (l_size h))" "unat (l_size h) \<le> layout_bound fs"
    "l_alignment h = fold max (map snd fs) 0"
    using layout_fields [OF L al, of "\<lparr>l_size = 0, l_alignment = 0, l_offsets = []\<rparr>"] b by auto
  define a where "a = (if l_alignment h = 0 then 1 else l_alignment h)"
  from struct_alignment [OF al, of a] h(4) have a: "\<exists>k. unat a = 2 ^ k" "unat a \<le> layout_bound fs + 1"
    "\<forall>(sz, al) \<in> set fs. unat al dvd unat a" by (auto simp: a_def)
  then obtain k where k: "unat a = 2 ^ k" by blast
  obtain r where r: "align_size L (l_size h) a = Some r" "unat (l_size h) \<le> unat r"
    "unat r < unat (l_size h) + unat a" "unat a dvd unat r"
    using align_size_least [OF L k, of "l_size h"] h(3) a(2) b by auto
  have "LayoutHelper_new L fs = Some \<lparr>l_size = r, l_alignment = a, l_offsets = l_offsets h\<rparr>"
    using r(1) unfolding LayoutHelper_new_def h(1) Let_def Option.bind_lunit a_def [symmetric] align_size_def
    by (cases "IsAligned L (ucast (l_size h)) (ucast a)") simp_all
  with h(2) r a(3) show ?thesis by auto
qed

theorem LayoutHelper_layout_witness:
  "\<exists>h fin. LayoutHelper_new llvm_reference [(1, 1), (8, 8), (4, 4)] = Some h \<and> l_offsets h = [0, 8, 16] \<and> l_size h = 24 \<and>
     placed_fields 0 [(1, 1), (8, 8), (4, 4)] (l_offsets h) fin \<and> unat (l_alignment h) dvd unat (l_size h)"
proof -
  let ?fs = "[(1, 1), (8, 8), (4, 4)] :: (u32 \<times> u32) list"
  have "(\<exists>k. (1::nat) = 2 ^ k) \<and> (\<exists>k. (8::nat) = 2 ^ k) \<and> (\<exists>k. (4::nat) = 2 ^ k)"
    by (intro conjI exI [of _ 0] exI [of _ 3] exI [of _ 2]) simp_all
  then have al: "\<forall>(sz, al) \<in> set ?fs. \<exists>k. unat al = 2 ^ k" by simp
  have b: "2 * layout_bound ?fs + 1 < 2 ^ 32" by (simp add: layout_bound_def)
  have run: "LayoutHelper_new llvm_reference ?fs = Some \<lparr>l_size = 24, l_alignment = 8, l_offsets = [0, 8, 16]\<rparr>"
    by code_simp
  from LayoutHelper_layout [OF llvm_reference_ok llvm_reference_align al b] obtain h fin where
    h: "LayoutHelper_new llvm_reference ?fs = Some h" "placed_fields 0 ?fs (l_offsets h) fin"
    "unat (l_alignment h) dvd unat (l_size h)" by blast
  moreover from h(1) run have "l_offsets h = [0, 8, 16]" "l_size h = 24" by auto
  ultimately show ?thesis by blast
qed

section \<open>Names of structs\<close>

lemma to_string_inj: "to_string n = to_string m \<Longrightarrow> n = m"
proof (induction n arbitrary: m rule: less_induct)
  case (less n)
  have digit: "d = e" if "digit_char d = digit_char e" "d < 10" "e < 10" for d e :: nat
    using arg_cong [OF that(1), of "of_char :: char \<Rightarrow> nat"] that(2,3) by (simp add: digit_char_def)
  have ne: "to_string k \<noteq> []" for k by (subst to_string.simps) simp
  show ?case
  proof (cases "n < 10")
    case True
    then have "to_string m = [digit_char n]" using less.prems by (simp add: to_string.simps [of n])
    then have "m < 10 \<and> digit_char m = digit_char n"
      using ne by (subst (asm) to_string.simps) (auto split: if_splits simp: append_eq_Cons_conv)
    then show ?thesis using digit True by auto
  next
    case False
    then have "to_string m = to_string (n div 10) @ [digit_char (n mod 10)]" using less.prems by (simp add: to_string.simps [of n])
    moreover have "\<not> m < 10"
    proof
      assume "m < 10"
      then have "to_string m = [digit_char m]" by (simp add: to_string.simps)
      then show False using calculation ne by simp
    qed
    ultimately have "to_string (n div 10) = to_string (m div 10)" "digit_char (n mod 10) = digit_char (m mod 10)"
      by (auto simp: to_string.simps [of m])
    then have "n div 10 = m div 10" "n mod 10 = m mod 10" using less.IH False digit by auto
    then show ?thesis by (metis div_mult_mod_eq)
  qed
qed

text \<open>The name that the loop tries in its turn number \<open>i\<close>.\<close>

definition candidate :: "string \<Rightarrow> u64 \<Rightarrow> nat \<Rightarrow> string" where
  "candidate name unique_id i = name @ ''_'' @ to_string (unat (unique_id + of_nat i))"

lemma unique_name_loop_Some:
  assumes "unique_name_loop n name c = Some (temp, c')"
  shows "temp \<notin> set (named_struct_types c) \<and> named_struct_types c' = temp # named_struct_types c"
  using assms by (induction n name c rule: unique_name_loop.induct) (auto simp: Let_def split: if_splits)

lemma unique_name_loop_None:
  assumes "unique_name_loop n name c = None" and "i < n"
  shows "candidate name (named_struct_types_unique_id c) i \<in> set (named_struct_types c)"
  using assms
proof (induction n arbitrary: c i)
  case (Suc n)
  let ?c = "c\<lparr>named_struct_types_unique_id := named_struct_types_unique_id c + 1\<rparr>"
  have "candidate name (named_struct_types_unique_id c) 0 \<in> set (named_struct_types c)" "unique_name_loop n name ?c = None"
    using Suc.prems(1) by (auto simp: candidate_def Let_def split: if_splits)
  with Suc.IH [of ?c "i - 1"] Suc.prems(2) show ?case
    by (cases i) (auto simp: candidate_def add.assoc)
qed auto

lemma candidate_inj:
  assumes "n \<le> 2 ^ 64"
  shows "inj_on (candidate name unique_id) {..<n}"
proof (rule inj_onI)
  fix i j
  assume ij: "i \<in> {..<n}" "j \<in> {..<n}" and "candidate name unique_id i = candidate name unique_id j"
  then have "unat (unique_id + of_nat i) = unat (unique_id + of_nat j)"
    by (intro to_string_inj) (simp add: candidate_def)
  then have "unique_id + of_nat i = unique_id + of_nat j" by (simp only: word_unat_eq_iff)
  then have "(of_nat i :: u64) = of_nat j" by simp
  then have "take_bit 64 i = take_bit 64 j" by (simp add: word_of_nat_eq_iff)
  then show "i = j" using ij assms by (simp add: take_bit_nat_eq_self)
qed

text \<open>
  \<^verbatim>\<open>StructType::Get\<close> ends and gives the struct a name that no struct had: the requested name when it is free.
  The 64-bit counter may wrap around; it is enough that fewer than \<open>2 ^ 64\<close> structs have names.
\<close>

theorem StructType_Get_named_fresh:
  assumes "length (named_struct_types c) < 2 ^ 64"
  shows "\<exists>n c'. StructType_Get_named name fs c = Some (StructType (Some n) fs, c') \<and>
    n \<notin> set (named_struct_types c) \<and> named_struct_types c' = n # named_struct_types c \<and>
    (name \<notin> set (named_struct_types c) \<longrightarrow> n = name)"
proof (cases "name \<in> set (named_struct_types c)")
  case False
  then show ?thesis by (simp add: StructType_Get_named_def)
next
  case True
  let ?k = "length (named_struct_types c) + 1" and ?cand = "candidate name (named_struct_types_unique_id c)"
  have "unique_name_loop ?k name c \<noteq> None"
  proof
    assume "unique_name_loop ?k name c = None"
    then have "?cand ` {..<?k} \<subseteq> set (named_struct_types c)"
      using unique_name_loop_None by blast
    then have "card (?cand ` {..<?k}) \<le> card (set (named_struct_types c))" by (intro card_mono) auto
    also have "\<dots> \<le> length (named_struct_types c)" by (rule card_length)
    also have "card (?cand ` {..<?k}) = ?k" using assms candidate_inj [of ?k] by (simp add: card_image)
    finally show False by simp
  qed
  then obtain n c' where "unique_name_loop ?k name c = Some (n, c')" by auto
  with unique_name_loop_Some [OF this] True show ?thesis
    by (auto simp: StructType_Get_named_def simp del: unique_name_loop.simps)
qed

theorem StructType_Get_named_fresh_witness:
  "\<exists>n c'. StructType_Get_named ''Row'' [] \<lparr>named_struct_types = [''Row'', ''Row_0''], named_struct_types_unique_id = 0\<rparr> =
      Some (StructType (Some n) [], c') \<and> n = ''Row_1'' \<and> n \<notin> {''Row'', ''Row_0''}"
proof -
  let ?c = "\<lparr>named_struct_types = [''Row'', ''Row_0''], named_struct_types_unique_id = 0\<rparr>"
  have "length (named_struct_types ?c) < 2 ^ 64" by simp
  from StructType_Get_named_fresh [OF this, of "''Row''" "[]"] obtain n c'
    where n: "StructType_Get_named ''Row'' [] ?c = Some (StructType (Some n) [], c')" "n \<notin> {''Row'', ''Row_0''}" by auto
  have "map_option fst (StructType_Get_named ''Row'' [] ?c) = Some (StructType (Some ''Row_1'') [])" by code_simp
  with n show ?thesis by auto
qed

end
