(* ===== verification/Sema.thy ===== *)
theory Sema
  imports Types
begin

text \<open>
  The state and the checks of semantic analysis (\<^verbatim>\<open>sema/sema.h\<close>, \<^verbatim>\<open>sema/scope.h\<close>,
  \<^verbatim>\<open>sema/sema_checking.cpp\<close>, the representability of literals from \<^verbatim>\<open>ast/ast.cpp\<close>).

  Semantic analysis annotates the tree in place. Here it maps the tree of the parser to a typed tree: the type of
  a node is \<open>None\<close> while the source has a null pointer, and a subtree that the analysis leaves without a visit is
  kept as \<open>UnvisitedExpr\<close>, \<open>UnvisitedStmt\<close> or \<open>UnvisitedDecl\<close>.

  The empty \<^verbatim>\<open>Identifier\<close> of an unnamed parameter is \<open>None\<close>; the hash tables treat it as one more key.
\<close>

section \<open>The typed tree\<close>

datatype CastKind =
    IntToSqlInt | IntToSqlDecimal | SqlBoolToBool | BoolToSqlBool | IntegralCast | BitCast
  | FloatToSqlReal | SqlIntToSqlReal

datatype TExpr =
    UnvisitedExpr Expression
  | TBinaryOp "Type option" SourcePosition TokenType TExpr TExpr
  | TCall "Type option" TExpr "TExpr list" CallKind
  | TComparison "Type option" SourcePosition TokenType TExpr TExpr
  | TFunctionLiteral "Type option" TExpr TStmt
  | TIdentifier "Type option" SourcePosition string
  | TImplicitCast Type SourcePosition CastKind TExpr
  | TIndex "Type option" SourcePosition TExpr TExpr
  | TLiteral "Type option" SourcePosition Literal
  | TMember "Type option" SourcePosition TExpr Expression
  | TUnaryOp "Type option" SourcePosition TokenType TExpr
  | TArrayTypeRepr "Type option" SourcePosition "Expression option" "TExpr option"
  | TFunctionTypeRepr "Type option" SourcePosition "TDecl list" "TExpr option"
  | TMapTypeRepr "Type option" SourcePosition TExpr TExpr
  | TPointerTypeRepr "Type option" SourcePosition TExpr
  | TStructTypeRepr "Type option" SourcePosition "TDecl list"
and TStmt =
    UnvisitedStmt Statement
  | TAssignment SourcePosition TExpr TExpr
  | TBlock SourcePosition SourcePosition "TStmt list"
  | TDeclaration TDecl
  | TExpression TExpr
  | TFor SourcePosition "TStmt option" "TExpr option" "TStmt option" TStmt
  | TIf SourcePosition TExpr TStmt "TStmt option"
  | TReturn SourcePosition "TExpr option"
and TDecl =
    UnvisitedDecl Declaration
  | TField SourcePosition "string option" TExpr
  | TFunction SourcePosition string TExpr
  | TStruct SourcePosition string TExpr
  | TVariable SourcePosition string "TExpr option" "TExpr option"

fun GetType :: "TExpr \<Rightarrow> Type option" where
  "GetType (UnvisitedExpr _) = None"
| "GetType (TBinaryOp t _ _ _ _) = t"
| "GetType (TCall t _ _ _) = t"
| "GetType (TComparison t _ _ _ _) = t"
| "GetType (TFunctionLiteral t _ _) = t"
| "GetType (TIdentifier t _ _) = t"
| "GetType (TImplicitCast t _ _ _) = Some t"
| "GetType (TIndex t _ _ _) = t"
| "GetType (TLiteral t _ _) = t"
| "GetType (TMember t _ _ _) = t"
| "GetType (TUnaryOp t _ _ _) = t"
| "GetType (TArrayTypeRepr t _ _ _) = t"
| "GetType (TFunctionTypeRepr t _ _ _) = t"
| "GetType (TMapTypeRepr t _ _ _) = t"
| "GetType (TPointerTypeRepr t _ _) = t"
| "GetType (TStructTypeRepr t _ _) = t"

fun texpr_pos :: "TExpr \<Rightarrow> SourcePosition" where
  "texpr_pos (UnvisitedExpr e) = expr_pos e"
| "texpr_pos (TBinaryOp _ p _ _ _) = p"
| "texpr_pos (TCall _ f _ _) = texpr_pos f"
| "texpr_pos (TComparison _ p _ _ _) = p"
| "texpr_pos (TFunctionLiteral _ r _) = texpr_pos r"
| "texpr_pos (TIdentifier _ p _) = p"
| "texpr_pos (TImplicitCast _ p _ _) = p"
| "texpr_pos (TIndex _ p _ _) = p"
| "texpr_pos (TLiteral _ p _) = p"
| "texpr_pos (TMember _ p _ _) = p"
| "texpr_pos (TUnaryOp _ p _ _) = p"
| "texpr_pos (TArrayTypeRepr _ p _ _) = p"
| "texpr_pos (TFunctionTypeRepr _ p _ _) = p"
| "texpr_pos (TMapTypeRepr _ p _ _) = p"
| "texpr_pos (TPointerTypeRepr _ p _) = p"
| "texpr_pos (TStructTypeRepr _ p _) = p"

text \<open>\<^verbatim>\<open>GetFuncName\<close> casts the callee to an identifier; any other callee fails the cast.\<close>

fun GetFuncName :: "TExpr \<Rightarrow> string option" where
  "GetFuncName (TIdentifier _ _ n) = Some n"
| "GetFuncName (UnvisitedExpr (IdentifierExpression _ n)) = Some n"
| "GetFuncName _ = None"

section \<open>Errors, scopes and the state\<close>

datatype SemaMessage =
    kDuplicateArgName "string option" string
  | kDuplicateStructFieldName "string option" string
  | kInvalidAssignment Type Type
  | kInvalidOperation TokenType Type
  | kVariableRedeclared string
  | kUndefinedVariable string
  | kInvalidBuiltinFunction string
  | kNonFunction
  | kMismatchedCallArgs string nat nat
  | kIncorrectCallArgType string Type nat "Type option"
  | kIncorrectCallArgType2 string string nat "Type option"
  | kNonBoolIfCondition
  | kNonBoolForCondition
  | kNonIntegerArrayLength
  | kNegativeArrayLength
  | kReturnOutsideFunction
  | kUseOfUntypedNil
  | kIllegalTypesForBinary TokenType "Type option" "Type option"
  | kMismatchedTypesToBinary "Type option" "Type option" TokenType
  | kMismatchedReturnType Type Type
  | kExpectedIdentifierForMember
  | kMemberObjectNotComposite Type
  | kFieldObjectDoesNotExist string Type
  | kInvalidIndexOperation Type
  | kNonIntegerArrayIndexValue
  | kNegativeArrayIndexValue int
  | kOutOfBoundsArrayIndexValue int u64
  | kMissingReturn
  | kBadArgToPtrCast "Type option" nat
  | kBadArgToIntCast
  | kBadArgToIntCast1 string
  | kBadArgToIntCast2 Type
  | kBadHashArg "Type option"
  | kNotASQLAggregate "Type option"

type_synonym Scope = "(string option \<times> Type) list"

text \<open>The declaration being checked: only whether it is a struct declaration, and its name, is used.\<close>

datatype DeclContext = InStruct string | InOther

record Sema =
  sm_context :: Context
  sm_errors :: "(SourcePosition \<times> SemaMessage) list"
  sm_scopes :: "Scope list"
  curr_func :: "Type option"
  curr_decl_context :: "DeclContext option"

type_synonym 'a sema = "Sema \<Rightarrow> ('a \<times> Sema) option"

definition ReportError :: "SourcePosition \<Rightarrow> SemaMessage \<Rightarrow> Sema \<Rightarrow> Sema" where
  "ReportError pos m s = s\<lparr>sm_errors := sm_errors s @ [(pos, m)]\<rparr>"

definition LookupLocal :: "Scope \<Rightarrow> string option \<Rightarrow> Type option" where
  "LookupLocal scope name = map_of scope name"

fun Lookup :: "Scope list \<Rightarrow> string option \<Rightarrow> Type option" where
  "Lookup [] name = None"
| "Lookup (scope # outer) name =
     (case LookupLocal scope name of Some t \<Rightarrow> Some t | None \<Rightarrow> Lookup outer name)"

text \<open>\<^verbatim>\<open>scope_->Declare\<close> on the innermost scope; a null \<^verbatim>\<open>scope_\<close> is \<open>None\<close>.\<close>

definition Declare :: "string option \<Rightarrow> Type \<Rightarrow> Scope list \<Rightarrow> (bool \<times> Scope list) option" where
  "Declare decl_name ty scopes =
     (case scopes of
        [] \<Rightarrow> None
      | scope # outer \<Rightarrow>
          (case Lookup scopes decl_name of
             Some _ \<Rightarrow> Some (False, scopes)
           | None \<Rightarrow> Some (True, ((decl_name, ty) # scope) # outer)))"

definition declare_in_scope :: "string option \<Rightarrow> Type \<Rightarrow> Sema \<Rightarrow> Sema option" where
  "declare_in_scope name ty s = do {
     (_, scopes) \<leftarrow> Declare name ty (sm_scopes s);
     Some (s\<lparr>sm_scopes := scopes\<rparr>) }"

definition EnterScope :: "Sema \<Rightarrow> Sema" where
  "EnterScope s = s\<lparr>sm_scopes := [] # sm_scopes s\<rparr>"

definition ExitScope :: "Sema \<Rightarrow> Sema option" where
  "ExitScope s = (case sm_scopes s of [] \<Rightarrow> None | _ # outer \<Rightarrow> Some (s\<lparr>sm_scopes := outer\<rparr>))"

section \<open>Representability of literals\<close>

fun bit_length :: "nat \<Rightarrow> nat" where
  "bit_length n = (if n = 0 then 0 else Suc (bit_length (n div 2)))"

declare bit_length.simps [simp del]

text \<open>
  The value of a floating-point literal: a quotient of naturals, rounded to the nearest number
  \<open>m * 2 ^ e\<close> with 53 significant bits, ties to even.
\<close>

definition literal_ratio :: "string \<Rightarrow> nat \<times> nat" where
  "literal_ratio l =
     (let whole = takeWhile (\<lambda>c. c \<noteq> CHR ''.'') l; frac = drop (length whole + 1) l
      in (fold (\<lambda>c n. 10 * n + (of_char c - 48)) (whole @ frac) 0, 10 ^ length frac))"

definition FloatVal :: "string \<Rightarrow> nat \<times> int" where
  "FloatVal l =
     (let (n, d) = literal_ratio l;
          scale = (\<lambda>e. (n * 2 ^ nat (- e), d * 2 ^ nat e));
          e = int (bit_length n) - int (bit_length d) - 53;
          e = (case scale e of (n', d') \<Rightarrow> if n' div d' \<ge> 2 ^ 53 then e + 1 else e);
          (n', d') = scale e;
          m = n' div d' + (if 2 * (n' mod d') > d' \<or> (2 * (n' mod d') = d' \<and> odd (n' div d')) then 1 else 0)
      in if n = 0 then (0, 0) else (m, e))"

text \<open>\<open>a * 2 ^ e \<le> b * 2 ^ f\<close>\<close>

definition dyadic_le :: "nat \<times> int \<Rightarrow> nat \<times> int \<Rightarrow> bool" where
  "dyadic_le x y = (case (x, y) of ((a, e), (b, f)) \<Rightarrow> a * 2 ^ nat (e - f) \<le> b * 2 ^ nat (f - e))"

text \<open>
  \<^verbatim>\<open>FLT_MIN <= val && val <= FLT_MAX && static_cast<double>(static_cast<float>(val)) == val\<close>: in the range of
  normal floats the conversion is exact when 24 significant bits suffice.
\<close>

definition fits_float32 :: "string \<Rightarrow> bool" where
  "fits_float32 l =
     (let (m, e) = FloatVal l
      in dyadic_le (1, -126) (m, e) \<and> dyadic_le (m, e) (2 ^ 24 - 1, 104) \<and>
         m mod 2 ^ (bit_length m - 24) = 0)"

definition IsRepresentable :: "Literal \<Rightarrow> Type \<Rightarrow> bool option" where
  "IsRepresentable l type =
     (if IsIntegerType type
      then (case (l, type) of
              (IntLiteral val, BuiltinType k) \<Rightarrow>
                (case k of
                   K_Int8 \<Rightarrow> Some (- (2 ^ 7) \<le> val \<and> val \<le> 2 ^ 7 - 1)
                 | K_Int16 \<Rightarrow> Some (- (2 ^ 15) \<le> val \<and> val \<le> 2 ^ 15 - 1)
                 | K_Int32 \<Rightarrow> Some (- (2 ^ 31) \<le> val \<and> val \<le> 2 ^ 31 - 1)
                 | K_Int64 \<Rightarrow> Some True
                 | K_UInt8 \<Rightarrow> Some (0 \<le> val \<and> val \<le> 2 ^ 8 - 1)
                 | K_UInt16 \<Rightarrow> Some (0 \<le> val \<and> val \<le> 2 ^ 16 - 1)
                 | K_UInt32 \<Rightarrow> Some (0 \<le> val \<and> val \<le> 2 ^ 32 - 1)
                 | K_UInt64 \<Rightarrow> Some (0 \<le> val)
                 | _ \<Rightarrow> None)
            | _ \<Rightarrow> Some False)
      else if IsFloatType type
      then (case l of
              FloatLiteral val \<Rightarrow> Some (IsSpecificBuiltin type K_Float32 \<longrightarrow> fits_float32 val)
            | _ \<Rightarrow> Some False)
      else Some ((IsStringType type \<and> (case l of StringLiteral _ \<Rightarrow> True | _ \<Rightarrow> False)) \<or>
                 (IsBoolType type \<and> l \<in> {BoolLiteral True, BoolLiteral False}) \<or>
                 (IsPointerType type \<and> l = NilLiteral)))"

section \<open>Checks\<close>

definition ImplCastExprToType :: "TExpr \<Rightarrow> Type \<Rightarrow> CastKind \<Rightarrow> TExpr" where
  "ImplCastExprToType expr target_type cast_kind = TImplicitCast target_type (texpr_pos expr) cast_kind expr"

text \<open>
  Whether the argument is an array pointer that converts to an array of unknown length:
  \<^verbatim>\<open>*[N]Type\<close> to \<^verbatim>\<open>[*]Type\<close>.
\<close>

fun array_decay :: "Type \<Rightarrow> Type \<Rightarrow> bool" where
  "array_decay (ArrayType n t) (PointerType (ArrayType m t')) = (\<not> HasKnownLength n \<and> HasKnownLength m \<and> t = t')"
| "array_decay _ _ = False"

text \<open>The check of an assignment; the expression is replaced when a conversion is applied.\<close>

definition CheckAssignmentConstraints :: "Type \<Rightarrow> TExpr \<Rightarrow> (bool \<times> TExpr) option" where
  "CheckAssignmentConstraints target_type expr = do {
     ty \<leftarrow> GetType expr;
     if ty = target_type then Some (True, expr)
     else case expr of
       TLiteral _ p l \<Rightarrow> do {
         r \<leftarrow> IsRepresentable l target_type;
         Some (if r then (True, TLiteral (Some target_type) p l) else (False, expr)) }
     | _ \<Rightarrow>
         Some (if array_decay target_type ty then (True, ImplCastExprToType expr target_type BitCast)
               else if IsBoolType target_type \<and> IsSpecificBuiltin ty K_BooleanVal
               then (True, ImplCastExprToType expr target_type SqlBoolToBool)
               else (False, expr)) }"

definition CheckArgCount :: "TExpr \<Rightarrow> nat \<Rightarrow> nat \<Rightarrow> bool sema" where
  "CheckArgCount func num_args expected_arg_count s =
     (if num_args \<noteq> expected_arg_count
      then do {
        name \<leftarrow> GetFuncName func;
        Some (False, ReportError (texpr_pos func) (kMismatchedCallArgs name expected_arg_count num_args) s) }
      else Some (True, s))"

definition CheckArgCountAtLeast :: "TExpr \<Rightarrow> nat \<Rightarrow> nat \<Rightarrow> bool sema" where
  "CheckArgCountAtLeast func num_args expected_arg_count s =
     (if num_args < expected_arg_count
      then do {
        name \<leftarrow> GetFuncName func;
        Some (False, ReportError (texpr_pos func) (kMismatchedCallArgs name expected_arg_count num_args) s) }
      else Some (True, s))"

type_synonym CheckResult = "Type option \<times> TExpr \<times> TExpr"

abbreviation bool_type :: Type where
  "bool_type \<equiv> BuiltinType K_Bool"

text \<open>The operand of a logical operator, cast when it is a SQL boolean.\<close>

definition cast_sql_bool :: "TExpr \<Rightarrow> TExpr option" where
  "cast_sql_bool e = do {
     t \<leftarrow> GetType e;
     Some (if IsSpecificBuiltin t K_BooleanVal then ImplCastExprToType e bool_type SqlBoolToBool else e) }"

definition CheckLogicalOperands :: "TokenType \<Rightarrow> SourcePosition \<Rightarrow> TExpr \<Rightarrow> TExpr \<Rightarrow> CheckResult sema" where
  "CheckLogicalOperands op pos left right s = do {
     left \<leftarrow> cast_sql_bool left;
     right \<leftarrow> cast_sql_bool right;
     lt \<leftarrow> GetType left;
     rt \<leftarrow> GetType right;
     Some (if IsBoolType lt \<and> IsBoolType rt then ((Some bool_type, left, right), s)
           else ((None, left, right), ReportError pos (kMismatchedTypesToBinary (Some lt) (Some rt) op) s)) }"

definition illegal_operands :: "TokenType \<Rightarrow> SourcePosition \<Rightarrow> TExpr \<Rightarrow> TExpr \<Rightarrow> CheckResult sema" where
  "illegal_operands op pos left right s =
     Some ((None, left, right), ReportError pos (kIllegalTypesForBinary op (GetType left) (GetType right)) s)"

definition CheckArithmeticOperands :: "TokenType \<Rightarrow> SourcePosition \<Rightarrow> TExpr \<Rightarrow> TExpr \<Rightarrow> CheckResult sema" where
  "CheckArithmeticOperands op pos left right s = do {
     lt \<leftarrow> GetType left;
     rt \<leftarrow> GetType right;
     if \<not> IsArithmetic lt \<or> \<not> IsArithmetic rt then illegal_operands op pos left right s
     else if lt = rt then Some ((Some lt, left, right), s)
     else do {
       (ok, right) \<leftarrow> CheckAssignmentConstraints lt right;
       if ok then Some ((Some lt, left, right), s)
       else do {
         (ok, left) \<leftarrow> CheckAssignmentConstraints rt left;
         if ok then Some ((Some rt, left, right), s)
         else illegal_operands op pos left right s } } }"

definition CheckComparisonOperands :: "TokenType \<Rightarrow> SourcePosition \<Rightarrow> TExpr \<Rightarrow> TExpr \<Rightarrow> CheckResult sema" where
  "CheckComparisonOperands op pos left right s = do {
     tpl_assert (IsCompareOp op);
     lt \<leftarrow> GetType left;
     rt \<leftarrow> GetType right;
     (ok, left) \<leftarrow> CheckAssignmentConstraints rt left;
     (ok, right) \<leftarrow> (if ok then Some (True, right) else CheckAssignmentConstraints lt right);
     if \<not> ok then illegal_operands op pos left right s
     else do {
       lt \<leftarrow> GetType left;
       tpl_assert (GetType left = GetType right);
       if IsPointerType lt \<and> \<not> IsEqualityOp op then illegal_operands op pos left right s
       else if IsSqlValueType lt then Some ((Some (BuiltinType K_BooleanVal), left, right), s)
       else Some ((Some bool_type, left, right), s) } }"

end
