(* ===== verification/SemaBuiltin.thy ===== *)
theory SemaBuiltin
  imports Sema
begin

text \<open>
  The checks of calls to builtin functions (\<^verbatim>\<open>ast/builtins.h\<close>, \<^verbatim>\<open>sema/sema_builtin.cpp\<close>) once the
  arguments are resolved. The enumerators are grouped by the case of \<^verbatim>\<open>CheckBuiltinCall\<close> that handles
  them. A check gives the type of the call, \<open>None\<close> after an error, and the arguments, into which implicit casts
  may have been inserted. \<^verbatim>\<open>UNREACHABLE\<close> is an undefined execution.

  The template arguments of \<^verbatim>\<open>GenericBuiltinCheck<Ret(Args...)>\<close> are a return type and a list of
  \<open>ArgSpec\<close>.
\<close>

section \<open>The builtin functions\<close>

datatype SqlConversion =
    BoolToSql | IntToSql | FloatToSql | DateToSql | StringToSql | SqlToBool | ConvertBoolToInteger |
    ConvertIntegerToReal | ConvertDateToTimestamp | ConvertStringToBool | ConvertStringToInt |
    ConvertStringToReal | ConvertStringToDate | ConvertStringToTime

datatype NullValue =
    IsValNull | InitSqlNull

datatype ExecutionContextCall =
    ExecutionContextGetMemoryPool | ExecutionContextGetTLS

datatype ThreadStateContainerCall =
    ThreadStateContainerReset | ThreadStateContainerGetState | ThreadStateContainerIterate |
    ThreadStateContainerClear

datatype TableIterCall =
    TableIterInit | TableIterAdvance | TableIterGetVPI | TableIterParallel | TableIterClose

datatype VPICall =
    VPIInit | VPIFree | VPIIsFiltered | VPIGetSelectedRowCount | VPIGetVectorProjection | VPIHasNext |
    VPIAdvance | VPISetPosition | VPIMatch | VPIReset | VPIGetBool | VPIGetTinyInt | VPIGetSmallInt |
    VPIGetInt | VPIGetBigInt | VPIGetReal | VPIGetDouble | VPIGetDate | VPIGetString | VPIGetPointer |
    VPISetBool | VPISetTinyInt | VPISetSmallInt | VPISetInt | VPISetBigInt | VPISetReal | VPISetDouble |
    VPISetDate | VPISetString

datatype CompactStorageWriteCall =
    CompactStorageWriteBool | CompactStorageWriteTinyInt | CompactStorageWriteSmallInt |
    CompactStorageWriteInteger | CompactStorageWriteBigInt | CompactStorageWriteReal |
    CompactStorageWriteDouble | CompactStorageWriteDate | CompactStorageWriteTimestamp |
    CompactStorageWriteString

datatype CompactStorageReadCall =
    CompactStorageReadBool | CompactStorageReadTinyInt | CompactStorageReadSmallInt |
    CompactStorageReadInteger | CompactStorageReadBigInt | CompactStorageReadReal |
    CompactStorageReadDouble | CompactStorageReadDate | CompactStorageReadTimestamp |
    CompactStorageReadString

datatype FilterManagerCall =
    FilterManagerInit | FilterManagerInsertFilter | FilterManagerRunFilters | FilterManagerFree

datatype VectorFilterCall =
    VectorFilterEqual | VectorFilterGreaterThan | VectorFilterGreaterThanEqual | VectorFilterLessThan |
    VectorFilterLessThanEqual | VectorFilterNotEqual

datatype AggHashTableCall =
    AggHashTableInit | AggHashTableInsert | AggHashTableLinkEntry | AggHashTableLookup |
    AggHashTableProcessBatch | AggHashTableMovePartitions | AggHashTableParallelPartitionedScan |
    AggHashTableFree

datatype AggHashTableIterCall =
    AggHashTableIterInit | AggHashTableIterHasNext | AggHashTableIterNext | AggHashTableIterGetRow |
    AggHashTableIterClose

datatype AggPartIterCall =
    AggPartIterHasNext | AggPartIterNext | AggPartIterGetRow | AggPartIterGetRowEntry |
    AggPartIterGetHash

datatype AggregatorCall =
    AggInit | AggAdvance | AggMerge | AggReset | AggResult

datatype JoinHashTableCall =
    JoinHashTableInit | JoinHashTableInsert | JoinHashTableBuild | JoinHashTableBuildParallel |
    JoinHashTableLookup | JoinHashTableFree

datatype HashTableEntryCall =
    HashTableEntryGetHash | HashTableEntryGetRow | HashTableEntryGetNext

datatype AnalysisStatsCall =
    AnalysisStatsSetColumnCount | AnalysisStatsSetColumnBits

datatype SorterCall =
    SorterInit | SorterInsert | SorterInsertTopK | SorterInsertTopKFinish | SorterSort |
    SorterSortParallel | SorterSortTopKParallel | SorterFree

datatype SorterIterCall =
    SorterIterInit | SorterIterHasNext | SorterIterNext | SorterIterSkipRows | SorterIterGetRow |
    SorterIterClose

datatype ResultBufferCall =
    ResultBufferAllocOutRow | ResultBufferFinalize

datatype CSVReaderCall =
    CSVReaderInit | CSVReaderAdvance | CSVReaderGetField | CSVReaderGetRecordNumber | CSVReaderClose

datatype MathTrigCall =
    ACos | ASin | ATan | ATan2 | Cos | Cot | Sin | Tan

datatype BitsCall =
    Ctlz | Cttz

datatype Builtin =
    BSqlConversion SqlConversion | BNullValue NullValue | BExecutionContextCall ExecutionContextCall |
    BThreadStateContainerCall ThreadStateContainerCall | BTableIterCall TableIterCall |
    BVPICall VPICall | BCompactStorageWriteCall CompactStorageWriteCall |
    BCompactStorageReadCall CompactStorageReadCall | BFilterManagerCall FilterManagerCall |
    BVectorFilterCall VectorFilterCall | BAggHashTableCall AggHashTableCall |
    BAggHashTableIterCall AggHashTableIterCall | BAggPartIterCall AggPartIterCall |
    BAggregatorCall AggregatorCall | BJoinHashTableCall JoinHashTableCall |
    BHashTableEntryCall HashTableEntryCall | BAnalysisStatsCall AnalysisStatsCall |
    BSorterCall SorterCall | BSorterIterCall SorterIterCall | BResultBufferCall ResultBufferCall |
    BCSVReaderCall CSVReaderCall | BMathTrigCall MathTrigCall | BBitsCall BitsCall | LNot | Like |
    ExtractYear | Concat | Hash | SizeOf | OffsetOf | IntCast | PtrCast

definition BUILTINS_LIST :: "(Builtin \<times> string) list" where
  "BUILTINS_LIST = [
     (BSqlConversion IntToSql, ''intToSql''), (BSqlConversion BoolToSql, ''boolToSql''),
     (BSqlConversion FloatToSql, ''floatToSql''), (BSqlConversion DateToSql, ''dateToSql''),
     (BSqlConversion StringToSql, ''stringToSql''), (BSqlConversion SqlToBool, ''sqlToBool''),
     (BNullValue IsValNull, ''isValNull''), (BNullValue InitSqlNull, ''initSqlNull''),
     (BSqlConversion ConvertBoolToInteger, ''convertBoolToInt''),
     (BSqlConversion ConvertIntegerToReal, ''convertIntToReal''),
     (BSqlConversion ConvertDateToTimestamp, ''convertDateToTime''),
     (BSqlConversion ConvertStringToBool, ''convertStringToBool''),
     (BSqlConversion ConvertStringToInt, ''convertStringToInt''),
     (BSqlConversion ConvertStringToReal, ''convertStringToReal''),
     (BSqlConversion ConvertStringToDate, ''convertStringToDate''),
     (BSqlConversion ConvertStringToTime, ''convertStringToTime''), (LNot, ''lnot''), (Like, ''like''),
     (ExtractYear, ''extractYear''), (Concat, ''concat''),
     (BExecutionContextCall ExecutionContextGetMemoryPool, ''execCtxGetMem''),
     (BExecutionContextCall ExecutionContextGetTLS, ''execCtxGetTLS''),
     (BThreadStateContainerCall ThreadStateContainerReset, ''tlsReset''),
     (BThreadStateContainerCall ThreadStateContainerGetState, ''tlsGetCurrentThreadState''),
     (BThreadStateContainerCall ThreadStateContainerIterate, ''tlsIterate''),
     (BThreadStateContainerCall ThreadStateContainerClear, ''tlsClear''),
     (BTableIterCall TableIterInit, ''tableIterInit''),
     (BTableIterCall TableIterAdvance, ''tableIterAdvance''),
     (BTableIterCall TableIterGetVPI, ''tableIterGetVPI''),
     (BTableIterCall TableIterClose, ''tableIterClose''),
     (BTableIterCall TableIterParallel, ''iterateTableParallel''), (BVPICall VPIInit, ''vpiInit''),
     (BVPICall VPIIsFiltered, ''vpiIsFiltered''),
     (BVPICall VPIGetSelectedRowCount, ''vpiSelectedRowCount''),
     (BVPICall VPIGetVectorProjection, ''vpiGetVectorProjection''),
     (BVPICall VPIHasNext, ''vpiHasNext''), (BVPICall VPIAdvance, ''vpiAdvance''),
     (BVPICall VPISetPosition, ''vpiSetPosition''), (BVPICall VPIMatch, ''vpiMatch''),
     (BVPICall VPIReset, ''vpiReset''), (BVPICall VPIGetBool, ''vpiGetBool''),
     (BVPICall VPIGetTinyInt, ''vpiGetTinyInt''), (BVPICall VPIGetSmallInt, ''vpiGetSmallInt''),
     (BVPICall VPIGetInt, ''vpiGetInt''), (BVPICall VPIGetBigInt, ''vpiGetBigInt''),
     (BVPICall VPIGetReal, ''vpiGetReal''), (BVPICall VPIGetDouble, ''vpiGetDouble''),
     (BVPICall VPIGetDate, ''vpiGetDate''), (BVPICall VPIGetString, ''vpiGetString''),
     (BVPICall VPIGetPointer, ''vpiGetPointer''), (BVPICall VPISetBool, ''vpiSetBool''),
     (BVPICall VPISetTinyInt, ''vpiSetTinyInt''), (BVPICall VPISetSmallInt, ''vpiSetSmallInt''),
     (BVPICall VPISetInt, ''vpiSetInt''), (BVPICall VPISetBigInt, ''vpiSetBigInt''),
     (BVPICall VPISetReal, ''vpiSetReal''), (BVPICall VPISetDouble, ''vpiSetDouble''),
     (BVPICall VPISetDate, ''vpiSetDate''), (BVPICall VPISetString, ''vpiSetString''),
     (BVPICall VPIFree, ''vpiFree''),
     (BCompactStorageWriteCall CompactStorageWriteBool, ''csWriteBool''),
     (BCompactStorageWriteCall CompactStorageWriteTinyInt, ''csWriteTinyInt''),
     (BCompactStorageWriteCall CompactStorageWriteSmallInt, ''csWriteSmallInt''),
     (BCompactStorageWriteCall CompactStorageWriteInteger, ''csWriteInteger''),
     (BCompactStorageWriteCall CompactStorageWriteBigInt, ''csWriteBigInt''),
     (BCompactStorageWriteCall CompactStorageWriteReal, ''csWriteReal''),
     (BCompactStorageWriteCall CompactStorageWriteDouble, ''csWriteDouble''),
     (BCompactStorageWriteCall CompactStorageWriteDate, ''csWriteDate''),
     (BCompactStorageWriteCall CompactStorageWriteTimestamp, ''csWriteTimestamp''),
     (BCompactStorageWriteCall CompactStorageWriteString, ''csWriteString''),
     (BCompactStorageReadCall CompactStorageReadBool, ''csReadBool''),
     (BCompactStorageReadCall CompactStorageReadTinyInt, ''csReadTinyInt''),
     (BCompactStorageReadCall CompactStorageReadSmallInt, ''csReadSmallInt''),
     (BCompactStorageReadCall CompactStorageReadInteger, ''csReadInteger''),
     (BCompactStorageReadCall CompactStorageReadBigInt, ''csReadBigInt''),
     (BCompactStorageReadCall CompactStorageReadReal, ''csReadReal''),
     (BCompactStorageReadCall CompactStorageReadDouble, ''csReadDouble''),
     (BCompactStorageReadCall CompactStorageReadDate, ''csReadDate''),
     (BCompactStorageReadCall CompactStorageReadTimestamp, ''csReadTimestamp''),
     (BCompactStorageReadCall CompactStorageReadString, ''csReadString''), (Hash, ''hash''),
     (BFilterManagerCall FilterManagerInit, ''filterManagerInit''),
     (BFilterManagerCall FilterManagerInsertFilter, ''filterManagerInsertFilter''),
     (BFilterManagerCall FilterManagerRunFilters, ''filterManagerRunFilters''),
     (BFilterManagerCall FilterManagerFree, ''filterManagerFree''),
     (BVectorFilterCall VectorFilterEqual, ''filterEq''),
     (BVectorFilterCall VectorFilterGreaterThan, ''filterGt''),
     (BVectorFilterCall VectorFilterGreaterThanEqual, ''filterGe''),
     (BVectorFilterCall VectorFilterLessThan, ''filterLt''),
     (BVectorFilterCall VectorFilterLessThanEqual, ''filterLe''),
     (BVectorFilterCall VectorFilterNotEqual, ''filterNe''),
     (BAggHashTableCall AggHashTableInit, ''aggHTInit''),
     (BAggHashTableCall AggHashTableInsert, ''aggHTInsert''),
     (BAggHashTableCall AggHashTableLinkEntry, ''aggHTLink''),
     (BAggHashTableCall AggHashTableLookup, ''aggHTLookup''),
     (BAggHashTableCall AggHashTableProcessBatch, ''aggHTProcessBatch''),
     (BAggHashTableCall AggHashTableMovePartitions, ''aggHTMoveParts''),
     (BAggHashTableCall AggHashTableParallelPartitionedScan, ''aggHTParallelPartScan''),
     (BAggHashTableCall AggHashTableFree, ''aggHTFree''),
     (BAggHashTableIterCall AggHashTableIterInit, ''aggHTIterInit''),
     (BAggHashTableIterCall AggHashTableIterHasNext, ''aggHTIterHasNext''),
     (BAggHashTableIterCall AggHashTableIterNext, ''aggHTIterNext''),
     (BAggHashTableIterCall AggHashTableIterGetRow, ''aggHTIterGetRow''),
     (BAggHashTableIterCall AggHashTableIterClose, ''aggHTIterClose''),
     (BAggPartIterCall AggPartIterHasNext, ''aggPartIterHasNext''),
     (BAggPartIterCall AggPartIterNext, ''aggPartIterNext''),
     (BAggPartIterCall AggPartIterGetHash, ''aggPartIterGetHash''),
     (BAggPartIterCall AggPartIterGetRow, ''aggPartIterGetRow''),
     (BAggPartIterCall AggPartIterGetRowEntry, ''aggPartIterGetRowEntry''),
     (BAggregatorCall AggInit, ''aggInit''), (BAggregatorCall AggAdvance, ''aggAdvance''),
     (BAggregatorCall AggMerge, ''aggMerge''), (BAggregatorCall AggReset, ''aggReset''),
     (BAggregatorCall AggResult, ''aggResult''), (BJoinHashTableCall JoinHashTableInit, ''joinHTInit''),
     (BJoinHashTableCall JoinHashTableInsert, ''joinHTInsert''),
     (BJoinHashTableCall JoinHashTableBuild, ''joinHTBuild''),
     (BJoinHashTableCall JoinHashTableBuildParallel, ''joinHTBuildParallel''),
     (BJoinHashTableCall JoinHashTableLookup, ''joinHTLookup''),
     (BJoinHashTableCall JoinHashTableFree, ''joinHTFree''),
     (BAnalysisStatsCall AnalysisStatsSetColumnCount, ''statsSetColumnCount''),
     (BAnalysisStatsCall AnalysisStatsSetColumnBits, ''statsSetColumnBits''),
     (BHashTableEntryCall HashTableEntryGetHash, ''htEntryGetHash''),
     (BHashTableEntryCall HashTableEntryGetRow, ''htEntryGetRow''),
     (BHashTableEntryCall HashTableEntryGetNext, ''htEntryGetNext''),
     (BSorterCall SorterInit, ''sorterInit''), (BSorterCall SorterInsert, ''sorterInsert''),
     (BSorterCall SorterInsertTopK, ''sorterInsertTopK''),
     (BSorterCall SorterInsertTopKFinish, ''sorterInsertTopKFinish''),
     (BSorterCall SorterSort, ''sorterSort''), (BSorterCall SorterSortParallel, ''sorterSortParallel''),
     (BSorterCall SorterSortTopKParallel, ''sorterSortTopKParallel''),
     (BSorterCall SorterFree, ''sorterFree''), (BSorterIterCall SorterIterInit, ''sorterIterInit''),
     (BSorterIterCall SorterIterHasNext, ''sorterIterHasNext''),
     (BSorterIterCall SorterIterNext, ''sorterIterNext''),
     (BSorterIterCall SorterIterSkipRows, ''sorterIterSkipRows''),
     (BSorterIterCall SorterIterGetRow, ''sorterIterGetRow''),
     (BSorterIterCall SorterIterClose, ''sorterIterClose''),
     (BResultBufferCall ResultBufferAllocOutRow, ''resultBufferAllocRow''),
     (BResultBufferCall ResultBufferFinalize, ''resultBufferFinalize''),
     (BCSVReaderCall CSVReaderInit, ''csvReaderInit''),
     (BCSVReaderCall CSVReaderAdvance, ''csvReaderAdvance''),
     (BCSVReaderCall CSVReaderGetField, ''csvReaderGetField''),
     (BCSVReaderCall CSVReaderGetRecordNumber, ''csvReaderGetRecordNumber''),
     (BCSVReaderCall CSVReaderClose, ''csvReaderClose''), (BMathTrigCall ACos, ''acos''),
     (BMathTrigCall ASin, ''asin''), (BMathTrigCall ATan, ''atan''), (BMathTrigCall ATan2, ''atan2''),
     (BMathTrigCall Cos, ''cos''), (BMathTrigCall Cot, ''cot''), (BMathTrigCall Sin, ''sin''),
     (BMathTrigCall Tan, ''tan''), (BBitsCall Ctlz, ''ctlz''), (BBitsCall Cttz, ''cttz''),
     (SizeOf, ''sizeOf''), (OffsetOf, ''offsetOf''), (IntCast, ''intCast''), (PtrCast, ''ptrCast'')]"

definition IsBuiltinFunction :: "string \<Rightarrow> Builtin option" where
  "IsBuiltinFunction name = map_option fst (find (\<lambda>(b, n). n = name) BUILTINS_LIST)"

section \<open>Generic checks\<close>

abbreviation bt :: "Kind \<Rightarrow> Type" where
  "bt k \<equiv> BuiltinType k"

abbreviation ptr :: "Kind \<Rightarrow> Type" where
  "ptr k \<equiv> PointerType (BuiltinType k)"

abbreviation unsized :: "Kind \<Rightarrow> Type" where
  "unsized k \<equiv> ArrayType 0 (BuiltinType k)"

datatype ParamSpec = PExactly Type | PAnyPointer | PArray ParamSpec

datatype ArgSpec =
    Exactly Type
  | StringLiteralArg
  | AnyPointerArg
  | FunctionArg Type "ParamSpec list"

type_synonym BuiltinResult = "Type option \<times> TExpr list"

definition IsPointerToSpecificBuiltin :: "Type \<Rightarrow> Kind \<Rightarrow> bool" where
  "IsPointerToSpecificBuiltin t k = (case GetPointeeType t of Some b \<Rightarrow> IsSpecificBuiltin b k | None \<Rightarrow> False)"

definition IsPointerToSQLValue :: "Type \<Rightarrow> bool" where
  "IsPointerToSQLValue t = (case GetPointeeType t of Some b \<Rightarrow> IsSqlValueType b | None \<Rightarrow> False)"

definition IsPointerToAggregatorValue :: "Type \<Rightarrow> bool" where
  "IsPointerToAggregatorValue t = (case GetPointeeType t of Some b \<Rightarrow> IsSqlAggregatorType b | None \<Rightarrow> False)"

definition ReportIncorrectCallArg :: "TExpr \<Rightarrow> TExpr list \<Rightarrow> nat \<Rightarrow> Type \<Rightarrow> Sema \<Rightarrow> Sema option" where
  "ReportIncorrectCallArg func args index expected s = do {
     name \<leftarrow> GetFuncName func;
     arg \<leftarrow> vec_at args index;
     Some (ReportError (texpr_pos func) (kIncorrectCallArgType name expected index (GetType arg)) s) }"

definition ReportIncorrectCallArg2 :: "TExpr \<Rightarrow> TExpr list \<Rightarrow> nat \<Rightarrow> string \<Rightarrow> Sema \<Rightarrow> Sema option" where
  "ReportIncorrectCallArg2 func args index expected s = do {
     name \<leftarrow> GetFuncName func;
     arg \<leftarrow> vec_at args index;
     Some (ReportError (texpr_pos func) (kIncorrectCallArgType2 name expected index (GetType arg)) s) }"

fun TypeCheck :: "ParamSpec \<Rightarrow> Type \<Rightarrow> bool" where
  "TypeCheck (PExactly t) ty = (ty = t)"
| "TypeCheck PAnyPointer ty = IsPointerType ty"
| "TypeCheck (PArray p) ty = (case ty of ArrayType _ elem \<Rightarrow> TypeCheck p elem | _ \<Rightarrow> False)"

text \<open>What is wrong with a function argument, if anything.\<close>

definition function_mismatch :: "Type \<Rightarrow> ParamSpec list \<Rightarrow> Type \<Rightarrow> string option" where
  "function_mismatch ret specs ty =
     (case ty of
        FunctionType params r \<Rightarrow>
          (if r \<noteq> ret then Some ''function return type mismatch''
           else if length params \<noteq> length specs then Some ''function argument count mismatch''
           else if \<not> list_all2 (\<lambda>spec param. TypeCheck spec (snd param)) specs params
           then Some ''function argument type mismatch''
           else None)
      | _ \<Rightarrow> Some ''function'')"

text \<open>The check of the argument at an index: whether it is accepted, and the arguments afterwards.\<close>

definition check_arg :: "TExpr \<Rightarrow> ArgSpec \<Rightarrow> nat \<Rightarrow> TExpr list \<Rightarrow> (bool \<times> TExpr list) sema" where
  "check_arg func spec index args s = do {
     arg \<leftarrow> vec_at args index;
     case spec of
       Exactly expected_type \<Rightarrow> do {
         (ok, arg) \<leftarrow> CheckAssignmentConstraints expected_type arg;
         if ok then Some ((True, args[index := arg]), s)
         else do { s \<leftarrow> ReportIncorrectCallArg func args index expected_type s; Some ((False, args), s) } }
     | StringLiteralArg \<Rightarrow>
         (case arg of
            TLiteral _ _ (StringLiteral _) \<Rightarrow> Some ((True, args), s)
          | _ \<Rightarrow> do { s \<leftarrow> ReportIncorrectCallArg2 func args index ''string literal'' s; Some ((False, args), s) })
     | AnyPointerArg \<Rightarrow> do {
         ty \<leftarrow> GetType arg;
         if IsPointerType ty then Some ((True, args), s)
         else do { s \<leftarrow> ReportIncorrectCallArg2 func args index ''pointer'' s; Some ((False, args), s) } }
     | FunctionArg ret specs \<Rightarrow> do {
         ty \<leftarrow> GetType arg;
         case function_mismatch ret specs ty of
           None \<Rightarrow> Some ((True, args), s)
         | Some msg \<Rightarrow> do { s \<leftarrow> ReportIncorrectCallArg2 func args index msg s; Some ((False, args), s) } } }"

fun ArgCheck :: "TExpr \<Rightarrow> ArgSpec list \<Rightarrow> nat \<Rightarrow> TExpr list \<Rightarrow> (bool \<times> TExpr list) sema" where
  "ArgCheck func [] index args s = Some ((True, args), s)"
| "ArgCheck func (spec # rest) index args s = do {
     ((ok, args), s) \<leftarrow> check_arg func spec index args s;
     if ok then ArgCheck func rest (index + 1) args s else Some ((False, args), s) }"

definition GenericBuiltinCheck :: "Type \<Rightarrow> ArgSpec list \<Rightarrow> TExpr \<Rightarrow> TExpr list \<Rightarrow> BuiltinResult sema" where
  "GenericBuiltinCheck ret specs func args s = do {
     (ok, s) \<leftarrow> CheckArgCount func (length args) (length specs) s;
     if \<not> ok then Some ((None, args), s)
     else do {
       ((ok, args), s) \<leftarrow> ArgCheck func specs 0 args s;
       Some ((if ok then Some ret else None, args), s) } }"

text \<open>A builtin with a fixed signature; no signature is a case that the switch does not have.\<close>

definition check_signature :: "TExpr \<Rightarrow> TExpr list \<Rightarrow> (Type \<times> ArgSpec list) option \<Rightarrow> BuiltinResult sema" where
  "check_signature func args sig s = do {
     (ret, specs) \<leftarrow> sig;
     GenericBuiltinCheck ret specs func args s }"

section \<open>Builtins with a fixed signature\<close>

definition CheckSqlConversionCall :: "TExpr \<Rightarrow> SqlConversion \<Rightarrow> TExpr list \<Rightarrow> BuiltinResult sema" where
  "CheckSqlConversionCall func builtin args =
     check_signature func args (case builtin of
        BoolToSql \<Rightarrow> Some (bt K_BooleanVal, [Exactly (bt K_Bool)])
      | IntToSql \<Rightarrow> Some (bt K_IntegerVal, [Exactly (bt K_Int32)])
      | FloatToSql \<Rightarrow> Some (bt K_RealVal, [Exactly (bt K_Float32)])
      | StringToSql \<Rightarrow> Some (bt K_StringVal, [StringLiteralArg])
      | DateToSql \<Rightarrow> Some (bt K_DateVal, [Exactly (bt K_Int32), Exactly (bt K_Int32),
            Exactly (bt K_Int32)])
      | SqlToBool \<Rightarrow> Some (bt K_Bool, [Exactly (bt K_BooleanVal)])
      | ConvertBoolToInteger \<Rightarrow> Some (bt K_IntegerVal, [Exactly (bt K_BooleanVal)])
      | ConvertIntegerToReal \<Rightarrow> Some (bt K_RealVal, [Exactly (bt K_IntegerVal)])
      | ConvertDateToTimestamp \<Rightarrow> Some (bt K_TimestampVal, [Exactly (bt K_DateVal)])
      | ConvertStringToBool \<Rightarrow> Some (bt K_BooleanVal, [Exactly (bt K_StringVal)])
      | ConvertStringToInt \<Rightarrow> Some (bt K_IntegerVal, [Exactly (bt K_StringVal)])
      | ConvertStringToReal \<Rightarrow> Some (bt K_RealVal, [Exactly (bt K_StringVal)])
      | ConvertStringToDate \<Rightarrow> Some (bt K_DateVal, [Exactly (bt K_StringVal)])
      | ConvertStringToTime \<Rightarrow> Some (bt K_TimestampVal, [Exactly (bt K_StringVal)]))"

definition CheckBuiltinExecutionContextCall :: "TExpr \<Rightarrow> ExecutionContextCall \<Rightarrow> TExpr list \<Rightarrow> BuiltinResult sema" where
  "CheckBuiltinExecutionContextCall func builtin args =
     check_signature func args (case builtin of
        ExecutionContextGetMemoryPool \<Rightarrow> Some (ptr K_MemoryPool,
            [Exactly (ptr K_ExecutionContext)])
      | ExecutionContextGetTLS \<Rightarrow> Some (ptr K_ThreadStateContainer,
            [Exactly (ptr K_ExecutionContext)]))"

definition CheckBuiltinThreadStateContainerCall :: "TExpr \<Rightarrow> ThreadStateContainerCall \<Rightarrow> TExpr list \<Rightarrow> BuiltinResult sema" where
  "CheckBuiltinThreadStateContainerCall func builtin args =
     check_signature func args (case builtin of
        ThreadStateContainerClear \<Rightarrow> Some (bt K_Nil, [Exactly (ptr K_ThreadStateContainer)])
      | ThreadStateContainerGetState \<Rightarrow> Some (ptr K_UInt8,
            [Exactly (ptr K_ThreadStateContainer)])
      | ThreadStateContainerReset \<Rightarrow> Some (bt K_Nil, [Exactly (ptr K_ThreadStateContainer),
            Exactly (bt K_UInt32), FunctionArg (bt K_Nil) [PAnyPointer, PAnyPointer],
            FunctionArg (bt K_Nil) [PAnyPointer, PAnyPointer], AnyPointerArg])
      | ThreadStateContainerIterate \<Rightarrow> Some (bt K_Nil, [Exactly (ptr K_ThreadStateContainer),
            AnyPointerArg, FunctionArg (bt K_Nil) [PAnyPointer, PAnyPointer]]))"

definition CheckBuiltinTableIterCall :: "TExpr \<Rightarrow> TableIterCall \<Rightarrow> TExpr list \<Rightarrow> BuiltinResult sema" where
  "CheckBuiltinTableIterCall func builtin args =
     check_signature func args (case builtin of
        TableIterInit \<Rightarrow> Some (bt K_Nil, [Exactly (ptr K_TableVectorIterator), StringLiteralArg])
      | TableIterAdvance \<Rightarrow> Some (bt K_Bool, [Exactly (ptr K_TableVectorIterator)])
      | TableIterGetVPI \<Rightarrow> Some (ptr K_VectorProjectionIterator,
            [Exactly (ptr K_TableVectorIterator)])
      | TableIterParallel \<Rightarrow> Some (bt K_Nil, [StringLiteralArg, AnyPointerArg,
            Exactly (ptr K_ThreadStateContainer), FunctionArg (bt K_Nil) [PAnyPointer, PAnyPointer,
            PExactly (ptr K_TableVectorIterator)]])
      | TableIterClose \<Rightarrow> Some (bt K_Nil, [Exactly (ptr K_TableVectorIterator)]))"

definition CheckBuiltinVPICall :: "TExpr \<Rightarrow> VPICall \<Rightarrow> TExpr list \<Rightarrow> BuiltinResult sema" where
  "CheckBuiltinVPICall func builtin args =
     check_signature func args (case builtin of
        VPIInit \<Rightarrow> Some (bt K_Nil, [Exactly (ptr K_VectorProjectionIterator),
            Exactly (ptr K_VectorProjection), Exactly (ptr K_TupleIdList)])
      | VPIFree \<Rightarrow> Some (bt K_Nil, [Exactly (ptr K_VectorProjectionIterator)])
      | VPIIsFiltered \<Rightarrow> Some (bt K_Bool, [Exactly (ptr K_VectorProjectionIterator)])
      | VPIHasNext \<Rightarrow> Some (bt K_Bool, [Exactly (ptr K_VectorProjectionIterator)])
      | VPIAdvance \<Rightarrow> Some (bt K_Bool, [Exactly (ptr K_VectorProjectionIterator)])
      | VPIReset \<Rightarrow> Some (bt K_Bool, [Exactly (ptr K_VectorProjectionIterator)])
      | VPIGetSelectedRowCount \<Rightarrow> Some (bt K_UInt32, [Exactly (ptr K_VectorProjectionIterator)])
      | VPIGetVectorProjection \<Rightarrow> Some (ptr K_VectorProjection,
            [Exactly (ptr K_VectorProjectionIterator)])
      | VPISetPosition \<Rightarrow> Some (bt K_Bool, [Exactly (ptr K_VectorProjectionIterator),
            Exactly (bt K_UInt32)])
      | VPIMatch \<Rightarrow> Some (bt K_Nil, [Exactly (ptr K_VectorProjectionIterator),
            Exactly (bt K_Bool)])
      | VPIGetBool \<Rightarrow> Some (bt K_BooleanVal, [Exactly (ptr K_VectorProjectionIterator),
            Exactly (bt K_UInt32)])
      | VPIGetTinyInt \<Rightarrow> Some (bt K_IntegerVal, [Exactly (ptr K_VectorProjectionIterator),
            Exactly (bt K_UInt32)])
      | VPIGetSmallInt \<Rightarrow> Some (bt K_IntegerVal, [Exactly (ptr K_VectorProjectionIterator),
            Exactly (bt K_UInt32)])
      | VPIGetInt \<Rightarrow> Some (bt K_IntegerVal, [Exactly (ptr K_VectorProjectionIterator),
            Exactly (bt K_UInt32)])
      | VPIGetBigInt \<Rightarrow> Some (bt K_IntegerVal, [Exactly (ptr K_VectorProjectionIterator),
            Exactly (bt K_UInt32)])
      | VPIGetReal \<Rightarrow> Some (bt K_RealVal, [Exactly (ptr K_VectorProjectionIterator),
            Exactly (bt K_UInt32)])
      | VPIGetDouble \<Rightarrow> Some (bt K_RealVal, [Exactly (ptr K_VectorProjectionIterator),
            Exactly (bt K_UInt32)])
      | VPIGetDate \<Rightarrow> Some (bt K_DateVal, [Exactly (ptr K_VectorProjectionIterator),
            Exactly (bt K_UInt32)])
      | VPIGetString \<Rightarrow> Some (bt K_StringVal, [Exactly (ptr K_VectorProjectionIterator),
            Exactly (bt K_UInt32)])
      | VPIGetPointer \<Rightarrow> Some (ptr K_UInt8, [Exactly (ptr K_VectorProjectionIterator),
            Exactly (bt K_UInt32)])
      | VPISetTinyInt \<Rightarrow> Some (bt K_Nil, [Exactly (ptr K_VectorProjectionIterator),
            Exactly (bt K_IntegerVal), Exactly (bt K_UInt32)])
      | VPISetSmallInt \<Rightarrow> Some (bt K_Nil, [Exactly (ptr K_VectorProjectionIterator),
            Exactly (bt K_IntegerVal), Exactly (bt K_UInt32)])
      | VPISetInt \<Rightarrow> Some (bt K_Nil, [Exactly (ptr K_VectorProjectionIterator),
            Exactly (bt K_IntegerVal), Exactly (bt K_UInt32)])
      | VPISetBigInt \<Rightarrow> Some (bt K_Nil, [Exactly (ptr K_VectorProjectionIterator),
            Exactly (bt K_IntegerVal), Exactly (bt K_UInt32)])
      | VPISetReal \<Rightarrow> Some (bt K_Nil, [Exactly (ptr K_VectorProjectionIterator),
            Exactly (bt K_RealVal), Exactly (bt K_UInt32)])
      | VPISetDouble \<Rightarrow> Some (bt K_Nil, [Exactly (ptr K_VectorProjectionIterator),
            Exactly (bt K_RealVal), Exactly (bt K_UInt32)])
      | VPISetDate \<Rightarrow> Some (bt K_Nil, [Exactly (ptr K_VectorProjectionIterator),
            Exactly (bt K_DateVal), Exactly (bt K_UInt32)])
      | VPISetString \<Rightarrow> Some (bt K_Nil, [Exactly (ptr K_VectorProjectionIterator),
            Exactly (bt K_StringVal), Exactly (bt K_UInt32)])
      | VPISetBool \<Rightarrow> None)"

definition CheckBuiltinCompactStorageWriteCall :: "TExpr \<Rightarrow> CompactStorageWriteCall \<Rightarrow> TExpr list \<Rightarrow> BuiltinResult sema" where
  "CheckBuiltinCompactStorageWriteCall func builtin args =
     check_signature func args (case builtin of
        CompactStorageWriteBool \<Rightarrow> Some (bt K_Nil, [Exactly (ptr K_Bool),
            Exactly (unsized K_UInt8), Exactly (bt K_UInt32), Exactly (bt K_BooleanVal)])
      | CompactStorageWriteTinyInt \<Rightarrow> Some (bt K_Nil, [Exactly (ptr K_Int8),
            Exactly (unsized K_UInt8), Exactly (bt K_UInt32), Exactly (bt K_IntegerVal)])
      | CompactStorageWriteSmallInt \<Rightarrow> Some (bt K_Nil, [Exactly (ptr K_Int16),
            Exactly (unsized K_UInt8), Exactly (bt K_UInt32), Exactly (bt K_IntegerVal)])
      | CompactStorageWriteInteger \<Rightarrow> Some (bt K_Nil, [Exactly (ptr K_Int32),
            Exactly (unsized K_UInt8), Exactly (bt K_UInt32), Exactly (bt K_IntegerVal)])
      | CompactStorageWriteBigInt \<Rightarrow> Some (bt K_Nil, [Exactly (ptr K_Int64),
            Exactly (unsized K_UInt8), Exactly (bt K_UInt32), Exactly (bt K_IntegerVal)])
      | CompactStorageWriteReal \<Rightarrow> Some (bt K_Nil, [Exactly (ptr K_Float32),
            Exactly (unsized K_UInt8), Exactly (bt K_UInt32), Exactly (bt K_RealVal)])
      | CompactStorageWriteDouble \<Rightarrow> Some (bt K_Nil, [Exactly (ptr K_Float64),
            Exactly (unsized K_UInt8), Exactly (bt K_UInt32), Exactly (bt K_RealVal)])
      | CompactStorageWriteDate \<Rightarrow> Some (bt K_Nil, [Exactly (ptr K_Date),
            Exactly (unsized K_UInt8), Exactly (bt K_UInt32), Exactly (bt K_DateVal)])
      | CompactStorageWriteTimestamp \<Rightarrow> Some (bt K_Nil, [Exactly (ptr K_Timestamp),
            Exactly (unsized K_UInt8), Exactly (bt K_UInt32), Exactly (bt K_TimestampVal)])
      | CompactStorageWriteString \<Rightarrow> Some (bt K_Nil, [Exactly (ptr K_VarlenEntry),
            Exactly (unsized K_UInt8), Exactly (bt K_UInt32), Exactly (bt K_StringVal)]))"

definition CheckBuiltinCompactStorageReadCall :: "TExpr \<Rightarrow> CompactStorageReadCall \<Rightarrow> TExpr list \<Rightarrow> BuiltinResult sema" where
  "CheckBuiltinCompactStorageReadCall func builtin args =
     check_signature func args (case builtin of
        CompactStorageReadBool \<Rightarrow> Some (bt K_BooleanVal, [Exactly (ptr K_Bool),
            Exactly (unsized K_UInt8), Exactly (bt K_UInt32)])
      | CompactStorageReadTinyInt \<Rightarrow> Some (bt K_IntegerVal, [Exactly (ptr K_Int8),
            Exactly (unsized K_UInt8), Exactly (bt K_UInt32)])
      | CompactStorageReadSmallInt \<Rightarrow> Some (bt K_IntegerVal, [Exactly (ptr K_Int16),
            Exactly (unsized K_UInt8), Exactly (bt K_UInt32)])
      | CompactStorageReadInteger \<Rightarrow> Some (bt K_IntegerVal, [Exactly (ptr K_Int32),
            Exactly (unsized K_UInt8), Exactly (bt K_UInt32)])
      | CompactStorageReadBigInt \<Rightarrow> Some (bt K_IntegerVal, [Exactly (ptr K_Int64),
            Exactly (unsized K_UInt8), Exactly (bt K_UInt32)])
      | CompactStorageReadReal \<Rightarrow> Some (bt K_RealVal, [Exactly (ptr K_Float32),
            Exactly (unsized K_UInt8), Exactly (bt K_UInt32)])
      | CompactStorageReadDouble \<Rightarrow> Some (bt K_RealVal, [Exactly (ptr K_Float64),
            Exactly (unsized K_UInt8), Exactly (bt K_UInt32)])
      | CompactStorageReadDate \<Rightarrow> Some (bt K_DateVal, [Exactly (ptr K_Date),
            Exactly (unsized K_UInt8), Exactly (bt K_UInt32)])
      | CompactStorageReadTimestamp \<Rightarrow> Some (bt K_TimestampVal, [Exactly (ptr K_Timestamp),
            Exactly (unsized K_UInt8), Exactly (bt K_UInt32)])
      | CompactStorageReadString \<Rightarrow> Some (bt K_StringVal, [Exactly (ptr K_VarlenEntry),
            Exactly (unsized K_UInt8), Exactly (bt K_UInt32)]))"

definition CheckBuiltinAggHashTableCall :: "TExpr \<Rightarrow> AggHashTableCall \<Rightarrow> TExpr list \<Rightarrow> BuiltinResult sema" where
  "CheckBuiltinAggHashTableCall func builtin args =
     check_signature func args (case builtin of
        AggHashTableInit \<Rightarrow> Some (bt K_Nil, [Exactly (ptr K_AggregationHashTable),
            Exactly (ptr K_MemoryPool), Exactly (bt K_UInt32)])
      | AggHashTableInsert \<Rightarrow> (if length args = 2 then Some (ptr K_UInt8,
            [Exactly (ptr K_AggregationHashTable), Exactly (bt K_UInt64)]) else Some (ptr K_UInt8,
            [Exactly (ptr K_AggregationHashTable), Exactly (bt K_UInt64), Exactly (bt K_Bool)]))
      | AggHashTableLinkEntry \<Rightarrow> Some (bt K_Nil, [Exactly (ptr K_AggregationHashTable),
            Exactly (ptr K_HashTableEntry)])
      | AggHashTableLookup \<Rightarrow> Some (ptr K_HashTableEntry, [Exactly (ptr K_AggregationHashTable),
            Exactly (bt K_UInt64)])
      | AggHashTableProcessBatch \<Rightarrow> Some (bt K_Nil, [Exactly (ptr K_AggregationHashTable),
            Exactly (ptr K_VectorProjectionIterator), Exactly (unsized K_UInt32),
            FunctionArg (bt K_Nil) [PExactly (ptr K_VectorProjectionIterator),
            PExactly (ptr K_VectorProjectionIterator)],
            FunctionArg (bt K_Nil) [PExactly (ptr K_VectorProjectionIterator),
            PExactly (ptr K_VectorProjectionIterator)], Exactly (bt K_Bool)])
      | AggHashTableMovePartitions \<Rightarrow> Some (bt K_Nil, [Exactly (ptr K_AggregationHashTable),
            Exactly (ptr K_ThreadStateContainer), Exactly (bt K_UInt32),
            FunctionArg (bt K_Nil) [PAnyPointer, PExactly (ptr K_AggregationHashTable),
            PExactly (ptr K_AHTOverflowPartitionIterator)]])
      | AggHashTableParallelPartitionedScan \<Rightarrow> Some (bt K_Nil,
            [Exactly (ptr K_AggregationHashTable), AnyPointerArg, Exactly (ptr K_ThreadStateContainer),
            FunctionArg (bt K_Nil) [PAnyPointer, PAnyPointer, PExactly (ptr K_AggregationHashTable)]])
      | AggHashTableFree \<Rightarrow> Some (bt K_Nil, [Exactly (ptr K_AggregationHashTable)]))"

definition CheckBuiltinAggHashTableIterCall :: "TExpr \<Rightarrow> AggHashTableIterCall \<Rightarrow> TExpr list \<Rightarrow> BuiltinResult sema" where
  "CheckBuiltinAggHashTableIterCall func builtin args =
     check_signature func args (case builtin of
        AggHashTableIterInit \<Rightarrow> Some (bt K_Nil, [Exactly (ptr K_AHTIterator),
            Exactly (ptr K_AggregationHashTable)])
      | AggHashTableIterHasNext \<Rightarrow> Some (bt K_Bool, [Exactly (ptr K_AHTIterator)])
      | AggHashTableIterNext \<Rightarrow> Some (bt K_Nil, [Exactly (ptr K_AHTIterator)])
      | AggHashTableIterGetRow \<Rightarrow> Some (ptr K_UInt8, [Exactly (ptr K_AHTIterator)])
      | AggHashTableIterClose \<Rightarrow> Some (bt K_Nil, [Exactly (ptr K_AHTIterator)]))"

definition CheckBuiltinAggPartIterCall :: "TExpr \<Rightarrow> AggPartIterCall \<Rightarrow> TExpr list \<Rightarrow> BuiltinResult sema" where
  "CheckBuiltinAggPartIterCall func builtin args =
     check_signature func args (case builtin of
        AggPartIterHasNext \<Rightarrow> Some (bt K_Bool, [Exactly (ptr K_AHTOverflowPartitionIterator)])
      | AggPartIterNext \<Rightarrow> Some (bt K_Nil, [Exactly (ptr K_AHTOverflowPartitionIterator)])
      | AggPartIterGetRowEntry \<Rightarrow> Some (ptr K_HashTableEntry,
            [Exactly (ptr K_AHTOverflowPartitionIterator)])
      | AggPartIterGetRow \<Rightarrow> Some (ptr K_UInt8, [Exactly (ptr K_AHTOverflowPartitionIterator)])
      | AggPartIterGetHash \<Rightarrow> Some (bt K_UInt64, [Exactly (ptr K_AHTOverflowPartitionIterator)]))"

definition CheckBuiltinJoinHashTableCall :: "TExpr \<Rightarrow> JoinHashTableCall \<Rightarrow> TExpr list \<Rightarrow> BuiltinResult sema" where
  "CheckBuiltinJoinHashTableCall func builtin args =
     check_signature func args (case builtin of
        JoinHashTableInit \<Rightarrow> (if length args \<le> 3 then Some (bt K_Nil,
            [Exactly (ptr K_JoinHashTable), Exactly (ptr K_MemoryPool),
            Exactly (bt K_UInt32)]) else Some (bt K_Nil, [Exactly (ptr K_JoinHashTable),
            Exactly (ptr K_MemoryPool), Exactly (bt K_UInt32),
            FunctionArg (bt K_Nil) [PExactly (bt K_UInt32), PArray PAnyPointer, PAnyPointer],
            FunctionArg (bt K_Nil) [PExactly (bt K_UInt32), PArray PAnyPointer, PArray PAnyPointer]]))
      | JoinHashTableInsert \<Rightarrow> Some (ptr K_UInt8, [Exactly (ptr K_JoinHashTable),
            Exactly (bt K_UInt64)])
      | JoinHashTableBuild \<Rightarrow> Some (bt K_Nil, [Exactly (ptr K_JoinHashTable)])
      | JoinHashTableBuildParallel \<Rightarrow> Some (bt K_Nil, [Exactly (ptr K_JoinHashTable),
            Exactly (ptr K_ThreadStateContainer), Exactly (bt K_UInt32)])
      | JoinHashTableLookup \<Rightarrow> Some (ptr K_HashTableEntry, [Exactly (ptr K_JoinHashTable),
            Exactly (bt K_UInt64)])
      | JoinHashTableFree \<Rightarrow> Some (bt K_Nil, [Exactly (ptr K_JoinHashTable)]))"

definition CheckBuiltinHashTableEntryCall :: "TExpr \<Rightarrow> HashTableEntryCall \<Rightarrow> TExpr list \<Rightarrow> BuiltinResult sema" where
  "CheckBuiltinHashTableEntryCall func builtin args =
     check_signature func args (case builtin of
        HashTableEntryGetHash \<Rightarrow> Some (bt K_UInt64, [Exactly (ptr K_HashTableEntry)])
      | HashTableEntryGetRow \<Rightarrow> Some (ptr K_UInt8, [Exactly (ptr K_HashTableEntry)])
      | HashTableEntryGetNext \<Rightarrow> Some (ptr K_HashTableEntry, [Exactly (ptr K_HashTableEntry)]))"

definition CheckBuiltinAnalysisStatsCall :: "TExpr \<Rightarrow> AnalysisStatsCall \<Rightarrow> TExpr list \<Rightarrow> BuiltinResult sema" where
  "CheckBuiltinAnalysisStatsCall func builtin args =
     check_signature func args (case builtin of
        AnalysisStatsSetColumnCount \<Rightarrow> Some (bt K_Nil, [Exactly (ptr K_AnalysisStats),
            Exactly (bt K_UInt32)])
      | AnalysisStatsSetColumnBits \<Rightarrow> Some (bt K_Nil, [Exactly (ptr K_AnalysisStats),
            Exactly (bt K_UInt32), Exactly (bt K_UInt32)]))"

definition CheckBuiltinSorterCall :: "TExpr \<Rightarrow> SorterCall \<Rightarrow> TExpr list \<Rightarrow> BuiltinResult sema" where
  "CheckBuiltinSorterCall func builtin args =
     check_signature func args (case builtin of
        SorterInit \<Rightarrow> Some (bt K_Nil, [Exactly (ptr K_Sorter), Exactly (ptr K_MemoryPool),
            FunctionArg (bt K_Bool) [PAnyPointer, PAnyPointer], Exactly (bt K_UInt32)])
      | SorterInsert \<Rightarrow> Some (ptr K_UInt8, [Exactly (ptr K_Sorter)])
      | SorterInsertTopK \<Rightarrow> Some (ptr K_UInt8, [Exactly (ptr K_Sorter), Exactly (bt K_UInt32)])
      | SorterInsertTopKFinish \<Rightarrow> Some (bt K_Nil, [Exactly (ptr K_Sorter),
            Exactly (bt K_UInt32)])
      | SorterSort \<Rightarrow> Some (bt K_Nil, [Exactly (ptr K_Sorter)])
      | SorterSortParallel \<Rightarrow> Some (bt K_Nil, [Exactly (ptr K_Sorter),
            Exactly (ptr K_ThreadStateContainer), Exactly (bt K_UInt32)])
      | SorterSortTopKParallel \<Rightarrow> Some (bt K_Nil, [Exactly (ptr K_Sorter),
            Exactly (ptr K_ThreadStateContainer), Exactly (bt K_UInt32), Exactly (bt K_UInt32)])
      | SorterFree \<Rightarrow> Some (bt K_Nil, [Exactly (ptr K_Sorter)]))"

definition CheckBuiltinSorterIterCall :: "TExpr \<Rightarrow> SorterIterCall \<Rightarrow> TExpr list \<Rightarrow> BuiltinResult sema" where
  "CheckBuiltinSorterIterCall func builtin args =
     check_signature func args (case builtin of
        SorterIterInit \<Rightarrow> Some (bt K_Nil, [Exactly (ptr K_SorterIterator),
            Exactly (ptr K_Sorter)])
      | SorterIterHasNext \<Rightarrow> Some (bt K_Bool, [Exactly (ptr K_SorterIterator)])
      | SorterIterNext \<Rightarrow> Some (bt K_Nil, [Exactly (ptr K_SorterIterator)])
      | SorterIterSkipRows \<Rightarrow> Some (bt K_Nil, [Exactly (ptr K_SorterIterator),
            Exactly (bt K_UInt32)])
      | SorterIterGetRow \<Rightarrow> Some (ptr K_UInt8, [Exactly (ptr K_SorterIterator)])
      | SorterIterClose \<Rightarrow> Some (bt K_Nil, [Exactly (ptr K_SorterIterator)]))"

definition CheckResultBufferCall :: "TExpr \<Rightarrow> ResultBufferCall \<Rightarrow> TExpr list \<Rightarrow> BuiltinResult sema" where
  "CheckResultBufferCall func builtin args =
     check_signature func args (case builtin of
        ResultBufferAllocOutRow \<Rightarrow> Some (ptr K_UInt8, [Exactly (ptr K_ExecutionContext)])
      | ResultBufferFinalize \<Rightarrow> Some (bt K_Nil, [Exactly (ptr K_ExecutionContext)]))"

definition CheckCSVReaderCall :: "TExpr \<Rightarrow> CSVReaderCall \<Rightarrow> TExpr list \<Rightarrow> BuiltinResult sema" where
  "CheckCSVReaderCall func builtin args =
     check_signature func args (case builtin of
        CSVReaderInit \<Rightarrow> Some (bt K_Bool, [Exactly (ptr K_CSVReader), StringLiteralArg])
      | CSVReaderAdvance \<Rightarrow> Some (bt K_Bool, [Exactly (ptr K_CSVReader)])
      | CSVReaderGetField \<Rightarrow> Some (bt K_Nil, [Exactly (ptr K_CSVReader), Exactly (bt K_UInt32),
            Exactly (ptr K_StringVal)])
      | CSVReaderGetRecordNumber \<Rightarrow> Some (bt K_UInt32, [Exactly (ptr K_CSVReader)])
      | CSVReaderClose \<Rightarrow> Some (bt K_Nil, [Exactly (ptr K_CSVReader)]))"

definition CheckMathTrigCall :: "TExpr \<Rightarrow> MathTrigCall \<Rightarrow> TExpr list \<Rightarrow> BuiltinResult sema" where
  "CheckMathTrigCall func builtin args =
     check_signature func args (case builtin of
        ATan2 \<Rightarrow> Some (bt K_RealVal, [Exactly (bt K_RealVal), Exactly (bt K_RealVal)])
      | Cos \<Rightarrow> Some (bt K_RealVal, [Exactly (bt K_RealVal)])
      | Cot \<Rightarrow> Some (bt K_RealVal, [Exactly (bt K_RealVal)])
      | Sin \<Rightarrow> Some (bt K_RealVal, [Exactly (bt K_RealVal)])
      | Tan \<Rightarrow> Some (bt K_RealVal, [Exactly (bt K_RealVal)])
      | ACos \<Rightarrow> Some (bt K_RealVal, [Exactly (bt K_RealVal)])
      | ASin \<Rightarrow> Some (bt K_RealVal, [Exactly (bt K_RealVal)])
      | ATan \<Rightarrow> Some (bt K_RealVal, [Exactly (bt K_RealVal)]))"

definition CheckBuiltinStringLikeCall :: "TExpr \<Rightarrow> TExpr list \<Rightarrow> BuiltinResult sema" where
  "CheckBuiltinStringLikeCall func args =
     GenericBuiltinCheck (bt K_BooleanVal) [Exactly (bt K_StringVal), Exactly (bt K_StringVal)] func args"

definition CheckBuiltinDateFunctionCall :: "TExpr \<Rightarrow> TExpr list \<Rightarrow> BuiltinResult sema" where
  "CheckBuiltinDateFunctionCall func args = GenericBuiltinCheck (bt K_IntegerVal) [Exactly (bt K_DateVal)] func args"

section \<open>Other builtins\<close>

text \<open>The type of the argument at an index.\<close>

definition arg_type :: "TExpr list \<Rightarrow> nat \<Rightarrow> Type option" where
  "arg_type args index = do { arg \<leftarrow> vec_at args index; GetType arg }"

definition CheckNullValueCall :: "TExpr \<Rightarrow> NullValue \<Rightarrow> TExpr list \<Rightarrow> BuiltinResult sema" where
  "CheckNullValueCall func builtin args s = do {
     (ok, s) \<leftarrow> CheckArgCount func (length args) 1 s;
     if \<not> ok then Some ((None, args), s)
     else do {
       input_type \<leftarrow> arg_type args 0;
       case builtin of
         IsValNull \<Rightarrow>
           (if \<not> IsSqlValueType input_type
            then do { s \<leftarrow> ReportIncorrectCallArg2 func args 0 ''SQL type'' s; Some ((None, args), s) }
            else Some ((Some (bt K_Bool), args), s))
       | InitSqlNull \<Rightarrow>
           (if \<not> IsPointerToSQLValue input_type
            then do { s \<leftarrow> ReportIncorrectCallArg2 func args 0 ''pointer to SQL value'' s; Some ((None, args), s) }
            else Some ((Some (bt K_Nil), args), s)) } }"

text \<open>The first argument from an index on whose type fails a test.\<close>

fun first_bad :: "(Type \<Rightarrow> bool) \<Rightarrow> TExpr list \<Rightarrow> TExpr option option" where
  "first_bad ok [] = Some None"
| "first_bad ok (arg # args) = do {
     ty \<leftarrow> GetType arg;
     if \<not> ok ty then Some (Some arg) else first_bad ok args }"

definition CheckBuiltinConcat :: "TExpr \<Rightarrow> TExpr list \<Rightarrow> BuiltinResult sema" where
  "CheckBuiltinConcat func args s = do {
     (ok, s) \<leftarrow> CheckArgCountAtLeast func (length args) 3 s;
     if \<not> ok then Some ((None, args), s)
     else do {
       ctx_type \<leftarrow> arg_type args 0;
       if IsSpecificBuiltin ctx_type K_ExecutionContext then Some ((None, args), s)
       else do {
         bad \<leftarrow> first_bad (\<lambda>t. IsSpecificBuiltin t K_StringVal) (tl args);
         case bad of
           Some arg \<Rightarrow> Some ((None, args), ReportError (texpr_pos arg) (kBadHashArg (GetType arg)) s)
         | None \<Rightarrow> Some ((Some (bt K_StringVal), args), s) } } }"

definition CheckBuiltinHashCall :: "TExpr \<Rightarrow> TExpr list \<Rightarrow> BuiltinResult sema" where
  "CheckBuiltinHashCall func args s = do {
     (ok, s) \<leftarrow> CheckArgCountAtLeast func (length args) 1 s;
     if \<not> ok then Some ((None, args), s)
     else do {
       bad \<leftarrow> first_bad IsSqlValueType args;
       case bad of
         Some arg \<Rightarrow> Some ((None, args), ReportError (texpr_pos arg) (kBadHashArg (GetType arg)) s)
       | None \<Rightarrow> Some ((Some (bt K_UInt64), args), s) } }"

definition result_kind :: "Kind \<Rightarrow> Kind option" where
  "result_kind k =
     (if k \<in> {K_CountAggregate, K_CountStarAggregate, K_IntegerMaxAggregate, K_IntegerMinAggregate,
              K_IntegerSumAggregate} then Some K_IntegerVal
      else if k \<in> {K_RealMaxAggregate, K_RealMinAggregate, K_RealSumAggregate, K_AvgAggregate} then Some K_RealVal
      else None)"

definition not_aggregate :: "TExpr \<Rightarrow> TExpr list \<Rightarrow> Type \<Rightarrow> BuiltinResult sema" where
  "not_aggregate func args ty s = Some ((None, args), ReportError (texpr_pos func) (kNotASQLAggregate (Some ty)) s)"

definition CheckBuiltinAggregatorCall :: "TExpr \<Rightarrow> AggregatorCall \<Rightarrow> TExpr list \<Rightarrow> BuiltinResult sema" where
  "CheckBuiltinAggregatorCall func builtin args s =
     (if builtin = AggInit \<or> builtin = AggReset
      then do {
        bad \<leftarrow> first_bad IsPointerToAggregatorValue args;
        case bad of
          Some arg \<Rightarrow> do { ty \<leftarrow> GetType arg; not_aggregate func args ty s }
        | None \<Rightarrow> Some ((Some (bt K_Nil), args), s) }
      else do {
        (ok, s) \<leftarrow> CheckArgCount func (length args) (if builtin = AggResult then 1 else 2) s;
        if \<not> ok then Some ((None, args), s)
        else do {
          ty0 \<leftarrow> arg_type args 0;
          case builtin of
            AggAdvance \<Rightarrow>
              (if \<not> IsPointerToAggregatorValue ty0 then not_aggregate func args ty0 s
               else do {
                 ty1 \<leftarrow> arg_type args 1;
                 if \<not> IsSqlValueType ty1
                 then do { s \<leftarrow> ReportIncorrectCallArg2 func args 1 ''expected SQL value'' s; Some ((None, args), s) }
                 else Some ((Some (bt K_Nil), args), s) })
          | AggMerge \<Rightarrow> do {
              ty1 \<leftarrow> arg_type args 1;
              if \<not> IsPointerToAggregatorValue ty0 then not_aggregate func args ty0 s
              else if \<not> IsPointerToAggregatorValue ty1 then not_aggregate func args ty1 s
              else Some ((Some (bt K_Nil), args), s) }
          | _ \<Rightarrow>
              (if \<not> IsPointerToAggregatorValue ty0 then not_aggregate func args ty0 s
               else case GetPointeeType ty0 of
                 Some (BuiltinType k) \<Rightarrow> do { r \<leftarrow> result_kind k; Some ((Some (bt r), args), s) }
               | _ \<Rightarrow> None) } })"

definition is_filter_function :: "Type \<Rightarrow> bool" where
  "is_filter_function ty =
     (case ty of
        FunctionType params _ \<Rightarrow>
          (case map snd params of
             [a, b, c] \<Rightarrow> IsPointerToSpecificBuiltin a K_VectorProjection \<and>
                          IsPointerToSpecificBuiltin b K_TupleIdList \<and> IsPointerType c
           | _ \<Rightarrow> False)
      | _ \<Rightarrow> False)"

fun check_filters :: "TExpr \<Rightarrow> TExpr list \<Rightarrow> nat list \<Rightarrow> bool sema" where
  "check_filters func args [] s = Some (True, s)"
| "check_filters func args (i # is) s = do {
     ty \<leftarrow> arg_type args i;
     if \<not> is_filter_function ty
     then do {
       s \<leftarrow> ReportIncorrectCallArg2 func args i ''(*VectorProjection, *TupleIdList, *uint8)->nil'' s;
       Some (False, s) }
     else check_filters func args is s }"

definition CheckBuiltinFilterManagerCall :: "TExpr \<Rightarrow> FilterManagerCall \<Rightarrow> TExpr list \<Rightarrow> BuiltinResult sema" where
  "CheckBuiltinFilterManagerCall func builtin args s = do {
     (ok, s) \<leftarrow> CheckArgCountAtLeast func (length args) 1 s;
     if \<not> ok then Some ((None, args), s)
     else do {
       ty0 \<leftarrow> arg_type args 0;
       if \<not> IsPointerToSpecificBuiltin ty0 K_FilterManager
       then do { s \<leftarrow> ReportIncorrectCallArg func args 0 (ptr K_FilterManager) s; Some ((None, args), s) }
       else case builtin of
         FilterManagerInsertFilter \<Rightarrow> do {
           (ok, s) \<leftarrow> check_filters func args [1..<length args] s;
           Some ((if ok then Some (bt K_Nil) else None, args), s) }
       | FilterManagerRunFilters \<Rightarrow>
           GenericBuiltinCheck (bt K_Nil) [Exactly (ptr K_FilterManager), Exactly (ptr K_VectorProjectionIterator)]
             func args s
       | _ \<Rightarrow> GenericBuiltinCheck (bt K_Nil) [Exactly (ptr K_FilterManager)] func args s } }"

definition CheckBuiltinVectorFilterCall :: "TExpr \<Rightarrow> TExpr list \<Rightarrow> BuiltinResult sema" where
  "CheckBuiltinVectorFilterCall func args s = do {
     (ok, s) \<leftarrow> CheckArgCount func (length args) 4 s;
     if \<not> ok then Some ((None, args), s)
     else do {
       ty0 \<leftarrow> arg_type args 0;
       ty1 \<leftarrow> arg_type args 1;
       ty2 \<leftarrow> arg_type args 2;
       ty3 \<leftarrow> arg_type args 3;
       let bad = (\<lambda>i t. do { s \<leftarrow> ReportIncorrectCallArg func args i t s; Some ((None, args), s) });
       if \<not> IsPointerToSpecificBuiltin ty0 K_VectorProjection then bad 0 (ptr K_VectorProjection)
       else if \<not> IsSpecificBuiltin ty1 K_Int32 \<and> \<not> IsSpecificBuiltin ty1 K_UInt32 then bad 1 (bt K_Int32)
       else if \<not> IsSpecificBuiltin ty2 K_Int32 \<and> \<not> IsSqlValueType ty2 then bad 2 (bt K_Int32)
       else if \<not> IsPointerToSpecificBuiltin ty3 K_TupleIdList then bad 3 (ptr K_TupleIdList)
       else Some ((Some (bt K_Nil), args), s) } }"

definition CheckBuiltinBitsCall :: "abi \<Rightarrow> TExpr \<Rightarrow> TExpr list \<Rightarrow> BuiltinResult sema" where
  "CheckBuiltinBitsCall A func args s = do {
     (ok, s) \<leftarrow> CheckArgCount func (length args) 1 s;
     if \<not> ok then Some ((None, args), s)
     else do {
       ty \<leftarrow> arg_type args 0;
       if (case ty of BuiltinType k \<Rightarrow> \<not> IsIntegral k \<or> kSignedFlags A k | _ \<Rightarrow> True)
       then do { s \<leftarrow> ReportIncorrectCallArg2 func args 0 ''primitive unsigned integer'' s; Some ((None, args), s) }
       else Some ((Some (bt K_UInt32), args), s) } }"

definition CheckBuiltinSizeOfCall :: "TExpr \<Rightarrow> TExpr list \<Rightarrow> BuiltinResult sema" where
  "CheckBuiltinSizeOfCall func args s = do {
     (ok, s) \<leftarrow> CheckArgCount func (length args) 1 s;
     Some ((if ok then Some (bt K_UInt32) else None, args), s) }"

section \<open>The switch\<close>

text \<open>
  \<^verbatim>\<open>CheckBuiltinCall\<close> from the switch on. \<^verbatim>\<open>@offsetOf\<close>, \<^verbatim>\<open>@intCast\<close> and \<^verbatim>\<open>@ptrCast\<close> do not
  get here: they resolve only some of their arguments.
\<close>

definition check_resolved_builtin :: "abi \<Rightarrow> TExpr \<Rightarrow> Builtin \<Rightarrow> TExpr list \<Rightarrow> BuiltinResult sema" where
  "check_resolved_builtin A func builtin args =
     (case builtin of
        BSqlConversion b \<Rightarrow> CheckSqlConversionCall func b args
      | BNullValue b \<Rightarrow> CheckNullValueCall func b args
      | LNot \<Rightarrow> GenericBuiltinCheck (bt K_BooleanVal) [Exactly (bt K_BooleanVal)] func args
      | Like \<Rightarrow> CheckBuiltinStringLikeCall func args
      | ExtractYear \<Rightarrow> CheckBuiltinDateFunctionCall func args
      | Concat \<Rightarrow> CheckBuiltinConcat func args
      | BExecutionContextCall b \<Rightarrow> CheckBuiltinExecutionContextCall func b args
      | BThreadStateContainerCall b \<Rightarrow> CheckBuiltinThreadStateContainerCall func b args
      | BTableIterCall b \<Rightarrow> CheckBuiltinTableIterCall func b args
      | BVPICall b \<Rightarrow> CheckBuiltinVPICall func b args
      | BCompactStorageWriteCall b \<Rightarrow> CheckBuiltinCompactStorageWriteCall func b args
      | BCompactStorageReadCall b \<Rightarrow> CheckBuiltinCompactStorageReadCall func b args
      | Hash \<Rightarrow> CheckBuiltinHashCall func args
      | BFilterManagerCall b \<Rightarrow> CheckBuiltinFilterManagerCall func b args
      | BVectorFilterCall b \<Rightarrow> CheckBuiltinVectorFilterCall func args
      | BAggHashTableCall b \<Rightarrow> CheckBuiltinAggHashTableCall func b args
      | BAggHashTableIterCall b \<Rightarrow> CheckBuiltinAggHashTableIterCall func b args
      | BAggPartIterCall b \<Rightarrow> CheckBuiltinAggPartIterCall func b args
      | BAggregatorCall b \<Rightarrow> CheckBuiltinAggregatorCall func b args
      | BJoinHashTableCall b \<Rightarrow> CheckBuiltinJoinHashTableCall func b args
      | BHashTableEntryCall b \<Rightarrow> CheckBuiltinHashTableEntryCall func b args
      | BAnalysisStatsCall b \<Rightarrow> CheckBuiltinAnalysisStatsCall func b args
      | BSorterCall b \<Rightarrow> CheckBuiltinSorterCall func b args
      | BSorterIterCall b \<Rightarrow> CheckBuiltinSorterIterCall func b args
      | BResultBufferCall b \<Rightarrow> CheckResultBufferCall func b args
      | BCSVReaderCall b \<Rightarrow> CheckCSVReaderCall func b args
      | BMathTrigCall b \<Rightarrow> CheckMathTrigCall func b args
      | BBitsCall b \<Rightarrow> CheckBuiltinBitsCall A func args
      | SizeOf \<Rightarrow> CheckBuiltinSizeOfCall func args
      | OffsetOf \<Rightarrow> (\<lambda>s. None)
      | IntCast \<Rightarrow> (\<lambda>s. None)
      | PtrCast \<Rightarrow> (\<lambda>s. None))"

end
