(* ===== verification/SemaVisit.thy ===== *)
theory SemaVisit
  imports SemaBuiltin
begin

text \<open>
  The visitor of semantic analysis (\<^verbatim>\<open>sema/sema_expr.cpp\<close>, \<^verbatim>\<open>sema/sema_stmt.cpp\<close>,
  \<^verbatim>\<open>sema/sema_decl.cpp\<close>, \<^verbatim>\<open>sema/sema_type.cpp\<close>, \<^verbatim>\<open>sema/sema.cpp\<close>). For each node class, what happens
  after the children are resolved is a definition of its own; \<open>VisitExpr\<close>, \<open>VisitStmt\<close> and \<open>VisitDecl\<close>
  visit the children and call it. \<open>None\<close> is an undefined execution: a failed assertion or cast, a null child that
  the parser left after an error, or \<^verbatim>\<open>UNREACHABLE\<close>.
\<close>

section \<open>Expressions\<close>

definition VisitBinaryOp :: "SourcePosition \<Rightarrow> TokenType \<Rightarrow> TExpr \<Rightarrow> TExpr \<Rightarrow> TExpr sema" where
  "VisitBinaryOp p op left right s =
     (if GetType left = None \<or> GetType right = None then Some (TBinaryOp None p op left right, s)
      else if op \<in> {T_AND, T_OR}
      then do {
        ((ty, left, right), s) \<leftarrow> CheckLogicalOperands op p left right s;
        Some (TBinaryOp ty p op left right, s) }
      else if op \<in> {T_AMPERSAND, T_BIT_XOR, T_BIT_OR, T_BIT_SHL, T_BIT_SHR, T_PLUS, T_MINUS, T_STAR, T_SLASH,
                    T_PERCENT}
      then do {
        ((ty, left, right), s) \<leftarrow> CheckArithmeticOperands op p left right s;
        Some (TBinaryOp ty p op left right, s) }
      else Some (TBinaryOp None p op left right, s))"

definition VisitComparisonOp :: "SourcePosition \<Rightarrow> TokenType \<Rightarrow> TExpr \<Rightarrow> TExpr \<Rightarrow> TExpr sema" where
  "VisitComparisonOp p op left right s =
     (if GetType left = None \<or> GetType right = None then Some (TComparison None p op left right, s)
      else if op \<in> {T_BANG_EQUAL, T_EQUAL_EQUAL, T_GREATER, T_GREATER_EQUAL, T_LESS, T_LESS_EQUAL}
      then do {
        ((ty, left, right), s) \<leftarrow> CheckComparisonOperands op p left right s;
        Some (TComparison ty p op left right, s) }
      else Some (TComparison None p op left right, s))"

text \<open>The arguments of a call against the parameters of the function type; all of them are checked.\<close>

fun check_call_args :: "TExpr \<Rightarrow> nat \<Rightarrow> Field list \<Rightarrow> TExpr list \<Rightarrow> (bool \<times> TExpr list) sema" where
  "check_call_args func arg_num params [] s = Some ((True, []), s)"
| "check_call_args func arg_num params (arg # args) s =
     (case params of
        [] \<Rightarrow> None
      | param # params \<Rightarrow> do {
          (ok, arg) \<leftarrow> CheckAssignmentConstraints (snd param) arg;
          s \<leftarrow> (if ok then Some s
               else do {
                 name \<leftarrow> GetFuncName func;
                 Some (ReportError (texpr_pos arg)
                   (kIncorrectCallArgType name (snd param) arg_num (GetType arg)) s) });
          ((oks, args), s) \<leftarrow> check_call_args func (arg_num + 1) params args s;
          Some ((ok \<and> oks, arg # args), s) })"

definition check_call :: "TExpr \<Rightarrow> Field list \<Rightarrow> Type \<Rightarrow> TExpr list \<Rightarrow> TExpr sema" where
  "check_call func params ret args s = do {
     ((ok, args), s) \<leftarrow> check_call_args func 0 params args s;
     Some (TCall (if ok then Some ret else None) func args RegularCall, s) }"

definition VisitIdentifierExpression :: "SourcePosition \<Rightarrow> string \<Rightarrow> TExpr sema" where
  "VisitIdentifierExpression p name s =
     (if sm_scopes s = [] then None
      else case Lookup (sm_scopes s) (Some name) of
        Some ty \<Rightarrow> Some (TIdentifier (Some ty) p name, s)
      | None \<Rightarrow>
          (case LookupBuiltinType name of
             Some ty \<Rightarrow> Some (TIdentifier (Some ty) p name, s)
           | None \<Rightarrow> Some (TIdentifier None p name, ReportError p (kUndefinedVariable name) s)))"

text \<open>The error for a literal index of an array, if there is one.\<close>

definition index_error :: "u64 \<Rightarrow> TExpr \<Rightarrow> (SourcePosition \<times> SemaMessage) option option" where
  "index_error len index =
     (case index of
        TLiteral _ p (IntLiteral index_val) \<Rightarrow>
          Some (if index_val < 0 then Some (p, kNegativeArrayIndexValue index_val)
                else if HasKnownLength len \<and> word_of_int index_val \<ge> len
                then Some (p, kOutOfBoundsArrayIndexValue index_val len)
                else None)
      | TLiteral _ _ _ \<Rightarrow> None
      | _ \<Rightarrow> Some None)"

definition VisitIndexExpression :: "SourcePosition \<Rightarrow> TExpr \<Rightarrow> TExpr \<Rightarrow> TExpr sema" where
  "VisitIndexExpression p object index s =
     (case (GetType object, GetType index) of
        (Some obj_type, Some index_type) \<Rightarrow>
          (if \<not> IsArrayType obj_type \<and> \<not> IsMapType obj_type
           then Some (TIndex None p object index, ReportError p (kInvalidIndexOperation obj_type) s)
           else if \<not> IsIntegerType index_type
           then Some (TIndex None p object index, ReportError p kNonIntegerArrayIndexValue s)
           else case obj_type of
             ArrayType len elem \<Rightarrow> do {
               err \<leftarrow> index_error len index;
               case err of
                 Some (q, m) \<Rightarrow> Some (TIndex None p object index, ReportError q m s)
               | None \<Rightarrow> Some (TIndex (Some elem) p object index, s) }
           | MapType k v \<Rightarrow> Some (TIndex (Some v) p object index, s)
           | _ \<Rightarrow> None)
      | _ \<Rightarrow> Some (TIndex None p object index, s))"

definition literal_type :: "Literal \<Rightarrow> Type option" where
  "literal_type l =
     (case l of
        NilLiteral \<Rightarrow> Some (bt K_Nil)
      | BoolLiteral _ \<Rightarrow> Some (bt K_Bool)
      | FloatLiteral _ \<Rightarrow> do {
          r \<leftarrow> IsRepresentable l (bt K_Float32);
          Some (if r then bt K_Float32 else bt K_Float64) }
      | IntLiteral _ \<Rightarrow> do {
          r \<leftarrow> IsRepresentable l (bt K_Int32);
          Some (if r then bt K_Int32 else bt K_Int64) }
      | StringLiteral _ \<Rightarrow> Some StringType)"

definition VisitLiteralExpression :: "SourcePosition \<Rightarrow> Literal \<Rightarrow> TExpr sema" where
  "VisitLiteralExpression p l s = do { ty \<leftarrow> literal_type l; Some (TLiteral (Some ty) p l, s) }"

text \<open>The type of a unary operation: no result for an operator that is not unary, an error as \<open>Some None\<close>.\<close>

definition unary_type :: "TokenType \<Rightarrow> Type \<Rightarrow> Type option option" where
  "unary_type op ty =
     (if op = T_BANG then Some (if IsBoolType ty then Some ty else None)
      else if op = T_BIT_NOT \<or> op = T_MINUS then Some (if IsArithmetic ty then Some ty else None)
      else if op = T_STAR then Some (GetPointeeType ty)
      else if op = T_AMPERSAND then Some (if IsFunctionType ty then None else Some (PointerType ty))
      else None)"

definition VisitUnaryOp :: "SourcePosition \<Rightarrow> TokenType \<Rightarrow> TExpr \<Rightarrow> TExpr sema" where
  "VisitUnaryOp p op input s =
     (case GetType input of
        None \<Rightarrow> Some (TUnaryOp None p op input, s)
      | Some ty \<Rightarrow> do {
          r \<leftarrow> unary_type op ty;
          case r of
            Some t \<Rightarrow> Some (TUnaryOp (Some t) p op input, s)
          | None \<Rightarrow> Some (TUnaryOp None p op input, ReportError p (kInvalidOperation op ty) s) })"

definition VisitMemberExpression :: "SourcePosition \<Rightarrow> TExpr \<Rightarrow> Expression \<Rightarrow> TExpr sema" where
  "VisitMemberExpression p object member s =
     (case GetType object of
        None \<Rightarrow> Some (TMember None p object member, s)
      | Some obj_type \<Rightarrow>
          (case (case obj_type of PointerType b \<Rightarrow> b | _ \<Rightarrow> obj_type) of
             StructType n fs \<Rightarrow>
               (case member of
                  IdentifierExpression q name \<Rightarrow>
                    (case LookupFieldByName fs (Some name) of
                       Some ty \<Rightarrow> Some (TMember (Some ty) p object member, s)
                     | None \<Rightarrow> Some (TMember None p object member,
                         ReportError q (kFieldObjectDoesNotExist name (StructType n fs)) s))
                | _ \<Rightarrow> Some (TMember None p object member,
                         ReportError (expr_pos member) kExpectedIdentifierForMember s))
           | ty \<Rightarrow> Some (TMember None p object member, ReportError p (kMemberObjectNotComposite ty) s)))"

section \<open>Functions\<close>

definition declare_params :: "Field list \<Rightarrow> Sema \<Rightarrow> Sema option" where
  "declare_params params s = fold_opt (\<lambda>param s. declare_in_scope (fst param) (snd param) s) params s"

definition enter_function :: "Type \<Rightarrow> Sema \<Rightarrow> Sema option" where
  "enter_function func_type s =
     (case func_type of
        FunctionType params ret \<Rightarrow> declare_params params ((EnterScope s)\<lparr>curr_func := Some func_type\<rparr>)
      | _ \<Rightarrow> None)"

definition exit_function :: "Type option \<Rightarrow> Sema \<Rightarrow> Sema option" where
  "exit_function prev_func s = do { s \<leftarrow> ExitScope s; Some (s\<lparr>curr_func := prev_func\<rparr>) }"

text \<open>
  The check that a function ends with a return: an empty return is appended to the body of a function that
  returns nil.
\<close>

definition append_return :: "SourcePosition \<Rightarrow> TStmt \<Rightarrow> TStmt option" where
  "append_return p body =
     (case body of TBlock q r stmts \<Rightarrow> Some (TBlock q r (stmts @ [TReturn p None])) | _ \<Rightarrow> None)"

definition check_return :: "SourcePosition \<Rightarrow> Type \<Rightarrow> Statement \<Rightarrow> TStmt \<Rightarrow> TStmt sema" where
  "check_return p func_type body tbody s =
     (case (body, func_type) of
        (BlockStatement _ rbrace stmts, FunctionType _ ret) \<Rightarrow> do {
          terminating \<leftarrow> (if stmts = [] then Some False else IsTerminating body);
          if terminating then Some (tbody, s)
          else if \<not> IsNilType ret then Some (tbody, ReportError rbrace kMissingReturn s)
          else do { tbody \<leftarrow> append_return p tbody; Some (tbody, s) } }
      | _ \<Rightarrow> None)"

section \<open>Statements\<close>

definition VisitAssignment :: "SourcePosition \<Rightarrow> TExpr \<Rightarrow> TExpr \<Rightarrow> TStmt sema" where
  "VisitAssignment p dest source s =
     (case (GetType source, GetType dest) of
        (Some src_type, Some dest_type) \<Rightarrow> do {
          (ok, source) \<leftarrow> CheckAssignmentConstraints dest_type source;
          Some (TAssignment p dest source,
            if ok then s else ReportError p (kInvalidAssignment src_type dest_type) s) }
      | _ \<Rightarrow> Some (TAssignment p dest source, s))"

text \<open>The condition of an if statement, cast when it is a SQL boolean.\<close>

definition check_condition :: "TExpr \<Rightarrow> TExpr sema" where
  "check_condition cond s = do {
     cond \<leftarrow> cast_sql_bool cond;
     ty \<leftarrow> GetType cond;
     Some (cond, if IsBoolType ty then s else ReportError (texpr_pos cond) kNonBoolIfCondition s) }"

definition VisitReturn :: "SourcePosition \<Rightarrow> Type \<Rightarrow> TExpr option \<Rightarrow> TStmt sema" where
  "VisitReturn p func_type value s =
     (case func_type of
        FunctionType _ ret \<Rightarrow>
          (let return_type = (case value of Some e \<Rightarrow> GetType e | None \<Rightarrow> None)
           in if IsNilType ret
              then Some (TReturn p value,
                case return_type of
                  Some ty \<Rightarrow> ReportError p (kMismatchedReturnType ty ret) s
                | None \<Rightarrow> s)
              else case (return_type, value) of
                (Some ty, Some e) \<Rightarrow> do {
                  (ok, e) \<leftarrow> CheckAssignmentConstraints ret e;
                  Some (TReturn p (Some e), if ok then s else ReportError p (kMismatchedReturnType ty ret) s) }
              | _ \<Rightarrow> Some (TReturn p value, ReportError p kMissingReturn s))
      | _ \<Rightarrow> None)"

section \<open>Declarations\<close>

fun field_name :: "Declaration \<Rightarrow> string option" where
  "field_name (FieldDeclaration _ n _) = n"
| "field_name (FunctionDeclaration _ n _) = Some n"
| "field_name (StructDeclaration _ n _) = Some n"
| "field_name (VariableDeclaration _ n _ _) = Some n"

fun duplicate_name :: "string option list \<Rightarrow> Declaration list \<Rightarrow> string option option" where
  "duplicate_name seen [] = None"
| "duplicate_name seen (f # fs) =
     (if field_name f \<in> set seen then Some (field_name f) else duplicate_name (field_name f # seen) fs)"

definition HasDuplicatesNames :: "Declaration list \<Rightarrow> string option option" where
  "HasDuplicatesNames fs = duplicate_name [] fs"

text \<open>A variable declaration once its type and its initial value are resolved.\<close>

definition VisitVariable :: "SourcePosition \<Rightarrow> string \<Rightarrow> TExpr option \<Rightarrow> TExpr option \<Rightarrow> TDecl sema" where
  "VisitVariable p name repr init s =
     (let declared_type = Option.bind repr GetType; initializer_type = Option.bind init GetType
      in case (declared_type, initializer_type) of
        (None, None) \<Rightarrow> Some (TVariable p name repr init, s)
      | (Some d, Some i) \<Rightarrow> do {
          e \<leftarrow> init;
          (ok, e) \<leftarrow> CheckAssignmentConstraints d e;
          if \<not> ok then Some (TVariable p name repr init, ReportError p (kInvalidAssignment d i) s)
          else do { s \<leftarrow> declare_in_scope (Some name) d s; Some (TVariable p name repr (Some e), s) } }
      | (None, Some i) \<Rightarrow>
          (if IsNilType i then Some (TVariable p name repr init, ReportError p kUseOfUntypedNil s)
           else do { s \<leftarrow> declare_in_scope (Some name) i s; Some (TVariable p name repr init, s) })
      | (Some d, None) \<Rightarrow> do { s \<leftarrow> declare_in_scope (Some name) d s; Some (TVariable p name repr init, s) })"

section \<open>Types\<close>

definition array_length :: "Expression option \<Rightarrow> (SourcePosition \<times> SemaMessage) + u64" where
  "array_length len =
     (case len of
        None \<Rightarrow> Inr 0
      | Some (LiteralExpression p (IntLiteral n)) \<Rightarrow>
          (if n < 0 then Inl (p, kNegativeArrayLength) else Inr (word_of_int n))
      | Some e \<Rightarrow> Inl (expr_pos e, kNonIntegerArrayLength))"

text \<open>A struct type is named when the declaration being checked is a struct declaration.\<close>

definition make_struct_type :: "Field list \<Rightarrow> Type sema" where
  "make_struct_type fs s =
     (case curr_decl_context s of
        Some (InStruct name) \<Rightarrow> do {
          (ty, c) \<leftarrow> StructType_Get_named name fs (sm_context s);
          Some (ty, s\<lparr>sm_context := c\<rparr>) }
      | _ \<Rightarrow> Some (StructType_Get fs, s))"

definition enter_decl :: "DeclContext \<Rightarrow> Sema \<Rightarrow> Sema" where
  "enter_decl d s = s\<lparr>curr_decl_context := Some d\<rparr>"

definition exit_decl :: "DeclContext option \<Rightarrow> Sema \<Rightarrow> Sema" where
  "exit_decl d s = s\<lparr>curr_decl_context := d\<rparr>"

section \<open>Casts and offsets\<close>

text \<open>
  The target type of \<^verbatim>\<open>@intCast\<close>. The name is looked up among the builtin types only, and an unknown name is
  a null pointer that is dereferenced.
\<close>

definition int_cast_target :: "Expression \<Rightarrow> (SemaMessage + Type) option" where
  "int_cast_target e =
     (case e of
        IdentifierExpression q name \<Rightarrow> do {
          ty \<leftarrow> LookupBuiltinType name;
          Some (if IsIntegerType ty then Inr ty else Inl (kBadArgToIntCast1 name)) }
      | _ \<Rightarrow> Some (Inl kBadArgToIntCast))"

definition finish_int_cast :: "TExpr \<Rightarrow> Type \<Rightarrow> TExpr list \<Rightarrow> Type option \<Rightarrow> TExpr sema" where
  "finish_int_cast func ty args resolved_type s =
     Some (case resolved_type of
             None \<Rightarrow> (TCall None func args BuiltinCall, s)
           | Some t \<Rightarrow>
               (if IsIntegerType t then (TCall (Some ty) func args BuiltinCall, s)
                else (TCall None func args BuiltinCall, ReportError (texpr_pos func) (kBadArgToIntCast2 t) s)))"

text \<open>
  The first argument of \<^verbatim>\<open>@ptrCast\<close> is parsed as a dereference and becomes a pointer type. Any other unary
  operator is an error, reported with the type of an argument that is not resolved yet.
\<close>

fun unary_not_star :: "Expression \<Rightarrow> bool" where
  "unary_not_star (UnaryOpExpression _ op _) = (op \<noteq> T_STAR)"
| "unary_not_star _ = False"

definition finish_ptr_cast :: "TExpr \<Rightarrow> TExpr \<Rightarrow> TExpr \<Rightarrow> TExpr sema" where
  "finish_ptr_cast func target e s =
     Some (case (GetType target, GetType e) of
             (Some t0, Some t1) \<Rightarrow>
               (if \<not> IsPointerType t0 \<or> \<not> IsPointerType t1
                then (TCall None func [target, e] BuiltinCall,
                      ReportError (texpr_pos func) (kBadArgToPtrCast (Some t0) 1) s)
                else (TCall (Some t0) func [target, e] BuiltinCall, s))
           | _ \<Rightarrow> (TCall None func [target, e] BuiltinCall, s))"

definition finish_offset_of :: "TExpr \<Rightarrow> TExpr \<Rightarrow> Expression \<Rightarrow> TExpr sema" where
  "finish_offset_of func object field s =
     (let args = [object, UnvisitedExpr field]
      in case GetType object of
           Some (StructType n fs) \<Rightarrow>
             (case field of
                IdentifierExpression q name \<Rightarrow>
                  Some (if LookupFieldByName fs (Some name) = None
                        then (TCall None func args BuiltinCall,
                              ReportError (texpr_pos func) (kFieldObjectDoesNotExist name (StructType n fs)) s)
                        else (TCall (Some (bt K_UInt32)) func args BuiltinCall, s))
              | _ \<Rightarrow> do {
                  s \<leftarrow> ReportIncorrectCallArg2 func args 1 ''identifier expression'' s;
                  Some (TCall None func args BuiltinCall, s) })
         | _ \<Rightarrow> do {
             s \<leftarrow> ReportIncorrectCallArg2 func args 0 ''composite'' s;
             Some (TCall None func args BuiltinCall, s) })"

section \<open>The visitor\<close>

text \<open>
  \<open>VisitArgs\<close> resolves the arguments of a call and stops at the first that has no type; \<open>VisitFields\<close>
  collects the fields of a struct or the parameters of a function and stops at the first whose type is unknown.
\<close>

fun VisitExpr :: "abi \<Rightarrow> Expression \<Rightarrow> TExpr sema"
  and VisitExprOption :: "abi \<Rightarrow> Expression option \<Rightarrow> TExpr sema"
  and VisitArgs :: "abi \<Rightarrow> Expression list \<Rightarrow> (bool \<times> TExpr list) sema"
  and VisitStmt :: "abi \<Rightarrow> Statement \<Rightarrow> TStmt sema"
  and VisitStmtOption :: "abi \<Rightarrow> Statement option \<Rightarrow> TStmt option sema"
  and VisitStmts :: "abi \<Rightarrow> Statement list \<Rightarrow> TStmt list sema"
  and VisitDecl :: "abi \<Rightarrow> Declaration \<Rightarrow> TDecl sema"
  and VisitFields :: "abi \<Rightarrow> Declaration list \<Rightarrow> (TDecl list \<times> Field list option) sema"
where
  "VisitExpr A (BadExpression p) s = None"
| "VisitExpr A (BinaryOpExpression p op l r) s = do {
     (l, s) \<leftarrow> VisitExpr A l s;
     (r, s) \<leftarrow> VisitExpr A r s;
     VisitBinaryOp p op l r s }"
| "VisitExpr A (ComparisonOpExpression p op l r) s = do {
     (l, s) \<leftarrow> VisitExpr A l s;
     (r, s) \<leftarrow> VisitExpr A r s;
     VisitComparisonOp p op l r s }"
| "VisitExpr A (CallExpression f args RegularCall) s = do {
     (func, s) \<leftarrow> VisitExpr A f s;
     case GetType func of
       None \<Rightarrow> Some (TCall None func (map UnvisitedExpr args) RegularCall, s)
     | Some (FunctionType params ret) \<Rightarrow> do {
         (ok, s) \<leftarrow> CheckArgCount func (length args) (length params) s;
         if \<not> ok then Some (TCall None func (map UnvisitedExpr args) RegularCall, s)
         else do {
           ((ok, targs), s) \<leftarrow> VisitArgs A args s;
           if \<not> ok then Some (TCall None func targs RegularCall, s)
           else check_call func params ret targs s } }
     | Some _ \<Rightarrow> Some (TCall None func (map UnvisitedExpr args) RegularCall,
                      ReportError (texpr_pos func) kNonFunction s) }"
| "VisitExpr A (CallExpression f args BuiltinCall) s = do {
     let func = UnvisitedExpr f;
     let untyped = (\<lambda>s. Some (TCall None func (map UnvisitedExpr args) BuiltinCall, s));
     name \<leftarrow> GetFuncName func;
     case IsBuiltinFunction name of
       None \<Rightarrow> untyped (ReportError (texpr_pos func) (kInvalidBuiltinFunction name) s)
     | Some builtin \<Rightarrow>
         (if builtin \<in> {IntCast, PtrCast, OffsetOf}
          then do {
            (ok, s) \<leftarrow> CheckArgCount func (length args) 2 s;
            if \<not> ok then untyped s
            else case args of
              [arg0, arg1] \<Rightarrow>
                (if builtin = IntCast
                 then do {
                   target \<leftarrow> int_cast_target arg0;
                   case target of
                     Inl m \<Rightarrow> untyped (ReportError (texpr_pos func) m s)
                   | Inr ty \<Rightarrow> do {
                       (e, s) \<leftarrow> VisitExpr A arg1 s;
                       finish_int_cast func ty [UnvisitedExpr arg0, e] (GetType e) s } }
                 else if builtin = PtrCast
                 then (if unary_not_star arg0
                       then untyped (ReportError (texpr_pos func) (kBadArgToPtrCast None 1) s)
                       else do {
                         (target, s) \<leftarrow> (case arg0 of
                             UnaryOpExpression q op input \<Rightarrow> do {
                               (base, s) \<leftarrow> VisitExpr A input s;
                               Some (TPointerTypeRepr (map_option PointerType (GetType base)) q base, s) }
                           | _ \<Rightarrow> VisitExpr A arg0 s);
                         if GetType target = None
                         then Some (TCall None func [target, UnvisitedExpr arg1] BuiltinCall, s)
                         else do { (e, s) \<leftarrow> VisitExpr A arg1 s; finish_ptr_cast func target e s } })
                 else do {
                   (object, s) \<leftarrow> VisitExpr A arg0 s;
                   finish_offset_of func object arg1 s })
            | _ \<Rightarrow> None }
          else do {
            ((ok, targs), s) \<leftarrow> VisitArgs A args s;
            if \<not> ok then Some (TCall None func targs BuiltinCall, s)
            else do {
              ((ty, targs), s) \<leftarrow> check_resolved_builtin A func builtin targs s;
              Some (TCall ty func targs BuiltinCall, s) } }) }"
| "VisitExpr A (FunctionLiteralExpression r body) s = do {
     (r, s) \<leftarrow> VisitExpr A r s;
     case GetType r of
       None \<Rightarrow> Some (TFunctionLiteral None r (UnvisitedStmt body), s)
     | Some func_type \<Rightarrow> do {
         let prev_func = curr_func s;
         s \<leftarrow> enter_function func_type s;
         (tbody, s) \<leftarrow> VisitStmt A body s;
         (tbody, s) \<leftarrow> check_return (texpr_pos r) func_type body tbody s;
         s \<leftarrow> exit_function prev_func s;
         Some (TFunctionLiteral (Some func_type) r tbody, s) } }"
| "VisitExpr A (IdentifierExpression p name) s = VisitIdentifierExpression p name s"
| "VisitExpr A (IndexExpression p object index) s = do {
     (object, s) \<leftarrow> VisitExpr A object s;
     (index, s) \<leftarrow> VisitExpr A index s;
     VisitIndexExpression p object index s }"
| "VisitExpr A (LiteralExpression p l) s = VisitLiteralExpression p l s"
| "VisitExpr A (MemberExpression p object member) s = do {
     (object, s) \<leftarrow> VisitExpr A object s;
     VisitMemberExpression p object member s }"
| "VisitExpr A (UnaryOpExpression p op input) s = do {
     (input, s) \<leftarrow> VisitExpr A input s;
     VisitUnaryOp p op input s }"
| "VisitExpr A (ArrayTypeRepr p len elem) s =
     (case array_length len of
        Inl (q, m) \<Rightarrow> Some (TArrayTypeRepr None p len (map_option UnvisitedExpr elem), ReportError q m s)
      | Inr arr_len \<Rightarrow> do {
          (elem, s) \<leftarrow> VisitExprOption A elem s;
          Some (TArrayTypeRepr (map_option (ArrayType arr_len) (GetType elem)) p len (Some elem), s) })"
| "VisitExpr A (FunctionTypeRepr p params ret) s = do {
     ((tparams, param_types), s) \<leftarrow> VisitFields A params s;
     case param_types of
       None \<Rightarrow> Some (TFunctionTypeRepr None p tparams (map_option UnvisitedExpr ret), s)
     | Some fs \<Rightarrow> do {
         (r, s) \<leftarrow> VisitExprOption A ret s;
         Some (TFunctionTypeRepr (map_option (FunctionType fs) (GetType r)) p tparams (Some r), s) } }"
| "VisitExpr A (MapTypeRepr p key val) s = do {
     (k, s) \<leftarrow> VisitExprOption A key s;
     (v, s) \<leftarrow> VisitExprOption A val s;
     Some (TMapTypeRepr (case (GetType k, GetType v) of (Some a, Some b) \<Rightarrow> Some (MapType a b) | _ \<Rightarrow> None) p k v,
           s) }"
| "VisitExpr A (PointerTypeRepr p base) s = do {
     (b, s) \<leftarrow> VisitExprOption A base s;
     Some (TPointerTypeRepr (map_option PointerType (GetType b)) p b, s) }"
| "VisitExpr A (StructTypeRepr p fds) s = do {
     ((tfields, field_types), s) \<leftarrow> VisitFields A fds s;
     case field_types of
       None \<Rightarrow> Some (TStructTypeRepr None p tfields, s)
     | Some fs \<Rightarrow> do { (ty, s) \<leftarrow> make_struct_type fs s; Some (TStructTypeRepr (Some ty) p tfields, s) } }"
| "VisitExprOption A None s = None"
| "VisitExprOption A (Some e) s = VisitExpr A e s"
| "VisitArgs A [] s = Some ((True, []), s)"
| "VisitArgs A (e # es) s = do {
     (t, s) \<leftarrow> VisitExpr A e s;
     if GetType t = None then Some ((False, t # map UnvisitedExpr es), s)
     else do { ((ok, ts), s) \<leftarrow> VisitArgs A es s; Some ((ok, t # ts), s) } }"
| "VisitStmt A (AssignmentStatement p dest source) s = do {
     (source, s) \<leftarrow> VisitExpr A source s;
     (dest, s) \<leftarrow> VisitExpr A dest s;
     VisitAssignment p dest source s }"
| "VisitStmt A (BlockStatement p q stmts) s = do {
     (ts, s) \<leftarrow> VisitStmts A stmts (EnterScope s);
     s \<leftarrow> ExitScope s;
     Some (TBlock p q ts, s) }"
| "VisitStmt A (DeclarationStatement d) s = do { (d, s) \<leftarrow> VisitDecl A d s; Some (TDeclaration d, s) }"
| "VisitStmt A (ExpressionStatement e) s = do { (e, s) \<leftarrow> VisitExpr A e s; Some (TExpression e, s) }"
| "VisitStmt A (ForStatement p init cond nxt body) s = do {
     (ti, s) \<leftarrow> VisitStmtOption A init (EnterScope s);
     case cond of
       None \<Rightarrow> do {
         (tn, s) \<leftarrow> VisitStmtOption A nxt s;
         (tb, s) \<leftarrow> VisitStmt A body s;
         s \<leftarrow> ExitScope s;
         Some (TFor p ti None tn tb, s) }
     | Some c \<Rightarrow> do {
         (c, s) \<leftarrow> VisitExpr A c s;
         case GetType c of
           None \<Rightarrow> do {
             s \<leftarrow> ExitScope s;
             Some (TFor p ti (Some c) (map_option UnvisitedStmt nxt) (UnvisitedStmt body), s) }
         | Some ty \<Rightarrow> do {
             let s = (if \<not> IsBoolType ty then ReportError (texpr_pos c) kNonBoolForCondition s else s);
             (tn, s) \<leftarrow> VisitStmtOption A nxt s;
             (tb, s) \<leftarrow> VisitStmt A body s;
             s \<leftarrow> ExitScope s;
             Some (TFor p ti (Some c) tn tb, s) } } }"
| "VisitStmt A (ForInStatement p a b c) s = None"
| "VisitStmt A (IfStatement p c t e) s = do {
     (c, s) \<leftarrow> VisitExpr A c s;
     if GetType c = None then Some (TIf p c (UnvisitedStmt t) (map_option UnvisitedStmt e), s)
     else do {
       (c, s) \<leftarrow> check_condition c s;
       (tt, s) \<leftarrow> VisitStmt A t s;
       (te, s) \<leftarrow> VisitStmtOption A e s;
       Some (TIf p c tt te, s) } }"
| "VisitStmt A (ReturnStatement p val) s =
     (case curr_func s of
        None \<Rightarrow> Some (TReturn p (map_option UnvisitedExpr val), ReportError p kReturnOutsideFunction s)
      | Some func_type \<Rightarrow>
          (case val of
             None \<Rightarrow> VisitReturn p func_type None s
           | Some e \<Rightarrow> do { (e, s) \<leftarrow> VisitExpr A e s; VisitReturn p func_type (Some e) s }))"
| "VisitStmtOption A None s = Some (None, s)"
| "VisitStmtOption A (Some st) s = do { (t, s) \<leftarrow> VisitStmt A st s; Some (Some t, s) }"
| "VisitStmts A [] s = Some ([], s)"
| "VisitStmts A (st # sts) s = do {
     (t, s) \<leftarrow> VisitStmt A st s;
     (ts, s) \<leftarrow> VisitStmts A sts s;
     Some (t # ts, s) }"
| "VisitDecl A (FieldDeclaration p name repr) s = do {
     let saved = curr_decl_context s;
     (r, s) \<leftarrow> VisitExprOption A repr (enter_decl InOther s);
     Some (TField p name r, exit_decl saved s) }"
| "VisitDecl A (FunctionDeclaration p name func) s =
     (case func of
        FunctionLiteralExpression r body \<Rightarrow> do {
          let saved = curr_decl_context s;
          (tr, s) \<leftarrow> VisitExpr A r (enter_decl InOther s);
          let bad = TFunction p name (TFunctionLiteral None tr (UnvisitedStmt body));
          case (GetType tr, r) of
            (None, _) \<Rightarrow> Some (bad, exit_decl saved s)
          | (Some func_type, FunctionTypeRepr _ params _) \<Rightarrow>
              (case HasDuplicatesNames params of
                 Some dup \<Rightarrow> Some (bad, exit_decl saved (ReportError p (kDuplicateArgName dup name) s))
               | None \<Rightarrow> do {
                   s \<leftarrow> declare_in_scope (Some name) func_type s;
                   let prev_func = curr_func s;
                   s \<leftarrow> enter_function func_type s;
                   (tbody, s) \<leftarrow> VisitStmt A body s;
                   (tbody, s) \<leftarrow> check_return (texpr_pos tr) func_type body tbody s;
                   s \<leftarrow> exit_function prev_func s;
                   Some (TFunction p name (TFunctionLiteral (Some func_type) tr tbody), exit_decl saved s) })
          | _ \<Rightarrow> None }
      | _ \<Rightarrow> None)"
| "VisitDecl A (StructDeclaration p name repr) s = do {
     let saved = curr_decl_context s;
     (tr, s) \<leftarrow> VisitExpr A repr (enter_decl (InStruct name) s);
     case (GetType tr, repr) of
       (None, _) \<Rightarrow> Some (TStruct p name tr, exit_decl saved s)
     | (Some struct_type, StructTypeRepr _ fds) \<Rightarrow>
         (case HasDuplicatesNames fds of
            Some dup \<Rightarrow> Some (TStruct p name tr,
              exit_decl saved (ReportError p (kDuplicateStructFieldName dup name) s))
          | None \<Rightarrow> do {
              s \<leftarrow> declare_in_scope (Some name) struct_type s;
              Some (TStruct p name tr, exit_decl saved s) })
     | _ \<Rightarrow> None }"
| "VisitDecl A (VariableDeclaration p name repr init) s =
     (case sm_scopes s of
        [] \<Rightarrow> None
      | scope # _ \<Rightarrow>
          (if LookupLocal scope (Some name) \<noteq> None
           then Some (TVariable p name (map_option UnvisitedExpr repr) (map_option UnvisitedExpr init),
                      ReportError p (kVariableRedeclared name) s)
           else do {
             tpl_assert (repr \<noteq> None \<or> init \<noteq> None);
             let saved = curr_decl_context s;
             (r, s) \<leftarrow> (case repr of
                 None \<Rightarrow> Some (None, enter_decl InOther s)
               | Some e \<Rightarrow> do { (t, s) \<leftarrow> VisitExpr A e (enter_decl InOther s); Some (Some t, s) });
             (i, s) \<leftarrow> (case init of
                 None \<Rightarrow> Some (None, s)
               | Some e \<Rightarrow> do { (t, s) \<leftarrow> VisitExpr A e s; Some (Some t, s) });
             (d, s) \<leftarrow> VisitVariable p name r i s;
             Some (d, exit_decl saved s) }))"
| "VisitFields A [] s = Some (([], Some []), s)"
| "VisitFields A (f # fs) s = do {
     (t, s) \<leftarrow> VisitDecl A f s;
     case t of
       TField p name r \<Rightarrow>
         (case GetType r of
            None \<Rightarrow> Some ((t # map UnvisitedDecl fs, None), s)
          | Some ty \<Rightarrow> do {
              ((ts, tys), s) \<leftarrow> VisitFields A fs s;
              Some ((t # ts, map_option (\<lambda>l. (name, ty) # l) tys), s) })
     | _ \<Rightarrow> None }"

definition VisitFile :: "abi \<Rightarrow> File \<Rightarrow> TDecl list sema" where
  "VisitFile A f s = do {
     (ds, s) \<leftarrow> fold_opt (\<lambda>d (ds, s). do { (d, s) \<leftarrow> VisitDecl A d s; Some (ds @ [d], s) })
       (file_decls f) ([], EnterScope s);
     s \<leftarrow> ExitScope s;
     Some (ds, s) }"

definition Sema_new :: "Context \<Rightarrow> Sema" where
  "Sema_new c = \<lparr>sm_context = c, sm_errors = [], sm_scopes = [], curr_func = None, curr_decl_context = None\<rparr>"

text \<open>\<^verbatim>\<open>Run\<close> returns whether errors were reported.\<close>

definition Sema_Run :: "abi \<Rightarrow> Context \<Rightarrow> File \<Rightarrow> (bool \<times> TDecl list \<times> Sema) option" where
  "Sema_Run A c f = do {
     (ds, s) \<leftarrow> VisitFile A f (Sema_new c);
     Some (sm_errors s \<noteq> [], ds, s) }"

end
