(* ===== verification/SemaInvariant.thy ===== *)
theory SemaInvariant
  imports SemaVisit
begin

text \<open>
  What semantic analysis changes in its state. The checks only report errors. A visit of an expression leaves
  the scopes, the current function and the current declaration as they were; a visit of a statement or
  declaration only adds names to the innermost scope, and only names that no open scope has.
\<close>

section \<open>What the checks change\<close>

named_theorems reports \<open>operations that only report errors\<close>

definition reports :: "Sema \<Rightarrow> Sema \<Rightarrow> bool" where
  "reports s s' \<longleftrightarrow> (\<exists>es. s' = s\<lparr>sm_errors := sm_errors s @ es\<rparr>)"

lemma reports_refl [simp, intro]: "reports s s"
  by (auto simp: reports_def intro: exI [of _ "[]"])

lemma reports_ReportError [simp, intro]: "reports s (ReportError p m s)"
  by (auto simp: reports_def ReportError_def)

lemma reports_trans: "reports s t \<Longrightarrow> reports t u \<Longrightarrow> reports s u"
  by (auto simp: reports_def)

lemma CheckArgCount_reports [reports]: "CheckArgCount f n m s = Some (ok, s') \<Longrightarrow> reports s s'"
  by (auto simp: CheckArgCount_def split: if_splits bind_splits)

lemma CheckArgCountAtLeast_reports [reports]: "CheckArgCountAtLeast f n m s = Some (ok, s') \<Longrightarrow> reports s s'"
  by (auto simp: CheckArgCountAtLeast_def split: if_splits bind_splits)

lemma ReportIncorrectCallArg_reports [reports]: "ReportIncorrectCallArg f args i t s = Some s' \<Longrightarrow> reports s s'"
  by (auto simp: ReportIncorrectCallArg_def split: bind_splits)

lemma ReportIncorrectCallArg2_reports [reports]: "ReportIncorrectCallArg2 f args i t s = Some s' \<Longrightarrow> reports s s'"
  by (auto simp: ReportIncorrectCallArg2_def split: bind_splits)

lemma CheckLogicalOperands_reports [reports]: "CheckLogicalOperands op p l r s = Some (x, s') \<Longrightarrow> reports s s'"
  by (auto simp: CheckLogicalOperands_def split: if_splits bind_splits)

lemma illegal_operands_reports [reports]: "illegal_operands op p l r s = Some (x, s') \<Longrightarrow> reports s s'"
  by (auto simp: illegal_operands_def)

lemma CheckArithmeticOperands_reports [reports]:
  "CheckArithmeticOperands op p l r s = Some (x, s') \<Longrightarrow> reports s s'"
  by (auto simp: CheckArithmeticOperands_def illegal_operands_reports split: if_splits bind_splits)

lemma CheckComparisonOperands_reports [reports]:
  "CheckComparisonOperands op p l r s = Some (x, s') \<Longrightarrow> reports s s'"
  by (auto simp: CheckComparisonOperands_def illegal_operands_reports split: if_splits bind_splits)

lemma check_arg_reports [reports]: "check_arg f spec i args s = Some (x, s') \<Longrightarrow> reports s s'"
  by (auto simp: check_arg_def dest: reports
      split: if_splits bind_splits ArgSpec.splits TExpr.splits Literal.splits option.splits)

lemma ArgCheck_reports [reports]: "ArgCheck f specs i args s = Some (x, s') \<Longrightarrow> reports s s'"
  by (induction f specs i args s rule: ArgCheck.induct)
    (auto split: bind_splits if_splits dest!: check_arg_reports intro: reports_trans)

lemma GenericBuiltinCheck_reports [reports]:
  "GenericBuiltinCheck ret specs f args s = Some (x, s') \<Longrightarrow> reports s s'"
  by (auto simp: GenericBuiltinCheck_def split: bind_splits if_splits
      dest!: CheckArgCount_reports ArgCheck_reports intro: reports_trans)

lemma check_signature_reports [reports]: "check_signature f args sig s = Some (x, s') \<Longrightarrow> reports s s'"
  by (auto simp: check_signature_def split: bind_splits dest: GenericBuiltinCheck_reports)

lemma CheckNullValueCall_reports [reports]: "CheckNullValueCall f b args s = Some (x, s') \<Longrightarrow> reports s s'"
  by (auto simp: CheckNullValueCall_def split: bind_splits if_splits NullValue.splits
      dest!: CheckArgCount_reports ReportIncorrectCallArg2_reports intro: reports_trans)

lemma CheckBuiltinConcat_reports [reports]: "CheckBuiltinConcat f args s = Some (x, s') \<Longrightarrow> reports s s'"
  by (auto simp: CheckBuiltinConcat_def split: bind_splits if_splits option.splits
      dest!: CheckArgCountAtLeast_reports intro: reports_trans [OF _ reports_ReportError])

lemma CheckBuiltinHashCall_reports [reports]: "CheckBuiltinHashCall f args s = Some (x, s') \<Longrightarrow> reports s s'"
  by (auto simp: CheckBuiltinHashCall_def split: bind_splits if_splits option.splits
      dest!: CheckArgCountAtLeast_reports intro: reports_trans [OF _ reports_ReportError])

lemma not_aggregate_reports [reports]: "not_aggregate f args ty s = Some (x, s') \<Longrightarrow> reports s s'"
  by (auto simp: not_aggregate_def)

lemma CheckBuiltinAggregatorCall_reports [reports]:
  "CheckBuiltinAggregatorCall f b args s = Some (x, s') \<Longrightarrow> reports s s'"
  by (auto simp: CheckBuiltinAggregatorCall_def split: bind_splits if_splits option.splits AggregatorCall.splits
      Type.splits dest!: CheckArgCount_reports ReportIncorrectCallArg2_reports not_aggregate_reports
      intro: reports_trans)

lemma check_filters_reports [reports]: "check_filters f args is s = Some (x, s') \<Longrightarrow> reports s s'"
  by (induction f args "is" s rule: check_filters.induct)
    (auto split: bind_splits if_splits dest!: ReportIncorrectCallArg2_reports intro: reports_trans)

lemma CheckBuiltinFilterManagerCall_reports [reports]:
  "CheckBuiltinFilterManagerCall f b args s = Some (x, s') \<Longrightarrow> reports s s'"
  by (auto simp: CheckBuiltinFilterManagerCall_def split: bind_splits if_splits FilterManagerCall.splits
      dest!: CheckArgCountAtLeast_reports ReportIncorrectCallArg_reports check_filters_reports
        GenericBuiltinCheck_reports intro: reports_trans)

lemma CheckBuiltinVectorFilterCall_reports [reports]:
  "CheckBuiltinVectorFilterCall f args s = Some (x, s') \<Longrightarrow> reports s s'"
  by (auto simp: CheckBuiltinVectorFilterCall_def Let_def split: bind_splits if_splits
      dest!: CheckArgCount_reports ReportIncorrectCallArg_reports intro: reports_trans)

lemma CheckBuiltinBitsCall_reports [reports]: "CheckBuiltinBitsCall A f args s = Some (x, s') \<Longrightarrow> reports s s'"
  by (auto simp: CheckBuiltinBitsCall_def split: bind_splits if_splits Type.splits
      dest!: CheckArgCount_reports ReportIncorrectCallArg2_reports intro: reports_trans)

lemma CheckBuiltinSizeOfCall_reports [reports]: "CheckBuiltinSizeOfCall f args s = Some (x, s') \<Longrightarrow> reports s s'"
  by (auto simp: CheckBuiltinSizeOfCall_def split: bind_splits if_splits dest!: CheckArgCount_reports)

lemmas signature_checks =
  CheckSqlConversionCall_def CheckBuiltinExecutionContextCall_def CheckBuiltinThreadStateContainerCall_def
  CheckBuiltinTableIterCall_def CheckBuiltinVPICall_def CheckBuiltinCompactStorageWriteCall_def
  CheckBuiltinCompactStorageReadCall_def CheckBuiltinAggHashTableCall_def CheckBuiltinAggHashTableIterCall_def
  CheckBuiltinAggPartIterCall_def CheckBuiltinJoinHashTableCall_def CheckBuiltinHashTableEntryCall_def
  CheckBuiltinAnalysisStatsCall_def CheckBuiltinSorterCall_def CheckBuiltinSorterIterCall_def
  CheckResultBufferCall_def CheckCSVReaderCall_def CheckMathTrigCall_def

lemma check_resolved_builtin_reports [reports]:
  "check_resolved_builtin A f b args s = Some (x, s') \<Longrightarrow> reports s s'"
  by (cases b) (auto simp: check_resolved_builtin_def CheckBuiltinStringLikeCall_def CheckBuiltinDateFunctionCall_def
      signature_checks dest: reports)

lemma VisitBinaryOp_reports [reports]: "VisitBinaryOp p op l r s = Some (x, s') \<Longrightarrow> reports s s'"
  by (auto simp: VisitBinaryOp_def split: if_splits bind_splits
      dest: CheckLogicalOperands_reports CheckArithmeticOperands_reports)

lemma VisitComparisonOp_reports [reports]: "VisitComparisonOp p op l r s = Some (x, s') \<Longrightarrow> reports s s'"
  by (auto simp: VisitComparisonOp_def split: if_splits bind_splits dest: CheckComparisonOperands_reports)

lemma check_call_args_reports [reports]: "check_call_args f n ps args s = Some (x, s') \<Longrightarrow> reports s s'"
proof (induction args arbitrary: n ps s x s')
  case (Cons arg args)
  show ?case
    using Cons.prems
    by (cases ps) (auto split: bind_splits if_splits dest!: Cons.IH intro: reports_trans [OF reports_ReportError])
qed auto

lemma check_call_reports [reports]: "check_call f ps ret args s = Some (x, s') \<Longrightarrow> reports s s'"
  by (auto simp: check_call_def split: bind_splits dest: check_call_args_reports)

lemma VisitIdentifierExpression_reports [reports]:
  "VisitIdentifierExpression p n s = Some (x, s') \<Longrightarrow> reports s s'"
  by (auto simp: VisitIdentifierExpression_def split: if_splits option.splits)

lemma VisitIndexExpression_reports [reports]: "VisitIndexExpression p o1 i s = Some (x, s') \<Longrightarrow> reports s s'"
  by (auto simp: VisitIndexExpression_def split: if_splits option.splits Type.splits bind_splits)

lemma VisitLiteralExpression_reports [reports]: "VisitLiteralExpression p l s = Some (x, s') \<Longrightarrow> reports s s'"
  by (auto simp: VisitLiteralExpression_def split: bind_splits)

lemma VisitUnaryOp_reports [reports]: "VisitUnaryOp p op i s = Some (x, s') \<Longrightarrow> reports s s'"
  by (auto simp: VisitUnaryOp_def split: option.splits bind_splits)

lemma VisitMemberExpression_reports [reports]: "VisitMemberExpression p o1 m s = Some (x, s') \<Longrightarrow> reports s s'"
  by (auto simp: VisitMemberExpression_def split: option.splits Type.splits Expression.splits)

lemma check_return_reports [reports]: "check_return p t b tb s = Some (x, s') \<Longrightarrow> reports s s'"
  by (auto simp: check_return_def split: Statement.splits Type.splits bind_splits if_splits)

lemma VisitAssignment_reports [reports]: "VisitAssignment p d e s = Some (x, s') \<Longrightarrow> reports s s'"
  by (auto simp: VisitAssignment_def split: option.splits bind_splits)

lemma check_condition_reports [reports]: "check_condition c s = Some (x, s') \<Longrightarrow> reports s s'"
  by (auto simp: check_condition_def split: bind_splits)

lemma VisitReturn_reports [reports]: "VisitReturn p t v s = Some (x, s') \<Longrightarrow> reports s s'"
  by (auto simp: VisitReturn_def Let_def split: Type.splits option.splits bind_splits if_splits)

lemma finish_int_cast_reports [reports]: "finish_int_cast f ty args r s = Some (x, s') \<Longrightarrow> reports s s'"
  by (auto simp: finish_int_cast_def split: option.splits if_splits)

lemma finish_ptr_cast_reports [reports]: "finish_ptr_cast f t e s = Some (x, s') \<Longrightarrow> reports s s'"
  by (auto simp: finish_ptr_cast_def split: option.splits if_splits)

lemma finish_offset_of_reports [reports]: "finish_offset_of f o1 e s = Some (x, s') \<Longrightarrow> reports s s'"
  by (auto simp: finish_offset_of_def Let_def split: option.splits if_splits Type.splits Expression.splits bind_splits
      dest: ReportIncorrectCallArg2_reports)

section \<open>What the visitor changes\<close>

text \<open>
  A visit of an expression reports errors and may make named structs; it leaves the scopes, the current function
  and the current declaration as they were. A visit of a statement or declaration may in addition declare names
  in the innermost scope, and only names that no scope has.
\<close>

definition expr_frame :: "Sema \<Rightarrow> Sema \<Rightarrow> bool" where
  "expr_frame s s' \<longleftrightarrow> (\<exists>es c. s' = s\<lparr>sm_errors := sm_errors s @ es, sm_context := c\<rparr>)"

fun scope_ext :: "Scope list \<Rightarrow> Scope list \<Rightarrow> bool" where
  "scope_ext [] scopes = (scopes = [])"
| "scope_ext (scope # outer) scopes =
     (\<exists>new. scopes = (new @ scope) # outer \<and> (\<forall>x \<in> fst ` set new. Lookup (scope # outer) x = None))"

definition stmt_frame :: "Sema \<Rightarrow> Sema \<Rightarrow> bool" where
  "stmt_frame s s' \<longleftrightarrow> (\<exists>es c scopes. scope_ext (sm_scopes s) scopes \<and>
     s' = s\<lparr>sm_errors := sm_errors s @ es, sm_context := c, sm_scopes := scopes\<rparr>)"

lemma scope_ext_refl [simp, intro]: "scope_ext scopes scopes"
  by (cases scopes) auto

lemma scope_ext_trans: "scope_ext a b \<Longrightarrow> scope_ext b c \<Longrightarrow> scope_ext a c"
proof (cases a)
  case (Cons sc outer)
  assume "scope_ext a b" "scope_ext b c"
  with Cons obtain n m where b: "b = (n @ sc) # outer" "\<forall>x \<in> fst ` set n. Lookup (sc # outer) x = None"
    and c: "c = (m @ n @ sc) # outer" "\<forall>x \<in> fst ` set m. Lookup ((n @ sc) # outer) x = None"
    by auto
  have "\<forall>x \<in> fst ` set m. Lookup (sc # outer) x = None"
    using c(2) by (auto simp: LookupLocal_def map_add_def split: option.splits)
  then show ?thesis using Cons b c by (auto intro!: exI [of _ "m @ n"])
qed auto

lemma expr_frame_refl [simp]: "expr_frame s s"
  by (auto simp: expr_frame_def intro!: exI [of _ "[]"] exI [of _ "sm_context s"])

lemma stmt_frame_refl [simp]: "stmt_frame s s"
  by (auto simp: stmt_frame_def intro!: exI [of _ "[]"] exI [of _ "sm_context s"] exI [of _ "sm_scopes s"])

lemma reports_expr_frame: "reports s s' \<Longrightarrow> expr_frame s s'"
  unfolding reports_def expr_frame_def by (elim exE) (rule exI, rule exI [of _ "sm_context s"], simp)

lemma expr_frame_stmt_frame: "expr_frame s s' \<Longrightarrow> stmt_frame s s'"
  unfolding stmt_frame_def expr_frame_def
  by (elim exE, rule exI, rule exI, rule exI [of _ "sm_scopes s"], simp)

lemma expr_frame_trans [trans]: "expr_frame s t \<Longrightarrow> expr_frame t u \<Longrightarrow> expr_frame s u"
  unfolding expr_frame_def by (elim exE) (rule exI, rule exI, simp)

lemma stmt_frame_trans [trans]: "stmt_frame s t \<Longrightarrow> stmt_frame t u \<Longrightarrow> stmt_frame s u"
  unfolding stmt_frame_def
  by (elim exE conjE, intro exI conjI) (rule scope_ext_trans, assumption, simp, simp)

lemma declare_in_scope_frame: "declare_in_scope n t s = Some s' \<Longrightarrow> stmt_frame s s'"
  unfolding stmt_frame_def
  by (rule exI [of _ "[]"], rule exI [of _ "sm_context s"], rule exI [of _ "sm_scopes s'"])
    (auto simp: declare_in_scope_def Declare_def split: list.splits option.splits bind_splits)

lemma make_struct_type_frame: "make_struct_type fs s = Some (ty, s') \<Longrightarrow> expr_frame s s'"
  unfolding expr_frame_def
  by (auto simp: make_struct_type_def split: option.splits DeclContext.splits bind_splits
      intro!: exI [of _ "[]"] exI [of _ "sm_context s'"])

lemma block_frame:
  assumes "stmt_frame (EnterScope s) s1" and "ExitScope s1 = Some s2"
  shows "expr_frame s s2"
  using assms unfolding stmt_frame_def expr_frame_def EnterScope_def ExitScope_def
  by auto (rule exI, rule exI, simp)

lemma declare_params_frame: "declare_params ps s = Some s' \<Longrightarrow> stmt_frame s s'"
  unfolding declare_params_def
proof (induction ps arbitrary: s)
  case (Cons p ps)
  show ?case
    using Cons.prems by (auto split: bind_splits dest!: Cons.IH declare_in_scope_frame intro: stmt_frame_trans)
qed auto

lemma function_frame:
  assumes "enter_function ft s = Some s1" and "stmt_frame s1 s2" and "exit_function (curr_func s) s2 = Some s3"
  shows "expr_frame s s3"
proof -
  from assms(1) obtain ps where "declare_params ps ((EnterScope s)\<lparr>curr_func := Some ft\<rparr>) = Some s1"
    by (auto simp: enter_function_def split: Type.splits)
  from stmt_frame_trans [OF declare_params_frame [OF this] assms(2)]
  have fr: "stmt_frame ((EnterScope s)\<lparr>curr_func := Some ft\<rparr>) s2" .
  show ?thesis
    using fr assms(3) unfolding stmt_frame_def expr_frame_def EnterScope_def exit_function_def ExitScope_def
    by auto (rule exI, rule exI, simp)
qed

lemma decl_expr_frame: "expr_frame (enter_decl d s) s' \<Longrightarrow> expr_frame s (exit_decl (curr_decl_context s) s')"
  unfolding expr_frame_def enter_decl_def exit_decl_def by (elim exE) (rule exI, rule exI, simp)

lemma decl_stmt_frame: "stmt_frame (enter_decl d s) s' \<Longrightarrow> stmt_frame s (exit_decl (curr_decl_context s) s')"
  unfolding stmt_frame_def enter_decl_def exit_decl_def by (elim exE conjE) (intro exI conjI, simp, simp)

lemma ReportError_expr_frame [simp]: "expr_frame s (ReportError p m s)"
  by (intro reports_expr_frame reports_ReportError)

lemma ReportError_stmt_frame [simp]: "stmt_frame s (ReportError p m s)"
  by (intro expr_frame_stmt_frame reports_expr_frame reports_ReportError)

lemma VisitVariable_frame: "VisitVariable p n r i s = Some (x, s') \<Longrightarrow> stmt_frame s s'"
  by (auto simp: VisitVariable_def Let_def split: option.splits bind_splits if_splits
      intro: declare_in_scope_frame)

definition visit_frame :: "abi \<Rightarrow> Expression \<Rightarrow> bool" where
  "visit_frame A e \<longleftrightarrow> (\<forall>s t s'. VisitExpr A e s = Some (t, s') \<longrightarrow> expr_frame s s')"

definition stmt_visit_frame :: "abi \<Rightarrow> Statement \<Rightarrow> bool" where
  "stmt_visit_frame A st \<longleftrightarrow> (\<forall>s t s'. VisitStmt A st s = Some (t, s') \<longrightarrow> stmt_frame s s')"

definition decl_visit_frame :: "abi \<Rightarrow> Declaration \<Rightarrow> bool" where
  "decl_visit_frame A d \<longleftrightarrow> (\<forall>s t s'. VisitDecl A d s = Some (t, s') \<longrightarrow>
     stmt_frame s s' \<and> (\<forall>p n r. t = TField p n r \<longrightarrow> expr_frame s s'))"

lemma visit_frameD: "visit_frame A e \<Longrightarrow> VisitExpr A e s = Some (t, s') \<Longrightarrow> expr_frame s s'"
  by (auto simp: visit_frame_def)

lemma stmt_visit_frameD: "stmt_visit_frame A st \<Longrightarrow> VisitStmt A st s = Some (t, s') \<Longrightarrow> stmt_frame s s'"
  by (auto simp: stmt_visit_frame_def)

lemma decl_visit_frameD: "decl_visit_frame A d \<Longrightarrow> VisitDecl A d s = Some (t, s') \<Longrightarrow> stmt_frame s s'"
  by (auto simp: decl_visit_frame_def)

lemma expr_frame_trans3: "expr_frame s t \<Longrightarrow> expr_frame t u \<Longrightarrow> expr_frame u v \<Longrightarrow> expr_frame s v"
  by (blast intro: expr_frame_trans)

lemma VisitArgs_frame:
  assumes "\<And>e. e \<in> set es \<Longrightarrow> visit_frame A e" and "VisitArgs A es s = Some (x, s')"
  shows "expr_frame s s'"
  using assms
proof (induction es arbitrary: s x s')
  case (Cons e es)
  then obtain t s1 where t: "VisitExpr A e s = Some (t, s1)" by (auto split: bind_splits)
  then have f: "expr_frame s s1" using Cons.prems(1) visit_frameD by (metis list.set_intros(1))
  then show ?case
    using Cons t by (cases "GetType t") (auto split: bind_splits intro: expr_frame_trans)
qed auto

lemma VisitStmts_frame:
  assumes "\<And>st. st \<in> set sts \<Longrightarrow> stmt_visit_frame A st" and "VisitStmts A sts s = Some (x, s')"
  shows "stmt_frame s s'"
  using assms
proof (induction sts arbitrary: s x s')
  case (Cons st sts)
  then obtain t s1 where t: "VisitStmt A st s = Some (t, s1)" by (auto split: bind_splits)
  then have f: "stmt_frame s s1" using Cons.prems(1) stmt_visit_frameD by (metis list.set_intros(1))
  then show ?case using Cons t by (auto split: bind_splits intro: stmt_frame_trans)
qed auto

lemma VisitFields_frame:
  assumes "\<And>d. d \<in> set ds \<Longrightarrow> decl_visit_frame A d" and "VisitFields A ds s = Some (x, s')"
  shows "expr_frame s s'"
  using assms
proof (induction ds arbitrary: s x s')
  case (Cons d ds)
  then obtain t s1 where t: "VisitDecl A d s = Some (t, s1)" by (auto split: bind_splits)
  with Cons.prems(2) obtain p n r where tf: "t = TField p n r" by (cases t) auto
  then have f: "expr_frame s s1" using Cons.prems(1) [of d] t by (auto simp: decl_visit_frame_def)
  then show ?case
    using Cons t tf by (cases "GetType r") (auto split: bind_splits intro: expr_frame_trans)
qed auto

lemma VisitExprOption_frame:
  assumes "\<And>e. e \<in> set_option eo \<Longrightarrow> visit_frame A e" and "VisitExprOption A eo s = Some (t, s')"
  shows "expr_frame s s'"
  using assms by (cases eo) (auto dest: visit_frameD)

lemma VisitStmtOption_frame:
  assumes "\<And>st. st \<in> set_option so \<Longrightarrow> stmt_visit_frame A st" and "VisitStmtOption A so s = Some (t, s')"
  shows "stmt_frame s s'"
  using assms by (cases so) (auto split: bind_splits dest: stmt_visit_frameD)

lemma two_visits_frame:
  assumes "visit_frame A l" and "visit_frame A r"
    and "\<And>l' r' s1 s2 t. f l' r' s1 = Some (t, s2) \<Longrightarrow> reports s1 s2"
    and "do { (l', s1) \<leftarrow> VisitExpr A l s; (r', s2) \<leftarrow> VisitExpr A r s1; f l' r' s2 } = Some (t, s')"
  shows "expr_frame s s'"
  using assms(4) by (auto split: bind_splits
      dest!: visit_frameD [OF assms(1)] visit_frameD [OF assms(2)] assms(3) [THEN reports_expr_frame]
      intro: expr_frame_trans3)

declare VisitExpr.simps [simp del]

lemma call_frame:
  assumes "visit_frame A f" and "\<And>e. e \<in> set args \<Longrightarrow> visit_frame A e"
  shows "visit_frame A (CallExpression f args RegularCall)"
  unfolding visit_frame_def
proof (intro allI impI)
  fix s t s'
  assume v: "VisitExpr A (CallExpression f args RegularCall) s = Some (t, s')"
  then obtain func s1 where func: "VisitExpr A f s = Some (func, s1)"
    by (auto simp: VisitExpr.simps(4) split: bind_splits)
  from visit_frameD [OF assms(1) func] have f1: "expr_frame s s1" .
  have args: "expr_frame a b" if "VisitArgs A args a = Some (x, b)" for a b x
    using VisitArgs_frame [OF assms(2) that] .
  have "expr_frame s1 s'"
    using v func by (auto simp: VisitExpr.simps(4) split: bind_splits option.splits Type.splits if_splits
      dest!: CheckArgCount_reports [THEN reports_expr_frame] check_call_reports [THEN reports_expr_frame]
        args) (blast intro: expr_frame_trans)+
  with f1 show "expr_frame s s'" by (rule expr_frame_trans)
qed

lemma builtin_call_frame:
  assumes "\<And>e. e \<in> set args \<Longrightarrow> visit_frame A e"
    and "\<And>q op i. UnaryOpExpression q op i \<in> set args \<Longrightarrow> visit_frame A i"
  shows "visit_frame A (CallExpression f args BuiltinCall)"
  unfolding visit_frame_def
proof (intro allI impI)
  fix s t s'
  assume v: "VisitExpr A (CallExpression f args BuiltinCall) s = Some (t, s')"
  then obtain name where name: "GetFuncName (UnvisitedExpr f) = Some name" by (auto simp: VisitExpr.simps(5) Let_def split: bind_splits)
  show "expr_frame s s'"
  proof (cases "IsBuiltinFunction name")
    case None
    then show ?thesis using v name by (auto simp: VisitExpr.simps(5) Let_def)
  next
    case (Some b)
    show ?thesis
    proof (cases "b \<in> {IntCast, PtrCast, OffsetOf}")
      case False
      have args: "expr_frame a b" if "VisitArgs A args a = Some (x, b)" for a b x
        using VisitArgs_frame [OF assms(1) that] .
      show ?thesis
        using v name Some False by (auto simp: VisitExpr.simps(5) Let_def split: bind_splits if_splits
          dest!: args check_resolved_builtin_reports [THEN reports_expr_frame]
          intro: expr_frame_trans)
    next
      case True
      then obtain ok s1 where c: "CheckArgCount (UnvisitedExpr f) (length args) 2 s = Some (ok, s1)"
        using v name Some by (auto simp: VisitExpr.simps(5) Let_def split: bind_splits)
      have f1: "expr_frame s s1" using c by (rule CheckArgCount_reports [THEN reports_expr_frame])
      show ?thesis
      proof (cases ok)
        case False
        then show ?thesis using v name Some True c f1 by (auto simp: VisitExpr.simps(5) Let_def)
      next
        case ok: True
        with v name Some True c obtain a0 a1 where args: "args = [a0, a1]"
          by (auto simp: VisitExpr.simps(5) Let_def split: list.splits)
        have "expr_frame s1 s'"
          using True
        proof (elim insertE emptyE)
          assume b: "b = IntCast"
          then show ?thesis
            using v name Some c ok args by (auto simp: VisitExpr.simps(5) Let_def split: bind_splits sum.splits
              dest!: finish_int_cast_reports [THEN reports_expr_frame] visit_frameD [OF assms(1) [of a1], rotated]
              intro: expr_frame_trans expr_frame_trans3)
        next
          assume b: "b = OffsetOf"
          then show ?thesis
            using v name Some c ok args by (auto simp: VisitExpr.simps(5) Let_def split: bind_splits
              dest!: finish_offset_of_reports [THEN reports_expr_frame] visit_frameD [OF assms(1) [of a0], rotated]
              intro: expr_frame_trans expr_frame_trans3)
        next
          assume b: "b = PtrCast"
          have a0: "expr_frame s1 s2" if "VisitExpr A a0 s1 = Some (x, s2)" for x s2
            using visit_frameD [OF assms(1) that] args by simp
          have in0: "expr_frame s1 s2" if "a0 = UnaryOpExpression q op i" "VisitExpr A i s1 = Some (x, s2)" for x s2 q op i
            using visit_frameD [OF assms(2) that(2)] that(1) args by auto
          have a1: "expr_frame s2 s3" if "VisitExpr A a1 s2 = Some (x, s3)" for x s2 s3
            using visit_frameD [OF assms(1) that] args by simp
          have first: "expr_frame s1 s2"
            if "(case a0 of
                   UnaryOpExpression q op input \<Rightarrow> do {
                     (base, s) \<leftarrow> VisitExpr A input s1;
                     Some (TPointerTypeRepr (map_option PointerType (GetType base)) q base, s) }
                 | _ \<Rightarrow> VisitExpr A a0 s1) = Some (x, s2)" for x s2
            using that a0 in0 by (cases a0) (auto split: bind_splits)
          show ?thesis
            using v name Some c ok args b
            by (auto simp: VisitExpr.simps(5) Let_def split: bind_splits if_splits
              dest!: first a1 finish_ptr_cast_reports [THEN reports_expr_frame]
              intro: expr_frame_trans expr_frame_trans3)
        qed
        with f1 show ?thesis by (rule expr_frame_trans)
      qed
    qed
  qed
qed

lemma function_literal_frame:
  assumes "visit_frame A r" and "stmt_visit_frame A body"
  shows "visit_frame A (FunctionLiteralExpression r body)"
  unfolding visit_frame_def
proof (intro allI impI)
  fix s t s'
  assume v: "VisitExpr A (FunctionLiteralExpression r body) s = Some (t, s')"
  then obtain r' s1 where r: "VisitExpr A r s = Some (r', s1)"
    by (auto simp: VisitExpr.simps(6) split: bind_splits)
  have f1: "expr_frame s s1" using assms(1) r by (rule visit_frameD)
  have "expr_frame s1 s'"
  proof (cases "GetType r'")
    case None
    then show ?thesis using v r by (auto simp: VisitExpr.simps(6))
  next
    case (Some ft)
    with v r obtain s2 b s3 b' s4 where e: "enter_function ft s1 = Some s2" and b: "VisitStmt A body s2 = Some (b, s3)"
      and c: "check_return (texpr_pos r') ft body b s3 = Some (b', s4)"
      and x: "exit_function (curr_func s1) s4 = Some s'"
      by (auto simp: VisitExpr.simps(6) Let_def split: bind_splits)
    have "stmt_frame s2 s4"
      using stmt_visit_frameD [OF assms(2) b] expr_frame_stmt_frame [OF reports_expr_frame [OF check_return_reports [OF c]]]
      by (rule stmt_frame_trans)
    with e show ?thesis using x by (rule function_frame)
  qed
  with f1 show "expr_frame s s'" by (rule expr_frame_trans)
qed

lemma for_frame:
  assumes "\<And>st. st \<in> set_option init \<Longrightarrow> stmt_visit_frame A st"
    and "\<And>e. e \<in> set_option cond \<Longrightarrow> visit_frame A e"
    and "\<And>st. st \<in> set_option nxt \<Longrightarrow> stmt_visit_frame A st"
    and "stmt_visit_frame A body"
  shows "stmt_visit_frame A (ForStatement p init cond nxt body)"
  unfolding stmt_visit_frame_def
proof (intro allI impI)
  fix s t s'
  assume v: "VisitStmt A (ForStatement p init cond nxt body) s = Some (t, s')"
  then obtain ti s1 where i: "VisitStmtOption A init (EnterScope s) = Some (ti, s1)" by (auto split: bind_splits)
  have f1: "stmt_frame (EnterScope s) s1" using VisitStmtOption_frame [OF assms(1) i] .
  have n: "stmt_frame a b" if "VisitStmtOption A nxt a = Some (x, b)" for a b x
    using VisitStmtOption_frame [OF assms(3) that] .
  have b: "stmt_frame a b" if "VisitStmt A body a = Some (x, b)" for a b x
    using stmt_visit_frameD [OF assms(4) that] .
  have c: "stmt_frame a b" if "cond = Some e" "VisitExpr A e a = Some (x, b)" for a b x e
    using expr_frame_stmt_frame [OF visit_frameD [OF assms(2) that(2)]] that(1) by simp
  have "\<exists>s2. stmt_frame s1 s2 \<and> ExitScope s2 = Some s'"
  proof (cases cond)
    case None
    then show ?thesis using v i by (auto split: bind_splits dest!: n b) (blast intro: stmt_frame_trans)
  next
    case (Some e)
    with v i obtain c' s2 where e: "VisitExpr A e s1 = Some (c', s2)" by (auto split: bind_splits)
    note f2 = c [OF Some e]
    show ?thesis
    proof (cases "GetType c'")
      case None
      then show ?thesis using v i Some e f2 by (auto split: bind_splits)
    next
      case (Some ty)
      define s3 where "s3 = (if \<not> IsBoolType ty then ReportError (texpr_pos c') kNonBoolForCondition s2 else s2)"
      have f3: "stmt_frame s1 s3" using f2 by (auto simp: s3_def intro: stmt_frame_trans)
      show ?thesis
        using v i \<open>cond = Some e\<close> e Some
        by (auto simp: Let_def s3_def [symmetric] split: bind_splits dest!: n b)
          (blast intro: stmt_frame_trans [OF f3] stmt_frame_trans)
    qed
  qed
  then obtain s2 where "stmt_frame (EnterScope s) s2" "ExitScope s2 = Some s'"
    using stmt_frame_trans [OF f1] by blast
  then show "stmt_frame s s'" by (rule expr_frame_stmt_frame [OF block_frame])
qed

lemma function_declaration_frame:
  assumes "visit_frame A r" and "stmt_visit_frame A body"
  shows "decl_visit_frame A (FunctionDeclaration p name (FunctionLiteralExpression r body))"
  unfolding decl_visit_frame_def
proof (intro allI impI)
  fix s t s'
  assume v: "VisitDecl A (FunctionDeclaration p name (FunctionLiteralExpression r body)) s = Some (t, s')"
  then obtain r' s1 where r: "VisitExpr A r (enter_decl InOther s) = Some (r', s1)"
    by (auto simp: Let_def split: bind_splits)
  have f1: "stmt_frame (enter_decl InOther s) s1" using visit_frameD [OF assms(1) r] by (rule expr_frame_stmt_frame)
  have fn: "expr_frame a s4" if "enter_function ft a = Some s2" "VisitStmt A body s2 = Some (b, s3)"
    "check_return q ft body b s3 = Some (b', s4')" "exit_function (curr_func a) s4' = Some s4" for ft a s2 b s3 q b' s4' s4
    using function_frame [OF that(1) stmt_frame_trans [OF stmt_visit_frameD [OF assms(2) that(2)]
      expr_frame_stmt_frame [OF reports_expr_frame [OF check_return_reports [OF that(3)]]]] that(4)] .
  have "\<exists>s2. stmt_frame s1 s2 \<and> s' = exit_decl (curr_decl_context s) s2 \<and> (\<forall>p n r. t \<noteq> TField p n r)"
  proof (cases "GetType r'")
    case None
    then show ?thesis using v r by (cases r) (auto simp: Let_def intro: stmt_frame_refl)
  next
    case (Some ft)
    with v r obtain q ps ret where rr: "r = FunctionTypeRepr q ps ret" by (cases r) (auto simp: Let_def)
    show ?thesis
    proof (cases "HasDuplicatesNames ps")
      case None
      with v r Some rr obtain s2 s3 b s4 b' s5 s6 where d: "declare_in_scope (Some name) ft s1 = Some s2"
        and e: "enter_function ft s2 = Some s3" "VisitStmt A body s3 = Some (b, s4)"
          "check_return (texpr_pos r') ft body b s4 = Some (b', s5)" "exit_function (curr_func s2) s5 = Some s6"
        and s': "s' = exit_decl (curr_decl_context s) s6" "t = TFunction p name (TFunctionLiteral (Some ft) r' b')"
        by (auto simp: Let_def split: bind_splits)
      then show ?thesis
        using stmt_frame_trans [OF declare_in_scope_frame [OF d] expr_frame_stmt_frame [OF fn [OF e]]] by auto
    qed (use v r Some rr in \<open>auto simp: Let_def intro: ReportError_stmt_frame\<close>)
  qed
  then show "stmt_frame s s' \<and> (\<forall>p n r. t = TField p n r \<longrightarrow> expr_frame s s')"
    using stmt_frame_trans [OF f1] decl_stmt_frame by blast
qed

lemma struct_declaration_frame:
  assumes "visit_frame A repr"
  shows "decl_visit_frame A (StructDeclaration p name repr)"
  unfolding decl_visit_frame_def
proof (intro allI impI)
  fix s t s'
  assume v: "VisitDecl A (StructDeclaration p name repr) s = Some (t, s')"
  then obtain r' s1 where r: "VisitExpr A repr (enter_decl (InStruct name) s) = Some (r', s1)"
    by (auto simp: Let_def split: bind_splits)
  have f1: "stmt_frame (enter_decl (InStruct name) s) s1"
    using visit_frameD [OF assms(1) r] by (rule expr_frame_stmt_frame)
  have "\<exists>s2. stmt_frame s1 s2 \<and> s' = exit_decl (curr_decl_context s) s2 \<and> (\<forall>p n r. t \<noteq> TField p n r)"
    using v r by (auto simp: Let_def split: bind_splits option.splits Expression.splits
        intro: declare_in_scope_frame stmt_frame_refl ReportError_stmt_frame)
  then show "stmt_frame s s' \<and> (\<forall>p n r. t = TField p n r \<longrightarrow> expr_frame s s')"
    using stmt_frame_trans [OF f1] decl_stmt_frame by blast
qed

lemma variable_declaration_frame:
  assumes "\<And>e. e \<in> set_option repr \<Longrightarrow> visit_frame A e" and "\<And>e. e \<in> set_option init \<Longrightarrow> visit_frame A e"
  shows "decl_visit_frame A (VariableDeclaration p name repr init)"
  unfolding decl_visit_frame_def
proof (intro allI impI)
  fix s t s'
  assume v: "VisitDecl A (VariableDeclaration p name repr init) s = Some (t, s')"
  have vt: "\<exists>a b. x = TVariable p name a b" if "VisitVariable p name r i a = Some (x, b)" for r i a x b
    using that by (auto simp: VisitVariable_def Let_def split: option.splits bind_splits if_splits)
  have r: "stmt_frame (enter_decl InOther s) b"
    if "(case repr of None \<Rightarrow> Some (None, enter_decl InOther s)
         | Some e \<Rightarrow> do { (t, s) \<leftarrow> VisitExpr A e (enter_decl InOther s); Some (Some t, s) }) = Some (x, b)" for x b
    using that assms(1) by (auto split: option.splits bind_splits dest!: visit_frameD intro: expr_frame_stmt_frame)
  have i: "stmt_frame a b"
    if "(case init of None \<Rightarrow> Some (None, a)
         | Some e \<Rightarrow> do { (t, s) \<leftarrow> VisitExpr A e a; Some (Some t, s) }) = Some (x, b)" for a x b
    using that assms(2) by (auto split: option.splits bind_splits dest!: visit_frameD intro: expr_frame_stmt_frame)
  from v obtain scope outer where sc: "sm_scopes s = scope # outer" by (auto split: list.splits)
  show "stmt_frame s s' \<and> (\<forall>p n r. t = TField p n r \<longrightarrow> expr_frame s s')"
  proof (cases "LookupLocal scope (Some name)")
    case (Some _)
    then show ?thesis using v sc by auto
  next
    case None
    with v sc obtain r1 s1 i1 s2 s3 where r1: "(case repr of None \<Rightarrow> Some (None, enter_decl InOther s)
         | Some e \<Rightarrow> do { (t, s) \<leftarrow> VisitExpr A e (enter_decl InOther s); Some (Some t, s) }) = Some (r1, s1)"
      and i1: "(case init of None \<Rightarrow> Some (None, s1)
         | Some e \<Rightarrow> do { (t, s) \<leftarrow> VisitExpr A e s1; Some (Some t, s) }) = Some (i1, s2)"
      and vv: "VisitVariable p name r1 i1 s2 = Some (t, s3)" and s': "s' = exit_decl (curr_decl_context s) s3"
      by (auto simp: Let_def checked split: if_splits bind_splits)
    have "stmt_frame (enter_decl InOther s) s3"
      by (rule stmt_frame_trans [OF r [OF r1] stmt_frame_trans [OF i [OF i1] VisitVariable_frame [OF vv]]])
    then show ?thesis using vt [OF vv] decl_stmt_frame s' by auto
  qed
qed

lemma one_visit_frame:
  assumes "visit_frame A l" and "\<And>l' s1 s2 t. f l' s1 = Some (t, s2) \<Longrightarrow> reports s1 s2"
    and "do { (l', s1) \<leftarrow> VisitExpr A l s; f l' s1 } = Some (t, s')"
  shows "expr_frame s s'"
  using assms(3) by (auto split: bind_splits dest!: visit_frameD [OF assms(1)] assms(2) [THEN reports_expr_frame]
      intro: expr_frame_trans)

lemma if_frame:
  assumes "visit_frame A c" and "stmt_visit_frame A t" and "\<And>st. st \<in> set_option e \<Longrightarrow> stmt_visit_frame A st"
  shows "stmt_visit_frame A (IfStatement p c t e)"
  unfolding stmt_visit_frame_def
proof (intro allI impI)
  fix s ts s'
  assume v: "VisitStmt A (IfStatement p c t e) s = Some (ts, s')"
  then obtain c' s1 where c: "VisitExpr A c s = Some (c', s1)" by (auto split: bind_splits)
  have f1: "stmt_frame s s1" using visit_frameD [OF assms(1) c] by (rule expr_frame_stmt_frame)
  show "stmt_frame s s'"
  proof (cases "GetType c'")
    case None
    then show ?thesis using v c f1 by auto
  next
    case (Some ty)
    with v c obtain c'' s2 t' s3 e' where k: "check_condition c' s1 = Some (c'', s2)" "VisitStmt A t s2 = Some (t', s3)"
      "VisitStmtOption A e s3 = Some (e', s')" by (auto split: bind_splits)
    show ?thesis
      using f1 expr_frame_stmt_frame [OF reports_expr_frame [OF check_condition_reports [OF k(1)]]]
        stmt_visit_frameD [OF assms(2) k(2)] VisitStmtOption_frame [OF assms(3) k(3)]
      by (blast intro: stmt_frame_trans)
  qed
qed

lemma return_frame:
  assumes "\<And>e. e \<in> set_option v \<Longrightarrow> visit_frame A e"
  shows "stmt_visit_frame A (ReturnStatement p v)"
  unfolding stmt_visit_frame_def
proof (intro allI impI)
  fix s ts s'
  assume r: "VisitStmt A (ReturnStatement p v) s = Some (ts, s')"
  show "stmt_frame s s'"
  proof (cases "curr_func s")
    case None
    then show ?thesis using r by auto
  next
    case (Some ft)
    then show ?thesis
      using r assms by (cases v) (auto split: bind_splits intro!: expr_frame_stmt_frame
        dest!: visit_frameD VisitReturn_reports [THEN reports_expr_frame] intro: expr_frame_trans)
  qed
qed

declare VisitStmt.simps [simp del] VisitDecl.simps [simp del]

lemma visit_frames:
  shows "visit_frame A e \<and> (\<forall>q op i. e = UnaryOpExpression q op i \<longrightarrow> visit_frame A i) \<and>
      (\<forall>r b. e = FunctionLiteralExpression r b \<longrightarrow> visit_frame A r \<and> stmt_visit_frame A b)"
    and "stmt_visit_frame A st"
    and "decl_visit_frame A d"
proof (induction e and st and d)
  case (CallExpression f args k)
  then show ?case by (cases k) (auto intro: call_frame builtin_call_frame)
next
  case (FunctionLiteralExpression r b)
  then show ?case by (auto intro: function_literal_frame)
next
  case (ForStatement p i c n b)
  then show ?case by (auto intro: for_frame)
next
  case (FunctionDeclaration p n f)
  have "decl_visit_frame A (FunctionDeclaration p n f)" if "\<forall>r b. f \<noteq> FunctionLiteralExpression r b"
    using that by (cases f) (simp_all add: decl_visit_frame_def VisitDecl.simps(2))
  then show ?case using FunctionDeclaration function_declaration_frame by metis
next
  case (StructDeclaration p n f)
  then show ?case by (auto intro: struct_declaration_frame)
next
  case (VariableDeclaration p n r i)
  then show ?case by (auto intro: variable_declaration_frame)
next
  case (FieldDeclaration p n r)
  then have r: "expr_frame a b" if "VisitExprOption A r a = Some (x, b)" for a b x
    using VisitExprOption_frame [of r A, OF _ that] by blast
  show ?case
    by (auto simp: decl_visit_frame_def VisitDecl.simps(1) Let_def split: bind_splits
        intro!: decl_expr_frame expr_frame_stmt_frame dest: r)
next
  case (BinaryOpExpression p op l r)
  then show ?case
    by (auto simp: visit_frame_def [of A "BinaryOpExpression p op l r"] VisitExpr.simps(2)
        intro: two_visits_frame [OF _ _ VisitBinaryOp_reports])
next
  case (ComparisonOpExpression p op l r)
  then show ?case
    by (auto simp: visit_frame_def [of A "ComparisonOpExpression p op l r"] VisitExpr.simps(3)
        intro: two_visits_frame [OF _ _ VisitComparisonOp_reports])
next
  case (IndexExpression p l r)
  then show ?case
    by (auto simp: visit_frame_def [of A "IndexExpression p l r"] VisitExpr.simps(8)
        intro: two_visits_frame [OF _ _ VisitIndexExpression_reports])
next
  case (UnaryOpExpression p op l)
  then show ?case
    by (auto simp: visit_frame_def [of A "UnaryOpExpression p op l"] VisitExpr.simps(11)
        intro: one_visit_frame [OF _ VisitUnaryOp_reports])
next
  case (MemberExpression p l m)
  then show ?case
    by (auto simp: visit_frame_def [of A "MemberExpression p l m"] VisitExpr.simps(10)
        intro: one_visit_frame [OF _ VisitMemberExpression_reports])
next
  case (AssignmentStatement p l r)
  then show ?case
    by (auto simp: stmt_visit_frame_def [of A "AssignmentStatement p l r"] VisitStmt.simps(1) split: bind_splits
        intro!: expr_frame_stmt_frame dest!: visit_frameD VisitAssignment_reports [THEN reports_expr_frame]
        intro: expr_frame_trans3)
next
  case (IfStatement p c t e)
  then show ?case by (auto intro: if_frame)
next
  case (ReturnStatement p v)
  then show ?case by (auto intro: return_frame)
next
  case (BlockStatement p q ss)
  then have ss: "stmt_frame a b" if "VisitStmts A ss a = Some (x, b)" for a b x
    using VisitStmts_frame [of ss A, OF _ that] by blast
  show ?case
    by (auto simp: stmt_visit_frame_def VisitStmt.simps(2) split: bind_splits
        dest!: ss intro: expr_frame_stmt_frame block_frame)
next
  case (StructTypeRepr p fs)
  then have fs: "expr_frame a b" if "VisitFields A fs a = Some (x, b)" for a b x
    using VisitFields_frame [of fs A, OF _ that] by blast
  show ?case
    by (auto simp: visit_frame_def VisitExpr.simps(16) split: bind_splits option.splits
        dest!: fs make_struct_type_frame intro: expr_frame_trans)
next
  case (FunctionTypeRepr p ps r)
  then have ps: "expr_frame a b" if "VisitFields A ps a = Some (x, b)" for a b x
    using VisitFields_frame [of ps A, OF _ that] by blast
  from FunctionTypeRepr have r: "expr_frame a b" if "VisitExprOption A r a = Some (x, b)" for a b x
    using VisitExprOption_frame [of r A, OF _ that] by blast
  show ?case
    by (auto simp: visit_frame_def VisitExpr.simps(13) split: bind_splits option.splits
        dest!: ps r intro: expr_frame_trans)
next
  case (ArrayTypeRepr p l r)
  then have r: "expr_frame a b" if "VisitExprOption A r a = Some (x, b)" for a b x
    using VisitExprOption_frame [of r A, OF _ that] by blast
  show ?case
    by (auto simp: visit_frame_def VisitExpr.simps(12) split: bind_splits sum.splits
        dest!: r)
next
  case (MapTypeRepr p l r)
  then have r: "expr_frame a b" if "VisitExprOption A r a = Some (x, b)" for a b x
    using VisitExprOption_frame [of r A, OF _ that] by blast
  from MapTypeRepr have l: "expr_frame a b" if "VisitExprOption A l a = Some (x, b)" for a b x
    using VisitExprOption_frame [of l A, OF _ that] by blast
  show ?case
    by (auto simp: visit_frame_def VisitExpr.simps(14) split: bind_splits
        dest!: l r intro: expr_frame_trans)
next
  case (PointerTypeRepr p l)
  then have l: "expr_frame a b" if "VisitExprOption A l a = Some (x, b)" for a b x
    using VisitExprOption_frame [of l A, OF _ that] by blast
  show ?case
    by (auto simp: visit_frame_def VisitExpr.simps(15) split: bind_splits
        dest!: l)
next
  case (DeclarationStatement d)
  then show ?case
    by (auto simp: stmt_visit_frame_def VisitStmt.simps(3) split: bind_splits dest: decl_visit_frameD)
next
  case (ExpressionStatement e)
  then show ?case
    by (auto simp: stmt_visit_frame_def VisitStmt.simps(4) split: bind_splits
        intro!: expr_frame_stmt_frame dest: visit_frameD)
qed (auto simp: visit_frame_def stmt_visit_frame_def VisitExpr.simps VisitStmt.simps
    dest: VisitIdentifierExpression_reports [THEN reports_expr_frame]
      VisitLiteralExpression_reports [THEN reports_expr_frame])

end
