(* ===== verification/SemaTyping.thy ===== *)
theory SemaTyping
  imports SemaInvariant
begin

text \<open>
  The typing rules of TPL, as a judgement on the typed tree, and the soundness of the checks on single nodes.

  \<open>wt_expr A \<Gamma> e \<tau>\<close>: in the environment \<open>\<Gamma>\<close> the typed expression \<open>e\<close> has the type \<open>\<tau>\<close>, all its parts are well
  typed, and every implicit cast in it converts between the two types it may convert between.
  \<open>wt_stmt A \<Gamma> F st \<Gamma>'\<close>: in a function of type \<open>F\<close> the statement \<open>st\<close> is well typed and leaves \<open>\<Gamma>'\<close>. The rules say
  nothing of states, errors or the order in which the source visits the parts of a node.
\<close>

section \<open>The typing judgement\<close>

type_synonym env = "string option \<rightharpoonup> Type"

text \<open>A declaration takes effect only when no open scope has the name: see \<open>Declare\<close>.\<close>

definition bind_name :: "env \<Rightarrow> string option \<Rightarrow> Type \<Rightarrow> env" where
  "bind_name \<Gamma> x \<tau> = (if \<Gamma> x = None then \<Gamma>(x \<mapsto> \<tau>) else \<Gamma>)"

definition bind_params :: "env \<Rightarrow> Field list \<Rightarrow> env" where
  "bind_params \<Gamma> ps = fold (\<lambda>p \<Gamma>. bind_name \<Gamma> (fst p) (snd p)) ps \<Gamma>"

definition literal_fits :: "Literal \<Rightarrow> Type \<Rightarrow> bool" where
  "literal_fits l \<tau> \<longleftrightarrow> literal_type l = Some \<tau> \<or> IsRepresentable l \<tau> = Some True"

definition builtin_accepts :: "abi \<Rightarrow> Builtin \<Rightarrow> TExpr list \<Rightarrow> Type \<Rightarrow> bool" where
  "builtin_accepts A b args \<tau> \<longleftrightarrow>
     (\<forall>func s. check_resolved_builtin A func b args s = Some ((Some \<tau>, args), s))"

text \<open>Whether control cannot reach the end of a typed statement.\<close>

function returns :: "TStmt \<Rightarrow> bool" where
  "returns (UnvisitedStmt st) = (IsTerminating st = Some True)"
| "returns (TBlock p q ss) = (case ss of [] \<Rightarrow> False | _ \<Rightarrow> returns (last ss))"
| "returns (TIf p c t e) = (case e of None \<Rightarrow> False | Some e \<Rightarrow> returns t \<and> returns e)"
| "returns (TReturn p v) = True"
| "returns (TAssignment p d e) = False"
| "returns (TDeclaration d) = False"
| "returns (TExpression e) = False"
| "returns (TFor p i c n b) = False"
  by pat_completeness auto
termination
proof (relation "measure size", goal_cases)
  case (2 p q ss x xs)
  then have "last ss \<in> set ss" by simp
  then have "size (last ss) < Suc (size_list size ss)" by (meson le_imp_less_Suc size_list_estimation' order_refl)
  then show ?case by simp
qed auto

definition logical_ops :: "TokenType set" where
  "logical_ops = {T_AND, T_OR}"

definition arithmetic_ops :: "TokenType set" where
  "arithmetic_ops = {T_AMPERSAND, T_BIT_XOR, T_BIT_OR, T_BIT_SHL, T_BIT_SHR, T_PLUS, T_MINUS, T_STAR, T_SLASH,
     T_PERCENT}"

definition comparison_ops :: "TokenType set" where
  "comparison_ops = {T_BANG_EQUAL, T_EQUAL_EQUAL, T_GREATER, T_GREATER_EQUAL, T_LESS, T_LESS_EQUAL}"

inductive wt_expr :: "abi \<Rightarrow> env \<Rightarrow> TExpr \<Rightarrow> Type \<Rightarrow> bool"
  and wt_fields :: "abi \<Rightarrow> env \<Rightarrow> TDecl list \<Rightarrow> Field list \<Rightarrow> bool"
  and wt_stmt :: "abi \<Rightarrow> env \<Rightarrow> Type option \<Rightarrow> TStmt \<Rightarrow> env \<Rightarrow> bool"
  and wt_opt :: "abi \<Rightarrow> env \<Rightarrow> Type option \<Rightarrow> TStmt option \<Rightarrow> env \<Rightarrow> bool"
  and wt_stmts :: "abi \<Rightarrow> env \<Rightarrow> Type option \<Rightarrow> TStmt list \<Rightarrow> env \<Rightarrow> bool"
  and wt_decl :: "abi \<Rightarrow> env \<Rightarrow> TDecl \<Rightarrow> env \<Rightarrow> bool"
  for A :: abi
where
  wt_Literal: "literal_fits l \<tau> \<Longrightarrow> wt_expr A \<Gamma> (TLiteral (Some \<tau>) p l) \<tau>"
| wt_Variable: "\<Gamma> (Some x) = Some \<tau> \<Longrightarrow> wt_expr A \<Gamma> (TIdentifier (Some \<tau>) p x) \<tau>"
| wt_TypeName: "\<Gamma> (Some x) = None \<Longrightarrow> LookupBuiltinType x = Some \<tau> \<Longrightarrow> wt_expr A \<Gamma> (TIdentifier (Some \<tau>) p x) \<tau>"
| wt_SqlBool: "wt_expr A \<Gamma> e (bt K_BooleanVal) \<Longrightarrow> wt_expr A \<Gamma> (TImplicitCast bool_type p SqlBoolToBool e) bool_type"
| wt_Decay: "wt_expr A \<Gamma> e (PointerType (ArrayType n \<tau>)) \<Longrightarrow> n \<noteq> 0 \<Longrightarrow>
    wt_expr A \<Gamma> (TImplicitCast (ArrayType 0 \<tau>) p BitCast e) (ArrayType 0 \<tau>)"
| wt_Logical: "op \<in> logical_ops \<Longrightarrow> wt_expr A \<Gamma> l bool_type \<Longrightarrow> wt_expr A \<Gamma> r bool_type \<Longrightarrow>
    wt_expr A \<Gamma> (TBinaryOp (Some bool_type) p op l r) bool_type"
| wt_Arithmetic: "op \<in> arithmetic_ops \<Longrightarrow> IsArithmetic \<tau> \<Longrightarrow> wt_expr A \<Gamma> l \<tau> \<Longrightarrow> wt_expr A \<Gamma> r \<tau> \<Longrightarrow>
    wt_expr A \<Gamma> (TBinaryOp (Some \<tau>) p op l r) \<tau>"
| wt_Comparison: "op \<in> comparison_ops \<Longrightarrow> wt_expr A \<Gamma> l \<tau> \<Longrightarrow> wt_expr A \<Gamma> r \<tau> \<Longrightarrow>
    IsPointerType \<tau> \<longrightarrow> IsEqualityOp op \<Longrightarrow> \<tau>' = (if IsSqlValueType \<tau> then bt K_BooleanVal else bool_type) \<Longrightarrow>
    wt_expr A \<Gamma> (TComparison (Some \<tau>') p op l r) \<tau>'"
| wt_Call: "wt_expr A \<Gamma> f (FunctionType ps \<tau>) \<Longrightarrow> list_all2 (\<lambda>arg p. wt_expr A \<Gamma> arg (snd p)) args ps \<Longrightarrow>
    wt_expr A \<Gamma> (TCall (Some \<tau>) f args RegularCall) \<tau>"
| wt_Builtin: "GetFuncName f = Some name \<Longrightarrow> IsBuiltinFunction name = Some b \<Longrightarrow> b \<notin> {IntCast, PtrCast, OffsetOf} \<Longrightarrow>
    list_all (\<lambda>arg. \<exists>\<sigma>. wt_expr A \<Gamma> arg \<sigma>) args \<Longrightarrow> builtin_accepts A b args \<tau> \<Longrightarrow>
    wt_expr A \<Gamma> (TCall (Some \<tau>) f args BuiltinCall) \<tau>"
| wt_IntCast: "GetFuncName f = Some name \<Longrightarrow> IsBuiltinFunction name = Some IntCast \<Longrightarrow>
    LookupBuiltinType x = Some \<tau> \<Longrightarrow> IsIntegerType \<tau> \<Longrightarrow> wt_expr A \<Gamma> e \<sigma> \<Longrightarrow> IsIntegerType \<sigma> \<Longrightarrow>
    wt_expr A \<Gamma> (TCall (Some \<tau>) f [UnvisitedExpr (IdentifierExpression q x), e] BuiltinCall) \<tau>"
| wt_PtrCast: "GetFuncName f = Some name \<Longrightarrow> IsBuiltinFunction name = Some PtrCast \<Longrightarrow>
    wt_expr A \<Gamma> t \<tau> \<Longrightarrow> IsPointerType \<tau> \<Longrightarrow> wt_expr A \<Gamma> e \<sigma> \<Longrightarrow> IsPointerType \<sigma> \<Longrightarrow>
    wt_expr A \<Gamma> (TCall (Some \<tau>) f [t, e] BuiltinCall) \<tau>"
| wt_OffsetOf: "GetFuncName f = Some name \<Longrightarrow> IsBuiltinFunction name = Some OffsetOf \<Longrightarrow>
    wt_expr A \<Gamma> ob (StructType n fs) \<Longrightarrow> LookupFieldByName fs (Some x) = Some \<sigma> \<Longrightarrow>
    wt_expr A \<Gamma> (TCall (Some (bt K_UInt32)) f [ob, UnvisitedExpr (IdentifierExpression q x)] BuiltinCall) (bt K_UInt32)"
| wt_Function: "wt_expr A \<Gamma> r (FunctionType ps \<tau>) \<Longrightarrow>
    wt_stmt A (bind_params \<Gamma> ps) (Some (FunctionType ps \<tau>)) body \<Gamma>' \<Longrightarrow> returns body \<Longrightarrow>
    wt_expr A \<Gamma> (TFunctionLiteral (Some (FunctionType ps \<tau>)) r body) (FunctionType ps \<tau>)"
| wt_ArrayIndex: "wt_expr A \<Gamma> ob (ArrayType n \<tau>) \<Longrightarrow> wt_expr A \<Gamma> i \<sigma> \<Longrightarrow> IsIntegerType \<sigma> \<Longrightarrow>
    \<forall>q v. i = TLiteral (Some \<sigma>) q (IntLiteral v) \<longrightarrow> 0 \<le> v \<and> (n \<noteq> 0 \<longrightarrow> word_of_int v < n) \<Longrightarrow>
    wt_expr A \<Gamma> (TIndex (Some \<tau>) p ob i) \<tau>"
| wt_MapIndex: "wt_expr A \<Gamma> ob (MapType k \<tau>) \<Longrightarrow> wt_expr A \<Gamma> i \<sigma> \<Longrightarrow> IsIntegerType \<sigma> \<Longrightarrow>
    wt_expr A \<Gamma> (TIndex (Some \<tau>) p ob i) \<tau>"
| wt_Member: "wt_expr A \<Gamma> ob \<sigma> \<Longrightarrow> \<sigma> = StructType n fs \<or> \<sigma> = PointerType (StructType n fs) \<Longrightarrow>
    LookupFieldByName fs (Some x) = Some \<tau> \<Longrightarrow>
    wt_expr A \<Gamma> (TMember (Some \<tau>) p ob (IdentifierExpression q x)) \<tau>"
| wt_Not: "wt_expr A \<Gamma> e bool_type \<Longrightarrow> wt_expr A \<Gamma> (TUnaryOp (Some bool_type) p T_BANG e) bool_type"
| wt_Negate: "op \<in> {T_BIT_NOT, T_MINUS} \<Longrightarrow> IsArithmetic \<tau> \<Longrightarrow> wt_expr A \<Gamma> e \<tau> \<Longrightarrow>
    wt_expr A \<Gamma> (TUnaryOp (Some \<tau>) p op e) \<tau>"
| wt_Deref: "wt_expr A \<Gamma> e (PointerType \<tau>) \<Longrightarrow> wt_expr A \<Gamma> (TUnaryOp (Some \<tau>) p T_STAR e) \<tau>"
| wt_AddressOf: "wt_expr A \<Gamma> e \<tau> \<Longrightarrow> \<not> IsFunctionType \<tau> \<Longrightarrow>
    wt_expr A \<Gamma> (TUnaryOp (Some (PointerType \<tau>)) p T_AMPERSAND e) (PointerType \<tau>)"
| wt_ArrayRepr: "wt_expr A \<Gamma> e \<tau> \<Longrightarrow> array_length len = Inr n \<Longrightarrow>
    wt_expr A \<Gamma> (TArrayTypeRepr (Some (ArrayType n \<tau>)) p len (Some e)) (ArrayType n \<tau>)"
| wt_FunctionRepr: "wt_fields A \<Gamma> ds fs \<Longrightarrow> wt_expr A \<Gamma> r \<tau> \<Longrightarrow>
    wt_expr A \<Gamma> (TFunctionTypeRepr (Some (FunctionType fs \<tau>)) p ds (Some r)) (FunctionType fs \<tau>)"
| wt_MapRepr: "wt_expr A \<Gamma> k \<tau> \<Longrightarrow> wt_expr A \<Gamma> v \<sigma> \<Longrightarrow>
    wt_expr A \<Gamma> (TMapTypeRepr (Some (MapType \<tau> \<sigma>)) p k v) (MapType \<tau> \<sigma>)"
| wt_PointerRepr: "wt_expr A \<Gamma> e \<tau> \<Longrightarrow> wt_expr A \<Gamma> (TPointerTypeRepr (Some (PointerType \<tau>)) p e) (PointerType \<tau>)"
| wt_StructRepr: "wt_fields A \<Gamma> ds fs \<Longrightarrow> \<tau> = StructType_Get fs \<or> (\<exists>n. \<tau> = StructType (Some n) fs) \<Longrightarrow>
    wt_expr A \<Gamma> (TStructTypeRepr (Some \<tau>) p ds) \<tau>"
| wt_NoFields: "wt_fields A \<Gamma> [] []"
| wt_Field: "wt_expr A \<Gamma> r \<tau> \<Longrightarrow> wt_fields A \<Gamma> ds fs \<Longrightarrow> wt_fields A \<Gamma> (TField p n r # ds) ((n, \<tau>) # fs)"
| wt_Assignment: "wt_expr A \<Gamma> d \<tau> \<Longrightarrow> wt_expr A \<Gamma> e \<tau> \<Longrightarrow> wt_stmt A \<Gamma> F (TAssignment p d e) \<Gamma>"
| wt_Block: "wt_stmts A \<Gamma> F ss \<Gamma>' \<Longrightarrow> wt_stmt A \<Gamma> F (TBlock p q ss) \<Gamma>"
| wt_Declaration: "wt_decl A \<Gamma> d \<Gamma>' \<Longrightarrow> wt_stmt A \<Gamma> F (TDeclaration d) \<Gamma>'"
| wt_Expression: "wt_expr A \<Gamma> e \<tau> \<Longrightarrow> wt_stmt A \<Gamma> F (TExpression e) \<Gamma>"
| wt_For: "wt_opt A \<Gamma> F i \<Gamma>1 \<Longrightarrow> c = None \<or> (\<exists>e. c = Some e \<and> wt_expr A \<Gamma>1 e bool_type) \<Longrightarrow>
    wt_opt A \<Gamma>1 F n \<Gamma>2 \<Longrightarrow> wt_stmt A \<Gamma>2 F b \<Gamma>3 \<Longrightarrow> wt_stmt A \<Gamma> F (TFor p i c n b) \<Gamma>"
| wt_If: "wt_expr A \<Gamma> c bool_type \<Longrightarrow> wt_stmt A \<Gamma> F t \<Gamma>1 \<Longrightarrow> wt_opt A \<Gamma>1 F e \<Gamma>2 \<Longrightarrow>
    wt_stmt A \<Gamma> F (TIf p c t e) \<Gamma>2"
| wt_ReturnNil: "IsNilType \<tau> \<Longrightarrow> wt_stmt A \<Gamma> (Some (FunctionType ps \<tau>)) (TReturn p None) \<Gamma>"
| wt_Return: "\<not> IsNilType \<tau> \<Longrightarrow> wt_expr A \<Gamma> e \<tau> \<Longrightarrow> wt_stmt A \<Gamma> (Some (FunctionType ps \<tau>)) (TReturn p (Some e)) \<Gamma>"
| wt_NoStmt: "wt_opt A \<Gamma> F None \<Gamma>"
| wt_SomeStmt: "wt_stmt A \<Gamma> F st \<Gamma>' \<Longrightarrow> wt_opt A \<Gamma> F (Some st) \<Gamma>'"
| wt_Nil: "wt_stmts A \<Gamma> F [] \<Gamma>"
| wt_Cons: "wt_stmt A \<Gamma> F st \<Gamma>1 \<Longrightarrow> wt_stmts A \<Gamma>1 F sts \<Gamma>2 \<Longrightarrow> wt_stmts A \<Gamma> F (st # sts) \<Gamma>2"
| wt_FieldDecl: "wt_expr A \<Gamma> r \<tau> \<Longrightarrow> wt_decl A \<Gamma> (TField p n r) \<Gamma>"
| wt_VarTyped: "wt_expr A \<Gamma> r \<tau> \<Longrightarrow> i = None \<or> (\<exists>e. i = Some e \<and> wt_expr A \<Gamma> e \<tau>) \<Longrightarrow>
    wt_decl A \<Gamma> (TVariable p x (Some r) i) (bind_name \<Gamma> (Some x) \<tau>)"
| wt_VarInit: "wt_expr A \<Gamma> e \<tau> \<Longrightarrow> \<not> IsNilType \<tau> \<Longrightarrow>
    wt_decl A \<Gamma> (TVariable p x None (Some e)) (bind_name \<Gamma> (Some x) \<tau>)"
| wt_Struct: "wt_expr A \<Gamma> (TStructTypeRepr (Some \<tau>) q ds) \<tau> \<Longrightarrow> wt_fields A \<Gamma> ds fs \<Longrightarrow> distinct (map fst fs) \<Longrightarrow>
    wt_decl A \<Gamma> (TStruct p x (TStructTypeRepr (Some \<tau>) q ds)) (bind_name \<Gamma> (Some x) \<tau>)"
| wt_FunctionDecl: "wt_expr A \<Gamma> r (FunctionType ps \<tau>) \<Longrightarrow> distinct (map fst ps) \<Longrightarrow>
    \<Gamma>1 = bind_name \<Gamma> (Some x) (FunctionType ps \<tau>) \<Longrightarrow>
    wt_stmt A (bind_params \<Gamma>1 ps) (Some (FunctionType ps \<tau>)) body \<Gamma>2 \<Longrightarrow> returns body \<Longrightarrow>
    wt_decl A \<Gamma> (TFunction p x (TFunctionLiteral (Some (FunctionType ps \<tau>)) r body)) \<Gamma>1"

text \<open>The declarations of a file, each in the environment that the ones before it leave.\<close>

inductive wt_file :: "abi \<Rightarrow> env \<Rightarrow> TDecl list \<Rightarrow> bool" for A where
  wt_file_Nil: "wt_file A \<Gamma> []"
| wt_file_Cons: "wt_decl A \<Gamma> d \<Gamma>' \<Longrightarrow> wt_file A \<Gamma>' ds \<Longrightarrow> wt_file A \<Gamma> (d # ds)"

section \<open>Operators that the parser makes\<close>

text \<open>
  A binary node with any other operator, and \<^verbatim>\<open>@concat\<close> with an execution context, get no type and no error.
\<close>

fun known_expr :: "Expression \<Rightarrow> bool"
  and known_stmt :: "Statement \<Rightarrow> bool"
  and known_decl :: "Declaration \<Rightarrow> bool"
where
  "known_expr (BadExpression p) = True"
| "known_expr (BinaryOpExpression p op l r) = (op \<in> logical_ops \<union> arithmetic_ops \<and> known_expr l \<and> known_expr r)"
| "known_expr (CallExpression f args k) =
     (known_expr f \<and> list_all known_expr args \<and>
      (k = BuiltinCall \<longrightarrow> GetFuncName (UnvisitedExpr f) \<noteq> Some ''concat''))"
| "known_expr (ComparisonOpExpression p op l r) = (op \<in> comparison_ops \<and> known_expr l \<and> known_expr r)"
| "known_expr (FunctionLiteralExpression r b) = (known_expr r \<and> known_stmt b)"
| "known_expr (IdentifierExpression p n) = True"
| "known_expr (IndexExpression p ob i) = (known_expr ob \<and> known_expr i)"
| "known_expr (LiteralExpression p l) = True"
| "known_expr (MemberExpression p ob m) = known_expr ob"
| "known_expr (UnaryOpExpression p op e) = known_expr e"
| "known_expr (ArrayTypeRepr p len e) = pred_option known_expr e"
| "known_expr (FunctionTypeRepr p ps r) = (list_all known_decl ps \<and> pred_option known_expr r)"
| "known_expr (MapTypeRepr p k v) = (pred_option known_expr k \<and> pred_option known_expr v)"
| "known_expr (PointerTypeRepr p e) = pred_option known_expr e"
| "known_expr (StructTypeRepr p ds) = list_all known_decl ds"
| "known_stmt (AssignmentStatement p d e) = (known_expr d \<and> known_expr e)"
| "known_stmt (BlockStatement p q ss) = list_all known_stmt ss"
| "known_stmt (DeclarationStatement d) = known_decl d"
| "known_stmt (ExpressionStatement e) = known_expr e"
| "known_stmt (ForStatement p i c n b) =
     (pred_option known_stmt i \<and> pred_option known_expr c \<and> pred_option known_stmt n \<and> known_stmt b)"
| "known_stmt (ForInStatement p a b c) = True"
| "known_stmt (IfStatement p c t e) = (known_expr c \<and> known_stmt t \<and> pred_option known_stmt e)"
| "known_stmt (ReturnStatement p v) = pred_option known_expr v"
| "known_decl (FieldDeclaration p n r) = pred_option known_expr r"
| "known_decl (FunctionDeclaration p n f) = known_expr f"
| "known_decl (StructDeclaration p n r) = known_expr r"
| "known_decl (VariableDeclaration p n r i) = (pred_option known_expr r \<and> pred_option known_expr i)"

section \<open>Soundness of the checks\<close>

abbreviation env_of :: "Sema \<Rightarrow> env" where
  "env_of s \<equiv> Lookup (sm_scopes s)"

text \<open>No error was reported between two states.\<close>

abbreviation quiet :: "Sema \<Rightarrow> Sema \<Rightarrow> bool" where
  "quiet s s' \<equiv> sm_errors s' = sm_errors s"

lemma not_quiet_ReportError [simp]: "\<not> quiet s (ReportError p m s)"
  by (simp add: ReportError_def)

lemma wt_GetType: "wt_expr A \<Gamma> e \<tau> \<Longrightarrow> GetType e = Some \<tau>"
  by (erule wt_expr.cases) auto

lemma wt_unique: "wt_expr A \<Gamma> e \<tau> \<Longrightarrow> GetType e = Some \<sigma> \<Longrightarrow> wt_expr A \<Gamma> e \<sigma>"
  by (frule wt_GetType) simp

lemma IsBoolType_iff [simp]: "IsBoolType t \<longleftrightarrow> t = bool_type"
  by (cases t) (auto simp: IsBoolType_def)

lemma IsSpecificBuiltin_iff [simp]: "IsSpecificBuiltin t k \<longleftrightarrow> t = BuiltinType k"
  by (cases t) auto

lemma array_decay_iff: "array_decay t u \<longleftrightarrow> (\<exists>m \<tau>. t = ArrayType 0 \<tau> \<and> u = PointerType (ArrayType m \<tau>) \<and> m \<noteq> 0)"
  by (cases "(t, u)" rule: array_decay.cases) (auto simp: HasKnownLength_def)

lemma CheckAssignmentConstraints_sound:
  assumes "CheckAssignmentConstraints \<tau> e = Some (True, e')" and "wt_expr A \<Gamma> e \<sigma>"
  shows "wt_expr A \<Gamma> e' \<tau>"
proof (cases "\<sigma> = \<tau>")
  case True
  then show ?thesis using assms wt_GetType [OF assms(2)] by (auto simp: CheckAssignmentConstraints_def)
next
  case False
  note ty = wt_GetType [OF assms(2)]
  show ?thesis
  proof (cases "\<exists>t p l. e = TLiteral t p l")
    case True
    then show ?thesis
      using assms(1) ty False
      by (auto simp: CheckAssignmentConstraints_def literal_fits_def split: bind_splits if_splits intro: wt_Literal)
  next
    case False
    then have "(array_decay \<tau> \<sigma> \<and> e' = ImplCastExprToType e \<tau> BitCast) \<or>
        (\<tau> = bool_type \<and> \<sigma> = bt K_BooleanVal \<and> e' = ImplCastExprToType e bool_type SqlBoolToBool)"
      using assms(1) ty \<open>\<sigma> \<noteq> \<tau>\<close>
      by (cases e) (auto simp: CheckAssignmentConstraints_def split: if_splits)
    then show ?thesis
      using assms(2) by (auto simp: ImplCastExprToType_def array_decay_iff intro: wt_Decay wt_SqlBool)
  qed
qed

lemma CheckAssignmentConstraints_False:
  "CheckAssignmentConstraints \<tau> e = Some (False, e') \<Longrightarrow> e' = e"
  by (auto simp: CheckAssignmentConstraints_def split: bind_splits if_splits TExpr.splits)

lemma CheckAssignmentConstraints_GetType:
  assumes "CheckAssignmentConstraints \<tau> e = Some (True, e')"
  shows "GetType e' = Some \<tau>"
  using assms by (auto simp: CheckAssignmentConstraints_def ImplCastExprToType_def
      split: bind_splits if_splits TExpr.splits)

lemma CheckAssignmentConstraints_same: "GetType e = Some \<tau> \<Longrightarrow> CheckAssignmentConstraints \<tau> e = Some (True, e)"
  by (simp add: CheckAssignmentConstraints_def)

lemma cast_sql_bool_sound:
  assumes "cast_sql_bool e = Some e'" and "wt_expr A \<Gamma> e \<sigma>"
  shows "\<exists>\<tau>. wt_expr A \<Gamma> e' \<tau>"
  using assms wt_GetType [OF assms(2)]
  by (auto simp: cast_sql_bool_def ImplCastExprToType_def split: if_splits intro: wt_SqlBool)

lemma VisitBinaryOp_sound:
  assumes "VisitBinaryOp p op l r s = Some (t, s')" and "quiet s s'" and "op \<in> logical_ops \<union> arithmetic_ops"
    and l: "wt_expr A \<Gamma> l \<sigma>" and r: "wt_expr A \<Gamma> r \<rho>"
  shows "\<exists>\<tau>. wt_expr A \<Gamma> t \<tau>"
proof (cases "op \<in> logical_ops")
  case True
  then obtain l' r' where c: "cast_sql_bool l = Some l'" "cast_sql_bool r = Some r'"
    "GetType l' = Some bool_type" "GetType r' = Some bool_type" "t = TBinaryOp (Some bool_type) p op l' r'"
    using assms wt_GetType [OF l] wt_GetType [OF r]
    by (auto simp: VisitBinaryOp_def CheckLogicalOperands_def logical_ops_def split: bind_splits if_splits)
  with cast_sql_bool_sound [OF c(1) l] cast_sql_bool_sound [OF c(2) r] True show ?thesis
    by (blast intro: wt_Logical wt_unique)
next
  case False
  then have "op \<in> arithmetic_ops" using assms(3) by blast
  have ops: "op \<notin> {T_AND, T_OR}" "op \<in> {T_AMPERSAND, T_BIT_XOR, T_BIT_OR, T_BIT_SHL, T_BIT_SHR, T_PLUS, T_MINUS,
      T_STAR, T_SLASH, T_PERCENT}"
    using False \<open>op \<in> arithmetic_ops\<close> by (auto simp: logical_ops_def arithmetic_ops_def)
  obtain ty l' r' where c: "CheckArithmeticOperands op p l r s = Some ((ty, l', r'), s')"
    and t: "t = TBinaryOp ty p op l' r'"
    using assms(1) ops wt_GetType [OF l] wt_GetType [OF r]
    by (auto simp: VisitBinaryOp_def split: bind_splits)
  have lr: "GetType l = Some \<sigma>" "GetType r = Some \<rho>" using l r by (simp_all add: wt_GetType)
  from c have "IsArithmetic \<sigma> \<and> IsArithmetic \<rho>"
    using assms(2) lr by (auto simp: CheckArithmeticOperands_def illegal_operands_def split: if_splits)
  moreover have "\<exists>\<tau>. ty = Some \<tau> \<and> \<tau> \<in> {\<sigma>, \<rho>} \<and> wt_expr A \<Gamma> l' \<tau> \<and> wt_expr A \<Gamma> r' \<tau>"
    using c assms(2) lr l r
    by (auto simp: CheckArithmeticOperands_def illegal_operands_def split: if_splits bind_splits)
      (metis CheckAssignmentConstraints_False CheckAssignmentConstraints_sound)+
  ultimately show ?thesis using t \<open>op \<in> arithmetic_ops\<close> by (auto intro: wt_Arithmetic)
qed

lemma VisitComparisonOp_sound:
  assumes "VisitComparisonOp p op l r s = Some (t, s')" and "quiet s s'" and "op \<in> comparison_ops"
    and l: "wt_expr A \<Gamma> l \<sigma>" and r: "wt_expr A \<Gamma> r \<rho>"
  shows "\<exists>\<tau>. wt_expr A \<Gamma> t \<tau>"
proof -
  have lr: "GetType l = Some \<sigma>" "GetType r = Some \<rho>" using l r by (simp_all add: wt_GetType)
  from assms(1,3) lr obtain ty l' r' where c: "CheckComparisonOperands op p l r s = Some ((ty, l', r'), s')"
    and t: "t = TComparison ty p op l' r'"
    by (auto simp: VisitComparisonOp_def comparison_ops_def split: bind_splits if_splits)
  then obtain ok1 l1 ok2 r1 where a: "CheckAssignmentConstraints \<rho> l = Some (ok1, l1)"
    and b: "(if ok1 then Some (True, r) else CheckAssignmentConstraints \<sigma> r) = Some (ok2, r1)"
    using lr by (auto simp: CheckComparisonOperands_def checked split: bind_splits if_splits)
  with c assms(2) lr have ok2: "ok2" "l' = l1" "r' = r1"
    by (auto simp: CheckComparisonOperands_def checked illegal_operands_def split: bind_splits if_splits)
  have "\<exists>\<tau>. wt_expr A \<Gamma> l' \<tau> \<and> wt_expr A \<Gamma> r' \<tau>"
    using a b ok2 l r by (cases ok1)
      (auto dest: CheckAssignmentConstraints_sound CheckAssignmentConstraints_False)
  then obtain \<tau> where \<tau>: "wt_expr A \<Gamma> l' \<tau>" "wt_expr A \<Gamma> r' \<tau>" by blast
  then have "IsPointerType \<tau> \<longrightarrow> IsEqualityOp op" "ty = Some (if IsSqlValueType \<tau> then bt K_BooleanVal else bool_type)"
    using c a b ok2 assms(2) lr wt_GetType [OF \<tau>(1)]
    by (auto simp: CheckComparisonOperands_def checked illegal_operands_def split: bind_splits if_splits)
  then show ?thesis using t wt_Comparison [OF assms(3) \<tau> _ refl] by blast
qed

lemma check_call_args_sound:
  assumes "check_call_args f n ps args s = Some ((ok, args'), s')" and "quiet s s'"
    and "list_all (\<lambda>arg. \<exists>\<sigma>. wt_expr A \<Gamma> arg \<sigma>) args" and "length args = length ps"
  shows "ok \<and> list_all2 (\<lambda>arg p. wt_expr A \<Gamma> arg (snd p)) args' ps"
  using assms
proof (induction args arbitrary: n ps s ok args' s')
  case (Cons arg args)
  then obtain p ps' where ps: "ps = p # ps'" by (cases ps) auto
  with Cons.prems(1) obtain ok1 arg1 where c: "CheckAssignmentConstraints (snd p) arg = Some (ok1, arg1)"
    by (auto split: bind_splits)
  have q: False if "check_call_args f m qs args (ReportError a b s) = Some (x, s')" for m qs a b x
    using check_call_args_reports [OF that] Cons.prems(2) by (auto simp: reports_def ReportError_def)
  from Cons.prems(1) ps c obtain ok2 args2 where r: "ok1" "check_call_args f (n + 1) ps' args s = Some ((ok2, args2), s')"
    "ok = (ok1 \<and> ok2)" "args' = arg1 # args2"
    by (cases ok1) (auto split: bind_splits dest: q)
  from Cons.prems(3) obtain \<sigma> where "wt_expr A \<Gamma> arg \<sigma>" by auto
  with c r have "wt_expr A \<Gamma> arg1 (snd p)" by (auto intro: CheckAssignmentConstraints_sound)
  with r Cons.IH [OF r(2) Cons.prems(2)] Cons.prems ps show ?case by auto
qed auto

lemma check_call_sound:
  assumes "check_call f ps \<tau> args s = Some (t, s')" and "quiet s s'" and "length args = length ps"
    and "list_all (\<lambda>arg. \<exists>\<sigma>. wt_expr A \<Gamma> arg \<sigma>) args" and "wt_expr A \<Gamma> f (FunctionType ps \<tau>)"
  shows "wt_expr A \<Gamma> t \<tau>"
  using assms by (auto simp: check_call_def split: bind_splits
      dest: check_call_args_sound intro!: wt_Call)

lemma VisitIdentifierExpression_sound:
  assumes "VisitIdentifierExpression p n s = Some (t, s')" and "quiet s s'"
  shows "\<exists>\<tau>. wt_expr A (env_of s) t \<tau>"
  using assms by (auto simp: VisitIdentifierExpression_def split: if_splits option.splits
      intro: wt_Variable wt_TypeName)

lemma VisitLiteralExpression_sound:
  assumes "VisitLiteralExpression p l s = Some (t, s')"
  shows "\<exists>\<tau>. wt_expr A \<Gamma> t \<tau>"
  using assms by (auto simp: VisitLiteralExpression_def literal_fits_def split: bind_splits intro!: exI wt_Literal)

lemma VisitUnaryOp_sound:
  assumes "VisitUnaryOp p op e s = Some (t, s')" and "quiet s s'" and "wt_expr A \<Gamma> e \<sigma>"
  shows "\<exists>\<tau>. wt_expr A \<Gamma> t \<tau>"
proof -
  from assms wt_GetType [OF assms(3)] obtain \<tau> where "unary_type op \<sigma> = Some (Some \<tau>)"
    "t = TUnaryOp (Some \<tau>) p op e"
    by (auto simp: VisitUnaryOp_def split: bind_splits option.splits)
  moreover have "\<sigma> = PointerType \<rho>" if "GetPointeeType \<sigma> = Some \<rho>" for \<rho> using that by (cases \<sigma>) auto
  ultimately show ?thesis
    using assms(3) by (auto simp: unary_type_def split: if_splits intro: wt_Not wt_Negate wt_Deref wt_AddressOf)
qed

lemma VisitMemberExpression_sound:
  assumes "VisitMemberExpression p e m s = Some (t, s')" and "quiet s s'" and "wt_expr A \<Gamma> e \<sigma>"
  shows "\<exists>\<tau>. wt_expr A \<Gamma> t \<tau>"
proof -
  define \<rho> where "\<rho> = (case \<sigma> of PointerType b \<Rightarrow> b | _ \<Rightarrow> \<sigma>)"
  have \<sigma>: "\<sigma> = \<rho> \<or> \<sigma> = PointerType \<rho>" by (cases \<sigma>) (auto simp: \<rho>_def)
  from assms(1,2) wt_GetType [OF assms(3)] obtain n fs q x \<tau> where "\<rho> = StructType n fs" "m = IdentifierExpression q x"
    "LookupFieldByName fs (Some x) = Some \<tau>" "t = TMember (Some \<tau>) p e m"
    by (auto simp: VisitMemberExpression_def \<rho>_def [symmetric] split: Type.splits Expression.splits option.splits)
  with \<sigma> assms(3) show ?thesis by (auto intro: wt_Member)
qed

lemma VisitIndexExpression_sound:
  assumes "VisitIndexExpression p ob i s = Some (t, s')" and "quiet s s'"
    and ob: "wt_expr A \<Gamma> ob \<sigma>" and i: "wt_expr A \<Gamma> i \<rho>"
  shows "\<exists>\<tau>. wt_expr A \<Gamma> t \<tau>"
proof -
  note v = assms(1,2) wt_GetType [OF ob] wt_GetType [OF i]
  have \<rho>: "IsIntegerType \<rho>" using v by (auto simp: VisitIndexExpression_def split: if_splits)
  show ?thesis
  proof (cases "\<exists>n \<tau>. \<sigma> = ArrayType n \<tau>")
    case True
    then obtain n \<tau> where \<sigma>: "\<sigma> = ArrayType n \<tau>" by blast
    with v \<rho> have "index_error n i = Some None" and t: "t = TIndex (Some \<tau>) p ob i"
      by (auto simp: VisitIndexExpression_def split: option.splits bind_splits)
    then have "\<forall>q v. i = TLiteral (Some \<rho>) q (IntLiteral v) \<longrightarrow> 0 \<le> v \<and> (n \<noteq> 0 \<longrightarrow> word_of_int v < n)"
      by (auto simp: index_error_def HasKnownLength_def not_le split: if_splits)
    with ob i \<rho> \<sigma> t show ?thesis by (auto intro: wt_ArrayIndex)
  next
    case False
    with v \<rho> obtain k \<tau> where "\<sigma> = MapType k \<tau>" "t = TIndex (Some \<tau>) p ob i"
      by (cases \<sigma>) (auto simp: VisitIndexExpression_def)
    with ob i \<rho> show ?thesis by (auto intro: wt_MapIndex)
  qed
qed

section \<open>Soundness of the builtin checks\<close>

text \<open>What a parameter of a builtin function asks of its argument.\<close>

definition arg_matches :: "ArgSpec \<Rightarrow> TExpr \<Rightarrow> bool" where
  "arg_matches spec arg =
     (case spec of
        Exactly \<tau> \<Rightarrow> GetType arg = Some \<tau>
      | StringLiteralArg \<Rightarrow> (\<exists>\<tau> p l. arg = TLiteral \<tau> p (StringLiteral l))
      | AnyPointerArg \<Rightarrow> (\<exists>\<tau>. GetType arg = Some (PointerType \<tau>))
      | FunctionArg ret specs \<Rightarrow> (\<exists>ps. GetType arg = Some (FunctionType ps ret) \<and>
          list_all2 (\<lambda>spec p. TypeCheck spec (snd p)) specs ps))"

lemma IsPointerType_iff: "IsPointerType t \<longleftrightarrow> (\<exists>b. t = PointerType b)"
  by (cases t) auto

lemma function_mismatch_None:
  "function_mismatch ret specs t = None \<longleftrightarrow>
     (\<exists>ps. t = FunctionType ps ret \<and> list_all2 (\<lambda>spec p. TypeCheck spec (snd p)) specs ps)"
  by (cases t) (auto simp: function_mismatch_def dest: list_all2_lengthD)

lemma check_arg_accepts:
  assumes "i < length args" and "arg_matches spec (args ! i)"
  shows "check_arg f spec i args s = Some ((True, args), s)"
proof (cases spec)
  case (FunctionArg ret specs)
  with assms obtain \<tau> where "GetType (args ! i) = Some \<tau>" "function_mismatch ret specs \<tau> = None"
    by (auto simp: arg_matches_def function_mismatch_None)
  with assms FunctionArg show ?thesis by (simp add: check_arg_def checked)
qed (use assms in \<open>auto simp: check_arg_def arg_matches_def checked CheckAssignmentConstraints_same\<close>)

lemma check_arg_matches:
  assumes "check_arg f spec i args s = Some ((True, args'), s')"
  shows "i < length args \<and> (\<exists>arg. args' = args[i := arg] \<and> arg_matches spec arg \<and>
    (\<forall>A \<Gamma> \<sigma>. wt_expr A \<Gamma> (args ! i) \<sigma> \<longrightarrow> (\<exists>\<tau>. wt_expr A \<Gamma> arg \<tau>))) \<and> s' = s"
proof -
  have i: "i < length args"
    using assms by (cases "i < length args") (auto simp: check_arg_def checked)
  show ?thesis
  proof (cases spec)
    case (Exactly \<tau>)
    with assms i obtain arg where "CheckAssignmentConstraints \<tau> (args ! i) = Some (True, arg)" "args' = args[i := arg]" "s' = s"
      by (auto simp: check_arg_def checked split: bind_splits if_splits)
    then show ?thesis
      using i Exactly CheckAssignmentConstraints_GetType CheckAssignmentConstraints_sound
      by (fastforce simp: arg_matches_def)
  next
    case StringLiteralArg
    with assms i have "(\<exists>\<tau> p l. args ! i = TLiteral \<tau> p (StringLiteral l)) \<and> args' = args \<and> s' = s"
      by (auto simp: check_arg_def checked split: bind_splits TExpr.splits Literal.splits)
    then show ?thesis using i StringLiteralArg
      by (intro conjI exI [of _ "args ! i"]) (auto simp: arg_matches_def)
  next
    case AnyPointerArg
    with assms i have "(\<exists>\<tau>. GetType (args ! i) = Some (PointerType \<tau>)) \<and> args' = args \<and> s' = s"
      by (auto simp: check_arg_def checked IsPointerType_iff split: bind_splits if_splits)
    then show ?thesis using i AnyPointerArg by (auto simp: arg_matches_def intro!: exI [of _ "args ! i"])
  next
    case (FunctionArg ret specs)
    with assms i have "arg_matches spec (args ! i) \<and> args' = args \<and> s' = s"
      by (auto simp: check_arg_def checked arg_matches_def function_mismatch_None split: bind_splits option.splits)
    then show ?thesis using i by (auto intro!: exI [of _ "args ! i"])
  qed
qed

lemma check_arg_rejects:
  assumes "check_arg f spec i args s = Some ((False, args'), s')"
  shows "\<not> quiet s s'"
  using assms by (auto simp: check_arg_def ReportIncorrectCallArg_def ReportIncorrectCallArg2_def
      split: bind_splits if_splits ArgSpec.splits TExpr.splits Literal.splits option.splits)

lemma ArgCheck_matches:
  assumes "ArgCheck f specs i args s = Some ((True, args'), s')"
  shows "length args' = length args \<and> s' = s \<and> take i args' = take i args \<and>
    (\<forall>k < length specs. i + k < length args \<and> arg_matches (specs ! k) (args' ! (i + k))) \<and>
    (\<forall>A \<Gamma>. list_all (\<lambda>arg. \<exists>\<sigma>. wt_expr A \<Gamma> arg \<sigma>) args \<longrightarrow> list_all (\<lambda>arg. \<exists>\<sigma>. wt_expr A \<Gamma> arg \<sigma>) args')"
  using assms
proof (induction specs arbitrary: i args s)
  case (Cons spec specs)
  then obtain args1 s1 where c: "check_arg f spec i args s = Some ((True, args1), s1)"
    and r: "ArgCheck f specs (i + 1) args1 s1 = Some ((True, args'), s')"
    by (auto split: bind_splits if_splits)
  from check_arg_matches [OF c] obtain arg where m: "i < length args" "args1 = args[i := arg]" "arg_matches spec arg"
    "\<And>A \<Gamma> \<sigma>. wt_expr A \<Gamma> (args ! i) \<sigma> \<Longrightarrow> \<exists>\<tau>. wt_expr A \<Gamma> arg \<tau>" "s1 = s"
    by blast
  note IH = Cons.IH [OF r]
  have i: "args' ! i = arg" using arg_cong [of _ _ "\<lambda>l. l ! i", OF IH [THEN conjunct2, THEN conjunct2, THEN conjunct1]] m IH
    by simp
  have "take i (take (i + 1) args') = take i (take (i + 1) args1)" using IH by simp
  then have t: "take i args' = take i args" using m by simp
  have k: "i + k < length args \<and> arg_matches ((spec # specs) ! k) (args' ! (i + k))" if "k < length (spec # specs)" for k
    using that IH m i by (cases k) auto
  have w: "list_all (\<lambda>arg. \<exists>\<sigma>. wt_expr A \<Gamma> arg \<sigma>) args'" if "list_all (\<lambda>arg. \<exists>\<sigma>. wt_expr A \<Gamma> arg \<sigma>) args" for A \<Gamma>
  proof -
    have "list_all (\<lambda>arg. \<exists>\<sigma>. wt_expr A \<Gamma> arg \<sigma>) args1"
      using that m by (auto simp: list_all_length nth_list_update)
    then show ?thesis using IH by blast
  qed
  show ?case using IH m t k w by simp
qed auto

lemma ArgCheck_accepts:
  assumes "i + length specs \<le> length args"
    and "\<And>k. k < length specs \<Longrightarrow> arg_matches (specs ! k) (args ! (i + k))"
  shows "ArgCheck f specs i args s = Some ((True, args), s)"
  using assms
proof (induction specs arbitrary: i)
  case (Cons spec specs)
  have "arg_matches (specs ! k) (args ! (i + 1 + k))" if "k < length specs" for k
    using Cons.prems(2) [of "Suc k"] that by simp
  then show ?case
    using Cons.prems(1) Cons.prems(2) [of 0] Cons.IH [of "i + 1"] by (simp add: check_arg_accepts)
qed auto

lemma ArgCheck_rejects:
  assumes "ArgCheck f specs i args s = Some ((False, args'), s')"
  shows "\<not> quiet s s'"
  using assms
proof (induction specs arbitrary: i args s)
  case (Cons spec specs)
  then show ?case
    by (auto split: bind_splits if_splits dest!: check_arg_rejects check_arg_matches Cons.IH)
qed auto

text \<open>
  A check is sound when every run without an error gives a type and well-typed arguments, and the arguments
  are accepted as they are when checked again.
\<close>

definition sound_check :: "(TExpr \<Rightarrow> TExpr list \<Rightarrow> BuiltinResult sema) \<Rightarrow> bool" where
  "sound_check chk \<longleftrightarrow> (\<forall>f args s ty args' s'. chk f args s = Some ((ty, args'), s') \<longrightarrow> quiet s s' \<longrightarrow>
     (\<exists>\<tau>. ty = Some \<tau> \<and> (\<forall>f s. chk f args' s = Some ((Some \<tau>, args'), s)) \<and> length args' = length args \<and>
       (\<forall>A \<Gamma>. list_all (\<lambda>arg. \<exists>\<sigma>. wt_expr A \<Gamma> arg \<sigma>) args \<longrightarrow> list_all (\<lambda>arg. \<exists>\<sigma>. wt_expr A \<Gamma> arg \<sigma>) args')))"

lemma sound_checkI:
  assumes "\<And>f args s ty args' s'. chk f args s = Some ((ty, args'), s') \<Longrightarrow> quiet s s' \<Longrightarrow>
    args' = args \<and> (\<exists>\<tau>. ty = Some \<tau> \<and> (\<forall>f s. chk f args s = Some ((Some \<tau>, args), s)))"
  shows "sound_check chk"
  using assms unfolding sound_check_def by blast

lemma CheckArgCount_quiet:
  "CheckArgCount f n m s = Some (ok, s') \<Longrightarrow> quiet s s' \<Longrightarrow> ok \<and> n = m \<and> s' = s"
  by (auto simp: CheckArgCount_def split: if_splits bind_splits)

lemma GenericBuiltinCheck_matches:
  assumes "GenericBuiltinCheck ret specs f args s = Some ((ty, args'), s')" and "quiet s s'"
  shows "ty = Some ret \<and> list_all2 arg_matches specs args' \<and> length args' = length args \<and>
    (\<forall>A \<Gamma>. list_all (\<lambda>arg. \<exists>\<sigma>. wt_expr A \<Gamma> arg \<sigma>) args \<longrightarrow> list_all (\<lambda>arg. \<exists>\<sigma>. wt_expr A \<Gamma> arg \<sigma>) args')"
proof -
  from assms(1) obtain ok s1 where c: "CheckArgCount f (length args) (length specs) s = Some (ok, s1)"
    by (auto simp: GenericBuiltinCheck_def split: bind_splits)
  have "quiet s s1"
    using c assms by (auto simp: GenericBuiltinCheck_def reports_def split: bind_splits if_splits
        dest!: CheckArgCount_reports ArgCheck_reports)
  then have ok: "ok" "length args = length specs" "s1 = s" using CheckArgCount_quiet [OF c] by auto
  with assms c obtain ok2 where a: "ArgCheck f specs 0 args s = Some ((ok2, args'), s')"
    and ty: "ty = (if ok2 then Some ret else None)"
    by (auto simp: GenericBuiltinCheck_def split: bind_splits)
  have ok2: "ok2 = True" using ArgCheck_rejects [of f specs 0 args s args' s'] a assms(2) by (cases ok2) auto
  show ?thesis using ArgCheck_matches [OF a [unfolded ok2]] ok ty ok2
    by (auto simp: list_all2_conv_all_nth)
qed

lemma GenericBuiltinCheck_accepts:
  assumes "list_all2 arg_matches specs args"
  shows "GenericBuiltinCheck ret specs f args s = Some ((Some ret, args), s)"
  using assms ArgCheck_accepts [of 0 specs args f s]
  by (simp add: GenericBuiltinCheck_def CheckArgCount_def list_all2_conv_all_nth)

lemma GenericBuiltinCheck_sound: "sound_check (GenericBuiltinCheck ret specs)"
  using GenericBuiltinCheck_matches GenericBuiltinCheck_accepts unfolding sound_check_def by blast

lemma sound_checkD:
  assumes "sound_check chk" and "chk f args s = Some ((ty, args'), s')" and "quiet s s'"
  obtains \<tau> where "ty = Some \<tau>" "\<And>f s. chk f args' s = Some ((Some \<tau>, args'), s)" "length args' = length args"
    "\<And>A \<Gamma>. list_all (\<lambda>arg. \<exists>\<sigma>. wt_expr A \<Gamma> arg \<sigma>) args \<Longrightarrow> list_all (\<lambda>arg. \<exists>\<sigma>. wt_expr A \<Gamma> arg \<sigma>) args'"
  using assms unfolding sound_check_def by blast

lemma sound_check_None [simp]: "sound_check (\<lambda>f args s. None)"
  by (simp add: sound_check_def)

lemma check_signature_sound: "sound_check (\<lambda>f args. check_signature f args (sig (length args)))"
  unfolding sound_check_def
proof (intro allI impI)
  fix f args s ty args' s'
  assume v: "check_signature f args (sig (length args)) s = Some ((ty, args'), s')" and q: "quiet s s'"
  then obtain ret specs where sig: "sig (length args) = Some (ret, specs)"
    and g: "GenericBuiltinCheck ret specs f args s = Some ((ty, args'), s')"
    by (auto simp: check_signature_def split: bind_splits)
  obtain \<tau> where "ty = Some \<tau>" "\<And>f s. GenericBuiltinCheck ret specs f args' s = Some ((Some \<tau>, args'), s)"
    "length args' = length args"
    "\<And>A \<Gamma>. list_all (\<lambda>arg. \<exists>\<sigma>. wt_expr A \<Gamma> arg \<sigma>) args \<Longrightarrow> list_all (\<lambda>arg. \<exists>\<sigma>. wt_expr A \<Gamma> arg \<sigma>) args'"
    by (rule sound_checkD [OF GenericBuiltinCheck_sound g q]) blast
  with sig show "\<exists>\<tau>. ty = Some \<tau> \<and> (\<forall>f s. check_signature f args' (sig (length args')) s = Some ((Some \<tau>, args'), s)) \<and>
      length args' = length args \<and>
      (\<forall>A \<Gamma>. list_all (\<lambda>arg. \<exists>\<sigma>. wt_expr A \<Gamma> arg \<sigma>) args \<longrightarrow> list_all (\<lambda>arg. \<exists>\<sigma>. wt_expr A \<Gamma> arg \<sigma>) args')"
    by (auto simp: check_signature_def)
qed

lemma CheckArgCount_split:
  "CheckArgCount f n m s = Some (ok, s1) \<longleftrightarrow>
     (n = m \<and> ok \<and> s1 = s) \<or>
     (n \<noteq> m \<and> \<not> ok \<and> (\<exists>name. GetFuncName f = Some name \<and>
       s1 = ReportError (texpr_pos f) (kMismatchedCallArgs name m n) s))"
  by (auto simp: CheckArgCount_def split: bind_splits)

lemma CheckArgCountAtLeast_split:
  "CheckArgCountAtLeast f n m s = Some (ok, s1) \<longleftrightarrow>
     (m \<le> n \<and> ok \<and> s1 = s) \<or>
     (n < m \<and> \<not> ok \<and> (\<exists>name. GetFuncName f = Some name \<and>
       s1 = ReportError (texpr_pos f) (kMismatchedCallArgs name m n) s))"
  by (auto simp: CheckArgCountAtLeast_def split: bind_splits)

lemmas arg_counts = CheckArgCount_split CheckArgCountAtLeast_split

lemma ReportIncorrectCallArg_not_quiet [simp]:
  "ReportIncorrectCallArg f args i t s = Some s' \<Longrightarrow> \<not> quiet s s'"
  by (auto simp: ReportIncorrectCallArg_def split: bind_splits)

lemma ReportIncorrectCallArg2_not_quiet [simp]:
  "ReportIncorrectCallArg2 f args i m s = Some s' \<Longrightarrow> \<not> quiet s s'"
  by (auto simp: ReportIncorrectCallArg2_def split: bind_splits)

lemma CheckNullValueCall_sound: "sound_check (\<lambda>f. CheckNullValueCall f b)"
  by (rule sound_checkI) (auto simp: CheckNullValueCall_def arg_counts CheckArgCount_def
      split: bind_splits if_splits NullValue.splits)

lemma CheckBuiltinHashCall_sound: "sound_check CheckBuiltinHashCall"
  by (rule sound_checkI) (auto simp: CheckBuiltinHashCall_def arg_counts CheckArgCountAtLeast_def
      split: bind_splits if_splits option.splits)

lemma CheckBuiltinSizeOfCall_sound: "sound_check CheckBuiltinSizeOfCall"
  by (rule sound_checkI) (auto simp: CheckBuiltinSizeOfCall_def arg_counts CheckArgCount_def
      split: bind_splits if_splits)

lemma CheckBuiltinBitsCall_sound: "sound_check (CheckBuiltinBitsCall A)"
  by (rule sound_checkI) (auto simp: CheckBuiltinBitsCall_def arg_counts CheckArgCount_def
      split: bind_splits if_splits Type.splits)

lemma CheckBuiltinVectorFilterCall_sound: "sound_check CheckBuiltinVectorFilterCall"
proof (rule sound_checkI)
  fix f args s ty args' s'
  assume v: "CheckBuiltinVectorFilterCall f args s = Some ((ty, args'), s')" and q: "quiet s s'"
  then have n: "length args = 4"
    by (auto simp: CheckBuiltinVectorFilterCall_def arg_counts split: bind_splits if_splits)
  note defs = CheckBuiltinVectorFilterCall_def CheckArgCount_def Let_def
  from v n obtain t0 t1 t2 t3 where t: "arg_type args 0 = Some t0" "arg_type args 1 = Some t1"
    "arg_type args 2 = Some t2" "arg_type args 3 = Some t3"
    by (auto simp: defs split: bind_splits)
  with v q n show "args' = args \<and> (\<exists>\<tau>. ty = Some \<tau> \<and> (\<forall>f s. CheckBuiltinVectorFilterCall f args s = Some ((Some \<tau>, args), s)))"
    by (cases "IsPointerToSpecificBuiltin t0 K_VectorProjection \<and> (t1 = bt K_Int32 \<or> t1 = bt K_UInt32) \<and>
        (t2 = bt K_Int32 \<or> IsSqlValueType t2) \<and> IsPointerToSpecificBuiltin t3 K_TupleIdList")
      (auto simp: defs split: if_splits bind_splits)
qed

lemma CheckBuiltinAggregatorCall_sound: "sound_check (\<lambda>f. CheckBuiltinAggregatorCall f b)"
proof (rule sound_checkI)
  fix f args s ty args' s'
  assume v: "CheckBuiltinAggregatorCall f b args s = Some ((ty, args'), s')" and q: "quiet s s'"
  note defs = CheckBuiltinAggregatorCall_def not_aggregate_def CheckArgCount_def
  show "args' = args \<and> (\<exists>\<tau>. ty = Some \<tau> \<and> (\<forall>f s. CheckBuiltinAggregatorCall f b args s = Some ((Some \<tau>, args), s)))"
    using v q
  proof (cases b)
    case AggAdvance
    then show ?thesis using v q by (auto simp: defs split: if_splits bind_splits)
  next
    case AggMerge
    then show ?thesis using v q by (auto simp: defs split: if_splits bind_splits)
  next
    case AggResult
    then show ?thesis using v q by (auto simp: defs split: if_splits bind_splits option.splits Type.splits)
  qed (auto simp: defs split: option.splits bind_splits)
qed

lemma check_filters_quiet:
  "check_filters f args is s = Some (ok, s') \<Longrightarrow> quiet s s' \<Longrightarrow>
     ok \<and> s' = s \<and> (\<forall>f s. check_filters f args is s = Some (True, s))"
  by (induction f args "is" s rule: check_filters.induct) (auto split: bind_splits if_splits)

lemma CheckBuiltinFilterManagerCall_sound: "sound_check (\<lambda>f. CheckBuiltinFilterManagerCall f b)"
  unfolding sound_check_def
proof (intro allI impI)
  fix f args s ty args' s'
  assume v: "CheckBuiltinFilterManagerCall f b args s = Some ((ty, args'), s')" and q: "quiet s s'"
  note defs = CheckBuiltinFilterManagerCall_def CheckArgCountAtLeast_def
  define specs where "specs = (if b = FilterManagerRunFilters
    then [Exactly (ptr K_FilterManager), Exactly (ptr K_VectorProjectionIterator)] else [Exactly (ptr K_FilterManager)])"
  have n: "1 \<le> length args"
    using v q by (auto simp: CheckBuiltinFilterManagerCall_def arg_counts split: bind_splits if_splits)
  with v obtain t0 where t: "arg_type args 0 = Some t0" by (auto simp: defs split: bind_splits if_splits)
  with v q n have t0: "IsPointerToSpecificBuiltin t0 K_FilterManager"
    by (auto simp: defs split: bind_splits if_splits)
  from n have ne: "args \<noteq> []" by auto
  show "\<exists>\<tau>. ty = Some \<tau> \<and> (\<forall>f s. CheckBuiltinFilterManagerCall f b args' s = Some ((Some \<tau>, args'), s)) \<and>
      length args' = length args \<and>
      (\<forall>A \<Gamma>. list_all (\<lambda>arg. \<exists>\<sigma>. wt_expr A \<Gamma> arg \<sigma>) args \<longrightarrow> list_all (\<lambda>arg. \<exists>\<sigma>. wt_expr A \<Gamma> arg \<sigma>) args')"
  proof (cases "b = FilterManagerInsertFilter")
    case True
    with v ne t t0 obtain ok where c: "check_filters f args [1..<length args] s = Some (ok, s')"
      and r: "ty = (if ok then Some (bt K_Nil) else None)" "args' = args"
      by (auto simp: defs split: bind_splits)
    show ?thesis using check_filters_quiet [OF c q] r True ne t t0 by (simp add: defs)
  next
    case False
    then have g: "GenericBuiltinCheck (bt K_Nil) specs f args s = Some ((ty, args'), s')"
      using v ne t t0 by (cases b) (auto simp: defs specs_def)
    note m = GenericBuiltinCheck_matches [OF g q]
    have "arg_type args' 0 = Some (ptr K_FilterManager)"
      using m by (auto simp: specs_def arg_type_def arg_matches_def vec_at_def list_all2_Cons1 split: if_splits)
    moreover have "IsPointerToSpecificBuiltin (ptr K_FilterManager) K_FilterManager"
      by (simp add: IsPointerToSpecificBuiltin_def)
    moreover have "GenericBuiltinCheck (bt K_Nil) specs f args' s = Some ((Some (bt K_Nil), args'), s)" for f s
      using m by (blast intro: GenericBuiltinCheck_accepts)
    ultimately show ?thesis using m ne False by (cases b) (simp_all add: defs specs_def)
  qed
qed

lemma check_resolved_builtin_sound:
  assumes "b \<noteq> Concat"
  shows "sound_check (\<lambda>f. check_resolved_builtin A f b)"
proof (cases b)
  case (BNullValue x)
  then show ?thesis using CheckNullValueCall_sound by (simp add: check_resolved_builtin_def [abs_def])
next
  case (BFilterManagerCall x)
  then show ?thesis using CheckBuiltinFilterManagerCall_sound by (simp add: check_resolved_builtin_def [abs_def])
next
  case (BAggregatorCall x)
  then show ?thesis using CheckBuiltinAggregatorCall_sound by (simp add: check_resolved_builtin_def [abs_def])
next
  case Like
  then show ?thesis using GenericBuiltinCheck_sound by (simp add: check_resolved_builtin_def [abs_def] CheckBuiltinStringLikeCall_def [abs_def])
next
  case ExtractYear
  then show ?thesis using GenericBuiltinCheck_sound
    by (simp add: check_resolved_builtin_def [abs_def] CheckBuiltinDateFunctionCall_def [abs_def])
next
  case LNot
  then show ?thesis using GenericBuiltinCheck_sound by (simp add: check_resolved_builtin_def [abs_def])
next
  case Hash
  then show ?thesis using CheckBuiltinHashCall_sound by (simp add: check_resolved_builtin_def [abs_def])
next
  case (BVectorFilterCall x)
  then show ?thesis using CheckBuiltinVectorFilterCall_sound by (simp add: check_resolved_builtin_def [abs_def])
next
  case (BBitsCall x)
  then show ?thesis using CheckBuiltinBitsCall_sound by (simp add: check_resolved_builtin_def [abs_def])
next
  case SizeOf
  then show ?thesis using CheckBuiltinSizeOfCall_sound by (simp add: check_resolved_builtin_def [abs_def])
qed (use assms check_signature_sound in \<open>auto simp: check_resolved_builtin_def [abs_def] signature_checks [abs_def]\<close>)

end
