(* ===== verification/SemaSound.thy ===== *)
theory SemaSound
  imports SemaTyping
begin

text \<open>
  The soundness of semantic analysis: a program in which the visitor finds no error is well typed. The induction
  follows the syntax tree; for each class of nodes one lemma shows that the visitor builds a well-typed node from
  well-typed parts, provided that no error is reported (\<open>quiet\<close>) between the states before and after.
\<close>

section \<open>Environments\<close>

lemma Lookup_EnterScope [simp]: "env_of (EnterScope s) = env_of s"
  by (simp add: EnterScope_def LookupLocal_def fun_eq_iff)

lemma env_of_simps [simp]:
  "env_of (s\<lparr>sm_errors := e\<rparr>) = env_of s"
  "env_of (s\<lparr>sm_context := c\<rparr>) = env_of s"
  "env_of (s\<lparr>curr_func := f\<rparr>) = env_of s"
  "env_of (enter_decl d s) = env_of s"
  "env_of (exit_decl dd s) = env_of s"
  "curr_func (enter_decl d s) = curr_func s"
  "curr_func (exit_decl dd s) = curr_func s"
  "curr_func (EnterScope s) = curr_func s"
  "sm_errors (enter_decl d s) = sm_errors s"
  "sm_errors (exit_decl dd s) = sm_errors s"
  "sm_errors (EnterScope s) = sm_errors s"
  by (simp_all add: enter_decl_def exit_decl_def EnterScope_def)

lemma declare_in_scope_env:
  assumes "declare_in_scope x \<tau> s = Some s'"
  shows "env_of s' = bind_name (env_of s) x \<tau>"
  using assms by (auto simp: declare_in_scope_def Declare_def bind_name_def LookupLocal_def fun_eq_iff
      split: list.splits option.splits bind_splits)

lemma declare_in_scope_keeps:
  assumes "declare_in_scope x \<tau> s = Some s'"
  shows "sm_errors s' = sm_errors s \<and> curr_func s' = curr_func s"
  using assms by (auto simp: declare_in_scope_def split: bind_splits)

lemma declare_params_env:
  assumes "declare_params ps s = Some s'"
  shows "env_of s' = bind_params (env_of s) ps \<and> sm_errors s' = sm_errors s \<and> curr_func s' = curr_func s"
  using assms unfolding declare_params_def bind_params_def
proof (induction ps arbitrary: s)
  case (Cons p ps)
  then obtain s1 where "declare_in_scope (fst p) (snd p) s = Some s1"
    and "fold_opt (\<lambda>param s. declare_in_scope (fst param) (snd param) s) ps s1 = Some s'"
    by (auto split: bind_splits)
  then show ?case using Cons.IH by (simp add: declare_in_scope_env declare_in_scope_keeps)
qed auto

lemma enter_function_env:
  assumes "enter_function \<tau> s = Some s'"
  obtains ps ret where "\<tau> = FunctionType ps ret" "env_of s' = bind_params (env_of s) ps" "sm_errors s' = sm_errors s"
    "curr_func s' = Some \<tau>"
  using assms by (auto simp: enter_function_def split: Type.splits dest: declare_params_env)

lemma exit_function_errors: "exit_function f s = Some s' \<Longrightarrow> sm_errors s' = sm_errors s"
  by (auto simp: exit_function_def ExitScope_def split: bind_splits list.splits)

lemma ExitScope_errors: "ExitScope s = Some s' \<Longrightarrow> sm_errors s' = sm_errors s"
  by (auto simp: ExitScope_def split: list.splits)

section \<open>Frames without errors\<close>

lemma expr_frame_env: "expr_frame s s' \<Longrightarrow> env_of s' = env_of s \<and> curr_func s' = curr_func s"
  by (auto simp: expr_frame_def)

lemma stmt_frame_func: "stmt_frame s s' \<Longrightarrow> curr_func s' = curr_func s"
  by (auto simp: stmt_frame_def)

lemma stmt_frame_errors: "stmt_frame s s' \<Longrightarrow> \<exists>es. sm_errors s' = sm_errors s @ es"
  by (auto simp: stmt_frame_def)

lemma quiet_split:
  assumes "stmt_frame s t" and "stmt_frame t u" and "quiet s u"
  shows "quiet s t \<and> quiet t u"
proof -
  from stmt_frame_errors [OF assms(1)] stmt_frame_errors [OF assms(2)] obtain es fs
    where "sm_errors t = sm_errors s @ es" "sm_errors u = sm_errors t @ fs" by blast
  with assms(3) show ?thesis by simp
qed

lemmas quiet_fst = quiet_split [THEN conjunct1]
lemmas quiet_snd = quiet_split [THEN conjunct2]

lemmas VisitExpr_frame = visit_frameD [OF conjunct1 [OF visit_frames(1)]]
lemmas VisitStmt_frame = stmt_visit_frameD [OF visit_frames(2)]
lemmas VisitDecl_frame = decl_visit_frameD [OF visit_frames(3)]

lemma VisitArgs_frames: "VisitArgs A es s = Some (x, s') \<Longrightarrow> expr_frame s s'"
  using VisitArgs_frame [of es A] visit_frames(1) by blast

lemma VisitFields_frames: "VisitFields A ds s = Some (x, s') \<Longrightarrow> expr_frame s s'"
  using VisitFields_frame [of ds A] visit_frames(3) by blast

lemma VisitExprOption_frames: "VisitExprOption A e s = Some (x, s') \<Longrightarrow> expr_frame s s'"
  by (cases e) (auto dest: VisitExpr_frame)

lemma VisitStmts_frames: "VisitStmts A sts s = Some (x, s') \<Longrightarrow> stmt_frame s s'"
  using VisitStmts_frame [of sts A] visit_frames(2) by blast

lemma VisitStmtOption_frames: "VisitStmtOption A st s = Some (x, s') \<Longrightarrow> stmt_frame s s'"
  by (cases st) (auto split: bind_splits dest: VisitStmt_frame)

lemma reports_stmt_frame: "reports s s' \<Longrightarrow> stmt_frame s s'"
  by (intro expr_frame_stmt_frame reports_expr_frame)

section \<open>Soundness of the visitor\<close>

definition sound_expr :: "abi \<Rightarrow> Expression \<Rightarrow> bool" where
  "sound_expr A e \<longleftrightarrow> (\<forall>s t s'. VisitExpr A e s = Some (t, s') \<longrightarrow> quiet s s' \<longrightarrow> known_expr e \<longrightarrow>
     (\<exists>\<tau>. wt_expr A (env_of s) t \<tau>))"

definition sound_stmt :: "abi \<Rightarrow> Statement \<Rightarrow> bool" where
  "sound_stmt A st \<longleftrightarrow> (\<forall>s t s'. VisitStmt A st s = Some (t, s') \<longrightarrow> quiet s s' \<longrightarrow> known_stmt st \<longrightarrow>
     wt_stmt A (env_of s) (curr_func s) t (env_of s') \<and> (\<forall>b. IsTerminating st = Some b \<longrightarrow> returns t = b))"

definition sound_decl :: "abi \<Rightarrow> Declaration \<Rightarrow> bool" where
  "sound_decl A d \<longleftrightarrow> (\<forall>s t s'. VisitDecl A d s = Some (t, s') \<longrightarrow> quiet s s' \<longrightarrow> known_decl d \<longrightarrow>
     wt_decl A (env_of s) t (env_of s'))"

lemma sound_exprD:
  assumes "sound_expr A e" and "VisitExpr A e s = Some (t, s')" and "quiet s s'" and "known_expr e"
  obtains \<tau> where "wt_expr A (env_of s) t \<tau>" "GetType t = Some \<tau>" "env_of s' = env_of s" "curr_func s' = curr_func s"
  using assms expr_frame_env [OF VisitExpr_frame [OF assms(2)]] wt_GetType unfolding sound_expr_def by blast

lemma sound_stmtD:
  assumes "sound_stmt A st" and "VisitStmt A st s = Some (t, s')" and "quiet s s'" and "known_stmt st"
  shows "wt_stmt A (env_of s) (curr_func s) t (env_of s') \<and> (\<forall>b. IsTerminating st = Some b \<longrightarrow> returns t = b) \<and>
    curr_func s' = curr_func s"
  using assms stmt_frame_func [OF VisitStmt_frame [OF assms(2)]] unfolding sound_stmt_def by blast

lemma sound_declD:
  assumes "sound_decl A d" and "VisitDecl A d s = Some (t, s')" and "quiet s s'" and "known_decl d"
  shows "wt_decl A (env_of s) t (env_of s') \<and> curr_func s' = curr_func s"
  using assms stmt_frame_func [OF VisitDecl_frame [OF assms(2)]] unfolding sound_decl_def by blast

lemma VisitArgs_sound:
  assumes "\<And>e. e \<in> set es \<Longrightarrow> sound_expr A e" and "VisitArgs A es s = Some ((ok, ts), s')" and "quiet s s'"
    and "list_all known_expr es"
  shows "ok \<and> list_all (\<lambda>t. \<exists>\<sigma>. wt_expr A (env_of s) t \<sigma>) ts \<and> length ts = length es \<and> env_of s' = env_of s"
  using assms
proof (induction es arbitrary: s ok ts)
  case (Cons e es)
  from Cons.prems(2) obtain t s1 where t: "VisitExpr A e s = Some (t, s1)" by (auto split: bind_splits)
  have f1: "stmt_frame s s1" by (intro expr_frame_stmt_frame VisitExpr_frame [OF t])
  have rest: "stmt_frame s1 s2" if "VisitArgs A es s1 = Some (x, s2)" for x s2
    by (intro expr_frame_stmt_frame VisitArgs_frames [OF that])
  have q1: "quiet s s1" using Cons.prems(2,3) t quiet_split [OF f1 rest]
    by (auto split: bind_splits if_splits)
  obtain \<tau> where \<tau>: "wt_expr A (env_of s) t \<tau>" "GetType t = Some \<tau>" "env_of s1 = env_of s"
    by (rule sound_exprD [OF Cons.prems(1) t q1]) (use Cons.prems(4) in auto)
  with Cons.prems(2) t obtain ok' ts' where r: "VisitArgs A es s1 = Some ((ok', ts'), s')" "ok = ok'" "ts = t # ts'"
    by (auto split: bind_splits)
  have "ok' \<and> list_all (\<lambda>t. \<exists>\<sigma>. wt_expr A (env_of s1) t \<sigma>) ts' \<and> length ts' = length es \<and> env_of s' = env_of s1"
    by (rule Cons.IH [OF Cons.prems(1) r(1)]) (use q1 Cons.prems(3,4) in auto)
  with \<tau> r show ?case by auto
qed auto

lemma sound_two:
  assumes "sound_expr A l" and "sound_expr A r" and "known_expr l" and "known_expr r"
    and "do { (l', s1) \<leftarrow> VisitExpr A l s; (r', s2) \<leftarrow> VisitExpr A r s1; f l' r' s2 } = Some (t, s')"
    and "quiet s s'" and "\<And>l' r' s1 s2 t. f l' r' s1 = Some (t, s2) \<Longrightarrow> stmt_frame s1 s2"
  obtains l' \<sigma> r' \<rho> s2 where "wt_expr A (env_of s) l' \<sigma>" "wt_expr A (env_of s) r' \<rho>" "f l' r' s2 = Some (t, s')" "quiet s2 s'"
    "env_of s2 = env_of s" "curr_func s2 = curr_func s"
proof -
  from assms(5) obtain l' s1 r' s2 where l: "VisitExpr A l s = Some (l', s1)" and r: "VisitExpr A r s1 = Some (r', s2)"
    and f: "f l' r' s2 = Some (t, s')"
    by (auto split: bind_splits)
  have f1: "stmt_frame s s1" and f2: "stmt_frame s1 s2" and f3: "stmt_frame s2 s'"
    using l r assms(7) [OF f] by (auto intro: expr_frame_stmt_frame VisitExpr_frame)
  note q1 = quiet_fst [OF f1 stmt_frame_trans [OF f2 f3] assms(6)]
    and q23 = quiet_snd [OF f1 stmt_frame_trans [OF f2 f3] assms(6)]
  note q2 = quiet_fst [OF f2 f3 q23] and q3 = quiet_snd [OF f2 f3 q23]
  obtain \<sigma> where \<sigma>: "wt_expr A (env_of s) l' \<sigma>" "env_of s1 = env_of s" "curr_func s1 = curr_func s"
    by (rule sound_exprD [OF assms(1) l q1 assms(3)])
  obtain \<rho> where "wt_expr A (env_of s1) r' \<rho>" "env_of s2 = env_of s1" "curr_func s2 = curr_func s1"
    by (rule sound_exprD [OF assms(2) r q2 assms(4)])
  with that [OF \<sigma>(1) _ f q3] \<sigma> show thesis by simp
qed

lemma sound_one:
  assumes "sound_expr A l" and "known_expr l"
    and "do { (l', s1) \<leftarrow> VisitExpr A l s; f l' s1 } = Some (t, s')"
    and "quiet s s'" and "\<And>l' s1 s2 t. f l' s1 = Some (t, s2) \<Longrightarrow> stmt_frame s1 s2"
  obtains l' \<sigma> s2 where "wt_expr A (env_of s) l' \<sigma>" "f l' s2 = Some (t, s')" "quiet s2 s'"
    "env_of s2 = env_of s" "curr_func s2 = curr_func s"
proof -
  from assms(3) obtain l' s1 where l: "VisitExpr A l s = Some (l', s1)" and f: "f l' s1 = Some (t, s')"
    by (auto split: bind_splits)
  have f1: "stmt_frame s s1" and f2: "stmt_frame s1 s'"
    using l assms(5) [OF f] by (auto intro: expr_frame_stmt_frame VisitExpr_frame)
  note q = quiet_fst [OF f1 f2 assms(4)] quiet_snd [OF f1 f2 assms(4)]
  obtain \<sigma> where \<sigma>: "wt_expr A (env_of s) l' \<sigma>" "env_of s1 = env_of s" "curr_func s1 = curr_func s"
    by (rule sound_exprD [OF assms(1) l q(1) assms(2)])
  with that [OF \<sigma>(1) f q(2)] show thesis by simp
qed

lemma sound_BinaryOp:
  assumes "sound_expr A l" and "sound_expr A r"
  shows "sound_expr A (BinaryOpExpression p op l r)"
  unfolding sound_expr_def
proof (intro allI impI)
  fix s t s'
  assume v: "VisitExpr A (BinaryOpExpression p op l r) s = Some (t, s')" and q: "quiet s s'"
    and k: "known_expr (BinaryOpExpression p op l r)"
  obtain l' \<sigma> r' \<rho> s2 where w: "wt_expr A (env_of s) l' \<sigma>" "wt_expr A (env_of s) r' \<rho>"
    "VisitBinaryOp p op l' r' s2 = Some (t, s')" "quiet s2 s'"
    by (rule sound_two [OF assms _ _ v [unfolded VisitExpr.simps] q reports_stmt_frame [OF VisitBinaryOp_reports]])
      (use k in auto)
  show "\<exists>\<tau>. wt_expr A (env_of s) t \<tau>" by (rule VisitBinaryOp_sound [OF w(3,4) _ w(1,2)]) (use k in simp)
qed

lemma sound_Comparison:
  assumes "sound_expr A l" and "sound_expr A r"
  shows "sound_expr A (ComparisonOpExpression p op l r)"
  unfolding sound_expr_def
proof (intro allI impI)
  fix s t s'
  assume v: "VisitExpr A (ComparisonOpExpression p op l r) s = Some (t, s')" and q: "quiet s s'"
    and k: "known_expr (ComparisonOpExpression p op l r)"
  obtain l' \<sigma> r' \<rho> s2 where w: "wt_expr A (env_of s) l' \<sigma>" "wt_expr A (env_of s) r' \<rho>"
    "VisitComparisonOp p op l' r' s2 = Some (t, s')" "quiet s2 s'"
    by (rule sound_two [OF assms _ _ v [unfolded VisitExpr.simps] q reports_stmt_frame [OF VisitComparisonOp_reports]])
      (use k in auto)
  show "\<exists>\<tau>. wt_expr A (env_of s) t \<tau>" by (rule VisitComparisonOp_sound [OF w(3,4) _ w(1,2)]) (use k in simp)
qed

lemma sound_Index:
  assumes "sound_expr A l" and "sound_expr A r"
  shows "sound_expr A (IndexExpression p l r)"
  unfolding sound_expr_def
proof (intro allI impI)
  fix s t s'
  assume v: "VisitExpr A (IndexExpression p l r) s = Some (t, s')" and q: "quiet s s'"
    and k: "known_expr (IndexExpression p l r)"
  obtain l' \<sigma> r' \<rho> s2 where w: "wt_expr A (env_of s) l' \<sigma>" "wt_expr A (env_of s) r' \<rho>"
    "VisitIndexExpression p l' r' s2 = Some (t, s')" "quiet s2 s'"
    by (rule sound_two [OF assms _ _ v [unfolded VisitExpr.simps] q reports_stmt_frame [OF VisitIndexExpression_reports]])
      (use k in auto)
  show "\<exists>\<tau>. wt_expr A (env_of s) t \<tau>" by (rule VisitIndexExpression_sound [OF w(3,4,1,2)])
qed

lemma sound_Unary:
  assumes "sound_expr A l"
  shows "sound_expr A (UnaryOpExpression p op l)"
  unfolding sound_expr_def
proof (intro allI impI)
  fix s t s'
  assume v: "VisitExpr A (UnaryOpExpression p op l) s = Some (t, s')" and q: "quiet s s'"
    and k: "known_expr (UnaryOpExpression p op l)"
  obtain l' \<sigma> s2 where w: "wt_expr A (env_of s) l' \<sigma>" "VisitUnaryOp p op l' s2 = Some (t, s')" "quiet s2 s'"
    by (rule sound_one [OF assms _ v [unfolded VisitExpr.simps] q reports_stmt_frame [OF VisitUnaryOp_reports]])
      (use k in auto)
  show "\<exists>\<tau>. wt_expr A (env_of s) t \<tau>" by (rule VisitUnaryOp_sound [OF w(2,3,1)])
qed

lemma sound_Member:
  assumes "sound_expr A l"
  shows "sound_expr A (MemberExpression p l m)"
  unfolding sound_expr_def
proof (intro allI impI)
  fix s t s'
  assume v: "VisitExpr A (MemberExpression p l m) s = Some (t, s')" and q: "quiet s s'"
    and k: "known_expr (MemberExpression p l m)"
  obtain l' \<sigma> s2 where w: "wt_expr A (env_of s) l' \<sigma>" "VisitMemberExpression p l' m s2 = Some (t, s')" "quiet s2 s'"
    by (rule sound_one [OF assms _ v [unfolded VisitExpr.simps] q reports_stmt_frame [OF VisitMemberExpression_reports]])
      (use k in auto)
  show "\<exists>\<tau>. wt_expr A (env_of s) t \<tau>" by (rule VisitMemberExpression_sound [OF w(2,3,1)])
qed

lemma sound_call_cont:
  assumes "(case GetType func of
       None \<Rightarrow> Some (TCall None func (map UnvisitedExpr args) RegularCall, s)
     | Some (FunctionType params ret) \<Rightarrow> do {
         (ok, s) \<leftarrow> CheckArgCount func (length args) (length params) s;
         if \<not> ok then Some (TCall None func (map UnvisitedExpr args) RegularCall, s)
         else do {
           ((ok, targs), s) \<leftarrow> VisitArgs A args s;
           if \<not> ok then Some (TCall None func targs RegularCall, s)
           else check_call func params ret targs s } }
     | Some _ \<Rightarrow> Some (TCall None func (map UnvisitedExpr args) RegularCall,
                      ReportError (texpr_pos func) kNonFunction s)) = Some (t, s')"
  shows "stmt_frame s s'"
  using assms by (auto split: bind_splits option.splits Type.splits if_splits intro!: expr_frame_stmt_frame
      dest!: CheckArgCount_reports [THEN reports_expr_frame] check_call_reports [THEN reports_expr_frame]
        VisitArgs_frames) (blast intro: expr_frame_trans)+

lemma sound_Call:
  assumes "sound_expr A f" and args: "\<And>e. e \<in> set args \<Longrightarrow> sound_expr A e"
  shows "sound_expr A (CallExpression f args RegularCall)"
  unfolding sound_expr_def
proof (intro allI impI)
  fix s t s'
  assume v: "VisitExpr A (CallExpression f args RegularCall) s = Some (t, s')" and q: "quiet s s'"
    and k: "known_expr (CallExpression f args RegularCall)"
  obtain func \<sigma> s1 where w: "wt_expr A (env_of s) func \<sigma>" and e: "env_of s1 = env_of s" and q1: "quiet s1 s'" and
    c: "(case GetType func of
       None \<Rightarrow> Some (TCall None func (map UnvisitedExpr args) RegularCall, s1)
     | Some (FunctionType params ret) \<Rightarrow> do {
         (ok, s) \<leftarrow> CheckArgCount func (length args) (length params) s1;
         if \<not> ok then Some (TCall None func (map UnvisitedExpr args) RegularCall, s)
         else do {
           ((ok, targs), s) \<leftarrow> VisitArgs A args s;
           if \<not> ok then Some (TCall None func targs RegularCall, s)
           else check_call func params ret targs s } }
     | Some _ \<Rightarrow> Some (TCall None func (map UnvisitedExpr args) RegularCall,
                      ReportError (texpr_pos func) kNonFunction s1)) = Some (t, s')"
    by (rule sound_one [OF assms(1) _ v [unfolded VisitExpr.simps] q sound_call_cont]) (use k in auto)
  from c w q1 obtain ps \<tau> where \<sigma>: "\<sigma> = FunctionType ps \<tau>" by (cases \<sigma>) (auto simp: wt_GetType)
  with c w q1 obtain ok ts s2 where n: "length args = length ps" and a: "VisitArgs A args s1 = Some ((ok, ts), s2)"
    and r: "(if \<not> ok then Some (TCall None func ts RegularCall, s2) else check_call func ps \<tau> ts s2) = Some (t, s')"
    by (auto simp: wt_GetType arg_counts split: bind_splits if_splits)
  have "stmt_frame s1 s2" by (intro expr_frame_stmt_frame VisitArgs_frames [OF a])
  moreover have "stmt_frame s2 s'"
    using r by (auto intro: reports_stmt_frame check_call_reports split: if_splits)
  ultimately have f: "stmt_frame s1 s2" "stmt_frame s2 s'" .
  have m: "ok \<and> list_all (\<lambda>t. \<exists>\<sigma>. wt_expr A (env_of s1) t \<sigma>) ts \<and> length ts = length args \<and> env_of s2 = env_of s1"
    by (rule VisitArgs_sound [OF args a quiet_fst [OF f q1]]) (use k in auto)
  with r have "check_call func ps \<tau> ts s2 = Some (t, s')" by simp
  from check_call_sound [OF this quiet_snd [OF f q1]] m n w e \<sigma> show "\<exists>\<tau>. wt_expr A (env_of s) t \<tau>" by auto
qed

lemma finish_int_cast_sound:
  assumes "finish_int_cast f \<tau> [UnvisitedExpr (IdentifierExpression p x), e] (GetType e) s = Some (t, s')" and "quiet s s'"
    and "wt_expr A \<Gamma> e \<sigma>" and "GetFuncName f = Some name" and "IsBuiltinFunction name = Some IntCast"
    and "LookupBuiltinType x = Some \<tau>" and "IsIntegerType \<tau>"
  shows "wt_expr A \<Gamma> t \<tau>"
  using assms wt_GetType [OF assms(3)]
  by (auto simp: finish_int_cast_def split: if_splits intro: wt_IntCast)

lemma finish_ptr_cast_sound:
  assumes "finish_ptr_cast f target e s = Some (t, s')" and "quiet s s'"
    and "wt_expr A \<Gamma> target \<tau>" and "wt_expr A \<Gamma> e \<sigma>" and "GetFuncName f = Some name"
    and "IsBuiltinFunction name = Some PtrCast"
  shows "wt_expr A \<Gamma> t \<tau>"
  using assms wt_GetType [OF assms(3)] wt_GetType [OF assms(4)]
  by (auto simp: finish_ptr_cast_def split: if_splits intro: wt_PtrCast)

lemma finish_offset_of_sound:
  assumes "finish_offset_of f ob field s = Some (t, s')" and "quiet s s'"
    and "wt_expr A \<Gamma> ob \<sigma>" and "GetFuncName f = Some name" and "IsBuiltinFunction name = Some OffsetOf"
  shows "\<exists>\<tau>. wt_expr A \<Gamma> t \<tau>"
proof -
  note ty = wt_GetType [OF assms(3)]
  from assms(1,2) ty obtain n fs where \<sigma>: "\<sigma> = StructType n fs"
    by (cases \<sigma>) (auto simp: finish_offset_of_def Let_def split: bind_splits)
  with assms(1,2) ty obtain p x where x: "field = IdentifierExpression p x"
    by (cases field) (auto simp: finish_offset_of_def Let_def split: bind_splits)
  with assms(1,2) ty \<sigma> obtain \<tau> where "LookupFieldByName fs (Some x) = Some \<tau>"
    "t = TCall (Some (bt K_UInt32)) f [ob, UnvisitedExpr field] BuiltinCall"
    by (auto simp: finish_offset_of_def Let_def split: if_splits)
  with assms(3-5) x \<sigma> show ?thesis by (auto intro: wt_OffsetOf)
qed

lemma IsBuiltinFunction_Concat:
  assumes "IsBuiltinFunction name = Some Concat"
  shows "name = ''concat''"
proof -
  from assms have "(Concat, name) \<in> set BUILTINS_LIST"
    by (auto simp: IsBuiltinFunction_def find_Some_iff) (metis nth_mem)
  then show ?thesis by (simp add: BUILTINS_LIST_def)
qed

lemma sound_resolved_builtin:
  assumes args: "\<And>e. e \<in> set args \<Longrightarrow> sound_expr A e" and "list_all known_expr args"
    and "VisitArgs A args s = Some ((ok, ts), s1)" and "quiet s s'"
    and "(if \<not> ok then Some (TCall None f ts BuiltinCall, s1)
          else do { ((ty, ts), s) \<leftarrow> check_resolved_builtin A f b ts s1; Some (TCall ty f ts BuiltinCall, s) }) = Some (t, s')"
    and "GetFuncName f = Some name" and "IsBuiltinFunction name = Some b" and "b \<notin> {IntCast, PtrCast, OffsetOf, Concat}"
  shows "\<exists>\<tau>. wt_expr A (env_of s) t \<tau>"
proof -
  have f1: "stmt_frame s s1" by (intro expr_frame_stmt_frame VisitArgs_frames [OF assms(3)])
  have f2: "stmt_frame s1 s'"
    using assms(5) by (auto split: bind_splits if_splits intro: reports_stmt_frame check_resolved_builtin_reports)
  have m: "ok \<and> list_all (\<lambda>t. \<exists>\<sigma>. wt_expr A (env_of s) t \<sigma>) ts"
    using VisitArgs_sound [OF args assms(3) quiet_fst [OF f1 f2 assms(4)] assms(2)] by blast
  with assms(5) obtain ty ts' where c: "check_resolved_builtin A f b ts s1 = Some ((ty, ts'), s')"
    and t: "t = TCall ty f ts' BuiltinCall" by (auto split: bind_splits)
  obtain \<tau> where "ty = Some \<tau>" "\<And>f s. check_resolved_builtin A f b ts' s = Some ((Some \<tau>, ts'), s)"
    "list_all (\<lambda>t. \<exists>\<sigma>. wt_expr A (env_of s) t \<sigma>) ts'"
    by (rule sound_checkD [OF check_resolved_builtin_sound c quiet_snd [OF f1 f2 assms(4)]]) (use assms(8) m in auto)
  then show ?thesis using t assms(6-8) by (auto simp: builtin_accepts_def intro!: exI wt_Builtin)
qed

lemma sound_ptr_cast:
  assumes "sound_expr A a0" and "\<And>q op i. a0 = UnaryOpExpression q op i \<Longrightarrow> sound_expr A i" and "sound_expr A a1"
    and "known_expr a0" and "known_expr a1" and q: "quiet s s'"
    and target: "(case a0 of
           UnaryOpExpression q op input \<Rightarrow> do {
             (base, s) \<leftarrow> VisitExpr A input s;
             Some (TPointerTypeRepr (map_option PointerType (GetType base)) q base, s) }
         | _ \<Rightarrow> VisitExpr A a0 s) = Some (target, s1)"
    and rest: "(if GetType target = None then Some (TCall None f [target, UnvisitedExpr a1] BuiltinCall, s1)
          else do { (e, s) \<leftarrow> VisitExpr A a1 s1; finish_ptr_cast f target e s }) = Some (t, s')"
    and "GetFuncName f = Some name" and "IsBuiltinFunction name = Some PtrCast"
  shows "\<exists>\<tau>. wt_expr A (env_of s) t \<tau>"
proof -
  have f1: "stmt_frame s s1"
    using target by (cases a0) (auto split: bind_splits intro: expr_frame_stmt_frame VisitExpr_frame)
  have f2: "stmt_frame s1 s'"
    using rest by (auto split: bind_splits if_splits intro: stmt_frame_trans
      dest!: VisitExpr_frame [THEN expr_frame_stmt_frame] finish_ptr_cast_reports [THEN reports_stmt_frame])
  note q1 = quiet_fst [OF f1 f2 q] and q2 = quiet_snd [OF f1 f2 q]
  have "\<exists>\<tau>. wt_expr A (env_of s) target \<tau> \<and> env_of s1 = env_of s"
  proof (cases "\<exists>p op i. a0 = UnaryOpExpression p op i")
    case True
    then obtain p op i where a0: "a0 = UnaryOpExpression p op i" by blast
    with target obtain base where b: "VisitExpr A i s = Some (base, s1)"
      "target = TPointerTypeRepr (map_option PointerType (GetType base)) p base" by (auto split: bind_splits)
    show ?thesis
      by (rule sound_exprD [OF assms(2) [OF a0] b(1) q1]) (use b assms(4) a0 in \<open>auto intro: wt_PointerRepr\<close>)
  next
    case False
    then have "VisitExpr A a0 s = Some (target, s1)" using target by (cases a0) auto
    then show ?thesis by (rule sound_exprD [OF assms(1) _ q1 assms(4)]) blast
  qed
  then obtain \<tau> where \<tau>: "wt_expr A (env_of s) target \<tau>" "env_of s1 = env_of s" by blast
  then have c: "do { (e, s) \<leftarrow> VisitExpr A a1 s1; finish_ptr_cast f target e s } = Some (t, s')"
    using rest by (simp add: wt_GetType)
  obtain e \<sigma> s2 where e: "wt_expr A (env_of s1) e \<sigma>" "finish_ptr_cast f target e s2 = Some (t, s')" "quiet s2 s'"
    by (rule sound_one [OF assms(3,5) c q2 reports_stmt_frame [OF finish_ptr_cast_reports]])
  show ?thesis using finish_ptr_cast_sound [OF e(2,3) \<tau>(1) _ assms(9,10)] e(1) \<tau>(2) by auto
qed

lemma sound_Builtin:
  assumes args: "\<And>e. e \<in> set args \<Longrightarrow> sound_expr A e"
    and inputs: "\<And>q op i. UnaryOpExpression q op i \<in> set args \<Longrightarrow> sound_expr A i"
  shows "sound_expr A (CallExpression f args BuiltinCall)"
  unfolding sound_expr_def
proof (intro allI impI)
  fix s t s'
  define func where "func = UnvisitedExpr f"
  assume v: "VisitExpr A (CallExpression f args BuiltinCall) s = Some (t, s')" and q: "quiet s s'"
    and k: "known_expr (CallExpression f args BuiltinCall)"
  note v = v [unfolded VisitExpr.simps Let_def, folded func_def]
  from v q obtain name b where name: "GetFuncName func = Some name" "IsBuiltinFunction name = Some b"
    by (auto split: bind_splits option.splits)
  have b: "b \<noteq> Concat" using k name IsBuiltinFunction_Concat by (auto simp: func_def)
  show "\<exists>\<tau>. wt_expr A (env_of s) t \<tau>"
  proof (cases "b \<in> {IntCast, PtrCast, OffsetOf}")
    case False
    with v name obtain ok ts s1 where "VisitArgs A args s = Some ((ok, ts), s1)"
      "(if \<not> ok then Some (TCall None func ts BuiltinCall, s1)
        else do { ((ty, ts), s) \<leftarrow> check_resolved_builtin A func b ts s1; Some (TCall ty func ts BuiltinCall, s) }) = Some (t, s')"
      by (auto split: bind_splits)
    from sound_resolved_builtin [OF args _ this(1) q this(2) name] show ?thesis using k b False by auto
  next
    case True
    with v name q obtain a0 a1 where a: "args = [a0, a1]" 
      by (auto simp: arg_counts split: bind_splits if_splits list.splits)
    have n: "CheckArgCount func (length [a0, a1]) 2 s = Some (True, s)" by (simp add: CheckArgCount_def)
    note v' = v [unfolded a n]
    from True show ?thesis
    proof (elim insertE emptyE)
      assume b: "b = IntCast"
      with v' name q obtain p x \<tau> where a0: "a0 = IdentifierExpression p x" "LookupBuiltinType x = Some \<tau>" "IsIntegerType \<tau>"
        by (auto simp: int_cast_target_def split: bind_splits sum.splits Expression.splits if_splits)
      then have c: "do { (e, s) \<leftarrow> VisitExpr A a1 s; finish_int_cast func \<tau> [UnvisitedExpr a0, e] (GetType e) s } = Some (t, s')"
        using v' b name by (simp add: int_cast_target_def)
      obtain e \<sigma> s2 where e: "wt_expr A (env_of s) e \<sigma>" "finish_int_cast func \<tau> [UnvisitedExpr a0, e] (GetType e) s2 = Some (t, s')"
        "quiet s2 s'"
        by (rule sound_one [OF args _ c q reports_stmt_frame [OF finish_int_cast_reports]]) (use a k in auto)
      show ?thesis using finish_int_cast_sound [OF e(2) [unfolded a0] e(3,1) name(1)] name(2) b a0(2,3) by blast
    next
      assume b: "b = OffsetOf"
      then have c: "do { (ob, s) \<leftarrow> VisitExpr A a0 s; finish_offset_of func ob a1 s } = Some (t, s')"
        using v' name by simp
      obtain e \<sigma> s2 where e: "wt_expr A (env_of s) e \<sigma>" "finish_offset_of func e a1 s2 = Some (t, s')" "quiet s2 s'"
        by (rule sound_one [OF args _ c q reports_stmt_frame [OF finish_offset_of_reports]]) (use a k in auto)
      show ?thesis using finish_offset_of_sound [OF e(2,3,1) name(1)] name(2) b by blast
    next
      assume b: "b = PtrCast"
      from v' b name q obtain target s1 where "(case a0 of
           UnaryOpExpression q op input \<Rightarrow> do {
             (base, s) \<leftarrow> VisitExpr A input s;
             Some (TPointerTypeRepr (map_option PointerType (GetType base)) q base, s) }
         | _ \<Rightarrow> VisitExpr A a0 s) = Some (target, s1)"
        "(if GetType target = None then Some (TCall None func [target, UnvisitedExpr a1] BuiltinCall, s1)
          else do { (e, s) \<leftarrow> VisitExpr A a1 s1; finish_ptr_cast func target e s }) = Some (t, s')"
        by (auto split: if_splits bind_splits)
      note r = this
      have "sound_expr A a0" "\<And>q op i. a0 = UnaryOpExpression q op i \<Longrightarrow> sound_expr A i" "sound_expr A a1"
        using args inputs a by auto
      from sound_ptr_cast [OF this _ _ q r name(1)] show ?thesis using name(2) b a k by auto
    qed
  qed
qed

lemma wt_stmts_append:
  "wt_stmts A \<Gamma> F (xs @ ys) \<Gamma>' \<longleftrightarrow> (\<exists>\<Gamma>1. wt_stmts A \<Gamma> F xs \<Gamma>1 \<and> wt_stmts A \<Gamma>1 F ys \<Gamma>')"
proof (induction xs arbitrary: \<Gamma>)
  case Nil
  show ?case by (auto intro: wt_Nil elim: wt_stmts.cases)
next
  case (Cons x xs)
  have "wt_stmts A \<Gamma> F (x # zs) \<Gamma>' \<longleftrightarrow> (\<exists>\<Gamma>1. wt_stmt A \<Gamma> F x \<Gamma>1 \<and> wt_stmts A \<Gamma>1 F zs \<Gamma>')" for zs \<Gamma>'
    by (auto intro: wt_Cons elim: wt_stmts.cases)
  then show ?case by (auto simp: Cons.IH)
qed

inductive_cases wt_BlockE: "wt_stmt A \<Gamma> F (TBlock p q ss) \<Gamma>'"

lemma returns_append [simp]: "returns (TBlock p q (ts @ [t])) = returns t"
  by (cases ts) simp_all

lemma check_return_sound:
  assumes "check_return p ft body b s = Some (b', s')" and "quiet s s'"
    and wt: "wt_stmt A \<Gamma> (Some ft) b \<Gamma>'" and ret: "\<And>r. IsTerminating body = Some r \<Longrightarrow> returns b = r"
    and block: "\<And>x y ss. body = BlockStatement x y ss \<Longrightarrow> \<exists>x y ts. b = TBlock x y ts"
  shows "\<exists>ps \<tau>. ft = FunctionType ps \<tau> \<and> wt_stmt A \<Gamma> (Some ft) b' \<Gamma>' \<and> returns b' \<and> s' = s"
proof -
  from assms(1) obtain x y ss ps \<tau> where body: "body = BlockStatement x y ss" and ft: "ft = FunctionType ps \<tau>"
    by (auto simp: check_return_def split: Statement.splits Type.splits)
  from block [OF body] obtain x' y' ts where b: "b = TBlock x' y' ts" by blast
  show ?thesis
  proof (cases "ss \<noteq> [] \<and> IsTerminating body = Some True")
    case True
    with assms(1) body ft have "b' = b \<and> s' = s" by (auto simp: check_return_def)
    with wt ret True ft show ?thesis by auto
  next
    case False
    with assms(1,2) body ft b have n: "IsNilType \<tau>" and b': "b' = TBlock x' y' (ts @ [TReturn p None])" "s' = s"
      by (auto simp: check_return_def append_return_def split: bind_splits if_splits)
    from wt b obtain \<Gamma>1 where "wt_stmts A \<Gamma> (Some ft) ts \<Gamma>1" "\<Gamma>' = \<Gamma>" by (auto elim: wt_BlockE)
    moreover have "wt_stmts A \<Gamma>1 (Some ft) [TReturn p None] \<Gamma>1"
      unfolding ft by (rule wt_Cons [OF wt_ReturnNil [OF n] wt_Nil])
    ultimately have "wt_stmt A \<Gamma> (Some ft) b' \<Gamma>'"
      unfolding b' by (auto intro!: wt_Block simp: wt_stmts_append)
    with ft b' show ?thesis by (simp del: returns.simps(2))
  qed
qed

text \<open>The body of a function, from the state in which its type is known.\<close>

lemma function_body_sound:
  assumes "sound_stmt A body" and "known_stmt body" and "enter_function ft s = Some s1"
    and b: "VisitStmt A body s1 = Some (b, s2)" and c: "check_return p ft body b s2 = Some (b', s3)"
    and x: "exit_function f s3 = Some s4" and q: "quiet s s4"
  obtains ps \<tau> \<Gamma> where "ft = FunctionType ps \<tau>" "wt_stmt A (bind_params (env_of s) ps) (Some ft) b' \<Gamma>" "returns b'"
proof -
  obtain ps \<tau> where ft: "ft = FunctionType ps \<tau>" and e: "env_of s1 = bind_params (env_of s) ps" "sm_errors s1 = sm_errors s"
    "curr_func s1 = Some ft"
    by (rule enter_function_env [OF assms(3)])
  have f: "stmt_frame s1 s2" "stmt_frame s2 s3"
    by (rule VisitStmt_frame [OF b]) (rule reports_stmt_frame [OF check_return_reports [OF c]])
  have "quiet s1 s3" using q exit_function_errors [OF x] e(2) by simp
  note q12 = quiet_fst [OF f this] and q23 = quiet_snd [OF f this]
  note w = sound_stmtD [OF assms(1) b q12 assms(2)]
  have "\<exists>x y ts. b = TBlock x y ts" if "body = BlockStatement x y ss" for x y ss
    using b that by (auto simp: VisitStmt.simps(2) split: bind_splits)
  then have "\<exists>ps \<tau>. ft = FunctionType ps \<tau> \<and> wt_stmt A (env_of s1) (Some ft) b' (env_of s2) \<and> returns b' \<and> s3 = s2"
    using w e(3) by (intro check_return_sound [OF c q23]) auto
  with that ft e(1) show thesis by auto
qed

lemma function_rest_frame:
  assumes "enter_function ft s = Some s1" and "VisitStmt A body s1 = Some (b, s2)"
    and "check_return p ft body b s2 = Some (b', s3)" and "exit_function (curr_func s) s3 = Some s4"
  shows "stmt_frame s s4"
  by (rule expr_frame_stmt_frame, rule function_frame [OF assms(1) _ assms(4)])
    (rule stmt_frame_trans [OF VisitStmt_frame [OF assms(2)] reports_stmt_frame [OF check_return_reports [OF assms(3)]]])

lemma sound_FunctionLiteral:
  assumes "sound_expr A r" and "sound_stmt A body"
  shows "sound_expr A (FunctionLiteralExpression r body)"
  unfolding sound_expr_def
proof (intro allI impI)
  fix s t s'
  assume v: "VisitExpr A (FunctionLiteralExpression r body) s = Some (t, s')" and q: "quiet s s'"
    and k: "known_expr (FunctionLiteralExpression r body)"
  from v obtain r' s0 where r: "VisitExpr A r s = Some (r', s0)" by (auto simp: VisitExpr.simps(6) split: bind_splits)
  note f0 = expr_frame_stmt_frame [OF VisitExpr_frame [OF r]]
  have f1: "stmt_frame s0 s'"
    using v r by (auto simp: VisitExpr.simps(6) Let_def split: bind_splits option.splits)
      (erule (3) function_rest_frame)
  obtain \<sigma> where \<sigma>: "wt_expr A (env_of s) r' \<sigma>" "GetType r' = Some \<sigma>" "env_of s0 = env_of s"
    by (rule sound_exprD [OF assms(1) r quiet_fst [OF f0 f1 q]]) (use k in auto)
  with v r obtain s1 b s2 b' s3 where e: "enter_function \<sigma> s0 = Some s1" "VisitStmt A body s1 = Some (b, s2)"
    "check_return (texpr_pos r') \<sigma> body b s2 = Some (b', s3)" "exit_function (curr_func s0) s3 = Some s'"
    and t: "t = TFunctionLiteral (Some \<sigma>) r' b'"
    by (auto simp: VisitExpr.simps(6) Let_def split: bind_splits)
  obtain ps \<tau> \<Gamma> where "\<sigma> = FunctionType ps \<tau>" "wt_stmt A (bind_params (env_of s0) ps) (Some \<sigma>) b' \<Gamma>" "returns b'"
    by (rule function_body_sound [OF assms(2) _ e quiet_snd [OF f0 f1 q]]) (use k in auto)
  with \<sigma> t show "\<exists>\<tau>. wt_expr A (env_of s) t \<tau>" by (auto intro: wt_Function)
qed

section \<open>Type expressions\<close>

inductive_cases wt_FieldDeclE: "wt_decl A \<Gamma> (TField p n r) \<Gamma>'"

lemma VisitExprOption_sound:
  assumes "\<And>e. e \<in> set_option eo \<Longrightarrow> sound_expr A e" and "VisitExprOption A eo s = Some (t, s')" and "quiet s s'"
    and "pred_option known_expr eo"
  obtains \<tau> where "wt_expr A (env_of s) t \<tau>" "GetType t = Some \<tau>" "env_of s' = env_of s"
  using assms by (cases eo) (auto elim: sound_exprD)

lemma VisitFields_sound:
  assumes "\<And>d. d \<in> set ds \<Longrightarrow> sound_decl A d" and "VisitFields A ds s = Some ((ts, tys), s')" and "quiet s s'"
    and "list_all known_decl ds"
  shows "\<exists>fs. tys = Some fs \<and> wt_fields A (env_of s) ts fs \<and> env_of s' = env_of s \<and> map fst fs = map field_name ds"
  using assms
proof (induction ds arbitrary: s ts tys)
  case Nil
  then show ?case by (auto intro: wt_NoFields)
next
  case (Cons d ds)
  from Cons.prems(2) obtain t s1 where t: "VisitDecl A d s = Some (t, s1)" by (auto split: bind_splits)
  with Cons.prems(2) obtain p n r where tf: "t = TField p n r" by (cases t) auto
  have n: "field_name d = n"
    using t tf by (cases d) (auto simp: VisitDecl.simps VisitVariable_def Let_def
        split: bind_splits option.splits list.splits if_splits Expression.splits)
  have rest: "stmt_frame s1 s2" if "VisitFields A ds s1 = Some (x, s2)" for x s2
    by (intro expr_frame_stmt_frame VisitFields_frames [OF that])
  have q1: "quiet s s1" using Cons.prems(2,3) t tf quiet_fst [OF VisitDecl_frame [OF t] rest]
    by (auto split: bind_splits option.splits)
  from sound_declD [OF Cons.prems(1) t q1] Cons.prems(4) tf have "wt_decl A (env_of s) (TField p n r) (env_of s1)" by auto
  then obtain \<tau> where \<tau>: "wt_expr A (env_of s) r \<tau>" "env_of s1 = env_of s" by (auto elim: wt_FieldDeclE)
  with Cons.prems(2) t tf obtain ts' tys' where r: "VisitFields A ds s1 = Some ((ts', tys'), s')"
    "ts = t # ts'" "tys = map_option (\<lambda>l. (n, \<tau>) # l) tys'"
    by (auto simp: wt_GetType split: bind_splits)
  have "quiet s1 s'" using q1 Cons.prems(3) by simp
  from Cons.IH [OF Cons.prems(1) r(1) this] Cons.prems(4) \<tau> r tf n show ?case by (auto intro: wt_Field)
qed

lemma sound_ArrayRepr:
  assumes "\<And>e. e \<in> set_option eo \<Longrightarrow> sound_expr A e"
  shows "sound_expr A (ArrayTypeRepr p len eo)"
  unfolding sound_expr_def
proof (intro allI impI)
  fix s t s'
  assume v: "VisitExpr A (ArrayTypeRepr p len eo) s = Some (t, s')" and q: "quiet s s'"
    and k: "known_expr (ArrayTypeRepr p len eo)"
  then obtain n e where n: "array_length len = Inr n" and e: "VisitExprOption A eo s = Some (e, s')"
    and t: "t = TArrayTypeRepr (map_option (ArrayType n) (GetType e)) p len (Some e)"
    by (auto simp: VisitExpr.simps(12) split: sum.splits bind_splits)
  obtain \<tau> where "wt_expr A (env_of s) e \<tau>" "GetType e = Some \<tau>"
    by (rule VisitExprOption_sound [OF assms e q]) (use k in auto)
  with n t show "\<exists>\<tau>. wt_expr A (env_of s) t \<tau>" by (auto intro: wt_ArrayRepr)
qed

lemma sound_PointerRepr:
  assumes "\<And>e. e \<in> set_option eo \<Longrightarrow> sound_expr A e"
  shows "sound_expr A (PointerTypeRepr p eo)"
  unfolding sound_expr_def
proof (intro allI impI)
  fix s t s'
  assume v: "VisitExpr A (PointerTypeRepr p eo) s = Some (t, s')" and q: "quiet s s'"
    and k: "known_expr (PointerTypeRepr p eo)"
  then obtain e where e: "VisitExprOption A eo s = Some (e, s')"
    and t: "t = TPointerTypeRepr (map_option PointerType (GetType e)) p e"
    by (auto simp: VisitExpr.simps(15) split: bind_splits)
  obtain \<tau> where "wt_expr A (env_of s) e \<tau>" "GetType e = Some \<tau>"
    by (rule VisitExprOption_sound [OF assms e q]) (use k in auto)
  with t show "\<exists>\<tau>. wt_expr A (env_of s) t \<tau>" by (auto intro: wt_PointerRepr)
qed

lemma sound_MapRepr:
  assumes "\<And>e. e \<in> set_option ko \<Longrightarrow> sound_expr A e" and "\<And>e. e \<in> set_option vo \<Longrightarrow> sound_expr A e"
  shows "sound_expr A (MapTypeRepr p ko vo)"
  unfolding sound_expr_def
proof (intro allI impI)
  fix s t s'
  assume v: "VisitExpr A (MapTypeRepr p ko vo) s = Some (t, s')" and q: "quiet s s'"
    and k: "known_expr (MapTypeRepr p ko vo)"
  then obtain a b s1 where a: "VisitExprOption A ko s = Some (a, s1)" and b: "VisitExprOption A vo s1 = Some (b, s')"
    and t: "t = TMapTypeRepr (case (GetType a, GetType b) of (Some a, Some b) \<Rightarrow> Some (MapType a b) | _ \<Rightarrow> None) p a b"
    by (auto simp: VisitExpr.simps(14) split: bind_splits)
  note f = expr_frame_stmt_frame [OF VisitExprOption_frames [OF a]] expr_frame_stmt_frame [OF VisitExprOption_frames [OF b]]
  obtain \<tau> where a': "wt_expr A (env_of s) a \<tau>" "GetType a = Some \<tau>" "env_of s1 = env_of s"
    by (rule VisitExprOption_sound [OF assms(1) a quiet_fst [OF f q]]) (use k in auto)
  obtain \<sigma> where "wt_expr A (env_of s1) b \<sigma>" "GetType b = Some \<sigma>"
    by (rule VisitExprOption_sound [OF assms(2) b quiet_snd [OF f q]]) (use k in auto)
  with a' t show "\<exists>\<tau>. wt_expr A (env_of s) t \<tau>" by (auto intro: wt_MapRepr)
qed

lemma FunctionTypeRepr_sound:
  assumes "\<And>d. d \<in> set ds \<Longrightarrow> sound_decl A d" and "\<And>e. e \<in> set_option ro \<Longrightarrow> sound_expr A e"
    and "VisitExpr A (FunctionTypeRepr p ds ro) s = Some (t, s')" and "quiet s s'"
    and k: "known_expr (FunctionTypeRepr p ds ro)"
  shows "\<exists>fs \<tau>. wt_expr A (env_of s) t (FunctionType fs \<tau>) \<and> map fst fs = map field_name ds"
proof -
  from assms(3) obtain ts tys s1 where d: "VisitFields A ds s = Some ((ts, tys), s1)"
    by (auto simp: VisitExpr.simps(13) split: bind_splits)
  note f1 = expr_frame_stmt_frame [OF VisitFields_frames [OF d]]
  have f2: "stmt_frame s1 s'"
    using assms(3) d by (auto simp: VisitExpr.simps(13) split: bind_splits option.splits
        intro: expr_frame_stmt_frame VisitExprOption_frames)
  obtain fs where fs: "tys = Some fs" "wt_fields A (env_of s) ts fs" "env_of s1 = env_of s" "map fst fs = map field_name ds"
    using VisitFields_sound [OF assms(1) d quiet_fst [OF f1 f2 assms(4)]] k by auto
  with assms(3) d obtain r where r: "VisitExprOption A ro s1 = Some (r, s')"
    and t: "t = TFunctionTypeRepr (map_option (FunctionType fs) (GetType r)) p ts (Some r)"
    by (auto simp: VisitExpr.simps(13) split: bind_splits)
  obtain \<tau> where "wt_expr A (env_of s1) r \<tau>" "GetType r = Some \<tau>"
    by (rule VisitExprOption_sound [OF assms(2) r quiet_snd [OF f1 f2 assms(4)]]) (use k in auto)
  with t fs show ?thesis by (auto intro: wt_FunctionRepr)
qed

lemma StructTypeRepr_sound:
  assumes "\<And>d. d \<in> set ds \<Longrightarrow> sound_decl A d"
    and "VisitExpr A (StructTypeRepr p ds) s = Some (t, s')" and "quiet s s'"
    and k: "known_expr (StructTypeRepr p ds)"
  shows "\<exists>fs ts \<tau>. t = TStructTypeRepr (Some \<tau>) p ts \<and> wt_expr A (env_of s) t \<tau> \<and> wt_fields A (env_of s) ts fs \<and>
    map fst fs = map field_name ds"
proof -
  from assms(2) obtain ts tys s1 where d: "VisitFields A ds s = Some ((ts, tys), s1)"
    by (auto simp: VisitExpr.simps(16) split: bind_splits)
  note f1 = expr_frame_stmt_frame [OF VisitFields_frames [OF d]]
  have f2: "stmt_frame s1 s'"
    using assms(2) d by (cases tys) (auto simp: VisitExpr.simps(16) split: bind_splits
        intro!: expr_frame_stmt_frame dest: make_struct_type_frame)
  obtain fs where fs: "tys = Some fs" "wt_fields A (env_of s) ts fs" "map fst fs = map field_name ds"
    using VisitFields_sound [OF assms(1) d quiet_fst [OF f1 f2 assms(3)]] k by auto
  with assms(2) d obtain \<tau> where m: "make_struct_type fs s1 = Some (\<tau>, s')" and t: "t = TStructTypeRepr (Some \<tau>) p ts"
    by (auto simp: VisitExpr.simps(16) split: bind_splits)
  from m have "\<tau> = StructType_Get fs \<or> (\<exists>n. \<tau> = StructType (Some n) fs)"
    by (auto simp: make_struct_type_def StructType_Get_named_def simp del: unique_name_loop.simps
        split: option.splits DeclContext.splits bind_splits if_splits)
  with t fs show ?thesis by (auto intro: wt_StructRepr)
qed

section \<open>Statements\<close>

lemma VisitStmts_sound:
  assumes "\<And>st. st \<in> set sts \<Longrightarrow> sound_stmt A st" and "VisitStmts A sts s = Some (ts, s')" and "quiet s s'"
    and "list_all known_stmt sts"
  shows "wt_stmts A (env_of s) (curr_func s) ts (env_of s') \<and> (ts = [] \<longleftrightarrow> sts = []) \<and>
    (sts \<noteq> [] \<longrightarrow> (\<forall>b. IsTerminating (last sts) = Some b \<longrightarrow> returns (last ts) = b))"
  using assms
proof (induction sts arbitrary: s ts)
  case Nil
  then show ?case by (auto intro: wt_Nil)
next
  case (Cons st sts)
  from Cons.prems(2) obtain t s1 ts' where t: "VisitStmt A st s = Some (t, s1)" and r: "VisitStmts A sts s1 = Some (ts', s')"
    and ts: "ts = t # ts'" by (auto split: bind_splits)
  note f = VisitStmt_frame [OF t] VisitStmts_frames [OF r]
  note q = quiet_fst [OF f Cons.prems(3)] quiet_snd [OF f Cons.prems(3)]
  have w: "wt_stmt A (env_of s) (curr_func s) t (env_of s1) \<and> (\<forall>b. IsTerminating st = Some b \<longrightarrow> returns t = b) \<and>
      curr_func s1 = curr_func s"
    by (rule sound_stmtD [OF Cons.prems(1) t q(1)]) (use Cons.prems(4) in auto)
  from Cons.IH [OF Cons.prems(1) r q(2)] Cons.prems(4) w ts show ?case by (auto intro: wt_Cons)
qed

lemma VisitStmtOption_sound:
  assumes "\<And>st. st \<in> set_option so \<Longrightarrow> sound_stmt A st" and "VisitStmtOption A so s = Some (t, s')" and "quiet s s'"
    and "pred_option known_stmt so"
  shows "wt_opt A (env_of s) (curr_func s) t (env_of s') \<and> curr_func s' = curr_func s \<and> (t = None \<longleftrightarrow> so = None) \<and>
    (\<forall>st b u. so = Some st \<longrightarrow> IsTerminating st = Some b \<longrightarrow> t = Some u \<longrightarrow> returns u = b)"
proof (cases so)
  case None
  then show ?thesis using assms by (auto intro: wt_NoStmt)
next
  case (Some st)
  with assms(2) obtain u where u: "VisitStmt A st s = Some (u, s')" "t = Some u" by (auto split: bind_splits)
  have "wt_stmt A (env_of s) (curr_func s) u (env_of s') \<and> (\<forall>b. IsTerminating st = Some b \<longrightarrow> returns u = b) \<and>
      curr_func s' = curr_func s"
    by (rule sound_stmtD [OF assms(1) u(1) assms(3)]) (use Some assms(4) in auto)
  with u Some show ?thesis by (auto intro: wt_SomeStmt)
qed

lemma VisitAssignment_sound:
  assumes "VisitAssignment p d e s = Some (t, s')" and "quiet s s'" and "wt_expr A \<Gamma> d \<tau>" and "wt_expr A \<Gamma> e \<sigma>"
  shows "wt_stmt A \<Gamma> F t \<Gamma> \<and> s' = s \<and> \<not> returns t"
proof -
  from assms(1,2) wt_GetType [OF assms(3)] wt_GetType [OF assms(4)] obtain e' where
    "CheckAssignmentConstraints \<tau> e = Some (True, e')" "t = TAssignment p d e'" "s' = s"
    by (auto simp: VisitAssignment_def split: bind_splits if_splits)
  with assms(3) CheckAssignmentConstraints_sound [OF _ assms(4)] show ?thesis by (auto intro: wt_Assignment)
qed

lemma sound_AssignmentStatement:
  assumes "sound_expr A d" and "sound_expr A e"
  shows "sound_stmt A (AssignmentStatement p d e)"
  unfolding sound_stmt_def
proof (intro allI impI)
  fix s t s'
  assume v: "VisitStmt A (AssignmentStatement p d e) s = Some (t, s')" and q: "quiet s s'"
    and k: "known_stmt (AssignmentStatement p d e)"
  have v': "do { (e, s) \<leftarrow> VisitExpr A e s; (d, s) \<leftarrow> VisitExpr A d s; (\<lambda>e d. VisitAssignment p d e) e d s } = Some (t, s')"
    using v by (simp add: VisitStmt.simps(1))
  obtain e' \<sigma> d' \<rho> s2 where w: "wt_expr A (env_of s) e' \<sigma>" "wt_expr A (env_of s) d' \<rho>"
    "VisitAssignment p d' e' s2 = Some (t, s')" "quiet s2 s'" "env_of s2 = env_of s"
    by (rule sound_two [OF assms(2,1) _ _ v' q reports_stmt_frame [OF VisitAssignment_reports]]) (use k in auto)
  show "wt_stmt A (env_of s) (curr_func s) t (env_of s') \<and>
      (\<forall>b. IsTerminating (AssignmentStatement p d e) = Some b \<longrightarrow> returns t = b)"
    using VisitAssignment_sound [OF w(3,4,2,1), of "curr_func s"] w(5) by auto
qed

lemma sound_BlockStatement:
  assumes "\<And>st. st \<in> set sts \<Longrightarrow> sound_stmt A st"
  shows "sound_stmt A (BlockStatement p q sts)"
  unfolding sound_stmt_def
proof (intro allI impI)
  fix s t s'
  assume v: "VisitStmt A (BlockStatement p q sts) s = Some (t, s')" and q: "quiet s s'"
    and k: "known_stmt (BlockStatement p q sts)"
  then obtain ts s1 where ts: "VisitStmts A sts (EnterScope s) = Some (ts, s1)" and x: "ExitScope s1 = Some s'"
    and t: "t = TBlock p q ts" by (auto simp: VisitStmt.simps(2) split: bind_splits)
  have "env_of s' = env_of s" by (rule expr_frame_env [OF block_frame [OF VisitStmts_frames [OF ts] x], THEN conjunct1])
  moreover have "quiet (EnterScope s) s1" using q ExitScope_errors [OF x] by simp
  note VisitStmts_sound [OF assms ts this]
  ultimately show "wt_stmt A (env_of s) (curr_func s) t (env_of s') \<and>
      (\<forall>b. IsTerminating (BlockStatement p q sts) = Some b \<longrightarrow> returns t = b)"
    using t k by (auto intro: wt_Block split: list.splits)
qed

lemma check_condition_sound:
  assumes "check_condition c s = Some (c', s')" and "quiet s s'" and "wt_expr A \<Gamma> c \<sigma>"
  shows "wt_expr A \<Gamma> c' bool_type \<and> s' = s"
  using assms cast_sql_bool_sound [OF _ assms(3)]
  by (auto simp: check_condition_def split: bind_splits if_splits intro: wt_unique)

lemma sound_IfStatement:
  assumes "sound_expr A c" and "sound_stmt A th" and "\<And>st. st \<in> set_option el \<Longrightarrow> sound_stmt A st"
  shows "sound_stmt A (IfStatement p c th el)"
  unfolding sound_stmt_def
proof (intro allI impI)
  fix s t s'
  assume v: "VisitStmt A (IfStatement p c th el) s = Some (t, s')" and q: "quiet s s'"
    and k: "known_stmt (IfStatement p c th el)"
  define rest where "rest c s = (if GetType c = None then Some (TIf p c (UnvisitedStmt th) (map_option UnvisitedStmt el), s)
     else do {
       (c, s) \<leftarrow> check_condition c s;
       (tt, s) \<leftarrow> VisitStmt A th s;
       (te, s) \<leftarrow> VisitStmtOption A el s;
       Some (TIf p c tt te, s) })" for c s
  have fr: "stmt_frame a b" if "rest c a = Some (t, b)" for c a t b
    using that by (auto simp: rest_def split: if_splits bind_splits dest!: VisitStmt_frame VisitStmtOption_frames
        check_condition_reports [THEN reports_stmt_frame]) (blast intro: stmt_frame_trans)
  have v': "do { (c, s) \<leftarrow> VisitExpr A c s; rest c s } = Some (t, s')" using v by (simp add: VisitStmt.simps(7) rest_def)
  obtain c' \<sigma> s1 where c: "wt_expr A (env_of s) c' \<sigma>" "rest c' s1 = Some (t, s')" "quiet s1 s'" "env_of s1 = env_of s"
    "curr_func s1 = curr_func s"
    by (rule sound_one [OF assms(1) _ v' q fr]) (use k in auto)
  from c obtain c2 s2 tt s3 te where h: "check_condition c' s1 = Some (c2, s2)" "VisitStmt A th s2 = Some (tt, s3)"
    "VisitStmtOption A el s3 = Some (te, s')" and t: "t = TIf p c2 tt te"
    by (auto simp: rest_def wt_GetType split: bind_splits)
  note f2 = reports_stmt_frame [OF check_condition_reports [OF h(1)]] and f3 = VisitStmt_frame [OF h(2)]
    and f4 = VisitStmtOption_frames [OF h(3)]
  note q2 = quiet_fst [OF f2 stmt_frame_trans [OF f3 f4] c(3)] and q34 = quiet_snd [OF f2 stmt_frame_trans [OF f3 f4] c(3)]
  note q3 = quiet_fst [OF f3 f4 q34] and q4 = quiet_snd [OF f3 f4 q34]
  from check_condition_sound [OF h(1) q2 c(1)] have c2: "wt_expr A (env_of s) c2 bool_type" "s2 = s1" by auto
  have t2: "wt_stmt A (env_of s) (curr_func s) tt (env_of s3) \<and> (\<forall>b. IsTerminating th = Some b \<longrightarrow> returns tt = b) \<and>
      curr_func s3 = curr_func s"
    using sound_stmtD [OF assms(2) h(2) q3] k c c2 by auto
  have t3: "wt_opt A (env_of s3) (curr_func s) te (env_of s') \<and> (te = None \<longleftrightarrow> el = None) \<and>
      (\<forall>st b u. el = Some st \<longrightarrow> IsTerminating st = Some b \<longrightarrow> te = Some u \<longrightarrow> returns u = b)"
    using VisitStmtOption_sound [OF assms(3) h(3) q4] k t2 by auto
  have "wt_stmt A (env_of s) (curr_func s) t (env_of s')"
    unfolding t by (rule wt_If [OF c2(1) t2 [THEN conjunct1] t3 [THEN conjunct1]])
  moreover have "\<forall>b. IsTerminating (IfStatement p c th el) = Some b \<longrightarrow> returns t = b"
    using t t2 t3 by (cases el; cases te) (auto split: bind_splits if_splits)
  ultimately show "wt_stmt A (env_of s) (curr_func s) t (env_of s') \<and>
      (\<forall>b. IsTerminating (IfStatement p c th el) = Some b \<longrightarrow> returns t = b)" by blast
qed

lemma VisitReturn_sound:
  assumes "VisitReturn p ft v s = Some (t, s')" and "quiet s s'" and "\<And>e. v = Some e \<Longrightarrow> \<exists>\<sigma>. wt_expr A \<Gamma> e \<sigma>"
  shows "wt_stmt A \<Gamma> (Some ft) t \<Gamma> \<and> s' = s \<and> returns t"
proof -
  from assms(1) obtain ps \<tau> where ft: "ft = FunctionType ps \<tau>"
    by (auto simp: VisitReturn_def split: Type.splits)
  show ?thesis
  proof (cases v)
    case None
    with assms(1,2) ft have "IsNilType \<tau>" "t = TReturn p None" "s' = s"
      by (auto simp: VisitReturn_def split: if_splits)
    then show ?thesis using ft by (auto intro: wt_ReturnNil)
  next
    case (Some e)
    then obtain \<sigma> where \<sigma>: "wt_expr A \<Gamma> e \<sigma>" using assms(3) by blast
    with assms(1,2) ft Some obtain e' where "\<not> IsNilType \<tau>" "CheckAssignmentConstraints \<tau> e = Some (True, e')"
      "t = TReturn p (Some e')" "s' = s"
      by (auto simp: VisitReturn_def Let_def wt_GetType split: if_splits bind_splits)
    with CheckAssignmentConstraints_sound [OF _ \<sigma>] ft show ?thesis by (auto intro: wt_Return)
  qed
qed

lemma sound_ReturnStatement:
  assumes "\<And>e. e \<in> set_option v \<Longrightarrow> sound_expr A e"
  shows "sound_stmt A (ReturnStatement p v)"
  unfolding sound_stmt_def
proof (intro allI impI)
  fix s t s'
  assume r: "VisitStmt A (ReturnStatement p v) s = Some (t, s')" and q: "quiet s s'" and k: "known_stmt (ReturnStatement p v)"
  then obtain ft where ft: "curr_func s = Some ft" by (auto simp: VisitStmt.simps(8) split: option.splits)
  have "wt_stmt A (env_of s) (Some ft) t (env_of s') \<and> returns t"
  proof (cases v)
    case None
    with r ft have "VisitReturn p ft None s = Some (t, s')" by (simp add: VisitStmt.simps(8))
    from VisitReturn_sound [OF this q] show ?thesis by auto
  next
    case (Some e)
    with r ft have r': "do { (e, s) \<leftarrow> VisitExpr A e s; VisitReturn p ft (Some e) s } = Some (t, s')"
      by (simp add: VisitStmt.simps(8))
    obtain e' \<sigma> s1 where e: "wt_expr A (env_of s) e' \<sigma>" "VisitReturn p ft (Some e') s1 = Some (t, s')" "quiet s1 s'"
      "env_of s1 = env_of s"
      by (rule sound_one [OF assms _ r' q reports_stmt_frame [OF VisitReturn_reports]]) (use Some k in auto)
    have "wt_stmt A (env_of s) (Some ft) t (env_of s) \<and> s' = s1 \<and> returns t"
      by (rule VisitReturn_sound [OF e(2,3)]) (use e(1) in auto)
    with e(4) show ?thesis by simp
  qed
  with ft show "wt_stmt A (env_of s) (curr_func s) t (env_of s') \<and>
      (\<forall>b. IsTerminating (ReturnStatement p v) = Some b \<longrightarrow> returns t = b)" by simp
qed

text \<open>The part of a for statement after its condition.\<close>

lemma for_body_sound:
  assumes "\<And>st. st \<in> set_option nx \<Longrightarrow> sound_stmt A st" and "sound_stmt A body"
    and "pred_option known_stmt nx" and "known_stmt body"
    and n: "VisitStmtOption A nx s = Some (tn, s1)" and b: "VisitStmt A body s1 = Some (tb, s2)" and q: "quiet s s2"
  shows "\<exists>\<Gamma>1 \<Gamma>2. wt_opt A (env_of s) (curr_func s) tn \<Gamma>1 \<and> wt_stmt A \<Gamma>1 (curr_func s) tb \<Gamma>2"
proof -
  note f = VisitStmtOption_frames [OF n] VisitStmt_frame [OF b]
  note q = quiet_fst [OF f q] quiet_snd [OF f q]
  have "wt_opt A (env_of s) (curr_func s) tn (env_of s1) \<and> curr_func s1 = curr_func s"
    using VisitStmtOption_sound [OF assms(1) n q(1) assms(3)] by blast
  with sound_stmtD [OF assms(2) b q(2) assms(4)] show ?thesis by auto
qed

lemma for_sound:
  assumes "\<And>st. st \<in> set_option init \<Longrightarrow> sound_stmt A st" and "\<And>st. st \<in> set_option nx \<Longrightarrow> sound_stmt A st"
    and "sound_stmt A body" and k: "pred_option known_stmt init" "pred_option known_stmt nx" "known_stmt body"
    and i: "VisitStmtOption A init (EnterScope s) = Some (ti, s1)" and c: "expr_frame s1 s2"
    and n: "VisitStmtOption A nx s2 = Some (tn, s3)" and b: "VisitStmt A body s3 = Some (tb, s4)"
    and x: "ExitScope s4 = Some s'" and q: "quiet s s'"
    and cond: "quiet s1 s2 \<Longrightarrow> c = None \<or> (\<exists>e. c = Some e \<and> wt_expr A (env_of s1) e bool_type)"
  shows "wt_stmt A (env_of s) (curr_func s) (TFor p ti c tn tb) (env_of s')"
proof -
  note f1 = VisitStmtOption_frames [OF i] and f2 = expr_frame_stmt_frame [OF c]
    and f3 = stmt_frame_trans [OF VisitStmtOption_frames [OF n] VisitStmt_frame [OF b]]
  have q': "quiet (EnterScope s) s4" using q ExitScope_errors [OF x] by simp
  note q1 = quiet_fst [OF f1 stmt_frame_trans [OF f2 f3] q'] and q23 = quiet_snd [OF f1 stmt_frame_trans [OF f2 f3] q']
  note q2 = quiet_fst [OF f2 f3 q23] and q3 = quiet_snd [OF f2 f3 q23]
  have "env_of s' = env_of s"
    by (rule expr_frame_env [OF block_frame [OF stmt_frame_trans [OF f1 stmt_frame_trans [OF f2 f3]] x], THEN conjunct1])
  moreover have i': "wt_opt A (env_of s) (curr_func s) ti (env_of s1) \<and> curr_func s1 = curr_func s"
    using VisitStmtOption_sound [OF assms(1) i q1 k(1)] by simp
  moreover from expr_frame_env [OF c] i' have "env_of s2 = env_of s1" "curr_func s2 = curr_func s" by auto
  ultimately show ?thesis
    using for_body_sound [OF assms(2,3) k(2,3) n b q3] cond [OF q2] by (auto intro: wt_For)
qed

lemma sound_ForStatement:
  assumes "\<And>st. st \<in> set_option init \<Longrightarrow> sound_stmt A st" and cond: "\<And>e. e \<in> set_option cond \<Longrightarrow> sound_expr A e"
    and "\<And>st. st \<in> set_option nxt \<Longrightarrow> sound_stmt A st" and "sound_stmt A body"
  shows "sound_stmt A (ForStatement p init cond nxt body)"
  unfolding sound_stmt_def
proof (intro allI impI)
  fix s t s'
  assume v: "VisitStmt A (ForStatement p init cond nxt body) s = Some (t, s')" and q: "quiet s s'"
    and k: "known_stmt (ForStatement p init cond nxt body)"
  from v obtain ti s1 where i: "VisitStmtOption A init (EnterScope s) = Some (ti, s1)"
    by (auto simp: VisitStmt.simps(5) split: bind_splits)
  from k have k': "pred_option known_stmt init" "pred_option known_stmt nxt" "known_stmt body" by auto
  note sound = for_sound [OF assms(1,3,4) k' i _ _ _ _ q]
  have "wt_stmt A (env_of s) (curr_func s) t (env_of s') \<and> \<not> returns t"
  proof (cases cond)
    case None
    with v i obtain tn s3 tb s4 where "VisitStmtOption A nxt s1 = Some (tn, s3)" "VisitStmt A body s3 = Some (tb, s4)"
      "ExitScope s4 = Some s'" and t: "t = TFor p ti None tn tb"
      by (auto simp: VisitStmt.simps(5) split: bind_splits)
    from sound [OF _ _ expr_frame_refl this(1-3)] t show ?thesis by simp
  next
    case (Some e)
    with v i obtain c s2 where c: "VisitExpr A e s1 = Some (c, s2)" by (auto simp: VisitStmt.simps(5) split: bind_splits)
    have w: "\<exists>\<tau>. wt_expr A (env_of s1) c \<tau>" if "quiet s1 s2"
      by (rule sound_exprD [OF cond c that]) (use Some k in auto)
    show ?thesis
    proof (cases "GetType c")
      case None
      with v i Some c have t: "ExitScope s2 = Some s'" 
        by (auto simp: VisitStmt.simps(5) split: bind_splits)
      have "quiet (EnterScope s) s2" using q ExitScope_errors [OF t] by simp
      from w [OF quiet_snd [OF VisitStmtOption_frames [OF i] expr_frame_stmt_frame [OF VisitExpr_frame [OF c]] this]] None
      show ?thesis by (auto simp: wt_GetType)
    next
      case (Some ty)
      define s2' where "s2' = (if IsBoolType ty then s2 else ReportError (texpr_pos c) kNonBoolForCondition s2)"
      from v i \<open>cond = Some e\<close> c Some obtain tn s3 tb s4 where h: "VisitStmtOption A nxt s2' = Some (tn, s3)"
        "VisitStmt A body s3 = Some (tb, s4)" "ExitScope s4 = Some s'" and t: "t = TFor p ti (Some c) tn tb"
        by (auto simp: VisitStmt.simps(5) s2'_def Let_def split: bind_splits if_splits)
      have f: "expr_frame s1 s2'" using VisitExpr_frame [OF c] by (auto simp: s2'_def intro: expr_frame_trans)
      have "wt_expr A (env_of s1) c bool_type" if "quiet s1 s2'"
        using that w Some stmt_frame_errors [OF expr_frame_stmt_frame [OF VisitExpr_frame [OF c]]]
        by (auto simp: s2'_def ReportError_def wt_GetType split: if_splits)
      with sound [OF _ _ f h] t show ?thesis by simp
    qed
  qed
  then show "wt_stmt A (env_of s) (curr_func s) t (env_of s') \<and>
      (\<forall>b. IsTerminating (ForStatement p init cond nxt body) = Some b \<longrightarrow> returns t = b)" by simp
qed

section \<open>Declarations\<close>

lemma sound_FieldDeclaration:
  assumes "\<And>e. e \<in> set_option r \<Longrightarrow> sound_expr A e"
  shows "sound_decl A (FieldDeclaration p n r)"
  unfolding sound_decl_def
proof (intro allI impI)
  fix s t s'
  assume v: "VisitDecl A (FieldDeclaration p n r) s = Some (t, s')" and q: "quiet s s'" and k: "known_decl (FieldDeclaration p n r)"
  then obtain r' s1 where r: "VisitExprOption A r (enter_decl InOther s) = Some (r', s1)"
    and t: "t = TField p n r'" "s' = exit_decl (curr_decl_context s) s1"
    by (auto simp: VisitDecl.simps(1) Let_def split: bind_splits)
  obtain \<tau> where "wt_expr A (env_of s) r' \<tau>" "env_of s1 = env_of s"
    by (rule VisitExprOption_sound [OF assms r]) (use q t k in auto)
  with t show "wt_decl A (env_of s) t (env_of s')" by (auto intro: wt_FieldDecl)
qed

lemma duplicate_name_distinct:
  "duplicate_name seen ds = None \<Longrightarrow> distinct (map field_name ds) \<and> set (map field_name ds) \<inter> set seen = {}"
  by (induction seen ds rule: duplicate_name.induct) (auto split: if_splits)

lemma sound_StructDeclaration:
  assumes "\<And>q ds d. r = StructTypeRepr q ds \<Longrightarrow> d \<in> set ds \<Longrightarrow> sound_decl A d" and "sound_expr A r"
  shows "sound_decl A (StructDeclaration p x r)"
  unfolding sound_decl_def
proof (intro allI impI)
  fix s t s'
  assume v: "VisitDecl A (StructDeclaration p x r) s = Some (t, s')" and q: "quiet s s'"
    and k: "known_decl (StructDeclaration p x r)"
  then obtain r' s1 where r: "VisitExpr A r (enter_decl (InStruct x) s) = Some (r', s1)"
    by (auto simp: VisitDecl.simps(3) Let_def split: bind_splits)
  note f1 = expr_frame_stmt_frame [OF VisitExpr_frame [OF r]]
  have "\<exists>s2. stmt_frame s1 s2 \<and> s' = exit_decl (curr_decl_context s) s2"
    using v r by (auto simp: VisitDecl.simps(3) Let_def split: bind_splits option.splits Expression.splits
        intro: declare_in_scope_frame stmt_frame_refl ReportError_stmt_frame)
  then obtain s2 where f2: "stmt_frame s1 s2" and s': "s' = exit_decl (curr_decl_context s) s2" by blast
  have q': "quiet (enter_decl (InStruct x) s) s2" using q s' by simp
  obtain \<tau>' where "GetType r' = Some \<tau>'"
    by (rule sound_exprD [OF assms(2) r quiet_fst [OF f1 f2 q']]) (use k in auto)
  with v r obtain y ds where rr: "r = StructTypeRepr y ds"
    by (auto simp: VisitDecl.simps(3) Let_def split: Expression.splits)
  obtain fs ts \<tau> where w: "r' = TStructTypeRepr (Some \<tau>) y ts" "wt_expr A (env_of s) r' \<tau>" "wt_fields A (env_of s) ts fs"
    "map fst fs = map field_name ds"
    using StructTypeRepr_sound [OF assms(1) [OF rr] r [unfolded rr] quiet_fst [OF f1 f2 q']] k rr by auto
  have q1: "sm_errors s1 = sm_errors s" using quiet_fst [OF f1 f2 q'] by simp
  have dup: "HasDuplicatesNames ds = None"
    using v r w(1) rr q q1 by (auto simp: VisitDecl.simps(3) Let_def ReportError_def split: option.splits)
  with v r w(1) rr obtain s3 where d: "declare_in_scope (Some x) \<tau> s1 = Some s3"
    "s' = exit_decl (curr_decl_context s) s3" and t: "t = TStruct p x r'"
    by (auto simp: VisitDecl.simps(3) Let_def split: bind_splits)
  have "distinct (map fst fs)" using dup w(4) duplicate_name_distinct by (auto simp: HasDuplicatesNames_def)
  moreover have "env_of s' = bind_name (env_of s) (Some x) \<tau>"
    using d declare_in_scope_env [OF d(1)] expr_frame_env [OF VisitExpr_frame [OF r]] by simp
  ultimately show "wt_decl A (env_of s) t (env_of s')" using w t by (auto intro: wt_Struct)
qed

text \<open>The part of a function declaration after its type.\<close>

lemma function_declaration_rest:
  assumes v: "VisitDecl A (FunctionDeclaration p x (FunctionLiteralExpression r body)) s = Some (t, s')"
    and r: "VisitExpr A r (enter_decl InOther s) = Some (r', s1)"
  shows "\<exists>s2. stmt_frame s1 s2 \<and> s' = exit_decl (curr_decl_context s) s2"
proof (cases "GetType r'")
  case None
  with v r have "s' = exit_decl (curr_decl_context s) s1" by (cases r) (auto simp: VisitDecl.simps(2) Let_def)
  then show ?thesis using stmt_frame_refl by blast
next
  case (Some ft)
  with v r obtain y ds ro where rr: "r = FunctionTypeRepr y ds ro" by (cases r) (auto simp: VisitDecl.simps(2) Let_def)
  show ?thesis
  proof (cases "HasDuplicatesNames ds")
    case None
    with v r Some rr obtain s3 s4 b s5 b' s6 s7 where d: "declare_in_scope (Some x) ft s1 = Some s3"
      and e: "enter_function ft s3 = Some s4" "VisitStmt A body s4 = Some (b, s5)"
        "check_return (texpr_pos r') ft body b s5 = Some (b', s6)" "exit_function (curr_func s3) s6 = Some s7"
      and t: "s' = exit_decl (curr_decl_context s) s7"
      by (auto simp: VisitDecl.simps(2) Let_def split: bind_splits)
    from stmt_frame_trans [OF declare_in_scope_frame [OF d] function_rest_frame [OF e]] t show ?thesis by blast
  next
    case (Some dup)
    with v r rr \<open>GetType r' = Some ft\<close>
    have "s' = exit_decl (curr_decl_context s) (ReportError p (kDuplicateArgName dup x) s1)"
      by (auto simp: VisitDecl.simps(2) Let_def)
    then show ?thesis using ReportError_stmt_frame by blast
  qed
qed

lemma sound_FunctionDeclaration:
  assumes "\<And>q ds ro d. r = FunctionTypeRepr q ds ro \<Longrightarrow> d \<in> set ds \<Longrightarrow> sound_decl A d"
    and "\<And>q ds ro e. r = FunctionTypeRepr q ds ro \<Longrightarrow> e \<in> set_option ro \<Longrightarrow> sound_expr A e"
    and "sound_expr A r" and "sound_stmt A body"
  shows "sound_decl A (FunctionDeclaration p x (FunctionLiteralExpression r body))"
  unfolding sound_decl_def
proof (intro allI impI)
  fix s t s'
  assume v: "VisitDecl A (FunctionDeclaration p x (FunctionLiteralExpression r body)) s = Some (t, s')" and q: "quiet s s'"
    and k: "known_decl (FunctionDeclaration p x (FunctionLiteralExpression r body))"
  then obtain r' s1 where r: "VisitExpr A r (enter_decl InOther s) = Some (r', s1)"
    by (auto simp: VisitDecl.simps(2) Let_def split: bind_splits)
  note f1 = expr_frame_stmt_frame [OF VisitExpr_frame [OF r]] and e1 = expr_frame_env [OF VisitExpr_frame [OF r]]
  obtain s2 where f2: "stmt_frame s1 s2" and s': "s' = exit_decl (curr_decl_context s) s2"
    using function_declaration_rest [OF v r] by blast
  have q': "quiet (enter_decl InOther s) s2" using q s' by simp
  have q1: "sm_errors s1 = sm_errors s" using quiet_fst [OF f1 f2 q'] by simp
  obtain \<tau>' where "GetType r' = Some \<tau>'"
    by (rule sound_exprD [OF assms(3) r quiet_fst [OF f1 f2 q']]) (use k in auto)
  with v r obtain y ds ro where rr: "r = FunctionTypeRepr y ds ro"
    by (auto simp: VisitDecl.simps(2) Let_def split: Expression.splits)
  obtain ps \<tau> where w: "wt_expr A (env_of s) r' (FunctionType ps \<tau>)" "map fst ps = map field_name ds"
    using FunctionTypeRepr_sound [OF assms(1,2) [OF rr] r [unfolded rr] quiet_fst [OF f1 f2 q']] k rr by auto
  have dup: "HasDuplicatesNames ds = None"
    using v r wt_GetType [OF w(1)] rr q q1 by (auto simp: VisitDecl.simps(2) Let_def ReportError_def split: option.splits)
  define ft where "ft = FunctionType ps \<tau>"
  from dup v r wt_GetType [OF w(1)] rr obtain s3 s4 b s5 b' s6 s7 where d: "declare_in_scope (Some x) ft s1 = Some s3"
    and e: "enter_function ft s3 = Some s4" "VisitStmt A body s4 = Some (b, s5)"
      "check_return (texpr_pos r') ft body b s5 = Some (b', s6)" "exit_function (curr_func s3) s6 = Some s7"
    and t: "s' = exit_decl (curr_decl_context s) s7" "t = TFunction p x (TFunctionLiteral (Some ft) r' b')"
    by (auto simp: VisitDecl.simps(2) Let_def ft_def split: bind_splits)
  have "quiet s3 s7" using declare_in_scope_keeps [OF d] q1 q t(1) by simp
  from function_body_sound [OF assms(4) _ e this] k obtain \<Gamma> where
    b: "wt_stmt A (bind_params (env_of s3) ps) (Some ft) b' \<Gamma>" "returns b'" by (auto simp: ft_def)
  have "distinct (map fst ps)" using dup w(2) duplicate_name_distinct by (auto simp: HasDuplicatesNames_def)
  moreover have e3: "env_of s3 = bind_name (env_of s) (Some x) ft" using declare_in_scope_env [OF d] e1 by simp
  moreover have "env_of s' = env_of s3"
    using expr_frame_env [OF function_frame [OF e(1) stmt_frame_trans [OF VisitStmt_frame [OF e(2)]
      reports_stmt_frame [OF check_return_reports [OF e(3)]]] e(4)]] t(1) by simp
  ultimately show "wt_decl A (env_of s) t (env_of s')" using w b t(2) by (auto simp: ft_def intro: wt_FunctionDecl)
qed

lemma VisitVariable_sound:
  assumes "VisitVariable p x r i s = Some (t, s')" and "quiet s s'" and "r \<noteq> None \<or> i \<noteq> None"
    and r: "\<And>e. r = Some e \<Longrightarrow> \<exists>\<sigma>. wt_expr A (env_of s) e \<sigma>" and i: "\<And>e. i = Some e \<Longrightarrow> \<exists>\<sigma>. wt_expr A (env_of s) e \<sigma>"
  shows "wt_decl A (env_of s) t (env_of s')"
proof (cases r)
  case None
  with assms(3) i obtain e \<sigma> where e: "i = Some e" "wt_expr A (env_of s) e \<sigma>" by auto
  with None assms(1,2) have "\<not> IsNilType \<sigma>" "declare_in_scope (Some x) \<sigma> s = Some s'" "t = TVariable p x None (Some e)"
    by (auto simp: VisitVariable_def wt_GetType split: if_splits bind_splits)
  with e show ?thesis by (auto simp: declare_in_scope_env intro: wt_VarInit)
next
  case (Some e0)
  then obtain \<tau> where \<tau>: "wt_expr A (env_of s) e0 \<tau>" using r by auto
  show ?thesis
  proof (cases i)
    case None
    with Some assms(1) wt_GetType [OF \<tau>] have "declare_in_scope (Some x) \<tau> s = Some s'" "t = TVariable p x (Some e0) None"
      by (auto simp: VisitVariable_def split: bind_splits)
    with \<tau> show ?thesis by (auto simp: declare_in_scope_env intro: wt_VarTyped)
  next
    case i': (Some e)
    then obtain \<sigma> where \<sigma>: "wt_expr A (env_of s) e \<sigma>" using i by auto
    with Some i' assms(1,2) wt_GetType [OF \<tau>] wt_GetType [OF \<sigma>] obtain e' where
      "CheckAssignmentConstraints \<tau> e = Some (True, e')" "declare_in_scope (Some x) \<tau> s = Some s'"
      "t = TVariable p x (Some e0) (Some e')"
      by (auto simp: VisitVariable_def split: bind_splits if_splits)
    with \<tau> CheckAssignmentConstraints_sound [OF _ \<sigma>] show ?thesis by (auto simp: declare_in_scope_env intro: wt_VarTyped)
  qed
qed

lemma sound_VariableDeclaration:
  assumes "\<And>e. e \<in> set_option r \<Longrightarrow> sound_expr A e" and "\<And>e. e \<in> set_option i \<Longrightarrow> sound_expr A e"
  shows "sound_decl A (VariableDeclaration p x r i)"
  unfolding sound_decl_def
proof (intro allI impI)
  fix s t s'
  assume v: "VisitDecl A (VariableDeclaration p x r i) s = Some (t, s')" and q: "quiet s s'"
    and k: "known_decl (VariableDeclaration p x r i)"
  let ?opt = "\<lambda>eo s. case eo of None \<Rightarrow> Some (None, s) | Some e \<Rightarrow> do { (t, s) \<leftarrow> VisitExpr A e s; Some (Some t, s) }"
  have fr: "stmt_frame a b" if "?opt eo a = Some (x, b)" for eo a x b
    using that by (auto split: option.splits bind_splits intro: expr_frame_stmt_frame VisitExpr_frame)
  have so: "(\<forall>e. y = Some e \<longrightarrow> (\<exists>\<sigma>. wt_expr A (env_of a) e \<sigma>)) \<and> (y = None \<longleftrightarrow> eo = None) \<and> env_of b = env_of a"
    if "?opt eo a = Some (y, b)" "quiet a b" "\<And>e. e \<in> set_option eo \<Longrightarrow> sound_expr A e \<and> known_expr e" for eo a y b
    using that by (cases eo) (auto split: bind_splits elim: sound_exprD)
  from v q obtain scope outer where "sm_scopes s = scope # outer" "LookupLocal scope (Some x) = None"
    by (auto simp: VisitDecl.simps(4) split: list.splits option.splits if_splits)
  with v obtain r' s1 i' s2 s3 where ne: "r \<noteq> None \<or> i \<noteq> None" and r: "?opt r (enter_decl InOther s) = Some (r', s1)"
    and i: "?opt i s1 = Some (i', s2)" and vv: "VisitVariable p x r' i' s2 = Some (t, s3)"
    and s': "s' = exit_decl (curr_decl_context s) s3"
    by (auto simp: VisitDecl.simps(4) Let_def checked split: if_splits bind_splits)
  note f1 = fr [OF r] and f2 = fr [OF i] and f3 = VisitVariable_frame [OF vv]
  have q': "quiet (enter_decl InOther s) s3" using q s' by simp
  note q1 = quiet_fst [OF f1 stmt_frame_trans [OF f2 f3] q'] and q23 = quiet_snd [OF f1 stmt_frame_trans [OF f2 f3] q']
  note q2 = quiet_fst [OF f2 f3 q23] and q3 = quiet_snd [OF f2 f3 q23]
  have kr: "sound_expr A e \<and> known_expr e" if "e \<in> set_option r" for e using that assms(1) k by auto
  have ki: "sound_expr A e \<and> known_expr e" if "e \<in> set_option i" for e using that assms(2) k by auto
  note w1 = so [OF r q1 kr] and w2 = so [OF i q2 ki]
  have "wt_decl A (env_of s2) t (env_of s3)"
    by (rule VisitVariable_sound [OF vv q3]) (use w1 w2 ne in auto)
  then show "wt_decl A (env_of s) t (env_of s')" using w1 w2 s' by auto
qed

section \<open>The soundness of semantic analysis\<close>

lemma visitor_sound:
  shows "sound_expr A e \<and> (\<forall>q op i. e = UnaryOpExpression q op i \<longrightarrow> sound_expr A i) \<and>
      (\<forall>r b. e = FunctionLiteralExpression r b \<longrightarrow> sound_expr A r \<and> sound_stmt A b \<and>
        (\<forall>q ds ro. r = FunctionTypeRepr q ds ro \<longrightarrow> (\<forall>d \<in> set ds. sound_decl A d) \<and> (\<forall>e \<in> set_option ro. sound_expr A e))) \<and>
      (\<forall>q ds. e = StructTypeRepr q ds \<longrightarrow> (\<forall>d \<in> set ds. sound_decl A d)) \<and>
      (\<forall>q ds ro. e = FunctionTypeRepr q ds ro \<longrightarrow> (\<forall>d \<in> set ds. sound_decl A d) \<and> (\<forall>e \<in> set_option ro. sound_expr A e))"
    and "sound_stmt A st"
    and "sound_decl A d"
proof (induction e and st and d)
  case (BadExpression p)
  show ?case by (simp add: sound_expr_def VisitExpr.simps(1))
next
  case (CallExpression f args k)
  then show ?case by (cases k) (auto intro: sound_Call sound_Builtin)
next
  case (IdentifierExpression p n)
  show ?case by (auto simp: sound_expr_def VisitExpr.simps(7) intro: VisitIdentifierExpression_sound)
next
  case (LiteralExpression p l)
  show ?case by (auto simp: sound_expr_def VisitExpr.simps(9) intro: VisitLiteralExpression_sound)
next
  case (FunctionTypeRepr p ds ro)
  then have "\<exists>\<tau>. wt_expr A (env_of s) t \<tau>"
    if "VisitExpr A (FunctionTypeRepr p ds ro) s = Some (t, s')" "quiet s s'" "known_expr (FunctionTypeRepr p ds ro)" for s t s'
    using FunctionTypeRepr_sound [OF _ _ that] by blast
  with FunctionTypeRepr show ?case by (auto simp: sound_expr_def)
next
  case (StructTypeRepr p ds)
  then have "\<exists>\<tau>. wt_expr A (env_of s) t \<tau>"
    if "VisitExpr A (StructTypeRepr p ds) s = Some (t, s')" "quiet s s'" "known_expr (StructTypeRepr p ds)" for s t s'
    using StructTypeRepr_sound [OF _ that] by blast
  with StructTypeRepr show ?case by (auto simp: sound_expr_def)
next
  case (DeclarationStatement d)
  then show ?case
    by (auto simp: sound_stmt_def VisitStmt.simps(3) split: bind_splits dest: sound_declD intro: wt_Declaration)
next
  case (ExpressionStatement e)
  then have e: "wt_stmt A (env_of s) (curr_func s) (TExpression t) (env_of s')"
    if "VisitExpr A e s = Some (t, s')" "quiet s s'" "known_expr e" for s t s'
    using that by (auto elim!: sound_exprD intro: wt_Expression)
  show ?case by (auto simp: sound_stmt_def VisitStmt.simps(4) split: bind_splits intro: e)
next
  case (ForInStatement p a b c)
  show ?case by (simp add: sound_stmt_def VisitStmt.simps(6))
next
  case (FunctionDeclaration p n f)
  have "sound_decl A (FunctionDeclaration p n f)" if "\<forall>r b. f \<noteq> FunctionLiteralExpression r b"
    using that by (cases f) (simp_all add: sound_decl_def VisitDecl.simps(2))
  then show ?case using FunctionDeclaration sound_FunctionDeclaration [of _ A] by metis
next
  case (StructDeclaration p n r)
  then show ?case by (auto intro!: sound_StructDeclaration)
qed (auto intro: sound_BinaryOp sound_Comparison sound_Index sound_Unary sound_Member sound_FunctionLiteral
    sound_ArrayRepr sound_MapRepr sound_PointerRepr sound_AssignmentStatement sound_BlockStatement sound_ForStatement
    sound_IfStatement sound_ReturnStatement sound_FieldDeclaration sound_VariableDeclaration)

lemma VisitFile_loop_frame:
  assumes "fold_opt (\<lambda>d (ds, s). do { (d, s) \<leftarrow> VisitDecl A d s; Some (ds @ [d], s) }) ds (acc, s) = Some (ts, s')"
  shows "stmt_frame s s'"
  using assms
proof (induction ds arbitrary: acc s)
  case (Cons d ds)
  then show ?case by (auto split: bind_splits dest!: VisitDecl_frame Cons.IH intro: stmt_frame_trans)
qed auto

lemma VisitFile_loop_sound:
  assumes "fold_opt (\<lambda>d (ds, s). do { (d, s) \<leftarrow> VisitDecl A d s; Some (ds @ [d], s) }) ds (acc, s) = Some (ts, s')"
    and "quiet s s'" and "list_all known_decl ds"
  shows "\<exists>ts'. ts = acc @ ts' \<and> wt_file A (env_of s) ts'"
  using assms
proof (induction ds arbitrary: acc s)
  case Nil
  then show ?case by (auto intro: wt_file_Nil)
next
  case (Cons d ds)
  from Cons.prems(1) obtain t s1 where t: "VisitDecl A d s = Some (t, s1)"
    and r: "fold_opt (\<lambda>d (ds, s). do { (d, s) \<leftarrow> VisitDecl A d s; Some (ds @ [d], s) }) ds (acc @ [t], s1) = Some (ts, s')"
    by (auto split: bind_splits)
  have f: "stmt_frame s s1" "stmt_frame s1 s'" using VisitDecl_frame [OF t] VisitFile_loop_frame [OF r] by auto
  note q = quiet_fst [OF f Cons.prems(2)] quiet_snd [OF f Cons.prems(2)]
  have "wt_decl A (env_of s) t (env_of s1)" using sound_declD [OF visitor_sound(3) t q(1)] Cons.prems(3) by auto
  with Cons.IH [OF r q(2)] Cons.prems(3) show ?case by (auto intro: wt_file_Cons)
qed

section \<open>Properties\<close>

lemma stmt_frame_Lookup:
  assumes "stmt_frame s s'" and "env_of s x = Some \<tau>"
  shows "env_of s' x = Some \<tau>"
proof (cases "sm_scopes s")
  case (Cons scope outer)
  with assms(1) obtain new where n: "sm_scopes s' = (new @ scope) # outer"
    "\<forall>x \<in> fst ` set new. Lookup (scope # outer) x = None" by (auto simp: stmt_frame_def)
  with assms(2) Cons have "x \<notin> fst ` set new" by auto
  then have "map_of new x = None" by (simp add: map_of_eq_None_iff)
  with n(1) Cons assms(2) show ?thesis by (simp add: LookupLocal_def map_add_def)
qed (use assms in auto)

text \<open>
  C1. A program that semantic analysis accepts is well typed: when \<^verbatim>\<open>Run\<close> finds no error, every node of the tree
  it leaves has a type, and these types obey the typing rules \<open>wt_file\<close>, implicit casts included. The
  hypothesis excludes the two nodes that the analysis leaves without a type and without an error: a binary node whose
  operator is not a binary operator, which the parser does not make, and \<^verbatim>\<open>@concat\<close>.
\<close>

theorem Sema_Run_sound:
  assumes "list_all known_decl (file_decls f)" and "Sema_Run A c f = Some (False, ds, s)"
  shows "wt_file A Map.empty ds"
proof -
  from assms(2) obtain s1 where l: "fold_opt (\<lambda>d (ds, s). do { (d, s) \<leftarrow> VisitDecl A d s; Some (ds @ [d], s) })
      (file_decls f) ([], EnterScope (Sema_new c)) = Some (ds, s1)" and x: "ExitScope s1 = Some s" and "sm_errors s = []"
    by (auto simp: Sema_Run_def VisitFile_def split: bind_splits)
  then have "quiet (EnterScope (Sema_new c)) s1" using ExitScope_errors [OF x] by (simp add: Sema_new_def)
  from VisitFile_loop_sound [OF l this assms(1)] have "wt_file A (env_of (EnterScope (Sema_new c))) ds" by auto
  moreover have "env_of (EnterScope (Sema_new c)) = Map.empty" by (simp add: fun_eq_iff Sema_new_def)
  ultimately show ?thesis by simp
qed

definition example_abi :: abi where
  "example_abi = \<lparr>cpp_sizeof = \<lambda>k. 8, cpp_alignof = \<lambda>k. 8, cpp_int128_signed = True, cpp_sizeof_map = 56, cpp_alignof_map = 8\<rparr>"

abbreviation empty_context :: Context where
  "empty_context \<equiv> \<lparr>named_struct_types = [], named_struct_types_unique_id = 0\<rparr>"

abbreviation pos_at :: "nat \<Rightarrow> nat \<Rightarrow> SourcePosition" where
  "pos_at l c \<equiv> \<lparr>pos_line = l, pos_column = c\<rparr>"

text \<open>\<^verbatim>\<open>fun f(x: int32) -> int32 { return x + 1 }\<close>\<close>

definition example_file :: File where
  "example_file = \<lparr>file_pos = pos_at 1 1, file_decls = [
     FunctionDeclaration (pos_at 1 1) ''f'' (FunctionLiteralExpression
       (FunctionTypeRepr (pos_at 1 6) [FieldDeclaration (pos_at 1 7) (Some ''x'') (Some (IdentifierExpression (pos_at 1 10) ''int32''))]
          (Some (IdentifierExpression (pos_at 1 20) ''int32'')))
       (BlockStatement (pos_at 1 26) (pos_at 1 43) [ReturnStatement (pos_at 1 28)
          (Some (BinaryOpExpression (pos_at 1 37) T_PLUS (IdentifierExpression (pos_at 1 35) ''x'') (LiteralExpression (pos_at 1 39) (IntLiteral 1))))]))]\<rparr>"

theorem Sema_Run_sound_witness:
  "\<exists>ds s. Sema_Run example_abi empty_context example_file = Some (False, ds, s) \<and>
     ds \<noteq> [] \<and> wt_file example_abi Map.empty ds"
proof -
  let ?run = "Sema_Run example_abi empty_context example_file"
  have "case ?run of Some (False, ds, s) \<Rightarrow> ds \<noteq> [] | _ \<Rightarrow> False" by code_simp
  then obtain ds s where r: "?run = Some (False, ds, s)" "ds \<noteq> []"
    by (auto split: option.splits bool.splits)
  moreover have "list_all known_decl (file_decls example_file)"
    by (simp add: example_file_def arithmetic_ops_def)
  ultimately show ?thesis using Sema_Run_sound by blast
qed

text \<open>
  C35. The invariant of semantic analysis. A declaration or statement leaves the enclosing scopes, the current function
  and the current declaration as they were; errors are only added; a name that was visible keeps its type; and a
  name that has become visible is declared in the innermost scope.
\<close>

theorem visit_invariant:
  assumes "(\<exists>d t. VisitDecl A d s = Some (t, s')) \<or> (\<exists>st t. VisitStmt A st s = Some (t, s'))"
  shows "length (sm_scopes s') = length (sm_scopes s) \<and> tl (sm_scopes s') = tl (sm_scopes s) \<and>
    curr_func s' = curr_func s \<and> curr_decl_context s' = curr_decl_context s \<and>
    (\<exists>es. sm_errors s' = sm_errors s @ es) \<and>
    (\<forall>x \<tau>. Lookup (sm_scopes s) x = Some \<tau> \<longrightarrow> Lookup (sm_scopes s') x = Some \<tau>) \<and>
    (\<forall>x \<tau>. Lookup (sm_scopes s) x = None \<longrightarrow> Lookup (sm_scopes s') x = Some \<tau> \<longrightarrow>
      (\<exists>scope outer. sm_scopes s' = scope # outer \<and> LookupLocal scope x = Some \<tau>))"
proof -
  from assms have f: "stmt_frame s s'" using VisitDecl_frame VisitStmt_frame by blast
  then have e: "scope_ext (sm_scopes s) (sm_scopes s')" by (auto simp: stmt_frame_def)
  have "length (sm_scopes s') = length (sm_scopes s) \<and> tl (sm_scopes s') = tl (sm_scopes s)"
    using e by (cases "sm_scopes s") auto
  moreover have "\<exists>scope outer. sm_scopes s' = scope # outer \<and> LookupLocal scope x = Some \<tau>"
    if "Lookup (sm_scopes s) x = None" "Lookup (sm_scopes s') x = Some \<tau>" for x \<tau>
    using e that by (cases "sm_scopes s") (auto split: option.splits)
  ultimately show ?thesis using f stmt_frame_Lookup [OF f] by (auto simp: stmt_frame_def)
qed

abbreviation example_state :: "Scope list \<Rightarrow> Sema" where
  "example_state scopes \<equiv> (Sema_new empty_context)\<lparr>sm_scopes := scopes\<rparr>"

theorem visit_invariant_witness:
  "\<exists>t s'. VisitDecl example_abi (VariableDeclaration (pos_at 1 1) ''x'' None (Some (LiteralExpression (pos_at 1 9) (BoolLiteral True))))
      (example_state [[], [(Some ''y'', bt K_Int8)]]) = Some (t, s') \<and>
     tl (sm_scopes s') = [[(Some ''y'', bt K_Int8)]] \<and> Lookup (sm_scopes s') (Some ''y'') = Some (bt K_Int8)"
proof -
  let ?s = "example_state [[], [(Some ''y'', bt K_Int8)]]"
  let ?v = "VisitDecl example_abi (VariableDeclaration (pos_at 1 1) ''x'' None (Some (LiteralExpression (pos_at 1 9) (BoolLiteral True)))) ?s"
  have "?v \<noteq> None" by code_simp
  then obtain t s' where v: "?v = Some (t, s')" by auto
  have y: "Lookup (sm_scopes ?s) (Some ''y'') = Some (bt K_Int8)" and tl: "tl (sm_scopes ?s) = [[(Some ''y'', bt K_Int8)]]"
    by (simp_all add: LookupLocal_def)
  from v have "(\<exists>d t. VisitDecl example_abi d ?s = Some (t, s')) \<or> (\<exists>st t. VisitStmt example_abi st ?s = Some (t, s'))"
    by blast
  from visit_invariant [OF this] v y tl show ?thesis by metis
qed

lemma VisitVariable_shadowed:
  assumes x: "Lookup (sm_scopes s) (Some x) = Some \<sigma>" and y: "Lookup (sm_scopes s) (Some y) = None"
    and v: "VisitVariable p y r i s = Some (TVariable q z r' i', s1)"
  shows "VisitVariable p x r i s = Some (TVariable p x r' i', s1\<lparr>sm_scopes := sm_scopes s\<rparr>)"
    and "q = p" and "z = y" and "s1 = s\<lparr>sm_errors := sm_errors s1, sm_scopes := sm_scopes s1\<rparr>"
    and "length (sm_errors s) \<le> length (sm_errors s1)"
    and "sm_errors s1 = sm_errors s \<Longrightarrow> Lookup (sm_scopes s1) (Some y) =
      (case Option.bind r' GetType of Some d \<Rightarrow> Some d | None \<Rightarrow> Option.bind i' GetType)"
proof -
  obtain scope outer where s: "sm_scopes s = scope # outer" using x by (cases "sm_scopes s") auto
  have dx: "declare_in_scope (Some x) t s = Some s" for t
    using x s by (simp add: declare_in_scope_def Declare_def)
  have dy: "declare_in_scope (Some y) t s = Some (s\<lparr>sm_scopes := ((Some y, t) # scope) # outer\<rparr>)" for t
    using y s by (simp add: declare_in_scope_def Declare_def)
  note defs = VisitVariable_def Let_def dx dy ReportError_def LookupLocal_def
  show "VisitVariable p x r i s = Some (TVariable p x r' i', s1\<lparr>sm_scopes := sm_scopes s\<rparr>)" "q = p" "z = y"
    "s1 = s\<lparr>sm_errors := sm_errors s1, sm_scopes := sm_scopes s1\<rparr>" "length (sm_errors s) \<le> length (sm_errors s1)"
    "sm_errors s1 = sm_errors s \<Longrightarrow> Lookup (sm_scopes s1) (Some y) =
      (case Option.bind r' GetType of Some d \<Rightarrow> Some d | None \<Rightarrow> Option.bind i' GetType)"
    using v y by (auto simp: defs split: option.splits bind_splits if_splits)
qed


lemma part_visit_frame:
  assumes "(case e of None \<Rightarrow> Some (None, s) | Some e \<Rightarrow> do { (t, s) \<leftarrow> VisitExpr A e s; Some (Some t, s) }) = Some (t, s1)"
  shows "expr_frame s s1"
  using assms by (auto split: option.splits bind_splits dest: VisitExpr_frame)

text \<open>
  C40. \<^verbatim>\<open>Scope::Declare\<close> looks for the name in all open scopes, not only in the current one. Let an inner block
  declare a variable, with any type expression and any initialiser, under a name \<open>x\<close> that some scope outside
  has with type \<open>\<sigma>\<close> and the current scope does not have. Its check gives the same tree and the same errors as the
  declaration of a name \<open>y\<close> that no scope has, but nothing is entered: the scopes stay as they were and \<open>x\<close> keeps
  the type \<open>\<sigma>\<close>, where \<open>y\<close> gets the declared type, or the type of the initialiser when none is declared.
  So an inner variable of the name is accepted without an error, and its uses are checked against the wrong type.
\<close>

theorem shadowing_declaration_ignored:
  assumes "LookupLocal (hd (sm_scopes s)) (Some x) = None" and "Lookup (sm_scopes s) (Some x) = Some \<sigma>"
    and "Lookup (sm_scopes s) (Some y) = None"
    and "VisitDecl A (VariableDeclaration p y ty init) s = Some (TVariable p y r i, s1)"
  shows "\<exists>s2. VisitDecl A (VariableDeclaration p x ty init) s = Some (TVariable p x r i, s2) \<and>
    sm_errors s2 = sm_errors s1 \<and> sm_scopes s2 = sm_scopes s \<and> Lookup (sm_scopes s2) (Some x) = Some \<sigma> \<and>
    (sm_errors s1 = sm_errors s \<longrightarrow> Lookup (sm_scopes s1) (Some y) =
      (case Option.bind r GetType of Some \<tau> \<Rightarrow> Some \<tau> | None \<Rightarrow> Option.bind i GetType))"
proof -
  obtain scope rest where s: "sm_scopes s = scope # rest" using assms(2) by (cases "sm_scopes s") auto
  have fresh: "LookupLocal scope (Some x) = None" "LookupLocal scope (Some y) = None"
    using assms(1,3) s by (auto split: option.splits)
  let ?part = "\<lambda>e s. case e of None \<Rightarrow> Some (None, s) | Some e \<Rightarrow> do { (t, s) \<leftarrow> VisitExpr A e s; Some (Some t, s) }"
  from assms(4) s fresh obtain r1 sa i1 sb sc where ass: "ty \<noteq> None \<or> init \<noteq> None"
    and v: "?part ty (enter_decl InOther s) = Some (r1, sa)" "?part init sa = Some (i1, sb)"
    "VisitVariable p y r1 i1 sb = Some (TVariable p y r i, sc)" and s1: "s1 = exit_decl (curr_decl_context s) sc"
    by (auto simp: VisitDecl.simps(4) checked Let_def split: bind_splits option.splits if_splits)
  have f: "expr_frame (enter_decl InOther s) sb"
    using expr_frame_trans [OF part_visit_frame [OF v(1)] part_visit_frame [OF v(2)]] .
  then have sb: "sm_scopes sb = sm_scopes s" "\<exists>es. sm_errors sb = sm_errors s @ es"
    by (auto simp: expr_frame_def enter_decl_def)
  note sh = VisitVariable_shadowed [OF assms(2) [folded sb(1)] assms(3) [folded sb(1)] v(3)]
  have "VisitDecl A (VariableDeclaration p x ty init) s = Some (TVariable p x r i, s1\<lparr>sm_scopes := sm_scopes s\<rparr>)"
    using ass v(1,2) sh(1) s fresh sb(1) s1
    by (cases ty; cases init) (auto simp: VisitDecl.simps(4) checked exit_decl_def split: bind_splits)
  moreover have "sm_errors s1 = sm_errors s \<longrightarrow> Lookup (sm_scopes s1) (Some y) =
      (case Option.bind r GetType of Some \<tau> \<Rightarrow> Some \<tau> | None \<Rightarrow> Option.bind i GetType)"
    using sh(5,6) sb(2) s1 by (auto simp: exit_decl_def)
  ultimately show ?thesis using assms(2) by auto
qed

text \<open>\<^verbatim>\<open>var x: *bool\<close> and \<^verbatim>\<open>var x = true\<close> in a block inside the scope of an \<^verbatim>\<open>int32\<close> variable \<^verbatim>\<open>x\<close>.\<close>

lemma example_declarations:
  assumes "(ty, init) \<in> {(Some (PointerTypeRepr (pos_at 2 8) (Some (IdentifierExpression (pos_at 2 8) ''bool''))), None),
      (None, Some (LiteralExpression (pos_at 2 8) (BoolLiteral True)))}"
  shows "\<exists>r i s1. VisitDecl example_abi (VariableDeclaration (pos_at 2 1) ''y'' ty init)
      (example_state [[], [(Some ''x'', bt K_Int32)]]) = Some (TVariable (pos_at 2 1) ''y'' r i, s1) \<and> sm_errors s1 = []"
proof -
  let ?ok = "\<lambda>ty init. case VisitDecl example_abi (VariableDeclaration (pos_at 2 1) ''y'' ty init)
      (example_state [[], [(Some ''x'', bt K_Int32)]]) of
    Some (TVariable q z r i, s1) \<Rightarrow> q = pos_at 2 1 \<and> z = ''y'' \<and> sm_errors s1 = [] | _ \<Rightarrow> False"
  have "?ok (Some (PointerTypeRepr (pos_at 2 8) (Some (IdentifierExpression (pos_at 2 8) ''bool'')))) None" by code_simp
  moreover have "?ok None (Some (LiteralExpression (pos_at 2 8) (BoolLiteral True)))" by code_simp
  ultimately have "?ok ty init" using assms by (elim insertE emptyE) (simp_all only: prod.inject)
  then obtain d s1 where v: "VisitDecl example_abi (VariableDeclaration (pos_at 2 1) ''y'' ty init)
      (example_state [[], [(Some ''x'', bt K_Int32)]]) = Some (d, s1)"
    and ok: "case d of TVariable q z r i \<Rightarrow> q = pos_at 2 1 \<and> z = ''y'' \<and> sm_errors s1 = [] | _ \<Rightarrow> False"
    by (auto split: option.splits)
  show ?thesis using v ok by (cases d) auto
qed

theorem shadowing_declaration_ignored_witness:
  "(\<exists>r i s2. VisitDecl example_abi (VariableDeclaration (pos_at 2 1) ''x'' (Some (PointerTypeRepr (pos_at 2 8) (Some (IdentifierExpression (pos_at 2 8) ''bool'')))) None)
      (example_state [[], [(Some ''x'', bt K_Int32)]]) = Some (TVariable (pos_at 2 1) ''x'' r i, s2) \<and>
      sm_errors s2 = [] \<and> Lookup (sm_scopes s2) (Some ''x'') = Some (bt K_Int32)) \<and>
   (\<exists>r i s2. VisitDecl example_abi (VariableDeclaration (pos_at 2 1) ''x'' None (Some (LiteralExpression (pos_at 2 8) (BoolLiteral True))))
      (example_state [[], [(Some ''x'', bt K_Int32)]]) = Some (TVariable (pos_at 2 1) ''x'' r i, s2) \<and>
      sm_errors s2 = [] \<and> Lookup (sm_scopes s2) (Some ''x'') = Some (bt K_Int32))"
proof -
  let ?s = "example_state [[], [(Some ''x'', bt K_Int32)]]"
  have h: "LookupLocal (hd (sm_scopes ?s)) (Some ''x'') = None" "Lookup (sm_scopes ?s) (Some ''x'') = Some (bt K_Int32)"
    "Lookup (sm_scopes ?s) (Some ''y'') = None" by (simp_all add: LookupLocal_def)
  have "\<exists>r i s2. VisitDecl example_abi (VariableDeclaration (pos_at 2 1) ''x'' ty init) ?s =
      Some (TVariable (pos_at 2 1) ''x'' r i, s2) \<and>
      sm_errors s2 = [] \<and> Lookup (sm_scopes s2) (Some ''x'') = Some (bt K_Int32)"
    if d: "(ty, init) \<in> {(Some (PointerTypeRepr (pos_at 2 8) (Some (IdentifierExpression (pos_at 2 8) ''bool''))), None),
      (None, Some (LiteralExpression (pos_at 2 8) (BoolLiteral True)))}" for ty init
  proof -
    obtain r i s1 where y: "VisitDecl example_abi (VariableDeclaration (pos_at 2 1) ''y'' ty init) ?s =
      Some (TVariable (pos_at 2 1) ''y'' r i, s1)" "sm_errors s1 = []"
      using example_declarations [OF d] by blast
    from shadowing_declaration_ignored [OF h y(1)] y(2) show ?thesis by metis
  qed
  then show ?thesis by blast
qed

lemma check_arg_False:
  assumes "check_arg f spec i args s = Some ((False, args'), s')"
  shows "length (sm_errors s') = length (sm_errors s) + 1"
  using assms by (auto simp: check_arg_def ReportIncorrectCallArg_def ReportIncorrectCallArg2_def ReportError_def
      split: bind_splits if_splits ArgSpec.splits TExpr.splits Literal.splits option.splits)

lemma ArgCheck_False:
  assumes "ArgCheck f specs i args s = Some ((False, args'), s')"
  shows "length (sm_errors s') = length (sm_errors s) + 1"
  using assms
proof (induction specs arbitrary: i args s)
  case (Cons spec specs)
  from Cons.prems obtain ok args1 s1 where c: "check_arg f spec i args s = Some ((ok, args1), s1)"
    and r: "(if ok then ArgCheck f specs (i + 1) args1 s1 else Some ((False, args1), s1)) = Some ((False, args'), s')"
    by (auto split: bind_splits)
  show ?case
  proof (cases ok)
    case True
    then have "s1 = s" using check_arg_matches c by auto
    then show ?thesis using Cons.IH r True by auto
  next
    case False
    then show ?thesis using check_arg_False c r by auto
  qed
qed auto

text \<open>
  C38. The check of a call to a builtin function with a fixed signature either accepts the call, gives it the return
  type of the signature, reports nothing and leaves arguments that match the parameters one by one, or it reports
  exactly one error and gives the call no type.
\<close>

theorem GenericBuiltinCheck_correct:
  assumes "GenericBuiltinCheck ret specs f args s = Some ((ty, args'), s')"
  shows "(ty = Some ret \<and> s' = s \<and> list_all2 arg_matches specs args') \<or>
    (ty = None \<and> length (sm_errors s') = length (sm_errors s) + 1)"
proof -
  from assms obtain ok s1 where c: "CheckArgCount f (length args) (length specs) s = Some (ok, s1)"
    by (auto simp: GenericBuiltinCheck_def split: bind_splits)
  show ?thesis
  proof (cases ok)
    case False
    with assms c have "ty = None" "s' = s1" by (auto simp: GenericBuiltinCheck_def)
    with c False show ?thesis by (auto simp: CheckArgCount_def ReportError_def split: if_splits bind_splits)
  next
    case True
    with c have s1: "s1 = s" by (auto simp: arg_counts)
    with assms c True obtain ok2 where a: "ArgCheck f specs 0 args s = Some ((ok2, args'), s')"
      and ty: "ty = (if ok2 then Some ret else None)"
      by (auto simp: GenericBuiltinCheck_def split: bind_splits)
    show ?thesis
    proof (cases ok2)
      case True
      then have "s' = s" using ArgCheck_matches a by auto
      with GenericBuiltinCheck_matches [OF assms] show ?thesis by simp
    next
      case False
      with a ty show ?thesis using ArgCheck_False by auto
    qed
  qed
qed

theorem GenericBuiltinCheck_correct_witness:
  "\<exists>args' s'. GenericBuiltinCheck (bt K_RealVal) [Exactly (bt K_RealVal)] (TIdentifier None (pos_at 1 1) ''cos'')
       [TIdentifier (Some (bt K_IntegerVal)) (pos_at 1 5) ''x'']
       (Sema_new empty_context) = Some ((None, args'), s') \<and>
     length (sm_errors s') = 1"
proof -
  let ?r = "GenericBuiltinCheck (bt K_RealVal) [Exactly (bt K_RealVal)] (TIdentifier None (pos_at 1 1) ''cos'')
       [TIdentifier (Some (bt K_IntegerVal)) (pos_at 1 5) ''x'']
       (Sema_new empty_context)"
  have "case ?r of Some ((None, args'), s') \<Rightarrow> True | _ \<Rightarrow> False" by code_simp
  then obtain args' s' where r: "?r = Some ((None, args'), s')" by (auto split: option.splits)
  with GenericBuiltinCheck_correct [OF r] show ?thesis by (auto simp: Sema_new_def)
qed

end
