(* ===== verification/Bytecodes.thy ===== *)
theory Bytecodes
  imports Types
begin

text \<open>
  The bytecode of the virtual machine: the table of instructions with their operands (\<^verbatim>\<open>vm/bytecodes.h\<close>,
  \<^verbatim>\<open>vm/bytecode_operands.h\<close>, \<^verbatim>\<open>vm/bytecode_traits.h\<close>), labels (\<^verbatim>\<open>vm/bytecode_label.h\<close>), the emitter
  (\<^verbatim>\<open>vm/bytecode_emitter.cpp\<close>), the iterator that decodes instructions (\<^verbatim>\<open>vm/bytecode_iterator.cpp\<close>), and the
  frame layout of functions (\<^verbatim>\<open>vm/bytecode_function_info.cpp\<close>).

  An enumerator that the macros make from an operation and a type, \<^verbatim>\<open>Add_int32_t\<close>, is \<open>Typed Add P_int32\<close>. The
  instructions that only call functions of the runtime library are named by strings. Scalars are stored in the
  order of bytes of the machine, least significant first. Floating-point immediates are their bit patterns.
\<close>

section \<open>Operands\<close>

datatype OperandType =
    OT_None | OT_Imm1 | OT_Imm2 | OT_Imm4 | OT_Imm8 | OT_Imm4F | OT_Imm8F | OT_UImm2 | OT_UImm4 | OT_JumpOffset |
    OT_Local | OT_StaticLocal | OT_LocalCount | OT_FunctionId

text \<open>\<^verbatim>\<open>OperandTypeTraits<type>::kSize\<close>.\<close>

fun kSize :: "OperandType \<Rightarrow> nat" where
  "kSize OT_None = 0"
| "kSize OT_Imm1 = 1"
| "kSize OT_Imm2 = 2"
| "kSize OT_Imm4 = 4"
| "kSize OT_Imm8 = 8"
| "kSize OT_Imm4F = 4"
| "kSize OT_Imm8F = 8"
| "kSize OT_UImm2 = 2"
| "kSize OT_UImm4 = 4"
| "kSize OT_JumpOffset = 4"
| "kSize OT_Local = 4"
| "kSize OT_StaticLocal = 4"
| "kSize OT_LocalCount = 2"
| "kSize OT_FunctionId = 2"

definition IsSignedIntegerImmediate :: "OperandType \<Rightarrow> bool" where
  "IsSignedIntegerImmediate t \<longleftrightarrow> t \<in> {OT_Imm1, OT_Imm2, OT_Imm4, OT_Imm8}"

definition IsUnsignedIntegerImmediate :: "OperandType \<Rightarrow> bool" where
  "IsUnsignedIntegerImmediate t \<longleftrightarrow> t \<in> {OT_UImm2, OT_UImm4}"

definition IsFloatImmediate :: "OperandType \<Rightarrow> bool" where
  "IsFloatImmediate t \<longleftrightarrow> t \<in> {OT_Imm4F, OT_Imm8F}"

section \<open>The table of instructions\<close>

datatype PrimType =
    P_bool | P_int8 | P_int16 | P_int32 | P_int64 | P_uint8 | P_uint16 | P_uint32 | P_uint64 | P_float | P_double

datatype TypedOp =
    Neg | Add | Sub | Mul | Div | Rem | BitAnd | BitOr | BitXor | BitNeg | BitShl | BitShr | BitCtlz | BitCttz | GreaterThan |
    GreaterThanEqual | Equal | LessThan | LessThanEqual | NotEqual

datatype CoreOp =
    Not_op | Jump | JumpIfTrue | JumpIfFalse | IsNullPtr | IsNotNullPtr | Deref1 | Deref2 | Deref4 | Deref8 | DerefN | Assign1 |
    Assign2 | Assign4 | Assign8 | AssignN | AssignImm1 | AssignImm2 | AssignImm4 | AssignImm8 | AssignImm4F | AssignImm8F |
    Lea | LeaScaled | Call | Return

datatype Bytecode = Typed TypedOp PrimType | Cast PrimType PrimType | Core CoreOp | Library string

definition UINT_TYPES :: "PrimType list" where
  "UINT_TYPES = [P_uint8, P_uint16, P_uint32, P_uint64]"

definition INT_TYPES :: "PrimType list" where
  "INT_TYPES = [P_int8, P_int16, P_int32, P_int64] @ UINT_TYPES"

definition ALL_NUMERIC_TYPES :: "PrimType list" where
  "ALL_NUMERIC_TYPES = INT_TYPES @ [P_float, P_double]"

definition ALL_TYPES :: "PrimType list" where
  "ALL_TYPES = P_bool # INT_TYPES @ [P_float, P_double]"

definition TYPED_LIST :: "(Bytecode \<times> OperandType list) list" where
  "TYPED_LIST = concat [
     map (\<lambda>t. (Typed Neg t, [OT_Local, OT_Local])) ALL_NUMERIC_TYPES,
     map (\<lambda>t. (Typed Add t, [OT_Local, OT_Local, OT_Local])) ALL_NUMERIC_TYPES,
     map (\<lambda>t. (Typed Sub t, [OT_Local, OT_Local, OT_Local])) ALL_NUMERIC_TYPES,
     map (\<lambda>t. (Typed Mul t, [OT_Local, OT_Local, OT_Local])) ALL_NUMERIC_TYPES,
     map (\<lambda>t. (Typed Div t, [OT_Local, OT_Local, OT_Local])) ALL_NUMERIC_TYPES,
     map (\<lambda>t. (Typed Rem t, [OT_Local, OT_Local, OT_Local])) ALL_NUMERIC_TYPES,
     map (\<lambda>t. (Typed BitAnd t, [OT_Local, OT_Local, OT_Local])) INT_TYPES,
     map (\<lambda>t. (Typed BitOr t, [OT_Local, OT_Local, OT_Local])) INT_TYPES,
     map (\<lambda>t. (Typed BitXor t, [OT_Local, OT_Local, OT_Local])) INT_TYPES,
     map (\<lambda>t. (Typed BitNeg t, [OT_Local, OT_Local])) INT_TYPES,
     map (\<lambda>t. (Typed BitShl t, [OT_Local, OT_Local, OT_Local])) INT_TYPES,
     map (\<lambda>t. (Typed BitShr t, [OT_Local, OT_Local, OT_Local])) INT_TYPES,
     map (\<lambda>t. (Typed BitCtlz t, [OT_Local, OT_Local])) UINT_TYPES,
     map (\<lambda>t. (Typed BitCttz t, [OT_Local, OT_Local])) UINT_TYPES,
     map (\<lambda>t. (Typed GreaterThan t, [OT_Local, OT_Local, OT_Local])) ALL_TYPES,
     map (\<lambda>t. (Typed GreaterThanEqual t, [OT_Local, OT_Local, OT_Local])) ALL_TYPES,
     map (\<lambda>t. (Typed Equal t, [OT_Local, OT_Local, OT_Local])) ALL_TYPES,
     map (\<lambda>t. (Typed LessThan t, [OT_Local, OT_Local, OT_Local])) ALL_TYPES,
     map (\<lambda>t. (Typed LessThanEqual t, [OT_Local, OT_Local, OT_Local])) ALL_TYPES,
     map (\<lambda>t. (Typed NotEqual t, [OT_Local, OT_Local, OT_Local])) ALL_TYPES,
     concat (map (\<lambda>t1. map (\<lambda>t2. (Cast t1 t2, [OT_Local, OT_Local])) ALL_TYPES) ALL_TYPES)]"

definition CORE_LIST :: "(Bytecode \<times> OperandType list) list" where
  "CORE_LIST = [
     (Core Not_op, [OT_Local, OT_Local]), (Core Jump, [OT_JumpOffset]), (Core JumpIfTrue, [OT_Local, OT_JumpOffset]),
     (Core JumpIfFalse, [OT_Local, OT_JumpOffset]), (Core IsNullPtr, [OT_Local, OT_Local]),
     (Core IsNotNullPtr, [OT_Local, OT_Local]), (Core Deref1, [OT_Local, OT_Local]),
     (Core Deref2, [OT_Local, OT_Local]), (Core Deref4, [OT_Local, OT_Local]), (Core Deref8, [OT_Local, OT_Local]),
     (Core DerefN, [OT_Local, OT_Local, OT_UImm4]), (Core Assign1, [OT_Local, OT_Local]),
     (Core Assign2, [OT_Local, OT_Local]), (Core Assign4, [OT_Local, OT_Local]),
     (Core Assign8, [OT_Local, OT_Local]), (Core AssignN, [OT_Local, OT_Local, OT_UImm4]),
     (Core AssignImm1, [OT_Local, OT_Imm1]), (Core AssignImm2, [OT_Local, OT_Imm2]),
     (Core AssignImm4, [OT_Local, OT_Imm4]), (Core AssignImm8, [OT_Local, OT_Imm8]),
     (Core AssignImm4F, [OT_Local, OT_Imm4F]), (Core AssignImm8F, [OT_Local, OT_Imm8F]),
     (Core Lea, [OT_Local, OT_Local, OT_Imm4]), (Core LeaScaled, [OT_Local, OT_Local, OT_Local, OT_Imm4, OT_Imm4]),
     (Core Call, [OT_FunctionId, OT_LocalCount]), (Core Return, [])]"

definition SCAN_LIST :: "(Bytecode \<times> OperandType list) list" where
  "SCAN_LIST = [
     (Library ''ExecutionContextGetMemoryPool'', [OT_Local, OT_Local]),
     (Library ''ExecutionContextGetTLS'', [OT_Local, OT_Local]),
     (Library ''ThreadStateContainerIterate'', [OT_Local, OT_Local, OT_FunctionId]),
     (Library ''ThreadStateContainerAccessCurrentThreadState'', [OT_Local, OT_Local]),
     (Library ''ThreadStateContainerReset'', [OT_Local, OT_Local, OT_FunctionId, OT_FunctionId, OT_Local]),
     (Library ''ThreadStateContainerClear'', [OT_Local]),
     (Library ''TableVectorIteratorInit'', [OT_Local, OT_UImm2]),
     (Library ''TableVectorIteratorPerformInit'', [OT_Local]),
     (Library ''TableVectorIteratorNext'', [OT_Local, OT_Local]), (Library ''TableVectorIteratorFree'', [OT_Local]),
     (Library ''TableVectorIteratorGetVPI'', [OT_Local, OT_Local]),
     (Library ''ParallelScanTable'', [OT_UImm2, OT_Local, OT_Local, OT_FunctionId]),
     (Library ''VPIInit'', [OT_Local, OT_Local]), (Library ''VPIInitWithList'', [OT_Local, OT_Local, OT_Local]),
     (Library ''VPIFree'', [OT_Local]), (Library ''VPIIsFiltered'', [OT_Local, OT_Local]),
     (Library ''VPIGetSelectedRowCount'', [OT_Local, OT_Local]),
     (Library ''VPIGetVectorProjection'', [OT_Local, OT_Local]), (Library ''VPIHasNext'', [OT_Local, OT_Local]),
     (Library ''VPIAdvance'', [OT_Local]), (Library ''VPISetPosition'', [OT_Local, OT_Local]),
     (Library ''VPIMatch'', [OT_Local, OT_Local]), (Library ''VPIReset'', [OT_Local]),
     (Library ''VPIGetBool'', [OT_Local, OT_Local, OT_UImm4]),
     (Library ''VPIGetTinyInt'', [OT_Local, OT_Local, OT_UImm4]),
     (Library ''VPIGetSmallInt'', [OT_Local, OT_Local, OT_UImm4]),
     (Library ''VPIGetInteger'', [OT_Local, OT_Local, OT_UImm4]),
     (Library ''VPIGetBigInt'', [OT_Local, OT_Local, OT_UImm4]),
     (Library ''VPIGetReal'', [OT_Local, OT_Local, OT_UImm4]),
     (Library ''VPIGetDouble'', [OT_Local, OT_Local, OT_UImm4]),
     (Library ''VPIGetDecimal'', [OT_Local, OT_Local, OT_UImm4]),
     (Library ''VPIGetDate'', [OT_Local, OT_Local, OT_UImm4]),
     (Library ''VPIGetString'', [OT_Local, OT_Local, OT_UImm4]),
     (Library ''VPIGetPointer'', [OT_Local, OT_Local, OT_UImm4]),
     (Library ''VPISetBool'', [OT_Local, OT_Local, OT_UImm4]),
     (Library ''VPISetTinyInt'', [OT_Local, OT_Local, OT_UImm4]),
     (Library ''VPISetSmallInt'', [OT_Local, OT_Local, OT_UImm4]),
     (Library ''VPISetInteger'', [OT_Local, OT_Local, OT_UImm4]),
     (Library ''VPISetBigInt'', [OT_Local, OT_Local, OT_UImm4]),
     (Library ''VPISetReal'', [OT_Local, OT_Local, OT_UImm4]),
     (Library ''VPISetDouble'', [OT_Local, OT_Local, OT_UImm4]),
     (Library ''VPISetDecimal'', [OT_Local, OT_Local, OT_UImm4]),
     (Library ''VPISetDate'', [OT_Local, OT_Local, OT_UImm4]),
     (Library ''VPISetString'', [OT_Local, OT_Local, OT_UImm4]), (Library ''FilterManagerInit'', [OT_Local]),
     (Library ''FilterManagerStartNewClause'', [OT_Local]),
     (Library ''FilterManagerInsertFilter'', [OT_Local, OT_FunctionId]),
     (Library ''FilterManagerRunFilters'', [OT_Local, OT_Local]), (Library ''FilterManagerFree'', [OT_Local]),
     (Library ''VectorFilterEqual'', [OT_Local, OT_Local, OT_Local, OT_Local]),
     (Library ''VectorFilterEqualVal'', [OT_Local, OT_Local, OT_Local, OT_Local]),
     (Library ''VectorFilterGreaterThan'', [OT_Local, OT_Local, OT_Local, OT_Local]),
     (Library ''VectorFilterGreaterThanVal'', [OT_Local, OT_Local, OT_Local, OT_Local]),
     (Library ''VectorFilterGreaterThanEqual'', [OT_Local, OT_Local, OT_Local, OT_Local]),
     (Library ''VectorFilterGreaterThanEqualVal'', [OT_Local, OT_Local, OT_Local, OT_Local]),
     (Library ''VectorFilterLessThan'', [OT_Local, OT_Local, OT_Local, OT_Local]),
     (Library ''VectorFilterLessThanVal'', [OT_Local, OT_Local, OT_Local, OT_Local]),
     (Library ''VectorFilterLessThanEqual'', [OT_Local, OT_Local, OT_Local, OT_Local]),
     (Library ''VectorFilterLessThanEqualVal'', [OT_Local, OT_Local, OT_Local, OT_Local]),
     (Library ''VectorFilterNotEqual'', [OT_Local, OT_Local, OT_Local, OT_Local]),
     (Library ''VectorFilterNotEqualVal'', [OT_Local, OT_Local, OT_Local, OT_Local])]"

definition SQL_VALUE_LIST :: "(Bytecode \<times> OperandType list) list" where
  "SQL_VALUE_LIST = [
     (Library ''ForceBoolTruth'', [OT_Local, OT_Local]), (Library ''InitSqlNull'', [OT_Local]),
     (Library ''InitBool'', [OT_Local, OT_Local]), (Library ''InitInteger'', [OT_Local, OT_Local]),
     (Library ''InitReal'', [OT_Local, OT_Local]), (Library ''InitDate'', [OT_Local, OT_Local, OT_Local, OT_Local]),
     (Library ''InitString'', [OT_Local, OT_StaticLocal, OT_UImm4]),
     (Library ''BoolToInteger'', [OT_Local, OT_Local]), (Library ''IntegerToBool'', [OT_Local, OT_Local]),
     (Library ''IntegerToReal'', [OT_Local, OT_Local]),
     (Library ''IntegerToString'', [OT_Local, OT_Local, OT_Local]), (Library ''RealToBool'', [OT_Local, OT_Local]),
     (Library ''RealToInteger'', [OT_Local, OT_Local]), (Library ''RealToString'', [OT_Local, OT_Local, OT_Local]),
     (Library ''DateToTimestamp'', [OT_Local, OT_Local]), (Library ''DateToString'', [OT_Local, OT_Local, OT_Local]),
     (Library ''TimestampToDate'', [OT_Local, OT_Local]),
     (Library ''TimestampToString'', [OT_Local, OT_Local, OT_Local]),
     (Library ''StringToBool'', [OT_Local, OT_Local]), (Library ''StringToInteger'', [OT_Local, OT_Local]),
     (Library ''StringToReal'', [OT_Local, OT_Local]), (Library ''StringToDate'', [OT_Local, OT_Local]),
     (Library ''StringToTimestamp'', [OT_Local, OT_Local]),
     (Library ''LessThanBool'', [OT_Local, OT_Local, OT_Local]),
     (Library ''LessThanEqualBool'', [OT_Local, OT_Local, OT_Local]),
     (Library ''GreaterThanBool'', [OT_Local, OT_Local, OT_Local]),
     (Library ''GreaterThanEqualBool'', [OT_Local, OT_Local, OT_Local]),
     (Library ''EqualBool'', [OT_Local, OT_Local, OT_Local]),
     (Library ''NotEqualBool'', [OT_Local, OT_Local, OT_Local]),
     (Library ''LessThanInteger'', [OT_Local, OT_Local, OT_Local]),
     (Library ''LessThanEqualInteger'', [OT_Local, OT_Local, OT_Local]),
     (Library ''GreaterThanInteger'', [OT_Local, OT_Local, OT_Local]),
     (Library ''GreaterThanEqualInteger'', [OT_Local, OT_Local, OT_Local]),
     (Library ''EqualInteger'', [OT_Local, OT_Local, OT_Local]),
     (Library ''NotEqualInteger'', [OT_Local, OT_Local, OT_Local]),
     (Library ''LessThanReal'', [OT_Local, OT_Local, OT_Local]),
     (Library ''LessThanEqualReal'', [OT_Local, OT_Local, OT_Local]),
     (Library ''GreaterThanReal'', [OT_Local, OT_Local, OT_Local]),
     (Library ''GreaterThanEqualReal'', [OT_Local, OT_Local, OT_Local]),
     (Library ''EqualReal'', [OT_Local, OT_Local, OT_Local]),
     (Library ''NotEqualReal'', [OT_Local, OT_Local, OT_Local]),
     (Library ''LessThanString'', [OT_Local, OT_Local, OT_Local]),
     (Library ''LessThanEqualString'', [OT_Local, OT_Local, OT_Local]),
     (Library ''GreaterThanString'', [OT_Local, OT_Local, OT_Local]),
     (Library ''GreaterThanEqualString'', [OT_Local, OT_Local, OT_Local]),
     (Library ''EqualString'', [OT_Local, OT_Local, OT_Local]),
     (Library ''NotEqualString'', [OT_Local, OT_Local, OT_Local]),
     (Library ''LessThanDate'', [OT_Local, OT_Local, OT_Local]),
     (Library ''LessThanEqualDate'', [OT_Local, OT_Local, OT_Local]),
     (Library ''GreaterThanDate'', [OT_Local, OT_Local, OT_Local]),
     (Library ''GreaterThanEqualDate'', [OT_Local, OT_Local, OT_Local]),
     (Library ''EqualDate'', [OT_Local, OT_Local, OT_Local]),
     (Library ''NotEqualDate'', [OT_Local, OT_Local, OT_Local]), (Library ''AbsInteger'', [OT_Local, OT_Local]),
     (Library ''AbsReal'', [OT_Local, OT_Local]), (Library ''ValIsNull'', [OT_Local, OT_Local]),
     (Library ''ValIsNotNull'', [OT_Local, OT_Local]), (Library ''LogicalNotBoolVal'', [OT_Local, OT_Local]),
     (Library ''AddInteger'', [OT_Local, OT_Local, OT_Local]),
     (Library ''SubInteger'', [OT_Local, OT_Local, OT_Local]),
     (Library ''MulInteger'', [OT_Local, OT_Local, OT_Local]),
     (Library ''DivInteger'', [OT_Local, OT_Local, OT_Local]),
     (Library ''RemInteger'', [OT_Local, OT_Local, OT_Local]), (Library ''AddReal'', [OT_Local, OT_Local, OT_Local]),
     (Library ''SubReal'', [OT_Local, OT_Local, OT_Local]), (Library ''MulReal'', [OT_Local, OT_Local, OT_Local]),
     (Library ''DivReal'', [OT_Local, OT_Local, OT_Local]), (Library ''RemReal'', [OT_Local, OT_Local, OT_Local])]"

definition STORAGE_LIST :: "(Bytecode \<times> OperandType list) list" where
  "STORAGE_LIST = [
     (Library ''HashInt'', [OT_Local, OT_Local, OT_Local]), (Library ''HashReal'', [OT_Local, OT_Local, OT_Local]),
     (Library ''HashDate'', [OT_Local, OT_Local, OT_Local]),
     (Library ''HashTimestamp'', [OT_Local, OT_Local, OT_Local]),
     (Library ''HashString'', [OT_Local, OT_Local, OT_Local]), (Library ''HashCombine'', [OT_Local, OT_Local]),
     (Library ''CompactStorageWriteBool'', [OT_Local, OT_Local, OT_Local, OT_Local]),
     (Library ''CompactStorageWriteSmallInt'', [OT_Local, OT_Local, OT_Local, OT_Local]),
     (Library ''CompactStorageWriteTinyInt'', [OT_Local, OT_Local, OT_Local, OT_Local]),
     (Library ''CompactStorageWriteInteger'', [OT_Local, OT_Local, OT_Local, OT_Local]),
     (Library ''CompactStorageWriteBigInt'', [OT_Local, OT_Local, OT_Local, OT_Local]),
     (Library ''CompactStorageWriteReal'', [OT_Local, OT_Local, OT_Local, OT_Local]),
     (Library ''CompactStorageWriteDouble'', [OT_Local, OT_Local, OT_Local, OT_Local]),
     (Library ''CompactStorageWriteDecimal'', [OT_Local, OT_Local, OT_Local, OT_Local]),
     (Library ''CompactStorageWriteDate'', [OT_Local, OT_Local, OT_Local, OT_Local]),
     (Library ''CompactStorageWriteTimestamp'', [OT_Local, OT_Local, OT_Local, OT_Local]),
     (Library ''CompactStorageWriteString'', [OT_Local, OT_Local, OT_Local, OT_Local]),
     (Library ''CompactStorageReadBool'', [OT_Local, OT_Local, OT_Local, OT_Local]),
     (Library ''CompactStorageReadSmallInt'', [OT_Local, OT_Local, OT_Local, OT_Local]),
     (Library ''CompactStorageReadTinyInt'', [OT_Local, OT_Local, OT_Local, OT_Local]),
     (Library ''CompactStorageReadInteger'', [OT_Local, OT_Local, OT_Local, OT_Local]),
     (Library ''CompactStorageReadBigInt'', [OT_Local, OT_Local, OT_Local, OT_Local]),
     (Library ''CompactStorageReadReal'', [OT_Local, OT_Local, OT_Local, OT_Local]),
     (Library ''CompactStorageReadDouble'', [OT_Local, OT_Local, OT_Local, OT_Local]),
     (Library ''CompactStorageReadDecimal'', [OT_Local, OT_Local, OT_Local, OT_Local]),
     (Library ''CompactStorageReadDate'', [OT_Local, OT_Local, OT_Local, OT_Local]),
     (Library ''CompactStorageReadTimestamp'', [OT_Local, OT_Local, OT_Local, OT_Local]),
     (Library ''CompactStorageReadString'', [OT_Local, OT_Local, OT_Local, OT_Local]),
     (Library ''AggregationHashTableInit'', [OT_Local, OT_Local, OT_Local]),
     (Library ''AggregationHashTableAllocTuple'', [OT_Local, OT_Local, OT_Local]),
     (Library ''AggregationHashTableAllocTuplePartitioned'', [OT_Local, OT_Local, OT_Local]),
     (Library ''AggregationHashTableLinkHashTableEntry'', [OT_Local, OT_Local]),
     (Library ''AggregationHashTableLookup'', [OT_Local, OT_Local, OT_Local]),
     (Library ''AggregationHashTableProcessBatch'', [OT_Local, OT_Local, OT_UImm4, OT_Local, OT_FunctionId, OT_FunctionId, OT_Local]),
     (Library ''AggregationHashTableTransferPartitions'', [OT_Local, OT_Local, OT_Local, OT_FunctionId]),
     (Library ''AggregationHashTableBuildAllHashTablePartitions'', [OT_Local, OT_Local]),
     (Library ''AggregationHashTableRepartition'', [OT_Local]),
     (Library ''AggregationHashTableMergePartitions'', [OT_Local, OT_Local, OT_Local, OT_FunctionId]),
     (Library ''AggregationHashTableParallelPartitionedScan'', [OT_Local, OT_Local, OT_Local, OT_FunctionId]),
     (Library ''AggregationHashTableFree'', [OT_Local]),
     (Library ''AggregationHashTableIteratorInit'', [OT_Local, OT_Local]),
     (Library ''AggregationHashTableIteratorHasNext'', [OT_Local, OT_Local]),
     (Library ''AggregationHashTableIteratorNext'', [OT_Local]),
     (Library ''AggregationHashTableIteratorGetRow'', [OT_Local, OT_Local]),
     (Library ''AggregationHashTableIteratorFree'', [OT_Local]),
     (Library ''AggregationOverflowPartitionIteratorHasNext'', [OT_Local, OT_Local]),
     (Library ''AggregationOverflowPartitionIteratorNext'', [OT_Local]),
     (Library ''AggregationOverflowPartitionIteratorGetHash'', [OT_Local, OT_Local]),
     (Library ''AggregationOverflowPartitionIteratorGetRow'', [OT_Local, OT_Local]),
     (Library ''AggregationOverflowPartitionIteratorGetRowEntry'', [OT_Local, OT_Local])]"

definition AGGREGATE_LIST :: "(Bytecode \<times> OperandType list) list" where
  "AGGREGATE_LIST = [
     (Library ''CountAggregateInit'', [OT_Local]), (Library ''CountAggregateAdvance'', [OT_Local, OT_Local]),
     (Library ''CountAggregateMerge'', [OT_Local, OT_Local]), (Library ''CountAggregateReset'', [OT_Local]),
     (Library ''CountAggregateGetResult'', [OT_Local, OT_Local]), (Library ''CountAggregateFree'', [OT_Local]),
     (Library ''CountStarAggregateInit'', [OT_Local]), (Library ''CountStarAggregateAdvance'', [OT_Local, OT_Local]),
     (Library ''CountStarAggregateMerge'', [OT_Local, OT_Local]), (Library ''CountStarAggregateReset'', [OT_Local]),
     (Library ''CountStarAggregateGetResult'', [OT_Local, OT_Local]),
     (Library ''CountStarAggregateFree'', [OT_Local]), (Library ''IntegerSumAggregateInit'', [OT_Local]),
     (Library ''IntegerSumAggregateAdvance'', [OT_Local, OT_Local]),
     (Library ''IntegerSumAggregateMerge'', [OT_Local, OT_Local]),
     (Library ''IntegerSumAggregateReset'', [OT_Local]),
     (Library ''IntegerSumAggregateGetResult'', [OT_Local, OT_Local]),
     (Library ''IntegerSumAggregateFree'', [OT_Local]), (Library ''RealSumAggregateInit'', [OT_Local]),
     (Library ''RealSumAggregateAdvance'', [OT_Local, OT_Local]),
     (Library ''RealSumAggregateMerge'', [OT_Local, OT_Local]), (Library ''RealSumAggregateReset'', [OT_Local]),
     (Library ''RealSumAggregateGetResult'', [OT_Local, OT_Local]), (Library ''RealSumAggregateFree'', [OT_Local]),
     (Library ''IntegerMaxAggregateInit'', [OT_Local]),
     (Library ''IntegerMaxAggregateAdvance'', [OT_Local, OT_Local]),
     (Library ''IntegerMaxAggregateMerge'', [OT_Local, OT_Local]),
     (Library ''IntegerMaxAggregateReset'', [OT_Local]),
     (Library ''IntegerMaxAggregateGetResult'', [OT_Local, OT_Local]),
     (Library ''IntegerMaxAggregateFree'', [OT_Local]), (Library ''RealMaxAggregateInit'', [OT_Local]),
     (Library ''RealMaxAggregateAdvance'', [OT_Local, OT_Local]),
     (Library ''RealMaxAggregateMerge'', [OT_Local, OT_Local]), (Library ''RealMaxAggregateReset'', [OT_Local]),
     (Library ''RealMaxAggregateGetResult'', [OT_Local, OT_Local]), (Library ''RealMaxAggregateFree'', [OT_Local]),
     (Library ''DateMaxAggregateInit'', [OT_Local]), (Library ''DateMaxAggregateAdvance'', [OT_Local, OT_Local]),
     (Library ''DateMaxAggregateMerge'', [OT_Local, OT_Local]), (Library ''DateMaxAggregateReset'', [OT_Local]),
     (Library ''DateMaxAggregateGetResult'', [OT_Local, OT_Local]), (Library ''DateMaxAggregateFree'', [OT_Local]),
     (Library ''StringMaxAggregateInit'', [OT_Local]), (Library ''StringMaxAggregateAdvance'', [OT_Local, OT_Local]),
     (Library ''StringMaxAggregateMerge'', [OT_Local, OT_Local]), (Library ''StringMaxAggregateReset'', [OT_Local]),
     (Library ''StringMaxAggregateGetResult'', [OT_Local, OT_Local]),
     (Library ''StringMaxAggregateFree'', [OT_Local]), (Library ''IntegerMinAggregateInit'', [OT_Local]),
     (Library ''IntegerMinAggregateAdvance'', [OT_Local, OT_Local]),
     (Library ''IntegerMinAggregateMerge'', [OT_Local, OT_Local]),
     (Library ''IntegerMinAggregateReset'', [OT_Local]),
     (Library ''IntegerMinAggregateGetResult'', [OT_Local, OT_Local]),
     (Library ''IntegerMinAggregateFree'', [OT_Local]), (Library ''RealMinAggregateInit'', [OT_Local]),
     (Library ''RealMinAggregateAdvance'', [OT_Local, OT_Local]),
     (Library ''RealMinAggregateMerge'', [OT_Local, OT_Local]), (Library ''RealMinAggregateReset'', [OT_Local]),
     (Library ''RealMinAggregateGetResult'', [OT_Local, OT_Local]), (Library ''RealMinAggregateFree'', [OT_Local]),
     (Library ''DateMinAggregateInit'', [OT_Local]), (Library ''DateMinAggregateAdvance'', [OT_Local, OT_Local]),
     (Library ''DateMinAggregateMerge'', [OT_Local, OT_Local]), (Library ''DateMinAggregateReset'', [OT_Local]),
     (Library ''DateMinAggregateGetResult'', [OT_Local, OT_Local]), (Library ''DateMinAggregateFree'', [OT_Local]),
     (Library ''StringMinAggregateInit'', [OT_Local]), (Library ''StringMinAggregateAdvance'', [OT_Local, OT_Local]),
     (Library ''StringMinAggregateMerge'', [OT_Local, OT_Local]), (Library ''StringMinAggregateReset'', [OT_Local]),
     (Library ''StringMinAggregateGetResult'', [OT_Local, OT_Local]),
     (Library ''StringMinAggregateFree'', [OT_Local]), (Library ''AvgAggregateInit'', [OT_Local]),
     (Library ''AvgAggregateAdvanceInteger'', [OT_Local, OT_Local]),
     (Library ''AvgAggregateAdvanceReal'', [OT_Local, OT_Local]),
     (Library ''AvgAggregateMerge'', [OT_Local, OT_Local]), (Library ''AvgAggregateReset'', [OT_Local]),
     (Library ''AvgAggregateGetResult'', [OT_Local, OT_Local]), (Library ''AvgAggregateFree'', [OT_Local])]"

definition OPERATOR_LIST :: "(Bytecode \<times> OperandType list) list" where
  "OPERATOR_LIST = [
     (Library ''JoinHashTableInit'', [OT_Local, OT_Local, OT_Local]),
     (Library ''JoinHashTableInit2'', [OT_Local, OT_Local, OT_Local, OT_FunctionId, OT_FunctionId]),
     (Library ''JoinHashTableAllocTuple'', [OT_Local, OT_Local, OT_Local]),
     (Library ''JoinHashTableBuild'', [OT_Local]),
     (Library ''JoinHashTableBuildParallel'', [OT_Local, OT_Local, OT_Local]),
     (Library ''JoinHashTableLookup'', [OT_Local, OT_Local, OT_Local]), (Library ''JoinHashTableFree'', [OT_Local]),
     (Library ''HashTableEntryGetHash'', [OT_Local, OT_Local]),
     (Library ''HashTableEntryGetRow'', [OT_Local, OT_Local]),
     (Library ''HashTableEntryGetNext'', [OT_Local, OT_Local]),
     (Library ''SorterInit'', [OT_Local, OT_Local, OT_FunctionId, OT_Local]),
     (Library ''SorterAllocTuple'', [OT_Local, OT_Local]),
     (Library ''SorterAllocTupleTopK'', [OT_Local, OT_Local, OT_Local]),
     (Library ''SorterAllocTupleTopKFinish'', [OT_Local, OT_Local]), (Library ''SorterSort'', [OT_Local]),
     (Library ''SorterSortParallel'', [OT_Local, OT_Local, OT_Local]),
     (Library ''SorterSortTopKParallel'', [OT_Local, OT_Local, OT_Local, OT_Local]),
     (Library ''SorterFree'', [OT_Local]), (Library ''SorterIteratorInit'', [OT_Local, OT_Local]),
     (Library ''SorterIteratorGetRow'', [OT_Local, OT_Local]),
     (Library ''SorterIteratorHasNext'', [OT_Local, OT_Local]), (Library ''SorterIteratorNext'', [OT_Local]),
     (Library ''SorterIteratorSkipRows'', [OT_Local, OT_Local]), (Library ''SorterIteratorFree'', [OT_Local]),
     (Library ''AnalysisStatsSetColumnCount'', [OT_Local, OT_Local]),
     (Library ''AnalysisStatsSetColumnBits'', [OT_Local, OT_Local, OT_Local]),
     (Library ''ResultBufferAllocOutputRow'', [OT_Local, OT_Local]), (Library ''ResultBufferFinalize'', [OT_Local]),
     (Library ''CSVReaderInit'', [OT_Local, OT_StaticLocal, OT_UImm4]),
     (Library ''CSVReaderPerformInit'', [OT_Local, OT_Local]), (Library ''CSVReaderAdvance'', [OT_Local, OT_Local]),
     (Library ''CSVReaderGetField'', [OT_Local, OT_Local, OT_Local]),
     (Library ''CSVReaderGetRecordNumber'', [OT_Local, OT_Local]), (Library ''CSVReaderClose'', [OT_Local])]"

definition FUNCTION_LIST :: "(Bytecode \<times> OperandType list) list" where
  "FUNCTION_LIST = [
     (Library ''Pi'', [OT_Local]), (Library ''E'', [OT_Local]), (Library ''Acos'', [OT_Local, OT_Local]),
     (Library ''Asin'', [OT_Local, OT_Local]), (Library ''Atan'', [OT_Local, OT_Local]),
     (Library ''Atan2'', [OT_Local, OT_Local, OT_Local]), (Library ''Cos'', [OT_Local, OT_Local]),
     (Library ''Cot'', [OT_Local, OT_Local]), (Library ''Sin'', [OT_Local, OT_Local]),
     (Library ''Tan'', [OT_Local, OT_Local]), (Library ''Cosh'', [OT_Local, OT_Local]),
     (Library ''Tanh'', [OT_Local, OT_Local]), (Library ''Sinh'', [OT_Local, OT_Local]),
     (Library ''Sqrt'', [OT_Local, OT_Local]), (Library ''Cbrt'', [OT_Local, OT_Local]),
     (Library ''Exp'', [OT_Local, OT_Local]), (Library ''Ceil'', [OT_Local, OT_Local]),
     (Library ''Floor'', [OT_Local, OT_Local]), (Library ''Truncate'', [OT_Local, OT_Local]),
     (Library ''Ln'', [OT_Local, OT_Local]), (Library ''Log2'', [OT_Local, OT_Local]),
     (Library ''Log10'', [OT_Local, OT_Local]), (Library ''Sign'', [OT_Local, OT_Local]),
     (Library ''Radians'', [OT_Local, OT_Local]), (Library ''Degrees'', [OT_Local, OT_Local]),
     (Library ''Round'', [OT_Local, OT_Local]), (Library ''RoundUpTo'', [OT_Local, OT_Local, OT_Local]),
     (Library ''Log'', [OT_Local, OT_Local, OT_Local]), (Library ''Pow'', [OT_Local, OT_Local, OT_Local]),
     (Library ''Concat'', [OT_Local, OT_Local, OT_Local, OT_UImm4]),
     (Library ''Left'', [OT_Local, OT_Local, OT_Local, OT_Local]),
     (Library ''Length'', [OT_Local, OT_Local, OT_Local]), (Library ''Like'', [OT_Local, OT_Local, OT_Local]),
     (Library ''Lower'', [OT_Local, OT_Local, OT_Local]),
     (Library ''LPad'', [OT_Local, OT_Local, OT_Local, OT_Local, OT_Local]),
     (Library ''LTrim'', [OT_Local, OT_Local, OT_Local, OT_Local]),
     (Library ''Repeat'', [OT_Local, OT_Local, OT_Local, OT_Local]),
     (Library ''Reverse'', [OT_Local, OT_Local, OT_Local]),
     (Library ''Right'', [OT_Local, OT_Local, OT_Local, OT_Local]),
     (Library ''RPad'', [OT_Local, OT_Local, OT_Local, OT_Local, OT_Local]),
     (Library ''RTrim'', [OT_Local, OT_Local, OT_Local, OT_Local]),
     (Library ''SplitPart'', [OT_Local, OT_Local, OT_Local, OT_Local, OT_Local]),
     (Library ''Substring'', [OT_Local, OT_Local, OT_Local, OT_Local, OT_Local]),
     (Library ''Trim'', [OT_Local, OT_Local, OT_Local, OT_Local]),
     (Library ''Upper'', [OT_Local, OT_Local, OT_Local]), (Library ''ExtractYear'', [OT_Local, OT_Local])]"

definition LIBRARY_LIST :: "(Bytecode \<times> OperandType list) list" where
  "LIBRARY_LIST = SCAN_LIST @ SQL_VALUE_LIST @ STORAGE_LIST @ AGGREGATE_LIST @ OPERATOR_LIST @ FUNCTION_LIST"

definition BYTECODE_LIST :: "(Bytecode \<times> OperandType list) list" where
  "BYTECODE_LIST = TYPED_LIST @ CORE_LIST @ LIBRARY_LIST"

text \<open>The value of an enumerator is its position in the list.\<close>

definition bytecode_index :: "Bytecode \<Rightarrow> nat" where
  "bytecode_index b = length (takeWhile (\<lambda>(b', _). b' \<noteq> b) BYTECODE_LIST)"

definition ToByte :: "Bytecode \<Rightarrow> u32" where
  "ToByte b = of_nat (bytecode_index b)"

definition FromByte :: "u32 \<Rightarrow> Bytecode option" where
  "FromByte val = do { (b, _) \<leftarrow> vec_at BYTECODE_LIST (unat val); Some b }"

definition GetOperandTypes :: "Bytecode \<Rightarrow> OperandType list" where
  "GetOperandTypes b = (case map_of BYTECODE_LIST b of Some ts \<Rightarrow> ts | None \<Rightarrow> [])"

definition NumOperands :: "Bytecode \<Rightarrow> nat" where
  "NumOperands b = length (GetOperandTypes b)"

definition GetNthOperandType :: "Bytecode \<Rightarrow> nat \<Rightarrow> OperandType option" where
  "GetNthOperandType b operand_index = vec_at (GetOperandTypes b) operand_index"

definition GetNthOperandSize :: "Bytecode \<Rightarrow> nat \<Rightarrow> nat option" where
  "GetNthOperandSize b operand_index = map_option kSize (GetNthOperandType b operand_index)"

text \<open>The size of the enumeration, whose underlying type is \<^verbatim>\<open>uint32_t\<close>.\<close>

definition kOpSize :: nat where
  "kOpSize = 4"

definition GetNthOperandOffset :: "Bytecode \<Rightarrow> nat \<Rightarrow> nat option" where
  "GetNthOperandOffset b operand_index = do {
     tpl_assert (operand_index < NumOperands b);
     Some (fold (\<lambda>i offset. offset + kSize (GetOperandTypes b ! i)) [0..<operand_index] kOpSize) }"

definition IsUnconditionalJump :: "Bytecode \<Rightarrow> bool" where
  "IsUnconditionalJump b \<longleftrightarrow> b = Core Jump"

definition IsConditionalJump :: "Bytecode \<Rightarrow> bool" where
  "IsConditionalJump b \<longleftrightarrow> b = Core JumpIfFalse \<or> b = Core JumpIfTrue"

definition IsJump :: "Bytecode \<Rightarrow> bool" where
  "IsJump b \<longleftrightarrow> IsConditionalJump b \<or> IsUnconditionalJump b"

definition IsReturn :: "Bytecode \<Rightarrow> bool" where
  "IsReturn b \<longleftrightarrow> b = Core Return"

definition IsTerminal :: "Bytecode \<Rightarrow> bool" where
  "IsTerminal b \<longleftrightarrow> IsJump b \<or> IsReturn b"

section \<open>Local variables\<close>

datatype AddressMode = Address | Value

record LocalVar =
  lv_bitfield :: u32

definition mode_bit :: "AddressMode \<Rightarrow> u32" where
  "mode_bit m = (case m of Address \<Rightarrow> 0 | Value \<Rightarrow> 1)"

text \<open>The addressing mode is bit 0, the offset the 31 bits above it.\<close>

definition LocalVar_new :: "u32 \<Rightarrow> AddressMode \<Rightarrow> LocalVar" where
  "LocalVar_new offset address_mode = \<lparr>lv_bitfield = mode_bit address_mode OR push_bit 1 offset\<rparr>"

definition kInvalidLocalOffset :: u32 where
  "kInvalidLocalOffset = drop_bit 1 (- 1)"

definition LocalVar_invalid :: LocalVar where
  "LocalVar_invalid = LocalVar_new kInvalidLocalOffset Address"

definition GetAddressMode :: "LocalVar \<Rightarrow> AddressMode" where
  "GetAddressMode v = (if bit (lv_bitfield v) 0 then Value else Address)"

definition LocalVar_GetOffset :: "LocalVar \<Rightarrow> u32" where
  "LocalVar_GetOffset v = drop_bit 1 (lv_bitfield v AND push_bit 1 (mask 31))"

definition LocalVar_Encode :: "LocalVar \<Rightarrow> u32" where
  "LocalVar_Encode v = lv_bitfield v"

definition LocalVar_Decode :: "u32 \<Rightarrow> LocalVar" where
  "LocalVar_Decode encoded_var = \<lparr>lv_bitfield = encoded_var\<rparr>"

definition ValueOf :: "LocalVar \<Rightarrow> LocalVar" where
  "ValueOf v = LocalVar_new (LocalVar_GetOffset v) Value"

definition AddressOf :: "LocalVar \<Rightarrow> LocalVar" where
  "AddressOf v = LocalVar_new (LocalVar_GetOffset v) Address"

definition LocalVar_IsInvalid :: "LocalVar \<Rightarrow> bool" where
  "LocalVar_IsInvalid v \<longleftrightarrow> LocalVar_GetOffset v = kInvalidLocalOffset"

definition LocalVar_eq :: "LocalVar \<Rightarrow> LocalVar \<Rightarrow> bool" where
  "LocalVar_eq v w \<longleftrightarrow> LocalVar_GetOffset v = LocalVar_GetOffset w \<and> GetAddressMode v = GetAddressMode w"

section \<open>Labels\<close>

text \<open>Positions in the array are natural numbers; the largest \<^verbatim>\<open>size_t\<close> marks a label that is not bound.\<close>

record BytecodeLabel =
  lb_offset :: nat
  referrer_offsets :: "nat list"
  lb_bound :: bool

definition kInvalidOffset :: nat where
  "kInvalidOffset = 2 ^ 64 - 1"

definition BytecodeLabel_new :: BytecodeLabel where
  "BytecodeLabel_new = \<lparr>lb_offset = kInvalidOffset, referrer_offsets = [], lb_bound = False\<rparr>"

definition IsForwardTarget :: "BytecodeLabel \<Rightarrow> bool" where
  "IsForwardTarget l \<longleftrightarrow> \<not> lb_bound l \<and> referrer_offsets l \<noteq> []"

definition SetReferrer :: "nat \<Rightarrow> BytecodeLabel \<Rightarrow> BytecodeLabel option" where
  "SetReferrer offset l = do {
     tpl_assert (\<not> lb_bound l);
     Some (l\<lparr>referrer_offsets := referrer_offsets l @ [offset]\<rparr>) }"

definition BindTo :: "nat \<Rightarrow> BytecodeLabel \<Rightarrow> BytecodeLabel option" where
  "BindTo offset l = do {
     tpl_assert (\<not> lb_bound l \<and> offset \<noteq> kInvalidOffset);
     Some (l\<lparr>lb_bound := True, lb_offset := offset\<rparr>) }"

section \<open>The emitter\<close>

text \<open>The bytes of a scalar in memory, and the scalar that bytes represent.\<close>

definition le_bytes :: "nat \<Rightarrow> 'a::len word \<Rightarrow> u8 list" where
  "le_bytes n w = map (\<lambda>i. ucast (drop_bit (8 * i) w)) [0..<n]"

fun le_word :: "u8 list \<Rightarrow> 'a::len word" where
  "le_word [] = 0"
| "le_word (b # bs) = ucast b OR push_bit 8 (le_word bs)"

text \<open>The arguments that \<^verbatim>\<open>EmitImpl\<close> is called with, by their width.\<close>

datatype Scalar = S8 "8 word" | S16 "16 word" | S32 "32 word" | S64 "64 word" | SLocal LocalVar

fun scalar_bytes :: "Scalar \<Rightarrow> u8 list" where
  "scalar_bytes (S8 w) = le_bytes 1 w"
| "scalar_bytes (S16 w) = le_bytes 2 w"
| "scalar_bytes (S32 w) = le_bytes 4 w"
| "scalar_bytes (S64 w) = le_bytes 8 w"
| "scalar_bytes (SLocal v) = le_bytes 4 (LocalVar_Encode v)"

type_synonym bytecode_array = "u8 list"

definition GetPosition :: "bytecode_array \<Rightarrow> nat" where
  "GetPosition bytecode = length bytecode"

definition EmitScalarValue :: "Scalar \<Rightarrow> bytecode_array \<Rightarrow> bytecode_array" where
  "EmitScalarValue val bytecode = bytecode @ scalar_bytes val"

definition EmitOp :: "Bytecode \<Rightarrow> bytecode_array \<Rightarrow> bytecode_array" where
  "EmitOp b bytecode = EmitScalarValue (S32 (ToByte b)) bytecode"

definition EmitAll :: "Bytecode \<Rightarrow> Scalar list \<Rightarrow> bytecode_array \<Rightarrow> bytecode_array" where
  "EmitAll b args bytecode = fold EmitScalarValue args (EmitOp b bytecode)"

abbreviation SLocals :: "LocalVar list \<Rightarrow> Scalar list" where
  "SLocals \<equiv> map SLocal"

definition EmitDeref :: "Bytecode \<Rightarrow> LocalVar \<Rightarrow> LocalVar \<Rightarrow> bytecode_array \<Rightarrow> bytecode_array option" where
  "EmitDeref b dest src bytecode = do {
     tpl_assert (b \<in> {Core Deref1, Core Deref2, Core Deref4, Core Deref8});
     Some (EmitAll b [SLocal dest, SLocal src] bytecode) }"

definition EmitDerefN :: "LocalVar \<Rightarrow> LocalVar \<Rightarrow> u32 \<Rightarrow> bytecode_array \<Rightarrow> bytecode_array" where
  "EmitDerefN dest src len = EmitAll (Core DerefN) [SLocal dest, SLocal src, S32 len]"

definition EmitAssign :: "Bytecode \<Rightarrow> LocalVar \<Rightarrow> LocalVar \<Rightarrow> bytecode_array \<Rightarrow> bytecode_array option" where
  "EmitAssign b dest src bytecode = do {
     tpl_assert (b \<in> {Core Assign1, Core Assign2, Core Assign4, Core Assign8});
     Some (EmitAll b [SLocal dest, SLocal src] bytecode) }"

definition EmitAssignN :: "LocalVar \<Rightarrow> LocalVar \<Rightarrow> u32 \<Rightarrow> bytecode_array \<Rightarrow> bytecode_array" where
  "EmitAssignN dest src len = EmitAll (Core AssignN) [SLocal dest, SLocal src, S32 len]"

definition EmitAssignImm1 :: "LocalVar \<Rightarrow> 8 word \<Rightarrow> bytecode_array \<Rightarrow> bytecode_array" where
  "EmitAssignImm1 dest val = EmitAll (Core AssignImm1) [SLocal dest, S8 val]"

definition EmitAssignImm2 :: "LocalVar \<Rightarrow> 16 word \<Rightarrow> bytecode_array \<Rightarrow> bytecode_array" where
  "EmitAssignImm2 dest val = EmitAll (Core AssignImm2) [SLocal dest, S16 val]"

definition EmitAssignImm4 :: "LocalVar \<Rightarrow> 32 word \<Rightarrow> bytecode_array \<Rightarrow> bytecode_array" where
  "EmitAssignImm4 dest val = EmitAll (Core AssignImm4) [SLocal dest, S32 val]"

definition EmitAssignImm8 :: "LocalVar \<Rightarrow> 64 word \<Rightarrow> bytecode_array \<Rightarrow> bytecode_array" where
  "EmitAssignImm8 dest val = EmitAll (Core AssignImm8) [SLocal dest, S64 val]"

definition EmitAssignImm4F :: "LocalVar \<Rightarrow> 32 word \<Rightarrow> bytecode_array \<Rightarrow> bytecode_array" where
  "EmitAssignImm4F dest val = EmitAll (Core AssignImm4F) [SLocal dest, S32 val]"

definition EmitAssignImm8F :: "LocalVar \<Rightarrow> 64 word \<Rightarrow> bytecode_array \<Rightarrow> bytecode_array" where
  "EmitAssignImm8F dest val = EmitAll (Core AssignImm8F) [SLocal dest, S64 val]"

definition EmitUnaryOp :: "Bytecode \<Rightarrow> LocalVar \<Rightarrow> LocalVar \<Rightarrow> bytecode_array \<Rightarrow> bytecode_array" where
  "EmitUnaryOp b dest input = EmitAll b [SLocal dest, SLocal input]"

definition EmitBinaryOp :: "Bytecode \<Rightarrow> LocalVar \<Rightarrow> LocalVar \<Rightarrow> LocalVar \<Rightarrow> bytecode_array \<Rightarrow> bytecode_array" where
  "EmitBinaryOp b dest lhs rhs = EmitAll b [SLocal dest, SLocal lhs, SLocal rhs]"

definition EmitLea :: "LocalVar \<Rightarrow> LocalVar \<Rightarrow> u32 \<Rightarrow> bytecode_array \<Rightarrow> bytecode_array" where
  "EmitLea dest src offset = EmitAll (Core Lea) [SLocal dest, SLocal src, S32 offset]"

definition EmitLeaScaled :: "LocalVar \<Rightarrow> LocalVar \<Rightarrow> LocalVar \<Rightarrow> u32 \<Rightarrow> u32 \<Rightarrow> bytecode_array \<Rightarrow> bytecode_array" where
  "EmitLeaScaled dest src index scale offset =
     EmitAll (Core LeaScaled) [SLocal dest, SLocal src, SLocal index, S32 scale, S32 offset]"

definition EmitCall :: "u16 \<Rightarrow> LocalVar list \<Rightarrow> bytecode_array \<Rightarrow> bytecode_array option" where
  "EmitCall func_id params bytecode = do {
     tpl_assert (length params < 2 ^ 16 - 1);
     Some (fold EmitScalarValue (SLocals params)
       (EmitAll (Core Call) [S16 func_id, S16 (of_nat (length params))] bytecode)) }"

definition EmitReturn :: "bytecode_array \<Rightarrow> bytecode_array" where
  "EmitReturn = EmitOp (Core Return)"

text \<open>\<^verbatim>\<open>Emit\<close> with one to five locals: the operands must be as many, and locals.\<close>

definition Emit :: "Bytecode \<Rightarrow> LocalVar list \<Rightarrow> bytecode_array \<Rightarrow> bytecode_array option" where
  "Emit b operands bytecode = do {
     tpl_assert (NumOperands b = length operands);
     tpl_assert (list_all (\<lambda>t. t = OT_Local) (GetOperandTypes b));
     Some (EmitAll b (SLocals operands) bytecode) }"

text \<open>Instructions with special operands. A function identifier has 16 bits.\<close>

definition EmitInitString ::
  "LocalVar \<Rightarrow> LocalVar \<Rightarrow> u32 \<Rightarrow> bytecode_array \<Rightarrow> bytecode_array" where
  "EmitInitString dest static_local_string string_len =
     EmitAll (Library ''InitString'')
       [SLocal dest, SLocal static_local_string, S32 string_len]"

definition EmitThreadStateContainerIterate ::
  "LocalVar \<Rightarrow> LocalVar \<Rightarrow> u16 \<Rightarrow> bytecode_array \<Rightarrow> bytecode_array" where
  "EmitThreadStateContainerIterate tls ctx iterate_fn =
     EmitAll (Library ''ThreadStateContainerIterate'')
       [SLocal tls, SLocal ctx, S16 iterate_fn]"

definition EmitThreadStateContainerReset ::
  "LocalVar \<Rightarrow> LocalVar \<Rightarrow> u16 \<Rightarrow> u16 \<Rightarrow> LocalVar \<Rightarrow> bytecode_array \<Rightarrow> bytecode_array" where
  "EmitThreadStateContainerReset tls state_size init_fn destroy_fn ctx =
     EmitAll (Library ''ThreadStateContainerReset'')
       [SLocal tls, SLocal state_size, S16 init_fn, S16 destroy_fn, SLocal ctx]"

definition EmitTableIterInit ::
  "Bytecode \<Rightarrow> LocalVar \<Rightarrow> u16 \<Rightarrow> bytecode_array \<Rightarrow> bytecode_array" where
  "EmitTableIterInit b iter table_id = EmitAll b [SLocal iter, S16 table_id]"

definition EmitParallelTableScan ::
  "u16 \<Rightarrow> LocalVar \<Rightarrow> LocalVar \<Rightarrow> u16 \<Rightarrow> bytecode_array \<Rightarrow> bytecode_array" where
  "EmitParallelTableScan table_id ctx thread_states scan_fn =
     EmitAll (Library ''ParallelScanTable'')
       [S16 table_id, SLocal ctx, SLocal thread_states, S16 scan_fn]"

definition EmitVPIGet ::
  "Bytecode \<Rightarrow> LocalVar \<Rightarrow> LocalVar \<Rightarrow> u32 \<Rightarrow> bytecode_array \<Rightarrow> bytecode_array" where
  "EmitVPIGet b out vpi col_idx = EmitAll b [SLocal out, SLocal vpi, S32 col_idx]"

definition EmitVPISet ::
  "Bytecode \<Rightarrow> LocalVar \<Rightarrow> LocalVar \<Rightarrow> u32 \<Rightarrow> bytecode_array \<Rightarrow> bytecode_array" where
  "EmitVPISet b vpi input col_idx = EmitAll b [SLocal vpi, SLocal input, S32 col_idx]"

definition EmitFilterManagerInsertFilter ::
  "LocalVar \<Rightarrow> u16 \<Rightarrow> bytecode_array \<Rightarrow> bytecode_array" where
  "EmitFilterManagerInsertFilter filter_manager func =
     EmitAll (Library ''FilterManagerInsertFilter'')
       [SLocal filter_manager, S16 func]"

definition EmitJoinHashTableInit ::
  "LocalVar \<Rightarrow> LocalVar \<Rightarrow> LocalVar \<Rightarrow> u16 \<Rightarrow> u16 \<Rightarrow> bytecode_array \<Rightarrow> bytecode_array" where
  "EmitJoinHashTableInit jht memory entry_size analysis_fn compress_fn =
     EmitAll (Library ''JoinHashTableInit2'')
       [SLocal jht, SLocal memory, SLocal entry_size, S16 analysis_fn, S16 compress_fn]"

definition EmitAggHashTableProcessBatch ::
  "LocalVar \<Rightarrow> LocalVar \<Rightarrow> u32 \<Rightarrow> LocalVar \<Rightarrow> u16 \<Rightarrow> u16 \<Rightarrow> LocalVar \<Rightarrow> bytecode_array \<Rightarrow> bytecode_array" where
  "EmitAggHashTableProcessBatch agg_ht vpi num_keys key_cols init_agg_fn merge_agg_fn partitioned =
     EmitAll (Library ''AggregationHashTableProcessBatch'')
       [SLocal agg_ht, SLocal vpi, S32 num_keys, SLocal key_cols, S16 init_agg_fn, S16 merge_agg_fn, SLocal partitioned]"

definition EmitAggHashTableMovePartitions ::
  "LocalVar \<Rightarrow> LocalVar \<Rightarrow> LocalVar \<Rightarrow> u16 \<Rightarrow> bytecode_array \<Rightarrow> bytecode_array" where
  "EmitAggHashTableMovePartitions agg_ht tls aht_offset merge_part_fn =
     EmitAll (Library ''AggregationHashTableTransferPartitions'')
       [SLocal agg_ht, SLocal tls, SLocal aht_offset, S16 merge_part_fn]"

definition EmitAggHashTableParallelPartitionedScan ::
  "LocalVar \<Rightarrow> LocalVar \<Rightarrow> LocalVar \<Rightarrow> u16 \<Rightarrow> bytecode_array \<Rightarrow> bytecode_array" where
  "EmitAggHashTableParallelPartitionedScan agg_ht ctx tls scan_part_fn =
     EmitAll (Library ''AggregationHashTableParallelPartitionedScan'')
       [SLocal agg_ht, SLocal ctx, SLocal tls, S16 scan_part_fn]"

definition EmitSorterInit ::
  "Bytecode \<Rightarrow> LocalVar \<Rightarrow> LocalVar \<Rightarrow> u16 \<Rightarrow> LocalVar \<Rightarrow> bytecode_array \<Rightarrow> bytecode_array" where
  "EmitSorterInit b sorter region cmp_fn tuple_size =
     EmitAll b
       [SLocal sorter, SLocal region, S16 cmp_fn, SLocal tuple_size]"

definition EmitCSVReaderInit ::
  "LocalVar \<Rightarrow> LocalVar \<Rightarrow> u32 \<Rightarrow> bytecode_array \<Rightarrow> bytecode_array" where
  "EmitCSVReaderInit reader file_name file_name_len =
     EmitAll (Library ''CSVReaderInit'')
       [SLocal reader, SLocal file_name, S32 file_name_len]"

definition EmitConcat ::
  "LocalVar \<Rightarrow> LocalVar \<Rightarrow> LocalVar \<Rightarrow> u32 \<Rightarrow> bytecode_array \<Rightarrow> bytecode_array" where
  "EmitConcat result exec_ctx strings num_strings =
     EmitAll (Library ''Concat'')
       [SLocal result, SLocal exec_ctx, SLocal strings, S32 num_strings]"

text \<open>The patch of one forward jump: four bytes at the position of its operand.\<close>

definition patch_jump :: "nat \<Rightarrow> nat \<Rightarrow> bytecode_array \<Rightarrow> bytecode_array option" where
  "patch_jump curr_offset jump_location bytecode = do {
     tpl_assert (jump_location < curr_offset);
     tpl_assert (curr_offset - jump_location < 2 ^ 31 - 1);
     let raw_delta = le_bytes 4 (of_nat (curr_offset - jump_location) :: u32);
     bytecode \<leftarrow> vec_put bytecode jump_location (raw_delta ! 0);
     bytecode \<leftarrow> vec_put bytecode (jump_location + 1) (raw_delta ! 1);
     bytecode \<leftarrow> vec_put bytecode (jump_location + 2) (raw_delta ! 2);
     vec_put bytecode (jump_location + 3) (raw_delta ! 3) }"

definition Bind :: "BytecodeLabel \<Rightarrow> bytecode_array \<Rightarrow> (BytecodeLabel \<times> bytecode_array) option" where
  "Bind label bytecode = do {
     tpl_assert (\<not> lb_bound label);
     let curr_offset = GetPosition bytecode;
     bytecode \<leftarrow> (if IsForwardTarget label
                 then fold_opt (patch_jump curr_offset) (referrer_offsets label) bytecode
                 else Some bytecode);
     label \<leftarrow> BindTo curr_offset label;
     Some (label, bytecode) }"

definition kJumpPlaceholder :: u32 where
  "kJumpPlaceholder = 2 ^ 31 - 2"

definition EmitJump_label :: "BytecodeLabel \<Rightarrow> bytecode_array \<Rightarrow> (BytecodeLabel \<times> bytecode_array) option" where
  "EmitJump_label label bytecode =
     (let curr_offset = GetPosition bytecode
      in if lb_bound label
         then do {
           tpl_assert (lb_offset label \<le> curr_offset);
           let delta = curr_offset - lb_offset label;
           tpl_assert (delta < 2 ^ 31 - 1);
           Some (label, EmitScalarValue (S32 (- of_nat delta)) bytecode) }
         else do {
           label \<leftarrow> SetReferrer curr_offset label;
           Some (label, EmitScalarValue (S32 kJumpPlaceholder) bytecode) })"

definition EmitJump :: "Bytecode \<Rightarrow> BytecodeLabel \<Rightarrow> bytecode_array \<Rightarrow> (BytecodeLabel \<times> bytecode_array) option" where
  "EmitJump b label bytecode = do {
     tpl_assert (IsJump b);
     EmitJump_label label (EmitAll b [] bytecode) }"

definition EmitConditionalJump ::
  "Bytecode \<Rightarrow> LocalVar \<Rightarrow> BytecodeLabel \<Rightarrow> bytecode_array \<Rightarrow> (BytecodeLabel \<times> bytecode_array) option" where
  "EmitConditionalJump b cond label bytecode = do {
     tpl_assert (IsJump b);
     EmitJump_label label (EmitAll b [SLocal cond] bytecode) }"

section \<open>The iterator\<close>

record BytecodeIterator =
  it_bytecodes :: bytecode_array
  start_offset :: nat
  end_offset :: nat
  curr_offset :: nat

definition BytecodeIterator_range :: "bytecode_array \<Rightarrow> nat \<Rightarrow> nat \<Rightarrow> BytecodeIterator" where
  "BytecodeIterator_range bytecode start end_ofs =
     \<lparr>it_bytecodes = bytecode, start_offset = start, end_offset = end_ofs, curr_offset = start\<rparr>"

definition BytecodeIterator_new :: "bytecode_array \<Rightarrow> BytecodeIterator" where
  "BytecodeIterator_new bytecode = BytecodeIterator_range bytecode 0 (length bytecode)"

text \<open>A load of some bytes from the array.\<close>

definition load :: "nat \<Rightarrow> bytecode_array \<Rightarrow> nat \<Rightarrow> 'a::len word option" where
  "load n bytes pos = (if pos + n \<le> length bytes then Some (le_word (take n (drop pos bytes))) else None)"

definition CurrentBytecode :: "BytecodeIterator \<Rightarrow> Bytecode option" where
  "CurrentBytecode it = do { raw_code \<leftarrow> load 4 (it_bytecodes it) (curr_offset it); FromByte raw_code }"

definition BytecodeIterator_Done :: "BytecodeIterator \<Rightarrow> bool" where
  "BytecodeIterator_Done it \<longleftrightarrow> curr_offset it \<ge> end_offset it"

text \<open>The type and the position of an operand of the current instruction.\<close>

definition operand_address :: "BytecodeIterator \<Rightarrow> nat \<Rightarrow> (OperandType \<times> nat) option" where
  "operand_address it operand_index = do {
     b \<leftarrow> CurrentBytecode it;
     t \<leftarrow> GetNthOperandType b operand_index;
     offset \<leftarrow> GetNthOperandOffset b operand_index;
     Some (t, curr_offset it + offset) }"

definition GetImmediateIntegerOperand :: "BytecodeIterator \<Rightarrow> nat \<Rightarrow> 64 word option" where
  "GetImmediateIntegerOperand it operand_index = do {
     (t, pos) \<leftarrow> operand_address it operand_index;
     tpl_assert (IsSignedIntegerImmediate t);
     case t of
       OT_Imm1 \<Rightarrow> map_option (scast :: 8 word \<Rightarrow> 64 word) (load 1 (it_bytecodes it) pos)
     | OT_Imm2 \<Rightarrow> map_option (scast :: 16 word \<Rightarrow> 64 word) (load 2 (it_bytecodes it) pos)
     | OT_Imm4 \<Rightarrow> map_option (scast :: 32 word \<Rightarrow> 64 word) (load 4 (it_bytecodes it) pos)
     | OT_Imm8 \<Rightarrow> load 8 (it_bytecodes it) pos
     | _ \<Rightarrow> None }"

text \<open>The bit pattern of a floating-point immediate; the source converts a float to a double.\<close>

definition GetImmediateFloatOperand :: "BytecodeIterator \<Rightarrow> nat \<Rightarrow> (32 word + 64 word) option" where
  "GetImmediateFloatOperand it operand_index = do {
     (t, pos) \<leftarrow> operand_address it operand_index;
     tpl_assert (IsFloatImmediate t);
     case t of
       OT_Imm4F \<Rightarrow> map_option Inl (load 4 (it_bytecodes it) pos)
     | OT_Imm8F \<Rightarrow> map_option Inr (load 8 (it_bytecodes it) pos)
     | _ \<Rightarrow> None }"

definition GetUnsignedImmediateIntegerOperand :: "BytecodeIterator \<Rightarrow> nat \<Rightarrow> 64 word option" where
  "GetUnsignedImmediateIntegerOperand it operand_index = do {
     (t, pos) \<leftarrow> operand_address it operand_index;
     tpl_assert (IsUnsignedIntegerImmediate t);
     case t of
       OT_UImm2 \<Rightarrow> map_option (ucast :: 16 word \<Rightarrow> 64 word) (load 2 (it_bytecodes it) pos)
     | OT_UImm4 \<Rightarrow> map_option (ucast :: 32 word \<Rightarrow> 64 word) (load 4 (it_bytecodes it) pos)
     | _ \<Rightarrow> None }"

definition GetJumpOffsetOperand :: "BytecodeIterator \<Rightarrow> nat \<Rightarrow> 32 word option" where
  "GetJumpOffsetOperand it operand_index = do {
     (t, pos) \<leftarrow> operand_address it operand_index;
     tpl_assert (t = OT_JumpOffset);
     load 4 (it_bytecodes it) pos }"

definition GetLocalOperand :: "BytecodeIterator \<Rightarrow> nat \<Rightarrow> LocalVar option" where
  "GetLocalOperand it operand_index = do {
     (t, pos) \<leftarrow> operand_address it operand_index;
     tpl_assert (t = OT_Local);
     encoded_val \<leftarrow> load 4 (it_bytecodes it) pos;
     Some (LocalVar_Decode encoded_val) }"

definition GetStaticLocalOperand :: "BytecodeIterator \<Rightarrow> nat \<Rightarrow> LocalVar option" where
  "GetStaticLocalOperand it operand_index = do {
     (t, pos) \<leftarrow> operand_address it operand_index;
     tpl_assert (t = OT_StaticLocal);
     encoded_val \<leftarrow> load 4 (it_bytecodes it) pos;
     Some (LocalVar_Decode encoded_val) }"

text \<open>The locals that follow a count.\<close>

fun read_locals :: "bytecode_array \<Rightarrow> nat \<Rightarrow> nat \<Rightarrow> LocalVar list option" where
  "read_locals bytes 0 pos = Some []"
| "read_locals bytes (Suc n) pos = do {
     encoded_val \<leftarrow> load 4 bytes pos;
     vs \<leftarrow> read_locals bytes n (pos + kSize OT_Local);
     Some (LocalVar_Decode encoded_val # vs) }"

definition GetLocalCountOperand :: "BytecodeIterator \<Rightarrow> nat \<Rightarrow> LocalVar list option" where
  "GetLocalCountOperand it operand_index = do {
     (t, pos) \<leftarrow> operand_address it operand_index;
     tpl_assert (t = OT_LocalCount);
     num_locals \<leftarrow> load 2 (it_bytecodes it) pos;
     read_locals (it_bytecodes it) (unat (num_locals :: u16)) (pos + kSize OT_LocalCount) }"

definition GetFunctionIdOperand :: "BytecodeIterator \<Rightarrow> nat \<Rightarrow> u16 option" where
  "GetFunctionIdOperand it operand_index = do {
     (t, pos) \<leftarrow> operand_address it operand_index;
     tpl_assert (t = OT_FunctionId);
     load 2 (it_bytecodes it) pos }"

definition operand_size :: "BytecodeIterator \<Rightarrow> nat \<Rightarrow> nat option" where
  "operand_size it i = do {
     b \<leftarrow> CurrentBytecode it;
     n \<leftarrow> GetNthOperandSize b i;
     t \<leftarrow> GetNthOperandType b i;
     if t = OT_LocalCount
     then do { locals \<leftarrow> GetLocalCountOperand it i; Some (n + length locals * kSize OT_Local) }
     else Some n }"

definition CurrentBytecodeSize :: "BytecodeIterator \<Rightarrow> nat option" where
  "CurrentBytecodeSize it = do {
     b \<leftarrow> CurrentBytecode it;
     fold_opt (\<lambda>i size. do { n \<leftarrow> operand_size it i; Some (size + n) }) [0..<NumOperands b] kOpSize }"

definition BytecodeIterator_Advance :: "BytecodeIterator \<Rightarrow> BytecodeIterator option" where
  "BytecodeIterator_Advance it = do { n \<leftarrow> CurrentBytecodeSize it; Some (it\<lparr>curr_offset := curr_offset it + n\<rparr>) }"

definition BytecodeIterator_GetPosition :: "BytecodeIterator \<Rightarrow> nat" where
  "BytecodeIterator_GetPosition it = curr_offset it - start_offset it"

definition BytecodeIterator_SetPosition :: "nat \<Rightarrow> BytecodeIterator \<Rightarrow> BytecodeIterator" where
  "BytecodeIterator_SetPosition pos it = it\<lparr>curr_offset := start_offset it + pos\<rparr>"

section \<open>Functions\<close>

datatype LocalKind = LocalKind_Var | LocalKind_Parameter

record LocalInfo =
  li_name :: string
  li_type :: Type
  li_offset :: u32
  li_size :: u32
  li_kind :: LocalKind

record FunctionInfo =
  fi_id :: u16
  fi_name :: string
  fi_type :: "Field list \<times> Type"
  bytecode_range :: "nat \<times> nat"
  fi_locals :: "LocalInfo list"
  frame_size :: u64
  params_start_pos :: u64
  params_size :: u64
  num_params :: u32
  num_temps :: u32

definition FunctionInfo_new :: "u16 \<Rightarrow> string \<Rightarrow> Field list \<times> Type \<Rightarrow> FunctionInfo" where
  "FunctionInfo_new func_id name func_type = \<lparr>fi_id = func_id, fi_name = name, fi_type = func_type,
     bytecode_range = (0, 0), fi_locals = [], frame_size = 0, params_start_pos = 0, params_size = 0, num_params = 0,
     num_temps = 0\<rparr>"

definition NewLocal_kind ::
  "llvm \<Rightarrow> abi \<Rightarrow> Type \<Rightarrow> string \<Rightarrow> LocalKind \<Rightarrow> FunctionInfo \<Rightarrow> (LocalVar \<times> FunctionInfo) option" where
  "NewLocal_kind L A type name kind f = do {
     tpl_assert (name \<noteq> []);
     (type_size, type_align) \<leftarrow> type_layout L A type;
     aligned \<leftarrow> IsAligned L (frame_size f) (ucast type_align);
     let size = (if \<not> aligned then AlignTo L (frame_size f) (ucast type_align) else frame_size f);
     let offset = ucast size;
     Some (LocalVar_new offset Address,
       f\<lparr>fi_locals := fi_locals f @ [\<lparr>li_name = name, li_type = type, li_offset = offset, li_size = type_size, li_kind = kind\<rparr>],
         frame_size := size + ucast type_size\<rparr>) }"

definition NewParameterLocal :: "llvm \<Rightarrow> abi \<Rightarrow> Type \<Rightarrow> string \<Rightarrow> FunctionInfo \<Rightarrow> (LocalVar \<times> FunctionInfo) option" where
  "NewParameterLocal L A type name f = do {
     (local, f) \<leftarrow> NewLocal_kind L A type name LocalKind_Parameter f;
     Some (local, f\<lparr>num_params := num_params f + 1, params_size := frame_size f\<rparr>) }"

definition NewLocal :: "llvm \<Rightarrow> abi \<Rightarrow> Type \<Rightarrow> string \<Rightarrow> FunctionInfo \<Rightarrow> (LocalVar \<times> FunctionInfo) option" where
  "NewLocal L A type name f =
     (if name = []
      then (let f = f\<lparr>num_temps := num_temps f + 1\<rparr>
            in NewLocal_kind L A type (''tmp'' @ to_string (unat (num_temps f))) LocalKind_Var f)
      else NewLocal_kind L A type name LocalKind_Var f)"

definition GetReturnValueLocal :: "FunctionInfo \<Rightarrow> LocalVar option" where
  "GetReturnValueLocal f = do {
     tpl_assert (\<not> IsNilType (snd (fi_type f)));
     Some (LocalVar_new 0 Address) }"

definition LookupLocalInfoByName :: "string \<Rightarrow> FunctionInfo \<Rightarrow> LocalInfo option" where
  "LookupLocalInfoByName name f = find (\<lambda>info. li_name info = name) (fi_locals f)"

definition LookupLocal_var :: "string \<Rightarrow> FunctionInfo \<Rightarrow> LocalVar" where
  "LookupLocal_var name f =
     (case LookupLocalInfoByName name f of
        Some info \<Rightarrow> LocalVar_new (li_offset info) Address
      | None \<Rightarrow> LocalVar_invalid)"

definition LookupLocalInfoByOffset :: "u32 \<Rightarrow> FunctionInfo \<Rightarrow> LocalInfo option" where
  "LookupLocalInfoByOffset offset f = find (\<lambda>info. li_offset info = offset) (fi_locals f)"

definition SetBytecodeRange :: "nat \<Rightarrow> nat \<Rightarrow> FunctionInfo \<Rightarrow> FunctionInfo option" where
  "SetBytecodeRange start_ofs end_ofs f = do {
     tpl_assert (start_ofs < end_ofs);
     Some (f\<lparr>bytecode_range := (start_ofs, end_ofs)\<rparr>) }"

end
