(* ===== verification/BytecodeCorrect.thy ===== *)
theory BytecodeCorrect
  imports Bytecodes
begin

text \<open>
  Correctness of the bytecode emitter and the iterator, and of the layout of frames.

  Back-patching is compared with an assembler of two passes: the first finds the positions of the labels, the second
  writes every instruction with its final operands. The bytes the emitter leaves are those of this assembler, and the
  iterator decodes them to the instructions and operands that were emitted. The frame of a function is compared with
  the layout of a struct (\<open>placed_fields\<close> of the theory \<open>Types\<close>).
\<close>

section \<open>Bytes of scalars\<close>

lemma length_le_bytes [simp]: "length (le_bytes n w) = n"
  by (simp add: le_bytes_def)

lemma bit_le_word: "bit (le_word bs :: 'a::len word) i \<longleftrightarrow> i < LENGTH('a) \<and> i < 8 * length bs \<and> bit (bs ! (i div 8)) (i mod 8)"
proof (induction bs arbitrary: i)
  case (Cons b bs)
  have "i - 8 < 8 * length bs \<and> bit (bs ! ((i - 8) div 8)) ((i - 8) mod 8) \<longleftrightarrow>
      i < 8 * length (b # bs) \<and> bit ((b # bs) ! (i div 8)) (i mod 8)" if "8 \<le> i"
    using that by (auto simp: le_div_geq le_mod_geq)
  moreover have "\<not> bit b i" if "8 \<le> i"
    using that bit_imp_le_length [of b i] by auto
  ultimately show ?case
    by (cases "8 \<le> i") (auto simp: bit_or_iff bit_unsigned_iff bit_push_bit_iff Cons.IH dest: bit_imp_le_length)
qed simp

lemma le_word_le_bytes [simp]:
  assumes "LENGTH('a) = 8 * n"
  shows "le_word (le_bytes n w) = (w :: 'a::len word)"
proof (rule bit_word_eqI)
  fix i
  assume i: "i < LENGTH('a)"
  then have d: "i div 8 < n" using assms by auto
  have m: "8 * (i div 8) + i mod 8 = i" by simp
  show "bit (le_word (le_bytes n w) :: 'a word) i = bit w i"
    using i d assms m by (auto simp: bit_le_word le_bytes_def bit_unsigned_iff bit_drop_bit_eq)
qed

lemma load_append:
  assumes "LENGTH('a) = 8 * n" and "pos = length pre"
  shows "load n (pre @ le_bytes n w @ post) pos = Some (w :: 'a::len word)"
  using assms by (simp add: load_def)

lemma LENGTH_bytes: "LENGTH(8) = 8 * 1" "LENGTH(16) = 8 * 2" "LENGTH(32) = 8 * 4" "LENGTH(64) = 8 * 8"
  by simp_all

lemmas load_scalar = load_append [where 'a = 8 and n = 1, OF LENGTH_bytes(1)] load_append [where 'a = 16 and n = 2, OF LENGTH_bytes(2)]
  load_append [where 'a = 32 and n = 4, OF LENGTH_bytes(3)] load_append [where 'a = 64 and n = 8, OF LENGTH_bytes(4)]

lemma length_BYTECODE_LIST: "length BYTECODE_LIST < 2 ^ 32"
proof -
  have "length LIBRARY_LIST < 1000" 
    by (simp add: LIBRARY_LIST_def SCAN_LIST_def SQL_VALUE_LIST_def STORAGE_LIST_def AGGREGATE_LIST_def OPERATOR_LIST_def
      FUNCTION_LIST_def)
  moreover have "length CORE_LIST < 1000" by (simp add: CORE_LIST_def)
  moreover have "length TYPED_LIST < 1000"
    by (simp add: TYPED_LIST_def ALL_TYPES_def ALL_NUMERIC_TYPES_def INT_TYPES_def UINT_TYPES_def)
  ultimately show ?thesis by (simp add: BYTECODE_LIST_def)
qed

lemma FromByte_ToByte:
  assumes "(b, ts) \<in> set BYTECODE_LIST"
  shows "FromByte (ToByte b) = Some b"
proof -
  note length_BYTECODE_LIST
  moreover have i: "bytecode_index b < length BYTECODE_LIST"
  proof -
    have "takeWhile (\<lambda>(b', _). b' \<noteq> b) BYTECODE_LIST \<noteq> BYTECODE_LIST"
      using assms by (auto simp: takeWhile_eq_all_conv)
    then show ?thesis
      unfolding bytecode_index_def by (metis length_takeWhile_le le_neq_implies_less takeWhile_eq_take take_all_iff order_refl)
  qed
  moreover have "fst (BYTECODE_LIST ! bytecode_index b) = b"
    using nth_length_takeWhile [of "\<lambda>(b', _). b' \<noteq> b" BYTECODE_LIST] i unfolding bytecode_index_def
    by (auto split: prod.splits)
  moreover have "unat (of_nat (bytecode_index b) :: u32) = bytecode_index b"
    using i length_BYTECODE_LIST by (simp add: unsigned_of_nat take_bit_nat_eq_self)
  ultimately show ?thesis by (auto simp: FromByte_def ToByte_def checked split: prod.splits)
qed

lemma GetOperandTypes_in_list: "GetOperandTypes b \<noteq> [] \<Longrightarrow> \<exists>ts. (b, ts) \<in> set BYTECODE_LIST"
  by (auto simp: GetOperandTypes_def split: option.splits dest: map_of_SomeD)

section \<open>Back-patching\<close>

text \<open>
  What the code generator does with the emitter: it emits instructions, calls and jumps to labels, and binds
  labels. Labels are numbered.
\<close>

datatype Action =
    Instruction Bytecode "Scalar list"
  | CallFunction u16 "LocalVar list"
  | JumpTo Bytecode nat
  | ConditionalJumpTo Bytecode LocalVar nat
  | BindLabel nat

type_synonym labels = "nat \<Rightarrow> BytecodeLabel"

fun perform :: "Action \<Rightarrow> labels \<times> bytecode_array \<Rightarrow> (labels \<times> bytecode_array) option" where
  "perform (Instruction b args) (ls, bytes) = Some (ls, EmitAll b args bytes)"
| "perform (CallFunction f params) (ls, bytes) = do { bytes \<leftarrow> EmitCall f params bytes; Some (ls, bytes) }"
| "perform (JumpTo b l) (ls, bytes) = do { (lb, bytes) \<leftarrow> EmitJump b (ls l) bytes; Some (ls(l := lb), bytes) }"
| "perform (ConditionalJumpTo b v l) (ls, bytes) = do {
     (lb, bytes) \<leftarrow> EmitConditionalJump b v (ls l) bytes;
     Some (ls(l := lb), bytes) }"
| "perform (BindLabel l) (ls, bytes) = do { (lb, bytes) \<leftarrow> Bind (ls l) bytes; Some (ls(l := lb), bytes) }"

definition perform_all :: "Action list \<Rightarrow> (labels \<times> bytecode_array) option" where
  "perform_all acts = fold_opt perform acts (\<lambda>_. BytecodeLabel_new, [])"

text \<open>
  The specification: an assembler of two passes. Given the position of every label, an action gives the bytes at its
  position; the offset of a jump is the distance from its operand to the label.
\<close>

definition jump_delta :: "(nat \<Rightarrow> nat option) \<Rightarrow> nat \<Rightarrow> nat \<Rightarrow> u32" where
  "jump_delta target l pos =
     (case target l of Some t \<Rightarrow> of_int (int t - int pos) | None \<Rightarrow> kJumpPlaceholder)"

definition instruction_bytes :: "Bytecode \<Rightarrow> Scalar list \<Rightarrow> u8 list" where
  "instruction_bytes b args = le_bytes 4 (ToByte b) @ concat (map scalar_bytes args)"

fun action_bytes :: "(nat \<Rightarrow> nat option) \<Rightarrow> nat \<Rightarrow> Action \<Rightarrow> u8 list" where
  "action_bytes target pos (Instruction b args) = instruction_bytes b args"
| "action_bytes target pos (CallFunction f params) =
     instruction_bytes (Core Call) ([S16 f, S16 (of_nat (length params))] @ SLocals params)"
| "action_bytes target pos (JumpTo b l) = instruction_bytes b [S32 (jump_delta target l (pos + 4))]"
| "action_bytes target pos (ConditionalJumpTo b v l) =
     instruction_bytes b [SLocal v, S32 (jump_delta target l (pos + 8))]"
| "action_bytes target pos (BindLabel l) = []"

fun assemble :: "(nat \<Rightarrow> nat option) \<Rightarrow> nat \<Rightarrow> Action list \<Rightarrow> u8 list" where
  "assemble target pos [] = []"
| "assemble target pos (a # acts) =
     (let bytes = action_bytes target pos a in bytes @ assemble target (pos + length bytes) acts)"

definition action_size :: "Action \<Rightarrow> nat" where
  "action_size a = length (action_bytes (\<lambda>_. None) 0 a)"

lemma length_action_bytes [simp]: "length (action_bytes target pos a) = action_size a"
  by (cases a) (simp_all add: action_size_def instruction_bytes_def)

definition code_size :: "Action list \<Rightarrow> nat" where
  "code_size acts = sum_list (map action_size acts)"

lemma code_size_simps [simp]:
  "code_size [] = 0" "code_size (a # acts) = action_size a + code_size acts"
  "code_size (acts @ acts') = code_size acts + code_size acts'"
  by (simp_all add: code_size_def)

lemma length_assemble [simp]: "length (assemble target pos acts) = code_size acts"
  by (induction acts arbitrary: pos) (simp_all add: Let_def)

lemma assemble_append:
  "assemble target pos (acts @ acts') = assemble target pos acts @ assemble target (pos + code_size acts) acts'"
  by (induction acts arbitrary: pos) (simp_all add: Let_def add.assoc)

text \<open>The positions of the operands of the jumps to a label.\<close>

fun jump_positions :: "nat \<Rightarrow> nat \<Rightarrow> Action list \<Rightarrow> nat list" where
  "jump_positions l pos [] = []"
| "jump_positions l pos (a # acts) =
     (case a of
        JumpTo b l' \<Rightarrow> if l' = l then [pos + 4] else []
      | ConditionalJumpTo b v l' \<Rightarrow> if l' = l then [pos + 8] else []
      | _ \<Rightarrow> []) @ jump_positions l (pos + action_size a) acts"

lemma jump_positions_append:
  "jump_positions l pos (acts @ acts') = jump_positions l pos acts @ jump_positions l (pos + code_size acts) acts'"
  by (induction acts arbitrary: pos) (simp_all add: add.assoc)

lemma list_update_after: "n = length pre + k \<Longrightarrow> (pre @ xs)[n := y] = pre @ xs[k := y]"
  by (simp add: list_update_append)

lemma patch_jump_append:
  assumes "patch_jump c pos (pre @ le_bytes 4 w @ post) = Some bytes" and "pos = length pre"
  shows "bytes = pre @ le_bytes 4 (of_int (int c - int pos) :: u32) @ post"
proof -
  from assms have lt: "pos < c" by (auto simp: patch_jump_def checked split: if_splits)
  then have d: "(of_nat (c - pos) :: u32) = of_int (int c - int pos)" by simp
  obtain b0 b1 b2 b3 where b: "le_bytes 4 w = [b0, b1, b2, b3]"
    by (simp add: le_bytes_def upt_rec numeral_eq_Suc)
  obtain d0 d1 d2 d3 where dd: "le_bytes 4 (of_int (int c - int pos) :: u32) = [d0, d1, d2, d3]"
    by (simp add: le_bytes_def upt_rec numeral_eq_Suc)
  show ?thesis
    using assms lt unfolding patch_jump_def d dd b Let_def
    by (auto simp: checked list_update_append nth_append split: if_splits nat.splits)
qed

lemma patch_all:
  assumes "fold_opt (patch_jump c) (jump_positions l pos acts) (pre @ assemble target pos acts) = Some bytes"
    and "target l = None" and "pos = length pre" and t: "t l = Some c" "\<And>l'. l' \<noteq> l \<Longrightarrow> t l' = target l'"
  shows "bytes = pre @ assemble t pos acts"
  using assms(1,3)
proof (induction acts arbitrary: pre pos)
  case (Cons a acts)
  have rest: "bytes = pre @ p @ assemble t (pos + action_size a) acts"
    if "fold_opt (patch_jump c) (jump_positions l (pos + action_size a) acts)
        (pre @ p @ assemble target (pos + action_size a) acts) = Some bytes" "length p = action_size a" for p
    using Cons.IH [of "pos + action_size a" "pre @ p"] that Cons.prems(2) by simp
  have same: ?case if "jump_positions l pos (a # acts) = jump_positions l (pos + action_size a) acts"
    "action_bytes t pos a = action_bytes target pos a"
    using rest [of "action_bytes target pos a"] Cons.prems(1) that by (simp add: Let_def)
  have patched: ?case if jp: "jump_positions l pos (a # acts) = q # jump_positions l (pos + action_size a) acts"
    and old: "action_bytes target pos a = p @ le_bytes 4 w" and "q = pos + length p"
    and new: "action_bytes t pos a = p @ le_bytes 4 (of_int (int c - int q) :: u32)" for p w q
  proof -
    have sz: "action_size a = length p + 4" using arg_cong [OF old, of length] by simp
    from Cons.prems(1) jp old obtain bytes1 where
      b1: "patch_jump c q ((pre @ p) @ le_bytes 4 w @ assemble target (pos + action_size a) acts) = Some bytes1"
      and r: "fold_opt (patch_jump c) (jump_positions l (pos + action_size a) acts) bytes1 = Some bytes"
      by (auto simp: Let_def sz split: bind_splits)
    have "q = length (pre @ p)" using that(3) Cons.prems(2) by simp
    from patch_jump_append [OF b1 this] r new
    have "fold_opt (patch_jump c) (jump_positions l (pos + action_size a) acts)
        (pre @ action_bytes t pos a @ assemble target (pos + action_size a) acts) = Some bytes" by simp
    from rest [OF this] show ?case by (simp add: Let_def)
  qed
  show ?case
  proof (cases a)
    case (JumpTo b l')
    show ?thesis
    proof (cases "l' = l")
      case True
      then show ?thesis
        using JumpTo by (intro patched [of "pos + 4" "le_bytes 4 (ToByte b)"])
          (auto simp: instruction_bytes_def jump_delta_def action_size_def t assms(2))
    next
      case False
      show ?thesis by (rule same) (use False JumpTo in \<open>simp_all add: jump_delta_def t\<close>)
    qed
  next
    case (ConditionalJumpTo b v l')
    show ?thesis
    proof (cases "l' = l")
      case True
      then show ?thesis
        using ConditionalJumpTo
        by (intro patched [of "pos + 8" "le_bytes 4 (ToByte b) @ le_bytes 4 (LocalVar_Encode v)"])
          (auto simp: instruction_bytes_def jump_delta_def action_size_def t assms(2))
    next
      case False
      show ?thesis by (rule same) (use False ConditionalJumpTo in \<open>simp_all add: jump_delta_def t\<close>)
    qed
  qed (rule same; simp)+
qed auto

text \<open>The positions of the labels that are bound.\<close>

definition targets :: "labels \<Rightarrow> nat \<Rightarrow> nat option" where
  "targets ls l = (if lb_bound (ls l) then Some (lb_offset (ls l)) else None)"

lemma targets_upd: "targets (ls(l := lb)) = (targets ls)(l := if lb_bound lb then Some (lb_offset lb) else None)"
  by (auto simp: targets_def)

lemma fold_EmitScalarValue: "fold EmitScalarValue args bytes = bytes @ concat (map scalar_bytes args)"
  by (induction args arbitrary: bytes) (simp_all add: EmitScalarValue_def)

lemma EmitAll_bytes: "EmitAll b args bytes = bytes @ instruction_bytes b args"
  by (simp add: EmitAll_def EmitOp_def instruction_bytes_def fold_EmitScalarValue) (simp add: EmitScalarValue_def)

text \<open>A bound label stands at the position of its \<open>BindLabel\<close>; the other labels know the jumps to patch.\<close>

definition label_ok :: "Action list \<Rightarrow> nat \<Rightarrow> BytecodeLabel \<Rightarrow> bool" where
  "label_ok acts l lb =
     (if lb_bound lb
      then \<exists>before after. acts = before @ BindLabel l # after \<and> lb_offset lb = code_size before \<and> BindLabel l \<notin> set before
      else referrer_offsets lb = jump_positions l 0 acts \<and> BindLabel l \<notin> set acts)"

definition assembled :: "Action list \<Rightarrow> labels \<times> bytecode_array \<Rightarrow> bool" where
  "assembled acts s = (case s of (ls, bytes) \<Rightarrow>
     bytes = assemble (targets ls) 0 acts \<and> (\<forall>l. label_ok acts l (ls l)))"

lemma emit_jump_label:
  assumes "EmitJump_label (ls l) (assemble (targets ls) 0 acts @ op) = Some (lb, bytes)"
    and "\<not> lb_bound (ls l) \<Longrightarrow> referrer_offsets (ls l) = jump_positions l 0 acts"
  shows "bytes = assemble (targets ls) 0 acts @ op @ le_bytes 4 (jump_delta (targets ls) l (code_size acts + length op)) \<and>
    lb_bound lb = lb_bound (ls l) \<and> lb_offset lb = lb_offset (ls l) \<and>
    (\<not> lb_bound (ls l) \<longrightarrow> referrer_offsets lb = jump_positions l 0 acts @ [code_size acts + length op])"
proof (cases "lb_bound (ls l)")
  case True
  with assms(1) have "lb_offset (ls l) \<le> code_size acts + length op" and lb: "lb = ls l"
    and b: "bytes = (assemble (targets ls) 0 acts @ op) @ le_bytes 4 (- of_nat (code_size acts + length op - lb_offset (ls l)) :: u32)"
    by (auto simp: EmitJump_label_def GetPosition_def EmitScalarValue_def Let_def checked split: if_splits)
  then have "(- of_nat (code_size acts + length op - lb_offset (ls l)) :: u32) = jump_delta (targets ls) l (code_size acts + length op)"
    using True by (simp add: jump_delta_def targets_def)
  with True lb b show ?thesis by simp
next
  case False
  with assms show ?thesis
    by (auto simp: EmitJump_label_def GetPosition_def EmitScalarValue_def SetReferrer_def Let_def checked
        jump_delta_def targets_def)
qed

lemma label_ok_bound_snoc:
  assumes "label_ok acts l lb" and "lb_bound lb"
  shows "label_ok (acts @ [a]) l lb"
proof -
  from assms obtain before after where "acts = before @ BindLabel l # after" "lb_offset lb = code_size before" "BindLabel l \<notin> set before"
    by (auto simp: label_ok_def)
  then have "acts @ [a] = before @ BindLabel l # (after @ [a]) \<and> lb_offset lb = code_size before \<and> BindLabel l \<notin> set before" by simp
  with assms(2) show ?thesis unfolding label_ok_def by metis
qed

lemma label_ok_snoc:
  assumes "label_ok acts l lb" and "a \<noteq> BindLabel l" and "jump_positions l (code_size acts) [a] = []"
  shows "label_ok (acts @ [a]) l lb"
proof (cases "lb_bound lb")
  case False
  with assms show ?thesis by (auto simp: label_ok_def jump_positions_append)
qed (use assms label_ok_bound_snoc in blast)

lemma assembled_snoc:
  assumes "assembled acts (ls, bytes)" and "a \<noteq> BindLabel l" and "\<And>l'. l' \<noteq> l \<Longrightarrow> jump_positions l' (code_size acts) [a] = []"
    and "\<And>l'. a \<noteq> BindLabel l'"
    and "bytes' = bytes @ action_bytes (targets ls) (code_size acts) a"
    and "lb_bound lb = lb_bound (ls l)" and "lb_offset lb = lb_offset (ls l)"
    and "\<not> lb_bound (ls l) \<longrightarrow> referrer_offsets lb = jump_positions l 0 (acts @ [a])"
  shows "assembled (acts @ [a]) (ls(l := lb), bytes')"
proof -
  have t: "targets (ls(l := lb)) = targets ls" using assms(6,7) by (auto simp: targets_upd targets_def)
  have "label_ok (acts @ [a]) l lb"
  proof (cases "lb_bound (ls l)")
    case True
    then have "label_ok acts l lb" using assms by (simp add: assembled_def label_ok_def) metis
    then show ?thesis using True assms(6) label_ok_bound_snoc by blast
  qed (use assms in \<open>auto simp: assembled_def label_ok_def\<close>)
  moreover have "label_ok (acts @ [a]) l' (ls l')" if "l' \<noteq> l" for l'
    using assms that by (intro label_ok_snoc) (auto simp: assembled_def)
  ultimately show ?thesis using assms(1,5) t by (auto simp: assembled_def assemble_append Let_def)
qed

lemma assembled_bind:
  assumes "assembled acts (ls, bytes)" and "Bind (ls l) bytes = Some (lb, bytes')"
  shows "assembled (acts @ [BindLabel l]) (ls(l := lb), bytes')"
proof -
  let ?n = "code_size acts"
  from assms have unbound: "\<not> lb_bound (ls l)" and lb: "lb_bound lb" "lb_offset lb = ?n"
    by (auto simp: Bind_def BindTo_def assembled_def GetPosition_def Let_def checked split: bind_splits if_splits)
  with assms(1) have refs: "referrer_offsets (ls l) = jump_positions l 0 acts" by (auto simp: assembled_def label_ok_def)
  have "fold_opt (patch_jump ?n) (jump_positions l 0 acts) ([] @ assemble (targets ls) 0 acts) = Some bytes'"
    using assms unbound refs
    by (auto simp: Bind_def BindTo_def assembled_def IsForwardTarget_def GetPosition_def Let_def checked split: bind_splits if_splits)
  from patch_all [OF this, of "targets (ls(l := lb))"] have "bytes' = assemble (targets (ls(l := lb))) 0 acts"
    using unbound lb by (auto simp: targets_upd) (auto simp: targets_def)
  moreover have "label_ok (acts @ [BindLabel l]) l lb" using lb assms(1) unbound by (auto simp: label_ok_def assembled_def)
  moreover have "label_ok (acts @ [BindLabel l]) l' (ls l')" if "l' \<noteq> l" for l'
    using assms(1) that by (intro label_ok_snoc) (auto simp: assembled_def)
  ultimately show ?thesis by (auto simp: assembled_def assemble_append Let_def)
qed

lemma assembled_plain:
  assumes "assembled acts (ls, bytes)" and "\<And>l. jump_positions l (code_size acts) [a] = []" and "\<And>l. a \<noteq> BindLabel l"
    and "bytes' = bytes @ action_bytes (targets ls) (code_size acts) a"
  shows "assembled (acts @ [a]) (ls, bytes')"
proof -
  have "\<not> lb_bound (ls 0) \<longrightarrow> referrer_offsets (ls 0) = jump_positions 0 0 (acts @ [a])"
    using assms(1,2) by (auto simp: assembled_def label_ok_def jump_positions_append)
  with assembled_snoc [OF assms(1) assms(3) assms(2) assms(3) assms(4), of "ls 0" 0] show ?thesis by simp
qed

lemma perform_assembled:
  assumes A: "assembled acts (ls, bytes)" and P: "perform a (ls, bytes) = Some s"
  shows "assembled (acts @ [a]) s"
proof (cases a)
  case (Instruction b args)
  with P show ?thesis by (auto intro!: assembled_plain [OF A] simp: EmitAll_bytes)
next
  case (CallFunction f params)
  with P show ?thesis
    by (auto intro!: assembled_plain [OF A] simp: EmitCall_def EmitAll_bytes fold_EmitScalarValue instruction_bytes_def checked
        split: bind_splits if_splits)
next
  case (JumpTo b l)
  with P obtain lb bytes' where J: "EmitJump b (ls l) bytes = Some (lb, bytes')" and s: "s = (ls(l := lb), bytes')"
    by (auto split: bind_splits)
  have "EmitJump_label (ls l) (assemble (targets ls) 0 acts @ le_bytes 4 (ToByte b)) = Some (lb, bytes')"
    using J A by (auto simp: EmitJump_def EmitAll_bytes instruction_bytes_def assembled_def checked split: bind_splits if_splits)
  from emit_jump_label [OF this] A show ?thesis
    unfolding s JumpTo by (intro assembled_snoc [OF A])
      (auto simp: assembled_def label_ok_def jump_positions_append instruction_bytes_def)
next
  case (ConditionalJumpTo b v l)
  with P obtain lb bytes' where J: "EmitConditionalJump b v (ls l) bytes = Some (lb, bytes')" and s: "s = (ls(l := lb), bytes')"
    by (auto split: bind_splits)
  have "EmitJump_label (ls l) (assemble (targets ls) 0 acts @ (le_bytes 4 (ToByte b) @ le_bytes 4 (LocalVar_Encode v))) = Some (lb, bytes')"
    using J A by (auto simp: EmitConditionalJump_def EmitAll_bytes instruction_bytes_def assembled_def checked split: bind_splits if_splits)
  from emit_jump_label [OF this] A show ?thesis
    unfolding s ConditionalJumpTo by (intro assembled_snoc [OF A])
      (auto simp: assembled_def label_ok_def jump_positions_append instruction_bytes_def)
next
  case (BindLabel l)
  with P show ?thesis by (auto intro: assembled_bind [OF A] split: bind_splits)
qed

lemma fold_opt_append: "fold_opt f (xs @ ys) b = do { b \<leftarrow> fold_opt f xs b; fold_opt f ys b }"
  by (induction xs arbitrary: b) (auto split: Option.bind_splits)

lemma perform_all_assembled: "perform_all acts = Some s \<Longrightarrow> assembled acts s"
proof (induction acts arbitrary: s rule: rev_induct)
  case Nil
  then show ?case by (auto simp: perform_all_def assembled_def label_ok_def BytecodeLabel_new_def)
next
  case (snoc a acts)
  then show ?case
    by (auto simp: perform_all_def fold_opt_append dest: perform_assembled split: bind_splits)
qed

section \<open>Decoding\<close>

text \<open>An operand as the accessor for its type returns it.\<close>

datatype Operand =
    Op_int "64 word"
  | Op_float "32 word + 64 word"
  | Op_uint "64 word"
  | Op_jump "32 word"
  | Op_local LocalVar
  | Op_static LocalVar
  | Op_locals "LocalVar list"
  | Op_function u16

fun read_operand_as :: "OperandType \<Rightarrow> BytecodeIterator \<Rightarrow> nat \<Rightarrow> Operand option" where
  "read_operand_as OT_None it i = None"
| "read_operand_as OT_Imm1 it i = map_option Op_int (GetImmediateIntegerOperand it i)"
| "read_operand_as OT_Imm2 it i = map_option Op_int (GetImmediateIntegerOperand it i)"
| "read_operand_as OT_Imm4 it i = map_option Op_int (GetImmediateIntegerOperand it i)"
| "read_operand_as OT_Imm8 it i = map_option Op_int (GetImmediateIntegerOperand it i)"
| "read_operand_as OT_Imm4F it i = map_option Op_float (GetImmediateFloatOperand it i)"
| "read_operand_as OT_Imm8F it i = map_option Op_float (GetImmediateFloatOperand it i)"
| "read_operand_as OT_UImm2 it i = map_option Op_uint (GetUnsignedImmediateIntegerOperand it i)"
| "read_operand_as OT_UImm4 it i = map_option Op_uint (GetUnsignedImmediateIntegerOperand it i)"
| "read_operand_as OT_JumpOffset it i = map_option Op_jump (GetJumpOffsetOperand it i)"
| "read_operand_as OT_Local it i = map_option Op_local (GetLocalOperand it i)"
| "read_operand_as OT_StaticLocal it i = map_option Op_static (GetStaticLocalOperand it i)"
| "read_operand_as OT_LocalCount it i = map_option Op_locals (GetLocalCountOperand it i)"
| "read_operand_as OT_FunctionId it i = map_option Op_function (GetFunctionIdOperand it i)"

definition decode :: "BytecodeIterator \<Rightarrow> (Bytecode \<times> Operand list) option" where
  "decode it = do {
     b \<leftarrow> CurrentBytecode it;
     ops \<leftarrow> those (map (\<lambda>i. do { t \<leftarrow> GetNthOperandType b i; read_operand_as t it i }) [0..<NumOperands b]);
     Some (b, ops) }"

text \<open>The instructions of a range, in order; the fuel is the number of bytes of the range.\<close>

fun decode_from :: "nat \<Rightarrow> BytecodeIterator \<Rightarrow> (Bytecode \<times> Operand list) list option" where
  "decode_from fuel it =
     (if BytecodeIterator_Done it then Some []
      else case fuel of
        0 \<Rightarrow> None
      | Suc fuel \<Rightarrow> do {
          ins \<leftarrow> decode it;
          it \<leftarrow> BytecodeIterator_Advance it;
          rest \<leftarrow> decode_from fuel it;
          Some (ins # rest) })"

declare decode_from.simps [simp del]

definition decode_all :: "bytecode_array \<Rightarrow> (Bytecode \<times> Operand list) list option" where
  "decode_all bytes = decode_from (length bytes) (BytecodeIterator_new bytes)"

text \<open>What an argument means for an operand of some type, when it has the right width.\<close>

fun operand_of :: "OperandType \<Rightarrow> Scalar \<Rightarrow> Operand option" where
  "operand_of OT_Imm1 (S8 w) = Some (Op_int (scast w))"
| "operand_of OT_Imm2 (S16 w) = Some (Op_int (scast w))"
| "operand_of OT_Imm4 (S32 w) = Some (Op_int (scast w))"
| "operand_of OT_Imm8 (S64 w) = Some (Op_int w)"
| "operand_of OT_Imm4F (S32 w) = Some (Op_float (Inl w))"
| "operand_of OT_Imm8F (S64 w) = Some (Op_float (Inr w))"
| "operand_of OT_UImm2 (S16 w) = Some (Op_uint (ucast w))"
| "operand_of OT_UImm4 (S32 w) = Some (Op_uint (ucast w))"
| "operand_of OT_JumpOffset (S32 w) = Some (Op_jump w)"
| "operand_of OT_Local (SLocal v) = Some (Op_local v)"
| "operand_of OT_StaticLocal (SLocal v) = Some (Op_static v)"
| "operand_of OT_FunctionId (S16 w) = Some (Op_function w)"
| "operand_of t s = None"

definition known :: "Bytecode \<Rightarrow> bool" where
  "known b \<longleftrightarrow> map_of BYTECODE_LIST b \<noteq> None"

definition operands_of :: "Bytecode \<Rightarrow> Scalar list \<Rightarrow> Operand list option" where
  "operands_of b args =
     (if known b \<and> length args = NumOperands b then those (map2 operand_of (GetOperandTypes b) args) else None)"

fun wf_action :: "Action \<Rightarrow> bool" where
  "wf_action (Instruction b args) = (operands_of b args \<noteq> None)"
| "wf_action (CallFunction f params) = (length params < 2 ^ 16 - 1)"
| "wf_action (JumpTo b l) = IsUnconditionalJump b"
| "wf_action (ConditionalJumpTo b v l) = IsConditionalJump b"
| "wf_action (BindLabel l) = True"

text \<open>The instructions that a list of actions stands for.\<close>

fun action_code :: "(nat \<Rightarrow> nat option) \<Rightarrow> nat \<Rightarrow> Action \<Rightarrow> (Bytecode \<times> Operand list) list" where
  "action_code target pos (Instruction b args) = [(b, the (operands_of b args))]"
| "action_code target pos (CallFunction f params) = [(Core Call, [Op_function f, Op_locals params])]"
| "action_code target pos (JumpTo b l) = [(b, [Op_jump (jump_delta target l (pos + 4))])]"
| "action_code target pos (ConditionalJumpTo b v l) = [(b, [Op_local v, Op_jump (jump_delta target l (pos + 8))])]"
| "action_code target pos (BindLabel l) = []"

fun listing :: "(nat \<Rightarrow> nat option) \<Rightarrow> nat \<Rightarrow> Action list \<Rightarrow> (Bytecode \<times> Operand list) list" where
  "listing target pos [] = []"
| "listing target pos (a # acts) = action_code target pos a @ listing target (pos + action_size a) acts"

lemma known_FromByte: "known b \<Longrightarrow> FromByte (ToByte b) = Some b"
  by (auto simp: known_def dest!: map_of_SomeD intro: FromByte_ToByte)

lemma known_core:
  "known (Core Jump)" "known (Core JumpIfTrue)" "known (Core JumpIfFalse)" "known (Core Call)"
  "GetOperandTypes (Core Jump) = [OT_JumpOffset]" "GetOperandTypes (Core JumpIfTrue) = [OT_Local, OT_JumpOffset]"
  "GetOperandTypes (Core JumpIfFalse) = [OT_Local, OT_JumpOffset]" "GetOperandTypes (Core Call) = [OT_FunctionId, OT_LocalCount]"
proof -
  have t: "map_of TYPED_LIST (Core c) = None" for c
    by (auto simp: TYPED_LIST_def map_of_eq_None_iff)
  show "known (Core Jump)" "known (Core JumpIfTrue)" "known (Core JumpIfFalse)" "known (Core Call)"
    "GetOperandTypes (Core Jump) = [OT_JumpOffset]" "GetOperandTypes (Core JumpIfTrue) = [OT_Local, OT_JumpOffset]"
    "GetOperandTypes (Core JumpIfFalse) = [OT_Local, OT_JumpOffset]" "GetOperandTypes (Core Call) = [OT_FunctionId, OT_LocalCount]"
    by (simp_all add: known_def GetOperandTypes_def BYTECODE_LIST_def map_add_def t CORE_LIST_def)
qed

lemma CurrentBytecode_at:
  assumes "known b" and "it_bytecodes it = pre @ instruction_bytes b args @ post" and "curr_offset it = length pre"
  shows "CurrentBytecode it = Some b"
  using assms load_scalar(3) [of "curr_offset it" pre "ToByte b"]
  by (simp add: CurrentBytecode_def instruction_bytes_def known_FromByte)

lemma fold_kSize: "fold (\<lambda>i offset. offset + kSize (ts ! i)) [0..<n] k = k + sum_list (map (\<lambda>i. kSize (ts ! i)) [0..<n])"
  by (induction n) (simp_all add: algebra_simps)

lemma concat_scalar_length:
  assumes "n \<le> length args" and "\<And>j. j < n \<Longrightarrow> length (scalar_bytes (args ! j)) = kSize (ts ! j)"
  shows "length (concat (map scalar_bytes (take n args))) = sum_list (map (\<lambda>i. kSize (ts ! i)) [0..<n])"
  using assms by (induction n) (simp_all add: take_Suc_conv_app_nth)

lemma operand_at:
  assumes b: "known b" and it: "it_bytecodes it = pre @ instruction_bytes b args @ post" "curr_offset it = length pre"
    and i: "i < NumOperands b" "i < length args"
    and widths: "\<And>j. j < i \<Longrightarrow> length (scalar_bytes (args ! j)) = kSize (GetOperandTypes b ! j)"
  obtains before where
    "it_bytecodes it = before @ scalar_bytes (args ! i) @ concat (map scalar_bytes (drop (Suc i) args)) @ post"
    and "operand_address it i = Some (GetOperandTypes b ! i, length before)"
proof
  let ?before = "pre @ le_bytes 4 (ToByte b) @ concat (map scalar_bytes (take i args))"
  have "concat (map scalar_bytes args) =
      concat (map scalar_bytes (take i args)) @ scalar_bytes (args ! i) @ concat (map scalar_bytes (drop (Suc i) args))"
    using arg_cong [OF id_take_nth_drop [OF i(2)], of "\<lambda>xs. concat (map scalar_bytes xs)"] by simp
  then show "it_bytecodes it = ?before @ scalar_bytes (args ! i) @ concat (map scalar_bytes (drop (Suc i) args)) @ post"
    using it(1) by (simp add: instruction_bytes_def)
  show "operand_address it i = Some (GetOperandTypes b ! i, length ?before)"
    using i it CurrentBytecode_at [OF b it] concat_scalar_length [of i args "GetOperandTypes b"] widths
    by (simp add: operand_address_def GetNthOperandType_def GetNthOperandOffset_def NumOperands_def checked fold_kSize kOpSize_def)
qed

lemmas accessor_defs = GetImmediateIntegerOperand_def GetImmediateFloatOperand_def GetUnsignedImmediateIntegerOperand_def
  GetJumpOffsetOperand_def GetLocalOperand_def GetStaticLocalOperand_def GetFunctionIdOperand_def
  IsSignedIntegerImmediate_def IsFloatImmediate_def IsUnsignedIntegerImmediate_def

lemma LocalVar_Decode_Encode [simp]: "LocalVar_Decode (LocalVar_Encode v) = v"
  by (simp add: LocalVar_Decode_def LocalVar_Encode_def)

lemma read_operand_at:
  assumes "operand_of t s = Some op" and "operand_address it i = Some (t, length before)"
    and "it_bytecodes it = before @ scalar_bytes s @ post"
  shows "read_operand_as t it i = Some op"
  using assms load_scalar [OF refl]
  by (cases t; cases s) (auto simp: accessor_defs checked)

lemma operand_of_width: "operand_of t s = Some op \<Longrightarrow> length (scalar_bytes s) = kSize t"
  by (cases t; cases s) auto

lemma operand_of_LocalCount: "operand_of t s = Some op \<Longrightarrow> t \<noteq> OT_LocalCount"
  by (cases t; cases s) auto

lemma those_nth: "those xs = Some ys \<longleftrightarrow> length xs = length ys \<and> (\<forall>i < length xs. xs ! i = Some (ys ! i))"
proof (induction xs arbitrary: ys)
  case (Cons x xs)
  show ?case
    by (cases ys) (auto simp: Cons.IH nth_Cons split: option.splits nat.splits)
qed auto

lemma operands_of_nth:
  assumes "operands_of b args = Some ops"
  shows "known b" "length args = NumOperands b" "length ops = NumOperands b"
    "i < NumOperands b \<Longrightarrow> operand_of (GetOperandTypes b ! i) (args ! i) = Some (ops ! i)"
  using assms by (auto simp: operands_of_def NumOperands_def those_nth split: if_splits)

lemma fold_opt_sum:
  "(\<And>i. i \<in> set xs \<Longrightarrow> f i = Some (g i)) \<Longrightarrow>
   fold_opt (\<lambda>i size. do { n \<leftarrow> f i; Some (size + n) }) xs k = Some (k + sum_list (map g xs))" for k :: nat
  by (induction xs arbitrary: k) auto

lemma decode_instruction:
  assumes ops: "operands_of b args = Some ops" and it: "it_bytecodes it = pre @ instruction_bytes b args @ post" "curr_offset it = length pre"
  shows "decode it = Some (b, ops)"
    and "BytecodeIterator_Advance it = Some (it\<lparr>curr_offset := length pre + length (instruction_bytes b args)\<rparr>)"
proof -
  note o = operands_of_nth [OF ops]
  have cb: "CurrentBytecode it = Some b" using CurrentBytecode_at [OF o(1) it] .
  have w: "length (scalar_bytes (args ! j)) = kSize (GetOperandTypes b ! j)" if "j < NumOperands b" for j
    using operand_of_width [OF o(4) [OF that]] .
  have r: "read_operand_as (GetOperandTypes b ! i) it i = Some (ops ! i)" if i: "i < NumOperands b" for i
  proof -
    have "i < length args" using i o(2) by simp
    from operand_at [OF o(1) it i this w] i obtain before where
      "it_bytecodes it = before @ scalar_bytes (args ! i) @ concat (map scalar_bytes (drop (Suc i) args)) @ post"
      "operand_address it i = Some (GetOperandTypes b ! i, length before)" by auto
    then show ?thesis using o(4) [OF i] read_operand_at by blast
  qed
  have "those (map (\<lambda>i. do { t \<leftarrow> GetNthOperandType b i; read_operand_as t it i }) [0..<NumOperands b]) = Some ops"
    using r o(3) by (simp add: those_nth GetNthOperandType_def vec_at_def NumOperands_def)
  then show "decode it = Some (b, ops)" using cb by (simp add: decode_def)
  have sz: "operand_size it i = Some (kSize (GetOperandTypes b ! i))" if "i < NumOperands b" for i
    using cb that operand_of_LocalCount [OF o(4) [OF that]]
    by (simp add: operand_size_def GetNthOperandSize_def GetNthOperandType_def checked NumOperands_def)
  have "CurrentBytecodeSize it = Some (kOpSize + sum_list (map (\<lambda>i. kSize (GetOperandTypes b ! i)) [0..<NumOperands b]))"
    using cb fold_opt_sum [of "[0..<NumOperands b]" "operand_size it"] sz by (simp add: CurrentBytecodeSize_def)
  moreover have "length (instruction_bytes b args) = kOpSize + sum_list (map (\<lambda>i. kSize (GetOperandTypes b ! i)) [0..<NumOperands b])"
    using concat_scalar_length [of "NumOperands b" args "GetOperandTypes b"] o(2) w
    by (simp add: instruction_bytes_def kOpSize_def)
  ultimately show "BytecodeIterator_Advance it = Some (it\<lparr>curr_offset := length pre + length (instruction_bytes b args)\<rparr>)"
    using it(2) by (simp add: BytecodeIterator_Advance_def)
qed

lemma read_locals_at:
  "pos = length before \<Longrightarrow> bytes = before @ concat (map scalar_bytes (SLocals vs)) @ post \<Longrightarrow>
   read_locals bytes (length vs) pos = Some vs"
proof (induction vs arbitrary: before pos)
  case (Cons v vs)
  from Cons.prems have l: "load 4 bytes pos = Some (LocalVar_Encode v)"
    using load_scalar(3) [of pos before "LocalVar_Encode v" "concat (map scalar_bytes (SLocals vs)) @ post"] by simp
  have "read_locals bytes (length vs) (pos + 4) = Some vs"
    by (rule Cons.IH [of "pos + 4" "before @ scalar_bytes (SLocal v)"]) (use Cons.prems in simp_all)
  with l show ?case by simp
qed simp

lemma decode_call:
  fixes f :: u16
  defines "args \<equiv> \<lambda>params. [S16 f, S16 (of_nat (length params))] @ SLocals params"
  assumes n: "length params < 2 ^ 16 - 1"
    and it: "it_bytecodes it = pre @ instruction_bytes (Core Call) (args params) @ post" "curr_offset it = length pre"
  shows "decode it = Some (Core Call, [Op_function f, Op_locals params])"
    and "BytecodeIterator_Advance it = Some (it\<lparr>curr_offset := length pre + length (instruction_bytes (Core Call) (args params))\<rparr>)"
proof -
  note ts = known_core(4,8)
  have no: "NumOperands (Core Call) = 2" by (simp add: NumOperands_def ts)
  have cb: "CurrentBytecode it = Some (Core Call)" using CurrentBytecode_at [OF ts(1) it] .
  have fn: "GetFunctionIdOperand it 0 = Some f"
  proof -
    from operand_at [OF ts(1) it, of 0] obtain before where
      "it_bytecodes it = before @ scalar_bytes (S16 f) @ concat (map scalar_bytes (drop 1 (args params))) @ post"
      "operand_address it 0 = Some (OT_FunctionId, length before)" by (auto simp: no ts args_def)
    then show ?thesis using load_scalar(2) [OF refl] by (simp add: GetFunctionIdOperand_def checked)
  qed
  have len: "unat (of_nat (length params) :: u16) = length params"
    using n by (simp add: unsigned_of_nat take_bit_nat_eq_self)
  have ls: "GetLocalCountOperand it 1 = Some params"
  proof -
    from operand_at [OF ts(1) it, of 1] obtain before where
      a: "it_bytecodes it = before @ scalar_bytes (S16 (of_nat (length params))) @ concat (map scalar_bytes (SLocals params)) @ post"
      "operand_address it 1 = Some (OT_LocalCount, length before)" by (auto simp: no ts args_def)
    have "read_locals (it_bytecodes it) (length params) (length before + 2) = Some params"
      by (rule read_locals_at [of _ "before @ scalar_bytes (S16 (of_nat (length params)))"]) (use a in simp_all)
    then show ?thesis using a load_scalar(2) [OF refl, of before "of_nat (length params)"] len
      by (simp add: GetLocalCountOperand_def checked)
  qed
  show "decode it = Some (Core Call, [Op_function f, Op_locals params])"
    using cb fn ls by (simp add: decode_def GetNthOperandType_def checked no ts upt_rec numeral_2_eq_2)
  have "length (concat (map scalar_bytes (SLocals params))) = length params * 4"
    by (induction params) simp_all
  then show "BytecodeIterator_Advance it = Some (it\<lparr>curr_offset := length pre + length (instruction_bytes (Core Call) (args params))\<rparr>)"
    using cb ls it(2)
    by (simp add: BytecodeIterator_Advance_def CurrentBytecodeSize_def operand_size_def GetNthOperandSize_def GetNthOperandType_def
        checked no ts upt_rec numeral_2_eq_2 kOpSize_def args_def instruction_bytes_def)
qed

lemma decode_action:
  assumes "wf_action a" and it: "it_bytecodes it = pre @ action_bytes target (length pre) a @ post" "curr_offset it = length pre"
    and "action_code target (length pre) a \<noteq> []"
  obtains ins where "action_code target (length pre) a = [ins]" and "decode it = Some ins"
    and "BytecodeIterator_Advance it = Some (it\<lparr>curr_offset := length pre + action_size a\<rparr>)"
proof (cases a)
  case (Instruction b args)
  then show ?thesis
    using assms decode_instruction [of b args _ it pre post] that length_action_bytes [of target "length pre" a] by auto
next
  case (CallFunction f params)
  then show ?thesis
    using assms decode_call [of params it pre f post] that length_action_bytes [of target "length pre" a] by auto
next
  case (JumpTo b l)
  then show ?thesis
    using assms decode_instruction [of b "[S32 (jump_delta target l (length pre + 4))]" _ it pre post] that
      length_action_bytes [of target "length pre" a] by (auto simp: IsUnconditionalJump_def operands_of_def NumOperands_def known_core)
next
  case (ConditionalJumpTo b v l)
  then show ?thesis
    using assms decode_instruction [of b "[SLocal v, S32 (jump_delta target l (length pre + 8))]" _ it pre post] that
      length_action_bytes [of target "length pre" a] by (auto simp: IsConditionalJump_def operands_of_def NumOperands_def known_core)
next
  case (BindLabel l)
  then show ?thesis using assms by simp
qed

lemma decode_from_assemble:
  assumes "list_all wf_action acts"
    and "it_bytecodes it = pre @ assemble target (length pre) acts" "curr_offset it = length pre"
    and "end_offset it = length pre + code_size acts" "length (listing target (length pre) acts) \<le> fuel"
  shows "decode_from fuel it = Some (listing target (length pre) acts)"
  using assms
proof (induction acts arbitrary: it pre fuel)
  case Nil
  then show ?case by (simp add: decode_from.simps BytecodeIterator_Done_def)
next
  case (Cons a acts)
  show ?case
  proof (cases "action_code target (length pre) a = []")
    case True
    then obtain l where "a = BindLabel l" by (cases a) auto
    with Cons show ?thesis by (simp add: action_size_def)
  next
    case False
    from Cons.prems decode_action [OF _ _ _ False, of it "assemble target (length pre + action_size a) acts"] obtain ins where
      ins: "action_code target (length pre) a = [ins]" "decode it = Some ins"
      "BytecodeIterator_Advance it = Some (it\<lparr>curr_offset := length pre + action_size a\<rparr>)" by (auto simp: Let_def)
    obtain fuel' where fuel: "fuel = Suc fuel'" using Cons.prems(5) ins(1) by (cases fuel) auto
    have "4 \<le> action_size a" using False by (cases a) (auto simp: action_size_def instruction_bytes_def)
    then have nd: "\<not> BytecodeIterator_Done it" using Cons.prems by (simp add: BytecodeIterator_Done_def)
    have "decode_from fuel' (it\<lparr>curr_offset := length pre + action_size a\<rparr>) =
        Some (listing target (length (pre @ action_bytes target (length pre) a)) acts)"
      by (rule Cons.IH) (use Cons.prems fuel ins(1) in \<open>simp_all add: Let_def add.assoc\<close>)
    then show ?thesis using nd fuel ins by (subst decode_from.simps) simp
  qed
qed

section \<open>Correctness of the emitter\<close>

text \<open>The first pass of the assembler finds the positions of the labels.\<close>

fun label_position :: "nat \<Rightarrow> Action list \<Rightarrow> nat \<Rightarrow> nat option" where
  "label_position pos [] l = None"
| "label_position pos (a # acts) l =
     (if a = BindLabel l then Some pos else label_position (pos + action_size a) acts l)"

lemma label_position_absent: "BindLabel l \<notin> set acts \<Longrightarrow> label_position pos acts l = None"
  by (induction acts arbitrary: pos) auto

lemma label_position_present:
  "BindLabel l \<notin> set before \<Longrightarrow> label_position pos (before @ BindLabel l # after) l = Some (pos + code_size before)"
  by (induction before arbitrary: pos) auto

lemma label_ok_position: "label_ok acts l (ls l) \<Longrightarrow> targets ls l = label_position 0 acts l"
  by (auto simp: label_ok_def targets_def label_position_absent label_position_present split: if_splits)

lemma perform_all_two_pass:
  assumes "perform_all acts = Some (ls, bytes)"
  shows "targets ls = label_position 0 acts" and "bytes = assemble (label_position 0 acts) 0 acts"
proof -
  have a: "assembled acts (ls, bytes)" using perform_all_assembled [OF assms] .
  then show t: "targets ls = label_position 0 acts" using label_ok_position by (force simp: assembled_def)
  show "bytes = assemble (label_position 0 acts) 0 acts" using a t by (simp add: assembled_def)
qed

text \<open>No assertion of the emitter fails when each label is bound once and the code has fewer than \<open>2 ^ 31 - 1\<close> bytes.\<close>

fun binds :: "Action list \<Rightarrow> nat list" where
  "binds [] = []"
| "binds (BindLabel l # acts) = l # binds acts"
| "binds (_ # acts) = binds acts"

lemma binds_append [simp]: "binds (acts @ acts') = binds acts @ binds acts'"
  by (induction acts rule: binds.induct) simp_all

lemma in_binds [simp]: "l \<in> set (binds acts) \<longleftrightarrow> BindLabel l \<in> set acts"
  by (induction acts rule: binds.induct) auto

lemma patch_jump_total:
  assumes "p + 4 \<le> length bytes" and "c < 2 ^ 31 - 1" and "c = length bytes"
  shows "\<exists>bytes'. patch_jump c p bytes = Some bytes' \<and> length bytes' = length bytes"
  using assms by (simp add: patch_jump_def Let_def checked)

lemma patch_all_total:
  assumes "\<forall>p \<in> set ps. p + 4 \<le> length bytes" and "c < 2 ^ 31 - 1" and "c = length bytes"
  shows "\<exists>bytes'. fold_opt (patch_jump c) ps bytes = Some bytes'"
  using assms
proof (induction ps arbitrary: bytes)
  case (Cons p ps)
  then obtain bytes' where "patch_jump c p bytes = Some bytes'" "length bytes' = length bytes"
    using patch_jump_total [of p bytes c] by auto
  with Cons.IH [of bytes'] Cons.prems show ?case by simp
qed simp

lemma jump_positions_bound: "p \<in> set (jump_positions l pos acts) \<Longrightarrow> p + 4 \<le> pos + code_size acts"
proof (induction acts arbitrary: pos)
  case (Cons a acts)
  then show ?case
    by (cases a) (force simp: action_size_def instruction_bytes_def split: if_splits)+
qed simp

lemma EmitJump_label_total:
  assumes "lb_bound lb \<longrightarrow> lb_offset lb \<le> length bytes" and "length bytes < 2 ^ 31 - 1"
  shows "\<exists>r. EmitJump_label lb bytes = Some r"
  using assms by (cases "lb_bound lb") (auto simp: EmitJump_label_def GetPosition_def SetReferrer_def Let_def checked)

lemma label_ok_offset: "label_ok acts l lb \<Longrightarrow> lb_bound lb \<Longrightarrow> lb_offset lb \<le> code_size acts"
  by (auto simp: label_ok_def)

lemma perform_total:
  assumes A: "assembled acts (ls, bytes)" and "wf_action a" and "distinct (binds (acts @ [a]))"
    and size: "code_size (acts @ [a]) < 2 ^ 31 - 1"
  shows "\<exists>s. perform a (ls, bytes) = Some s"
proof -
  have len: "length bytes = code_size acts" using A by (simp add: assembled_def)
  have off: "lb_bound (ls l) \<longrightarrow> lb_offset (ls l) \<le> length bytes + k" for l k
    using A label_ok_offset len by (fastforce simp: assembled_def intro: trans_le_add1)
  show ?thesis
  proof (cases a)
    case (JumpTo b l)
    have "\<exists>r. EmitJump_label (ls l) (EmitAll b [] bytes) = Some r"
      using JumpTo size len off by (intro EmitJump_label_total) (auto simp: EmitAll_bytes action_size_def instruction_bytes_def)
    then show ?thesis using JumpTo assms(2) by (auto simp: EmitJump_def IsJump_def checked)
  next
    case (ConditionalJumpTo b v l)
    have "\<exists>r. EmitJump_label (ls l) (EmitAll b [SLocal v] bytes) = Some r"
      using ConditionalJumpTo size len off
      by (intro EmitJump_label_total) (auto simp: EmitAll_bytes action_size_def instruction_bytes_def)
    then show ?thesis using ConditionalJumpTo assms(2) by (auto simp: EmitConditionalJump_def IsJump_def checked)
  next
    case (BindLabel l)
    have "\<not> lb_bound (ls l)" and refs: "referrer_offsets (ls l) = jump_positions l 0 acts"
      using BindLabel A assms(3) by (auto simp: assembled_def label_ok_def split: if_splits)
    moreover have "\<exists>bytes'. fold_opt (patch_jump (length bytes)) (jump_positions l 0 acts) bytes = Some bytes'"
      using len size BindLabel jump_positions_bound [of _ l 0 acts] by (intro patch_all_total) auto
    moreover have "length bytes \<noteq> kInvalidOffset" using len size by (auto simp: kInvalidOffset_def)
    ultimately show ?thesis using BindLabel by (auto simp: Bind_def BindTo_def GetPosition_def Let_def checked)
  qed (use assms(2) in \<open>auto simp: EmitCall_def checked\<close>)
qed

lemma perform_all_total:
  assumes "list_all wf_action acts" and "distinct (binds acts)" and "code_size acts < 2 ^ 31 - 1"
  shows "\<exists>s. perform_all acts = Some s"
  using assms
proof (induction acts rule: rev_induct)
  case (snoc a acts)
  then obtain ls bytes where p: "perform_all acts = Some (ls, bytes)" by auto
  from perform_total [OF perform_all_assembled [OF p], of a] snoc.prems p show ?case
    by (auto simp: perform_all_def fold_opt_append)
qed (simp add: perform_all_def)

lemma length_action_code: "length (action_code target pos a) \<le> action_size a"
  by (cases a) (simp_all add: action_size_def instruction_bytes_def)

lemma length_listing: "length (listing target pos acts) \<le> code_size acts"
  by (induction acts arbitrary: pos) (simp_all add: add_mono length_action_code)

text \<open>
  C3. The emitter and the iterator agree. For every sequence of instructions, calls, jumps to labels (forwards and
  backwards) and label bindings whose operands have the types of the table, in which no label is bound twice and
  which takes fewer than \<open>2 ^ 31 - 1\<close> bytes, no assertion of the emitter fails; the bytes, after all the
  back-patching, are those of an assembler that knows the position of every label beforehand; and iterating over
  them with the accessors of the iterator gives back the instructions in order, every operand with the value it was
  emitted with, and every jump offset the distance from its operand to its label.
\<close>

theorem emitter_roundtrip:
  assumes "list_all wf_action acts" and "distinct (binds acts)" and "code_size acts < 2 ^ 31 - 1"
  shows "\<exists>ls bytes. perform_all acts = Some (ls, bytes) \<and>
    bytes = assemble (label_position 0 acts) 0 acts \<and>
    decode_all bytes = Some (listing (label_position 0 acts) 0 acts)"
proof -
  let ?t = "label_position 0 acts"
  obtain ls bytes where p: "perform_all acts = Some (ls, bytes)" using perform_all_total [OF assms] by auto
  note b = perform_all_two_pass(2) [OF p]
  have "decode_from (length bytes) (BytecodeIterator_new bytes) = Some (listing ?t (length ([] :: u8 list)) acts)"
    by (rule decode_from_assemble [OF assms(1)])
      (use length_listing in \<open>simp_all add: b BytecodeIterator_new_def BytecodeIterator_range_def\<close>)
  with p b show ?thesis by (simp add: decode_all_def)
qed

text \<open>A loop that runs while a comparison holds: a forward jump out of it and a backward jump to its head.\<close>

definition example_loop :: "Action list" where
  "example_loop =
     [Instruction (Core AssignImm4) [SLocal (LocalVar_new 8 Address), S32 (- 1)],
      BindLabel 0,
      Instruction (Typed LessThan P_int32) [SLocal (LocalVar_new 12 Address), SLocal (LocalVar_new 8 Value), SLocal (LocalVar_new 0 Value)],
      ConditionalJumpTo (Core JumpIfFalse) (LocalVar_new 12 Value) 1,
      CallFunction 3 [LocalVar_new 8 Value],
      JumpTo (Core Jump) 0,
      BindLabel 1,
      Instruction (Core Return) []]"

lemma operand_types_example:
  "known (Typed LessThan P_int32)" "GetOperandTypes (Typed LessThan P_int32) = [OT_Local, OT_Local, OT_Local]"
  "known (Core AssignImm4)" "GetOperandTypes (Core AssignImm4) = [OT_Local, OT_Imm4]"
  "known (Core Return)" "GetOperandTypes (Core Return) = []"
  by (simp_all add: known_def GetOperandTypes_def BYTECODE_LIST_def map_add_def map_of_append CORE_LIST_def
    TYPED_LIST_def ALL_TYPES_def ALL_NUMERIC_TYPES_def INT_TYPES_def UINT_TYPES_def)

theorem emitter_roundtrip_witness:
  "code_size example_loop = 64 \<and>
   (\<exists>ls bytes. perform_all example_loop = Some (ls, bytes) \<and>
     decode_all bytes = Some
       [(Core AssignImm4, [Op_local (LocalVar_new 8 Address), Op_int (- 1)]),
        (Typed LessThan P_int32, [Op_local (LocalVar_new 12 Address), Op_local (LocalVar_new 8 Value), Op_local (LocalVar_new 0 Value)]),
        (Core JumpIfFalse, [Op_local (LocalVar_new 12 Value), Op_jump 24]),
        (Core Call, [Op_function 3, Op_locals [LocalVar_new 8 Value]]),
        (Core Jump, [Op_jump (- 44)]),
        (Core Return, [])])"
proof -
  have size: "code_size example_loop = 64"
    by (simp add: example_loop_def action_size_def instruction_bytes_def)
  moreover have "list_all wf_action example_loop"
    by (simp add: example_loop_def operands_of_def NumOperands_def operand_types_example IsConditionalJump_def IsUnconditionalJump_def)
  moreover have "distinct (binds example_loop)" by (simp add: example_loop_def)
  moreover have "listing (label_position 0 example_loop) 0 example_loop =
       [(Core AssignImm4, [Op_local (LocalVar_new 8 Address), Op_int (- 1)]),
        (Typed LessThan P_int32, [Op_local (LocalVar_new 12 Address), Op_local (LocalVar_new 8 Value), Op_local (LocalVar_new 0 Value)]),
        (Core JumpIfFalse, [Op_local (LocalVar_new 12 Value), Op_jump 24]),
        (Core Call, [Op_function 3, Op_locals [LocalVar_new 8 Value]]),
        (Core Jump, [Op_jump (- 44)]),
        (Core Return, [])]"
    by (simp add: example_loop_def action_size_def instruction_bytes_def operands_of_def NumOperands_def operand_types_example jump_delta_def)
  ultimately show ?thesis using emitter_roundtrip [of example_loop] by auto
qed

section \<open>Frames\<close>

text \<open>The declarations of a function, in order: a parameter, or a variable (a temporary when the name is empty).\<close>

fun declare_local ::
  "llvm \<Rightarrow> abi \<Rightarrow> LocalKind \<times> Type \<times> string \<Rightarrow> LocalVar list \<times> FunctionInfo \<Rightarrow> (LocalVar list \<times> FunctionInfo) option" where
  "declare_local L A (kind, type, name) (vs, f) = do {
     (v, f) \<leftarrow> (case kind of
                 LocalKind_Parameter \<Rightarrow> NewParameterLocal L A type name f
               | LocalKind_Var \<Rightarrow> NewLocal L A type name f);
     Some (vs @ [v], f) }"

definition declarable :: "llvm \<Rightarrow> abi \<Rightarrow> LocalKind \<times> Type \<times> string \<Rightarrow> bool" where
  "declarable L A d = (case d of (kind, type, name) \<Rightarrow>
     (kind = LocalKind_Parameter \<longrightarrow> name \<noteq> []) \<and>
     (case type_layout L A type of Some (sz, al) \<Rightarrow> (\<exists>k. unat al = 2 ^ k) | None \<Rightarrow> False))"

definition decl_layouts :: "llvm \<Rightarrow> abi \<Rightarrow> (LocalKind \<times> Type \<times> string) list \<Rightarrow> (u32 \<times> u32) list" where
  "decl_layouts L A ds = map (\<lambda>(_, type, _). the (type_layout L A type)) ds"

lemma LocalVar_GetOffset_new:
  assumes "unat off < 2 ^ 31"
  shows "LocalVar_GetOffset (LocalVar_new off mode) = off"
proof (rule bit_word_eqI)
  fix i assume i: "i < LENGTH(32)"
  have "take_bit 31 (unat off) = unat off" using assms by (simp add: take_bit_nat_eq_self)
  then have "unat (take_bit 31 off) = unat off" by (simp add: unsigned_take_bit_eq)
  then have t: "take_bit 31 off = off" by (simp only: word_unat_eq_iff)
  have "\<not> bit off 31" by (subst t [symmetric]) (simp add: bit_take_bit_iff)
  moreover have "i = 31 \<or> i < 31" using i by auto
  ultimately show "bit (LocalVar_GetOffset (LocalVar_new off mode)) i = bit off i"
    unfolding LocalVar_GetOffset_def LocalVar_new_def mode_bit_def LocalVar.simps bit_drop_bit_eq o_def bit_and_iff bit_push_bit_iff bit_or_iff bit_mask_iff
    using i by (cases mode) (auto simp: bit_1_iff)
qed

lemma AlignTo_bound:
  assumes "llvm_align_ok L" and k: "unat a = 2 ^ k" and "unat v + unat a \<le> 2 ^ 64"
  shows "unat (AlignTo L v a) < unat v + unat a"
proof -
  have "a \<noteq> 0" using k by auto
  then have "unat (AlignTo L v a) = (unat v + (unat a - 1)) div unat a * unat a"
    using assms(1) [unfolded llvm_align_ok_def, rule_format, of a v] assms(3) by (simp add: AlignTo_def)
  from round_up_least(2) [OF _ this] k show ?thesis by simp
qed

lemma NewLocal_kind_frame:
  assumes L: "llvm_pow2_ok L" "llvm_align_ok L" and lay: "type_layout L A type = Some (sz, al)" and k: "unat al = 2 ^ k"
    and "name \<noteq> []" and b: "unat (frame_size f) + unat sz + unat al < 2 ^ 31"
  obtains off where
    "NewLocal_kind L A type name kind f = Some (LocalVar_new off Address,
       f\<lparr>fi_locals := fi_locals f @ [\<lparr>li_name = name, li_type = type, li_offset = off, li_size = sz, li_kind = kind\<rparr>],
         frame_size := ucast off + ucast sz\<rparr>)"
    "unat (frame_size f) \<le> unat off" "unat off < unat (frame_size f) + unat al" "unat al dvd unat off"
    "unat (ucast off + ucast sz :: u64) = unat off + unat sz"
proof -
  define fs :: u32 where "fs = ucast (frame_size f)"
  have fs: "unat fs = unat (frame_size f)" using b by (simp add: fs_def unat_ucast_32)
  have bk: "ucast fs = frame_size f" by (simp add: word_unat_eq_iff fs)
  obtain off where off: "align_size L fs al = Some off" "unat fs \<le> unat off" "unat off < unat fs + unat al" "unat al dvd unat off"
    using align_size_least [OF L k, of fs] b fs by auto
  have sum: "unat (ucast off + ucast sz :: u64) = unat off + unat sz"
    using off(3) b fs by (intro trans [OF unat_add_lem [THEN iffD1]]) simp_all
  have a: "\<exists>al'. IsAligned L (frame_size f) (ucast al) = Some al' \<and>
      (if \<not> al' then AlignTo L (frame_size f) (ucast al) else frame_size f) = ucast off"
  proof -
    from off(1) obtain al' where al': "IsAligned L (frame_size f) (ucast al) = Some al'"
      and o: "off = (if \<not> al' then ucast (AlignTo L (frame_size f) (ucast al)) else fs)"
      by (auto simp: align_size_def bk split: bind_splits)
    have "unat (AlignTo L (frame_size f) (ucast al)) < 2 ^ 32"
      using AlignTo_bound [OF L(2), of "ucast al" k "frame_size f"] k b by simp
    then show ?thesis using al' o bk by (auto simp: word_unat_eq_iff unat_ucast_32)
  qed
  have "unat off < 2 ^ 32" using unsigned_less [of off] by simp
  then have "ucast (ucast off :: u64) = off" by (simp add: word_unat_eq_iff unat_ucast_32)
  with a show ?thesis
    using that [of off] off fs sum lay assms(5) by (auto simp: NewLocal_kind_def checked Let_def)
qed

lemma NewLocal_names: "NewLocal L A type name f = NewLocal_kind L A type
    (if name = [] then ''tmp'' @ to_string (unat (num_temps f + 1)) else name) LocalKind_Var
    (if name = [] then f\<lparr>num_temps := num_temps f + 1\<rparr> else f)"
  by (simp add: NewLocal_def Let_def)

lemma declare_local_frame:
  assumes L: "llvm_pow2_ok L" "llvm_align_ok L" and d: "declarable L A d"
    and b: "unat (frame_size f) + layout_bound (decl_layouts L A [d]) < 2 ^ 31"
  obtains v info f' where "declare_local L A d (vs, f) = Some (vs @ [v], f')" "fi_locals f' = fi_locals f @ [info]"
    "v = LocalVar_new (li_offset info) Address"
    "unat (frame_size f') \<le> unat (frame_size f) + layout_bound (decl_layouts L A [d])"
    "placed_fields (unat (frame_size f)) (decl_layouts L A [d]) [li_offset info] (unat (frame_size f'))"
proof -
  obtain kind type name where dd: "d = (kind, type, name)" by (cases d)
  from d obtain sz al k where lay: "type_layout L A type = Some (sz, al)" "unat al = 2 ^ k"
    by (auto simp: declarable_def dd split: option.splits)
  have dl: "decl_layouts L A [(kind, type, name)] = [(sz, al)]" for kind name by (simp add: decl_layouts_def lay)
  define name' where "name' = (if kind = LocalKind_Var \<and> name = [] then ''tmp'' @ to_string (unat (num_temps f + 1)) else name)"
  define f0 where "f0 = (if kind = LocalKind_Var \<and> name = [] then f\<lparr>num_temps := num_temps f + 1\<rparr> else f)"
  have f0: "frame_size f0 = frame_size f" "fi_locals f0 = fi_locals f" by (simp_all add: f0_def)
  have ne: "name' \<noteq> []" using d by (cases kind) (auto simp: name'_def declarable_def dd)
  obtain off where off: "NewLocal_kind L A type name' kind f0 = Some (LocalVar_new off Address,
       f0\<lparr>fi_locals := fi_locals f @ [\<lparr>li_name = name', li_type = type, li_offset = off, li_size = sz, li_kind = kind\<rparr>],
         frame_size := ucast off + ucast sz\<rparr>)"
    "unat (frame_size f) \<le> unat off" "unat off < unat (frame_size f) + unat al" "unat al dvd unat off"
    "unat (ucast off + ucast sz :: u64) = unat off + unat sz"
    using NewLocal_kind_frame [OF L lay ne, of f0] b f0 by (auto simp: dd dl layout_bound_def)
  show ?thesis
  proof (cases kind)
    case LocalKind_Var
    with off(1) have "NewLocal L A type name f = NewLocal_kind L A type name' kind f0"
      by (simp add: NewLocal_names name'_def f0_def)
    with off LocalKind_Var show ?thesis by (intro that) (auto simp: dd dl layout_bound_def)
  next
    case LocalKind_Parameter
    with off f0 show ?thesis
      by (intro that) (auto simp: dd dl layout_bound_def NewParameterLocal_def name'_def f0_def)
  qed
qed


lemma placed_fields_append:
  "placed_fields free fs offs mid \<Longrightarrow> placed_fields mid fs' offs' fin \<Longrightarrow> placed_fields free (fs @ fs') (offs @ offs') fin"
  by (induction free fs offs mid rule: placed_fields.induct) auto

lemma placed_fields_length: "placed_fields free fs offs fin \<Longrightarrow> length offs = length fs"
  by (induction free fs offs fin rule: placed_fields.induct) auto

text \<open>The frame after some declarations: the variables are those of the list of locals, placed one after the other.\<close>

definition frame_ok :: "(u32 \<times> u32) list \<Rightarrow> LocalVar list \<Rightarrow> FunctionInfo \<Rightarrow> bool" where
  "frame_ok lays vs f \<longleftrightarrow>
     vs = map (\<lambda>info. LocalVar_new (li_offset info) Address) (fi_locals f) \<and>
     placed_fields 0 lays (map li_offset (fi_locals f)) (unat (frame_size f)) \<and>
     unat (frame_size f) \<le> layout_bound lays"

lemma declare_locals_frame:
  assumes L: "llvm_pow2_ok L" "llvm_align_ok L" and "list_all (declarable L A) ds"
    and "layout_bound (decl_layouts L A ds) < 2 ^ 31"
  shows "\<exists>vs f. fold_opt (declare_local L A) ds ([], FunctionInfo_new fid fname ftype) = Some (vs, f) \<and>
    frame_ok (decl_layouts L A ds) vs f"
  using assms(3,4)
proof (induction ds rule: rev_induct)
  case Nil
  then show ?case by (simp add: frame_ok_def FunctionInfo_new_def decl_layouts_def)
next
  case (snoc d ds)
  have app: "decl_layouts L A (ds @ [d]) = decl_layouts L A ds @ decl_layouts L A [d]" by (simp add: decl_layouts_def)
  have sum: "layout_bound (fs @ fs') = layout_bound fs + layout_bound fs'" for fs fs' by (simp add: layout_bound_def)
  from snoc app sum obtain vs f where f: "fold_opt (declare_local L A) ds ([], FunctionInfo_new fid fname ftype) = Some (vs, f)"
    "frame_ok (decl_layouts L A ds) vs f" by auto
  have b: "unat (frame_size f) + layout_bound (decl_layouts L A [d]) < 2 ^ 31"
    using f(2) snoc.prems(2) by (simp add: frame_ok_def app sum)
  from snoc.prems(1) have "declarable L A d" by simp
  from declare_local_frame [OF L this b, of vs] obtain v info f' where
    "declare_local L A d (vs, f) = Some (vs @ [v], f')" "fi_locals f' = fi_locals f @ [info]"
    "v = LocalVar_new (li_offset info) Address"
    "unat (frame_size f') \<le> unat (frame_size f) + layout_bound (decl_layouts L A [d])"
    "placed_fields (unat (frame_size f)) (decl_layouts L A [d]) [li_offset info] (unat (frame_size f'))" by metis
  with f show ?case
    by (auto simp: fold_opt_append frame_ok_def app sum intro: placed_fields_append)
qed

lemma placed_fields_offset: "placed_fields free fs offs fin \<Longrightarrow> off \<in> set offs \<Longrightarrow> unat off \<le> fin"
proof (induction free fs offs fin rule: placed_fields.induct)
  case (2 free sz al fs o' offs fin)
  have "a \<le> fin" if "placed_fields a fs offs fin" for a using that
    by (induction a fs offs fin rule: placed_fields.induct) auto
  with 2 show ?case by fastforce
qed auto

lemma find_first: "i < length xs \<Longrightarrow> P (xs ! i) \<Longrightarrow> (\<And>j. j < i \<Longrightarrow> \<not> P (xs ! j)) \<Longrightarrow> find P xs = Some (xs ! i)"
  by (auto simp: find_Some_iff)

text \<open>
  C37. Frames. Whatever parameters, variables and temporaries a function declares, as long as their sizes and
  alignments add up to less than \<open>2 ^ 31\<close> bytes: every declaration gets a slot at the least aligned offset after the
  slot before it, so that no two locals overlap and all lie within the frame; the offset survives the encoding in
  31 bits of a local variable; and looking up a name gives the first local that was declared with it.
\<close>

theorem frame_layout:
  assumes "llvm_ok L" and "llvm_align_ok L" and "list_all (declarable L A) ds" and b: "layout_bound (decl_layouts L A ds) < 2 ^ 31"
  shows "\<exists>vs f. fold_opt (declare_local L A) ds ([], FunctionInfo_new fid fname ftype) = Some (vs, f) \<and>
    placed_fields 0 (decl_layouts L A ds) (map LocalVar_GetOffset vs) (unat (frame_size f)) \<and>
    length (fi_locals f) = length ds \<and>
    (\<forall>i < length ds. (\<forall>j < i. li_name (fi_locals f ! j) \<noteq> li_name (fi_locals f ! i)) \<longrightarrow>
       LookupLocal_var (li_name (fi_locals f ! i)) f = vs ! i)"
proof -
  from declare_locals_frame [OF llvm_okD(3) [OF assms(1)] assms(2,3) b] obtain vs f where
    f: "fold_opt (declare_local L A) ds ([], FunctionInfo_new fid fname ftype) = Some (vs, f)"
    and ok: "frame_ok (decl_layouts L A ds) vs f" by blast
  then have p: "placed_fields 0 (decl_layouts L A ds) (map li_offset (fi_locals f)) (unat (frame_size f))"
    and vs: "vs = map (\<lambda>info. LocalVar_new (li_offset info) Address) (fi_locals f)"
    and sz: "unat (frame_size f) < 2 ^ 31" using b by (auto simp: frame_ok_def)
  have "map LocalVar_GetOffset vs = map li_offset (fi_locals f)"
    unfolding vs using placed_fields_offset [OF p] sz by (auto intro!: LocalVar_GetOffset_new) (meson imageI le_less_trans)
  moreover have len: "length (fi_locals f) = length ds" using placed_fields_length [OF p] by (simp add: decl_layouts_def)
  moreover have "LookupLocal_var (li_name (fi_locals f ! i)) f = vs ! i"
    if "i < length ds" "\<forall>j < i. li_name (fi_locals f ! j) \<noteq> li_name (fi_locals f ! i)" for i
    using find_first [of i "fi_locals f" "\<lambda>info. li_name info = li_name (fi_locals f ! i)"] that len vs
    by (simp add: LookupLocal_var_def LookupLocalInfoByName_def)
  ultimately show ?thesis using f p by auto
qed

text \<open>Sizes and alignments of the primitive types on a 64-bit machine.\<close>

definition primitive_abi :: abi where
  "primitive_abi =
     (let sz = (\<lambda>k. if k \<in> {K_Bool, K_Int8, K_UInt8} then 1 else if k \<in> {K_Int16, K_UInt16} then 2
                    else if k \<in> {K_Int32, K_UInt32, K_Float32} then 4 else 8)
      in \<lparr>cpp_sizeof = sz, cpp_alignof = sz, cpp_int128_signed = True, cpp_sizeof_map = 56, cpp_alignof_map = 8\<rparr>)"

definition example_locals :: "(LocalKind \<times> Type \<times> string) list" where
  "example_locals =
     [(LocalKind_Parameter, PointerType (BuiltinType K_Int32), ''out''), (LocalKind_Parameter, BuiltinType K_Int32, ''x''),
      (LocalKind_Var, BuiltinType K_Bool, []), (LocalKind_Var, BuiltinType K_Int64, ''y''),
      (LocalKind_Var, BuiltinType K_Int16, ''x'')]"

theorem frame_layout_witness:
  "\<exists>vs f. fold_opt (declare_local llvm_reference primitive_abi) example_locals
      ([], FunctionInfo_new 0 ''f'' ([], BuiltinType K_Int32)) = Some (vs, f) \<and>
    map LocalVar_GetOffset vs = [0, 8, 12, 16, 24] \<and> frame_size f = 26 \<and>
    placed_fields 0 [(8, 8), (4, 4), (1, 1), (8, 8), (2, 2)] (map LocalVar_GetOffset vs) 26 \<and>
    LookupLocal_var ''x'' f = vs ! 1"
proof -
  let ?f0 = "FunctionInfo_new 0 ''f'' ([], BuiltinType K_Int32)"
  have lay: "decl_layouts llvm_reference primitive_abi example_locals = [(8, 8), (4, 4), (1, 1), (8, 8), (2, 2)]"
    by (simp add: decl_layouts_def example_locals_def primitive_abi_def Let_def)
  have pow: "\<exists>k. (1::nat) = 2 ^ k" "\<exists>k. (2::nat) = 2 ^ k" "\<exists>k. (4::nat) = 2 ^ k" "\<exists>k. (8::nat) = 2 ^ k"
    by (rule exI [of _ 0], simp, rule exI [of _ 1], simp, rule exI [of _ 2], simp, rule exI [of _ 3], simp)
  have dec: "list_all (declarable llvm_reference primitive_abi) example_locals"
    using pow by (simp add: declarable_def example_locals_def primitive_abi_def Let_def)
  have b: "layout_bound (decl_layouts llvm_reference primitive_abi example_locals) < 2 ^ 31"
    by (simp add: lay layout_bound_def)
  from frame_layout [OF llvm_reference_ok llvm_reference_align dec b, of 0 "''f''" "([], BuiltinType K_Int32)"]
  obtain vs f where run: "fold_opt (declare_local llvm_reference primitive_abi) example_locals ([], ?f0) = Some (vs, f)"
    and p: "placed_fields 0 [(8, 8), (4, 4), (1, 1), (8, 8), (2, 2)] (map LocalVar_GetOffset vs) (unat (frame_size f))"
    and l: "\<forall>i < length example_locals. (\<forall>j < i. li_name (fi_locals f ! j) \<noteq> li_name (fi_locals f ! i)) \<longrightarrow>
       LookupLocal_var (li_name (fi_locals f ! i)) f = vs ! i" by (auto simp: lay)
  have "map_option (\<lambda>(vs, f). (map LocalVar_GetOffset vs, frame_size f, map li_name (fi_locals f)))
      (fold_opt (declare_local llvm_reference primitive_abi) example_locals ([], ?f0)) =
      Some ([0, 8, 12, 16, 24], 26, [''out'', ''x'', ''tmp1'', ''y'', ''x''])" by code_simp
  with run have r: "map LocalVar_GetOffset vs = [0, 8, 12, 16, 24]" "frame_size f = 26"
    "map li_name (fi_locals f) = [''out'', ''x'', ''tmp1'', ''y'', ''x'']" by auto
  then have "li_name (fi_locals f ! 0) = ''out''" "li_name (fi_locals f ! 1) = ''x''" by (auto simp: map_eq_Cons_conv)
  then have "LookupLocal_var ''x'' f = vs ! 1" using l [rule_format, of 1] by (simp add: example_locals_def)
  with run p r show ?thesis by auto
qed

end
