(* ===== verification/VirtualMachine.thy ===== *)
theory VirtualMachine
  imports Bytecodes
begin

text \<open>
  The virtual machine (\<^verbatim>\<open>vm/vm.cpp\<close>) and the handlers of the primitive instructions
  (\<^verbatim>\<open>vm/bytecode_handlers.h\<close>).

  Memory maps addresses to bytes; an access to an address that is not mapped has no result. Undefined behaviour of
  C++ (signed overflow, a shift by the width or more, a \<^verbatim>\<open>bool\<close> that is neither 0 nor 1), a failed assertion and
  the exception of \<^verbatim>\<open>EnsureInFrame\<close> have no result either. The value of a primitive type is its bit pattern,
  extended by zeros to 64 bits. The arithmetic of the floating-point unit, the functions of LLVM that
  count zeros and the memory allocator are parameters.
  The instructions that call the runtime library have no result: they are not modelled.
\<close>

section \<open>Memory\<close>

type_synonym vm_memory = "u64 \<rightharpoonup> u8"

fun vm_load_bytes :: "vm_memory \<Rightarrow> u64 \<Rightarrow> nat \<Rightarrow> u8 list option" where
  "vm_load_bytes mem addr 0 = Some []"
| "vm_load_bytes mem addr (Suc n) = do { b \<leftarrow> mem addr; bs \<leftarrow> vm_load_bytes mem (addr + 1) n; Some (b # bs) }"

fun vm_store_bytes :: "vm_memory \<Rightarrow> u64 \<Rightarrow> u8 list \<Rightarrow> vm_memory option" where
  "vm_store_bytes mem addr [] = Some mem"
| "vm_store_bytes mem addr (b # bs) = do { _ \<leftarrow> mem addr; vm_store_bytes (mem(addr \<mapsto> b)) (addr + 1) bs }"

text \<open>The parameters: the allocator gives the address and the indeterminate contents of a new block.\<close>

record machine =
  fp_compare :: "TypedOp \<Rightarrow> PrimType \<Rightarrow> u64 \<Rightarrow> u64 \<Rightarrow> bool"
  fp_arith :: "TypedOp \<Rightarrow> PrimType \<Rightarrow> u64 \<Rightarrow> u64 \<Rightarrow> u64"
  fp_cast :: "PrimType \<Rightarrow> PrimType \<Rightarrow> u64 \<Rightarrow> u64 option"
  count_leading :: "PrimType \<Rightarrow> u64 \<Rightarrow> u64"
  count_trailing :: "PrimType \<Rightarrow> u64 \<Rightarrow> u64"
  allocate :: "vm_memory \<Rightarrow> nat \<Rightarrow> (u64 \<times> u8 list) option"

fun map_block :: "vm_memory \<Rightarrow> u64 \<Rightarrow> u8 list \<Rightarrow> vm_memory" where
  "map_block mem addr [] = mem"
| "map_block mem addr (b # bs) = map_block (mem(addr \<mapsto> b)) (addr + 1) bs"

fun free_block :: "vm_memory \<Rightarrow> u64 \<Rightarrow> nat \<Rightarrow> vm_memory" where
  "free_block mem addr 0 = mem"
| "free_block mem addr (Suc n) = free_block (mem(addr := None)) (addr + 1) n"

section \<open>Primitive values\<close>

definition prim_size :: "PrimType \<Rightarrow> nat" where
  "prim_size t = (case t of
     P_bool \<Rightarrow> 1 | P_int8 \<Rightarrow> 1 | P_int16 \<Rightarrow> 2 | P_int32 \<Rightarrow> 4 | P_int64 \<Rightarrow> 8 | P_uint8 \<Rightarrow> 1 | P_uint16 \<Rightarrow> 2 |
     P_uint32 \<Rightarrow> 4 | P_uint64 \<Rightarrow> 8 | P_float \<Rightarrow> 4 | P_double \<Rightarrow> 8)"

definition prim_signed :: "PrimType \<Rightarrow> bool" where
  "prim_signed t \<longleftrightarrow> t \<in> {P_int8, P_int16, P_int32, P_int64}"

definition prim_float :: "PrimType \<Rightarrow> bool" where
  "prim_float t \<longleftrightarrow> t \<in> {P_float, P_double}"

text \<open>The integer a bit pattern stands for, and the bit pattern of an integer modulo the width.\<close>

definition prim_int :: "PrimType \<Rightarrow> u64 \<Rightarrow> int" where
  "prim_int t w = (if prim_signed t then signed_take_bit (8 * prim_size t - 1) (uint w) else uint w)"

definition prim_bits :: "PrimType \<Rightarrow> int \<Rightarrow> u64" where
  "prim_bits t v = take_bit (8 * prim_size t) (of_int v)"

text \<open>
  The type in which C++ computes: operands narrower than \<^verbatim>\<open>int\<close> are promoted to it. Signed results that do not
  fit are undefined.
\<close>

definition promoted :: "PrimType \<Rightarrow> PrimType" where
  "promoted t = (if prim_size t < 4 then P_int32 else t)"

definition in_range :: "PrimType \<Rightarrow> int \<Rightarrow> bool" where
  "in_range t v \<longleftrightarrow> - (2 ^ (8 * prim_size t - 1)) \<le> v \<and> v < 2 ^ (8 * prim_size t - 1)"

definition computed :: "PrimType \<Rightarrow> int \<Rightarrow> u64 option" where
  "computed t v = (if prim_signed (promoted t) \<and> \<not> in_range (promoted t) v then None else Some (prim_bits t v))"

definition bool_bits :: "bool \<Rightarrow> u64" where
  "bool_bits b = (if b then 1 else 0)"

text \<open>Division of C++ rounds towards zero.\<close>

definition quotient :: "int \<Rightarrow> int \<Rightarrow> int" where
  "quotient a b = sgn a * sgn b * (\<bar>a\<bar> div \<bar>b\<bar>)"

definition remainder :: "int \<Rightarrow> int \<Rightarrow> int" where
  "remainder a b = a - quotient a b * b"

section \<open>Handlers\<close>

definition int_compare :: "TypedOp \<Rightarrow> int \<Rightarrow> int \<Rightarrow> bool option" where
  "int_compare op lhs rhs = (case op of
     GreaterThanEqual \<Rightarrow> Some (lhs \<ge> rhs)
   | GreaterThan \<Rightarrow> Some (lhs > rhs)
   | Equal \<Rightarrow> Some (lhs = rhs)
   | LessThanEqual \<Rightarrow> Some (lhs \<le> rhs)
   | LessThan \<Rightarrow> Some (lhs < rhs)
   | NotEqual \<Rightarrow> Some (lhs \<noteq> rhs)
   | _ \<Rightarrow> None)"

definition OpCompare :: "machine \<Rightarrow> TypedOp \<Rightarrow> PrimType \<Rightarrow> u64 \<Rightarrow> u64 \<Rightarrow> u64 option" where
  "OpCompare M op t lhs rhs =
     (if prim_float t then Some (bool_bits (fp_compare M op t lhs rhs))
      else map_option bool_bits (int_compare op (prim_int t lhs) (prim_int t rhs)))"

definition int_arith :: "TypedOp \<Rightarrow> PrimType \<Rightarrow> int \<Rightarrow> int \<Rightarrow> u64 option" where
  "int_arith op t lhs rhs = (case op of
     Add \<Rightarrow> computed t (lhs + rhs)
   | Sub \<Rightarrow> computed t (lhs - rhs)
   | Mul \<Rightarrow> computed t (lhs * rhs)
   | Div \<Rightarrow> do { tpl_assert (rhs \<noteq> 0); computed t (quotient lhs rhs) }
   | Rem \<Rightarrow> do { tpl_assert (rhs \<noteq> 0); _ \<leftarrow> computed t (quotient lhs rhs); computed t (remainder lhs rhs) }
   | _ \<Rightarrow> None)"

definition OpArithmetic :: "machine \<Rightarrow> TypedOp \<Rightarrow> PrimType \<Rightarrow> u64 \<Rightarrow> u64 \<Rightarrow> u64 option" where
  "OpArithmetic M op t lhs rhs =
     (if prim_float t
      then do {
        tpl_assert (op \<in> {Div, Rem} \<longrightarrow> fp_compare M NotEqual t rhs 0);
        Some (fp_arith M op t lhs rhs) }
      else int_arith op t (prim_int t lhs) (prim_int t rhs))"

definition OpNeg :: "machine \<Rightarrow> PrimType \<Rightarrow> u64 \<Rightarrow> u64 option" where
  "OpNeg M t input =
     (if prim_float t then Some (fp_arith M Neg t input 0) else computed t (- prim_int t input))"

definition shift_count :: "PrimType \<Rightarrow> u64 \<Rightarrow> nat option" where
  "shift_count t rhs =
     (let n = unat (ucast (of_int (prim_int t rhs) :: u64) :: u32)
      in if n < 8 * prim_size (promoted t) then Some n else None)"

definition OpBit :: "TypedOp \<Rightarrow> PrimType \<Rightarrow> u64 \<Rightarrow> u64 \<Rightarrow> u64 option" where
  "OpBit op t lhs rhs = (case op of
     BitAnd \<Rightarrow> Some (lhs AND rhs)
   | BitOr \<Rightarrow> Some (lhs OR rhs)
   | BitXor \<Rightarrow> Some (lhs XOR rhs)
   | BitShl \<Rightarrow> do { n \<leftarrow> shift_count t rhs; Some (prim_bits t (prim_int t lhs * 2 ^ n)) }
   | BitShr \<Rightarrow> do { n \<leftarrow> shift_count t rhs; Some (prim_bits t (prim_int t lhs div 2 ^ n)) }
   | _ \<Rightarrow> None)"

definition OpBitNeg :: "PrimType \<Rightarrow> u64 \<Rightarrow> u64 option" where
  "OpBitNeg t input = Some (prim_bits t (- prim_int t input - 1))"

definition OpCast :: "machine \<Rightarrow> PrimType \<Rightarrow> PrimType \<Rightarrow> u64 \<Rightarrow> u64 option" where
  "OpCast M from to src =
     (if prim_float from \<or> prim_float to then fp_cast M from to src
      else if to = P_bool then Some (bool_bits (src \<noteq> 0))
      else Some (prim_bits to (prim_int from src)))"

definition OpNot :: "u64 \<Rightarrow> u64" where
  "OpNot input = bool_bits (input = 0)"

definition OpLea :: "u64 \<Rightarrow> u32 \<Rightarrow> u64" where
  "OpLea base offset = base + ucast offset"

text \<open>The product of index and scale is computed in 32 bits.\<close>

definition OpLeaScaled :: "u64 \<Rightarrow> u32 \<Rightarrow> u32 \<Rightarrow> u32 \<Rightarrow> u64" where
  "OpLeaScaled base index scale offset = base + ucast (scale * index) + ucast offset"

section \<open>Frames\<close>

record Frame =
  frame_data :: u64
  fr_size :: u64

definition EnsureInFrame :: "LocalVar \<Rightarrow> Frame \<Rightarrow> unit option" where
  "EnsureInFrame var fr = (if ucast (LocalVar_GetOffset var) \<ge> fr_size fr then None else Some ())"

definition PtrToLocalAt :: "Frame \<Rightarrow> LocalVar \<Rightarrow> u64 option" where
  "PtrToLocalAt fr local = do {
     EnsureInFrame local fr;
     Some (frame_data fr + ucast (LocalVar_GetOffset local)) }"

text \<open>A pointer, \<^verbatim>\<open>LocalAt<T *>\<close>, is read as a \<open>P_uint64\<close>.\<close>

definition LocalAt :: "machine \<Rightarrow> Frame \<Rightarrow> vm_memory \<Rightarrow> PrimType \<Rightarrow> u32 \<Rightarrow> u64 option" where
  "LocalAt M fr mem t index = do {
     let local = LocalVar_Decode index;
     val \<leftarrow> PtrToLocalAt fr local;
     if GetAddressMode local = Value
     then do {
       bytes \<leftarrow> vm_load_bytes mem val (prim_size t);
       let w = le_word bytes;
       tpl_assert (t = P_bool \<longrightarrow> w = 0 \<or> w = 1);
       Some w }
     else if prim_float t then fp_cast M P_uint64 t val
     else if t = P_bool then Some (bool_bits (val \<noteq> 0))
     else Some (take_bit (8 * prim_size t) val) }"

abbreviation LocalPtr :: "machine \<Rightarrow> Frame \<Rightarrow> vm_memory \<Rightarrow> u32 \<Rightarrow> u64 option" where
  "LocalPtr M fr mem index \<equiv> LocalAt M fr mem P_uint64 index"

definition store_prim :: "PrimType \<Rightarrow> vm_memory \<Rightarrow> u64 \<Rightarrow> u64 \<Rightarrow> vm_memory option" where
  "store_prim t mem addr v = vm_store_bytes mem addr (le_bytes (prim_size t) v)"

section \<open>The interpreter\<close>

record Module =
  m_code :: bytecode_array
  m_functions :: "FunctionInfo list"

definition GetFuncInfoById :: "u16 \<Rightarrow> Module \<Rightarrow> FunctionInfo option" where
  "GetFuncInfoById func_id m = vec_at (m_functions m) (unat func_id)"

definition AccessBytecodeForFunctionRaw :: "FunctionInfo \<Rightarrow> Module \<Rightarrow> nat option" where
  "AccessBytecodeForFunctionRaw func m = do {
     tpl_assert (GetFuncInfoById (fi_id func) m = Some func);
     Some (fst (bytecode_range func)) }"

text \<open>\<^verbatim>\<open>Read\<close> and \<^verbatim>\<open>Peek\<close> of the instruction stream; the instruction pointer is a position in the code.\<close>

definition Peek_code :: "nat \<Rightarrow> bytecode_array \<Rightarrow> nat \<Rightarrow> 'a::len word option" where
  "Peek_code n code ip = load n code ip"

definition Read :: "nat \<Rightarrow> bytecode_array \<Rightarrow> nat \<Rightarrow> ('a::len word \<times> nat) option" where
  "Read n code ip = do { v \<leftarrow> load n code ip; Some (v, ip + n) }"

abbreviation READ_LOCAL_ID :: "bytecode_array \<Rightarrow> nat \<Rightarrow> (u32 \<times> nat) option" where
  "READ_LOCAL_ID \<equiv> Read 4"

definition advance :: "nat \<Rightarrow> u32 \<Rightarrow> nat option" where
  "advance ip skip = (if 0 \<le> int ip + sint skip then Some (nat (int ip + sint skip)) else None)"

type_synonym handler = "bytecode_array \<Rightarrow> Frame \<Rightarrow> nat \<Rightarrow> vm_memory \<Rightarrow> (nat \<times> vm_memory) option"

definition binary_op :: "machine \<Rightarrow> PrimType \<Rightarrow> PrimType \<Rightarrow> (u64 \<Rightarrow> u64 \<Rightarrow> u64 option) \<Rightarrow> handler" where
  "binary_op M result t f code fr ip mem = do {
     (i, ip) \<leftarrow> READ_LOCAL_ID code ip;
     dest \<leftarrow> LocalPtr M fr mem i;
     (i, ip) \<leftarrow> READ_LOCAL_ID code ip;
     lhs \<leftarrow> LocalAt M fr mem t i;
     (i, ip) \<leftarrow> READ_LOCAL_ID code ip;
     rhs \<leftarrow> LocalAt M fr mem t i;
     v \<leftarrow> f lhs rhs;
     mem \<leftarrow> store_prim result mem dest v;
     Some (ip, mem) }"

definition unary_op :: "machine \<Rightarrow> PrimType \<Rightarrow> PrimType \<Rightarrow> (u64 \<Rightarrow> u64 option) \<Rightarrow> handler" where
  "unary_op M result t f code fr ip mem = do {
     (i, ip) \<leftarrow> READ_LOCAL_ID code ip;
     dest \<leftarrow> LocalPtr M fr mem i;
     (i, ip) \<leftarrow> READ_LOCAL_ID code ip;
     input \<leftarrow> LocalAt M fr mem t i;
     v \<leftarrow> f input;
     mem \<leftarrow> store_prim result mem dest v;
     Some (ip, mem) }"

definition jump_op :: "machine \<Rightarrow> (u64 \<Rightarrow> bool) \<Rightarrow> handler" where
  "jump_op M taken code fr ip mem = do {
     (i, ip) \<leftarrow> READ_LOCAL_ID code ip;
     cond \<leftarrow> LocalAt M fr mem P_bool i;
     skip \<leftarrow> Peek_code 4 code ip;
     if taken cond then do { ip \<leftarrow> advance ip skip; Some (ip, mem) } else Some (ip + 4, mem) }"

text \<open>\<^verbatim>\<open>memcpy\<close> and \<^verbatim>\<open>memmove\<close>.\<close>

definition copy_memory :: "vm_memory \<Rightarrow> u64 \<Rightarrow> u64 \<Rightarrow> nat \<Rightarrow> vm_memory option" where
  "copy_memory mem dest src n = do { bs \<leftarrow> vm_load_bytes mem src n; vm_store_bytes mem dest bs }"

definition deref_op :: "machine \<Rightarrow> nat \<Rightarrow> handler" where
  "deref_op M n code fr ip mem = do {
     (i, ip) \<leftarrow> READ_LOCAL_ID code ip;
     dest \<leftarrow> LocalPtr M fr mem i;
     (i, ip) \<leftarrow> READ_LOCAL_ID code ip;
     src \<leftarrow> LocalPtr M fr mem i;
     mem \<leftarrow> copy_memory mem dest src n;
     Some (ip, mem) }"

definition copy_op :: "machine \<Rightarrow> handler" where
  "copy_op M code fr ip mem = do {
     (i, ip) \<leftarrow> READ_LOCAL_ID code ip;
     dest \<leftarrow> LocalPtr M fr mem i;
     (i, ip) \<leftarrow> READ_LOCAL_ID code ip;
     src \<leftarrow> LocalPtr M fr mem i;
     (len, ip) \<leftarrow> Read 4 code ip;
     mem \<leftarrow> copy_memory mem dest src (unat (len :: u32));
     Some (ip, mem) }"

definition imm_op :: "machine \<Rightarrow> nat \<Rightarrow> handler" where
  "imm_op M n code fr ip mem = do {
     (i, ip) \<leftarrow> READ_LOCAL_ID code ip;
     dest \<leftarrow> LocalPtr M fr mem i;
     (v, ip) \<leftarrow> Read n code ip;
     mem \<leftarrow> vm_store_bytes mem dest (le_bytes n (v :: u64));
     Some (ip, mem) }"

definition lea_op :: "machine \<Rightarrow> handler" where
  "lea_op M code fr ip mem = do {
     (i, ip) \<leftarrow> READ_LOCAL_ID code ip;
     dest \<leftarrow> LocalPtr M fr mem i;
     (i, ip) \<leftarrow> READ_LOCAL_ID code ip;
     src \<leftarrow> LocalPtr M fr mem i;
     (offset, ip) \<leftarrow> Read 4 code ip;
     mem \<leftarrow> store_prim P_uint64 mem dest (OpLea src offset);
     Some (ip, mem) }"

definition lea_scaled_op :: "machine \<Rightarrow> handler" where
  "lea_scaled_op M code fr ip mem = do {
     (i, ip) \<leftarrow> READ_LOCAL_ID code ip;
     dest \<leftarrow> LocalPtr M fr mem i;
     (i, ip) \<leftarrow> READ_LOCAL_ID code ip;
     src \<leftarrow> LocalPtr M fr mem i;
     (i, ip) \<leftarrow> READ_LOCAL_ID code ip;
     index \<leftarrow> LocalAt M fr mem P_uint32 i;
     (scale, ip) \<leftarrow> Read 4 code ip;
     (offset, ip) \<leftarrow> Read 4 code ip;
     mem \<leftarrow> store_prim P_uint64 mem dest (OpLeaScaled src (ucast index) scale offset);
     Some (ip, mem) }"

fun typed_handler :: "machine \<Rightarrow> TypedOp \<Rightarrow> PrimType \<Rightarrow> handler" where
  "typed_handler M Neg t = unary_op M t t (OpNeg M t)"
| "typed_handler M BitNeg t = unary_op M t t (OpBitNeg t)"
| "typed_handler M BitCtlz t = unary_op M P_uint32 t (\<lambda>v. Some (count_leading M t v))"
| "typed_handler M BitCttz t = unary_op M P_uint32 t (\<lambda>v. Some (count_trailing M t v))"
| "typed_handler M op t =
     (if op \<in> {Add, Sub, Mul, Div, Rem} then binary_op M t t (OpArithmetic M op t)
      else if op \<in> {BitAnd, BitOr, BitXor, BitShl, BitShr} then binary_op M t t (OpBit op t)
      else binary_op M P_bool t (OpCompare M op t))"

fun core_handler :: "machine \<Rightarrow> CoreOp \<Rightarrow> handler" where
  "core_handler M Not_op = unary_op M P_bool P_bool (\<lambda>v. Some (OpNot v))"
| "core_handler M Jump = (\<lambda>code fr ip mem. do {
     skip \<leftarrow> Peek_code 4 code ip; ip \<leftarrow> advance ip skip; Some (ip, mem) })"
| "core_handler M JumpIfTrue = jump_op M (\<lambda>cond. cond \<noteq> 0)"
| "core_handler M JumpIfFalse = jump_op M (\<lambda>cond. cond = 0)"
| "core_handler M IsNullPtr = unary_op M P_bool P_uint64 (\<lambda>p. Some (bool_bits (p = 0)))"
| "core_handler M IsNotNullPtr = unary_op M P_bool P_uint64 (\<lambda>p. Some (bool_bits (p \<noteq> 0)))"
| "core_handler M Deref1 = deref_op M 1"
| "core_handler M Deref2 = deref_op M 2"
| "core_handler M Deref4 = deref_op M 4"
| "core_handler M Deref8 = deref_op M 8"
| "core_handler M DerefN = copy_op M"
| "core_handler M Assign1 = unary_op M P_int8 P_int8 Some"
| "core_handler M Assign2 = unary_op M P_int16 P_int16 Some"
| "core_handler M Assign4 = unary_op M P_int32 P_int32 Some"
| "core_handler M Assign8 = unary_op M P_int64 P_int64 Some"
| "core_handler M AssignN = copy_op M"
| "core_handler M AssignImm1 = imm_op M 1"
| "core_handler M AssignImm2 = imm_op M 2"
| "core_handler M AssignImm4 = imm_op M 4"
| "core_handler M AssignImm8 = imm_op M 8"
| "core_handler M AssignImm4F = imm_op M 4"
| "core_handler M AssignImm8F = imm_op M 8"
| "core_handler M Lea = lea_op M"
| "core_handler M LeaScaled = lea_scaled_op M"
| "core_handler M Call = (\<lambda>_ _ _ _. None)"
| "core_handler M Return = (\<lambda>_ _ _ _. None)"

fun handle :: "machine \<Rightarrow> Bytecode \<Rightarrow> handler" where
  "handle M (Typed op t) = typed_handler M op t"
| "handle M (Cast from to) = unary_op M to from (OpCast M from to)"
| "handle M (Core op) = core_handler M op"
| "handle M (Library name) = (\<lambda>_ _ _ _. None)"

text \<open>The arguments of a call are copied into the new frame: the address of a local, or its value.\<close>

definition copy_argument ::
  "bytecode_array \<Rightarrow> FunctionInfo \<Rightarrow> Frame \<Rightarrow> u64 \<Rightarrow> nat \<Rightarrow> nat \<times> vm_memory \<Rightarrow> (nat \<times> vm_memory) option" where
  "copy_argument code func_info caller raw_frame i s = (case s of (ip, mem) \<Rightarrow> do {
     param_info \<leftarrow> vec_at (fi_locals func_info) i;
     (index, ip) \<leftarrow> READ_LOCAL_ID code ip;
     let param = LocalVar_Decode index;
     param_ptr \<leftarrow> PtrToLocalAt caller param;
     let dest = raw_frame + ucast (li_offset param_info);
     mem \<leftarrow> (if GetAddressMode param = Address
            then do {
              tpl_assert (unat (li_size param_info) \<le> 8);
              vm_store_bytes mem dest (take (unat (li_size param_info)) (le_bytes 8 param_ptr)) }
            else copy_memory mem dest param_ptr (unat (li_size param_info)));
     Some (ip, mem) })"

definition ExecuteCall ::
  "machine \<Rightarrow> Module \<Rightarrow> (nat \<Rightarrow> Frame \<Rightarrow> vm_memory \<Rightarrow> vm_memory option) \<Rightarrow> Frame \<Rightarrow> nat \<Rightarrow> vm_memory \<Rightarrow> (nat \<times> vm_memory) option" where
  "ExecuteCall M m interpret caller ip mem = do {
     (func_id, ip) \<leftarrow> Read 2 (m_code m) ip;
     (num_params, ip) \<leftarrow> Read 2 (m_code m) ip;
     func_info \<leftarrow> GetFuncInfoById func_id m;
     let size = unat (frame_size func_info);
     (raw_frame, contents) \<leftarrow> allocate M mem size;
     let mem = map_block mem raw_frame contents;
     (ip, mem) \<leftarrow> fold_opt (copy_argument (m_code m) func_info caller raw_frame) [0..<unat (num_params :: u16)] (ip, mem);
     start \<leftarrow> AccessBytecodeForFunctionRaw func_info m;
     mem \<leftarrow> interpret start \<lparr>frame_data = raw_frame, fr_size = frame_size func_info\<rparr> mem;
     Some (ip, free_block mem raw_frame size) }"

text \<open>\<^verbatim>\<open>Interpret\<close>; the fuel bounds the number of instructions and calls.\<close>

fun Interpret :: "nat \<Rightarrow> machine \<Rightarrow> Module \<Rightarrow> nat \<Rightarrow> Frame \<Rightarrow> vm_memory \<Rightarrow> vm_memory option" where
  "Interpret 0 M m ip fr mem = None"
| "Interpret (Suc fuel) M m ip fr mem = do {
     (op, ip) \<leftarrow> Read 4 (m_code m) ip;
     b \<leftarrow> FromByte op;
     if b = Core Return then Some mem
     else if b = Core Call
     then do {
       (ip, mem) \<leftarrow> ExecuteCall M m (\<lambda>ip fr mem. Interpret fuel M m ip fr mem) fr ip mem;
       Interpret fuel M m ip fr mem }
     else do {
       (ip, mem) \<leftarrow> handle M b (m_code m) fr ip mem;
       Interpret fuel M m ip fr mem } }"

definition InvokeFunction :: "nat \<Rightarrow> machine \<Rightarrow> Module \<Rightarrow> u16 \<Rightarrow> u8 list \<Rightarrow> vm_memory \<Rightarrow> vm_memory option" where
  "InvokeFunction fuel M m func_id args mem = do {
     func_info \<leftarrow> GetFuncInfoById func_id m;
     let size = unat (frame_size func_info);
     (raw_frame, contents) \<leftarrow> allocate M mem size;
     let mem = map_block mem raw_frame contents;
     tpl_assert (unat (params_size func_info) \<le> length args);
     mem \<leftarrow> vm_store_bytes mem (raw_frame + params_start_pos func_info) (take (unat (params_size func_info)) args);
     start \<leftarrow> AccessBytecodeForFunctionRaw func_info m;
     mem \<leftarrow> Interpret fuel M m start \<lparr>frame_data = raw_frame, fr_size = frame_size func_info\<rparr> mem;
     Some (free_block mem raw_frame size) }"

end
