(* ===== verification/VmCorrect.thy ===== *)
theory VmCorrect
  imports BytecodeCorrect VirtualMachine
begin

text \<open>
  The virtual machine as a memory model: slots of a frame, loads and stores into them, and what one instruction
  does. \<open>runs\<close> relates two states of the interpreter, for any remaining fuel; the rules \<open>run_binary\<close>,
  \<open>run_unary\<close>, \<open>run_imm\<close>, \<open>run_assign\<close>, \<open>run_copy\<close> and \<open>run_jump\<close> give the effect of an instruction placed in
  the code: the value is stored into the destination and nothing else changes.
\<close>

section \<open>Memory\<close>

lemma vm_load_bytes_Some:
  "vm_load_bytes mem a n = Some bs \<longleftrightarrow> length bs = n \<and> (\<forall>i < n. mem (a + of_nat i) = Some (bs ! i))"
proof (induction n arbitrary: a bs)
  case (Suc n)
  have "vm_load_bytes mem a (Suc n) = Some bs \<longleftrightarrow>
      (\<exists>c cs. bs = c # cs \<and> mem a = Some c \<and> vm_load_bytes mem (a + 1) n = Some cs)"
    by (auto split: bind_splits)
  also have "\<dots> \<longleftrightarrow>
      (\<exists>c cs. bs = c # cs \<and> mem a = Some c \<and> length cs = n \<and> (\<forall>i < n. mem (a + of_nat (Suc i)) = Some (cs ! i)))"
    by (simp add: Suc.IH add.assoc)
  also have "\<dots> \<longleftrightarrow> length bs = Suc n \<and> (\<forall>i < Suc n. mem (a + of_nat i) = Some (bs ! i))"
    by (cases bs) (auto simp: All_less_Suc2)
  finally show ?case .
qed auto

lemma load_cong:
  "(\<And>i. i < n \<Longrightarrow> mem' (a + of_nat i) = mem (a + of_nat i)) \<Longrightarrow> vm_load_bytes mem' a n = vm_load_bytes mem a n"
proof (induction n arbitrary: a)
  case (Suc n)
  from Suc.prems [of 0] Suc.IH [of "a + 1"] Suc.prems [of "Suc i" for i] show ?case by (simp add: add.assoc)
qed simp

lemma of_nat_distinct: "(of_nat i :: u64) = of_nat j \<Longrightarrow> i < 2 ^ 64 \<Longrightarrow> j < 2 ^ 64 \<Longrightarrow> i = j"
  by (simp add: word_unat_eq_iff unsigned_of_nat take_bit_nat_eq_self)

lemma vm_store_bytes_result:
  assumes "\<And>i. i < length bs \<Longrightarrow> mem (a + of_nat i) \<noteq> None" and "length bs < 2 ^ 64"
  obtains mem' where "vm_store_bytes mem a bs = Some mem'" "\<And>i. i < length bs \<Longrightarrow> mem' (a + of_nat i) = Some (bs ! i)"
    "\<And>x. (\<And>i. i < length bs \<Longrightarrow> x \<noteq> a + of_nat i) \<Longrightarrow> mem' x = mem x"
  using assms
proof (induction bs arbitrary: mem a thesis)
  case (Cons b bs)
  define mem1 where "mem1 = mem(a \<mapsto> b)"
  have m: "mem a \<noteq> None" using Cons.prems(2) [of 0] by simp
  have step: "vm_store_bytes mem a (b # bs) = vm_store_bytes mem1 (a + 1) bs" using m by (auto simp: mem1_def)
  have mapped: "mem1 (a + 1 + of_nat i) \<noteq> None" if "i < length bs" for i
    using Cons.prems(2) [of "Suc i"] that by (auto simp: mem1_def add.assoc)
  from Cons.IH [of mem1 "a + 1", OF _ mapped] Cons.prems(3) obtain mem' where
    r: "vm_store_bytes mem1 (a + 1) bs = Some mem'" "\<And>i. i < length bs \<Longrightarrow> mem' (a + 1 + of_nat i) = Some (bs ! i)"
    "\<And>x. (\<And>i. i < length bs \<Longrightarrow> x \<noteq> a + 1 + of_nat i) \<Longrightarrow> mem' x = mem1 x" by (metis Suc_lessD length_Cons)
  have ne: "a \<noteq> a + 1 + of_nat i" if "i < length bs" for i
    using of_nat_distinct [of "Suc i" 0] that Cons.prems(3) by (auto simp: add.assoc)
  show ?case
  proof (rule Cons.prems(1))
    show "vm_store_bytes mem a (b # bs) = Some mem'" by (simp only: step r(1))
    show "mem' (a + of_nat i) = Some ((b # bs) ! i)" if "i < length (b # bs)" for i
    proof (cases i)
      case 0 then show ?thesis using r(3) [OF ne] by (simp add: mem1_def)
    next
      case (Suc j) then show ?thesis using r(2) [of j] that by (simp add: add.assoc)
    qed
    show "mem' x = mem x" if "\<And>i. i < length (b # bs) \<Longrightarrow> x \<noteq> a + of_nat i" for x
    proof -
      have "x \<noteq> a + 1 + of_nat i" if "i < length bs" for i
        using \<open>\<And>i. i < length (b # bs) \<Longrightarrow> x \<noteq> a + of_nat i\<close> [of "Suc i"] that by (simp add: add.assoc)
      moreover have "x \<noteq> a" using \<open>\<And>i. i < length (b # bs) \<Longrightarrow> x \<noteq> a + of_nat i\<close> [of 0] by simp
      ultimately show ?thesis using r(3) by (simp add: mem1_def)
    qed
  qed
qed simp

lemma le_word_le_bytes_take: "(le_word (le_bytes n v) :: u64) = take_bit (8 * n) (v :: u64)"
proof (rule bit_word_eqI)
  fix i :: nat
  have "8 * (i div 8) + i mod 8 = i" by simp
  then show "bit (le_word (le_bytes n v) :: u64) i = bit (take_bit (8 * n) v) i" if "i < LENGTH(64)"
    using that by (auto simp: bit_le_word bit_take_bit_iff le_bytes_def bit_unsigned_iff bit_drop_bit_eq)
qed

section \<open>Frames\<close>

text \<open>The address of a byte of the frame, and a frame whose bytes are mapped.\<close>

definition frame_addr :: "Frame \<Rightarrow> nat \<Rightarrow> u64" where
  "frame_addr fr i = frame_data fr + of_nat i"

definition frame_mapped :: "Frame \<Rightarrow> vm_memory \<Rightarrow> bool" where
  "frame_mapped fr mem \<longleftrightarrow> (\<forall>i < unat (fr_size fr). mem (frame_addr fr i) \<noteq> None)"

text \<open>The memories differ at most at the given offsets of the frame.\<close>

definition same_except :: "Frame \<Rightarrow> nat set \<Rightarrow> vm_memory \<Rightarrow> vm_memory \<Rightarrow> bool" where
  "same_except fr W mem mem' \<longleftrightarrow> (\<forall>x. (\<forall>i\<in>W. x \<noteq> frame_addr fr i) \<longrightarrow> mem' x = mem x)"

lemma same_except_refl [simp]: "same_except fr W mem mem"
  by (simp add: same_except_def)

lemma same_except_trans:
  "same_except fr W mem mem' \<Longrightarrow> same_except fr W' mem' mem'' \<Longrightarrow> W \<subseteq> V \<Longrightarrow> W' \<subseteq> V \<Longrightarrow> same_except fr V mem mem''"
  unfolding same_except_def by (metis subsetD)

lemma frame_bound: "unat (fr_size fr) < 2 ^ 64"
  using unsigned_less [of "fr_size fr", where ?'a = nat] by simp

lemma frame_addr_inj: "i < unat (fr_size fr) \<Longrightarrow> j < unat (fr_size fr) \<Longrightarrow> frame_addr fr i = frame_addr fr j \<Longrightarrow> i = j"
  using frame_bound [of fr] by (auto simp: frame_addr_def intro!: of_nat_distinct)

lemma same_except_at:
  assumes "same_except fr W mem mem'" and "i < unat (fr_size fr)" and "W \<subseteq> {..<unat (fr_size fr)}" and "i \<notin> W"
  shows "mem' (frame_addr fr i) = mem (frame_addr fr i)"
  using assms frame_addr_inj [of i fr] unfolding same_except_def by (metis lessThan_iff subsetD)

text \<open>A local of a primitive type, read by value.\<close>

definition value_at :: "machine \<Rightarrow> Frame \<Rightarrow> vm_memory \<Rightarrow> PrimType \<Rightarrow> u32 \<Rightarrow> u64 option" where
  "value_at M fr mem t off = LocalAt M fr mem t (LocalVar_Encode (LocalVar_new off Value))"

lemma GetAddressMode_new [simp]: "GetAddressMode (LocalVar_new off mode) = mode"
proof (cases mode)
  case Address
  then show ?thesis by (simp add: GetAddressMode_def LocalVar_new_def mode_bit_def bit_push_bit_iff bit_0)
next
  case Value
  then show ?thesis by (simp add: GetAddressMode_def LocalVar_new_def mode_bit_def bit_or_iff)
qed

lemma prim_size_pos: "0 < prim_size t" "prim_size t \<le> 8"
  by (cases t, simp_all add: prim_size_def)+

lemma unat_offset: "unat (ucast (off :: u32) :: u64) = unat off"
  by (rule unat_ucast_64)

lemma PtrToLocalAt_new:
  assumes "unat off < 2 ^ 31" and "unat off < unat (fr_size fr)"
  shows "PtrToLocalAt fr (LocalVar_new off mode) = Some (frame_addr fr (unat off))"
proof -
  have "(ucast off :: u64) = of_nat (unat off)" by (simp add: word_unat_eq_iff unsigned_of_nat take_bit_nat_eq_self)
  moreover have "\<not> ucast off \<ge> fr_size fr" using assms(2) by (simp add: word_le_nat_alt unat_offset not_le)
  ultimately show ?thesis
    by (simp add: PtrToLocalAt_def EnsureInFrame_def LocalVar_GetOffset_new [OF assms(1)] frame_addr_def)
qed

definition prim_ok :: "PrimType \<Rightarrow> u64 \<Rightarrow> bool" where
  "prim_ok t v \<longleftrightarrow> take_bit (8 * prim_size t) v = v \<and> (t = P_bool \<longrightarrow> v = 0 \<or> v = 1)"

lemma value_at_Some:
  assumes "unat off < 2 ^ 31" and "unat off < unat (fr_size fr)"
  shows "value_at M fr mem t off = Some v \<longleftrightarrow>
    (\<exists>bs. vm_load_bytes mem (frame_addr fr (unat off)) (prim_size t) = Some bs \<and> v = le_word bs \<and> (t = P_bool \<longrightarrow> v = 0 \<or> v = 1))"
  by (auto simp: value_at_def LocalAt_def PtrToLocalAt_new [OF assms] Let_def checked split: bind_splits)

lemma LocalPtr_new:
  assumes "unat off < 2 ^ 31" and "unat off < unat (fr_size fr)"
  shows "LocalPtr M fr mem (LocalVar_Encode (LocalVar_new off Address)) = Some (frame_addr fr (unat off))"
  by (simp add: LocalAt_def PtrToLocalAt_new [OF assms] prim_float_def prim_size_def take_bit_word_eq_self)

lemma load_take_bit:
  assumes "vm_load_bytes mem a n = Some bs"
  shows "take_bit (8 * n) (le_word bs :: u64) = le_word bs"
  using assms by (intro bit_word_eqI) (auto simp: bit_take_bit_iff bit_le_word vm_load_bytes_Some)

lemma value_at_ok:
  assumes "unat off < 2 ^ 31" and "unat off < unat (fr_size fr)" and "value_at M fr mem t off = Some v"
  shows "prim_ok t v"
  using assms(3) load_take_bit unfolding value_at_Some [OF assms(1,2)] prim_ok_def by metis

text \<open>What a store into a slot of the frame does.\<close>

lemma store_slot:
  assumes "frame_mapped fr mem" and b: "unat off + n \<le> unat (fr_size fr)" and "length bs = n"
  obtains mem' where "vm_store_bytes mem (frame_addr fr (unat off)) bs = Some mem'" "frame_mapped fr mem'"
    "same_except fr {unat off..<unat off + n} mem mem'" "vm_load_bytes mem' (frame_addr fr (unat off)) n = Some bs"
proof -
  have e: "frame_addr fr (unat off) + of_nat i = frame_addr fr (unat off + i)" for i by (simp add: frame_addr_def add.assoc)
  have "mem (frame_addr fr (unat off) + of_nat i) \<noteq> None" if "i < length bs" for i
    using assms that by (auto simp: e frame_mapped_def)
  moreover have "length bs < 2 ^ 64" using assms frame_bound [of fr] by simp
  ultimately obtain mem' where r: "vm_store_bytes mem (frame_addr fr (unat off)) bs = Some mem'"
    "\<And>i. i < length bs \<Longrightarrow> mem' (frame_addr fr (unat off + i)) = Some (bs ! i)"
    "\<And>x. (\<And>i. i < length bs \<Longrightarrow> x \<noteq> frame_addr fr (unat off + i)) \<Longrightarrow> mem' x = mem x"
    by (rule vm_store_bytes_result) (auto simp: e)
  have same: "same_except fr {unat off..<unat off + n} mem mem'"
    using r(3) assms(3) by (auto simp: same_except_def)
  have "frame_mapped fr mem'" unfolding frame_mapped_def
  proof (intro allI impI)
    fix i assume i: "i < unat (fr_size fr)"
    show "mem' (frame_addr fr i) \<noteq> None"
    proof (cases "i \<in> {unat off..<unat off + n}")
      case True
      then show ?thesis using r(2) [of "i - unat off"] assms(3) by auto
    next
      case False
      then show ?thesis using same_except_at [OF same i] assms(1) b i by (auto simp: frame_mapped_def subset_iff)
    qed
  qed
  moreover have "vm_load_bytes mem' (frame_addr fr (unat off)) n = Some bs"
    using r(2) assms(3) by (auto simp: vm_load_bytes_Some e)
  ultimately show ?thesis using that r(1) same by blast
qed

lemma store_value:
  assumes "frame_mapped fr mem" and "unat off + prim_size t \<le> unat (fr_size fr)" and "unat off < 2 ^ 31" and "prim_ok t v"
  obtains mem' where "vm_store_bytes mem (frame_addr fr (unat off)) (le_bytes (prim_size t) v) = Some mem'" "frame_mapped fr mem'"
    "same_except fr {unat off..<unat off + prim_size t} mem mem'" "value_at M fr mem' t off = Some v"
proof -
  from store_slot [OF assms(1,2)] obtain mem' where
    r: "vm_store_bytes mem (frame_addr fr (unat off)) (le_bytes (prim_size t) v) = Some mem'" "frame_mapped fr mem'"
    "same_except fr {unat off..<unat off + prim_size t} mem mem'"
    "vm_load_bytes mem' (frame_addr fr (unat off)) (prim_size t) = Some (le_bytes (prim_size t) v)" by (metis length_le_bytes)
  have "unat off < unat (fr_size fr)" using assms(2) prim_size_pos(1) [of t] by linarith
  with r(4) assms(3,4) have "value_at M fr mem' t off = Some v"
    by (simp add: value_at_Some le_word_le_bytes_take prim_ok_def)
  with r show ?thesis using that by blast
qed

lemma value_at_same:
  assumes "same_except fr W mem mem'" and "W \<subseteq> {..<unat (fr_size fr)}" and "W \<inter> {unat off..<unat off + prim_size t} = {}"
    and "unat off + prim_size t \<le> unat (fr_size fr)" and "unat off < 2 ^ 31"
  shows "value_at M fr mem' t off = value_at M fr mem t off"
proof -
  have o: "unat off < unat (fr_size fr)" using assms(4) prim_size_pos(1) [of t] by linarith
  have e: "frame_addr fr (unat off) + of_nat i = frame_addr fr (unat off + i)" for i by (simp add: frame_addr_def add.assoc)
  have "mem' (frame_addr fr (unat off + i)) = mem (frame_addr fr (unat off + i))" if "i < prim_size t" for i
    using that assms(3,4) by (intro same_except_at [OF assms(1) _ assms(2)]) auto
  then have "vm_load_bytes mem' (frame_addr fr (unat off)) (prim_size t) = vm_load_bytes mem (frame_addr fr (unat off)) (prim_size t)"
    by (intro load_cong) (simp add: e)
  then show ?thesis by (simp add: value_at_def LocalAt_def PtrToLocalAt_new [OF assms(5) o])
qed

section \<open>Steps of the interpreter\<close>

text \<open>The bytes stand in the code of the module at the position.\<close>

definition placed :: "Module \<Rightarrow> nat \<Rightarrow> u8 list \<Rightarrow> bool" where
  "placed m pos bytes \<longleftrightarrow> (\<exists>pre post. m_code m = pre @ bytes @ post \<and> length pre = pos)"

lemma placed_append: "placed m pos (xs @ ys) \<Longrightarrow> placed m pos xs \<and> placed m (pos + length xs) ys"
  unfolding placed_def by (metis append.assoc length_append)

lemma placed_load: "placed m pos (bs @ rest) \<Longrightarrow> load (length bs) (m_code m) pos = Some (le_word bs)"
  by (auto simp: placed_def load_def)

lemma placed_operand:
  assumes "placed m pos (le_bytes 4 (w :: u32) @ rest)"
  shows "Read 4 (m_code m) pos = Some (w, pos + 4)" "Peek_code 4 (m_code m) pos = Some w" "placed m (pos + 4) rest"
  using placed_load [OF assms, where 'a = 32] placed_append [OF assms] by (simp_all add: Read_def Peek_code_def)

text \<open>Execution reaches the second position and memory from the first, whatever fuel is left.\<close>

definition runs :: "machine \<Rightarrow> Module \<Rightarrow> Frame \<Rightarrow> nat \<times> vm_memory \<Rightarrow> nat \<times> vm_memory \<Rightarrow> bool" where
  "runs M m fr s s' \<longleftrightarrow> (\<exists>k. \<forall>n. Interpret (k + n) M m (fst s) fr (snd s) = Interpret n M m (fst s') fr (snd s'))"

lemma runs_refl [simp]: "runs M m fr s s"
  by (auto simp: runs_def intro: exI [of _ 0])

lemma runs_trans: "runs M m fr s s' \<Longrightarrow> runs M m fr s' s'' \<Longrightarrow> runs M m fr s s''"
proof -
  assume "runs M m fr s s'" "runs M m fr s' s''"
  then obtain k k' where "\<forall>n. Interpret (k + n) M m (fst s) fr (snd s) = Interpret n M m (fst s') fr (snd s')"
    "\<forall>n. Interpret (k' + n) M m (fst s') fr (snd s') = Interpret n M m (fst s'') fr (snd s'')" by (auto simp: runs_def)
  then have "\<forall>n. Interpret (k + k' + n) M m (fst s) fr (snd s) = Interpret n M m (fst s'') fr (snd s'')"
    by (simp only: add.assoc) simp
  then show ?thesis unfolding runs_def by blast
qed

lemma known_core_op: "known (Core c)"
proof -
  have "map_of TYPED_LIST (Core c) = None" by (auto simp: TYPED_LIST_def map_of_eq_None_iff)
  then show ?thesis by (cases c) (simp_all add: known_def BYTECODE_LIST_def map_add_def CORE_LIST_def)
qed

lemma runs_step:
  assumes "placed m pos (le_bytes 4 (ToByte b) @ rest)" and "known b" and "b \<noteq> Core Return" "b \<noteq> Core Call"
    and "handle M b (m_code m) fr (pos + 4) mem = Some s'"
  shows "runs M m fr (pos, mem) s'"
proof -
  have "Interpret (Suc n) M m pos fr mem = Interpret n M m (fst s') fr (snd s')" for n
    using assms placed_operand(1) [OF assms(1)] by (cases s') (simp add: known_FromByte)
  then show ?thesis unfolding runs_def by (intro exI [of _ 1]) simp
qed

lemmas scalar_bytes_local = scalar_bytes.simps(5)

text \<open>A step that stores a value into a slot.\<close>

definition stored :: "machine \<Rightarrow> Module \<Rightarrow> Frame \<Rightarrow> nat \<times> vm_memory \<Rightarrow> nat \<Rightarrow> PrimType \<Rightarrow> u32 \<Rightarrow> u64 \<Rightarrow> bool" where
  "stored M m fr s pos' t d v \<longleftrightarrow> (\<exists>mem'. runs M m fr s (pos', mem') \<and> frame_mapped fr mem' \<and>
     same_except fr {unat d..<unat d + prim_size t} (snd s) mem' \<and> value_at M fr mem' t d = Some v)"

definition slot_ok :: "Frame \<Rightarrow> PrimType \<Rightarrow> u32 \<Rightarrow> bool" where
  "slot_ok fr t d \<longleftrightarrow> unat d + prim_size t \<le> unat (fr_size fr) \<and> unat d < 2 ^ 31"

lemma slot_ok_less: "slot_ok fr t d \<Longrightarrow> unat d < unat (fr_size fr)" "slot_ok fr t d \<Longrightarrow> unat d < 2 ^ 31"
  using prim_size_pos(1) [of t] unfolding slot_ok_def by linarith+

lemma LocalPtr_slot:
  assumes "slot_ok fr t d"
  shows "LocalPtr M fr mem (LocalVar_Encode (LocalVar_new d Address)) = Some (frame_addr fr (unat d))"
  by (rule LocalPtr_new [OF slot_ok_less(2) [OF assms] slot_ok_less(1) [OF assms]])

lemma stored_step:
  assumes "frame_mapped fr mem" and d: "slot_ok fr t d" and "prim_ok t v"
    and "\<And>mem'. vm_store_bytes mem (frame_addr fr (unat d)) (le_bytes (prim_size t) v) = Some mem' \<Longrightarrow>
      runs M m fr (pos, mem) (pos', mem')"
  shows "stored M m fr (pos, mem) pos' t d v"
proof -
  from store_value [OF assms(1), of d t v M] d assms(3) obtain mem' where
    "vm_store_bytes mem (frame_addr fr (unat d)) (le_bytes (prim_size t) v) = Some mem'" "frame_mapped fr mem'"
    "same_except fr {unat d..<unat d + prim_size t} mem mem'" "value_at M fr mem' t d = Some v"
    by (auto simp: slot_ok_def)
  with assms(4) show ?thesis by (auto simp: stored_def)
qed

lemma run_binary:
  assumes pl: "placed m pos (instruction_bytes b [SLocal (LocalVar_new d Address), SLocal (LocalVar_new x Value), SLocal (LocalVar_new y Value)])"
    and b: "known b" "b \<noteq> Core Return" "b \<noteq> Core Call" and h: "handle M b = binary_op M rt t f"
    and v: "value_at M fr mem t x = Some a" "value_at M fr mem t y = Some c" "f a c = Some v"
    and "prim_ok rt v" "frame_mapped fr mem" "slot_ok fr rt d"
  shows "stored M m fr (pos, mem) (pos + 16) rt d v"
proof (rule stored_step)
  fix mem' assume st: "vm_store_bytes mem (frame_addr fr (unat d)) (le_bytes (prim_size rt) v) = Some mem'"
  from pl have p: "placed m pos (le_bytes 4 (ToByte b) @ le_bytes 4 (LocalVar_Encode (LocalVar_new d Address)) @
      le_bytes 4 (LocalVar_Encode (LocalVar_new x Value)) @ le_bytes 4 (LocalVar_Encode (LocalVar_new y Value)) @ [])"
    by (simp add: instruction_bytes_def)
  note p1 = placed_operand [OF p] note p2 = placed_operand [OF p1(3)]
  note p3 = placed_operand [OF p2(3)] note p4 = placed_operand [OF p3(3)]
  show "runs M m fr (pos, mem) (pos + 16, mem')"
    using p2(1) p3(1) p4(1) v st
    by (intro runs_step [OF p b]) (simp add: h binary_op_def LocalPtr_slot [OF assms(11)] store_prim_def value_at_def)
qed (use assms in auto)

lemma run_unary:
  assumes pl: "placed m pos (instruction_bytes b [SLocal (LocalVar_new d Address), SLocal (LocalVar_new x Value)])"
    and b: "known b" "b \<noteq> Core Return" "b \<noteq> Core Call" and h: "handle M b = unary_op M rt t f"
    and v: "value_at M fr mem t x = Some a" "f a = Some v"
    and "prim_ok rt v" "frame_mapped fr mem" "slot_ok fr rt d"
  shows "stored M m fr (pos, mem) (pos + 12) rt d v"
proof (rule stored_step)
  fix mem' assume st: "vm_store_bytes mem (frame_addr fr (unat d)) (le_bytes (prim_size rt) v) = Some mem'"
  from pl have p: "placed m pos (le_bytes 4 (ToByte b) @ le_bytes 4 (LocalVar_Encode (LocalVar_new d Address)) @
      le_bytes 4 (LocalVar_Encode (LocalVar_new x Value)) @ [])"
    by (simp add: instruction_bytes_def)
  note p1 = placed_operand [OF p] note p2 = placed_operand [OF p1(3)] note p3 = placed_operand [OF p2(3)]
  show "runs M m fr (pos, mem) (pos + 12, mem')"
    using p2(1) p3(1) v st
    by (intro runs_step [OF p b]) (simp add: h unary_op_def LocalPtr_slot [OF assms(10)] store_prim_def value_at_def)
qed (use assms in auto)

text \<open>A conditional jump; the offset of the jump counts from its operand.\<close>

lemma sint_small: "int n < 2 ^ 31 \<Longrightarrow> sint (of_nat n :: u32) = int n"
  by (simp add: sint_uint uint_nat unsigned_of_nat take_bit_nat_eq_self signed_take_bit_int_eq_self)

lemma run_jump:
  assumes pl: "placed m pos (instruction_bytes b [SLocal (LocalVar_new x Value)] @ le_bytes 4 (of_nat n :: u32))"
    and b: "b = Core JumpIfTrue \<and> taken = (\<lambda>v. v \<noteq> 0) \<or> b = Core JumpIfFalse \<and> taken = (\<lambda>v. v = 0)"
    and v: "value_at M fr mem P_bool x = Some v" and n: "n < 2 ^ 31"
  shows "runs M m fr (pos, mem) (if taken v then pos + 8 + n else pos + 12, mem)"
proof -
  from pl have p: "placed m pos (le_bytes 4 (ToByte b) @ le_bytes 4 (LocalVar_Encode (LocalVar_new x Value)) @
      le_bytes 4 (of_nat n :: u32) @ [])" by (simp add: instruction_bytes_def)
  note p1 = placed_operand [OF p] note p2 = placed_operand [OF p1(3)] note p3 = placed_operand [OF p2(3)]
  have h: "handle M b = jump_op M taken" and k: "known b" "b \<noteq> Core Return" "b \<noteq> Core Call"
    using b by (auto simp: known_core_op)
  show ?thesis
    using p2(1) p3(2) v n
    by (intro runs_step [OF p k]) (auto simp: h jump_op_def value_at_def advance_def sint_small nat_add_distrib)
qed

lemma le_bytes_le_word:
  assumes "length bs = n" and "n \<le> 8"
  shows "le_bytes n (le_word bs :: u64) = bs"
proof (rule nth_equalityI)
  show "length (le_bytes n (le_word bs :: u64)) = length bs" using assms by simp
  fix i assume "i < length (le_bytes n (le_word bs :: u64))"
  then have i: "i < n" by simp
  show "le_bytes n (le_word bs :: u64) ! i = bs ! i"
  proof (rule bit_word_eqI)
    fix j assume "j < LENGTH(8)"
    then have "j < 8" by simp
    then have "(8 * i + j) div 8 = i" "(8 * i + j) mod 8 = j" "8 * i + j < 8 * n" using i by auto
    then show "bit (le_bytes n (le_word bs :: u64) ! i) j = bit (bs ! i) j"
      using i \<open>j < 8\<close> assms by (simp add: le_bytes_def bit_unsigned_iff bit_drop_bit_eq bit_le_word)
  qed
qed

lemma value_at_resize:
  assumes "value_at M fr mem t x = Some v" and "prim_size t = prim_size t'" and "slot_ok fr t x" and "t' = P_bool \<longrightarrow> v = 0 \<or> v = 1"
  shows "value_at M fr mem t' x = Some v"
  using assms(1,2,4) by (auto simp: value_at_Some [OF slot_ok_less(2) [OF assms(3)] slot_ok_less(1) [OF assms(3)]])

lemma run_imm:
  assumes pl: "placed m pos (instruction_bytes (Core c) [SLocal (LocalVar_new d Address), s])"
    and c: "core_handler M c = imm_op M (prim_size t)" "c \<noteq> Return" "c \<noteq> Call"
    and s: "length (scalar_bytes s) = prim_size t" "le_word (scalar_bytes s) = v"
    and "prim_ok t v" "frame_mapped fr mem" and d: "slot_ok fr t d"
  shows "stored M m fr (pos, mem) (pos + 8 + prim_size t) t d v"
proof (rule stored_step)
  fix mem' assume st: "vm_store_bytes mem (frame_addr fr (unat d)) (le_bytes (prim_size t) v) = Some mem'"
  from pl have p: "placed m pos (le_bytes 4 (ToByte (Core c)) @ le_bytes 4 (LocalVar_Encode (LocalVar_new d Address)) @ scalar_bytes s @ [])"
    by (simp add: instruction_bytes_def)
  note p1 = placed_operand [OF p] note p2 = placed_operand [OF p1(3)]
  have p3: "Read (prim_size t) (m_code m) (pos + 8) = Some (v, pos + 8 + prim_size t)"
    using placed_load [OF p2(3), where 'a = 64] s by (simp add: Read_def add.commute)
  show "runs M m fr (pos, mem) (pos + 8 + prim_size t, mem')"
    using p2(1) p3 c st
    by (intro runs_step [OF p known_core_op]) (simp_all add: imm_op_def LocalPtr_slot [OF d] add.commute)
qed (use assms in auto)

lemma run_deref:
  assumes pl: "placed m pos (instruction_bytes (Core c) [SLocal (LocalVar_new d Address), SLocal (LocalVar_new x Address)])"
    and c: "core_handler M c = deref_op M (prim_size t)" "c \<noteq> Return" "c \<noteq> Call"
    and v: "value_at M fr mem t x = Some v" and x: "slot_ok fr t x"
    and "frame_mapped fr mem" and d: "slot_ok fr t d"
  shows "stored M m fr (pos, mem) (pos + 12) t d v"
proof (rule stored_step)
  fix mem' assume st: "vm_store_bytes mem (frame_addr fr (unat d)) (le_bytes (prim_size t) v) = Some mem'"
  from pl have p: "placed m pos (le_bytes 4 (ToByte (Core c)) @ le_bytes 4 (LocalVar_Encode (LocalVar_new d Address)) @
      le_bytes 4 (LocalVar_Encode (LocalVar_new x Address)) @ [])"
    by (simp add: instruction_bytes_def)
  note p1 = placed_operand [OF p] note p2 = placed_operand [OF p1(3)] note p3 = placed_operand [OF p2(3)]
  from v obtain bs where bs: "vm_load_bytes mem (frame_addr fr (unat x)) (prim_size t) = Some bs" "v = le_word bs"
    by (auto simp: value_at_Some [OF slot_ok_less(2) [OF x] slot_ok_less(1) [OF x]])
  then have "le_bytes (prim_size t) v = bs" by (simp add: le_bytes_le_word vm_load_bytes_Some prim_size_pos)
  with bs(1) st have "copy_memory mem (frame_addr fr (unat d)) (frame_addr fr (unat x)) (prim_size t) = Some mem'"
    by (simp add: copy_memory_def)
  then show "runs M m fr (pos, mem) (pos + 12, mem')"
    using p2(1) p3(1) c
    by (intro runs_step [OF p known_core_op]) (simp_all add: deref_op_def LocalPtr_slot [OF d] LocalPtr_slot [OF x])
qed (use assms value_at_ok [OF slot_ok_less(2) [OF x] slot_ok_less(1) [OF x] v] in auto)

text \<open>Copies of a slot, as \<^verbatim>\<open>BuildAssign\<close> and \<^verbatim>\<open>BuildDeref\<close> emit them.\<close>

definition assign_op :: "nat \<Rightarrow> CoreOp" where
  "assign_op n = (if n = 1 then Assign1 else if n = 2 then Assign2 else if n = 4 then Assign4 else Assign8)"

definition deref_core :: "nat \<Rightarrow> CoreOp" where
  "deref_core n = (if n = 1 then Deref1 else if n = 2 then Deref2 else if n = 4 then Deref4 else Deref8)"

lemma run_assign:
  assumes pl: "placed m pos (instruction_bytes (Core (assign_op (prim_size t))) [SLocal (LocalVar_new d Address), SLocal (LocalVar_new x Value)])"
    and v: "value_at M fr mem t x = Some v" and x: "slot_ok fr t x"
    and "frame_mapped fr mem" and d: "slot_ok fr t d"
  shows "stored M m fr (pos, mem) (pos + 12) t d v"
proof -
  obtain t' where t': "prim_size t' = prim_size t" "t' \<noteq> P_bool" "core_handler M (assign_op (prim_size t)) = unary_op M t' t' Some"
    by (rule that [of "if prim_size t = 1 then P_int8 else if prim_size t = 2 then P_int16 else if prim_size t = 4 then P_int32 else P_int64"];
      cases t) (simp_all add: prim_size_def assign_op_def)
  note ok = value_at_ok [OF slot_ok_less(2) [OF x] slot_ok_less(1) [OF x] v]
  have n: "assign_op (prim_size t) \<noteq> Return" "assign_op (prim_size t) \<noteq> Call" by (simp_all add: assign_op_def)
  have "stored M m fr (pos, mem) (pos + 12) t' d v"
  proof (rule run_unary [OF pl known_core_op _ _ _ value_at_resize [OF v]])
    show "handle M (Core (assign_op (prim_size t))) = unary_op M t' t' Some" by (simp add: t'(3))
    show "prim_ok t' v" using ok t'(1,2) by (simp add: prim_ok_def)
    show "slot_ok fr t' d" using d t'(1) by (simp add: slot_ok_def)
  qed (use assms t' n in auto)
  then obtain mem' where r: "runs M m fr (pos, mem) (pos + 12, mem')" "frame_mapped fr mem'"
    "same_except fr {unat d..<unat d + prim_size t} mem mem'" "value_at M fr mem' t' d = Some v"
    by (auto simp: stored_def t'(1))
  have "value_at M fr mem' t d = Some v"
    using value_at_resize [OF r(4) t'(1)] d ok t'(1) by (simp add: slot_ok_def prim_ok_def)
  with r show ?thesis by (auto simp: stored_def)
qed

lemma run_copy:
  assumes pl: "placed m pos (instruction_bytes (Core (deref_core (prim_size t))) [SLocal (LocalVar_new d Address), SLocal (LocalVar_new x Address)])"
    and "value_at M fr mem t x = Some v" "slot_ok fr t x" "frame_mapped fr mem" "slot_ok fr t d"
  shows "stored M m fr (pos, mem) (pos + 12) t d v"
  by (rule run_deref [OF pl]) (use assms in \<open>cases t; simp add: deref_core_def prim_size_def\<close>)+

end
