(* ===== verification/BytecodeGenerator.thy ===== *)
theory BytecodeGenerator
  imports SemaVisit Bytecodes
begin

text \<open>
  The bytecode generator (\<^verbatim>\<open>vm/bytecode_generator.cpp\<close>, \<^verbatim>\<open>vm/control_flow_builders.cpp\<close>), a visitor of the typed
  tree. Each visitor of the source is one definition; the visits of its children are arguments of type \<open>gvisit\<close>, and
  \<open>gen_VisitExpr\<close>, \<open>gen_VisitStmt\<close> and \<open>gen_VisitDecl\<close> at the end dispatch on the node and close the recursion.

  \<^verbatim>\<open>execution_result_\<close>, the innermost \<^verbatim>\<open>ExpressionResultScope\<close> or null, is passed to every visit and returned by it. A
  label is a value that the emitter returns updated. A null pointer, a failed assertion, \<^verbatim>\<open>UNREACHABLE\<close> and
  the exception for unsupported casts give \<open>None\<close>.
\<close>

section \<open>The state\<close>

datatype ExprContext = LValue | RValue

record ExpressionResult =
  er_kind :: ExprContext
  er_destination :: LocalVar

record Generator =
  g_data :: "u8 list"
  g_code :: bytecode_array
  static_locals :: "LocalInfo list"
  static_locals_versions :: "(string \<times> u32) list"
  static_string_cache :: "(string \<times> LocalVar) list"
  g_functions :: "FunctionInfo list"
  func_map :: "(string \<times> u16) list"

definition BytecodeGenerator_new :: Generator where
  "BytecodeGenerator_new = \<lparr>g_data = [], g_code = [], static_locals = [], static_locals_versions = [],
     static_string_cache = [], g_functions = [], func_map = []\<rparr>"

type_synonym gvisit = "ExpressionResult option \<Rightarrow> Generator \<Rightarrow> (ExpressionResult option \<times> Generator) option"

definition emit :: "(bytecode_array \<Rightarrow> bytecode_array) \<Rightarrow> Generator \<Rightarrow> Generator" where
  "emit f g = g\<lparr>g_code := f (g_code g)\<rparr>"

definition try_emit :: "(bytecode_array \<Rightarrow> bytecode_array option) \<Rightarrow> Generator \<Rightarrow> Generator option" where
  "try_emit f g = do { code \<leftarrow> f (g_code g); Some (g\<lparr>g_code := code\<rparr>) }"

definition emit_label ::
  "(bytecode_array \<Rightarrow> (BytecodeLabel \<times> bytecode_array) option) \<Rightarrow> Generator \<Rightarrow> (BytecodeLabel \<times> Generator) option" where
  "emit_label f g = do { (label, code) \<leftarrow> f (g_code g); Some (label, g\<lparr>g_code := code\<rparr>) }"

definition GetCurrentFunction :: "Generator \<Rightarrow> FunctionInfo option" where
  "GetCurrentFunction g = (if g_functions g = [] then None else Some (last (g_functions g)))"

definition SetCurrentFunction :: "FunctionInfo \<Rightarrow> Generator \<Rightarrow> Generator" where
  "SetCurrentFunction f g = g\<lparr>g_functions := butlast (g_functions g) @ [f]\<rparr>"

definition gen_NewLocal :: "llvm \<Rightarrow> abi \<Rightarrow> Type \<Rightarrow> string \<Rightarrow> Generator \<Rightarrow> (LocalVar \<times> Generator) option" where
  "gen_NewLocal L A type name g = do {
     f \<leftarrow> GetCurrentFunction g;
     (local, f) \<leftarrow> NewLocal L A type name f;
     Some (local, SetCurrentFunction f g) }"

definition GetSize :: "llvm \<Rightarrow> abi \<Rightarrow> Type \<Rightarrow> u32 option" where
  "GetSize L A type = map_option fst (type_layout L A type)"

section \<open>Results of expressions\<close>

definition HasDestination :: "ExpressionResult \<Rightarrow> bool" where
  "HasDestination r \<longleftrightarrow> \<not> LocalVar_IsInvalid (er_destination r)"

definition SetDestination :: "LocalVar \<Rightarrow> ExpressionResult \<Rightarrow> ExpressionResult" where
  "SetDestination v r = r\<lparr>er_destination := v\<rparr>"

definition GetOrCreateDestination ::
  "llvm \<Rightarrow> abi \<Rightarrow> Type \<Rightarrow> ExpressionResult \<Rightarrow> Generator \<Rightarrow> (LocalVar \<times> ExpressionResult \<times> Generator) option" where
  "GetOrCreateDestination L A type r g =
     (if \<not> HasDestination r
      then do { (v, g) \<leftarrow> gen_NewLocal L A type [] g; Some (v, SetDestination v r, g) }
      else Some (er_destination r, r, g))"

definition VisitExpressionForLValue :: "gvisit \<Rightarrow> Generator \<Rightarrow> (LocalVar \<times> Generator) option" where
  "VisitExpressionForLValue visit g = do {
     (r, g) \<leftarrow> visit (Some \<lparr>er_kind = LValue, er_destination = LocalVar_invalid\<rparr>) g;
     r \<leftarrow> r;
     Some (er_destination r, g) }"

definition VisitExpressionForRValue :: "gvisit \<Rightarrow> Generator \<Rightarrow> (LocalVar \<times> Generator) option" where
  "VisitExpressionForRValue visit g = do {
     (r, g) \<leftarrow> visit (Some \<lparr>er_kind = RValue, er_destination = LocalVar_invalid\<rparr>) g;
     r \<leftarrow> r;
     Some (er_destination r, g) }"

definition VisitExpressionForRValue_dest :: "gvisit \<Rightarrow> LocalVar \<Rightarrow> Generator \<Rightarrow> Generator option" where
  "VisitExpressionForRValue_dest visit dest g = do {
     (_, g) \<leftarrow> visit (Some \<lparr>er_kind = RValue, er_destination = dest\<rparr>) g;
     Some g }"

definition VisitExpressionForSQLValue :: "gvisit \<Rightarrow> Generator \<Rightarrow> (LocalVar \<times> Generator) option" where
  "VisitExpressionForSQLValue = VisitExpressionForLValue"

datatype TestFallthrough = Fallthrough_None | Fallthrough_Then | Fallthrough_Else

definition VisitExpressionForTest ::
  "gvisit \<Rightarrow> BytecodeLabel \<Rightarrow> BytecodeLabel \<Rightarrow> TestFallthrough \<Rightarrow> Generator \<Rightarrow>
     (BytecodeLabel \<times> BytecodeLabel \<times> Generator) option" where
  "VisitExpressionForTest visit then_label else_label fallthrough g = do {
     (cond, g) \<leftarrow> VisitExpressionForRValue visit g;
     case fallthrough of
       Fallthrough_Then \<Rightarrow> do {
         (else_label, g) \<leftarrow> emit_label (EmitConditionalJump (Core JumpIfFalse) cond else_label) g;
         Some (then_label, else_label, g) }
     | Fallthrough_Else \<Rightarrow> do {
         (then_label, g) \<leftarrow> emit_label (EmitConditionalJump (Core JumpIfTrue) cond then_label) g;
         Some (then_label, else_label, g) }
     | Fallthrough_None \<Rightarrow> do {
         (else_label, g) \<leftarrow> emit_label (EmitConditionalJump (Core JumpIfFalse) cond else_label) g;
         (then_label, g) \<leftarrow> emit_label (EmitJump (Core Jump) then_label) g;
         Some (then_label, else_label, g) } }"

section \<open>Typed instructions, assignments and loads\<close>

definition GetIntTypedBytecode :: "Bytecode \<Rightarrow> Type \<Rightarrow> bool \<Rightarrow> Bytecode option" where
  "GetIntTypedBytecode b type sign = (case type of
     BuiltinType k \<Rightarrow> do {
       tpl_assert (IsIntegerType type);
       FromByte (ToByte b + (of_nat (kind_index k) - of_nat (kind_index (if sign then K_Int8 else K_UInt8)))) }
   | _ \<Rightarrow> None)"

definition GetFloatTypedBytecode :: "Bytecode \<Rightarrow> Type \<Rightarrow> Bytecode option" where
  "GetFloatTypedBytecode b type = (case type of
     BuiltinType k \<Rightarrow> do {
       tpl_assert (IsFloatType type);
       FromByte (ToByte b + (of_nat (kind_index k) - of_nat (kind_index K_Float32))) }
   | _ \<Rightarrow> None)"

definition BuildAssign :: "llvm \<Rightarrow> abi \<Rightarrow> LocalVar \<Rightarrow> LocalVar \<Rightarrow> Type \<Rightarrow> Generator \<Rightarrow> Generator option" where
  "BuildAssign L A dest val dest_type g = do {
     size \<leftarrow> GetSize L A dest_type;
     if size = 1 then try_emit (EmitAssign (Core Assign1) dest val) g
     else if size = 2 then try_emit (EmitAssign (Core Assign2) dest val) g
     else if size = 4 then try_emit (EmitAssign (Core Assign4) dest val) g
     else if size = 8 then try_emit (EmitAssign (Core Assign8) dest val) g
     else Some (emit (EmitAssignN dest val size) g) }"

definition BuildDeref :: "llvm \<Rightarrow> abi \<Rightarrow> LocalVar \<Rightarrow> LocalVar \<Rightarrow> Type \<Rightarrow> Generator \<Rightarrow> Generator option" where
  "BuildDeref L A dest src dest_type g = do {
     size \<leftarrow> GetSize L A dest_type;
     if size = 1 then try_emit (EmitDeref (Core Deref1) dest src) g
     else if size = 2 then try_emit (EmitDeref (Core Deref2) dest src) g
     else if size = 4 then try_emit (EmitDeref (Core Deref4) dest src) g
     else if size = 8 then try_emit (EmitDeref (Core Deref8) dest src) g
     else Some (emit (EmitDerefN dest src size) g) }"

definition BuildLoadPointer :: "llvm \<Rightarrow> abi \<Rightarrow> LocalVar \<Rightarrow> Type \<Rightarrow> Generator \<Rightarrow> (LocalVar \<times> Generator) option" where
  "BuildLoadPointer L A double_ptr type g =
     (if GetAddressMode double_ptr = Address then Some (ValueOf double_ptr, g)
      else do {
        (loaded, g) \<leftarrow> gen_NewLocal L A type [] g;
        g \<leftarrow> try_emit (EmitDeref (Core Deref8) loaded double_ptr) g;
        Some (ValueOf loaded, g) })"

section \<open>Static data and functions\<close>

definition NewStatic :: "llvm \<Rightarrow> abi \<Rightarrow> string \<Rightarrow> Type \<Rightarrow> u8 list \<Rightarrow> Generator \<Rightarrow> (LocalVar \<times> Generator) option" where
  "NewStatic L A name type contents g = do {
     (size, alignment) \<leftarrow> type_layout L A type;
     let len = (of_nat (length (g_data g)) :: u64);
     aligned \<leftarrow> IsAligned L len (ucast alignment);
     let offset = (if \<not> aligned then AlignTo L len (ucast alignment) else len);
     let padding = unat (offset - len);
     tpl_assert (length contents \<ge> unat size);
     let version = (case map_of (static_locals_versions g) name of Some v \<Rightarrow> v | None \<Rightarrow> 0);
     let info = \<lparr>li_name = name @ ''_'' @ to_string (unat version), li_type = type, li_offset = ucast offset, li_size = size,
       li_kind = LocalKind_Var\<rparr>;
     Some (LocalVar_new (ucast offset) Address,
       g\<lparr>g_data := g_data g @ replicate padding 0 @ take (unat size) contents,
         static_locals_versions := (name, version + 1) # static_locals_versions g,
         static_locals := static_locals g @ [info]\<rparr>) }"

definition NewStaticString :: "llvm \<Rightarrow> abi \<Rightarrow> string \<Rightarrow> Generator \<Rightarrow> (LocalVar \<times> Generator) option" where
  "NewStaticString L A str g =
     (case map_of (static_string_cache g) str of
        Some v \<Rightarrow> Some (LocalVar_new (LocalVar_GetOffset v) Address, g)
      | None \<Rightarrow> do {
          let type = ArrayType (of_nat (length str)) (BuiltinType K_UInt8);
          (static_local, g) \<leftarrow> NewStatic L A ''stringConst'' type (map of_char str) g;
          Some (static_local, g\<lparr>static_string_cache := (str, static_local) # static_string_cache g\<rparr>) })"

definition AllocateFunc :: "llvm \<Rightarrow> abi \<Rightarrow> string \<Rightarrow> Field list \<times> Type \<Rightarrow> Generator \<Rightarrow> Generator option" where
  "AllocateFunc L A func_name func_type g = do {
     let func_id = of_nat (length (g_functions g));
     let func = FunctionInfo_new func_id func_name func_type;
     func \<leftarrow> (if \<not> IsNilType (snd func_type)
             then map_option snd (NewParameterLocal L A (PointerType (snd func_type)) ''hiddenRv'' func)
             else Some func);
     func \<leftarrow> fold_opt (\<lambda>param func. map_option snd
         (NewParameterLocal L A (snd param) (case fst param of Some n \<Rightarrow> n | None \<Rightarrow> []) func)) (fst func_type) func;
     Some (g\<lparr>g_functions := g_functions g @ [func], func_map := (func_name, func_id) # func_map g\<rparr>) }"

definition kInvalidFuncId :: u16 where
  "kInvalidFuncId = - 1"

definition LookupFuncIdByName :: "string \<Rightarrow> Generator \<Rightarrow> u16" where
  "LookupFuncIdByName name g = (case map_of (func_map g) name of Some func_id \<Rightarrow> func_id | None \<Rightarrow> kInvalidFuncId)"

section \<open>Expressions\<close>

text \<open>\<^verbatim>\<open>VisitIdentifierExpression\<close>; the local is looked up by its name in the current function.\<close>

definition gen_VisitIdentifierExpression :: "llvm \<Rightarrow> abi \<Rightarrow> Type option \<Rightarrow> string \<Rightarrow> gvisit" where
  "gen_VisitIdentifierExpression L A type local_name r g = do {
     r \<leftarrow> r;
     f \<leftarrow> GetCurrentFunction g;
     let local = LookupLocal_var local_name f;
     if er_kind r = LValue then Some (Some (SetDestination local r), g)
     else if \<not> HasDestination r then Some (Some (SetDestination (ValueOf local) r), g)
     else do {
       type \<leftarrow> type;
       (dest, r, g) \<leftarrow> GetOrCreateDestination L A type r g;
       local_info \<leftarrow> LookupLocalInfoByName local_name f;
       g \<leftarrow> (if li_kind local_info = LocalKind_Parameter
            then BuildAssign L A dest (ValueOf local) type g
            else BuildDeref L A dest local type g);
       Some (Some (SetDestination dest r), g) } }"

text \<open>The visitors that evaluate one operand and emit one instruction on it, with the mode of the result.\<close>

definition VisitImplicitCastExpression :: "llvm \<Rightarrow> abi \<Rightarrow> Type \<Rightarrow> CastKind \<Rightarrow> TExpr \<Rightarrow> gvisit \<Rightarrow> gvisit" where
  "VisitImplicitCastExpression L A type kind input_node input r g = do {
     r \<leftarrow> r;
     if kind = SqlBoolToBool then do {
       (dest, r, g) \<leftarrow> GetOrCreateDestination L A type r g;
       (v, g) \<leftarrow> VisitExpressionForSQLValue input g;
       g \<leftarrow> try_emit (Emit (Library ''ForceBoolTruth'') [dest, v]) g;
       Some (Some (SetDestination (ValueOf dest) r), g) }
     else if kind = BoolToSqlBool then do {
       (dest, r, g) \<leftarrow> GetOrCreateDestination L A type r g;
       (v, g) \<leftarrow> VisitExpressionForRValue input g;
       g \<leftarrow> try_emit (Emit (Library ''InitBool'') [dest, v]) g;
       Some (Some r, g) }
     else if kind = IntToSqlInt then do {
       (dest, r, g) \<leftarrow> GetOrCreateDestination L A type r g;
       (v, g) \<leftarrow> VisitExpressionForRValue input g;
       g \<leftarrow> try_emit (Emit (Library ''InitInteger'') [dest, v]) g;
       Some (Some r, g) }
     else if kind = BitCast \<or> kind = IntegralCast then do {
       (v, g) \<leftarrow> VisitExpressionForRValue input g;
       input_type \<leftarrow> GetType input_node;
       input_size \<leftarrow> GetSize L A input_type;
       size \<leftarrow> GetSize L A type;
       if input_size \<noteq> size then do {
         (dest, r, g) \<leftarrow> GetOrCreateDestination L A type r g;
         g \<leftarrow> BuildAssign L A dest v type g;
         Some (Some (SetDestination (ValueOf dest) r), g) }
       else Some (Some (SetDestination v r), g) }
     else if kind = FloatToSqlReal then do {
       (dest, r, g) \<leftarrow> GetOrCreateDestination L A type r g;
       (v, g) \<leftarrow> VisitExpressionForRValue input g;
       g \<leftarrow> try_emit (Emit (Library ''InitReal'') [dest, v]) g;
       Some (Some r, g) }
     else if kind = SqlIntToSqlReal then do {
       (dest, r, g) \<leftarrow> GetOrCreateDestination L A type r g;
       (v, g) \<leftarrow> VisitExpressionForSQLValue input g;
       g \<leftarrow> try_emit (Emit (Library ''IntegerToReal'') [dest, v]) g;
       Some (Some r, g) }
     else None }"

definition integer_literal :: "TExpr \<Rightarrow> int option" where
  "integer_literal e = (case e of TLiteral _ _ (IntLiteral n) \<Rightarrow> Some n | _ \<Rightarrow> None)"

definition VisitArrayIndexExpression :: "llvm \<Rightarrow> abi \<Rightarrow> Type option \<Rightarrow> TExpr \<Rightarrow> TExpr \<Rightarrow> gvisit \<Rightarrow> gvisit \<Rightarrow> gvisit" where
  "VisitArrayIndexExpression L A type obj_node index_node obj index r g = do {
     type \<leftarrow> type;
     obj_type \<leftarrow> GetType obj_node;
     (len, elem_type) \<leftarrow> (case obj_type of ArrayType n t \<Rightarrow> Some (n, t) | _ \<Rightarrow> None);
     elem_size \<leftarrow> GetSize L A elem_type;
     (arr, g) \<leftarrow> (if HasKnownLength len then VisitExpressionForLValue obj g else VisitExpressionForRValue obj g);
     (elem_ptr, g) \<leftarrow> gen_NewLocal L A (PointerType type) [] g;
     g \<leftarrow> (case integer_literal index_node of
            Some n \<Rightarrow> do {
              tpl_assert (n \<ge> 0);
              Some (emit (EmitLea elem_ptr arr (of_int (uint elem_size * n))) g) }
          | None \<Rightarrow> do {
              (i, g) \<leftarrow> VisitExpressionForRValue index g;
              Some (emit (EmitLeaScaled elem_ptr arr i elem_size 0) g) });
     let elem_ptr = ValueOf elem_ptr;
     r \<leftarrow> r;
     if er_kind r = LValue then Some (Some (SetDestination elem_ptr r), g)
     else do {
       (dest, r, g) \<leftarrow> GetOrCreateDestination L A type r g;
       g \<leftarrow> BuildDeref L A dest elem_ptr type g;
       Some (Some (SetDestination (ValueOf dest) r), g) } }"

definition gen_VisitIndexExpression :: "llvm \<Rightarrow> abi \<Rightarrow> Type option \<Rightarrow> TExpr \<Rightarrow> TExpr \<Rightarrow> gvisit \<Rightarrow> gvisit \<Rightarrow> gvisit" where
  "gen_VisitIndexExpression L A type obj_node index_node obj index r g = do {
     obj_type \<leftarrow> GetType obj_node;
     case obj_type of
       ArrayType n t \<Rightarrow> VisitArrayIndexExpression L A type obj_node index_node obj index r g
     | _ \<Rightarrow> Some (r, g) }"

definition VisitAddressOfExpression :: "llvm \<Rightarrow> abi \<Rightarrow> Type option \<Rightarrow> gvisit \<Rightarrow> gvisit" where
  "VisitAddressOfExpression L A type input r g = do {
     r \<leftarrow> r;
     tpl_assert (er_kind r = RValue);
     (addr, g) \<leftarrow> VisitExpressionForLValue input g;
     if HasDestination r then do {
       type \<leftarrow> type;
       g \<leftarrow> BuildAssign L A (er_destination r) addr type g;
       Some (Some r, g) }
     else Some (Some (SetDestination addr r), g) }"

definition VisitDerefExpression :: "llvm \<Rightarrow> abi \<Rightarrow> Type option \<Rightarrow> gvisit \<Rightarrow> gvisit" where
  "VisitDerefExpression L A type input r g = do {
     (addr, g) \<leftarrow> VisitExpressionForRValue input g;
     r \<leftarrow> r;
     if er_kind r = LValue then Some (Some (SetDestination addr r), g)
     else do {
       type \<leftarrow> type;
       (dest, r, g) \<leftarrow> GetOrCreateDestination L A type r g;
       g \<leftarrow> BuildDeref L A dest addr type g;
       Some (Some (SetDestination (ValueOf dest) r), g) } }"

definition VisitArithmeticUnaryExpression :: "llvm \<Rightarrow> abi \<Rightarrow> Type option \<Rightarrow> TokenType \<Rightarrow> gvisit \<Rightarrow> gvisit" where
  "VisitArithmeticUnaryExpression L A type op input r g = do {
     r \<leftarrow> r;
     type \<leftarrow> type;
     (dest, r, g) \<leftarrow> GetOrCreateDestination L A type r g;
     (v, g) \<leftarrow> VisitExpressionForRValue input g;
     b \<leftarrow> (if op = T_MINUS then GetIntTypedBytecode (Typed Neg P_int8) type True
          else if op = T_BIT_NOT then GetIntTypedBytecode (Typed BitNeg P_int8) type True
          else None);
     let g = emit (EmitUnaryOp b dest v) g;
     Some (Some (SetDestination (ValueOf dest) r), g) }"

definition VisitLogicalNotExpression :: "llvm \<Rightarrow> abi \<Rightarrow> Type option \<Rightarrow> gvisit \<Rightarrow> gvisit" where
  "VisitLogicalNotExpression L A type input r g = do {
     r \<leftarrow> r;
     type \<leftarrow> type;
     (dest, r, g) \<leftarrow> GetOrCreateDestination L A type r g;
     (v, g) \<leftarrow> VisitExpressionForRValue input g;
     let g = emit (EmitUnaryOp (Core Not_op) dest v) g;
     Some (Some (SetDestination (ValueOf dest) r), g) }"

definition VisitUnaryOpExpression :: "llvm \<Rightarrow> abi \<Rightarrow> Type option \<Rightarrow> TokenType \<Rightarrow> gvisit \<Rightarrow> gvisit" where
  "VisitUnaryOpExpression L A type op input r g =
     (if op = T_AMPERSAND then VisitAddressOfExpression L A type input r g
      else if op = T_STAR then VisitDerefExpression L A type input r g
      else if op = T_MINUS \<or> op = T_BIT_NOT then VisitArithmeticUnaryExpression L A type op input r g
      else if op = T_BANG then VisitLogicalNotExpression L A type input r g
      else None)"

fun visit_arguments :: "gvisit list \<Rightarrow> Generator \<Rightarrow> (LocalVar list \<times> Generator) option" where
  "visit_arguments [] g = Some ([], g)"
| "visit_arguments (v # vs) g = do {
     (param, g) \<leftarrow> VisitExpressionForRValue v g;
     (params, g) \<leftarrow> visit_arguments vs g;
     Some (param # params, g) }"

definition VisitRegularCallExpression :: "llvm \<Rightarrow> abi \<Rightarrow> TExpr \<Rightarrow> gvisit list \<Rightarrow> gvisit" where
  "VisitRegularCallExpression L A callee args r g = do {
     (ps, ret) \<leftarrow> (case GetType callee of Some (FunctionType ps ret) \<Rightarrow> Some (ps, ret) | _ \<Rightarrow> None);
     (params, r, g) \<leftarrow>
       (if \<not> IsNilType ret
        then (case r of
            Some er \<Rightarrow> do {
              (ret_val, er, g) \<leftarrow> GetOrCreateDestination L A ret er g;
              let er = (if er_kind er = RValue then SetDestination (ValueOf ret_val) er else er);
              Some ([ret_val], Some er, g) }
          | None \<Rightarrow> do {
              (ret_val, g) \<leftarrow> gen_NewLocal L A ret [] g;
              Some ([ret_val], None, g) })
        else Some ([], r, g));
     tpl_assert (length ps \<le> length args);
     (vs, g) \<leftarrow> visit_arguments (take (length ps) args) g;
     name \<leftarrow> GetFuncName callee;
     let func_id = LookupFuncIdByName name g;
     tpl_assert (func_id \<noteq> kInvalidFuncId);
     g \<leftarrow> try_emit (EmitCall func_id (params @ vs)) g;
     Some (r, g) }"

definition gen_VisitLiteralExpression :: "llvm \<Rightarrow> abi \<Rightarrow> (string \<Rightarrow> 32 word) \<Rightarrow> (string \<Rightarrow> 64 word) \<Rightarrow> Type option \<Rightarrow> Literal \<Rightarrow> gvisit" where
  "gen_VisitLiteralExpression L A float_val double_val type literal r g = do {
     r \<leftarrow> r;
     tpl_assert (er_kind r = RValue);
     type \<leftarrow> type;
     (target, r, g) \<leftarrow> GetOrCreateDestination L A type r g;
     size \<leftarrow> GetSize L A type;
     case literal of
       NilLiteral \<Rightarrow> Some (Some r, emit (EmitAssignImm8 target 0) g)
     | BoolLiteral b \<Rightarrow>
         Some (Some (SetDestination (ValueOf target) r), emit (EmitAssignImm1 target (if b then 1 else 0)) g)
     | IntLiteral n \<Rightarrow> do {
         g \<leftarrow> (if size = 1 then Some (emit (EmitAssignImm1 target (of_int n)) g)
              else if size = 2 then Some (emit (EmitAssignImm2 target (of_int n)) g)
              else if size = 4 then Some (emit (EmitAssignImm4 target (of_int n)) g)
              else if size = 8 then Some (emit (EmitAssignImm8 target (of_int n)) g)
              else None);
         Some (Some (SetDestination (ValueOf target) r), g) }
     | FloatLiteral s \<Rightarrow> do {
         g \<leftarrow> (if size = 4 then Some (emit (EmitAssignImm4F target (float_val s)) g)
              else if size = 8 then Some (emit (EmitAssignImm8F target (double_val s)) g)
              else None);
         Some (Some (SetDestination (ValueOf target) r), g) }
     | StringLiteral s \<Rightarrow> do {
         (str, g) \<leftarrow> NewStaticString L A s g;
         g \<leftarrow> try_emit (EmitAssign (Core Assign8) target str) g;
         Some (Some (SetDestination (ValueOf str) r), g) } }"

definition VisitLogicalAndOrExpression :: "llvm \<Rightarrow> abi \<Rightarrow> Type option \<Rightarrow> TokenType \<Rightarrow> gvisit \<Rightarrow> gvisit \<Rightarrow> gvisit" where
  "VisitLogicalAndOrExpression L A type op left right r g = do {
     r \<leftarrow> r;
     tpl_assert (er_kind r = RValue);
     type \<leftarrow> type;
     tpl_assert (IsBoolType type);
     (dest, r, g) \<leftarrow> GetOrCreateDestination L A type r g;
     g \<leftarrow> VisitExpressionForRValue_dest left dest g;
     conditional_jump \<leftarrow> (if op = T_OR then Some (Core JumpIfTrue) else if op = T_AND then Some (Core JumpIfFalse) else None);
     (end_label, g) \<leftarrow> emit_label (EmitConditionalJump conditional_jump (ValueOf dest) BytecodeLabel_new) g;
     g \<leftarrow> VisitExpressionForRValue_dest right dest g;
     (end_label, g) \<leftarrow> emit_label (Bind end_label) g;
     Some (Some (SetDestination (ValueOf dest) r), g) }"

text \<open>The macro \<^verbatim>\<open>MATH_BYTECODE\<close>.\<close>

definition math_bytecode :: "TypedOp \<Rightarrow> Type \<Rightarrow> Bytecode option" where
  "math_bytecode op type =
     (if IsIntegerType type then GetIntTypedBytecode (Typed op P_int8) type True
      else do { tpl_assert (IsFloatType type); GetFloatTypedBytecode (Typed op P_float) type })"

definition arithmetic_bytecode :: "TokenType \<Rightarrow> Type \<Rightarrow> Bytecode option" where
  "arithmetic_bytecode op type = (case op of
     T_PLUS \<Rightarrow> math_bytecode Add type
   | T_MINUS \<Rightarrow> math_bytecode Sub type
   | T_STAR \<Rightarrow> math_bytecode Mul type
   | T_SLASH \<Rightarrow> math_bytecode Div type
   | T_PERCENT \<Rightarrow> math_bytecode Rem type
   | T_AMPERSAND \<Rightarrow> GetIntTypedBytecode (Typed BitAnd P_int8) type True
   | T_BIT_OR \<Rightarrow> GetIntTypedBytecode (Typed BitOr P_int8) type True
   | T_BIT_XOR \<Rightarrow> GetIntTypedBytecode (Typed BitXor P_int8) type True
   | T_BIT_SHL \<Rightarrow> GetIntTypedBytecode (Typed BitShl P_int8) type True
   | T_BIT_SHR \<Rightarrow> GetIntTypedBytecode (Typed BitShr P_int8) type True
   | _ \<Rightarrow> None)"

definition VisitPrimitiveArithmeticExpression ::
  "llvm \<Rightarrow> abi \<Rightarrow> Type option \<Rightarrow> TokenType \<Rightarrow> gvisit \<Rightarrow> gvisit \<Rightarrow> gvisit" where
  "VisitPrimitiveArithmeticExpression L A type op left right r g = do {
     r \<leftarrow> r;
     tpl_assert (er_kind r = RValue);
     type \<leftarrow> type;
     (dest, r, g) \<leftarrow> GetOrCreateDestination L A type r g;
     (lhs, g) \<leftarrow> VisitExpressionForRValue left g;
     (rhs, g) \<leftarrow> VisitExpressionForRValue right g;
     b \<leftarrow> arithmetic_bytecode op type;
     let g = emit (EmitBinaryOp b dest lhs rhs) g;
     Some (Some (SetDestination (ValueOf dest) r), g) }"

definition sql_arithmetic_bytecode :: "TokenType \<Rightarrow> bool \<Rightarrow> Bytecode option" where
  "sql_arithmetic_bytecode op is_integer_math = (case op of
     T_PLUS \<Rightarrow> Some (Library (if is_integer_math then ''AddInteger'' else ''AddReal''))
   | T_MINUS \<Rightarrow> Some (Library (if is_integer_math then ''SubInteger'' else ''SubReal''))
   | T_STAR \<Rightarrow> Some (Library (if is_integer_math then ''MulInteger'' else ''MulReal''))
   | T_SLASH \<Rightarrow> Some (Library (if is_integer_math then ''DivInteger'' else ''DivReal''))
   | T_PERCENT \<Rightarrow> Some (Library (if is_integer_math then ''RemInteger'' else ''RemReal''))
   | _ \<Rightarrow> None)"

definition VisitSqlArithmeticExpression ::
  "llvm \<Rightarrow> abi \<Rightarrow> Type option \<Rightarrow> TokenType \<Rightarrow> gvisit \<Rightarrow> gvisit \<Rightarrow> gvisit" where
  "VisitSqlArithmeticExpression L A type op left right r g = do {
     r \<leftarrow> r;
     type \<leftarrow> type;
     (dest, r, g) \<leftarrow> GetOrCreateDestination L A type r g;
     (lhs, g) \<leftarrow> VisitExpressionForSQLValue left g;
     (rhs, g) \<leftarrow> VisitExpressionForSQLValue right g;
     b \<leftarrow> sql_arithmetic_bytecode op (IsSpecificBuiltin type K_IntegerVal);
     let g = emit (EmitBinaryOp b dest lhs rhs) g;
     Some (Some (SetDestination dest r), g) }"

definition VisitArithmeticExpression ::
  "llvm \<Rightarrow> abi \<Rightarrow> Type option \<Rightarrow> TokenType \<Rightarrow> gvisit \<Rightarrow> gvisit \<Rightarrow> gvisit" where
  "VisitArithmeticExpression L A type op left right r g = do {
     ty \<leftarrow> type;
     if IsSqlValueType ty then VisitSqlArithmeticExpression L A type op left right r g
     else VisitPrimitiveArithmeticExpression L A type op left right r g }"

definition VisitBinaryOpExpression :: "llvm \<Rightarrow> abi \<Rightarrow> Type option \<Rightarrow> TokenType \<Rightarrow> gvisit \<Rightarrow> gvisit \<Rightarrow> gvisit" where
  "VisitBinaryOpExpression L A type op left right r g =
     (if op = T_AND \<or> op = T_OR then VisitLogicalAndOrExpression L A type op left right r g
      else VisitArithmeticExpression L A type op left right r g)"

text \<open>The macro \<^verbatim>\<open>SQL_COMPARISON_BYTECODE\<close>.\<close>

definition sql_comparison_bytecode :: "string \<Rightarrow> Kind \<Rightarrow> Bytecode option" where
  "sql_comparison_bytecode comparison arg_kind = (case arg_kind of
     K_BooleanVal \<Rightarrow> Some (Library (comparison @ ''Bool''))
   | K_IntegerVal \<Rightarrow> Some (Library (comparison @ ''Integer''))
   | K_RealVal \<Rightarrow> Some (Library (comparison @ ''Real''))
   | K_DateVal \<Rightarrow> Some (Library (comparison @ ''Date''))
   | K_StringVal \<Rightarrow> Some (Library (comparison @ ''String''))
   | _ \<Rightarrow> None)"

definition comparison_name :: "TokenType \<Rightarrow> (TypedOp \<times> string) option" where
  "comparison_name op = (case op of
     T_GREATER \<Rightarrow> Some (GreaterThan, ''GreaterThan'')
   | T_GREATER_EQUAL \<Rightarrow> Some (GreaterThanEqual, ''GreaterThanEqual'')
   | T_EQUAL_EQUAL \<Rightarrow> Some (Equal, ''Equal'')
   | T_LESS \<Rightarrow> Some (LessThan, ''LessThan'')
   | T_LESS_EQUAL \<Rightarrow> Some (LessThanEqual, ''LessThanEqual'')
   | T_BANG_EQUAL \<Rightarrow> Some (NotEqual, ''NotEqual'')
   | _ \<Rightarrow> None)"

definition VisitSqlComparisonExpression ::
  "llvm \<Rightarrow> abi \<Rightarrow> Type option \<Rightarrow> TokenType \<Rightarrow> TExpr \<Rightarrow> TExpr \<Rightarrow> gvisit \<Rightarrow> gvisit \<Rightarrow> gvisit" where
  "VisitSqlComparisonExpression L A type op left_node right_node left right r g = do {
     r \<leftarrow> r;
     type \<leftarrow> type;
     (dest, r, g) \<leftarrow> GetOrCreateDestination L A type r g;
     (lhs, g) \<leftarrow> VisitExpressionForSQLValue left g;
     (rhs, g) \<leftarrow> VisitExpressionForSQLValue right g;
     tpl_assert (GetType left_node = GetType right_node);
     arg_kind \<leftarrow> (case GetType left_node of Some (BuiltinType k) \<Rightarrow> Some k | _ \<Rightarrow> None);
     (_, name) \<leftarrow> comparison_name op;
     code \<leftarrow> sql_comparison_bytecode name arg_kind;
     let g = emit (EmitBinaryOp code dest lhs rhs) g;
     Some (Some (SetDestination dest r), g) }"

text \<open>The macro \<^verbatim>\<open>COMPARISON_BYTECODE\<close>.\<close>

definition comparison_bytecode :: "TypedOp \<Rightarrow> Type \<Rightarrow> Bytecode option" where
  "comparison_bytecode op type =
     (if IsIntegerType type then GetIntTypedBytecode (Typed op P_int8) type True
      else if IsFloatType type then GetFloatTypedBytecode (Typed op P_float) type
      else do { tpl_assert (IsBoolType type); Some (Typed op P_bool) })"

fun IsNilLiteral_t :: "TExpr \<Rightarrow> bool" where
  "IsNilLiteral_t (TLiteral _ _ NilLiteral) = True"
| "IsNilLiteral_t _ = False"

text \<open>\<^verbatim>\<open>ComparisonOpExpression::IsLiteralCompareNil\<close> on the visits of the operands.\<close>

definition compare_nil_input :: "TokenType \<Rightarrow> TExpr \<Rightarrow> TExpr \<Rightarrow> gvisit \<Rightarrow> gvisit \<Rightarrow> gvisit option" where
  "compare_nil_input op left_node right_node left right =
     (if IsNilLiteral_t left_node \<and> IsCompareOp op then Some right
      else if IsNilLiteral_t right_node \<and> IsCompareOp op then Some left
      else None)"

definition VisitPrimitiveComparisonExpression ::
  "llvm \<Rightarrow> abi \<Rightarrow> Type option \<Rightarrow> TokenType \<Rightarrow> TExpr \<Rightarrow> TExpr \<Rightarrow> gvisit \<Rightarrow> gvisit \<Rightarrow> gvisit" where
  "VisitPrimitiveComparisonExpression L A type op left_node right_node left right r g = do {
     r \<leftarrow> r;
     tpl_assert (er_kind r = RValue);
     type \<leftarrow> type;
     (dest, r, g) \<leftarrow> GetOrCreateDestination L A type r g;
     case compare_nil_input op left_node right_node left right of
       Some input \<Rightarrow> do {
         (v, g) \<leftarrow> VisitExpressionForRValue input g;
         g \<leftarrow> try_emit (Emit (Core (if op = T_EQUAL_EQUAL then IsNullPtr else IsNotNullPtr)) [dest, v]) g;
         Some (Some (SetDestination (ValueOf dest) r), g) }
     | None \<Rightarrow> do {
         left_type \<leftarrow> GetType left_node;
         tpl_assert (IsArithmetic left_type \<or> IsBoolType left_type);
         right_type \<leftarrow> GetType right_node;
         tpl_assert (IsArithmetic right_type \<or> IsBoolType right_type);
         (lhs, g) \<leftarrow> VisitExpressionForRValue left g;
         (rhs, g) \<leftarrow> VisitExpressionForRValue right g;
         (cmp, _) \<leftarrow> comparison_name op;
         b \<leftarrow> comparison_bytecode cmp left_type;
         let g = emit (EmitBinaryOp b dest lhs rhs) g;
         Some (Some (SetDestination (ValueOf dest) r), g) } }"

definition VisitComparisonOpExpression ::
  "llvm \<Rightarrow> abi \<Rightarrow> Type option \<Rightarrow> TokenType \<Rightarrow> TExpr \<Rightarrow> TExpr \<Rightarrow> gvisit \<Rightarrow> gvisit \<Rightarrow> gvisit" where
  "VisitComparisonOpExpression L A type op left_node right_node left right r g = do {
     ty \<leftarrow> type;
     if \<not> IsSpecificBuiltin ty K_Bool
     then VisitSqlComparisonExpression L A type op left_node right_node left right r g
     else VisitPrimitiveComparisonExpression L A type op left_node right_node left right r g }"

definition gen_VisitMemberExpression :: "llvm \<Rightarrow> abi \<Rightarrow> Type option \<Rightarrow> TExpr \<Rightarrow> Expression \<Rightarrow> gvisit \<Rightarrow> gvisit" where
  "gen_VisitMemberExpression L A type obj_node member obj r g = do {
     (obj_ptr, g) \<leftarrow> VisitExpressionForLValue obj g;
     obj_type \<leftarrow> GetType obj_node;
     (obj_ptr, fields, g) \<leftarrow> (case obj_type of
         PointerType (StructType _ fs) \<Rightarrow> do {
           (obj_ptr, g) \<leftarrow> BuildLoadPointer L A obj_ptr obj_type g;
           Some (obj_ptr, fs, g) }
       | StructType _ fs \<Rightarrow> Some (obj_ptr, fs, g)
       | _ \<Rightarrow> None);
     field_name \<leftarrow> (case member of IdentifierExpression _ n \<Rightarrow> Some n | _ \<Rightarrow> None);
     offset \<leftarrow> GetOffsetOfFieldByName L A fields (Some field_name);
     type \<leftarrow> type;
     (field_ptr, g) \<leftarrow> gen_NewLocal L A (PointerType type) [] g;
     let g = emit (EmitLea field_ptr obj_ptr offset) g;
     let field_ptr = ValueOf field_ptr;
     r \<leftarrow> r;
     if er_kind r = LValue then do {
       tpl_assert (\<not> HasDestination r);
       Some (Some (SetDestination field_ptr r), g) }
     else do {
       (dest, r, g) \<leftarrow> GetOrCreateDestination L A type r g;
       g \<leftarrow> BuildDeref L A dest field_ptr type g;
       Some (Some (SetDestination (ValueOf dest) r), g) } }"

section \<open>Statements and declarations\<close>

function IsTerminating_t :: "TStmt \<Rightarrow> bool option" where
  "IsTerminating_t (TBlock p q stmts) = (case stmts of [] \<Rightarrow> None | _ \<Rightarrow> IsTerminating_t (last stmts))"
| "IsTerminating_t (TIf p c t (Some e)) = do {
     a \<leftarrow> IsTerminating_t t;
     if a then IsTerminating_t e else Some False }"
| "IsTerminating_t (TIf p c t None) = Some False"
| "IsTerminating_t (TReturn p r) = Some True"
| "IsTerminating_t (TAssignment p d s) = Some False"
| "IsTerminating_t (TDeclaration d) = Some False"
| "IsTerminating_t (TExpression x) = Some False"
| "IsTerminating_t (TFor p i c n b) = Some False"
| "IsTerminating_t (UnvisitedStmt s) = None"
  by pat_completeness auto
termination
proof (relation "measure size")
  fix p q stmts x xs
  assume "(stmts :: TStmt list) = x # xs"
  then have "last stmts \<in> set stmts" by simp
  then have "size (last stmts) \<le> size_list size stmts" by (simp add: size_list_estimation')
  then show "(last stmts, TBlock p q stmts) \<in> measure size" by simp
qed auto

definition VisitIfStatement :: "gvisit \<Rightarrow> TStmt \<Rightarrow> gvisit \<Rightarrow> gvisit option \<Rightarrow> gvisit" where
  "VisitIfStatement cond then_node then_visit else_visit r g = do {
     (then_label, else_label, g) \<leftarrow> VisitExpressionForTest cond BytecodeLabel_new BytecodeLabel_new Fallthrough_Then g;
     (then_label, g) \<leftarrow> emit_label (Bind then_label) g;
     (r, g) \<leftarrow> then_visit r g;
     (else_label, end_label, r, g) \<leftarrow> (case else_visit of
         Some visit \<Rightarrow> do {
           terminating \<leftarrow> IsTerminating_t then_node;
           (end_label, g) \<leftarrow> (if \<not> terminating then emit_label (EmitJump (Core Jump) BytecodeLabel_new) g
                            else Some (BytecodeLabel_new, g));
           (else_label, g) \<leftarrow> emit_label (Bind else_label) g;
           (r, g) \<leftarrow> visit r g;
           Some (else_label, end_label, r, g) }
       | None \<Rightarrow> Some (else_label, BytecodeLabel_new, r, g));
     (else_label, g) \<leftarrow> (if \<not> lb_bound else_label then emit_label (Bind else_label) g else Some (else_label, g));
     (end_label, g) \<leftarrow> emit_label (Bind end_label) g;
     Some (r, g) }"

text \<open>
  The labels of the \<^verbatim>\<open>LoopBuilder\<close> are those for the header, the break and the continue target; nothing jumps to the
  last, since the language has no such statement.
\<close>

definition VisitForStatement :: "gvisit option \<Rightarrow> gvisit option \<Rightarrow> gvisit option \<Rightarrow> gvisit \<Rightarrow> gvisit" where
  "VisitForStatement init cond next_visit body r g = do {
     (r, g) \<leftarrow> (case init of Some visit \<Rightarrow> visit r g | None \<Rightarrow> Some (r, g));
     (header_label, g) \<leftarrow> emit_label (Bind BytecodeLabel_new) g;
     (break_label, g) \<leftarrow> (case cond of
         Some visit \<Rightarrow> do {
           (_, break_label, g) \<leftarrow> VisitExpressionForTest visit BytecodeLabel_new BytecodeLabel_new Fallthrough_Then g;
           Some (break_label, g) }
       | None \<Rightarrow> Some (BytecodeLabel_new, g));
     (r, g) \<leftarrow> body r g;
     (continue_label, g) \<leftarrow> emit_label (Bind BytecodeLabel_new) g;
     (r, g) \<leftarrow> (case next_visit of Some visit \<Rightarrow> visit r g | None \<Rightarrow> Some (r, g));
     (header_label, g) \<leftarrow> emit_label (EmitJump (Core Jump) header_label) g;
     (break_label, g) \<leftarrow> emit_label (Bind break_label) g;
     Some (r, g) }"

fun VisitBlockStatement :: "gvisit list \<Rightarrow> gvisit" where
  "VisitBlockStatement [] r g = Some (r, g)"
| "VisitBlockStatement (v # vs) r g = do { (r, g) \<leftarrow> v r g; VisitBlockStatement vs r g }"

definition VisitReturnStatement :: "llvm \<Rightarrow> abi \<Rightarrow> TExpr option \<Rightarrow> gvisit option \<Rightarrow> gvisit" where
  "VisitReturnStatement L A value_node value_visit r g = do {
     g \<leftarrow> (case (value_node, value_visit) of
         (Some node, Some visit) \<Rightarrow> do {
           f \<leftarrow> GetCurrentFunction g;
           rv \<leftarrow> GetReturnValueLocal f;
           ret_type \<leftarrow> GetType node;
           if IsSqlValueType ret_type then do {
             (res, g) \<leftarrow> VisitExpressionForSQLValue visit g;
             BuildDeref L A (ValueOf rv) res ret_type g }
           else if (case ret_type of StructType _ _ \<Rightarrow> True | _ \<Rightarrow> False) then do {
             (res, g) \<leftarrow> VisitExpressionForLValue visit g;
             BuildAssign L A (ValueOf rv) res ret_type g }
           else do {
             (res, g) \<leftarrow> VisitExpressionForRValue visit g;
             BuildAssign L A (ValueOf rv) res ret_type g } }
       | _ \<Rightarrow> Some g);
     Some (r, emit EmitReturn g) }"

definition VisitAssignmentStatement :: "gvisit \<Rightarrow> gvisit \<Rightarrow> gvisit" where
  "VisitAssignmentStatement dest_visit source r g = do {
     (dest, g) \<leftarrow> VisitExpressionForLValue dest_visit g;
     g \<leftarrow> VisitExpressionForRValue_dest source dest g;
     Some (r, g) }"

definition VisitVariableDeclaration ::
  "llvm \<Rightarrow> abi \<Rightarrow> string \<Rightarrow> TExpr option \<Rightarrow> TExpr option \<Rightarrow> gvisit option \<Rightarrow> gvisit" where
  "VisitVariableDeclaration L A name type_repr init_node init r g = do {
     type \<leftarrow> (case type_repr of
         Some repr \<Rightarrow> GetType repr
       | None \<Rightarrow> do { node \<leftarrow> init_node; GetType node });
     (local, g) \<leftarrow> gen_NewLocal L A type name g;
     g \<leftarrow> (case init of Some visit \<Rightarrow> VisitExpressionForRValue_dest visit local g | None \<Rightarrow> Some g);
     Some (r, g) }"

text \<open>The bytecode range is set by the destructor of \<^verbatim>\<open>BytecodePositionScope\<close>.\<close>

definition VisitFunctionDeclaration :: "llvm \<Rightarrow> abi \<Rightarrow> string \<Rightarrow> TExpr \<Rightarrow> gvisit \<Rightarrow> gvisit" where
  "VisitFunctionDeclaration L A name func_node func r g = do {
     (ps, ret) \<leftarrow> (case func_node of
         TFunctionLiteral _ repr _ \<Rightarrow> (case GetType repr of Some (FunctionType ps ret) \<Rightarrow> Some (ps, ret) | _ \<Rightarrow> None)
       | _ \<Rightarrow> None);
     g \<leftarrow> AllocateFunc L A name (ps, ret) g;
     let id = length (g_functions g) - 1;
     let start = length (g_code g);
     (r, g) \<leftarrow> func r g;
     func_info \<leftarrow> vec_at (g_functions g) id;
     func_info \<leftarrow> SetBytecodeRange start (length (g_code g)) func_info;
     functions \<leftarrow> vec_put (g_functions g) id func_info;
     Some (r, g\<lparr>g_functions := functions\<rparr>) }"

section \<open>Calls of builtin functions\<close>

text \<open>
  Most of these visitors evaluate some arguments, allocate the destination, emit one instruction and set the
  destination of the result. The order of evaluation is a list of \<open>Need\<close>s: the destination, an argument as an R-value, or
  an argument as a SQL value. The operands of the instruction are positions in that list, and so is the position of the
  destination when the visitor sets the result to its value (\<^verbatim>\<open>SetDestination(dest.ValueOf())\<close>) or to the
  destination itself.
\<close>

datatype Need = Dest | RArg nat | SArg nat

datatype ResultMode = KeepResult | ValueResult nat | AddressResult nat

fun evaluate ::
  "llvm \<Rightarrow> abi \<Rightarrow> Type \<Rightarrow> gvisit list \<Rightarrow> Need list \<Rightarrow> ExpressionResult option \<Rightarrow> Generator \<Rightarrow>
     (LocalVar list \<times> ExpressionResult option \<times> Generator) option" where
  "evaluate L A type args [] r g = Some ([], r, g)"
| "evaluate L A type args (Dest # needs) r g = do {
     er \<leftarrow> r;
     (v, er, g) \<leftarrow> GetOrCreateDestination L A type er g;
     (vs, r, g) \<leftarrow> evaluate L A type args needs (Some er) g;
     Some (v # vs, r, g) }"
| "evaluate L A type args (RArg i # needs) r g = do {
     arg \<leftarrow> vec_at args i;
     (v, g) \<leftarrow> VisitExpressionForRValue arg g;
     (vs, r, g) \<leftarrow> evaluate L A type args needs r g;
     Some (v # vs, r, g) }"
| "evaluate L A type args (SArg i # needs) r g = do {
     arg \<leftarrow> vec_at args i;
     (v, g) \<leftarrow> VisitExpressionForSQLValue arg g;
     (vs, r, g) \<leftarrow> evaluate L A type args needs r g;
     Some (v # vs, r, g) }"

definition set_result :: "ResultMode \<Rightarrow> LocalVar list \<Rightarrow> ExpressionResult option \<Rightarrow> ExpressionResult option option" where
  "set_result mode vs r = (case mode of
     KeepResult \<Rightarrow> Some r
   | ValueResult i \<Rightarrow> do { er \<leftarrow> r; v \<leftarrow> vec_at vs i; Some (Some (SetDestination (ValueOf v) er)) }
   | AddressResult i \<Rightarrow> do { er \<leftarrow> r; v \<leftarrow> vec_at vs i; Some (Some (SetDestination v er)) })"

definition simple_call ::
  "llvm \<Rightarrow> abi \<Rightarrow> Type \<Rightarrow> gvisit list \<Rightarrow> Need list \<Rightarrow> string \<Rightarrow> nat list \<Rightarrow> ResultMode \<Rightarrow> gvisit" where
  "simple_call L A type args needs code operands mode r g = do {
     (vs, r, g) \<leftarrow> evaluate L A type args needs r g;
     ops \<leftarrow> those (map (vec_at vs) operands);
     g \<leftarrow> try_emit (Emit (Library code) ops) g;
     r \<leftarrow> set_result mode vs r;
     Some (r, g) }"

text \<open>A call that evaluates its needs and then emits something else.\<close>

definition special_call ::
  "llvm \<Rightarrow> abi \<Rightarrow> Type \<Rightarrow> gvisit list \<Rightarrow> Need list \<Rightarrow> (LocalVar list \<Rightarrow> Generator \<Rightarrow> Generator option) \<Rightarrow> ResultMode \<Rightarrow> gvisit" where
  "special_call L A type args needs action mode r g = do {
     (vs, r, g) \<leftarrow> evaluate L A type args needs r g;
     g \<leftarrow> action vs g;
     r \<leftarrow> set_result mode vs r;
     Some (r, g) }"

definition string_literal :: "TExpr \<Rightarrow> string option" where
  "string_literal e = (case e of TLiteral _ _ (StringLiteral s) \<Rightarrow> Some s | _ \<Rightarrow> None)"

definition bool_literal :: "TExpr \<Rightarrow> bool option" where
  "bool_literal e = (case e of TLiteral _ _ (BoolLiteral b) \<Rightarrow> Some b | _ \<Rightarrow> None)"

text \<open>The identifier of a function argument, looked up in the cache of functions.\<close>

definition function_argument :: "TExpr list \<Rightarrow> nat \<Rightarrow> Generator \<Rightarrow> u16 option" where
  "function_argument nodes i g = do {
     node \<leftarrow> vec_at nodes i;
     name \<leftarrow> GetFuncName node;
     Some (LookupFuncIdByName name g) }"

definition VisitSqlConversionCall :: "llvm \<Rightarrow> abi \<Rightarrow> Type \<Rightarrow> SqlConversion \<Rightarrow> TExpr list \<Rightarrow> gvisit list \<Rightarrow> gvisit" where
  "VisitSqlConversionCall L A type builtin nodes args = (case builtin of
     BoolToSql \<Rightarrow> simple_call L A type args [Dest, RArg 0] ''InitBool'' [0, 1] KeepResult
   | IntToSql \<Rightarrow> simple_call L A type args [Dest, RArg 0] ''InitInteger'' [0, 1] KeepResult
   | FloatToSql \<Rightarrow> simple_call L A type args [Dest, RArg 0] ''InitReal'' [0, 1] KeepResult
   | DateToSql \<Rightarrow> simple_call L A type args [Dest, RArg 0, RArg 1, RArg 2] ''InitDate'' [0, 1, 2, 3] KeepResult
   | StringToSql \<Rightarrow> special_call L A type args [Dest] (\<lambda>vs g. do {
       node \<leftarrow> vec_at nodes 0;
       string_lit \<leftarrow> string_literal node;
       (static_string, g) \<leftarrow> NewStaticString L A string_lit g;
       Some (emit (EmitInitString (vs ! 0) static_string (of_nat (length string_lit))) g) }) KeepResult
   | SqlToBool \<Rightarrow> simple_call L A type args [Dest, SArg 0] ''ForceBoolTruth'' [0, 1] (ValueResult 0)
   | ConvertBoolToInteger \<Rightarrow> simple_call L A type args [Dest, SArg 0] ''BoolToInteger'' [0, 1] KeepResult
   | ConvertIntegerToReal \<Rightarrow> simple_call L A type args [Dest, SArg 0] ''IntegerToReal'' [0, 1] KeepResult
   | ConvertDateToTimestamp \<Rightarrow> simple_call L A type args [Dest, SArg 0] ''DateToTimestamp'' [0, 1] KeepResult
   | ConvertStringToBool \<Rightarrow> simple_call L A type args [Dest, SArg 0] ''StringToBool'' [0, 1] KeepResult
   | ConvertStringToInt \<Rightarrow> simple_call L A type args [Dest, SArg 0] ''StringToInteger'' [0, 1] KeepResult
   | ConvertStringToReal \<Rightarrow> simple_call L A type args [Dest, SArg 0] ''StringToReal'' [0, 1] KeepResult
   | ConvertStringToDate \<Rightarrow> simple_call L A type args [Dest, SArg 0] ''StringToDate'' [0, 1] KeepResult
   | ConvertStringToTime \<Rightarrow> simple_call L A type args [Dest, SArg 0] ''StringToTimestamp'' [0, 1] KeepResult)"

definition VisitNullValueCall :: "llvm \<Rightarrow> abi \<Rightarrow> Type \<Rightarrow> NullValue \<Rightarrow> gvisit list \<Rightarrow> gvisit" where
  "VisitNullValueCall L A type builtin args = (case builtin of
     IsValNull \<Rightarrow> simple_call L A type args [Dest, SArg 0] ''ValIsNull'' [0, 1] (ValueResult 0)
   | InitSqlNull \<Rightarrow> simple_call L A type args [RArg 0] ''InitSqlNull'' [0] KeepResult)"

definition VisitLNotCall :: "llvm \<Rightarrow> abi \<Rightarrow> Type \<Rightarrow> gvisit list \<Rightarrow> gvisit" where
  "VisitLNotCall L A type args = simple_call L A type args [Dest, SArg 0] ''LogicalNotBoolVal'' [0, 1] (AddressResult 0)"

definition VisitSqlStringLikeCall :: "llvm \<Rightarrow> abi \<Rightarrow> Type \<Rightarrow> gvisit list \<Rightarrow> gvisit" where
  "VisitSqlStringLikeCall L A type args =
     simple_call L A type args [Dest, SArg 0, SArg 1] ''Like'' [0, 1, 2] (AddressResult 0)"

definition VisitBuiltinDateFunctionCall :: "llvm \<Rightarrow> abi \<Rightarrow> Type \<Rightarrow> gvisit list \<Rightarrow> gvisit" where
  "VisitBuiltinDateFunctionCall L A type args =
     simple_call L A type args [Dest, SArg 0] ''ExtractYear'' [0, 1] (AddressResult 0)"

definition concat_string :: "LocalVar \<Rightarrow> LocalVar \<Rightarrow> gvisit list \<Rightarrow> nat \<Rightarrow> Generator \<Rightarrow> Generator option" where
  "concat_string arr_elem_ptr arr args i g = do {
     let g = emit (EmitLea arr_elem_ptr arr (of_nat (i * 8))) g;
     arg \<leftarrow> vec_at args (i + 1);
     (v, g) \<leftarrow> VisitExpressionForSQLValue arg g;
     try_emit (EmitAssign (Core Assign8) (ValueOf arr_elem_ptr) v) g }"

definition VisitBuiltinConcatCall :: "llvm \<Rightarrow> abi \<Rightarrow> Type \<Rightarrow> gvisit list \<Rightarrow> gvisit" where
  "VisitBuiltinConcatCall L A type args = special_call L A type args [Dest, RArg 0] (\<lambda>vs g. do {
     let num_strings = length args - 1;
     let string_type = BuiltinType K_StringVal;
     (arr, g) \<leftarrow> gen_NewLocal L A (ArrayType (of_nat num_strings) (PointerType string_type)) [] g;
     (arr_elem_ptr, g) \<leftarrow> gen_NewLocal L A (PointerType (PointerType string_type)) [] g;
     g \<leftarrow> fold_opt (concat_string arr_elem_ptr arr args) [0..<num_strings] g;
     Some (emit (EmitConcat (vs ! 0) (vs ! 1) arr (of_nat num_strings)) g) }) KeepResult"

text \<open>The catalog is a parameter: the identifier of a table by its name.\<close>

type_synonym catalog = "string \<Rightarrow> u16 option"

definition VisitBuiltinTableIterCall ::
  "catalog \<Rightarrow> llvm \<Rightarrow> abi \<Rightarrow> Type \<Rightarrow> TableIterCall \<Rightarrow> TExpr list \<Rightarrow> gvisit list \<Rightarrow> gvisit" where
  "VisitBuiltinTableIterCall tables L A type builtin nodes args = (case builtin of
     TableIterInit \<Rightarrow> special_call L A type args [RArg 0] (\<lambda>vs g. do {
       node \<leftarrow> vec_at nodes 1;
       table_name \<leftarrow> string_literal node;
       table_id \<leftarrow> tables table_name;
       let g = emit (EmitTableIterInit (Library ''TableVectorIteratorInit'') (vs ! 0) table_id) g;
       try_emit (Emit (Library ''TableVectorIteratorPerformInit'') [vs ! 0]) g }) KeepResult
   | TableIterAdvance \<Rightarrow> simple_call L A type args [RArg 0, Dest] ''TableVectorIteratorNext'' [1, 0] (ValueResult 1)
   | TableIterGetVPI \<Rightarrow> simple_call L A type args [RArg 0, Dest] ''TableVectorIteratorGetVPI'' [1, 0] (ValueResult 1)
   | TableIterClose \<Rightarrow> simple_call L A type args [RArg 0] ''TableVectorIteratorFree'' [0] KeepResult
   | TableIterParallel \<Rightarrow> (\<lambda>r g. None))"

definition VisitBuiltinTableIterParallelCall ::
  "catalog \<Rightarrow> llvm \<Rightarrow> abi \<Rightarrow> Type \<Rightarrow> TExpr list \<Rightarrow> gvisit list \<Rightarrow> gvisit" where
  "VisitBuiltinTableIterParallelCall tables L A type nodes args = special_call L A type args [RArg 1, RArg 2] (\<lambda>vs g. do {
     node \<leftarrow> vec_at nodes 0;
     table_name \<leftarrow> string_literal node;
     table_id \<leftarrow> tables table_name;
     scan_fn \<leftarrow> function_argument nodes 3 g;
     Some (emit (EmitParallelTableScan table_id (vs ! 0) (vs ! 1) scan_fn) g) }) KeepResult"

text \<open>A column is read at the index its second argument is, and written at the index the same argument is.\<close>

definition vpi_get :: "llvm \<Rightarrow> abi \<Rightarrow> Type \<Rightarrow> TExpr list \<Rightarrow> gvisit list \<Rightarrow> string \<Rightarrow> gvisit" where
  "vpi_get L A type nodes args code = special_call L A type args [RArg 0, Dest] (\<lambda>vs g. do {
     node \<leftarrow> vec_at nodes 1;
     col_idx \<leftarrow> integer_literal node;
     tpl_assert (col_idx \<ge> 0);
     Some (emit (EmitVPIGet (Library code) (vs ! 1) (vs ! 0) (of_int col_idx)) g) }) KeepResult"

definition vpi_set :: "llvm \<Rightarrow> abi \<Rightarrow> Type \<Rightarrow> TExpr list \<Rightarrow> gvisit list \<Rightarrow> string \<Rightarrow> gvisit" where
  "vpi_set L A type nodes args code = special_call L A type args [RArg 0, SArg 1] (\<lambda>vs g. do {
     node \<leftarrow> vec_at nodes 1;
     col_idx \<leftarrow> integer_literal node;
     tpl_assert (col_idx \<ge> 0);
     Some (emit (EmitVPISet (Library code) (vs ! 0) (vs ! 1) (of_int col_idx)) g) }) KeepResult"

definition VisitBuiltinVPICall :: "llvm \<Rightarrow> abi \<Rightarrow> Type \<Rightarrow> VPICall \<Rightarrow> TExpr list \<Rightarrow> gvisit list \<Rightarrow> gvisit" where
  "VisitBuiltinVPICall L A type builtin nodes args = (case builtin of
     VPIInit \<Rightarrow>
       (if length nodes = 3 then simple_call L A type args [RArg 0, RArg 1, RArg 2] ''VPIInitWithList'' [0, 1, 2] KeepResult
        else simple_call L A type args [RArg 0, RArg 1] ''VPIInit'' [0, 1] KeepResult)
   | VPIFree \<Rightarrow> simple_call L A type args [RArg 0] ''VPIFree'' [0] KeepResult
   | VPIIsFiltered \<Rightarrow> simple_call L A type args [RArg 0, Dest] ''VPIIsFiltered'' [1, 0] (ValueResult 1)
   | VPIGetSelectedRowCount \<Rightarrow> simple_call L A type args [RArg 0, Dest] ''VPIGetSelectedRowCount'' [1, 0] (ValueResult 1)
   | VPIGetVectorProjection \<Rightarrow> simple_call L A type args [RArg 0, Dest] ''VPIGetVectorProjection'' [1, 0] (ValueResult 1)
   | VPIHasNext \<Rightarrow> simple_call L A type args [RArg 0, Dest] ''VPIHasNext'' [1, 0] (ValueResult 1)
   | VPIAdvance \<Rightarrow> simple_call L A type args [RArg 0] ''VPIAdvance'' [0] KeepResult
   | VPISetPosition \<Rightarrow> simple_call L A type args [RArg 0, RArg 1] ''VPISetPosition'' [0, 1] KeepResult
   | VPIMatch \<Rightarrow> simple_call L A type args [RArg 0, RArg 1] ''VPIMatch'' [0, 1] KeepResult
   | VPIReset \<Rightarrow> simple_call L A type args [RArg 0] ''VPIReset'' [0] KeepResult
   | VPIGetBool \<Rightarrow> vpi_get L A type nodes args ''VPIGetBool''
   | VPIGetTinyInt \<Rightarrow> vpi_get L A type nodes args ''VPIGetTinyInt''
   | VPIGetSmallInt \<Rightarrow> vpi_get L A type nodes args ''VPIGetSmallInt''
   | VPIGetInt \<Rightarrow> vpi_get L A type nodes args ''VPIGetInteger''
   | VPIGetBigInt \<Rightarrow> vpi_get L A type nodes args ''VPIGetBigInt''
   | VPIGetReal \<Rightarrow> vpi_get L A type nodes args ''VPIGetReal''
   | VPIGetDouble \<Rightarrow> vpi_get L A type nodes args ''VPIGetDouble''
   | VPIGetDate \<Rightarrow> vpi_get L A type nodes args ''VPIGetDate''
   | VPIGetString \<Rightarrow> vpi_get L A type nodes args ''VPIGetString''
   | VPIGetPointer \<Rightarrow> vpi_get L A type nodes args ''VPIGetPointer''
   | VPISetBool \<Rightarrow> vpi_set L A type nodes args ''VPISetBool''
   | VPISetTinyInt \<Rightarrow> vpi_set L A type nodes args ''VPISetTinyInt''
   | VPISetSmallInt \<Rightarrow> vpi_set L A type nodes args ''VPISetSmallInt''
   | VPISetInt \<Rightarrow> vpi_set L A type nodes args ''VPISetInteger''
   | VPISetBigInt \<Rightarrow> vpi_set L A type nodes args ''VPISetBigInt''
   | VPISetReal \<Rightarrow> vpi_set L A type nodes args ''VPISetReal''
   | VPISetDouble \<Rightarrow> vpi_set L A type nodes args ''VPISetDouble''
   | VPISetDate \<Rightarrow> vpi_set L A type nodes args ''VPISetDate''
   | VPISetString \<Rightarrow> vpi_set L A type nodes args ''VPISetString'')"

definition compact_write :: "llvm \<Rightarrow> abi \<Rightarrow> Type \<Rightarrow> gvisit list \<Rightarrow> string \<Rightarrow> gvisit" where
  "compact_write L A type args code =
     simple_call L A type args [RArg 0, RArg 1, RArg 2, SArg 3] code [0, 1, 2, 3] KeepResult"

definition compact_read :: "llvm \<Rightarrow> abi \<Rightarrow> Type \<Rightarrow> gvisit list \<Rightarrow> string \<Rightarrow> gvisit" where
  "compact_read L A type args code =
     simple_call L A type args [RArg 0, Dest, RArg 1, RArg 2] code [1, 0, 2, 3] KeepResult"

definition VisitCompactStorageWrite :: "llvm \<Rightarrow> abi \<Rightarrow> Type \<Rightarrow> CompactStorageWriteCall \<Rightarrow> gvisit list \<Rightarrow> gvisit" where
  "VisitCompactStorageWrite L A type builtin args = compact_write L A type args (case builtin of
     CompactStorageWriteBool \<Rightarrow> ''CompactStorageWriteBool''
   | CompactStorageWriteTinyInt \<Rightarrow> ''CompactStorageWriteTinyInt''
   | CompactStorageWriteSmallInt \<Rightarrow> ''CompactStorageWriteSmallInt''
   | CompactStorageWriteInteger \<Rightarrow> ''CompactStorageWriteInteger''
   | CompactStorageWriteBigInt \<Rightarrow> ''CompactStorageWriteBigInt''
   | CompactStorageWriteReal \<Rightarrow> ''CompactStorageWriteReal''
   | CompactStorageWriteDouble \<Rightarrow> ''CompactStorageWriteDouble''
   | CompactStorageWriteDate \<Rightarrow> ''CompactStorageWriteDate''
   | CompactStorageWriteTimestamp \<Rightarrow> ''CompactStorageWriteTimestamp''
   | CompactStorageWriteString \<Rightarrow> ''CompactStorageWriteString'')"

definition VisitCompactStorageRead :: "llvm \<Rightarrow> abi \<Rightarrow> Type \<Rightarrow> CompactStorageReadCall \<Rightarrow> gvisit list \<Rightarrow> gvisit" where
  "VisitCompactStorageRead L A type builtin args = compact_read L A type args (case builtin of
     CompactStorageReadBool \<Rightarrow> ''CompactStorageReadBool''
   | CompactStorageReadTinyInt \<Rightarrow> ''CompactStorageReadTinyInt''
   | CompactStorageReadSmallInt \<Rightarrow> ''CompactStorageReadSmallInt''
   | CompactStorageReadInteger \<Rightarrow> ''CompactStorageReadInteger''
   | CompactStorageReadBigInt \<Rightarrow> ''CompactStorageReadBigInt''
   | CompactStorageReadReal \<Rightarrow> ''CompactStorageReadReal''
   | CompactStorageReadDouble \<Rightarrow> ''CompactStorageReadDouble''
   | CompactStorageReadDate \<Rightarrow> ''CompactStorageReadDate''
   | CompactStorageReadTimestamp \<Rightarrow> ''CompactStorageReadTimestamp''
   | CompactStorageReadString \<Rightarrow> ''CompactStorageReadString'')"

text \<open>A timestamp falls through to the unreachable default case.\<close>

definition hash_bytecode :: "TExpr \<Rightarrow> string option" where
  "hash_bytecode node = (case GetType node of
     Some (BuiltinType k) \<Rightarrow>
       (case k of K_IntegerVal \<Rightarrow> Some ''HashInt'' | K_RealVal \<Rightarrow> Some ''HashReal'' | K_StringVal \<Rightarrow> Some ''HashString''
        | K_DateVal \<Rightarrow> Some ''HashDate'' | _ \<Rightarrow> None)
   | _ \<Rightarrow> None)"

definition hash_argument :: "LocalVar \<Rightarrow> TExpr \<times> gvisit \<Rightarrow> Generator \<Rightarrow> Generator option" where
  "hash_argument hash_val arg g = (case arg of (node, visit) \<Rightarrow> do {
     type \<leftarrow> GetType node;
     tpl_assert (IsSqlValueType type);
     (input, g) \<leftarrow> VisitExpressionForSQLValue visit g;
     code \<leftarrow> hash_bytecode node;
     try_emit (Emit (Library code) [hash_val, input, ValueOf hash_val]) g })"

definition VisitBuiltinHashCall :: "llvm \<Rightarrow> abi \<Rightarrow> Type \<Rightarrow> TExpr list \<Rightarrow> gvisit list \<Rightarrow> gvisit" where
  "VisitBuiltinHashCall L A type nodes args r g = do {
     tpl_assert (IsSpecificBuiltin type K_UInt64);
     tpl_assert (nodes \<noteq> []);
     special_call L A type args [Dest]
       (\<lambda>vs g. fold_opt (hash_argument (vs ! 0)) (zip nodes args) (emit (EmitAssignImm8 (vs ! 0) 0) g)) (ValueResult 0) r g }"

definition insert_filter :: "LocalVar \<Rightarrow> TExpr list \<Rightarrow> nat \<Rightarrow> Generator \<Rightarrow> Generator option" where
  "insert_filter filter_manager nodes arg_idx g = do {
     func_id \<leftarrow> function_argument nodes arg_idx g;
     Some (emit (EmitFilterManagerInsertFilter filter_manager func_id) g) }"

definition VisitBuiltinFilterManagerCall ::
  "llvm \<Rightarrow> abi \<Rightarrow> Type \<Rightarrow> FilterManagerCall \<Rightarrow> TExpr list \<Rightarrow> gvisit list \<Rightarrow> gvisit" where
  "VisitBuiltinFilterManagerCall L A type builtin nodes args = (case builtin of
     FilterManagerInit \<Rightarrow> simple_call L A type args [RArg 0] ''FilterManagerInit'' [0] KeepResult
   | FilterManagerInsertFilter \<Rightarrow> special_call L A type args [RArg 0] (\<lambda>vs g. do {
       g \<leftarrow> try_emit (Emit (Library ''FilterManagerStartNewClause'') [vs ! 0]) g;
       fold_opt (insert_filter (vs ! 0) nodes) [1..<length nodes] g }) KeepResult
   | FilterManagerRunFilters \<Rightarrow> simple_call L A type args [RArg 0, RArg 1] ''FilterManagerRunFilters'' [0, 1] KeepResult
   | FilterManagerFree \<Rightarrow> simple_call L A type args [RArg 0] ''FilterManagerFree'' [0] KeepResult)"

definition vector_filter_name :: "VectorFilterCall \<Rightarrow> string" where
  "vector_filter_name builtin = (case builtin of
     VectorFilterEqual \<Rightarrow> ''VectorFilterEqual''
   | VectorFilterGreaterThan \<Rightarrow> ''VectorFilterGreaterThan''
   | VectorFilterGreaterThanEqual \<Rightarrow> ''VectorFilterGreaterThanEqual''
   | VectorFilterLessThan \<Rightarrow> ''VectorFilterLessThan''
   | VectorFilterLessThanEqual \<Rightarrow> ''VectorFilterLessThanEqual''
   | VectorFilterNotEqual \<Rightarrow> ''VectorFilterNotEqual'')"

definition VisitBuiltinVectorFilterCall ::
  "llvm \<Rightarrow> abi \<Rightarrow> Type \<Rightarrow> VectorFilterCall \<Rightarrow> TExpr list \<Rightarrow> gvisit list \<Rightarrow> gvisit" where
  "VisitBuiltinVectorFilterCall L A type builtin nodes args r g = do {
     node \<leftarrow> vec_at nodes 2;
     right_type \<leftarrow> GetType node;
     if \<not> IsIntegerType right_type
     then simple_call L A type args [RArg 0, RArg 3, RArg 1, SArg 2] (vector_filter_name builtin @ ''Val'') [0, 2, 3, 1] KeepResult r g
     else simple_call L A type args [RArg 0, RArg 3, RArg 1, RArg 2] (vector_filter_name builtin) [0, 2, 3, 1] KeepResult r g }"

definition VisitBuiltinAggHashTableCall ::
  "llvm \<Rightarrow> abi \<Rightarrow> Type \<Rightarrow> AggHashTableCall \<Rightarrow> TExpr list \<Rightarrow> gvisit list \<Rightarrow> gvisit" where
  "VisitBuiltinAggHashTableCall L A type builtin nodes args = (case builtin of
     AggHashTableInit \<Rightarrow> simple_call L A type args [RArg 0, RArg 1, RArg 2] ''AggregationHashTableInit'' [0, 1, 2] KeepResult
   | AggHashTableInsert \<Rightarrow> special_call L A type args [Dest, RArg 0, RArg 1] (\<lambda>vs g. do {
       code \<leftarrow> (if length nodes > 2
               then do {
                 node \<leftarrow> vec_at nodes 2;
                 partitioned \<leftarrow> bool_literal node;
                 Some (if partitioned then ''AggregationHashTableAllocTuplePartitioned'' else ''AggregationHashTableAllocTuple'') }
               else Some ''AggregationHashTableAllocTuple'');
       try_emit (Emit (Library code) vs) g }) (ValueResult 0)
   | AggHashTableLinkEntry \<Rightarrow>
       simple_call L A type args [RArg 0, RArg 1] ''AggregationHashTableLinkHashTableEntry'' [0, 1] KeepResult
   | AggHashTableLookup \<Rightarrow>
       simple_call L A type args [Dest, RArg 0, RArg 1] ''AggregationHashTableLookup'' [0, 1, 2] (ValueResult 0)
   | AggHashTableProcessBatch \<Rightarrow> special_call L A type args [RArg 0, RArg 1, SArg 2, RArg 5] (\<lambda>vs g. do {
       node \<leftarrow> vec_at nodes 2;
       num_keys \<leftarrow> (case GetType node of Some (ArrayType n _) \<Rightarrow> Some n | _ \<Rightarrow> None);
       init_agg_fn \<leftarrow> function_argument nodes 3 g;
       merge_agg_fn \<leftarrow> function_argument nodes 4 g;
       Some (emit (EmitAggHashTableProcessBatch (vs ! 0) (vs ! 1) (ucast num_keys) (vs ! 2) init_agg_fn merge_agg_fn (vs ! 3)) g) }) KeepResult
   | AggHashTableMovePartitions \<Rightarrow> special_call L A type args [RArg 0, RArg 1, RArg 2] (\<lambda>vs g. do {
       merge_part_fn \<leftarrow> function_argument nodes 3 g;
       Some (emit (EmitAggHashTableMovePartitions (vs ! 0) (vs ! 1) (vs ! 2) merge_part_fn) g) }) KeepResult
   | AggHashTableParallelPartitionedScan \<Rightarrow> special_call L A type args [RArg 0, RArg 1, RArg 2] (\<lambda>vs g. do {
       scan_part_fn \<leftarrow> function_argument nodes 3 g;
       Some (emit (EmitAggHashTableParallelPartitionedScan (vs ! 0) (vs ! 1) (vs ! 2) scan_part_fn) g) }) KeepResult
   | AggHashTableFree \<Rightarrow> simple_call L A type args [RArg 0] ''AggregationHashTableFree'' [0] KeepResult)"

definition VisitBuiltinAggHashTableIterCall :: "llvm \<Rightarrow> abi \<Rightarrow> Type \<Rightarrow> AggHashTableIterCall \<Rightarrow> gvisit list \<Rightarrow> gvisit" where
  "VisitBuiltinAggHashTableIterCall L A type builtin args = (case builtin of
     AggHashTableIterInit \<Rightarrow>
       simple_call L A type args [RArg 0, RArg 1] ''AggregationHashTableIteratorInit'' [0, 1] KeepResult
   | AggHashTableIterHasNext \<Rightarrow>
       simple_call L A type args [Dest, RArg 0] ''AggregationHashTableIteratorHasNext'' [0, 1] (ValueResult 0)
   | AggHashTableIterNext \<Rightarrow> simple_call L A type args [RArg 0] ''AggregationHashTableIteratorNext'' [0] KeepResult
   | AggHashTableIterGetRow \<Rightarrow>
       simple_call L A type args [Dest, RArg 0] ''AggregationHashTableIteratorGetRow'' [0, 1] (ValueResult 0)
   | AggHashTableIterClose \<Rightarrow> simple_call L A type args [RArg 0] ''AggregationHashTableIteratorFree'' [0] KeepResult)"

definition VisitBuiltinAggPartIterCall :: "llvm \<Rightarrow> abi \<Rightarrow> Type \<Rightarrow> AggPartIterCall \<Rightarrow> gvisit list \<Rightarrow> gvisit" where
  "VisitBuiltinAggPartIterCall L A type builtin args = (case builtin of
     AggPartIterHasNext \<Rightarrow>
       simple_call L A type args [Dest, RArg 0] ''AggregationOverflowPartitionIteratorHasNext'' [0, 1] (ValueResult 0)
   | AggPartIterNext \<Rightarrow> simple_call L A type args [RArg 0] ''AggregationOverflowPartitionIteratorNext'' [0] KeepResult
   | AggPartIterGetRow \<Rightarrow>
       simple_call L A type args [Dest, RArg 0] ''AggregationOverflowPartitionIteratorGetRow'' [0, 1] (ValueResult 0)
   | AggPartIterGetRowEntry \<Rightarrow>
       simple_call L A type args [Dest, RArg 0] ''AggregationOverflowPartitionIteratorGetRowEntry'' [0, 1] (ValueResult 0)
   | AggPartIterGetHash \<Rightarrow>
       simple_call L A type args [Dest, RArg 0] ''AggregationOverflowPartitionIteratorGetHash'' [0, 1] (ValueResult 0))"

text \<open>\<^verbatim>\<open>AGG_CODES\<close>: the instructions of an aggregate are named after its type. There is no specialisation of
  \<^verbatim>\<open>OpForAgg\<close> for \<^verbatim>\<open>Free\<close>.\<close>

definition AGG_CODES :: "(Kind \<times> string) list" where
  "AGG_CODES = [(K_CountAggregate, ''CountAggregate''), (K_CountStarAggregate, ''CountStarAggregate''),
     (K_AvgAggregate, ''AvgAggregate''), (K_IntegerMaxAggregate, ''IntegerMaxAggregate''),
     (K_IntegerMinAggregate, ''IntegerMinAggregate''), (K_IntegerSumAggregate, ''IntegerSumAggregate''),
     (K_RealMaxAggregate, ''RealMaxAggregate''), (K_RealMinAggregate, ''RealMinAggregate''),
     (K_RealSumAggregate, ''RealSumAggregate''), (K_DateMaxAggregate, ''DateMaxAggregate''),
     (K_DateMinAggregate, ''DateMinAggregate''), (K_StringMaxAggregate, ''StringMaxAggregate''),
     (K_StringMinAggregate, ''StringMinAggregate'')]"

datatype AggOpKind = AggOp_Init | AggOp_Advance | AggOp_GetResult | AggOp_Merge | AggOp_Reset | AggOp_Free

definition OpForAgg :: "AggOpKind \<Rightarrow> Kind \<Rightarrow> string option" where
  "OpForAgg op agg_kind = do {
     name \<leftarrow> map_of AGG_CODES agg_kind;
     suffix \<leftarrow> (case op of
         AggOp_Init \<Rightarrow> Some ''Init''
       | AggOp_Advance \<Rightarrow> Some (if agg_kind = K_AvgAggregate then ''AdvanceInteger'' else ''Advance'')
       | AggOp_GetResult \<Rightarrow> Some ''GetResult''
       | AggOp_Merge \<Rightarrow> Some ''Merge''
       | AggOp_Reset \<Rightarrow> Some ''Reset''
       | AggOp_Free \<Rightarrow> None);
     Some (name @ suffix) }"

definition agg_kind_of :: "TExpr \<Rightarrow> Kind option" where
  "agg_kind_of node = (case GetType node of Some (PointerType (BuiltinType k)) \<Rightarrow> Some k | _ \<Rightarrow> None)"

definition agg_each :: "AggOpKind \<Rightarrow> TExpr \<times> gvisit \<Rightarrow> Generator \<Rightarrow> Generator option" where
  "agg_each op arg g = (case arg of (node, visit) \<Rightarrow> do {
     agg_kind \<leftarrow> agg_kind_of node;
     (input, g) \<leftarrow> VisitExpressionForRValue visit g;
     code \<leftarrow> OpForAgg op agg_kind;
     try_emit (Emit (Library code) [input]) g })"

definition VisitBuiltinAggregatorCall ::
  "llvm \<Rightarrow> abi \<Rightarrow> Type \<Rightarrow> AggregatorCall \<Rightarrow> TExpr list \<Rightarrow> gvisit list \<Rightarrow> gvisit" where
  "VisitBuiltinAggregatorCall L A type builtin nodes args = (case builtin of
     AggInit \<Rightarrow> special_call L A type args [] (\<lambda>vs. fold_opt (agg_each AggOp_Init) (zip nodes args)) KeepResult
   | AggReset \<Rightarrow> special_call L A type args [] (\<lambda>vs. fold_opt (agg_each AggOp_Reset) (zip nodes args)) KeepResult
   | AggAdvance \<Rightarrow> special_call L A type args [RArg 0, SArg 1] (\<lambda>vs g. do {
       node \<leftarrow> vec_at nodes 0;
       input_node \<leftarrow> vec_at nodes 1;
       agg_kind \<leftarrow> agg_kind_of node;
       code \<leftarrow> OpForAgg AggOp_Advance agg_kind;
       input_type \<leftarrow> GetType input_node;
       let code = (if agg_kind = K_AvgAggregate \<and> IsSpecificBuiltin input_type K_RealVal then ''AvgAggregateAdvanceReal'' else code);
       try_emit (Emit (Library code) vs) g }) KeepResult
   | AggMerge \<Rightarrow> special_call L A type args [RArg 0, RArg 1] (\<lambda>vs g. do {
       node \<leftarrow> vec_at nodes 0;
       agg_kind \<leftarrow> agg_kind_of node;
       code \<leftarrow> OpForAgg AggOp_Merge agg_kind;
       try_emit (Emit (Library code) vs) g }) KeepResult
   | AggResult \<Rightarrow> special_call L A type args [Dest, RArg 0] (\<lambda>vs g. do {
       node \<leftarrow> vec_at nodes 0;
       agg_kind \<leftarrow> agg_kind_of node;
       code \<leftarrow> OpForAgg AggOp_GetResult agg_kind;
       try_emit (Emit (Library code) vs) g }) KeepResult)"

text \<open>The analysis and the compression function are both taken from the fourth argument.\<close>

definition VisitBuiltinJoinHashTableCall ::
  "llvm \<Rightarrow> abi \<Rightarrow> Type \<Rightarrow> JoinHashTableCall \<Rightarrow> TExpr list \<Rightarrow> gvisit list \<Rightarrow> gvisit" where
  "VisitBuiltinJoinHashTableCall L A type builtin nodes args = (case builtin of
     JoinHashTableInit \<Rightarrow> special_call L A type args [RArg 0, RArg 1, RArg 2] (\<lambda>vs g.
       if length nodes = 3 then try_emit (Emit (Library ''JoinHashTableInit'') vs) g
       else do {
         analysis_fn \<leftarrow> function_argument nodes 3 g;
         compress_fn \<leftarrow> function_argument nodes 3 g;
         Some (emit (EmitJoinHashTableInit (vs ! 0) (vs ! 1) (vs ! 2) analysis_fn compress_fn) g) }) KeepResult
   | JoinHashTableInsert \<Rightarrow> simple_call L A type args [RArg 0, Dest, RArg 1] ''JoinHashTableAllocTuple'' [1, 0, 2] (ValueResult 1)
   | JoinHashTableBuild \<Rightarrow> simple_call L A type args [RArg 0] ''JoinHashTableBuild'' [0] KeepResult
   | JoinHashTableBuildParallel \<Rightarrow>
       simple_call L A type args [RArg 0, RArg 1, RArg 2] ''JoinHashTableBuildParallel'' [0, 1, 2] KeepResult
   | JoinHashTableLookup \<Rightarrow> simple_call L A type args [RArg 0, Dest, RArg 1] ''JoinHashTableLookup'' [1, 0, 2] (ValueResult 1)
   | JoinHashTableFree \<Rightarrow> simple_call L A type args [RArg 0] ''JoinHashTableFree'' [0] KeepResult)"

definition VisitBuiltinHashTableEntryCall :: "llvm \<Rightarrow> abi \<Rightarrow> Type \<Rightarrow> HashTableEntryCall \<Rightarrow> gvisit list \<Rightarrow> gvisit" where
  "VisitBuiltinHashTableEntryCall L A type builtin args = (case builtin of
     HashTableEntryGetHash \<Rightarrow> simple_call L A type args [RArg 0, Dest] ''HashTableEntryGetHash'' [1, 0] (ValueResult 1)
   | HashTableEntryGetRow \<Rightarrow> simple_call L A type args [RArg 0, Dest] ''HashTableEntryGetRow'' [1, 0] (ValueResult 1)
   | HashTableEntryGetNext \<Rightarrow> simple_call L A type args [RArg 0, Dest] ''HashTableEntryGetNext'' [1, 0] (ValueResult 1))"

definition VisitBuiltinAnalysisStatsCall :: "llvm \<Rightarrow> abi \<Rightarrow> Type \<Rightarrow> AnalysisStatsCall \<Rightarrow> gvisit list \<Rightarrow> gvisit" where
  "VisitBuiltinAnalysisStatsCall L A type builtin args = (case builtin of
     AnalysisStatsSetColumnCount \<Rightarrow>
       simple_call L A type args [RArg 0, RArg 1] ''AnalysisStatsSetColumnCount'' [0, 1] KeepResult
   | AnalysisStatsSetColumnBits \<Rightarrow>
       simple_call L A type args [RArg 0, RArg 1, RArg 2] ''AnalysisStatsSetColumnBits'' [0, 1, 2] KeepResult)"

definition VisitBuiltinSorterCall :: "llvm \<Rightarrow> abi \<Rightarrow> Type \<Rightarrow> SorterCall \<Rightarrow> TExpr list \<Rightarrow> gvisit list \<Rightarrow> gvisit" where
  "VisitBuiltinSorterCall L A type builtin nodes args = (case builtin of
     SorterInit \<Rightarrow> special_call L A type args [RArg 0, RArg 1, RArg 3] (\<lambda>vs g. do {
       cmp_fn \<leftarrow> function_argument nodes 2 g;
       Some (emit (EmitSorterInit (Library ''SorterInit'') (vs ! 0) (vs ! 1) cmp_fn (vs ! 2)) g) }) KeepResult
   | SorterInsert \<Rightarrow> simple_call L A type args [Dest, RArg 0] ''SorterAllocTuple'' [0, 1] KeepResult
   | SorterInsertTopK \<Rightarrow> simple_call L A type args [Dest, RArg 0, RArg 1] ''SorterAllocTupleTopK'' [0, 1, 2] KeepResult
   | SorterInsertTopKFinish \<Rightarrow> simple_call L A type args [RArg 0, RArg 1] ''SorterAllocTupleTopKFinish'' [0, 1] KeepResult
   | SorterSort \<Rightarrow> simple_call L A type args [RArg 0] ''SorterSort'' [0] KeepResult
   | SorterSortParallel \<Rightarrow> simple_call L A type args [RArg 0, RArg 1, RArg 2] ''SorterSortParallel'' [0, 1, 2] KeepResult
   | SorterSortTopKParallel \<Rightarrow>
       simple_call L A type args [RArg 0, RArg 1, RArg 2, RArg 3] ''SorterSortTopKParallel'' [0, 1, 2, 3] KeepResult
   | SorterFree \<Rightarrow> simple_call L A type args [RArg 0] ''SorterFree'' [0] KeepResult)"

definition VisitBuiltinSorterIterCall :: "llvm \<Rightarrow> abi \<Rightarrow> Type \<Rightarrow> SorterIterCall \<Rightarrow> gvisit list \<Rightarrow> gvisit" where
  "VisitBuiltinSorterIterCall L A type builtin args = (case builtin of
     SorterIterInit \<Rightarrow> simple_call L A type args [RArg 0, RArg 1] ''SorterIteratorInit'' [0, 1] KeepResult
   | SorterIterHasNext \<Rightarrow> simple_call L A type args [RArg 0, Dest] ''SorterIteratorHasNext'' [1, 0] (ValueResult 1)
   | SorterIterNext \<Rightarrow> simple_call L A type args [RArg 0] ''SorterIteratorNext'' [0] KeepResult
   | SorterIterSkipRows \<Rightarrow> simple_call L A type args [RArg 0, RArg 1] ''SorterIteratorSkipRows'' [0, 1] KeepResult
   | SorterIterGetRow \<Rightarrow> simple_call L A type args [RArg 0, Dest] ''SorterIteratorGetRow'' [1, 0] (ValueResult 1)
   | SorterIterClose \<Rightarrow> simple_call L A type args [RArg 0] ''SorterIteratorFree'' [0] KeepResult)"

definition VisitResultBufferCall :: "llvm \<Rightarrow> abi \<Rightarrow> Type \<Rightarrow> ResultBufferCall \<Rightarrow> gvisit list \<Rightarrow> gvisit" where
  "VisitResultBufferCall L A type builtin args = (case builtin of
     ResultBufferAllocOutRow \<Rightarrow> simple_call L A type args [RArg 0, Dest] ''ResultBufferAllocOutputRow'' [1, 0] KeepResult
   | ResultBufferFinalize \<Rightarrow> simple_call L A type args [RArg 0] ''ResultBufferFinalize'' [0] KeepResult)"

definition VisitCSVReaderCall :: "llvm \<Rightarrow> abi \<Rightarrow> Type \<Rightarrow> CSVReaderCall \<Rightarrow> TExpr list \<Rightarrow> gvisit list \<Rightarrow> gvisit" where
  "VisitCSVReaderCall L A type builtin nodes args = (case builtin of
     CSVReaderInit \<Rightarrow> special_call L A type args [RArg 0, Dest] (\<lambda>vs g. do {
       node \<leftarrow> vec_at nodes 1;
       string_lit \<leftarrow> string_literal node;
       (file_name, g) \<leftarrow> NewStaticString L A string_lit g;
       let g = emit (EmitCSVReaderInit (vs ! 0) file_name (of_nat (length string_lit))) g;
       try_emit (Emit (Library ''CSVReaderPerformInit'') [vs ! 1, vs ! 0]) g }) (ValueResult 1)
   | CSVReaderAdvance \<Rightarrow> simple_call L A type args [RArg 0, Dest] ''CSVReaderAdvance'' [1, 0] (ValueResult 1)
   | CSVReaderGetField \<Rightarrow> simple_call L A type args [RArg 0, RArg 1, RArg 2] ''CSVReaderGetField'' [0, 1, 2] KeepResult
   | CSVReaderGetRecordNumber \<Rightarrow> simple_call L A type args [RArg 0, Dest] ''CSVReaderGetRecordNumber'' [1, 0] KeepResult
   | CSVReaderClose \<Rightarrow> simple_call L A type args [RArg 0] ''CSVReaderClose'' [0] KeepResult)"

definition VisitExecutionContextCall :: "llvm \<Rightarrow> abi \<Rightarrow> Type \<Rightarrow> ExecutionContextCall \<Rightarrow> gvisit list \<Rightarrow> gvisit" where
  "VisitExecutionContextCall L A type builtin args = (case builtin of
     ExecutionContextGetMemoryPool \<Rightarrow>
       simple_call L A type args [Dest, RArg 0] ''ExecutionContextGetMemoryPool'' [0, 1] (ValueResult 0)
   | ExecutionContextGetTLS \<Rightarrow> simple_call L A type args [Dest, RArg 0] ''ExecutionContextGetTLS'' [0, 1] (ValueResult 0))"

definition VisitBuiltinThreadStateContainerCall ::
  "llvm \<Rightarrow> abi \<Rightarrow> Type \<Rightarrow> ThreadStateContainerCall \<Rightarrow> TExpr list \<Rightarrow> gvisit list \<Rightarrow> gvisit" where
  "VisitBuiltinThreadStateContainerCall L A type builtin nodes args = (case builtin of
     ThreadStateContainerGetState \<Rightarrow>
       simple_call L A type args [RArg 0, Dest] ''ThreadStateContainerAccessCurrentThreadState'' [1, 0] (ValueResult 1)
   | ThreadStateContainerIterate \<Rightarrow> special_call L A type args [RArg 0, RArg 1] (\<lambda>vs g. do {
       iterate_fn \<leftarrow> function_argument nodes 2 g;
       Some (emit (EmitThreadStateContainerIterate (vs ! 0) (vs ! 1) iterate_fn) g) }) KeepResult
   | ThreadStateContainerReset \<Rightarrow> special_call L A type args [RArg 0, RArg 1, RArg 4] (\<lambda>vs g. do {
       init_fn \<leftarrow> function_argument nodes 2 g;
       destroy_fn \<leftarrow> function_argument nodes 3 g;
       Some (emit (EmitThreadStateContainerReset (vs ! 0) (vs ! 1) init_fn destroy_fn (vs ! 2)) g) }) KeepResult
   | ThreadStateContainerClear \<Rightarrow> simple_call L A type args [RArg 0] ''ThreadStateContainerClear'' [0] KeepResult)"

text \<open>The case of the tangent falls through to the unreachable default case.\<close>

definition VisitBuiltinTrigCall :: "llvm \<Rightarrow> abi \<Rightarrow> Type \<Rightarrow> MathTrigCall \<Rightarrow> gvisit list \<Rightarrow> gvisit" where
  "VisitBuiltinTrigCall L A type builtin args = (case builtin of
     ACos \<Rightarrow> simple_call L A type args [Dest, SArg 0] ''Acos'' [0, 1] KeepResult
   | ASin \<Rightarrow> simple_call L A type args [Dest, SArg 0] ''Asin'' [0, 1] KeepResult
   | ATan \<Rightarrow> simple_call L A type args [Dest, SArg 0] ''Atan'' [0, 1] KeepResult
   | ATan2 \<Rightarrow> simple_call L A type args [Dest, SArg 0, SArg 1] ''Atan2'' [0, 1, 2] KeepResult
   | Cos \<Rightarrow> simple_call L A type args [Dest, SArg 0] ''Cos'' [0, 1] KeepResult
   | Cot \<Rightarrow> simple_call L A type args [Dest, SArg 0] ''Cot'' [0, 1] KeepResult
   | Sin \<Rightarrow> simple_call L A type args [Dest, SArg 0] ''Sin'' [0, 1] KeepResult
   | Tan \<Rightarrow> (\<lambda>r g. None))"

text \<open>The destination of a call whose result may not be wanted.\<close>

definition result_or_temporary ::
  "llvm \<Rightarrow> abi \<Rightarrow> Type \<Rightarrow> ExpressionResult option \<Rightarrow> Generator \<Rightarrow> (LocalVar \<times> ExpressionResult option \<times> Generator) option" where
  "result_or_temporary L A type r g = (case r of
     Some er \<Rightarrow> do { (v, er, g) \<leftarrow> GetOrCreateDestination L A type er g; Some (v, Some er, g) }
   | None \<Rightarrow> do { (v, g) \<leftarrow> gen_NewLocal L A type [] g; Some (v, None, g) })"

definition VisitBuiltinBitsCall :: "llvm \<Rightarrow> abi \<Rightarrow> Type \<Rightarrow> BitsCall \<Rightarrow> TExpr list \<Rightarrow> gvisit list \<Rightarrow> gvisit" where
  "VisitBuiltinBitsCall L A type builtin nodes args r g = do {
     (res, r, g) \<leftarrow> result_or_temporary L A type r g;
     arg \<leftarrow> vec_at args 0;
     (input, g) \<leftarrow> VisitExpressionForRValue arg g;
     node \<leftarrow> vec_at nodes 0;
     input_type \<leftarrow> GetType node;
     op \<leftarrow> GetIntTypedBytecode (Typed (case builtin of Ctlz \<Rightarrow> BitCtlz | Cttz \<Rightarrow> BitCttz) P_uint8) input_type False;
     g \<leftarrow> try_emit (Emit op [res, input]) g;
     Some (map_option (SetDestination (ValueOf res)) r, g) }"

definition VisitBuiltinSizeOfCall :: "llvm \<Rightarrow> abi \<Rightarrow> Type \<Rightarrow> TExpr list \<Rightarrow> gvisit" where
  "VisitBuiltinSizeOfCall L A type nodes = special_call L A type [] [Dest] (\<lambda>vs g. do {
     node \<leftarrow> vec_at nodes 0;
     target_type \<leftarrow> GetType node;
     size \<leftarrow> GetSize L A target_type;
     Some (emit (EmitAssignImm4 (vs ! 0) size) g) }) (ValueResult 0)"

definition VisitBuiltinOffsetOfCall :: "llvm \<Rightarrow> abi \<Rightarrow> Type \<Rightarrow> TExpr list \<Rightarrow> gvisit" where
  "VisitBuiltinOffsetOfCall L A type nodes = special_call L A type [] [Dest] (\<lambda>vs g. do {
     node \<leftarrow> vec_at nodes 0;
     fields \<leftarrow> (case GetType node of Some (StructType _ fs) \<Rightarrow> Some fs | _ \<Rightarrow> None);
     field \<leftarrow> vec_at nodes 1;
     field_name \<leftarrow> GetFuncName field;
     offset \<leftarrow> GetOffsetOfFieldByName L A fields (Some field_name);
     Some (emit (EmitAssignImm4 (vs ! 0) offset) g) }) (ValueResult 0)"

definition prim_of_kind :: "Kind \<Rightarrow> PrimType option" where
  "prim_of_kind k = (case k of
     K_Bool \<Rightarrow> Some P_bool | K_Int8 \<Rightarrow> Some P_int8 | K_Int16 \<Rightarrow> Some P_int16 | K_Int32 \<Rightarrow> Some P_int32 | K_Int64 \<Rightarrow> Some P_int64
   | K_UInt8 \<Rightarrow> Some P_uint8 | K_UInt16 \<Rightarrow> Some P_uint16 | K_UInt32 \<Rightarrow> Some P_uint32 | K_UInt64 \<Rightarrow> Some P_uint64 | _ \<Rightarrow> None)"

definition VisitBuiltinIntCastCall :: "llvm \<Rightarrow> abi \<Rightarrow> Type \<Rightarrow> TExpr list \<Rightarrow> gvisit list \<Rightarrow> gvisit" where
  "VisitBuiltinIntCastCall L A type nodes args r g = do {
     (dest, r, g) \<leftarrow> result_or_temporary L A type r g;
     arg \<leftarrow> vec_at args 1;
     (input, g) \<leftarrow> VisitExpressionForRValue arg g;
     node \<leftarrow> vec_at nodes 1;
     input_type \<leftarrow> (case GetType node of Some (BuiltinType k) \<Rightarrow> prim_of_kind k | _ \<Rightarrow> None);
     target_type \<leftarrow> (case type of BuiltinType k \<Rightarrow> prim_of_kind k | _ \<Rightarrow> None);
     g \<leftarrow> try_emit (Emit (Cast input_type target_type) [dest, input]) g;
     Some (map_option (SetDestination (ValueOf dest)) r, g) }"

definition VisitBuiltinCallExpression ::
  "catalog \<Rightarrow> llvm \<Rightarrow> abi \<Rightarrow> Type option \<Rightarrow> TExpr \<Rightarrow> TExpr list \<Rightarrow> gvisit list \<Rightarrow> gvisit" where
  "VisitBuiltinCallExpression tables L A type callee nodes args r g = do {
     type \<leftarrow> type;
     name \<leftarrow> GetFuncName callee;
     builtin \<leftarrow> IsBuiltinFunction name;
     (case builtin of
        BSqlConversion b \<Rightarrow> VisitSqlConversionCall L A type b nodes args
      | BNullValue b \<Rightarrow> VisitNullValueCall L A type b args
      | LNot \<Rightarrow> VisitLNotCall L A type args
      | Like \<Rightarrow> VisitSqlStringLikeCall L A type args
      | ExtractYear \<Rightarrow> VisitBuiltinDateFunctionCall L A type args
      | Concat \<Rightarrow> VisitBuiltinConcatCall L A type args
      | BExecutionContextCall b \<Rightarrow> VisitExecutionContextCall L A type b args
      | BThreadStateContainerCall b \<Rightarrow> VisitBuiltinThreadStateContainerCall L A type b nodes args
      | BTableIterCall TableIterParallel \<Rightarrow> VisitBuiltinTableIterParallelCall tables L A type nodes args
      | BTableIterCall b \<Rightarrow> VisitBuiltinTableIterCall tables L A type b nodes args
      | BVPICall b \<Rightarrow> VisitBuiltinVPICall L A type b nodes args
      | BCompactStorageWriteCall b \<Rightarrow> VisitCompactStorageWrite L A type b args
      | BCompactStorageReadCall b \<Rightarrow> VisitCompactStorageRead L A type b args
      | Hash \<Rightarrow> VisitBuiltinHashCall L A type nodes args
      | BFilterManagerCall b \<Rightarrow> VisitBuiltinFilterManagerCall L A type b nodes args
      | BVectorFilterCall b \<Rightarrow> VisitBuiltinVectorFilterCall L A type b nodes args
      | BAggHashTableCall b \<Rightarrow> VisitBuiltinAggHashTableCall L A type b nodes args
      | BAggPartIterCall b \<Rightarrow> VisitBuiltinAggPartIterCall L A type b args
      | BAggHashTableIterCall b \<Rightarrow> VisitBuiltinAggHashTableIterCall L A type b args
      | BAggregatorCall b \<Rightarrow> VisitBuiltinAggregatorCall L A type b nodes args
      | BJoinHashTableCall b \<Rightarrow> VisitBuiltinJoinHashTableCall L A type b nodes args
      | BHashTableEntryCall b \<Rightarrow> VisitBuiltinHashTableEntryCall L A type b args
      | BAnalysisStatsCall b \<Rightarrow> VisitBuiltinAnalysisStatsCall L A type b args
      | BSorterCall b \<Rightarrow> VisitBuiltinSorterCall L A type b nodes args
      | BSorterIterCall b \<Rightarrow> VisitBuiltinSorterIterCall L A type b args
      | BResultBufferCall b \<Rightarrow> VisitResultBufferCall L A type b args
      | BCSVReaderCall b \<Rightarrow> VisitCSVReaderCall L A type b nodes args
      | BMathTrigCall b \<Rightarrow> VisitBuiltinTrigCall L A type b args
      | BBitsCall b \<Rightarrow> VisitBuiltinBitsCall L A type b nodes args
      | SizeOf \<Rightarrow> VisitBuiltinSizeOfCall L A type nodes
      | OffsetOf \<Rightarrow> VisitBuiltinOffsetOfCall L A type nodes
      | PtrCast \<Rightarrow> (\<lambda>r g. do { arg \<leftarrow> vec_at args 1; arg r g })
      | IntCast \<Rightarrow> VisitBuiltinIntCastCall L A type nodes args) r g }"

section \<open>The visitor\<close>

text \<open>The parameters of the generator, with the bit patterns of floating-point literals and the catalog.\<close>

record gen_env =
  ge_llvm :: llvm
  ge_abi :: abi
  float_val :: "string \<Rightarrow> 32 word"
  double_val :: "string \<Rightarrow> 64 word"
  ge_tables :: catalog

fun gen_VisitExpr :: "gen_env \<Rightarrow> TExpr \<Rightarrow> gvisit"
  and gen_VisitStmt :: "gen_env \<Rightarrow> TStmt \<Rightarrow> gvisit"
  and gen_VisitDecl :: "gen_env \<Rightarrow> TDecl \<Rightarrow> gvisit" where
  "gen_VisitExpr E (TBinaryOp ty p op l r) =
     VisitBinaryOpExpression (ge_llvm E) (ge_abi E) ty op (gen_VisitExpr E l) (gen_VisitExpr E r)"
| "gen_VisitExpr E (TCall ty f args kind) =
     (if kind = BuiltinCall
      then VisitBuiltinCallExpression (ge_tables E) (ge_llvm E) (ge_abi E) ty f args (map (\<lambda>a. gen_VisitExpr E a) args)
      else VisitRegularCallExpression (ge_llvm E) (ge_abi E) f (map (\<lambda>a. gen_VisitExpr E a) args))"
| "gen_VisitExpr E (TComparison ty p op l r) =
     VisitComparisonOpExpression (ge_llvm E) (ge_abi E) ty op l r (gen_VisitExpr E l) (gen_VisitExpr E r)"
| "gen_VisitExpr E (TFunctionLiteral ty repr body) = gen_VisitStmt E body"
| "gen_VisitExpr E (TIdentifier ty p name) = gen_VisitIdentifierExpression (ge_llvm E) (ge_abi E) ty name"
| "gen_VisitExpr E (TImplicitCast ty p kind input) =
     VisitImplicitCastExpression (ge_llvm E) (ge_abi E) ty kind input (gen_VisitExpr E input)"
| "gen_VisitExpr E (TIndex ty p obj index) =
     gen_VisitIndexExpression (ge_llvm E) (ge_abi E) ty obj index (gen_VisitExpr E obj) (gen_VisitExpr E index)"
| "gen_VisitExpr E (TLiteral ty p literal) =
     gen_VisitLiteralExpression (ge_llvm E) (ge_abi E) (float_val E) (double_val E) ty literal"
| "gen_VisitExpr E (TMember ty p obj member) = gen_VisitMemberExpression (ge_llvm E) (ge_abi E) ty obj member (gen_VisitExpr E obj)"
| "gen_VisitExpr E (TUnaryOp ty p op input) = VisitUnaryOpExpression (ge_llvm E) (ge_abi E) ty op (gen_VisitExpr E input)"
| "gen_VisitExpr E (TArrayTypeRepr ty p n t) = (\<lambda>r g. None)"
| "gen_VisitExpr E (TFunctionTypeRepr ty p ps ret) = (\<lambda>r g. None)"
| "gen_VisitExpr E (TMapTypeRepr ty p k v) = (\<lambda>r g. None)"
| "gen_VisitExpr E (TPointerTypeRepr ty p t) = (\<lambda>r g. None)"
| "gen_VisitExpr E (TStructTypeRepr ty p fs) = (\<lambda>r g. None)"
| "gen_VisitExpr E (UnvisitedExpr e) = (\<lambda>r g. None)"
| "gen_VisitStmt E (TAssignment p dest source) = VisitAssignmentStatement (gen_VisitExpr E dest) (gen_VisitExpr E source)"
| "gen_VisitStmt E (TBlock p q stmts) = VisitBlockStatement (map (\<lambda>s. gen_VisitStmt E s) stmts)"
| "gen_VisitStmt E (TDeclaration d) = gen_VisitDecl E d"
| "gen_VisitStmt E (TExpression e) = gen_VisitExpr E e"
| "gen_VisitStmt E (TFor p init cond nxt body) =
     VisitForStatement (map_option (\<lambda>s. gen_VisitStmt E s) init) (map_option (\<lambda>e. gen_VisitExpr E e) cond)
       (map_option (\<lambda>s. gen_VisitStmt E s) nxt) (gen_VisitStmt E body)"
| "gen_VisitStmt E (TIf p cond t e) =
     VisitIfStatement (gen_VisitExpr E cond) t (gen_VisitStmt E t) (map_option (\<lambda>s. gen_VisitStmt E s) e)"
| "gen_VisitStmt E (TReturn p e) =
     VisitReturnStatement (ge_llvm E) (ge_abi E) e (map_option (\<lambda>e. gen_VisitExpr E e) e)"
| "gen_VisitStmt E (UnvisitedStmt s) = (\<lambda>r g. None)"
| "gen_VisitDecl E (TField p n t) = gen_VisitExpr E t"
| "gen_VisitDecl E (TFunction p name f) = VisitFunctionDeclaration (ge_llvm E) (ge_abi E) name f (gen_VisitExpr E f)"
| "gen_VisitDecl E (TStruct p name t) = (\<lambda>r g. Some (r, g))"
| "gen_VisitDecl E (TVariable p name ty e) =
     VisitVariableDeclaration (ge_llvm E) (ge_abi E) name ty e (map_option (\<lambda>e. gen_VisitExpr E e) e)"
| "gen_VisitDecl E (UnvisitedDecl d) = (\<lambda>r g. None)"

text \<open>\<^verbatim>\<open>VisitFile\<close>, started by \<^verbatim>\<open>Compile\<close> with a new generator.\<close>

definition Compile :: "gen_env \<Rightarrow> TDecl list \<Rightarrow> Generator option" where
  "Compile E decls = map_option snd (VisitBlockStatement (map (gen_VisitDecl E) decls) None BytecodeGenerator_new)"

end
