(* ===== verification/CodegenCorrect.thy ===== *)
theory CodegenCorrect
  imports VmCorrect BytecodeGenerator
begin

text \<open>
  Correctness of the code generator on expressions over booleans and machine integers. \<open>eval_expr\<close> is their meaning on
  the typed tree; \<open>correct_visit\<close> says of a visitor that the code it emits, run by the interpreter, computes that
  meaning. Each visitor of an operator keeps it, given the visitors of the operands (\<open>correct_unary\<close>,
  \<open>correct_binary\<close>, \<open>correct_and_or\<close>), and induction on the tree gives it for \<open>gen_VisitExpr\<close> (\<open>visit_correct\<close>).

  Each node needs at most 32 bytes of code and of frame (\<open>expr_cost\<close> counts units of 16), so an expression fits when the
  sizes stay below the 31 bits of the offsets of locals and jumps. The locale \<open>primitive_layout\<close> states what the generator
  needs of the sizes of types; it is interpreted for a 64-bit machine.
\<close>

section \<open>Typed instructions\<close>

text \<open>The table of typed instructions is made of blocks, one for each operation, over lists of types.\<close>

definition TYPED_BLOCKS :: "(TypedOp \<times> OperandType list \<times> PrimType list) list" where
  "TYPED_BLOCKS =
     (let un = [OT_Local, OT_Local]; bin = [OT_Local, OT_Local, OT_Local] in
      [(Neg, un, ALL_NUMERIC_TYPES), (Add, bin, ALL_NUMERIC_TYPES), (Sub, bin, ALL_NUMERIC_TYPES),
       (Mul, bin, ALL_NUMERIC_TYPES), (Div, bin, ALL_NUMERIC_TYPES), (Rem, bin, ALL_NUMERIC_TYPES),
       (BitAnd, bin, INT_TYPES), (BitOr, bin, INT_TYPES), (BitXor, bin, INT_TYPES), (BitNeg, un, INT_TYPES),
       (BitShl, bin, INT_TYPES), (BitShr, bin, INT_TYPES), (BitCtlz, un, UINT_TYPES), (BitCttz, un, UINT_TYPES),
       (GreaterThan, bin, ALL_TYPES), (GreaterThanEqual, bin, ALL_TYPES), (Equal, bin, ALL_TYPES), (LessThan, bin, ALL_TYPES),
       (LessThanEqual, bin, ALL_TYPES), (NotEqual, bin, ALL_TYPES)])"

definition typed_block :: "TypedOp \<times> OperandType list \<times> PrimType list \<Rightarrow> (Bytecode \<times> OperandType list) list" where
  "typed_block b = (case b of (op, ts, Ts) \<Rightarrow> map (\<lambda>t. (Typed op t, ts)) Ts)"

lemma TYPED_LIST_blocks: "\<exists>casts. TYPED_LIST = concat (map typed_block TYPED_BLOCKS) @ casts"
  by (rule exI [of _ "concat (map (\<lambda>t1. map (\<lambda>t2. (Cast t1 t2, [OT_Local, OT_Local])) ALL_TYPES) ALL_TYPES)"])
    (simp add: TYPED_LIST_def TYPED_BLOCKS_def typed_block_def Let_def)

lemma distinct_types: "distinct ALL_NUMERIC_TYPES" "distinct INT_TYPES" "distinct UINT_TYPES" "distinct ALL_TYPES"
  by (simp_all add: ALL_NUMERIC_TYPES_def INT_TYPES_def UINT_TYPES_def ALL_TYPES_def)

lemma typed_positions:
  assumes "(op, ts, Ts) \<in> set TYPED_BLOCKS"
  obtains p where "\<And>i. i < length Ts \<Longrightarrow> p + i < length BYTECODE_LIST \<and> BYTECODE_LIST ! (p + i) = (Typed op (Ts ! i), ts) \<and>
    bytecode_index (Typed op (Ts ! i)) = p + i"
proof -
  from split_list_first [OF assms] obtain ys zs where s: "TYPED_BLOCKS = ys @ (op, ts, Ts) # zs" by blast
  have "distinct (map fst TYPED_BLOCKS)" by (simp add: TYPED_BLOCKS_def Let_def)
  then have nin: "op \<notin> fst ` set ys" by (auto simp: s)
  have "distinct Ts" using assms distinct_types by (auto simp: TYPED_BLOCKS_def Let_def)
  define pre where "pre = concat (map typed_block ys)"
  obtain post where l: "BYTECODE_LIST = pre @ typed_block (op, ts, Ts) @ post"
  proof -
    from TYPED_LIST_blocks obtain casts where "TYPED_LIST = concat (map typed_block TYPED_BLOCKS) @ casts" by blast
    then have "BYTECODE_LIST = pre @ typed_block (op, ts, Ts) @ (concat (map typed_block zs) @ casts @ CORE_LIST @ LIBRARY_LIST)"
      by (simp add: BYTECODE_LIST_def s pre_def)
    then show ?thesis by (rule that)
  qed
  have fresh: "Typed op t \<notin> fst ` set pre" for t
    using nin by (force simp: pre_def typed_block_def)
  show ?thesis
  proof (rule that [of "length pre"])
    fix i assume i: "i < length Ts"
    have "takeWhile (\<lambda>(b', _). b' \<noteq> Typed op (Ts ! i)) (typed_block (op, ts, Ts) @ post) = typed_block (op, ts, take i Ts)"
    proof -
      have "typed_block (op, ts, Ts) = typed_block (op, ts, take i Ts) @ (Typed op (Ts ! i), ts) # typed_block (op, ts, drop (Suc i) Ts)"
        using arg_cong [OF id_take_nth_drop [OF i], of "\<lambda>Ts. typed_block (op, ts, Ts)"] by (simp add: typed_block_def)
      moreover have "Ts ! i \<notin> set (take i Ts)"
        using \<open>distinct Ts\<close> i by (auto simp: in_set_conv_nth distinct_conv_nth)
      ultimately show ?thesis by (simp add: takeWhile_tail) (auto simp: typed_block_def takeWhile_append takeWhile_eq_all_conv)
    qed
    moreover have "takeWhile (\<lambda>(b', _). b' \<noteq> Typed op (Ts ! i)) BYTECODE_LIST =
        pre @ takeWhile (\<lambda>(b', _). b' \<noteq> Typed op (Ts ! i)) (typed_block (op, ts, Ts) @ post)"
      unfolding l by (rule takeWhile_append2) (use fresh in force)
    ultimately have "bytecode_index (Typed op (Ts ! i)) = length pre + i"
      using i by (simp add: bytecode_index_def typed_block_def)
    then show "length pre + i < length BYTECODE_LIST \<and> BYTECODE_LIST ! (length pre + i) = (Typed op (Ts ! i), ts) \<and>
        bytecode_index (Typed op (Ts ! i)) = length pre + i"
      using i by (simp add: l typed_block_def nth_append)
  qed
qed

lemma known_typed:
  assumes "(op, ts, Ts) \<in> set TYPED_BLOCKS" and "t \<in> set Ts"
  shows "known (Typed op t)"
proof -
  from typed_positions [OF assms(1)] assms(2) obtain j where "j < length BYTECODE_LIST" "BYTECODE_LIST ! j = (Typed op t, ts)"
    by (metis in_set_conv_nth)
  then have "(Typed op t, ts) \<in> set BYTECODE_LIST" by (metis nth_mem)
  then show ?thesis by (force simp: known_def map_of_eq_None_iff)
qed

text \<open>The operations on values, and the offset of \<^verbatim>\<open>int8\<close> in their blocks.\<close>

definition VALUE_OPS :: "TypedOp set" where
  "VALUE_OPS = {Neg, Add, Sub, Mul, Div, Rem, BitAnd, BitOr, BitXor, BitNeg, BitShl, BitShr}"

definition COMPARE_OPS :: "TypedOp set" where
  "COMPARE_OPS = {GreaterThan, GreaterThanEqual, Equal, LessThan, LessThanEqual, NotEqual}"

lemma typed_block_of:
  assumes "op \<in> VALUE_OPS \<union> COMPARE_OPS"
  obtains ts Ts k where "(op, ts, Ts) \<in> set TYPED_BLOCKS" "\<And>i. i < 8 \<Longrightarrow> k + i < length Ts \<and> Ts ! (k + i) = INT_TYPES ! i"
proof (cases "op \<in> COMPARE_OPS")
  case True
  then have "(op, [OT_Local, OT_Local, OT_Local], ALL_TYPES) \<in> set TYPED_BLOCKS"
    by (auto simp: COMPARE_OPS_def TYPED_BLOCKS_def Let_def)
  moreover have "length INT_TYPES = 8" by (simp add: INT_TYPES_def UINT_TYPES_def)
  ultimately show ?thesis by (intro that [where k = 1]) (auto simp: ALL_TYPES_def nth_append)
next
  case False
  then obtain ts Ts where "(op, ts, Ts) \<in> set TYPED_BLOCKS" "Ts = INT_TYPES \<or> Ts = ALL_NUMERIC_TYPES"
    using assms by (auto simp: VALUE_OPS_def TYPED_BLOCKS_def Let_def)
  moreover have "length INT_TYPES = 8" by (simp add: INT_TYPES_def UINT_TYPES_def)
  ultimately show ?thesis by (intro that [where k = 0]) (auto simp: ALL_NUMERIC_TYPES_def nth_append)
qed

definition int_prim :: "PrimType \<Rightarrow> bool" where
  "int_prim t \<longleftrightarrow> t \<in> set INT_TYPES"

lemma prim_of_kind_cases:
  assumes "prim_of_kind k = Some t"
  shows "(k, t) \<in> {(K_Bool, P_bool), (K_Int8, P_int8), (K_Int16, P_int16), (K_Int32, P_int32), (K_Int64, P_int64),
    (K_UInt8, P_uint8), (K_UInt16, P_uint16), (K_UInt32, P_uint32), (K_UInt64, P_uint64)}"
  using assms by (cases k) (simp_all add: prim_of_kind_def)

lemma kind_indices: "kind_index K_Bool = 1" "kind_index K_Int8 = 2" "kind_index K_Int16 = 3" "kind_index K_Int32 = 4" "kind_index K_Int64 = 5"
  "kind_index K_UInt8 = 6" "kind_index K_UInt16 = 7" "kind_index K_UInt32 = 8" "kind_index K_UInt64 = 9" "kind_index K_UInt128 = 11"
  by (simp_all add: kind_index_def BUILTIN_TYPE_LIST_def)

lemma int_kind_index:
  assumes "prim_of_kind k = Some t" and "int_prim t"
  shows "IsIntegerType (BuiltinType k)" "kind_index K_Int8 \<le> kind_index k"
    "kind_index k - kind_index K_Int8 < 8" "INT_TYPES ! (kind_index k - kind_index K_Int8) = t"
  using prim_of_kind_cases [OF assms(1)] assms(2)
  by (auto simp: IsIntegral_def kind_indices int_prim_def INT_TYPES_def UINT_TYPES_def)

lemma GetIntTypedBytecode_typed:
  assumes "prim_of_kind k = Some t" and "int_prim t" and "op \<in> VALUE_OPS \<union> COMPARE_OPS"
  shows "GetIntTypedBytecode (Typed op P_int8) (BuiltinType k) True = Some (Typed op t)" and "known (Typed op t)"
proof -
  define i where "i = kind_index k - kind_index K_Int8"
  note ki = int_kind_index [OF assms(1,2), folded i_def]
  from typed_block_of [OF assms(3)] obtain ts Ts j where b: "(op, ts, Ts) \<in> set TYPED_BLOCKS"
    and at: "\<And>i. i < 8 \<Longrightarrow> j + i < length Ts \<and> Ts ! (j + i) = INT_TYPES ! i" by blast
  from typed_positions [OF b] obtain p where p: "\<And>i. i < length Ts \<Longrightarrow> p + i < length BYTECODE_LIST \<and>
      BYTECODE_LIST ! (p + i) = (Typed op (Ts ! i), ts) \<and> bytecode_index (Typed op (Ts ! i)) = p + i" by blast
  have "INT_TYPES ! 0 = P_int8" by (simp add: INT_TYPES_def)
  then have base: "ToByte (Typed op P_int8) = of_nat (p + j)"
    using p [of "j + 0"] at [of 0] by (simp add: ToByte_def)
  have "(of_nat (kind_index k) - of_nat (kind_index K_Int8) :: u32) = of_nat i" using ki(2) by (simp add: i_def of_nat_diff)
  then have sum: "ToByte (Typed op P_int8) + (of_nat (kind_index k) - of_nat (kind_index K_Int8)) = of_nat (p + (j + i))"
    by (simp add: base)
  have r: "p + (j + i) < length BYTECODE_LIST" "BYTECODE_LIST ! (p + (j + i)) = (Typed op t, ts)"
    using p [of "j + i"] at [OF ki(3)] ki(4) by simp_all
  have "unat (of_nat (p + (j + i)) :: u32) = p + (j + i)"
    using r(1) length_BYTECODE_LIST by (simp only: unsigned_of_nat) (simp add: take_bit_nat_eq_self)
  with r show "GetIntTypedBytecode (Typed op P_int8) (BuiltinType k) True = Some (Typed op t)"
    unfolding GetIntTypedBytecode_def sum [unfolded if_True] using ki(1) by (simp add: checked sum FromByte_def)
  have "t \<in> set Ts" using at [OF ki(3)] ki(4) by (metis nth_mem)
  then show "known (Typed op t)" by (rule known_typed [OF b])
qed

section \<open>The generator on primitive types\<close>

text \<open>The current function of a generator and the size of its frame.\<close>

definition cur :: "Generator \<Rightarrow> FunctionInfo" where
  "cur g = last (g_functions g)"

definition fsz :: "Generator \<Rightarrow> nat" where
  "fsz g = unat (frame_size (cur g))"

text \<open>What a visit leaves alone: it only adds temporaries and variables of the given names to the current function.\<close>

definition is_temporary :: "string \<Rightarrow> bool" where
  "is_temporary x \<longleftrightarrow> take 3 x = ''tmp''"

definition set_locals :: "LocalInfo list \<Rightarrow> u64 \<Rightarrow> u32 \<Rightarrow> Generator \<Rightarrow> Generator" where
  "set_locals ls fs temps g =
     SetCurrentFunction ((cur g)\<lparr>fi_locals := fi_locals (cur g) @ ls, frame_size := fs, num_temps := temps\<rparr>) g"

definition keeps :: "string set \<Rightarrow> Generator \<Rightarrow> Generator \<Rightarrow> bool" where
  "keeps X g g' \<longleftrightarrow> g_functions g \<noteq> [] \<and> (\<exists>ls fs temps.
     g' = (set_locals ls fs temps g)\<lparr>g_code := g_code g'\<rparr> \<and> (\<forall>info\<in>set ls. is_temporary (li_name info) \<or> li_name info \<in> X))"

lemma set_locals_simps [simp]:
  "g_functions (set_locals ls fs temps g) = butlast (g_functions g) @ [cur (set_locals ls fs temps g)]"
  "cur (set_locals ls fs temps g) = (cur g)\<lparr>fi_locals := fi_locals (cur g) @ ls, frame_size := fs, num_temps := temps\<rparr>"
  "cur (g\<lparr>g_code := code\<rparr>) = cur g"
  by (simp_all add: set_locals_def SetCurrentFunction_def cur_def)

lemma set_locals_twice: "set_locals ls' fs' temps' ((set_locals ls fs temps g)\<lparr>g_code := code\<rparr>) =
    (set_locals (ls @ ls') fs' temps' g)\<lparr>g_code := code\<rparr>"
  by (simp add: set_locals_def SetCurrentFunction_def cur_def)

lemma keepsE:
  assumes "keeps X g g'"
  obtains ls fs temps where "g' = (set_locals ls fs temps g)\<lparr>g_code := g_code g'\<rparr>"
    "\<forall>info\<in>set ls. is_temporary (li_name info) \<or> li_name info \<in> X" "g_functions g \<noteq> []"
  using assms by (auto simp: keeps_def)

lemma keepsI: "g' = (set_locals ls fs temps g)\<lparr>g_code := g_code g'\<rparr> \<Longrightarrow>
    \<forall>info\<in>set ls. is_temporary (li_name info) \<or> li_name info \<in> X \<Longrightarrow> g_functions g \<noteq> [] \<Longrightarrow> keeps X g g'"
  unfolding keeps_def by blast

lemma keeps_trans:
  assumes "keeps X g g'" and "keeps Y g' g''"
  shows "keeps (X \<union> Y) g g''"
proof -
  from assms(1) obtain ls fs temps where a: "g' = (set_locals ls fs temps g)\<lparr>g_code := g_code g'\<rparr>"
    "\<forall>info\<in>set ls. is_temporary (li_name info) \<or> li_name info \<in> X" "g_functions g \<noteq> []" by (rule keepsE)
  from assms(2) obtain ls' fs' temps' where b: "g'' = (set_locals ls' fs' temps' g')\<lparr>g_code := g_code g''\<rparr>"
    "\<forall>info\<in>set ls'. is_temporary (li_name info) \<or> li_name info \<in> Y" by (rule keepsE)
  have "(set_locals ls' fs' temps' g')\<lparr>g_code := g_code g''\<rparr> = (set_locals (ls @ ls') fs' temps' g)\<lparr>g_code := g_code g''\<rparr>"
    by (subst a(1)) (simp add: set_locals_twice)
  with a b show ?thesis by (intro keepsI [of _ "ls @ ls'" fs' temps']) auto
qed

lemma keeps_functions: "keeps X g g' \<Longrightarrow> g_functions g' \<noteq> []"
proof (erule keepsE)
  fix ls fs temps assume a: "g' = (set_locals ls fs temps g)\<lparr>g_code := g_code g'\<rparr>"
  show "g_functions g' \<noteq> []" by (subst a) simp
qed

lemma keeps_code: "keeps X g g' \<Longrightarrow> keeps X g (g'\<lparr>g_code := code\<rparr>)"
proof (erule keepsE)
  fix ls fs temps assume a: "g' = (set_locals ls fs temps g)\<lparr>g_code := g_code g'\<rparr>"
    and b: "\<forall>info\<in>set ls. is_temporary (li_name info) \<or> li_name info \<in> X" "g_functions g \<noteq> []"
  show "keeps X g (g'\<lparr>g_code := code\<rparr>)" by (rule keepsI [OF _ b]) (subst a, simp)
qed

lemma keeps_refl: "g_functions g \<noteq> [] \<Longrightarrow> keeps X g g"
  by (rule keepsI [of _ "[]" "frame_size (cur g)" "num_temps (cur g)"]) (simp_all add: set_locals_def SetCurrentFunction_def cur_def)

lemma keeps_emit: "keeps X g g' \<Longrightarrow> keeps X g (emit f g')"
  by (simp add: emit_def keeps_code)

text \<open>
  A visit appends locals and code to the current function; the number bounds both, in units of 16 bytes. The variables
  that a visit may use are found below the offset \<open>K\<close> of the frame.
\<close>

definition extends :: "nat \<Rightarrow> Generator \<Rightarrow> u8 list \<Rightarrow> Generator \<Rightarrow> bool" where
  "extends n g bytes g' \<longleftrightarrow> g_functions g' \<noteq> [] \<and> (\<exists>ls. fi_locals (cur g') = fi_locals (cur g) @ ls) \<and>
     fsz g \<le> fsz g' \<and> fsz g' \<le> fsz g + 16 * n \<and> g_code g' = g_code g @ bytes \<and> length bytes \<le> 16 * n \<and> keeps {} g g'"

definition gen_pre :: "(string \<rightharpoonup> LocalInfo) \<Rightarrow> nat \<Rightarrow> nat \<Rightarrow> Generator \<Rightarrow> bool" where
  "gen_pre V K n g \<longleftrightarrow> g_functions g \<noteq> [] \<and> (\<forall>x info. V x = Some info \<longrightarrow> LookupLocalInfoByName x (cur g) = Some info) \<and>
     K \<le> fsz g \<and> fsz g + 16 * n < 2 ^ 31 - 1 \<and> length (g_code g) + 16 * n < 2 ^ 31 - 1"

lemma extends_trans: "extends n g b g' \<Longrightarrow> extends n' g' b' g'' \<Longrightarrow> extends (n + n') g (b @ b') g''"
  using keeps_trans [of "{}" g g' "{}"] by (auto simp: extends_def)

lemma extends_mono: "extends n g b g' \<Longrightarrow> n \<le> n' \<Longrightarrow> extends n' g b g'"
  by (auto simp: extends_def)

lemma find_append: "find P xs = Some x \<Longrightarrow> find P (xs @ ys) = Some x"
  by (induction xs) (auto split: if_splits)

lemma gen_pre_extends: "gen_pre V K (n + n') g \<Longrightarrow> extends n g b g' \<Longrightarrow> gen_pre V K n' g'"
  by (auto simp: gen_pre_def extends_def LookupLocalInfoByName_def find_append)

lemma gen_pre_mono: "gen_pre V K n g \<Longrightarrow> n' \<le> n \<Longrightarrow> gen_pre V K n' g"
  by (auto simp: gen_pre_def)

lemma emit_simps [simp]: "g_functions (emit f g) = g_functions g" "g_code (emit f g) = f (g_code g)" "cur (emit f g) = cur g"
  "fsz (emit f g) = fsz g"
  by (simp_all add: emit_def cur_def fsz_def)

lemma extends_emit: "g_functions g \<noteq> [] \<Longrightarrow> length (instruction_bytes b args) \<le> 16 * n \<Longrightarrow>
    extends n g (instruction_bytes b args) (emit (EmitAll b args) g)"
  by (simp add: extends_def EmitAll_bytes keeps_emit keeps_refl)

text \<open>The sizes of the primitive types.\<close>

locale primitive_layout =
  fixes L :: llvm and A :: abi
  assumes pow2: "llvm_pow2_ok L" and align: "llvm_align_ok L"
    and layout: "prim_of_kind k = Some t \<Longrightarrow> cpp_sizeof A k = of_nat (prim_size t) \<and> cpp_alignof A k = of_nat (prim_size t)"
begin

lemma GetSize_prim: "prim_of_kind k = Some t \<Longrightarrow> GetSize L A (BuiltinType k) = Some (of_nat (prim_size t))"
  using layout by (simp add: GetSize_def)

lemma new_local:
  assumes k: "prim_of_kind k = Some t" and g: "g_functions g \<noteq> []" "fsz g + 16 < 2 ^ 31"
  obtains info g' where "gen_NewLocal L A (BuiltinType k) x g = Some (LocalVar_new (li_offset info) Address, g')"
    "keeps (if x = [] then {} else {x}) g g'" "g_code g' = g_code g" "fi_locals (cur g') = fi_locals (cur g) @ [info]"
    "x \<noteq> [] \<Longrightarrow> li_name info = x" "li_kind info = LocalKind_Var"
    "fsz g \<le> unat (li_offset info)" "unat (li_offset info) + prim_size t = fsz g'" "fsz g' \<le> fsz g + 16"
proof -
  define f where "f = (if x = [] then (cur g)\<lparr>num_temps := num_temps (cur g) + 1\<rparr> else cur g)"
  have sz: "unat (of_nat (prim_size t) :: u32) = prim_size t"
    by (cases t) (simp_all add: prim_size_def)
  have "\<exists>j. prim_size t = 2 ^ j"
    by (cases t) (auto simp: prim_size_def intro: exI [of _ 0] exI [of _ 1] exI [of _ 2] exI [of _ 3])
  then obtain j where j: "unat (of_nat (prim_size t) :: u32) = 2 ^ j" using sz by auto
  have lay: "type_layout L A (BuiltinType k) = Some (of_nat (prim_size t), of_nat (prim_size t))" using layout [OF k] by simp
  define nm where "nm = (if x = [] then ''tmp'' @ to_string (unat (num_temps (cur g) + 1)) else x)"
  have ne: "nm \<noteq> []" by (simp add: nm_def)
  have bnd: "unat (frame_size f) + unat (of_nat (prim_size t) :: u32) + unat (of_nat (prim_size t) :: u32) < 2 ^ 31"
    using g(2) prim_size_pos(2) [of t] by (simp add: f_def fsz_def sz)
  define info where "info = (\<lambda>off. \<lparr>li_name = nm, li_type = BuiltinType k, li_offset = off,
    li_size = of_nat (prim_size t), li_kind = LocalKind_Var\<rparr>)"
  define f' where "f' = (\<lambda>off. f\<lparr>fi_locals := fi_locals f @ [info off],
    frame_size := ucast off + ucast (of_nat (prim_size t) :: u32)\<rparr>)"
  obtain off where off: "NewLocal_kind L A (BuiltinType k) nm LocalKind_Var f = Some (LocalVar_new off Address, f' off)"
    "unat (frame_size f) \<le> unat off" "unat off < unat (frame_size f) + unat (of_nat (prim_size t) :: u32)"
    "unat (ucast off + ucast (of_nat (prim_size t) :: u32) :: u64) = unat off + unat (of_nat (prim_size t) :: u32)"
    using NewLocal_kind_frame [OF pow2 align lay j ne bnd, of LocalKind_Var] unfolding f'_def info_def by blast
  define g' where "g' = SetCurrentFunction (f' off) g"
  have cg: "cur g' = f' off" by (simp add: g'_def SetCurrentFunction_def cur_def)
  have fs: "fsz g' = unat off + prim_size t" using off(4) sz by (simp add: fsz_def cg f'_def)
  show ?thesis
  proof (rule that)
    show "gen_NewLocal L A (BuiltinType k) x g = Some (LocalVar_new (li_offset (info off)) Address, g')"
      using g(1) off(1) [unfolded nm_def]
      by (simp add: gen_NewLocal_def GetCurrentFunction_def NewLocal_names f_def cur_def g'_def info_def split: if_splits)
    show "keeps (if x = [] then {} else {x}) g g'"
      by (rule keepsI [of _ "[info off]" "frame_size (f' off)" "num_temps f"])
        (use g(1) in \<open>simp_all add: set_locals_def SetCurrentFunction_def g'_def f'_def f_def nm_def is_temporary_def info_def\<close>)
    show "fsz g \<le> unat (li_offset (info off))" "unat (li_offset (info off)) + prim_size t = fsz g'" "fsz g' \<le> fsz g + 16"
      using off(2,3) fs sz prim_size_pos(2) [of t] by (simp_all add: fsz_def f_def info_def split: if_splits)
    show "x \<noteq> [] \<Longrightarrow> li_name (info off) = x" "li_kind (info off) = LocalKind_Var" by (simp_all add: info_def nm_def)
    show "g_code g' = g_code g" "fi_locals (cur g') = fi_locals (cur g) @ [info off]"
      by (simp_all add: g'_def SetCurrentFunction_def cur_def f'_def f_def)
  qed
qed

lemma new_temporary:
  assumes k: "prim_of_kind k = Some t" and g: "g_functions g \<noteq> []" "fsz g + 16 < 2 ^ 31"
  obtains off g' where "gen_NewLocal L A (BuiltinType k) [] g = Some (LocalVar_new off Address, g')" "extends 1 g [] g'"
    "fsz g \<le> unat off" "unat off + prim_size t = fsz g'"
proof -
  obtain info g' where new: "gen_NewLocal L A (BuiltinType k) [] g = Some (LocalVar_new (li_offset info) Address, g')"
    "keeps {} g g'" "g_code g' = g_code g" "fi_locals (cur g') = fi_locals (cur g) @ [info]"
    "fsz g \<le> unat (li_offset info)" "unat (li_offset info) + prim_size t = fsz g'" "fsz g' \<le> fsz g + 16"
    by (rule new_local [OF k g, of "[]"]) auto
  with keeps_functions [OF new(2)] show ?thesis by (intro that [OF new(1)]) (auto simp: extends_def)
qed

end

section \<open>Correct visits\<close>

text \<open>
  The code between two states of the generator computes a value, which depends on the memory, into a slot, and changes
  only the given part of the frame.
\<close>

definition computes :: "machine \<Rightarrow> Module \<Rightarrow> Frame \<Rightarrow> Generator \<Rightarrow> u8 list \<Rightarrow> Generator \<Rightarrow> nat set \<Rightarrow>
    (vm_memory \<Rightarrow> u64 option) \<Rightarrow> PrimType \<Rightarrow> u32 \<Rightarrow> bool" where
  "computes M m fr g bytes g' W den t off \<longleftrightarrow>
     (placed m (length (g_code g)) bytes \<longrightarrow> fsz g' \<le> unat (fr_size fr) \<longrightarrow>
      (\<forall>mem v. frame_mapped fr mem \<longrightarrow> den mem = Some v \<longrightarrow>
        (\<exists>mem'. runs M m fr (length (g_code g), mem) (length (g_code g'), mem') \<and> frame_mapped fr mem' \<and>
           same_except fr W mem mem' \<and> value_at M fr mem' t off = Some v)))"

definition rvalue :: "LocalVar \<Rightarrow> ExpressionResult option" where
  "rvalue dest = Some \<lparr>er_kind = RValue, er_destination = dest\<rparr>"

text \<open>
  A visit without destination leaves the value in a slot below the end of the frame; a visit with one of the given
  destinations stores it there. The slots above the variables are always allowed.
\<close>

definition temporaries :: "nat \<Rightarrow> u32 set" where
  "temporaries K = {off. K \<le> unat off}"

definition correct_into :: "machine \<Rightarrow> Module \<Rightarrow> Frame \<Rightarrow> (string \<rightharpoonup> LocalInfo) \<Rightarrow> nat \<Rightarrow> u32 set \<Rightarrow> nat \<Rightarrow> PrimType \<Rightarrow>
    (vm_memory \<Rightarrow> u64 option) \<Rightarrow> gvisit \<Rightarrow> bool" where
  "correct_into M m fr V K D n t den visit \<longleftrightarrow>
     (\<forall>g off. gen_pre V K n g \<longrightarrow> unat off + prim_size t \<le> fsz g \<longrightarrow> off \<in> D \<longrightarrow>
        (\<exists>r bytes g'. visit (rvalue (LocalVar_new off Address)) g = Some (r, g') \<and> extends n g bytes g' \<and>
           computes M m fr g bytes g' ({fsz g..<fsz g'} \<union> {unat off..<unat off + prim_size t}) den t off))"

definition correct_visit :: "machine \<Rightarrow> Module \<Rightarrow> Frame \<Rightarrow> (string \<rightharpoonup> LocalInfo) \<Rightarrow> nat \<Rightarrow> u32 set \<Rightarrow> nat \<Rightarrow> PrimType \<Rightarrow>
    (vm_memory \<Rightarrow> u64 option) \<Rightarrow> gvisit \<Rightarrow> bool" where
  "correct_visit M m fr V K D n t den visit \<longleftrightarrow>
     (\<forall>g. gen_pre V K n g \<longrightarrow>
        (\<exists>er off bytes g'. visit (rvalue LocalVar_invalid) g = Some (Some er, g') \<and> er_destination er = LocalVar_new off Value \<and>
           extends n g bytes g' \<and> unat off + prim_size t \<le> fsz g' \<and> computes M m fr g bytes g' {fsz g..<fsz g'} den t off)) \<and>
     correct_into M m fr V K D n t den visit"

lemma correct_visit_mono: "correct_visit M m fr V K D n t den visit \<Longrightarrow> D' \<subseteq> D \<Longrightarrow> correct_visit M m fr V K D' n t den visit"
  unfolding correct_visit_def correct_into_def by blast

lemma correct_visit_intoD: "correct_visit M m fr V K D n t den visit \<Longrightarrow> correct_into M m fr V K D n t den visit"
  by (simp add: correct_visit_def)

text \<open>The value of a visit depends only on the memory of the variables.\<close>

definition stable :: "Frame \<Rightarrow> nat \<Rightarrow> (vm_memory \<Rightarrow> u64 option) \<Rightarrow> bool" where
  "stable fr K den \<longleftrightarrow> (\<forall>W mem mem'. K \<le> unat (fr_size fr) \<longrightarrow> same_except fr W mem mem' \<longrightarrow> W \<subseteq> {K..<unat (fr_size fr)} \<longrightarrow> den mem' = den mem)"

lemma computesD:
  assumes "computes M m fr g bytes g' W den t off" and "placed m (length (g_code g)) bytes" "fsz g' \<le> unat (fr_size fr)"
    and "frame_mapped fr mem" "den mem = Some v"
  obtains mem' where "runs M m fr (length (g_code g), mem) (length (g_code g'), mem')" "frame_mapped fr mem'"
    "same_except fr W mem mem'" "value_at M fr mem' t off = Some v"
  using assms unfolding computes_def by blast

lemma invalid_offset: "unat kInvalidLocalOffset = 2 ^ 31 - 1"
  by (simp add: kInvalidLocalOffset_def unsigned_drop_bit_eq unsigned_minus_1_eq_mask mask_eq_exp_minus_1 drop_bit_eq_div take_bit_nat_eq_self)

lemma LocalVar_invalid_new [simp]: "LocalVar_IsInvalid LocalVar_invalid"
  by (simp add: LocalVar_IsInvalid_def LocalVar_invalid_def LocalVar_GetOffset_new invalid_offset)

lemma LocalVar_valid: "unat off < 2 ^ 31 - 1 \<Longrightarrow> \<not> LocalVar_IsInvalid (LocalVar_new off mode)"
proof -
  assume o: "unat off < 2 ^ 31 - 1"
  have "off \<noteq> kInvalidLocalOffset" using o invalid_offset by auto
  then show ?thesis using o by (simp add: LocalVar_IsInvalid_def LocalVar_GetOffset_new)
qed

lemma ValueOf_new: "unat off < 2 ^ 31 \<Longrightarrow> ValueOf (LocalVar_new off mode) = LocalVar_new off Value"
  by (simp add: ValueOf_def LocalVar_GetOffset_new)

lemma correct_visit_operand:
  assumes "correct_visit M m fr V K D n t den visit" and "gen_pre V K n g"
  obtains off bytes g' where "VisitExpressionForRValue visit g = Some (LocalVar_new off Value, g')" "extends n g bytes g'"
    "unat off + prim_size t \<le> fsz g'" "computes M m fr g bytes g' {fsz g..<fsz g'} den t off"
proof -
  from assms obtain er off bytes g' where "visit (rvalue LocalVar_invalid) g = Some (Some er, g')"
    "er_destination er = LocalVar_new off Value" "extends n g bytes g'" "unat off + prim_size t \<le> fsz g'"
    "computes M m fr g bytes g' {fsz g..<fsz g'} den t off"
    unfolding correct_visit_def by blast
  then show ?thesis by (intro that) (simp_all add: VisitExpressionForRValue_def rvalue_def)
qed

lemma correct_into_store:
  assumes "correct_into M m fr V K D n t den visit" and "gen_pre V K n g" "unat off + prim_size t \<le> fsz g" "off \<in> D"
  obtains bytes g' where "VisitExpressionForRValue_dest visit (LocalVar_new off Address) g = Some g'" "extends n g bytes g'"
    "computes M m fr g bytes g' ({fsz g..<fsz g'} \<union> {unat off..<unat off + prim_size t}) den t off"
proof -
  from assms obtain r bytes g' where "visit (rvalue (LocalVar_new off Address)) g = Some (r, g')" "extends n g bytes g'"
    "computes M m fr g bytes g' ({fsz g..<fsz g'} \<union> {unat off..<unat off + prim_size t}) den t off"
    unfolding correct_into_def by blast
  then show ?thesis by (intro that) (simp_all add: VisitExpressionForRValue_dest_def rvalue_def)
qed

text \<open>The bodies of the visitors, which are given a destination.\<close>

definition correct_body :: "machine \<Rightarrow> Module \<Rightarrow> Frame \<Rightarrow> (string \<rightharpoonup> LocalInfo) \<Rightarrow> nat \<Rightarrow> u32 set \<Rightarrow> nat \<Rightarrow> PrimType \<Rightarrow>
    (vm_memory \<Rightarrow> u64 option) \<Rightarrow> (LocalVar \<Rightarrow> Generator \<Rightarrow> Generator option) \<Rightarrow> bool" where
  "correct_body M m fr V K D n t den body \<longleftrightarrow>
     (\<forall>g off. gen_pre V K n g \<longrightarrow> unat off + prim_size t \<le> fsz g \<longrightarrow> off \<in> D \<longrightarrow>
        (\<exists>bytes g'. body (LocalVar_new off Address) g = Some g' \<and> extends n g bytes g' \<and>
           computes M m fr g bytes g' ({fsz g..<fsz g'} \<union> {unat off..<unat off + prim_size t}) den t off))"

context primitive_layout
begin

lemma visit_into:
  assumes body: "correct_body M m fr V K D n t den body"
    and visit: "\<And>dest g. visit (rvalue dest) g = do {
       (dest, r, g) \<leftarrow> GetOrCreateDestination L A (BuiltinType k) \<lparr>er_kind = RValue, er_destination = dest\<rparr> g;
       g \<leftarrow> body dest g;
       Some (Some (SetDestination (ValueOf dest) r), g) }"
  shows "correct_into M m fr V K D (Suc n) t den visit"
  unfolding correct_into_def
proof (intro allI impI)
  fix g and off :: u32 assume pre: "gen_pre V K (Suc n) g" and off: "unat off + prim_size t \<le> fsz g" "off \<in> D"
  have pre1: "gen_pre V K n g" using pre by (rule gen_pre_mono) simp
  from body [unfolded correct_body_def, rule_format, OF pre1 off] obtain bytes g' where
    b: "body (LocalVar_new off Address) g = Some g'" "extends n g bytes g'"
    "computes M m fr g bytes g' ({fsz g..<fsz g'} \<union> {unat off..<unat off + prim_size t}) den t off" by blast
  have "unat off < 2 ^ 31 - 1" using off pre prim_size_pos(1) [of t] by (auto simp: gen_pre_def)
  then have "visit (rvalue (LocalVar_new off Address)) g =
      Some (Some (SetDestination (ValueOf (LocalVar_new off Address)) \<lparr>er_kind = RValue, er_destination = LocalVar_new off Address\<rparr>), g')"
    by (simp add: visit GetOrCreateDestination_def HasDestination_def LocalVar_valid b(1))
  with b(2,3) extends_mono [OF b(2), of "Suc n"] show "\<exists>r bytes g'. visit (rvalue (LocalVar_new off Address)) g = Some (r, g') \<and>
      extends (Suc n) g bytes g' \<and>
      computes M m fr g bytes g' ({fsz g..<fsz g'} \<union> {unat off..<unat off + prim_size t}) den t off" by auto
qed

lemma visit_with_destination:
  assumes k: "prim_of_kind k = Some t" and body: "correct_body M m fr V K D n t den body" and D: "temporaries K \<subseteq> D"
    and visit: "\<And>dest g. visit (rvalue dest) g = do {
       (dest, r, g) \<leftarrow> GetOrCreateDestination L A (BuiltinType k) \<lparr>er_kind = RValue, er_destination = dest\<rparr> g;
       g \<leftarrow> body dest g;
       Some (Some (SetDestination (ValueOf dest) r), g) }"
  shows "correct_visit M m fr V K D (Suc n) t den visit"
  unfolding correct_visit_def
proof (intro conjI allI impI)
  fix g assume pre: "gen_pre V K (Suc n) g"
  then have g: "g_functions g \<noteq> []" "fsz g + 16 < 2 ^ 31" "K \<le> fsz g" by (auto simp: gen_pre_def)
  from new_temporary [OF k g(1,2)] obtain off g1 where new: "gen_NewLocal L A (BuiltinType k) [] g = Some (LocalVar_new off Address, g1)"
    "extends 1 g [] g1" "fsz g \<le> unat off" "unat off + prim_size t = fsz g1" by metis
  have pre1: "gen_pre V K n g1" using gen_pre_extends [OF _ new(2), of V K n] pre by simp
  have "off \<in> D" using D new(3) g(3) by (auto simp: temporaries_def subset_iff)
  from body [unfolded correct_body_def, rule_format, OF pre1 _ this] new(4) obtain bytes g' where
    b: "body (LocalVar_new off Address) g1 = Some g'" "extends n g1 bytes g'"
    "computes M m fr g1 bytes g' ({fsz g1..<fsz g'} \<union> {unat off..<unat off + prim_size t}) den t off" by auto
  have ex: "extends (Suc n) g bytes g'" using extends_trans [OF new(2) b(2)] by simp
  have code: "g_code g1 = g_code g" and le: "fsz g1 \<le> fsz g'" using new(2) b(2) by (auto simp: extends_def)
  have "unat off < 2 ^ 31" using new(4) pre1 by (simp add: gen_pre_def)
  moreover have "computes M m fr g bytes g' {fsz g..<fsz g'} den t off"
  proof -
    have w: "{fsz g1..<fsz g'} \<union> {unat off..<unat off + prim_size t} \<subseteq> {fsz g..<fsz g'}" using new(3,4) le by auto
    show ?thesis using b(3) same_except_trans [OF _ same_except_refl w, of fr] unfolding computes_def code by blast
  qed
  ultimately show "\<exists>er off bytes g'. visit (rvalue LocalVar_invalid) g = Some (Some er, g') \<and> er_destination er = LocalVar_new off Value \<and>
      extends (Suc n) g bytes g' \<and> unat off + prim_size t \<le> fsz g' \<and> computes M m fr g bytes g' {fsz g..<fsz g'} den t off"
    using new(1,4) b(1) ex le
    by (intro exI [of _ "SetDestination (LocalVar_new off Value) (SetDestination (LocalVar_new off Address)
        \<lparr>er_kind = RValue, er_destination = LocalVar_invalid\<rparr>)"] exI [of _ off] exI [of _ bytes] exI [of _ g'])
      (simp add: visit GetOrCreateDestination_def HasDestination_def SetDestination_def ValueOf_new)
qed (rule visit_into [OF body visit])

end

section \<open>Operators\<close>

lemma length_locals [simp]: "length (instruction_bytes b (map SLocal vs)) = 4 + 4 * length vs"
  by (induction vs) (simp_all add: instruction_bytes_def)

lemma length_instruction [simp]: "length (instruction_bytes b []) = 4"
  "length (instruction_bytes b (SLocal v # args)) = 4 + length (instruction_bytes b args)"
  by (simp_all add: instruction_bytes_def)

lemma correct_unary:
  assumes input: "correct_visit M m fr V K Di n ti den input"
    and b: "known b" "b \<noteq> Core Return" "b \<noteq> Core Call" "handle M b = unary_op M t ti f"
    and ok: "\<And>a v. prim_ok ti a \<Longrightarrow> f a = Some v \<Longrightarrow> prim_ok t v"
  shows "correct_body M m fr V K UNIV (n + 1) t (\<lambda>mem. den mem \<bind> f)
    (\<lambda>dest g. do { (v, g) \<leftarrow> VisitExpressionForRValue input g; Some (emit (EmitUnaryOp b dest v) g) })"
  unfolding correct_body_def
proof (intro allI impI)
  fix g and off :: u32 assume pre: "gen_pre V K (n + 1) g" and off: "unat off + prim_size t \<le> fsz g"
  have pre1: "gen_pre V K n g" using pre by (rule gen_pre_mono) simp
  obtain x bytes g1 where i: "VisitExpressionForRValue input g = Some (LocalVar_new x Value, g1)" "extends n g bytes g1"
    "unat x + prim_size ti \<le> fsz g1" "computes M m fr g bytes g1 {fsz g..<fsz g1} den ti x"
    by (rule correct_visit_operand [OF input pre1])
  have pre2: "gen_pre V K 1 g1" by (rule gen_pre_extends [OF pre i(2)])
  define ins where "ins = instruction_bytes b (map SLocal [LocalVar_new off Address, LocalVar_new x Value])"
  define g2 where "g2 = emit (EmitUnaryOp b (LocalVar_new off Address) (LocalVar_new x Value)) g1"
  have "extends 1 g1 ins g2" unfolding ins_def g2_def EmitUnaryOp_def
    using extends_emit [of g1 b "map SLocal [LocalVar_new off Address, LocalVar_new x Value]" 1] pre2 by (simp add: gen_pre_def)
  with i(2) have ex: "extends (n + 1) g (bytes @ ins) g2" by (rule extends_trans)
  have sz: "fsz g2 = fsz g1" "fsz g \<le> fsz g1" and len: "length (g_code g1) = length (g_code g) + length bytes"
    "length (g_code g2) = length (g_code g1) + 12"
    using i(2) \<open>extends 1 g1 ins g2\<close> by (auto simp: g2_def extends_def ins_def simp del: length_map)
  have "computes M m fr g (bytes @ ins) g2 ({fsz g..<fsz g2} \<union> {unat off..<unat off + prim_size t}) (\<lambda>mem. den mem \<bind> f) t off"
    unfolding computes_def
  proof (intro allI impI)
    fix mem v assume pl: "placed m (length (g_code g)) (bytes @ ins)" and fr: "fsz g2 \<le> unat (fr_size fr)"
      and mem: "frame_mapped fr mem" and den: "den mem \<bind> f = Some v"
    from den obtain a where a: "den mem = Some a" "f a = Some v" by (auto split: bind_splits)
    from placed_append [OF pl] have p: "placed m (length (g_code g)) bytes" "placed m (length (g_code g1)) ins" by (simp_all add: len)
    have f1: "fsz g1 \<le> unat (fr_size fr)" using fr sz by simp
    obtain mem1 where
      r1: "runs M m fr (length (g_code g), mem) (length (g_code g1), mem1)" "frame_mapped fr mem1"
      "same_except fr {fsz g..<fsz g1} mem mem1" "value_at M fr mem1 ti x = Some a"
      by (rule computesD [OF i(4) p(1) f1 mem a(1)])
    have d: "slot_ok fr t off" and x: "slot_ok fr ti x"
      using off i(3) fr sz pre2 prim_size_pos(1) [of t] prim_size_pos(1) [of ti] by (auto simp: slot_ok_def gen_pre_def)
    have "prim_ok t v" using ok [OF value_at_ok [OF slot_ok_less(2) [OF x] slot_ok_less(1) [OF x] r1(4)] a(2)] .
    from run_unary [OF _ b r1(4) a(2) this r1(2) d, where pos = "length (g_code g1)" and m = m] p(2) obtain mem2 where
      r2: "runs M m fr (length (g_code g1), mem1) (length (g_code g2), mem2)" "frame_mapped fr mem2"
      "same_except fr {unat off..<unat off + prim_size t} mem1 mem2" "value_at M fr mem2 t off = Some v"
      by (auto simp: ins_def stored_def len)
    have "same_except fr ({fsz g..<fsz g2} \<union> {unat off..<unat off + prim_size t}) mem mem2"
      using sz by (intro same_except_trans [OF r1(3) r2(3)]) auto
    then show "\<exists>mem'. runs M m fr (length (g_code g), mem) (length (g_code g2), mem') \<and> frame_mapped fr mem' \<and>
        same_except fr ({fsz g..<fsz g2} \<union> {unat off..<unat off + prim_size t}) mem mem' \<and> value_at M fr mem' t off = Some v"
      using runs_trans [OF r1(1) r2(1)] r2(2,4) by (intro exI [of _ mem2] conjI)
  qed
  with ex i(1) show "\<exists>bytes g'. (do { (v, g) \<leftarrow> VisitExpressionForRValue input g; Some (emit (EmitUnaryOp b (LocalVar_new off Address) v) g) }) =
      Some g' \<and> extends (n + 1) g bytes g' \<and>
      computes M m fr g bytes g' ({fsz g..<fsz g'} \<union> {unat off..<unat off + prim_size t}) (\<lambda>mem. den mem \<bind> f) t off"
    by (auto simp: g2_def)
qed

lemma correct_binary:
  assumes left: "correct_visit M m fr V K Dl n1 ti denl left" and right: "correct_visit M m fr V K Dr n2 ti denr right"
    and st: "stable fr K denr"
    and b: "known b" "b \<noteq> Core Return" "b \<noteq> Core Call" "handle M b = binary_op M t ti f"
    and ok: "\<And>a c v. prim_ok ti a \<Longrightarrow> prim_ok ti c \<Longrightarrow> f a c = Some v \<Longrightarrow> prim_ok t v"
  shows "correct_body M m fr V K UNIV (n1 + n2 + 1) t (\<lambda>mem. do { a \<leftarrow> denl mem; c \<leftarrow> denr mem; f a c })
    (\<lambda>dest g. do { (x, g) \<leftarrow> VisitExpressionForRValue left g; (y, g) \<leftarrow> VisitExpressionForRValue right g;
       Some (emit (EmitBinaryOp b dest x y) g) })"
  unfolding correct_body_def
proof (intro allI impI)
  fix g and off :: u32 assume pre: "gen_pre V K (n1 + n2 + 1) g" and off: "unat off + prim_size t \<le> fsz g"
  have pre1: "gen_pre V K n1 g" using pre by (rule gen_pre_mono) simp
  obtain x bytes1 g1 where l: "VisitExpressionForRValue left g = Some (LocalVar_new x Value, g1)" "extends n1 g bytes1 g1"
    "unat x + prim_size ti \<le> fsz g1" "computes M m fr g bytes1 g1 {fsz g..<fsz g1} denl ti x"
    by (rule correct_visit_operand [OF left pre1])
  have pre2: "gen_pre V K (n2 + 1) g1" using gen_pre_extends [OF _ l(2), of V K "n2 + 1"] pre by (simp add: add.assoc)
  then have pre2': "gen_pre V K n2 g1" by (rule gen_pre_mono) simp
  obtain y bytes2 g2 where r: "VisitExpressionForRValue right g1 = Some (LocalVar_new y Value, g2)" "extends n2 g1 bytes2 g2"
    "unat y + prim_size ti \<le> fsz g2" "computes M m fr g1 bytes2 g2 {fsz g1..<fsz g2} denr ti y"
    by (rule correct_visit_operand [OF right pre2'])
  have pre3: "gen_pre V K 1 g2" by (rule gen_pre_extends [OF pre2 r(2)])
  define vs where "vs = [LocalVar_new off Address, LocalVar_new x Value, LocalVar_new y Value]"
  define ins where "ins = instruction_bytes b (map SLocal vs)"
  define g3 where "g3 = emit (EmitBinaryOp b (LocalVar_new off Address) (LocalVar_new x Value) (LocalVar_new y Value)) g2"
  have e3: "extends 1 g2 ins g3" unfolding ins_def g3_def EmitBinaryOp_def
    using extends_emit [of g2 b "map SLocal vs" 1] pre3 by (simp add: gen_pre_def vs_def)
  have ex: "extends (n1 + n2 + 1) g (bytes1 @ bytes2 @ ins) g3" using extends_trans [OF extends_trans [OF l(2) r(2)] e3] by simp
  have sz: "fsz g3 = fsz g2" "fsz g \<le> fsz g1" "fsz g1 \<le> fsz g2" "K \<le> fsz g"
    and len: "length (g_code g1) = length (g_code g) + length bytes1"
    "length (g_code g2) = length (g_code g1) + length bytes2" "length (g_code g3) = length (g_code g2) + 16"
    using l(2) r(2) e3 pre by (auto simp: g3_def extends_def ins_def vs_def gen_pre_def simp del: length_map)
  have "computes M m fr g (bytes1 @ bytes2 @ ins) g3 ({fsz g..<fsz g3} \<union> {unat off..<unat off + prim_size t})
      (\<lambda>mem. do { a \<leftarrow> denl mem; c \<leftarrow> denr mem; f a c }) t off"
    unfolding computes_def
  proof (intro allI impI)
    fix mem v assume pl: "placed m (length (g_code g)) (bytes1 @ bytes2 @ ins)" and fr: "fsz g3 \<le> unat (fr_size fr)"
      and mem: "frame_mapped fr mem" and den: "do { a \<leftarrow> denl mem; c \<leftarrow> denr mem; f a c } = Some v"
    from den obtain a c where a: "denl mem = Some a" "denr mem = Some c" "f a c = Some v" by (auto split: bind_splits)
    from placed_append [OF pl] have p: "placed m (length (g_code g)) bytes1" "placed m (length (g_code g1)) (bytes2 @ ins)"
      by (simp_all add: len)
    from placed_append [OF p(2)] have q: "placed m (length (g_code g1)) bytes2" "placed m (length (g_code g2)) ins"
      by (simp_all add: len)
    have f: "fsz g1 \<le> unat (fr_size fr)" "fsz g2 \<le> unat (fr_size fr)" using fr sz by simp_all
    obtain mem1 where
      r1: "runs M m fr (length (g_code g), mem) (length (g_code g1), mem1)" "frame_mapped fr mem1"
      "same_except fr {fsz g..<fsz g1} mem mem1" "value_at M fr mem1 ti x = Some a"
      by (rule computesD [OF l(4) p(1) f(1) mem a(1)])
    have "denr mem1 = Some c" using st [unfolded stable_def, rule_format, OF _ r1(3)] sz fr a(2) by auto
    obtain mem2 where
      r2: "runs M m fr (length (g_code g1), mem1) (length (g_code g2), mem2)" "frame_mapped fr mem2"
      "same_except fr {fsz g1..<fsz g2} mem1 mem2" "value_at M fr mem2 ti y = Some c"
      by (rule computesD [OF r(4) q(1) f(2) r1(2) \<open>denr mem1 = Some c\<close>])
    have d: "slot_ok fr t off" and x: "slot_ok fr ti x" and y: "slot_ok fr ti y"
      using off l(3) r(3) fr sz pre3 prim_size_pos(1) [of t] prim_size_pos(1) [of ti] by (auto simp: slot_ok_def gen_pre_def)
    have w: "{fsz g1..<fsz g2} \<subseteq> {..<unat (fr_size fr)}" using f(2) by (auto simp: subset_iff)
    have vx: "value_at M fr mem2 ti x = Some a"
      using value_at_same [OF r2(3) w, of x ti M] r1(4) l(3) x fr sz by (auto simp: slot_ok_def)
    have "prim_ok t v" using ok [OF value_at_ok [OF slot_ok_less(2) [OF x] slot_ok_less(1) [OF x] vx]
        value_at_ok [OF slot_ok_less(2) [OF y] slot_ok_less(1) [OF y] r2(4)] a(3)] .
    from run_binary [OF _ b vx r2(4) a(3) this r2(2) d, where pos = "length (g_code g2)" and m = m] q(2) obtain mem3 where
      r3: "runs M m fr (length (g_code g2), mem2) (length (g_code g3), mem3)" "frame_mapped fr mem3"
      "same_except fr {unat off..<unat off + prim_size t} mem2 mem3" "value_at M fr mem3 t off = Some v"
      by (auto simp: ins_def vs_def stored_def len)
    have "same_except fr {fsz g..<fsz g3} mem mem2" using sz by (intro same_except_trans [OF r1(3) r2(3)]) auto
    from same_except_trans [OF this r3(3)] show "\<exists>mem'. runs M m fr (length (g_code g), mem) (length (g_code g3), mem') \<and>
        frame_mapped fr mem' \<and> same_except fr ({fsz g..<fsz g3} \<union> {unat off..<unat off + prim_size t}) mem mem' \<and>
        value_at M fr mem' t off = Some v"
      using runs_trans [OF runs_trans [OF r1(1) r2(1)] r3(1)] r3(2,4) by (intro exI [of _ mem3] conjI) auto
  qed
  with ex l(1) r(1) show "\<exists>bytes g'. (do { (x, g) \<leftarrow> VisitExpressionForRValue left g; (y, g) \<leftarrow> VisitExpressionForRValue right g;
       Some (emit (EmitBinaryOp b (LocalVar_new off Address) x y) g) }) = Some g' \<and> extends (n1 + n2 + 1) g bytes g' \<and>
      computes M m fr g bytes g' ({fsz g..<fsz g'} \<union> {unat off..<unat off + prim_size t})
        (\<lambda>mem. do { a \<leftarrow> denl mem; c \<leftarrow> denr mem; f a c }) t off"
    by (auto simp: g3_def)
qed

text \<open>The two ends of a forward jump that is patched when its label is bound.\<close>

lemma conditional_jump_bytes:
  assumes "b = Core JumpIfTrue \<or> b = Core JumpIfFalse"
  shows "EmitConditionalJump b v BytecodeLabel_new code =
    Some (BytecodeLabel_new\<lparr>referrer_offsets := [length code + 8]\<rparr>,
      code @ instruction_bytes b [SLocal v] @ le_bytes 4 kJumpPlaceholder)"
  using assms by (auto simp: EmitConditionalJump_def EmitJump_label_def SetReferrer_def BytecodeLabel_new_def GetPosition_def
      EmitScalarValue_def EmitAll_bytes IsJump_def IsConditionalJump_def Let_def checked)

lemma bind_forward:
  assumes "length pre = p" and "code = pre @ le_bytes 4 w @ post" and "length code < 2 ^ 31 - 1"
  shows "\<exists>lb. Bind (BytecodeLabel_new\<lparr>referrer_offsets := [p]\<rparr>) code =
    Some (lb, pre @ le_bytes 4 (of_nat (4 + length post) :: u32) @ post)"
proof -
  let ?code = "pre @ le_bytes 4 w @ post"
  have "\<exists>code'. patch_jump (length ?code) p ?code = Some code' \<and> length code' = length ?code"
    using assms by (intro patch_jump_total) auto
  then obtain code' where c: "patch_jump (length ?code) p ?code = Some code'" by blast
  have "int (length ?code) - int p = int (4 + length post)" using assms(1) by simp
  then have "(of_int (int (length ?code) - int p) :: u32) = of_nat (4 + length post)" by (simp only: of_int_of_nat_eq)
  with patch_jump_append [OF c assms(1) [symmetric]]
  have "code' = pre @ le_bytes 4 (of_nat (4 + length post) :: u32) @ post" by (simp only:)
  moreover have "length ?code \<noteq> kInvalidOffset" using assms(2,3) by (simp add: kInvalidOffset_def)
  ultimately show ?thesis unfolding assms(2) using c
    by (simp add: Bind_def BindTo_def BytecodeLabel_new_def IsForwardTarget_def GetPosition_def Let_def tpl_assert_bind del: length_append)
qed

definition set_code :: "bytecode_array \<Rightarrow> Generator \<Rightarrow> Generator" where
  "set_code code g = g\<lparr>g_code := code\<rparr>"

lemma set_code_simps [simp]: "g_functions (set_code c g) = g_functions g" "g_code (set_code c g) = c" "cur (set_code c g) = cur g"
  "fsz (set_code c g) = fsz g"
  by (simp_all add: set_code_def cur_def fsz_def)

lemma keeps_set_code: "keeps X g g' \<Longrightarrow> keeps X g (set_code code g')"
  by (simp add: set_code_def keeps_code)

lemma emit_label_set_code: "emit_label f g = do { (label, code) \<leftarrow> f (g_code g); Some (label, set_code code g) }"
  by (simp add: emit_label_def set_code_def)

text \<open>The short circuit: the left operand and then, unless it decides, the right one are stored into the destination.\<close>

lemma correct_and_or:
  assumes left: "correct_into M m fr V K D n1 P_bool denl left" and right: "correct_into M m fr V K D n2 P_bool denr right"
    and b: "b = Core JumpIfTrue \<and> taken = (\<lambda>v. v \<noteq> 0) \<or> b = Core JumpIfFalse \<and> taken = (\<lambda>v. v = 0)"
    and denl: "\<And>mem v. den mem = Some v \<Longrightarrow> \<exists>a. denl mem = Some a \<and> (taken a \<longrightarrow> v = a)"
    and denr: "\<And>off W mem mem1 a v. \<lbrakk>off \<in> D; K \<le> unat (fr_size fr); slot_ok fr P_bool off; denl mem = Some a; \<not> taken a; den mem = Some v;
      same_except fr W mem mem1; W \<subseteq> {K..<unat (fr_size fr)} \<union> {unat off..<unat off + prim_size P_bool};
      value_at M fr mem1 P_bool off = Some a\<rbrakk> \<Longrightarrow> denr mem1 = Some v"
  shows "correct_body M m fr V K D (n1 + n2 + 1) P_bool den
    (\<lambda>dest g. do {
       g \<leftarrow> VisitExpressionForRValue_dest left dest g;
       (end_label, g) \<leftarrow> emit_label (EmitConditionalJump b (ValueOf dest) BytecodeLabel_new) g;
       g \<leftarrow> VisitExpressionForRValue_dest right dest g;
       (end_label, g) \<leftarrow> emit_label (Bind end_label) g;
       Some g })"
  unfolding correct_body_def
proof (intro allI impI)
  fix g and off :: u32 assume pre: "gen_pre V K (n1 + n2 + 1) g" and off: "unat off + prim_size P_bool \<le> fsz g" "off \<in> D"
  let ?D = "{unat off..<unat off + prim_size P_bool}"
  have pre1: "gen_pre V K n1 g" using pre by (rule gen_pre_mono) simp
  obtain bytes1 g1 where l: "VisitExpressionForRValue_dest left (LocalVar_new off Address) g = Some g1" "extends n1 g bytes1 g1"
    "computes M m fr g bytes1 g1 ({fsz g..<fsz g1} \<union> ?D) denl P_bool off"
    by (rule correct_into_store [OF left pre1 off])
  have pre2: "gen_pre V K (n2 + 1) g1" using gen_pre_extends [OF _ l(2), of V K "n2 + 1"] pre by (simp add: add.assoc)
  have o31: "unat off < 2 ^ 31" using off pre by (auto simp: gen_pre_def)
  define ins where "ins = instruction_bytes b [SLocal (LocalVar_new off Value)]"
  define g2 where "g2 = set_code (g_code g1 @ ins @ le_bytes 4 kJumpPlaceholder) g1"
  have bb: "b = Core JumpIfTrue \<or> b = Core JumpIfFalse" using b by auto
  have j: "emit_label (EmitConditionalJump b (ValueOf (LocalVar_new off Address)) BytecodeLabel_new) g1 =
      Some (BytecodeLabel_new\<lparr>referrer_offsets := [length (g_code g1) + 8]\<rparr>, g2)"
    by (simp add: emit_label_set_code conditional_jump_bytes [OF bb] ValueOf_new [OF o31] g2_def ins_def)
  have e2: "extends 1 g1 (ins @ le_bytes 4 kJumpPlaceholder) g2"
    using pre2 by (simp add: extends_def g2_def ins_def gen_pre_def keeps_refl keeps_set_code)
  have pre3: "gen_pre V K n2 g2" using gen_pre_extends [OF _ e2, of V K n2] pre2 by (simp add: add.commute)
  have off2: "unat off + prim_size P_bool \<le> fsz g2" using off(1) l(2) by (simp add: extends_def g2_def)
  obtain bytes2 g3 where r: "VisitExpressionForRValue_dest right (LocalVar_new off Address) g2 = Some g3" "extends n2 g2 bytes2 g3"
    "computes M m fr g2 bytes2 g3 ({fsz g2..<fsz g3} \<union> ?D) denr P_bool off"
    by (rule correct_into_store [OF right pre3 off2 off(2)])
  have code3: "g_code g3 = (g_code g1 @ ins) @ le_bytes 4 kJumpPlaceholder @ bytes2" using r(2) by (simp add: extends_def g2_def)
  have ex3: "extends (n1 + 1 + n2) g (bytes1 @ (ins @ le_bytes 4 kJumpPlaceholder) @ bytes2) g3"
    using extends_trans [OF extends_trans [OF l(2) e2] r(2)] by simp
  have "length (g_code g3) < 2 ^ 31 - 1" using ex3 pre by (simp add: extends_def gen_pre_def)
  then obtain lb where bd: "Bind (BytecodeLabel_new\<lparr>referrer_offsets := [length (g_code g1) + 8]\<rparr>) (g_code g3) =
      Some (lb, (g_code g1 @ ins) @ le_bytes 4 (of_nat (4 + length bytes2) :: u32) @ bytes2)"
    using bind_forward [of "g_code g1 @ ins" "length (g_code g1) + 8" "g_code g3" kJumpPlaceholder bytes2] code3 by (auto simp: ins_def)
  define bytes where "bytes = bytes1 @ (ins @ le_bytes 4 (of_nat (4 + length bytes2) :: u32)) @ bytes2"
  define g4 where "g4 = set_code (g_code g @ bytes) g3"
  have code1: "g_code g1 = g_code g @ bytes1" using l(2) by (simp add: extends_def)
  have ex: "extends (n1 + n2 + 1) g bytes g4" using ex3 by (simp add: extends_def g4_def bytes_def ins_def keeps_set_code)
  have sz: "fsz g4 = fsz g3" "fsz g2 = fsz g1" "fsz g \<le> fsz g1" "fsz g1 \<le> fsz g3" "K \<le> fsz g"
    and len: "length (g_code g1) = length (g_code g) + length bytes1" "length (g_code g2) = length (g_code g1) + 12"
    "length (g_code g3) = length (g_code g2) + length bytes2" "length (g_code g4) = length (g_code g3)"
    using l(2) r(2) pre by (auto simp: g4_def g2_def extends_def ins_def bytes_def gen_pre_def)
  have "computes M m fr g bytes g4 ({fsz g..<fsz g4} \<union> ?D) den P_bool off"
    unfolding computes_def
  proof (intro allI impI)
    fix mem v assume pl: "placed m (length (g_code g)) bytes" and fr: "fsz g4 \<le> unat (fr_size fr)"
      and mem: "frame_mapped fr mem" and den: "den mem = Some v"
    from denl [OF den] obtain a where a: "denl mem = Some a" "taken a \<longrightarrow> v = a" by blast
    from placed_append [OF pl [unfolded bytes_def]] have p: "placed m (length (g_code g)) bytes1"
      "placed m (length (g_code g1)) ((ins @ le_bytes 4 (of_nat (4 + length bytes2) :: u32)) @ bytes2)" by (simp_all add: len)
    from placed_append [OF p(2)] have q: "placed m (length (g_code g1)) (ins @ le_bytes 4 (of_nat (4 + length bytes2) :: u32))"
      "placed m (length (g_code g2)) bytes2" by (simp_all add: len ins_def)
    have f: "fsz g1 \<le> unat (fr_size fr)" "fsz g3 \<le> unat (fr_size fr)" using fr sz by simp_all
    obtain mem1 where
      r1: "runs M m fr (length (g_code g), mem) (length (g_code g1), mem1)" "frame_mapped fr mem1"
      "same_except fr ({fsz g..<fsz g1} \<union> ?D) mem mem1" "value_at M fr mem1 P_bool off = Some a"
      by (rule computesD [OF l(3) p(1) f(1) mem a(1)])
    have "length bytes2 + 4 < 2 ^ 31" using ex pre by (simp add: extends_def gen_pre_def bytes_def)
    then have jump: "runs M m fr (length (g_code g1), mem1) (if taken a then length (g_code g4) else length (g_code g2), mem1)"
      using run_jump [OF q(1) [unfolded ins_def] b r1(4)] by (auto simp: len add.assoc split: if_splits)
    let ?W = "{fsz g..<fsz g4} \<union> ?D"
    have sub: "{fsz g..<fsz g1} \<union> ?D \<subseteq> ?W" "{fsz g2..<fsz g3} \<union> ?D \<subseteq> ?W" using sz by auto
    show "\<exists>mem'. runs M m fr (length (g_code g), mem) (length (g_code g4), mem') \<and> frame_mapped fr mem' \<and>
        same_except fr ?W mem mem' \<and> value_at M fr mem' P_bool off = Some v"
    proof (cases "taken a")
      case True
      then have "runs M m fr (length (g_code g), mem) (length (g_code g4), mem1)" "v = a" using runs_trans [OF r1(1) jump] a(2) by auto
      then show ?thesis using r1(2,4) same_except_trans [OF r1(3) same_except_refl sub(1), of ?W] by (intro exI [of _ mem1] conjI) auto
    next
      case False
      have w: "{fsz g..<fsz g1} \<union> ?D \<subseteq> {K..<unat (fr_size fr)} \<union> ?D" using sz fr by auto
      have "slot_ok fr P_bool off" "K \<le> unat (fr_size fr)" using off(1) o31 sz fr by (auto simp: slot_ok_def)
      from denr [OF off(2) this(2,1) a(1) False den r1(3) w r1(4)] have "denr mem1 = Some v" .
      obtain mem2 where
        r2: "runs M m fr (length (g_code g2), mem1) (length (g_code g3), mem2)" "frame_mapped fr mem2"
        "same_except fr ({fsz g2..<fsz g3} \<union> ?D) mem1 mem2" "value_at M fr mem2 P_bool off = Some v"
        by (rule computesD [OF r(3) q(2) f(2) r1(2) \<open>denr mem1 = Some v\<close>])
      have "runs M m fr (length (g_code g), mem) (length (g_code g4), mem2)"
        using runs_trans [OF r1(1) jump] r2(1) False len(4) by (auto intro: runs_trans)
      then show ?thesis using r2(2,4) same_except_trans [OF r1(3) r2(3) sub] by (intro exI [of _ mem2] conjI)
    qed
  qed
  moreover have k: "emit_label (Bind (BytecodeLabel_new\<lparr>referrer_offsets := [length (g_code g1) + 8]\<rparr>)) g3 = Some (lb, g4)"
    using bd code1 by (simp add: emit_label_set_code g4_def bytes_def)
  moreover have "(do {
       g \<leftarrow> VisitExpressionForRValue_dest left (LocalVar_new off Address) g;
       (end_label, g) \<leftarrow> emit_label (EmitConditionalJump b (ValueOf (LocalVar_new off Address)) BytecodeLabel_new) g;
       g \<leftarrow> VisitExpressionForRValue_dest right (LocalVar_new off Address) g;
       (end_label, g) \<leftarrow> emit_label (Bind end_label) g;
       Some g }) = Some g4"
    by (simp add: l(1) j r(1) k)
  ultimately show "\<exists>bytes g'. (do {
       g \<leftarrow> VisitExpressionForRValue_dest left (LocalVar_new off Address) g;
       (end_label, g) \<leftarrow> emit_label (EmitConditionalJump b (ValueOf (LocalVar_new off Address)) BytecodeLabel_new) g;
       g \<leftarrow> VisitExpressionForRValue_dest right (LocalVar_new off Address) g;
       (end_label, g) \<leftarrow> emit_label (Bind end_label) g;
       Some g }) = Some g' \<and> extends (n1 + n2 + 1) g bytes g' \<and>
      computes M m fr g bytes g' ({fsz g..<fsz g'} \<union> ?D) den P_bool off"
    using ex by blast
qed

section \<open>Literals and variables\<close>

lemma correct_immediate:
  assumes c: "core_handler M c = imm_op M (prim_size t)" "c \<noteq> Return" "c \<noteq> Call"
    and s: "length (scalar_bytes s) = prim_size t" "le_word (scalar_bytes s) = v" and ok: "prim_ok t v"
  shows "correct_body M m fr V K UNIV 1 t (\<lambda>_. Some v) (\<lambda>dest g. Some (emit (EmitAll (Core c) [SLocal dest, s]) g))"
  unfolding correct_body_def
proof (intro allI impI)
  fix g and off :: u32 assume pre: "gen_pre V K 1 g" and off: "unat off + prim_size t \<le> fsz g"
  define ins where "ins = instruction_bytes (Core c) [SLocal (LocalVar_new off Address), s]"
  define g1 where "g1 = emit (EmitAll (Core c) [SLocal (LocalVar_new off Address), s]) g"
  have li: "length ins = 8 + prim_size t" using s(1) by (simp add: ins_def instruction_bytes_def)
  then have ex: "extends 1 g ins g1"
    using extends_emit [of g "Core c" "[SLocal (LocalVar_new off Address), s]" 1] pre prim_size_pos(2) [of t]
    by (simp add: ins_def g1_def gen_pre_def)
  have len: "length (g_code g1) = length (g_code g) + (8 + prim_size t)" using ex li by (simp add: extends_def)
  have "computes M m fr g ins g1 ({fsz g..<fsz g1} \<union> {unat off..<unat off + prim_size t}) (\<lambda>_. Some v) t off"
    unfolding computes_def
  proof (intro allI impI)
    fix mem v' assume pl: "placed m (length (g_code g)) ins" and fr: "fsz g1 \<le> unat (fr_size fr)"
      and mem: "frame_mapped fr mem" and v: "Some v = Some v'"
    have d: "slot_ok fr t off" using off fr ex pre prim_size_pos(1) [of t] by (auto simp: slot_ok_def extends_def gen_pre_def)
    from run_imm [OF pl [unfolded ins_def] c s ok mem d] obtain mem1 where
      r: "runs M m fr (length (g_code g), mem) (length (g_code g1), mem1)" "frame_mapped fr mem1"
      "same_except fr {unat off..<unat off + prim_size t} mem mem1" "value_at M fr mem1 t off = Some v"
      by (auto simp: stored_def len add.assoc)
    have "same_except fr ({fsz g..<fsz g1} \<union> {unat off..<unat off + prim_size t}) mem mem1"
      by (rule same_except_trans [OF same_except_refl [of _ "{}"] r(3)]) auto
    with r v show "\<exists>mem'. runs M m fr (length (g_code g), mem) (length (g_code g1), mem') \<and> frame_mapped fr mem' \<and>
        same_except fr ({fsz g..<fsz g1} \<union> {unat off..<unat off + prim_size t}) mem mem' \<and> value_at M fr mem' t off = Some v'"
      by blast
  qed
  with ex show "\<exists>bytes g'. Some (emit (EmitAll (Core c) [SLocal (LocalVar_new off Address), s]) g) = Some g' \<and> extends 1 g bytes g' \<and>
      computes M m fr g bytes g' ({fsz g..<fsz g'} \<union> {unat off..<unat off + prim_size t}) (\<lambda>_. Some v) t off"
    by (auto simp: g1_def)
qed

text \<open>A copy of a variable into the destination.\<close>

lemma correct_copy:
  assumes "length ins = 12"
    and run: "\<And>mem v. placed m (length (g_code g)) ins \<Longrightarrow> frame_mapped fr mem \<Longrightarrow> value_at M fr mem t x = Some v \<Longrightarrow>
      slot_ok fr t x \<Longrightarrow> slot_ok fr t off \<Longrightarrow> stored M m fr (length (g_code g), mem) (length (g_code g) + 12) t off v"
    and pre: "gen_pre V K 1 g" and off: "unat off + prim_size t \<le> fsz g" and x: "unat x + prim_size t \<le> fsz g"
    and g1: "g1 = set_code (g_code g @ ins) g"
  shows "extends 1 g ins g1 \<and>
    computes M m fr g ins g1 ({fsz g..<fsz g1} \<union> {unat off..<unat off + prim_size t}) (\<lambda>mem. value_at M fr mem t x) t off"
proof
  show "extends 1 g ins g1" using pre by (simp add: extends_def g1 assms(1) gen_pre_def keeps_refl keeps_set_code)
  show "computes M m fr g ins g1 ({fsz g..<fsz g1} \<union> {unat off..<unat off + prim_size t}) (\<lambda>mem. value_at M fr mem t x) t off"
    unfolding computes_def
  proof (intro allI impI)
    fix mem v assume pl: "placed m (length (g_code g)) ins" and fr: "fsz g1 \<le> unat (fr_size fr)"
      and mem: "frame_mapped fr mem" and v: "value_at M fr mem t x = Some v"
    have "slot_ok fr t x" "slot_ok fr t off"
      using off x fr pre prim_size_pos(1) [of t] by (auto simp: slot_ok_def gen_pre_def g1)
    from run [OF pl mem v this] obtain mem1 where
      r: "runs M m fr (length (g_code g), mem) (length (g_code g1), mem1)" "frame_mapped fr mem1"
      "same_except fr {unat off..<unat off + prim_size t} mem mem1" "value_at M fr mem1 t off = Some v"
      by (auto simp: stored_def g1 assms(1))
    have "same_except fr ({fsz g..<fsz g1} \<union> {unat off..<unat off + prim_size t}) mem mem1"
      by (rule same_except_trans [OF same_except_refl [of _ "{}"] r(3)]) auto
    with r show "\<exists>mem'. runs M m fr (length (g_code g), mem) (length (g_code g1), mem') \<and> frame_mapped fr mem' \<and>
        same_except fr ({fsz g..<fsz g1} \<union> {unat off..<unat off + prim_size t}) mem mem' \<and> value_at M fr mem' t off = Some v"
      by blast
  qed
qed

context primitive_layout
begin

lemma build_copies:
  assumes "prim_of_kind k = Some t"
  shows "BuildAssign L A dest v (BuiltinType k) g =
      Some (set_code (g_code g @ instruction_bytes (Core (assign_op (prim_size t))) [SLocal dest, SLocal v]) g)"
    and "BuildDeref L A dest v (BuiltinType k) g =
      Some (set_code (g_code g @ instruction_bytes (Core (deref_core (prim_size t))) [SLocal dest, SLocal v]) g)"
  using GetSize_prim [OF assms]
  by (cases t; simp add: BuildAssign_def BuildDeref_def prim_size_def try_emit_def EmitAssign_def EmitDeref_def EmitAll_bytes
      assign_op_def deref_core_def set_code_def checked)+

lemma correct_identifier:
  assumes k: "prim_of_kind k = Some t" and V: "V x = Some info" and K: "unat (li_offset info) + prim_size t \<le> K"
  shows "correct_visit M m fr V K UNIV 1 t (\<lambda>mem. value_at M fr mem t (li_offset info))
    (gen_VisitIdentifierExpression L A (Some (BuiltinType k)) x)"
  unfolding correct_visit_def correct_into_def
proof (intro conjI allI impI)
  let ?o = "li_offset info"
  have f: "GetCurrentFunction g = Some (cur g)" "LookupLocalInfoByName x (cur g) = Some info"
    "LookupLocal_var x (cur g) = LocalVar_new ?o Address" "unat ?o < 2 ^ 31" "unat ?o + prim_size t \<le> fsz g"
    if "gen_pre V K 1 g" for g
    using that V K prim_size_pos(1) [of t] by (auto simp: gen_pre_def GetCurrentFunction_def cur_def LookupLocal_var_def)
  {
    fix g assume pre: "gen_pre V K 1 g"
    note fg = f [OF pre]
    have "computes M m fr g [] g {fsz g..<fsz g} (\<lambda>mem. value_at M fr mem t ?o) t ?o"
      unfolding computes_def using runs_refl same_except_refl by blast
    moreover have "extends 1 g [] g" using pre by (simp add: extends_def gen_pre_def keeps_refl)
    moreover have "gen_VisitIdentifierExpression L A (Some (BuiltinType k)) x (rvalue LocalVar_invalid) g =
        Some (Some \<lparr>er_kind = RValue, er_destination = LocalVar_new ?o Value\<rparr>, g)"
      using fg by (simp add: gen_VisitIdentifierExpression_def rvalue_def Let_def HasDestination_def SetDestination_def ValueOf_new)
    ultimately show "\<exists>er off bytes g'. gen_VisitIdentifierExpression L A (Some (BuiltinType k)) x (rvalue LocalVar_invalid) g = Some (Some er, g') \<and>
        er_destination er = LocalVar_new off Value \<and> extends 1 g bytes g' \<and> unat off + prim_size t \<le> fsz g' \<and>
        computes M m fr g bytes g' {fsz g..<fsz g'} (\<lambda>mem. value_at M fr mem t ?o) t off"
      using fg(5) by fastforce
  }
  fix g and off :: u32 assume pre: "gen_pre V K 1 g" and off: "unat off + prim_size t \<le> fsz g"
  note fg = f [OF pre]
  define ins where "ins = (if li_kind info = LocalKind_Parameter
    then instruction_bytes (Core (assign_op (prim_size t))) [SLocal (LocalVar_new off Address), SLocal (LocalVar_new ?o Value)]
    else instruction_bytes (Core (deref_core (prim_size t))) [SLocal (LocalVar_new off Address), SLocal (LocalVar_new ?o Address)])"
  define g1 where "g1 = set_code (g_code g @ ins) g"
  have "unat off < 2 ^ 31 - 1" using off pre prim_size_pos(1) [of t] by (auto simp: gen_pre_def)
  then have "gen_VisitIdentifierExpression L A (Some (BuiltinType k)) x (rvalue (LocalVar_new off Address)) g =
      Some (Some (SetDestination (LocalVar_new off Address) \<lparr>er_kind = RValue, er_destination = LocalVar_new off Address\<rparr>), g1)"
    using fg by (simp add: gen_VisitIdentifierExpression_def rvalue_def Let_def HasDestination_def GetOrCreateDestination_def LocalVar_valid
        build_copies [OF k] ValueOf_new g1_def ins_def)
  moreover have "extends 1 g ins g1 \<and>
      computes M m fr g ins g1 ({fsz g..<fsz g1} \<union> {unat off..<unat off + prim_size t}) (\<lambda>mem. value_at M fr mem t ?o) t off"
  proof (rule correct_copy [OF _ _ pre off fg(5) g1_def])
    show "length ins = 12" by (simp add: ins_def)
    show "stored M m fr (length (g_code g), mem) (length (g_code g) + 12) t off v"
      if "placed m (length (g_code g)) ins" "frame_mapped fr mem" "value_at M fr mem t ?o = Some v" "slot_ok fr t ?o" "slot_ok fr t off"
      for mem v
      using that run_assign [OF _ that(3,4,2,5)] run_copy [OF _ that(3,4,2,5)] by (auto simp: ins_def split: if_splits)
  qed
  ultimately show "\<exists>r bytes g'. gen_VisitIdentifierExpression L A (Some (BuiltinType k)) x (rvalue (LocalVar_new off Address)) g = Some (r, g') \<and>
      extends 1 g bytes g' \<and>
      computes M m fr g bytes g' ({fsz g..<fsz g'} \<union> {unat off..<unat off + prim_size t}) (\<lambda>mem. value_at M fr mem t ?o) t off"
    by blast
qed

end

section \<open>The meaning of expressions\<close>

text \<open>Expressions on booleans and machine integers, with the types that the semantic analysis gives them.\<close>

definition type_prim :: "Type option \<Rightarrow> PrimType option" where
  "type_prim ty = (case ty of Some (BuiltinType k) \<Rightarrow> prim_of_kind k | _ \<Rightarrow> None)"

fun arithmetic_op :: "TokenType \<Rightarrow> TypedOp option" where
  "arithmetic_op T_PLUS = Some Add"
| "arithmetic_op T_MINUS = Some Sub"
| "arithmetic_op T_STAR = Some Mul"
| "arithmetic_op T_SLASH = Some Div"
| "arithmetic_op T_PERCENT = Some Rem"
| "arithmetic_op T_AMPERSAND = Some BitAnd"
| "arithmetic_op T_BIT_OR = Some BitOr"
| "arithmetic_op T_BIT_XOR = Some BitXor"
| "arithmetic_op T_BIT_SHL = Some BitShl"
| "arithmetic_op T_BIT_SHR = Some BitShr"
| "arithmetic_op _ = None"

fun expr_prim :: "(string \<rightharpoonup> PrimType) \<Rightarrow> TExpr \<Rightarrow> PrimType option" where
  "expr_prim \<Gamma> (TLiteral ty p (IntLiteral n)) = do { t \<leftarrow> type_prim ty; tpl_assert (int_prim t); Some t }"
| "expr_prim \<Gamma> (TLiteral ty p (BoolLiteral b)) = do { t \<leftarrow> type_prim ty; tpl_assert (t = P_bool); Some t }"
| "expr_prim \<Gamma> (TIdentifier ty p x) = do { t \<leftarrow> type_prim ty; tpl_assert (\<Gamma> x = Some t); Some t }"
| "expr_prim \<Gamma> (TUnaryOp ty p op e) = do {
     t \<leftarrow> type_prim ty;
     s \<leftarrow> expr_prim \<Gamma> e;
     tpl_assert (s = t \<and> (if op = T_BANG then t = P_bool else op \<in> {T_MINUS, T_BIT_NOT} \<and> int_prim t));
     Some t }"
| "expr_prim \<Gamma> (TBinaryOp ty p op l r) = do {
     t \<leftarrow> type_prim ty;
     a \<leftarrow> expr_prim \<Gamma> l;
     b \<leftarrow> expr_prim \<Gamma> r;
     tpl_assert (a = t \<and> b = t \<and> (if op \<in> {T_AND, T_OR} then t = P_bool else arithmetic_op op \<noteq> None \<and> int_prim t));
     Some t }"
| "expr_prim \<Gamma> (TComparison ty p op l r) = do {
     t \<leftarrow> type_prim ty;
     a \<leftarrow> expr_prim \<Gamma> l;
     b \<leftarrow> expr_prim \<Gamma> r;
     tpl_assert (t = P_bool \<and> a = b \<and> comparison_name op \<noteq> None);
     Some t }"
| "expr_prim \<Gamma> _ = None"

text \<open>The value, with the operators of the instruction handlers; \<^verbatim>\<open>and\<close> and \<^verbatim>\<open>or\<close> do not evaluate the right operand when
  the left one decides.\<close>

definition apply_binary :: "machine \<Rightarrow> TypedOp \<Rightarrow> PrimType \<Rightarrow> u64 \<Rightarrow> u64 \<Rightarrow> u64 option" where
  "apply_binary M op t a b = (if op \<in> {Add, Sub, Mul, Div, Rem} then OpArithmetic M op t a b else OpBit op t a b)"

fun eval_expr :: "machine \<Rightarrow> (PrimType \<Rightarrow> string \<Rightarrow> u64 option) \<Rightarrow> TExpr \<Rightarrow> u64 option" where
  "eval_expr M \<sigma> (TLiteral ty p (IntLiteral n)) = do { t \<leftarrow> type_prim ty; Some (prim_bits t n) }"
| "eval_expr M \<sigma> (TLiteral ty p (BoolLiteral b)) = Some (bool_bits b)"
| "eval_expr M \<sigma> (TIdentifier ty p x) = do { t \<leftarrow> type_prim ty; \<sigma> t x }"
| "eval_expr M \<sigma> (TUnaryOp ty p op e) = do {
     t \<leftarrow> type_prim ty;
     a \<leftarrow> eval_expr M \<sigma> e;
     if op = T_BANG then Some (OpNot a) else if op = T_MINUS then OpNeg M t a else OpBitNeg t a }"
| "eval_expr M \<sigma> (TBinaryOp ty p op l r) =
     (if op = T_AND then do { a \<leftarrow> eval_expr M \<sigma> l; if a = 0 then Some a else eval_expr M \<sigma> r }
      else if op = T_OR then do { a \<leftarrow> eval_expr M \<sigma> l; if a \<noteq> 0 then Some a else eval_expr M \<sigma> r }
      else do {
        t \<leftarrow> type_prim ty;
        o1 \<leftarrow> arithmetic_op op;
        a \<leftarrow> eval_expr M \<sigma> l;
        b \<leftarrow> eval_expr M \<sigma> r;
        apply_binary M o1 t a b })"
| "eval_expr M \<sigma> (TComparison ty p op l r) = do {
     t \<leftarrow> type_prim (GetType l);
     (o1, _) \<leftarrow> comparison_name op;
     a \<leftarrow> eval_expr M \<sigma> l;
     b \<leftarrow> eval_expr M \<sigma> r;
     OpCompare M o1 t a b }"
| "eval_expr M \<sigma> _ = None"

text \<open>A bound for the code and the temporaries of an expression, in units of 16 bytes.\<close>

fun expr_cost :: "TExpr \<Rightarrow> nat" where
  "expr_cost (TUnaryOp ty p op e) = Suc (expr_cost e + 1)"
| "expr_cost (TBinaryOp ty p op l r) = Suc (expr_cost l + expr_cost r + 1)"
| "expr_cost (TComparison ty p op l r) = Suc (expr_cost l + expr_cost r + 1)"
| "expr_cost (TIdentifier ty p x) = 1"
| "expr_cost e = 2"

text \<open>Expressions whose code does not store into the destination before all the variables are read.\<close>

fun reads_first :: "TExpr \<Rightarrow> bool" where
  "reads_first (TBinaryOp ty p op l r) \<longleftrightarrow> op \<notin> {T_AND, T_OR}"
| "reads_first e \<longleftrightarrow> True"

lemma expr_prim_GetType:
  assumes "expr_prim \<Gamma> e = Some t"
  obtains k where "GetType e = Some (BuiltinType k)" "prim_of_kind k = Some t"
proof -
  have "type_prim (GetType e) = Some t"
    using assms by (cases "(\<Gamma>, e)" rule: expr_prim.cases) (auto simp: checked split: bind_splits if_splits)
  then show ?thesis using that by (auto simp: type_prim_def split: option.splits Type.splits)
qed

section \<open>Values of operators\<close>

lemma prim_ok_bits: "t \<noteq> P_bool \<Longrightarrow> prim_ok t (prim_bits t v)"
  by (simp add: prim_ok_def prim_bits_def)

lemma int_prim_not: "int_prim t \<Longrightarrow> t \<noteq> P_bool \<and> \<not> prim_float t"
  by (auto simp: int_prim_def INT_TYPES_def UINT_TYPES_def prim_float_def)

lemma computed_ok: "t \<noteq> P_bool \<Longrightarrow> computed t v = Some w \<Longrightarrow> prim_ok t w"
  by (auto simp: computed_def prim_ok_bits split: if_splits)

lemma apply_binary_ok:
  assumes "int_prim t" and "prim_ok t a" "prim_ok t b" and "apply_binary M op t a b = Some v"
  shows "prim_ok t v"
proof -
  note t = int_prim_not [OF assms(1)]
  have "OpBit op t a b = Some v \<Longrightarrow> ?thesis"
    using assms(2,3) t by (cases op) (auto simp: OpBit_def prim_ok_bits split: bind_splits, auto simp: prim_ok_def)
  moreover have "int_arith op t (prim_int t a) (prim_int t b) = Some v \<Longrightarrow> ?thesis"
    using t by (cases op) (auto simp: int_arith_def checked computed_ok split: bind_splits if_splits)
  ultimately show ?thesis using assms(4) t by (auto simp: apply_binary_def OpArithmetic_def split: if_splits)
qed

lemma bool_bits_ok: "prim_ok P_bool (bool_bits b)"
  by (simp add: prim_ok_def bool_bits_def prim_size_def)

lemma OpCompare_ok: "OpCompare M op t a b = Some v \<Longrightarrow> prim_ok P_bool v"
  by (auto simp: OpCompare_def bool_bits_ok split: if_splits)

section \<open>Correctness of the visitors\<close>

lemma le_word_ucast:
  assumes "LENGTH('a) = 8 * n" and "n \<le> 8"
  shows "(le_word (le_bytes n (w :: 'a::len word)) :: u64) = ucast w"
proof (rule bit_word_eqI)
  fix i :: nat assume i: "i < LENGTH(64)"
  have m: "8 * (i div 8) + i mod 8 = i" by simp
  show "bit (le_word (le_bytes n w) :: u64) i = bit (ucast w :: u64) i"
  proof (cases "i < 8 * n")
    case True
    then have "i div 8 < n" by auto
    then show ?thesis using i m True by (simp add: bit_le_word le_bytes_def bit_unsigned_iff bit_drop_bit_eq)
  next
    case False
    then show ?thesis using assms bit_imp_le_length [of w i] by (auto simp: bit_le_word bit_unsigned_iff)
  qed
qed

lemma ucast_of_int: "LENGTH('a::len) \<le> 64 \<Longrightarrow> (ucast (of_int v :: 'a word) :: u64) = take_bit LENGTH('a) (of_int v)"
  by (rule bit_word_eqI) (auto simp: bit_unsigned_iff bit_word_of_int_iff bit_take_bit_iff)

lemma type_prim_kind: "type_prim ty = Some t \<Longrightarrow> \<exists>k. ty = Some (BuiltinType k) \<and> prim_of_kind k = Some t"
  by (auto simp: type_prim_def split: option.splits Type.splits)

lemma not_sql:
  assumes "prim_of_kind k = Some t"
  shows "\<not> IsSqlValue k"
proof -
  have "9 < kind_index K_BooleanVal" by (simp add: kind_index_def BUILTIN_TYPE_LIST_def)
  then show ?thesis using prim_of_kind_cases [OF assms] by (auto simp: IsSqlValue_def kind_indices)
qed

lemma arithmetic_op_cases:
  assumes "arithmetic_op op = Some o1"
  shows "(op, o1) \<in> {(T_PLUS, Add), (T_MINUS, Sub), (T_STAR, Mul), (T_SLASH, Div), (T_PERCENT, Rem), (T_AMPERSAND, BitAnd),
    (T_BIT_OR, BitOr), (T_BIT_XOR, BitXor), (T_BIT_SHL, BitShl), (T_BIT_SHR, BitShr)}"
  using assms by (cases op) simp_all

lemma comparison_name_cases:
  assumes "comparison_name op = Some (o1, nm)"
  shows "o1 \<in> COMPARE_OPS"
  using assms by (cases op) (simp_all add: comparison_name_def COMPARE_OPS_def)

lemma arithmetic_bytecode_typed:
  assumes "prim_of_kind k = Some t" and "int_prim t" and "arithmetic_op op = Some o1"
  shows "arithmetic_bytecode op (BuiltinType k) = Some (Typed o1 t)" and "known (Typed o1 t)"
    and "handle M (Typed o1 t) = binary_op M t t (apply_binary M o1 t)"
proof -
  note op = arithmetic_op_cases [OF assms(3)]
  then have v: "o1 \<in> VALUE_OPS \<union> COMPARE_OPS" by (auto simp: VALUE_OPS_def)
  note g = GetIntTypedBytecode_typed [OF assms(1,2) v]
  show "known (Typed o1 t)" by (rule g)
  show "arithmetic_bytecode op (BuiltinType k) = Some (Typed o1 t)"
    using op g(1) int_kind_index(1) [OF assms(1,2)] by (auto simp: arithmetic_bytecode_def math_bytecode_def)
  show "handle M (Typed o1 t) = binary_op M t t (apply_binary M o1 t)"
    using op by (auto simp: apply_binary_def [abs_def])
qed

lemma comparison_bytecode_typed:
  assumes "prim_of_kind k = Some t" and "comparison_name op = Some (o1, nm)"
  shows "comparison_bytecode o1 (BuiltinType k) = Some (Typed o1 t)" and "known (Typed o1 t)"
    and "handle M (Typed o1 t) = binary_op M P_bool t (OpCompare M o1 t)"
proof -
  note c = comparison_name_cases [OF assms(2)]
  show "handle M (Typed o1 t) = binary_op M P_bool t (OpCompare M o1 t)" using c by (auto simp: COMPARE_OPS_def)
  have "comparison_bytecode o1 (BuiltinType k) = Some (Typed o1 t) \<and> known (Typed o1 t)"
  proof (cases "int_prim t")
    case True
    then show ?thesis
      using GetIntTypedBytecode_typed [OF assms(1) True] int_kind_index(1) [OF assms(1) True] c by (simp add: comparison_bytecode_def)
  next
    case False
    then have k: "k = K_Bool" "t = P_bool"
      using prim_of_kind_cases [OF assms(1)] by (auto simp: int_prim_def INT_TYPES_def UINT_TYPES_def)
    have "(o1, [OT_Local, OT_Local, OT_Local], ALL_TYPES) \<in> set TYPED_BLOCKS"
      using c by (auto simp: COMPARE_OPS_def TYPED_BLOCKS_def Let_def)
    then have "known (Typed o1 P_bool)" by (rule known_typed) (simp add: ALL_TYPES_def)
    then show ?thesis
      by (simp add: comparison_bytecode_def k IsIntegral_def kind_indices kFloatingPointFlags_def checked IsBoolType_def)
  qed
  then show "comparison_bytecode o1 (BuiltinType k) = Some (Typed o1 t)" "known (Typed o1 t)" by simp_all
qed

context primitive_layout
begin

lemma correct_int_literal:
  assumes k: "prim_of_kind k = Some t" and t: "int_prim t"
  shows "correct_visit M m fr V K UNIV 2 t (\<lambda>_. Some (prim_bits t v))
    (gen_VisitLiteralExpression L A fv dv (Some (BuiltinType k)) (IntLiteral v))"
proof -
  obtain c s where c: "core_handler M c = imm_op M (prim_size t)" "c \<noteq> Return" "c \<noteq> Call"
    and s: "length (scalar_bytes s) = prim_size t" "le_word (scalar_bytes s) = prim_bits t v"
    and e: "\<And>target. (if prim_size t = 1 then EmitAssignImm1 target (of_int v) else if prim_size t = 2 then EmitAssignImm2 target (of_int v)
       else if prim_size t = 4 then EmitAssignImm4 target (of_int v) else EmitAssignImm8 target (of_int v)) = EmitAll (Core c) [SLocal target, s]"
    by (rule that [of "if prim_size t = 1 then AssignImm1 else if prim_size t = 2 then AssignImm2 else if prim_size t = 4 then AssignImm4 else AssignImm8"
        "if prim_size t = 1 then S8 (of_int v) else if prim_size t = 2 then S16 (of_int v) else if prim_size t = 4 then S32 (of_int v) else S64 (of_int v)"];
      cases t) (simp_all add: prim_size_def prim_bits_def le_word_ucast ucast_of_int take_bit_word_eq_self
        EmitAssignImm1_def EmitAssignImm2_def EmitAssignImm4_def EmitAssignImm8_def)
  have "correct_body M m fr V K UNIV 1 t (\<lambda>_. Some (prim_bits t v)) (\<lambda>dest g. Some (emit (EmitAll (Core c) [SLocal dest, s]) g))"
    using int_prim_not [OF t] by (intro correct_immediate [OF c s prim_ok_bits]) simp
  from visit_with_destination [OF k this subset_UNIV, where visit = "gen_VisitLiteralExpression L A fv dv (Some (BuiltinType k)) (IntLiteral v)"]
  have "correct_visit M m fr V K UNIV (Suc 1) t (\<lambda>_. Some (prim_bits t v))
    (gen_VisitLiteralExpression L A fv dv (Some (BuiltinType k)) (IntLiteral v))"
    using GetSize_prim [OF k] e t
    by (cases t) (auto simp: gen_VisitLiteralExpression_def rvalue_def prim_size_def checked int_prim_def INT_TYPES_def UINT_TYPES_def
        intro!: Option.bind_cong)
  then show ?thesis by (simp add: numeral_2_eq_2)
qed

lemma correct_bool_literal:
  assumes k: "prim_of_kind k = Some P_bool"
  shows "correct_visit M m fr V K UNIV 2 P_bool (\<lambda>_. Some (bool_bits b))
    (gen_VisitLiteralExpression L A fv dv (Some (BuiltinType k)) (BoolLiteral b))"
proof -
  define s where "s = S8 (if b then 1 else 0)"
  have s: "length (scalar_bytes s) = prim_size P_bool" "le_word (scalar_bytes s) = bool_bits b"
    by (simp_all add: s_def prim_size_def bool_bits_def le_word_ucast)
  have "core_handler M AssignImm1 = imm_op M (prim_size P_bool)" by (simp add: prim_size_def)
  then have "correct_body M m fr V K UNIV 1 P_bool (\<lambda>_. Some (bool_bits b)) (\<lambda>dest g. Some (emit (EmitAll (Core AssignImm1) [SLocal dest, s]) g))"
    by (intro correct_immediate [OF _ _ _ s bool_bits_ok]) simp_all
  from visit_with_destination [OF k this subset_UNIV, where visit = "gen_VisitLiteralExpression L A fv dv (Some (BuiltinType k)) (BoolLiteral b)"]
  have "correct_visit M m fr V K UNIV (Suc 1) P_bool (\<lambda>_. Some (bool_bits b))
    (gen_VisitLiteralExpression L A fv dv (Some (BuiltinType k)) (BoolLiteral b))"
    using GetSize_prim [OF k]
    by (auto simp: gen_VisitLiteralExpression_def rvalue_def checked s_def EmitAssignImm1_def intro!: Option.bind_cong)
  then show ?thesis by (simp add: numeral_2_eq_2)
qed

lemma correct_unary_op:
  assumes k: "prim_of_kind k = Some t" and input: "correct_visit M m fr V K Di n t den input"
    and op: "if op = T_BANG then t = P_bool else op \<in> {T_MINUS, T_BIT_NOT} \<and> int_prim t"
  shows "correct_visit M m fr V K UNIV (Suc (n + 1)) t
    (\<lambda>mem. do { a \<leftarrow> den mem; if op = T_BANG then Some (OpNot a) else if op = T_MINUS then OpNeg M t a else OpBitNeg t a })
    (VisitUnaryOpExpression L A (Some (BuiltinType k)) op input)"
proof -
  define f where "f = (\<lambda>a. if op = T_BANG then Some (OpNot a) else if op = T_MINUS then OpNeg M t a else OpBitNeg t a)"
  define b where "b = (if op = T_BANG then Core Not_op else if op = T_MINUS then Typed Neg t else Typed BitNeg t)"
  have b: "known b" "b \<noteq> Core Return" "b \<noteq> Core Call" "handle M b = unary_op M t t f"
    using op GetIntTypedBytecode_typed(2) [OF k, of Neg] GetIntTypedBytecode_typed(2) [OF k, of BitNeg]
    by (auto simp: b_def f_def known_core_op VALUE_OPS_def split: if_splits)
  have ok: "prim_ok t v" if "prim_ok t a" "f a = Some v" for a v
    using that op int_prim_not [of t]
    by (auto simp: f_def OpNeg_def OpBitNeg_def OpNot_def bool_bits_ok prim_ok_bits computed_ok split: if_splits)
  from correct_unary [OF input b ok] have body: "correct_body M m fr V K UNIV (n + 1) t (\<lambda>mem. den mem \<bind> f)
    (\<lambda>dest g. do { (v, g) \<leftarrow> VisitExpressionForRValue input g; Some (emit (EmitUnaryOp b dest v) g) })"
    .
  have "correct_visit M m fr V K UNIV (Suc (n + 1)) t (\<lambda>mem. den mem \<bind> f) (VisitUnaryOpExpression L A (Some (BuiltinType k)) op input)"
  proof (rule visit_with_destination [OF k body subset_UNIV])
    fix dest g
    show "VisitUnaryOpExpression L A (Some (BuiltinType k)) op input (rvalue dest) g = do {
       (dest, r, g) \<leftarrow> GetOrCreateDestination L A (BuiltinType k) \<lparr>er_kind = RValue, er_destination = dest\<rparr> g;
       g \<leftarrow> do { (v, g) \<leftarrow> VisitExpressionForRValue input g; Some (emit (EmitUnaryOp b dest v) g) };
       Some (Some (SetDestination (ValueOf dest) r), g) }"
      using op GetIntTypedBytecode_typed(1) [OF k, of Neg] GetIntTypedBytecode_typed(1) [OF k, of BitNeg]
      by (auto simp: VisitUnaryOpExpression_def VisitArithmeticUnaryExpression_def VisitLogicalNotExpression_def rvalue_def b_def
          VALUE_OPS_def Let_def split_beta split: if_splits intro!: Option.bind_cong)
  qed
  then show ?thesis by (simp add: f_def [abs_def])
qed

lemma correct_arithmetic:
  assumes k: "prim_of_kind k = Some t" and t: "int_prim t" and op: "arithmetic_op op = Some o1"
    and left: "correct_visit M m fr V K Dl n1 t denl left" and right: "correct_visit M m fr V K Dr n2 t denr right"
    and st: "stable fr K denr"
  shows "correct_visit M m fr V K UNIV (Suc (n1 + n2 + 1)) t (\<lambda>mem. do { a \<leftarrow> denl mem; c \<leftarrow> denr mem; apply_binary M o1 t a c })
    (VisitBinaryOpExpression L A (Some (BuiltinType k)) op left right)"
proof -
  note b = arithmetic_bytecode_typed [OF k t op]
  have body: "correct_body M m fr V K UNIV (n1 + n2 + 1) t (\<lambda>mem. do { a \<leftarrow> denl mem; c \<leftarrow> denr mem; apply_binary M o1 t a c })
    (\<lambda>dest g. do { (x, g) \<leftarrow> VisitExpressionForRValue left g; (y, g) \<leftarrow> VisitExpressionForRValue right g;
       Some (emit (EmitBinaryOp (Typed o1 t) dest x y) g) })"
    using correct_binary [OF left right st b(2) _ _ b(3) apply_binary_ok [OF t]] by simp
  have nl: "op \<noteq> T_AND" "op \<noteq> T_OR" using op by auto
  show ?thesis
    by (rule visit_with_destination [OF k body subset_UNIV])
      (auto simp: VisitBinaryOpExpression_def nl VisitArithmeticExpression_def not_sql [OF k] VisitPrimitiveArithmeticExpression_def
        rvalue_def checked b(1) Let_def split_beta intro!: Option.bind_cong)
qed

lemma correct_comparison:
  assumes k: "prim_of_kind k = Some P_bool" and op: "comparison_name op = Some (o1, nm)"
    and tl: "expr_prim \<Gamma> l = Some t" and tr: "expr_prim \<Gamma> r = Some t"
    and left: "correct_visit M m fr V K Dl n1 t denl left" and right: "correct_visit M m fr V K Dr n2 t denr right"
    and st: "stable fr K denr"
  shows "correct_visit M m fr V K UNIV (Suc (n1 + n2 + 1)) P_bool (\<lambda>mem. do { a \<leftarrow> denl mem; c \<leftarrow> denr mem; OpCompare M o1 t a c })
    (VisitComparisonOpExpression L A (Some (BuiltinType k)) op l r left right)"
proof -
  obtain kl where kl: "GetType l = Some (BuiltinType kl)" "prim_of_kind kl = Some t" by (rule expr_prim_GetType [OF tl])
  obtain kr where kr: "GetType r = Some (BuiltinType kr)" "prim_of_kind kr = Some t" by (rule expr_prim_GetType [OF tr])
  have arith: "IsArithmetic (BuiltinType k) \<or> IsBoolType (BuiltinType k)" if "prim_of_kind k = Some t" for k
    using prim_of_kind_cases [OF that] by (auto simp: IsArithmetic_def IsIntegral_def kind_indices IsBoolType_def)
  have nil: "\<not> IsNilLiteral_t l" "\<not> IsNilLiteral_t r"
    using tl tr by (auto elim!: IsNilLiteral_t.elims)
  note b = comparison_bytecode_typed [OF kl(2) op]
  have body: "correct_body M m fr V K UNIV (n1 + n2 + 1) P_bool (\<lambda>mem. do { a \<leftarrow> denl mem; c \<leftarrow> denr mem; OpCompare M o1 t a c })
    (\<lambda>dest g. do { (x, g) \<leftarrow> VisitExpressionForRValue left g; (y, g) \<leftarrow> VisitExpressionForRValue right g;
       Some (emit (EmitBinaryOp (Typed o1 t) dest x y) g) })"
    using correct_binary [OF left right st b(2) _ _ b(3) OpCompare_ok] by simp
  have kb: "k = K_Bool" using prim_of_kind_cases [OF k] by auto
  show ?thesis
    by (rule visit_with_destination [OF k body subset_UNIV])
      (auto simp: VisitComparisonOpExpression_def VisitPrimitiveComparisonExpression_def kb compare_nil_input_def nil kl(1) kr(1)
        rvalue_def tpl_assert_bind arith [OF kl(2)] arith [OF kr(2)] op b(1) Let_def split_beta intro!: Option.bind_cong)
qed

lemma logical_form:
  assumes k: "prim_of_kind k = Some P_bool" and op: "op = T_AND \<and> b = Core JumpIfFalse \<or> op = T_OR \<and> b = Core JumpIfTrue"
  shows "VisitBinaryOpExpression L A (Some (BuiltinType k)) op left right (rvalue dest) g = do {
     (dest, r, g) \<leftarrow> GetOrCreateDestination L A (BuiltinType k) \<lparr>er_kind = RValue, er_destination = dest\<rparr> g;
     g \<leftarrow> do {
       g \<leftarrow> VisitExpressionForRValue_dest left dest g;
       (end_label, g) \<leftarrow> emit_label (EmitConditionalJump b (ValueOf dest) BytecodeLabel_new) g;
       g \<leftarrow> VisitExpressionForRValue_dest right dest g;
       (end_label, g) \<leftarrow> emit_label (Bind end_label) g;
       Some g };
     Some (Some (SetDestination (ValueOf dest) r), g) }"
proof -
  have kb: "k = K_Bool" using prim_of_kind_cases [OF k] by auto
  show ?thesis
    using op by (auto simp: VisitBinaryOpExpression_def VisitLogicalAndOrExpression_def rvalue_def tpl_assert_bind IsBoolType_def kb
        split_beta intro!: Option.bind_cong)
qed

lemma correct_logical:
  assumes k: "prim_of_kind k = Some P_bool"
    and left: "correct_visit M m fr V K Dl n1 P_bool denl left" and right: "correct_visit M m fr V K Dr n2 P_bool denr right"
    and D: "temporaries K \<subseteq> Dl" "temporaries K \<subseteq> Dr"
    and st: "stable fr K denr" and op: "op = T_AND \<and> taken = (\<lambda>v. v = 0) \<or> op = T_OR \<and> taken = (\<lambda>v. v \<noteq> 0)"
  shows "correct_visit M m fr V K (temporaries K) (Suc (n1 + n2 + 1)) P_bool
    (\<lambda>mem. do { a \<leftarrow> denl mem; if taken a then Some a else denr mem })
    (VisitBinaryOpExpression L A (Some (BuiltinType k)) op left right)"
proof -
  define b where "b = (if op = T_OR then Core JumpIfTrue else Core JumpIfFalse)"
  have b: "b = Core JumpIfTrue \<and> taken = (\<lambda>v. v \<noteq> 0) \<or> b = Core JumpIfFalse \<and> taken = (\<lambda>v. v = 0)" using op by (auto simp: b_def)
  show ?thesis
  proof (rule visit_with_destination [OF k correct_and_or [OF correct_visit_intoD [OF correct_visit_mono [OF left D(1)]]
        correct_visit_intoD [OF correct_visit_mono [OF right D(2)]] b] order_refl logical_form [OF k]])
    show "op = T_AND \<and> b = Core JumpIfFalse \<or> op = T_OR \<and> b = Core JumpIfTrue" using op by (auto simp: b_def)
    show "\<exists>a. denl mem = Some a \<and> (taken a \<longrightarrow> v = a)" if "do { a \<leftarrow> denl mem; if taken a then Some a else denr mem } = Some v" for mem v
      using that by (auto split: bind_splits)
    show "denr mem1 = Some v" if "off \<in> temporaries K" "K \<le> unat (fr_size fr)" "slot_ok fr P_bool off" "denl mem = Some a" "\<not> taken a"
        "do { a \<leftarrow> denl mem; if taken a then Some a else denr mem } = Some v" "same_except fr W mem mem1"
        "W \<subseteq> {K..<unat (fr_size fr)} \<union> {unat off..<unat off + prim_size P_bool}" for off W mem mem1 a v
    proof -
      have "W \<subseteq> {K..<unat (fr_size fr)}" using that(1,3,8) by (auto simp: temporaries_def slot_ok_def)
      with st [unfolded stable_def, rule_format, OF that(2,7)] that(4-6) show ?thesis by simp
    qed
  qed
qed

end

section \<open>Correctness of expressions\<close>

text \<open>The value of a variable is read from its slot in the frame.\<close>

definition var_value :: "machine \<Rightarrow> Frame \<Rightarrow> (string \<rightharpoonup> LocalInfo) \<Rightarrow> vm_memory \<Rightarrow> PrimType \<Rightarrow> string \<Rightarrow> u64 option" where
  "var_value M fr V mem t x = (case V x of Some info \<Rightarrow> value_at M fr mem t (li_offset info) | None \<Rightarrow> None)"

definition vars_ok :: "(string \<rightharpoonup> PrimType) \<Rightarrow> (string \<rightharpoonup> LocalInfo) \<Rightarrow> nat \<Rightarrow> bool" where
  "vars_ok \<Gamma> V K \<longleftrightarrow> (\<forall>x t. \<Gamma> x = Some t \<longrightarrow> (\<exists>info. V x = Some info \<and> unat (li_offset info) + prim_size t \<le> K))"

lemma expr_primE:
  assumes "expr_prim \<Gamma> e = Some t"
  obtains (int) ty p n where "e = TLiteral ty p (IntLiteral n)" "type_prim ty = Some t" "int_prim t"
  | (bool) ty p b where "e = TLiteral ty p (BoolLiteral b)" "type_prim ty = Some t" "t = P_bool"
  | (var) ty p x where "e = TIdentifier ty p x" "type_prim ty = Some t" "\<Gamma> x = Some t"
  | (unary) ty p op e1 where "e = TUnaryOp ty p op e1" "type_prim ty = Some t" "expr_prim \<Gamma> e1 = Some t"
      "if op = T_BANG then t = P_bool else op \<in> {T_MINUS, T_BIT_NOT} \<and> int_prim t"
  | (logical) ty p op l r where "e = TBinaryOp ty p op l r" "type_prim ty = Some P_bool" "expr_prim \<Gamma> l = Some P_bool"
      "expr_prim \<Gamma> r = Some P_bool" "op = T_AND \<or> op = T_OR" "t = P_bool"
  | (arithmetic) ty p op o1 l r where "e = TBinaryOp ty p op l r" "type_prim ty = Some t" "expr_prim \<Gamma> l = Some t"
      "expr_prim \<Gamma> r = Some t" "arithmetic_op op = Some o1" "int_prim t" "op \<noteq> T_AND" "op \<noteq> T_OR"
  | (comparison) ty p op o1 nm l r s where "e = TComparison ty p op l r" "type_prim ty = Some P_bool" "expr_prim \<Gamma> l = Some s"
      "expr_prim \<Gamma> r = Some s" "comparison_name op = Some (o1, nm)" "t = P_bool"
  using assms
  by (cases "(\<Gamma>, e)" rule: expr_prim.cases) (auto simp: checked split: bind_splits if_splits)

lemma eval_cong:
  assumes "expr_prim \<Gamma> e = Some t" and "\<And>x t. \<Gamma> x = Some t \<Longrightarrow> \<sigma> t x = \<sigma>' t x"
  shows "eval_expr M \<sigma> e = eval_expr M \<sigma>' e"
  using assms
proof (induction \<Gamma> e arbitrary: t rule: expr_prim.induct)
  case (3 \<Gamma> ty p x)
  then show ?case by (auto simp: checked split: bind_splits if_splits)
next
  case (4 \<Gamma> ty p op e)
  then show ?case by (auto simp: checked split: bind_splits if_splits)
next
  case (5 \<Gamma> ty p op l r)
  from 5(3) obtain a b where "expr_prim \<Gamma> l = Some a" "expr_prim \<Gamma> r = Some b" by (auto split: bind_splits)
  with 5 show ?case by (auto split: bind_splits)
next
  case (6 \<Gamma> ty p op l r)
  from 6(3) obtain a b where "expr_prim \<Gamma> l = Some a" "expr_prim \<Gamma> r = Some b" by (auto split: bind_splits)
  with 6 show ?case by (auto split: bind_splits)
qed auto

lemma eval_stable:
  assumes "expr_prim \<Gamma> e = Some t" and "vars_ok \<Gamma> V K" and "K \<le> 2 ^ 31"
  shows "stable fr K (\<lambda>mem. eval_expr M (var_value M fr V mem) e)"
  unfolding stable_def
proof (intro allI impI)
  fix W mem mem' assume K: "K \<le> unat (fr_size fr)" and same: "same_except fr W mem mem'" and W: "W \<subseteq> {K..<unat (fr_size fr)}"
  have v: "var_value M fr V mem' t x = var_value M fr V mem t x" if "\<Gamma> x = Some t" for t x
  proof -
    from assms(2) that obtain info where i: "V x = Some info" "unat (li_offset info) + prim_size t \<le> K"
      by (auto simp: vars_ok_def)
    have "value_at M fr mem' t (li_offset info) = value_at M fr mem t (li_offset info)"
      using i(2) K W assms(3) prim_size_pos(1) [of t] by (intro value_at_same [OF same]) auto
    then show ?thesis by (simp add: var_value_def i(1))
  qed
  show "eval_expr M (var_value M fr V mem') e = eval_expr M (var_value M fr V mem) e"
    by (rule eval_cong [OF assms(1)]) (simp add: v)
qed

context primitive_layout
begin

lemma visit_correct:
  assumes E: "ge_llvm E = L" "ge_abi E = A" and V: "vars_ok \<Gamma> V K" and K: "K \<le> 2 ^ 31"
  shows "expr_prim \<Gamma> e = Some t \<Longrightarrow> correct_visit M m fr V K (if reads_first e then UNIV else temporaries K) (expr_cost e) t
    (\<lambda>mem. eval_expr M (var_value M fr V mem) e) (gen_VisitExpr E e)"
proof (induction "size e" arbitrary: e t rule: less_induct)
  case less
  note IH = less.hyps
  note stable = eval_stable [OF _ V K]
  show ?case using less.prems
  proof (cases rule: expr_primE)
    case (int ty p n)
    then show ?thesis using type_prim_kind [OF int(2)] by (auto simp: E correct_int_literal)
  next
    case (bool ty p b)
    then show ?thesis using type_prim_kind [OF bool(2)] by (auto simp: E correct_bool_literal)
  next
    case (var ty p x)
    from type_prim_kind [OF var(2)] obtain k where k: "ty = Some (BuiltinType k)" "prim_of_kind k = Some t" by blast
    from V var(3) obtain info where i: "V x = Some info" "unat (li_offset info) + prim_size t \<le> K" by (auto simp: vars_ok_def)
    show ?thesis using correct_identifier [OF k(2), of V x info K M m fr] i by (simp add: var k E var_value_def i(1) type_prim_def)
  next
    case (unary ty p op e1)
    from type_prim_kind [OF unary(2)] obtain k where k: "ty = Some (BuiltinType k)" "prim_of_kind k = Some t" by blast
    have "size e1 < size e" by (simp add: unary(1))
    from correct_unary_op [OF k(2) IH [OF this unary(3)] unary(4)] show ?thesis by (simp add: unary(1) k E type_prim_def)
  next
    case (logical ty p op l r)
    from type_prim_kind [OF logical(2)] obtain k where k: "ty = Some (BuiltinType k)" "prim_of_kind k = Some P_bool" by blast
    have sz: "size l < size e" "size r < size e" by (simp_all add: logical(1))
    have D: "temporaries K \<subseteq> (if reads_first e then UNIV else temporaries K)" for e by simp
    note c = correct_logical [OF k(2) IH [OF sz(1) logical(3)] IH [OF sz(2) logical(4)] D D stable [OF logical(4)]]
    show ?thesis
    proof (cases "op = T_AND")
      case True
      with c [of op "\<lambda>v. v = 0"] show ?thesis by (simp add: logical(1,6) k E)
    next
      case False
      then have "op = T_OR" using logical(5) by simp
      with c [of op "\<lambda>v. v \<noteq> 0"] show ?thesis by (simp add: logical(1,6) k E)
    qed
  next
    case (arithmetic ty p op o1 l r)
    from type_prim_kind [OF arithmetic(2)] obtain k where k: "ty = Some (BuiltinType k)" "prim_of_kind k = Some t" by blast
    have sz: "size l < size e" "size r < size e" by (simp_all add: arithmetic(1))
    from correct_arithmetic [OF k(2) arithmetic(6,5) IH [OF sz(1) arithmetic(3)] IH [OF sz(2) arithmetic(4)] stable [OF arithmetic(4)]]
    show ?thesis using arithmetic by (simp add: k E type_prim_def)
  next
    case (comparison ty p op o1 nm l r s)
    from type_prim_kind [OF comparison(2)] obtain k where k: "ty = Some (BuiltinType k)" "prim_of_kind k = Some P_bool" by blast
    obtain kl where kl: "GetType l = Some (BuiltinType kl)" "prim_of_kind kl = Some s" by (rule expr_prim_GetType [OF comparison(3)])
    have sz: "size l < size e" "size r < size e" by (simp_all add: comparison(1))
    from correct_comparison [OF k(2) comparison(5,3,4) IH [OF sz(1) comparison(3)] IH [OF sz(2) comparison(4)] stable [OF comparison(4)]]
    show ?thesis using comparison by (simp add: k kl E type_prim_def)
  qed
qed

end

text \<open>The interface is met by the layout of a 64-bit machine.\<close>

definition primitive_sizes :: "abi \<Rightarrow> bool" where
  "primitive_sizes A \<longleftrightarrow> (\<forall>k. \<forall>t \<in> set_option (prim_of_kind k).
     cpp_sizeof A k = of_nat (prim_size t) \<and> cpp_alignof A k = of_nat (prim_size t))"

lemma primitive_abi_sizes: "primitive_sizes primitive_abi"
proof -
  have "cpp_sizeof primitive_abi k = of_nat (prim_size t) \<and> cpp_alignof primitive_abi k = of_nat (prim_size t)"
    if "prim_of_kind k = Some t" for k t
    using prim_of_kind_cases [OF that] by (auto simp: primitive_abi_def prim_size_def Let_def)
  then show ?thesis by (simp add: primitive_sizes_def)
qed

lemma primitive_layoutI: "llvm_pow2_ok L \<Longrightarrow> llvm_align_ok L \<Longrightarrow> primitive_sizes A \<Longrightarrow> primitive_layout L A"
  by unfold_locales (auto simp: primitive_sizes_def)

interpretation reference_layout: primitive_layout llvm_reference primitive_abi
  by (intro primitive_layoutI llvm_okD(3) llvm_reference_ok llvm_reference_align primitive_abi_sizes)

end
