(* ===== verification/CodegenMain.thy ===== *)
theory CodegenMain
  imports CodegenCorrect
begin

text \<open>
  What the correctness of the visitors says of whole pieces of code: the value of an expression, an assignment, and the
  assignment of an and or an or that reads its own target, which gives the value of the left operand only.
\<close>

section \<open>The main theorems\<close>

lemma start_gen_pre:
  assumes "GetCurrentFunction g = Some f" and "vars_ok \<Gamma> (\<lambda>x. LookupLocalInfoByName x f) (unat (frame_size f))"
    and "unat (frame_size f) + 16 * n < 2 ^ 31 - 1" "length (g_code g) + 16 * n < 2 ^ 31 - 1"
  shows "gen_pre (\<lambda>x. LookupLocalInfoByName x f) (unat (frame_size f)) n g" "fsz g = unat (frame_size f)" "unat (frame_size f) \<le> 2 ^ 31"
  using assms by (auto simp: gen_pre_def GetCurrentFunction_def cur_def fsz_def split: if_splits)

lemma extends_current: "extends n g bytes g' \<Longrightarrow> GetCurrentFunction g' = Some (cur g') \<and> fsz g' = unat (frame_size (cur g'))"
  by (simp add: extends_def GetCurrentFunction_def cur_def fsz_def)

text \<open>
  C2. The code of an expression on machine integers and booleans (literals, variables, arithmetic, bitwise and
  comparison operators, and, or, not and negation) is generated whenever the frame and the code stay below their bounds,
  and, wherever it is placed, the interpreter runs through it and leaves the value of the expression in the slot that
  the visitor returns. Only the new temporaries of the frame change.
\<close>

theorem expression_code_correct:
  assumes llvm: "llvm_pow2_ok (ge_llvm E)" "llvm_align_ok (ge_llvm E)" and abi: "primitive_sizes (ge_abi E)"
    and typed: "expr_prim \<Gamma> e = Some t" and f: "GetCurrentFunction g = Some f"
    and vars: "vars_ok \<Gamma> (\<lambda>x. LookupLocalInfoByName x f) (unat (frame_size f))"
    and small: "unat (frame_size f) + 16 * expr_cost e < 2 ^ 31 - 1" "length (g_code g) + 16 * expr_cost e < 2 ^ 31 - 1"
  shows "\<exists>res g' f' bytes. VisitExpressionForRValue (gen_VisitExpr E e) g = Some (res, g') \<and> GetCurrentFunction g' = Some f' \<and>
    g_code g' = g_code g @ bytes \<and> length bytes \<le> 16 * expr_cost e \<and>
    unat (frame_size f) \<le> unat (frame_size f') \<and> unat (frame_size f') \<le> unat (frame_size f) + 16 * expr_cost e \<and>
    (\<forall>M m fr mem v. placed m (length (g_code g)) bytes \<and> frame_size f' \<le> fr_size fr \<and> frame_mapped fr mem \<and>
       eval_expr M (var_value M fr (\<lambda>x. LookupLocalInfoByName x f) mem) e = Some v \<longrightarrow>
       (\<exists>k mem'. (\<forall>n. Interpret (k + n) M m (length (g_code g)) fr mem = Interpret n M m (length (g_code g')) fr mem') \<and>
          LocalAt M fr mem' t (LocalVar_Encode res) = Some v \<and>
          same_except fr {unat (frame_size f)..<unat (frame_size f')} mem mem'))"
proof -
  note layout = primitive_layoutI [OF llvm abi]
  note pre = start_gen_pre [OF f vars small]
  note correct = correct_visit_operand [OF primitive_layout.visit_correct [OF layout refl refl vars pre(3) typed] pre(1)]
  obtain off bytes g' where gen: "VisitExpressionForRValue (gen_VisitExpr E e) g = Some (LocalVar_new off Value, g')"
    and ex: "extends (expr_cost e) g bytes g'" by (rule correct [of undefined undefined undefined])
  note cur = extends_current [OF ex]
  have "\<exists>k mem'. (\<forall>n. Interpret (k + n) M m (length (g_code g)) fr mem = Interpret n M m (length (g_code g')) fr mem') \<and>
      LocalAt M fr mem' t (LocalVar_Encode (LocalVar_new off Value)) = Some v \<and>
      same_except fr {unat (frame_size f)..<unat (frame_size (cur g'))} mem mem'"
    if run: "placed m (length (g_code g)) bytes" "frame_size (cur g') \<le> fr_size fr" "frame_mapped fr mem"
      "eval_expr M (var_value M fr (\<lambda>x. LookupLocalInfoByName x f) mem) e = Some v" for M m fr mem v
  proof -
    obtain off2 bytes2 g2 where c: "VisitExpressionForRValue (gen_VisitExpr E e) g = Some (LocalVar_new off2 Value, g2)"
      "extends (expr_cost e) g bytes2 g2" "computes M m fr g bytes2 g2 {fsz g..<fsz g2}
        (\<lambda>mem. eval_expr M (var_value M fr (\<lambda>x. LookupLocalInfoByName x f) mem) e) t off2" by (rule correct)
    then have g2: "g2 = g'" "LocalVar_new off2 Value = LocalVar_new off Value" using gen by simp_all
    then have "bytes2 = bytes" using c(2) ex by (simp add: extends_def)
    moreover have "fsz g2 \<le> unat (fr_size fr)" using run(2) g2 cur by (simp add: word_le_nat_alt)
    ultimately obtain mem' where "runs M m fr (length (g_code g), mem) (length (g_code g2), mem')"
      "same_except fr {fsz g..<fsz g2} mem mem'" "value_at M fr mem' t off2 = Some v"
      using computesD [OF c(3) _ _ run(3,4)] run(1) by metis
    then show ?thesis using g2 pre(2) cur by (auto simp: runs_def value_at_def)
  qed
  then show ?thesis using gen ex cur pre(2)
    by (intro exI [of _ "LocalVar_new off Value"] exI [of _ g'] exI [of _ "cur g'"] exI [of _ bytes]) (auto simp: extends_def)
qed

text \<open>
  The code of a statement, generated in the state, gives a variable a value that depends on the memory before, and
  changes nothing else below the new temporaries.
\<close>

definition assigns :: "gen_env \<Rightarrow> TStmt \<Rightarrow> Generator \<Rightarrow> nat \<Rightarrow> string \<Rightarrow> PrimType \<Rightarrow>
    (machine \<Rightarrow> (PrimType \<Rightarrow> string \<Rightarrow> u64 option) \<Rightarrow> u64 option) \<Rightarrow> bool" where
  "assigns E s g n x t value \<longleftrightarrow> (\<exists>f info g' f' bytes.
     GetCurrentFunction g = Some f \<and> LookupLocalInfoByName x f = Some info \<and>
     (\<forall>r. gen_VisitStmt E s r g = Some (r, g')) \<and> GetCurrentFunction g' = Some f' \<and>
     g_code g' = g_code g @ bytes \<and> unat (frame_size f') \<le> unat (frame_size f) + 16 * n \<and>
     (\<forall>M m fr mem v. placed m (length (g_code g)) bytes \<and> frame_size f' \<le> fr_size fr \<and> frame_mapped fr mem \<and>
        value M (var_value M fr (\<lambda>x. LookupLocalInfoByName x f) mem) = Some v \<longrightarrow>
        (\<exists>k mem'. (\<forall>n. Interpret (k + n) M m (length (g_code g)) fr mem = Interpret n M m (length (g_code g')) fr mem') \<and>
           var_value M fr (\<lambda>x. LookupLocalInfoByName x f) mem' t x = Some v \<and>
           same_except fr ({unat (frame_size f)..<unat (frame_size f')} \<union>
             {unat (li_offset info)..<unat (li_offset info) + prim_size t}) mem mem')))"

lemma assigns_visit:
  assumes f: "GetCurrentFunction g = Some f"
    and vars: "vars_ok \<Gamma> (\<lambda>x. LookupLocalInfoByName x f) (unat (frame_size f))"
    and small: "unat (frame_size f) + 16 * n < 2 ^ 31 - 1" "length (g_code g) + 16 * n < 2 ^ 31 - 1"
    and x: "\<Gamma> x = Some t"
    and visit: "\<And>info M m fr. LookupLocalInfoByName x f = Some info \<Longrightarrow>
      correct_into M m fr (\<lambda>x. LookupLocalInfoByName x f) (unat (frame_size f)) {li_offset info} n t
        (\<lambda>mem. val M (var_value M fr (\<lambda>x. LookupLocalInfoByName x f) mem)) (gen_VisitExpr E e)"
  shows "assigns E (TAssignment p (TIdentifier ty q x) e) g n x t val"
proof -
  let ?V = "\<lambda>x. LookupLocalInfoByName x f"
  note pre = start_gen_pre [OF f vars small]
  from vars x obtain info where i: "?V x = Some info" "unat (li_offset info) + prim_size t \<le> unat (frame_size f)"
    by (auto simp: vars_ok_def)
  let ?off = "li_offset info"
  have "unat ?off < 2 ^ 31" using i(2) small(1) prim_size_pos(1) [of t] by linarith
  have fit: "unat ?off + prim_size t \<le> fsz g" using i(2) pre(2) by simp
  have ident: "VisitExpressionForLValue (gen_VisitExpr E (TIdentifier ty q x)) g = Some (LocalVar_new ?off Address, g)"
    by (simp add: VisitExpressionForLValue_def gen_VisitIdentifierExpression_def f LookupLocal_var_def i(1) SetDestination_def Let_def)
  note correct = correct_into_store [OF visit [OF i(1)] pre(1) fit singletonI]
  obtain bytes g' where gen: "VisitExpressionForRValue_dest (gen_VisitExpr E e) (LocalVar_new ?off Address) g = Some g'"
    and ex: "extends n g bytes g'" by (rule correct [of undefined undefined undefined])
  note cur = extends_current [OF ex]
  have run: "\<exists>k mem'. (\<forall>n. Interpret (k + n) M m (length (g_code g)) fr mem = Interpret n M m (length (g_code g')) fr mem') \<and>
      var_value M fr ?V mem' t x = Some v \<and>
      same_except fr ({unat (frame_size f)..<unat (frame_size (cur g'))} \<union> {unat ?off..<unat ?off + prim_size t}) mem mem'"
    if at: "placed m (length (g_code g)) bytes" "frame_size (cur g') \<le> fr_size fr" "frame_mapped fr mem"
      "val M (var_value M fr ?V mem) = Some v" for M m fr mem v
  proof -
    obtain bytes2 g2 where c: "VisitExpressionForRValue_dest (gen_VisitExpr E e) (LocalVar_new ?off Address) g = Some g2"
      "extends n g bytes2 g2" "computes M m fr g bytes2 g2 ({fsz g..<fsz g2} \<union> {unat ?off..<unat ?off + prim_size t})
        (\<lambda>mem. val M (var_value M fr ?V mem)) t ?off" by (rule correct)
    then have g2: "g2 = g'" using gen by simp
    then have "bytes2 = bytes" using c(2) ex by (simp add: extends_def)
    moreover have "fsz g2 \<le> unat (fr_size fr)" using at(2) g2 cur by (simp add: word_le_nat_alt)
    ultimately obtain mem' where "runs M m fr (length (g_code g), mem) (length (g_code g2), mem')"
      "same_except fr ({fsz g..<fsz g2} \<union> {unat ?off..<unat ?off + prim_size t}) mem mem'" "value_at M fr mem' t ?off = Some v"
      using computesD [OF c(3) _ _ at(3,4)] at(1) by metis
    then show ?thesis using g2 pre(2) cur i(1) by (auto simp: runs_def var_value_def)
  qed
  have "gen_VisitStmt E (TAssignment p (TIdentifier ty q x) e) r g = Some (r, g')" for r
    using ident gen by (simp add: VisitAssignmentStatement_def)
  then show ?thesis unfolding assigns_def using f i(1) ex cur pre(2) run
    by (intro exI [of _ f] exI [of _ info] exI [of _ g'] exI [of _ "cur g'"] exI [of _ bytes]) (auto simp: extends_def)
qed

text \<open>
  C4. An assignment to a variable whose right-hand side is not itself an and or an or gives the variable the value of
  the expression before the assignment, even when the variable occurs in it.
\<close>

theorem assignment_code_correct:
  assumes llvm: "llvm_pow2_ok (ge_llvm E)" "llvm_align_ok (ge_llvm E)" and abi: "primitive_sizes (ge_abi E)"
    and typed: "expr_prim \<Gamma> e = Some t" and first: "reads_first e" and x: "\<Gamma> x = Some t"
    and f: "GetCurrentFunction g = Some f"
    and vars: "vars_ok \<Gamma> (\<lambda>x. LookupLocalInfoByName x f) (unat (frame_size f))"
    and small: "unat (frame_size f) + 16 * expr_cost e < 2 ^ 31 - 1" "length (g_code g) + 16 * expr_cost e < 2 ^ 31 - 1"
  shows "assigns E (TAssignment p (TIdentifier ty q x) e) g (expr_cost e) x t (\<lambda>M \<sigma>. eval_expr M \<sigma> e)"
proof (rule assigns_visit [OF f vars small x])
  fix info M m fr
  note layout = primitive_layoutI [OF llvm abi]
  from primitive_layout.visit_correct [OF layout refl refl vars start_gen_pre(3) [OF f vars small] typed, of M m fr] first
  show "correct_into M m fr (\<lambda>x. LookupLocalInfoByName x f) (unat (frame_size f)) {li_offset info} (expr_cost e) t
      (\<lambda>mem. eval_expr M (var_value M fr (\<lambda>x. LookupLocalInfoByName x f) mem) e) (gen_VisitExpr E e)"
    by (auto intro!: correct_visit_intoD intro: correct_visit_mono)
qed

text \<open>
  C39. An assignment to a boolean variable of an and or an or whose right operand is the variable itself gives it
  the value of the left operand, whatever it held: the left operand is stored into the variable before the right one is
  read.
\<close>

theorem logical_assignment_overwrites:
  assumes llvm: "llvm_pow2_ok (ge_llvm E)" "llvm_align_ok (ge_llvm E)" and abi: "primitive_sizes (ge_abi E)"
    and typed: "expr_prim \<Gamma> (TBinaryOp tb pb op l (TIdentifier ty q x)) = Some P_bool" and op: "op \<in> {T_AND, T_OR}"
    and first: "reads_first l" and f: "GetCurrentFunction g = Some f"
    and vars: "vars_ok \<Gamma> (\<lambda>x. LookupLocalInfoByName x f) (unat (frame_size f))"
    and small: "unat (frame_size f) + 16 * (expr_cost l + 3) < 2 ^ 31 - 1" "length (g_code g) + 16 * (expr_cost l + 3) < 2 ^ 31 - 1"
  shows "assigns E (TAssignment p (TIdentifier ty q x) (TBinaryOp tb pb op l (TIdentifier ty q x))) g (expr_cost l + 3) x P_bool
    (\<lambda>M \<sigma>. eval_expr M \<sigma> l)"
proof -
  note layout = primitive_layoutI [OF llvm abi]
  let ?V = "\<lambda>x. LookupLocalInfoByName x f" and ?K = "unat (frame_size f)"
  from typed op have ty: "type_prim tb = Some P_bool" "expr_prim \<Gamma> l = Some P_bool" "expr_prim \<Gamma> (TIdentifier ty q x) = Some P_bool"
    "\<Gamma> x = Some P_bool" by (auto simp: checked split: bind_splits if_splits)
  from type_prim_kind [OF ty(1)] obtain k where k: "tb = Some (BuiltinType k)" "prim_of_kind k = Some P_bool" by blast
  show ?thesis
  proof (rule assigns_visit [OF f vars small ty(4)])
    fix info M m fr assume i: "?V x = Some info"
    let ?den = "\<lambda>e mem. eval_expr M (var_value M fr ?V mem) e"
    let ?D = "{li_offset info}"
    note visit = primitive_layout.visit_correct [OF layout refl refl vars start_gen_pre(3) [OF f vars small], of _ _ M m fr]
    have left: "correct_into M m fr ?V ?K ?D (expr_cost l) P_bool (?den l) (gen_VisitExpr E l)"
      using visit [OF ty(2)] first by (auto intro!: correct_visit_intoD intro: correct_visit_mono)
    have right: "correct_into M m fr ?V ?K ?D 1 P_bool (?den (TIdentifier ty q x)) (gen_VisitExpr E (TIdentifier ty q x))"
      using visit [OF ty(3)] by (auto intro!: correct_visit_intoD intro: correct_visit_mono)
    define taken where "taken = (\<lambda>v :: u64. if op = T_AND then v = 0 else v \<noteq> 0)"
    define b where "b = (if op = T_AND then Core JumpIfFalse else Core JumpIfTrue)"
    have b: "b = Core JumpIfTrue \<and> taken = (\<lambda>v. v \<noteq> 0) \<or> b = Core JumpIfFalse \<and> taken = (\<lambda>v. v = 0)"
      by (auto simp: b_def taken_def)
    have ob: "op = T_AND \<and> b = Core JumpIfFalse \<or> op = T_OR \<and> b = Core JumpIfTrue" using op by (auto simp: b_def)
    have "correct_into M m fr ?V ?K ?D (Suc (expr_cost l + 1 + 1)) P_bool (?den l)
        (VisitBinaryOpExpression (ge_llvm E) (ge_abi E) (Some (BuiltinType k)) op (gen_VisitExpr E l) (gen_VisitExpr E (TIdentifier ty q x)))"
    proof (rule primitive_layout.visit_into [OF layout correct_and_or [OF left right b] primitive_layout.logical_form [OF layout k(2) ob]])
      show "\<exists>a. ?den l mem = Some a \<and> (taken a \<longrightarrow> v = a)" if "?den l mem = Some v" for mem v using that by blast
      show "?den (TIdentifier ty q x) mem1 = Some v" if "off \<in> ?D" "?den l mem = Some a" "?den l mem = Some v"
          "value_at M fr mem1 P_bool off = Some a" for off mem mem1 a v
        using that i ty(3) by (auto simp: var_value_def checked split: bind_splits if_splits)
    qed
    then show "correct_into M m fr ?V ?K ?D (expr_cost l + 3) P_bool (?den l) (gen_VisitExpr E (TBinaryOp tb pb op l (TIdentifier ty q x)))"
      by (simp add: k(1) numeral_3_eq_3)
  qed
qed

section \<open>Examples\<close>

text \<open>A function with a parameter \<open>x : int32\<close> and two variables \<open>a\<close> and \<open>b\<close> of type \<^verbatim>\<open>bool\<close>, and a frame in which
  \<open>x\<close> is 41, \<open>a\<close> is false and \<open>b\<close> is true.\<close>

definition example_env :: gen_env where
  "example_env = \<lparr>ge_llvm = llvm_reference, ge_abi = primitive_abi, float_val = (\<lambda>_. 0), double_val = (\<lambda>_. 0),
     ge_tables = (\<lambda>_. None)\<rparr>"

definition example_function :: FunctionInfo where
  "example_function = (FunctionInfo_new 0 ''f'' ([], BuiltinType K_Nil))\<lparr>
     fi_locals := [\<lparr>li_name = ''x'', li_type = BuiltinType K_Int32, li_offset = 0, li_size = 4, li_kind = LocalKind_Parameter\<rparr>,
       \<lparr>li_name = ''a'', li_type = BuiltinType K_Bool, li_offset = 4, li_size = 1, li_kind = LocalKind_Var\<rparr>,
       \<lparr>li_name = ''b'', li_type = BuiltinType K_Bool, li_offset = 5, li_size = 1, li_kind = LocalKind_Var\<rparr>],
     frame_size := 6\<rparr>"

definition example_generator :: Generator where
  "example_generator = BytecodeGenerator_new\<lparr>g_functions := [example_function]\<rparr>"

definition example_machine :: machine where
  "example_machine = \<lparr>fp_compare = (\<lambda>_ _ _ _. False), fp_arith = (\<lambda>_ _ _ _. 0), fp_cast = (\<lambda>_ _ _. None),
     count_leading = (\<lambda>_ _. 0), count_trailing = (\<lambda>_ _. 0), allocate = (\<lambda>_ _. None)\<rparr>"

definition example_frame :: Frame where
  "example_frame = \<lparr>frame_data = 4096, fr_size = 256\<rparr>"

definition example_memory :: vm_memory where
  "example_memory = (\<lambda>a. Some (if a = 4096 then 41 else if a = 4101 then 1 else 0))"

definition example_types :: "string \<rightharpoonup> PrimType" where
  "example_types = [''x'' \<mapsto> P_int32, ''a'' \<mapsto> P_bool, ''b'' \<mapsto> P_bool]"

lemma example_setup:
  "llvm_pow2_ok (ge_llvm example_env)" "llvm_align_ok (ge_llvm example_env)" "primitive_sizes (ge_abi example_env)"
  "GetCurrentFunction example_generator = Some example_function"
  "vars_ok example_types (\<lambda>x. LookupLocalInfoByName x example_function) (unat (frame_size example_function))"
  "frame_size example_function = 6" "g_code example_generator = []" "frame_mapped example_frame example_memory"
  by (simp_all add: example_env_def llvm_okD(3) llvm_reference_ok llvm_reference_align primitive_abi_sizes example_generator_def
      GetCurrentFunction_def vars_ok_def example_function_def FunctionInfo_new_def LookupLocalInfoByName_def example_types_def
      prim_size_def BytecodeGenerator_new_def frame_mapped_def example_memory_def)

lemma example_value:
  "var_value example_machine example_frame (\<lambda>x. LookupLocalInfoByName x example_function) example_memory P_int32 ''x'' = Some 41"
  "var_value example_machine example_frame (\<lambda>x. LookupLocalInfoByName x example_function) example_memory P_bool ''a'' = Some 0"
  "var_value example_machine example_frame (\<lambda>x. LookupLocalInfoByName x example_function) example_memory P_bool ''b'' = Some 1"
  by (code_simp)+

definition example_position :: SourcePosition where
  "example_position = \<lparr>pos_line = 1, pos_column = 1\<rparr>"

abbreviation example_var :: "Kind \<Rightarrow> string \<Rightarrow> TExpr" where
  "example_var k x \<equiv> TIdentifier (Some (BuiltinType k)) example_position x"

text \<open>\<^verbatim>\<open>(x + 1) * x\<close>.\<close>

definition example_product :: TExpr where
  "example_product = TBinaryOp (Some (BuiltinType K_Int32)) example_position T_STAR
     (TBinaryOp (Some (BuiltinType K_Int32)) example_position T_PLUS (example_var K_Int32 ''x'')
        (TLiteral (Some (BuiltinType K_Int32)) example_position (IntLiteral 1)))
     (example_var K_Int32 ''x'')"

text \<open>\<^verbatim>\<open>b and a\<close>.\<close>

definition example_and :: TExpr where
  "example_and = TBinaryOp (Some (BuiltinType K_Bool)) example_position T_AND (example_var K_Bool ''b'') (example_var K_Bool ''a'')"

lemma example_product_facts:
  "expr_prim example_types example_product = Some P_int32" "expr_cost example_product = 8" "reads_first example_product"
  "eval_expr example_machine (var_value example_machine example_frame (\<lambda>x. LookupLocalInfoByName x example_function) example_memory)
     example_product = Some 1722"
proof -
  show "expr_prim example_types example_product = Some P_int32" "expr_cost example_product = 8" "reads_first example_product"
    by (simp_all add: example_product_def type_prim_def prim_of_kind_def int_prim_def INT_TYPES_def example_types_def checked)
  show "eval_expr example_machine (var_value example_machine example_frame (\<lambda>x. LookupLocalInfoByName x example_function) example_memory)
      example_product = Some 1722"
    by code_simp
qed

lemma example_and_facts:
  "expr_prim example_types example_and = Some P_bool"
  "eval_expr example_machine (var_value example_machine example_frame (\<lambda>x. LookupLocalInfoByName x example_function) example_memory)
     example_and = Some 0"
proof -
  show "expr_prim example_types example_and = Some P_bool"
    by (simp add: example_and_def type_prim_def prim_of_kind_def example_types_def checked)
  show "eval_expr example_machine (var_value example_machine example_frame (\<lambda>x. LookupLocalInfoByName x example_function) example_memory)
      example_and = Some 0"
    by code_simp
qed

lemma example_fits:
  assumes "unat (frame_size f') \<le> unat (frame_size example_function) + 16 * n" and "n \<le> 15"
  shows "frame_size f' \<le> fr_size example_frame"
  using assms by (simp add: word_le_nat_alt example_frame_def example_setup(6))

text \<open>What a run of the code in the example frame gives.\<close>

definition example_module :: "Generator \<Rightarrow> Module" where
  "example_module g = \<lparr>m_code = g_code g, m_functions = []\<rparr>"

lemma example_placed: "g_code g' = g_code example_generator @ bytes \<Longrightarrow> placed (example_module g') (length (g_code example_generator)) bytes"
  by (auto simp: placed_def example_setup(7) example_module_def)

abbreviation example_sigma :: "vm_memory \<Rightarrow> PrimType \<Rightarrow> string \<Rightarrow> u64 option" where
  "example_sigma mem \<equiv> var_value example_machine example_frame (\<lambda>x. LookupLocalInfoByName x example_function) mem"

lemma run_assigns:
  assumes "assigns example_env s example_generator n x t val" and "n \<le> 15"
    and v: "val example_machine (example_sigma example_memory) = Some v"
  shows "\<exists>g' k mem'. gen_VisitStmt example_env s None example_generator = Some (None, g') \<and>
    (\<forall>n. Interpret (k + n) example_machine (example_module g') 0 example_frame example_memory =
      Interpret n example_machine (example_module g') (length (g_code g')) example_frame mem') \<and>
    example_sigma mem' t x = Some v"
proof -
  from assms(1) obtain f g' bytes and info :: LocalInfo and f' :: FunctionInfo where f: "GetCurrentFunction example_generator = Some f"
    and gen: "\<forall>r. gen_VisitStmt example_env s r example_generator = Some (r, g')"
    and code: "g_code g' = g_code example_generator @ bytes" and size: "unat (frame_size f') \<le> unat (frame_size f) + 16 * n"
    and run: "\<forall>M m fr mem v. placed m (length (g_code example_generator)) bytes \<and> frame_size f' \<le> fr_size fr \<and> frame_mapped fr mem \<and>
       val M (var_value M fr (\<lambda>x. LookupLocalInfoByName x f) mem) = Some v \<longrightarrow>
       (\<exists>k mem'. (\<forall>n. Interpret (k + n) M m (length (g_code example_generator)) fr mem = Interpret n M m (length (g_code g')) fr mem') \<and>
          var_value M fr (\<lambda>x. LookupLocalInfoByName x f) mem' t x = Some v \<and>
          same_except fr ({unat (frame_size f)..<unat (frame_size f')} \<union>
             {unat (li_offset info)..<unat (li_offset info) + prim_size t}) mem mem')"
    unfolding assigns_def by (elim exE conjE) (rule that; assumption)
  have ff: "f = example_function" using f example_setup(4) by simp
  from run [unfolded ff, rule_format, OF conjI [OF example_placed [OF code] conjI [OF example_fits [OF size [unfolded ff] assms(2)]
      conjI [OF example_setup(8) v]]]] gen
  show ?thesis unfolding example_setup(7) list.size by blast
qed

theorem expression_code_correct_witness:
  "\<exists>res g' k mem'. VisitExpressionForRValue (gen_VisitExpr example_env example_product) example_generator = Some (res, g') \<and>
    (\<forall>n. Interpret (k + n) example_machine (example_module g') 0 example_frame example_memory =
      Interpret n example_machine (example_module g') (length (g_code g')) example_frame mem') \<and>
    LocalAt example_machine example_frame mem' P_int32 (LocalVar_Encode res) = Some 1722"
proof -
  have b: "unat (frame_size example_function) + 16 * expr_cost example_product < 2 ^ 31 - 1"
    "length (g_code example_generator) + 16 * expr_cost example_product < 2 ^ 31 - 1"
    by (simp_all add: example_product_facts(2) example_setup(6,7))
  from expression_code_correct [OF example_setup(1-3) example_product_facts(1) example_setup(4,5) b]
  obtain res g' bytes and f' :: FunctionInfo where gen: "VisitExpressionForRValue (gen_VisitExpr example_env example_product) example_generator = Some (res, g')"
    and code: "g_code g' = g_code example_generator @ bytes"
    and size: "unat (frame_size f') \<le> unat (frame_size example_function) + 16 * expr_cost example_product"
    and run: "\<forall>M m fr mem v. placed m (length (g_code example_generator)) bytes \<and> frame_size f' \<le> fr_size fr \<and> frame_mapped fr mem \<and>
       eval_expr M (var_value M fr (\<lambda>x. LookupLocalInfoByName x example_function) mem) example_product = Some v \<longrightarrow>
       (\<exists>k mem'. (\<forall>n. Interpret (k + n) M m (length (g_code example_generator)) fr mem = Interpret n M m (length (g_code g')) fr mem') \<and>
          LocalAt M fr mem' P_int32 (LocalVar_Encode res) = Some v \<and>
          same_except fr {unat (frame_size example_function)..<unat (frame_size f')} mem mem')"
    by (elim exE conjE) (rule that; assumption)
  have "expr_cost example_product \<le> 15" by (simp add: example_product_facts(2))
  from run [rule_format, OF conjI [OF example_placed [OF code] conjI [OF example_fits [OF size this]
      conjI [OF example_setup(8) example_product_facts(4)]]]] gen
  show ?thesis unfolding example_setup(7) list.size by blast
qed

theorem assignment_code_correct_witness:
  "\<exists>g' k mem'. gen_VisitStmt example_env (TAssignment example_position (example_var K_Int32 ''x'') example_product) None example_generator = Some (None, g') \<and>
    (\<forall>n. Interpret (k + n) example_machine (example_module g') 0 example_frame example_memory =
      Interpret n example_machine (example_module g') (length (g_code g')) example_frame mem') \<and>
    example_sigma mem' P_int32 ''x'' = Some 1722"
proof -
  have "assigns example_env (TAssignment example_position (example_var K_Int32 ''x'') example_product) example_generator 8 ''x'' P_int32
      (\<lambda>M \<sigma>. eval_expr M \<sigma> example_product)"
    using assignment_code_correct [OF example_setup(1-3) example_product_facts(1,3) _ example_setup(4,5), of "''x''" example_position]
    by (simp only: example_product_facts(2) example_setup(6,7)) (simp add: example_types_def)
  from run_assigns [OF this _ example_product_facts(4)] show ?thesis by simp
qed

theorem logical_assignment_overwrites_witness:
  "\<exists>g' k mem'. gen_VisitStmt example_env (TAssignment example_position (example_var K_Bool ''a'') example_and) None example_generator = Some (None, g') \<and>
    (\<forall>n. Interpret (k + n) example_machine (example_module g') 0 example_frame example_memory =
      Interpret n example_machine (example_module g') (length (g_code g')) example_frame mem') \<and>
    eval_expr example_machine (example_sigma example_memory) example_and = Some 0 \<and> example_sigma mem' P_bool ''a'' = Some 1"
proof -
  have w: "assigns example_env (TAssignment example_position (example_var K_Bool ''a'') example_and) example_generator 4 ''a'' P_bool
      (\<lambda>M \<sigma>. eval_expr M \<sigma> (example_var K_Bool ''b''))"
    using logical_assignment_overwrites [OF example_setup(1-3) example_and_facts(1) [unfolded example_and_def] _ _ example_setup(4,5),
      of example_position, folded example_and_def]
    by (simp add: example_setup(6,7))
  have v: "eval_expr example_machine (example_sigma example_memory) (example_var K_Bool ''b'') = Some 1"
    using example_value(3) by (simp add: type_prim_def prim_of_kind_def)
  have "(4::nat) \<le> 15" by simp
  from run_assigns [OF w this v] example_and_facts(2) show ?thesis by blast
qed

end
