(* ===== verification/Spec2Isabelle.thy ===== *)
theory Spec2Isabelle
  imports TupleIdList Varlen ParserCorrect SemaSound BytecodeCorrect CodegenMain
begin

text \<open>
  TPL is the query engine of a database system: queries are compiled to programs in the language TPL, which are
  scanned, parsed, checked and compiled to bytecode, and which call a library of vectorised operations on
  tuples. This development models the compiler of the language, from the scanner to the interpreter of the bytecode,
  and the foundations of the vectorised engine.

  \<^bold>\<open>The front end\<close> turns a source text into a checked syntax tree.
    \<^item> \<open>Token\<close> (\<^verbatim>\<open>parsing/token.h\<close>): the table of the tokens and the predicates on them.
    \<^item> \<open>Scanner\<close> (\<^verbatim>\<open>parsing/scanner.h\<close>, \<^verbatim>\<open>parsing/scanner.cpp\<close>): one definition per method. The loop of
      \<^verbatim>\<open>Scan\<close> is the partial function \<open>scan_loop\<close>, which has no value when the loop does not end. Proved: printing
      tokens and scanning gives them back; the scanner ends on every source made of known characters and does not
      end on some others; the keyword switch recognises the keywords of the token table.
    \<^item> \<open>Ast\<close> (\<^verbatim>\<open>ast/ast.h\<close>) and \<open>Parser\<close> (\<^verbatim>\<open>parsing/parser.cpp\<close>): the tree and one definition per
      production. Productions call each other through the record \<open>productions\<close>, unrolled \<open>n\<close> times by
      \<open>productions_of n\<close>; a result holds for every \<open>n\<close> above a bound that its theorem gives.
      Proved: scanning and parsing the text of an expression gives the expression back. \<open>ParserInvariant\<close>: what
      reading a token and reporting an error keep, every production keeps (the locale \<open>parser_invariant\<close>); it is
      interpreted for the states with no closing parenthesis ahead, in which a call makes the parser run forever.
    \<^item> \<open>Types\<close> (\<^verbatim>\<open>ast/type.h\<close>, \<^verbatim>\<open>ast/type.cpp\<close>, \<^verbatim>\<open>ast/context.cpp\<close>): the types as a datatype, struct
      layout, and the creation of named structs. Proved: fields are aligned, disjoint and packed, the size is a
      multiple of the alignment; every named struct gets a fresh name after finitely many tries.
    \<^item> \<open>Sema\<close>, \<open>SemaBuiltin\<close>, \<open>SemaVisit\<close> (\<^verbatim>\<open>sema/\<close>): the checks, the signatures of the builtin functions,
      and the visitor, which maps the tree of the parser to a typed tree and collects errors.
    \<^item> \<open>SemaInvariant\<close>: what the visitor changes. Checks only report errors (\<open>reports\<close>), expressions leave the
      scopes alone (\<open>expr_frame\<close>), statements and declarations only add new names to the innermost scope
      (\<open>stmt_frame\<close>).
    \<^item> \<open>SemaTyping\<close>, \<open>SemaSound\<close>: the typing rules of the language as inductive predicates on the typed tree,
      independent of the visitor, and the theorem that a program without errors is well typed.

  \<^bold>\<open>The back end\<close> compiles the checked tree to bytecode and interprets it.
    \<^item> \<open>Bytecodes\<close> (\<^verbatim>\<open>vm/bytecodes.h\<close>, \<^verbatim>\<open>vm/bytecode_emitter.cpp\<close>, \<^verbatim>\<open>vm/bytecode_iterator.cpp\<close>,
      \<^verbatim>\<open>vm/bytecode_function_info.cpp\<close>): the table of instructions, the emitter with labels that are patched when
      they are bound, the iterator, and the frame layout. \<open>BytecodeCorrect\<close>: the emitter equals an assembler of
      two passes and the iterator decodes what was emitted; the slots of a frame are aligned and disjoint.
    \<^item> \<open>BytecodeGenerator\<close> (\<^verbatim>\<open>vm/bytecode_generator.cpp\<close>, \<^verbatim>\<open>vm/control_flow_builders.cpp\<close>): one
      definition per visitor, on the typed tree of \<open>SemaVisit\<close>.
    \<^item> \<open>VirtualMachine\<close> (\<^verbatim>\<open>vm/vm.cpp\<close>, \<^verbatim>\<open>vm/bytecode_handlers.h\<close>): the interpreter over a memory of bytes.
      \<open>Interpret\<close> has fuel, one unit per instruction; the theorems give a number of steps that is enough.
    \<^item> \<open>VmCorrect\<close>: what one instruction does to the memory. \<open>CodegenCorrect\<close>: the code of every visitor of an
      expression computes the meaning of the expression, provided the visitors of its operands do. \<open>CodegenMain\<close>:
      the code of an expression leaves its value in the slot that the visitor returns, the code of an assignment
      stores it into the variable and changes nothing else, and an assignment of an and or an or to a variable that
      its right operand reads gives the wrong value. An expression needs at most 16 times \<open>expr_cost\<close> bytes of
      code and of frame; the bound on both is the 31 bits of the offsets.

  \<^bold>\<open>The vectorised engine\<close> works on batches of at most 2048 tuples.
    \<^item> \<open>BitUtil\<close> (\<^verbatim>\<open>util/math_util.h\<close>, \<^verbatim>\<open>util/bit_util.h\<close>), \<open>MatchLUT\<close> (\<^verbatim>\<open>util/vector_lookup_tables.h\<close>).
    \<^item> \<open>VectorUtil\<close> (\<^verbatim>\<open>util/vector_util.cpp\<close>): conversions between selection vectors, byte vectors and bit
      vectors, the SIMD code lane by lane. Proved equal to their set-theoretic meaning and to each other.
    \<^item> \<open>BitVector\<close> (\<^verbatim>\<open>util/bit_vector.h\<close>): the refinement of sets of positions by arrays of words, with the
      invariant that no bit beyond the size is set.
    \<^item> \<open>TupleIdList\<close> (\<^verbatim>\<open>sql/tuple_id_list.h\<close>): the lists of tuple identifiers on top of it. The build switch for
      AVX-512 is the argument \<open>avx512\<close>; the conversions of that build are right only for the \<open>convertible\<close> lists.
    \<^item> \<open>RuntimeTypes\<close> (\<^verbatim>\<open>sql/runtime_types.cpp\<close>): dates and timestamps; proved to be the proleptic Gregorian
      calendar, with round trips through fields, and through text from year 1 on (the text of earlier dates
      cannot be parsed back).
    \<^item> \<open>Varlen\<close> (\<^verbatim>\<open>sql/runtime_types.h\<close>): strings with an inlined prefix over an explicit memory. The locale
      \<open>ordered_values\<close> states what the comparison operators of a value type promise; it is interpreted for
      strings, dates and timestamps.

  \<^bold>\<open>Conventions.\<close> \<open>Prelude\<close> holds the integer widths and checked accesses. An execution is an \<open>option\<close>: \<open>None\<close>
  is a failed assertion or cast, an access out of bounds, a null pointer that is followed, undefined behaviour of C++,
  or (for the scanner, the parser and the interpreter) a loop that does not end or has no fuel left. Functions of LLVM that the code calls are fields of the record \<open>llvm\<close>,
  the layout of C++ types is the record \<open>abi\<close>; what the code relies on are the hypotheses \<open>llvm_ok\<close> and
  \<open>llvm_align_ok\<close>, which \<open>llvm_reference\<close> meets. The record \<open>machine\<close> holds what the interpreter takes from outside: floating-point
  arithmetic, the counting of zeros, and the allocator. The record \<open>gen_env\<close> holds what the generator takes: the two
  records above, the parsing of floating-point literals, and the catalog.

  \<^bold>\<open>Not modelled.\<close> The instructions of the virtual machine that only call functions of the runtime library (they have
  no result in the model), the LLVM back end and the compilation modes of modules; the query planner and the generator
  of TPL code; vectors, vector operations, hash tables, sorting and aggregation; storage, catalog and file access;
  logging, timing and memory pools. They are glue to libraries outside the sources, input and output, or concurrent
  data structures over raw memory. The manifest lists them as components.
\<close>

end
